(* ===== verification/Prelude.thy ===== *)
theory Prelude
  imports Main "HOL-Library.Word" "HOL-Library.Sublist" "HOL-Library.Char_ord" "HOL-Library.List_Lexorder"
begin

unbundle bit_operations_syntax

text \<open>
  What the components share: byte strings and Python's slices, integers read from and written to
  bytes, the few string functions of Python the source calls, and small lemmas on lists. Strings
  are lists of characters with codes below 256; case mapping is that of ASCII letters.
\<close>

section \<open>Collections of facts\<close>

named_theorems handler_defs "definitions of request handlers, unfolded when a handler is analysed"
named_theorems audit_simps "what the audit trail holds after an operation"
named_theorems table_simps "tables after an update of one row"

section \<open>Bytes and slices\<close>

type_synonym byte = "8 word"
type_synonym bytes = "8 word list"

definition pyslice :: "'a list \<Rightarrow> nat \<Rightarrow> nat \<Rightarrow> 'a list" where
  "pyslice xs i j = take (j - i) (drop i xs)"

lemma slice_drop: "pyslice xs i j = pyslice (drop i xs) 0 (j - i)"
  by (simp add: pyslice_def)

lemma length_slice: "j \<le> length xs \<Longrightarrow> length (pyslice xs i j) = j - i"
  by (simp add: pyslice_def)

lemma length_pyslice_less: "0 < i \<Longrightarrow> xs \<noteq> [] \<Longrightarrow> length (pyslice xs i j) < length xs"
  by (auto simp: pyslice_def min_def)

lemma slice_append [simp]: "j \<le> length xs \<Longrightarrow> pyslice (xs @ ys) i j = pyslice xs i j"
  by (simp add: pyslice_def)

lemma slice_take [simp]: "j \<le> n \<Longrightarrow> pyslice (take n xs) i j = pyslice xs i j"
  by (simp add: pyslice_def drop_take min_def diff_le_mono)

lemma slice_full: "pyslice xs 0 n = take n xs"
  by (simp add: pyslice_def)

lemma slice_shift: "pyslice (drop k xs) i j = pyslice xs (k + i) (k + j)"
  by (simp add: pyslice_def add.commute)

lemma take_drop_slice: "take n (drop k xs) = pyslice xs k (k + n)"
  by (simp add: pyslice_def)

definition bytes_of :: "string \<Rightarrow> bytes" where
  "bytes_of s = map (\<lambda>c. word_of_nat (of_char c)) s"

definition be_nat :: "bytes \<Rightarrow> nat" where
  "be_nat bs = foldl (\<lambda>a b. 256 * a + unat b) 0 bs"

definition le_nat :: "bytes \<Rightarrow> nat" where
  "le_nat bs = be_nat (rev bs)"

fun nat_be :: "nat \<Rightarrow> nat \<Rightarrow> bytes" where
  "nat_be 0 k = []"
| "nat_be (Suc n) k = nat_be n (k div 256) @ [word_of_nat k]"

definition nat_le :: "nat \<Rightarrow> nat \<Rightarrow> bytes" where
  "nat_le n k = rev (nat_be n k)"

lemma length_nat_be [simp]: "length (nat_be n k) = n"
  by (induction n arbitrary: k) simp_all

lemma length_nat_le [simp]: "length (nat_le n k) = n"
  by (simp add: nat_le_def)

lemma be_nat_snoc: "be_nat (bs @ [b]) = 256 * be_nat bs + unat b"
  by (simp add: be_nat_def)

lemma be_nat_nat_be: "k < 256 ^ n \<Longrightarrow> be_nat (nat_be n k) = k"
proof (induction n arbitrary: k)
  case 0
  then show ?case by (simp add: be_nat_def)
next
  case (Suc n)
  then have "k div 256 < 256 ^ n" by (simp add: less_mult_imp_div_less mult.commute)
  with Suc.IH have "be_nat (nat_be n (k div 256)) = k div 256" by blast
  then show ?case by (simp add: be_nat_snoc unat_of_nat)
qed

lemma le_nat_nat_le: "k < 256 ^ n \<Longrightarrow> le_nat (nat_le n k) = k"
  by (simp add: le_nat_def nat_le_def be_nat_nat_be)

section \<open>CRC-32 (zlib.crc32)\<close>

definition crc_bit :: "32 word \<Rightarrow> 32 word" where
  "crc_bit c = (if bit c 0 then drop_bit 1 c XOR 0xEDB88320 else drop_bit 1 c)"

definition crc_byte :: "32 word \<Rightarrow> byte \<Rightarrow> 32 word" where
  "crc_byte c b = (crc_bit ^^ 8) (c XOR ucast b)"

definition crc32 :: "bytes \<Rightarrow> nat" where
  "crc32 bs = unat (NOT (foldl crc_byte 0xFFFFFFFF bs) :: 32 word)"

lemma crc32_bound: "crc32 bs < 256 ^ 4"
  using unsigned_less [of "NOT (foldl crc_byte 0xFFFFFFFF bs) :: 32 word"] by (simp add: crc32_def)

section \<open>Strings\<close>

definition is_space :: "char \<Rightarrow> bool" where
  "is_space c \<longleftrightarrow> (let n = of_char c :: nat in 9 \<le> n \<and> n \<le> 13 \<or> 28 \<le> n \<and> n \<le> 32 \<or> n = 133 \<or> n = 160)"

definition strip :: "string \<Rightarrow> string" where
  "strip s = rev (dropWhile is_space (rev (dropWhile is_space s)))"

definition upper_char :: "char \<Rightarrow> char" where
  "upper_char c = (if 97 \<le> (of_char c :: nat) \<and> (of_char c :: nat) \<le> 122
                   then char_of ((of_char c :: nat) - 32) else c)"

definition lower_char :: "char \<Rightarrow> char" where
  "lower_char c = (if 65 \<le> (of_char c :: nat) \<and> (of_char c :: nat) \<le> 90
                   then char_of ((of_char c :: nat) + 32) else c)"

definition upper :: "string \<Rightarrow> string" where "upper s = map upper_char s"
definition lower :: "string \<Rightarrow> string" where "lower s = map lower_char s"

lemma length_upper [simp]: "length (upper s) = length s"
  by (simp add: upper_def)

lemma char_of_small: "n < 256 \<Longrightarrow> of_char (char_of n :: char) = n" for n :: nat
  by simp

lemma upper_char_idem [simp]: "upper_char (upper_char c) = upper_char c"
proof (cases "97 \<le> (of_char c :: nat) \<and> (of_char c :: nat) \<le> 122")
  case True
  then have "upper_char c = char_of ((of_char c :: nat) - 32)" by (simp add: upper_char_def)
  moreover from True have "of_char (char_of ((of_char c :: nat) - 32) :: char) = (of_char c :: nat) - 32"
    by (intro char_of_small) linarith
  ultimately have "of_char (upper_char c) = (of_char c :: nat) - 32" by (simp only:)
  with True show ?thesis by (simp only: upper_char_def [of "upper_char c"]) auto
next
  case False
  then have "upper_char c = c" by (simp only: upper_char_def if_False)
  then show ?thesis by simp
qed

lemma lower_char_idem [simp]: "lower_char (lower_char c) = lower_char c"
proof (cases "65 \<le> (of_char c :: nat) \<and> (of_char c :: nat) \<le> 90")
  case True
  then have "lower_char c = char_of ((of_char c :: nat) + 32)" by (simp add: lower_char_def)
  moreover from True have "of_char (char_of ((of_char c :: nat) + 32) :: char) = (of_char c :: nat) + 32"
    by (intro char_of_small) linarith
  ultimately have "of_char (lower_char c) = (of_char c :: nat) + 32" by (simp only:)
  with True show ?thesis by (simp only: lower_char_def [of "lower_char c"]) auto
next
  case False
  then have "lower_char c = c" by (simp only: lower_char_def if_False)
  then show ?thesis by simp
qed

lemma strip_strip [simp]: "strip (strip s) = strip s"
proof -
  have "dropWhile is_space (rev (dropWhile is_space (rev t))) = rev (dropWhile is_space (rev t))" if "t = dropWhile is_space s" for t
  proof (cases "dropWhile is_space (rev t)")
    case (Cons c cs)
    then have "\<not> is_space c" by (metis hd_dropWhile list.distinct(1) list.sel(1))
    have "t \<noteq> []" using Cons by auto
    then have "\<not> is_space (hd t)" using that hd_dropWhile by metis
    obtain ws where "rev t = ws @ c # cs" "\<forall>w \<in> set ws. is_space w" using Cons by (metis takeWhile_dropWhile_id set_takeWhileD)
    then have "t = rev cs @ c # rev ws" by (metis rev_append rev_rev_ident rev.simps(2) append.assoc append_Cons append_Nil)
    then have "hd (rev (c # cs)) = hd t" by (cases "rev cs") auto
    with Cons \<open>\<not> is_space (hd t)\<close> show ?thesis by (cases "rev (c # cs)") auto
  next
    case Nil
    then show ?thesis by (simp only: dropWhile.simps rev.simps)
  qed
  then show ?thesis unfolding strip_def by simp
qed

lemma upper_idem [simp]: "upper (upper s) = upper s"
  by (simp add: upper_def)

lemma lower_idem [simp]: "lower (lower s) = lower s"
  by (simp add: lower_def)

lemma strip_Nil [simp]: "strip [] = []"
  by (simp add: strip_def)

lemma length_strip: "length (strip s) \<le> length s"
  by (metis strip_def length_rev length_dropWhile_le le_trans)

text \<open>Decimal text of an integer (\<open>str\<close>).\<close>

fun digits :: "nat \<Rightarrow> string" where
  "digits n = (if n < 10 then [char_of (48 + n)] else digits (n div 10) @ [char_of (48 + n mod 10)])"

declare digits.simps [simp del]

definition string_of_int :: "int \<Rightarrow> string" where
  "string_of_int k = (if k < 0 then CHR ''-'' # digits (nat (- k)) else digits (nat k))"

section \<open>Lists\<close>

lemma take_two_drop:
  assumes "take 2 (drop i xs) = [a, b]"
  shows "i + 1 < length xs" "xs ! i = a" "xs ! (i + 1) = b"
proof -
  have "length (take 2 (drop i xs)) = 2" using assms by simp
  then show l: "i + 1 < length xs" by simp
  have "take 2 (drop i xs) ! 0 = a" "take 2 (drop i xs) ! 1 = b" using assms by simp_all
  with l show "xs ! i = a" "xs ! (i + 1) = b" by simp_all
qed

lemma filter_filter_same [simp]: "filter P (filter P xs) = filter P xs"
  by simp

lemma concat_drop_take: "n \<le> length xs \<Longrightarrow> take n xs @ drop n xs = xs"
  by simp

end
