(* ===== verification/Kv_Store.thy ===== *)
theory Kv_Store
  imports Prelude
begin

text \<open>
  The Redis commands the source uses, with their documented meaning: a store of values with an
  optional expiry time, the clock in milliseconds passed to every command. A value is text, a
  counter, or the text of a UUID. The locale states what the clients rely on; it is interpreted on
  the store itself, and the session and lock code is proved from it.
\<close>

section \<open>The store\<close>

datatype rval = Txt string | Num int | Ref nat

record entry =
  ent_val :: rval
  ent_exp :: "int option"

type_synonym redis = "(string \<times> entry) list"

definition live :: "int \<Rightarrow> entry \<Rightarrow> bool" where
  "live now e \<longleftrightarrow> (case ent_exp e of None \<Rightarrow> True | Some t \<Rightarrow> now < t)"

definition kv_entry :: "int \<Rightarrow> redis \<Rightarrow> string \<Rightarrow> entry option" where
  "kv_entry now r k = (case map_of r k of None \<Rightarrow> None | Some e \<Rightarrow> if live now e then Some e else None)"

definition kv_get :: "int \<Rightarrow> redis \<Rightarrow> string \<Rightarrow> rval option" where
  "kv_get now r k = map_option ent_val (kv_entry now r k)"

definition kv_put :: "redis \<Rightarrow> string \<Rightarrow> rval \<Rightarrow> int option \<Rightarrow> redis" where
  "kv_put r k v t = (k, \<lparr>ent_val = v, ent_exp = t\<rparr>) # filter (\<lambda>p. fst p \<noteq> k) r"

definition kv_del :: "redis \<Rightarrow> string \<Rightarrow> redis" where
  "kv_del r k = filter (\<lambda>p. fst p \<noteq> k) r"

definition kv_set :: "int \<Rightarrow> redis \<Rightarrow> string \<Rightarrow> rval \<Rightarrow> int \<Rightarrow> redis" where
  "kv_set now r k v seconds = kv_put r k v (Some (now + seconds * 1000))"

definition kv_exists :: "int \<Rightarrow> redis \<Rightarrow> string \<Rightarrow> bool" where
  "kv_exists now r k \<longleftrightarrow> kv_entry now r k \<noteq> None"

definition kv_setnx :: "int \<Rightarrow> redis \<Rightarrow> string \<Rightarrow> rval \<Rightarrow> int \<Rightarrow> bool \<times> redis" where
  "kv_setnx now r k v seconds =
     (if kv_exists now r k then (False, r) else (True, kv_set now r k v seconds))"

definition kv_getdel :: "int \<Rightarrow> redis \<Rightarrow> string \<Rightarrow> rval option \<times> redis" where
  "kv_getdel now r k = (kv_get now r k, kv_del r k)"

definition kv_ttl :: "int \<Rightarrow> redis \<Rightarrow> string \<Rightarrow> int" where
  "kv_ttl now r k =
     (case kv_entry now r k of
        None \<Rightarrow> - 2
      | Some e \<Rightarrow> (case ent_exp e of None \<Rightarrow> - 1 | Some t \<Rightarrow> (t - now + 500) div 1000))"

definition kv_expire :: "int \<Rightarrow> redis \<Rightarrow> string \<Rightarrow> int \<Rightarrow> redis" where
  "kv_expire now r k seconds =
     (case kv_get now r k of None \<Rightarrow> r | Some v \<Rightarrow> kv_set now r k v seconds)"

definition kv_num :: "int \<Rightarrow> redis \<Rightarrow> string \<Rightarrow> int" where
  "kv_num now r k = (case kv_get now r k of Some (Num n) \<Rightarrow> n | _ \<Rightarrow> 0)"

text \<open>INCR and DECR start a missing key at 0 without an expiry and keep an existing one's.\<close>

definition kv_add :: "int \<Rightarrow> redis \<Rightarrow> string \<Rightarrow> int \<Rightarrow> int \<times> redis" where
  "kv_add now r k d =
     (let n = kv_num now r k + d;
          t = (case kv_entry now r k of None \<Rightarrow> None | Some e \<Rightarrow> ent_exp e)
      in (n, kv_put r k (Num n) t))"

text \<open>RENAME of a key that is there: the value moves with its expiry.\<close>

definition kv_rename :: "int \<Rightarrow> redis \<Rightarrow> string \<Rightarrow> string \<Rightarrow> redis" where
  "kv_rename now r k j =
     (case kv_entry now r k of None \<Rightarrow> r | Some e \<Rightarrow> kv_put (kv_del r k) j (ent_val e) (ent_exp e))"

definition kv_keys :: "int \<Rightarrow> redis \<Rightarrow> string \<Rightarrow> string list" where
  "kv_keys now r p = filter (\<lambda>k. take (length p) k = p \<and> kv_exists now r k) (map fst r)"

definition kv_del_all :: "redis \<Rightarrow> string list \<Rightarrow> redis" where
  "kv_del_all r ks = filter (\<lambda>p. fst p \<notin> set ks) r"

section \<open>Its laws\<close>

lemma map_of_filter_fst: "map_of (filter (\<lambda>p. P (fst p)) r) k = (if P k then map_of r k else None)"
  by (induction r) auto

lemma kv_entry_put [simp]:
  "kv_entry now (kv_put r k v t) j =
     (if j = k then (let e = \<lparr>ent_val = v, ent_exp = t\<rparr> in if live now e then Some e else None)
      else kv_entry now r j)"
  by (auto simp: kv_entry_def kv_put_def map_of_filter_fst [of "\<lambda>x. x \<noteq> k"] Let_def)

lemma kv_entry_del [simp]: "kv_entry now (kv_del r k) j = (if j = k then None else kv_entry now r j)"
  by (simp add: kv_entry_def kv_del_def map_of_filter_fst [of "\<lambda>x. x \<noteq> k"])

lemma kv_entry_del_all [simp]:
  "kv_entry now (kv_del_all r ks) j = (if j \<in> set ks then None else kv_entry now r j)"
  by (simp add: kv_entry_def kv_del_all_def map_of_filter_fst [of "\<lambda>x. x \<notin> set ks"])

lemma kv_get_put:
  "kv_get now (kv_put r k v t) j =
     (if j = k then (if (case t of None \<Rightarrow> True | Some x \<Rightarrow> now < x) then Some v else None) else kv_get now r j)"
  by (auto simp: kv_get_def live_def Let_def)

lemma kv_get_del: "kv_get now (kv_del r k) j = (if j = k then None else kv_get now r j)"
  by (simp add: kv_get_def)

lemma kv_get_del_all: "kv_get now (kv_del_all r ks) j = (if j \<in> set ks then None else kv_get now r j)"
  by (simp add: kv_get_def)

lemma kv_entry_later: "now \<le> later \<Longrightarrow> kv_entry later r k = Some e \<Longrightarrow> kv_entry now r k = Some e"
  by (auto simp: kv_entry_def live_def split: option.splits if_splits)

lemma kv_get_later: "now \<le> later \<Longrightarrow> kv_get later r k = Some v \<Longrightarrow> kv_get now r k = Some v"
  by (auto simp: kv_get_def dest: kv_entry_later)

lemma kv_exists_get: "kv_exists now r k \<longleftrightarrow> kv_get now r k \<noteq> None"
  by (simp add: kv_exists_def kv_get_def)

lemma kv_keys_iff: "k \<in> set (kv_keys now r p) \<longleftrightarrow> take (length p) k = p \<and> kv_exists now r k"
proof -
  have "kv_exists now r k \<Longrightarrow> k \<in> fst ` set r"
    by (auto simp: kv_exists_def kv_entry_def split: option.splits dest!: map_of_SomeD intro: rev_image_eqI)
  then show ?thesis by (auto simp: kv_keys_def)
qed

lemma kv_entry_rename:
  assumes "kv_entry now r k = Some e" "j \<noteq> k"
  shows "kv_entry t (kv_rename now r k j) i =
     (if i = j then (if live t e then Some e else None) else if i = k then None else kv_entry t r i)"
  using assms by (cases e) (simp add: kv_rename_def Let_def)

text \<open>What a client of the store relies on.\<close>

locale expiring_store =
  fixes get :: "int \<Rightarrow> 's \<Rightarrow> string \<Rightarrow> 'v option"
    and put :: "'s \<Rightarrow> string \<Rightarrow> 'v \<Rightarrow> int option \<Rightarrow> 's"
    and del :: "'s \<Rightarrow> string \<Rightarrow> 's"
  assumes get_put: "get now (put s k v t) j =
      (if j = k then (if (case t of None \<Rightarrow> True | Some x \<Rightarrow> now < x) then Some v else None) else get now s j)"
    and get_del: "get now (del s k) j = (if j = k then None else get now s j)"
    and get_later: "now \<le> later \<Longrightarrow> get later s k = Some v \<Longrightarrow> get now s k = Some v"
begin

lemma found_before_expiry: "now < t \<Longrightarrow> get now (put s k v (Some t)) k = Some v"
  by (simp add: get_put)

lemma gone_at_expiry: "t \<le> now \<Longrightarrow> get now (put s k v (Some t)) k = None"
  by (simp add: get_put)

lemma gone_after_del: "get now (del s k) k = None"
  by (simp add: get_del)

lemma stays_gone: "get now s k = None \<Longrightarrow> now \<le> later \<Longrightarrow> get later s k = None"
  using get_later [of now later s k] by (cases "get later s k") auto

lemma others_kept: "j \<noteq> k \<Longrightarrow> get now (put s k v t) j = get now s j \<and> get now (del s k) j = get now s j"
  by (simp add: get_put get_del)

end

interpretation kv: expiring_store kv_get kv_put kv_del
  by unfold_locales (use kv_get_put kv_get_del kv_get_later in blast)+

lemma kv_setnx_once:
  assumes "kv_setnx now r k v s = (True, r')" "later < now + s * 1000" "now \<le> later"
  shows "fst (kv_setnx later r' k w q) = False"
proof -
  have "r' = kv_put r k v (Some (now + s * 1000))"
    using assms(1) by (simp add: kv_setnx_def kv_set_def split: if_splits)
  then have "kv_get later r' k = Some v" using kv.found_before_expiry [OF assms(2)] by simp
  then show ?thesis by (simp add: kv_setnx_def kv_exists_get)
qed

lemma kv_num_put [simp]:
  "kv_num now (kv_put r k (Num n) t) j =
     (if j = k then (if (case t of None \<Rightarrow> True | Some x \<Rightarrow> now < x) then n else 0) else kv_num now r j)"
  by (simp add: kv_num_def kv_get_put)

text \<open>A counter that is there keeps its expiry, and one that is not is created: both are live.\<close>

lemma kv_add_num: "kv_num now (snd (kv_add now r k d)) j = (if j = k then kv_num now r k + d else kv_num now r j)"
  by (auto simp: kv_add_def Let_def kv_entry_def live_def split: option.splits)

lemma kv_add_fst: "fst (kv_add now r k d) = kv_num now r k + d"
  by (simp add: kv_add_def Let_def)

lemma kv_get_add_other: "j \<noteq> k \<Longrightarrow> kv_get now (snd (kv_add now r k d)) j = kv_get now r j"
  by (simp add: kv_add_def Let_def kv_get_put)

lemma kv_get_expire_other: "j \<noteq> k \<Longrightarrow> kv_get now (kv_expire now r k s) j = kv_get now r j"
  by (simp add: kv_expire_def kv_set_def kv_get_put split: option.split)

lemma kv_num_expire: "0 < s \<Longrightarrow> kv_num now (kv_expire now r k s) j = kv_num now r j"
  by (auto simp: kv_expire_def kv_set_def kv_num_def kv_get_put split: option.split)

end
