(* ===== verification/Config.thy ===== *)
theory Config
  imports Prelude
begin

text \<open>
  The settings the modelled code reads and their validation at start (\<open>app/config.py\<close>):
  \<open>load_settings\<close> refuses a bad environment or returns the normalised settings. The host name of a
  URL (\<open>urllib.parse.urlsplit\<close>) is an argument.
\<close>

record settings =
  cfg_secret_key :: string
  cfg_encryption_key :: string
  cfg_encryption_key_previous :: string
  cfg_access_token_expire_minutes :: int
  cfg_session_max_hours :: int
  cfg_max_access_attempts :: int
  cfg_access_lockout_minutes :: int
  cfg_max_login_attempts :: int
  cfg_login_lockout_minutes :: int
  cfg_spray_threshold :: int
  cfg_spray_window_minutes :: int
  cfg_demo_mode :: bool
  cfg_local_review_login :: bool
  cfg_secure_cookies :: bool
  cfg_setup_token :: string
  cfg_ldap_enabled :: bool
  cfg_ldap_use_ssl :: bool
  cfg_ldap_start_tls :: bool
  cfg_storage_s3 :: bool
  cfg_reminder_enabled :: bool
  cfg_reminder_ack_warn_days :: int
  cfg_reminder_feedback_warn_days :: int
  cfg_submission_mode_enabled :: bool
  cfg_app_public_url :: string
  cfg_onion_location :: string
  cfg_privacy_policy_url :: string
  cfg_legal_notice_url :: string
  cfg_brand_logo_url :: string
  cfg_notification_batch_minutes :: int
  cfg_retention_enabled :: bool
  cfg_retention_days :: int
  cfg_multi_tenancy :: bool
  cfg_default_org_slug :: string
  cfg_update_check :: bool
  cfg_telemetry :: "bool option"
  cfg_clamav_timeout :: int
  cfg_oidc_enabled :: bool
  cfg_notify_email :: bool
  cfg_notify_email_to :: string
  cfg_notify_webhook :: bool
  cfg_notify_webhook_url :: string
  cfg_draft_memory_percent :: int
  cfg_app_version :: string
  cfg_app_name :: string
  cfg_brand_primary_color :: string
  cfg_notify_email_from :: string
  cfg_notify_smtp_host :: string
  cfg_notify_smtp_port :: int
  cfg_notify_smtp_user :: string
  cfg_notify_smtp_password :: string
  cfg_notify_smtp_tls :: bool
  cfg_notify_smtp_ssl :: bool
  cfg_notify_webhook_secret :: string
  cfg_notify_webhook_type :: string

datatype config_error =
  Short_secret_key | Short_encryption_key | Short_previous_key | Below_minimum string
  | Short_setup_token | Bad_onion_location | Bad_footer_link | Ldap_in_clear
  | Review_without_demo | Review_reachable

definition MIN_SECRET_KEY_LEN :: nat where "MIN_SECRET_KEY_LEN = 32"
definition MIN_SETUP_TOKEN_LEN :: nat where "MIN_SETUP_TOKEN_LEN = 32"

fun split_at :: "char \<Rightarrow> string \<Rightarrow> string list" where
  "split_at c [] = [[]]"
| "split_at c (x # xs) =
     (case split_at c xs of [] \<Rightarrow> [[x]] | p # ps \<Rightarrow> if x = c then [] # p # ps else (x # p) # ps)"

definition starts_with :: "string \<Rightarrow> string \<Rightarrow> bool" where
  "starts_with p s \<longleftrightarrow> take (length p) s = p"

section \<open>Field validators\<close>

definition secret_key_ok :: "string \<Rightarrow> bool" where
  "secret_key_ok v \<longleftrightarrow> length v \<ge> MIN_SECRET_KEY_LEN"

definition encryption_key_ok :: "string \<Rightarrow> bool" where
  "encryption_key_ok v \<longleftrightarrow> v = [] \<or> length v \<ge> MIN_SECRET_KEY_LEN"

definition encryption_key_previous_ok :: "string \<Rightarrow> bool" where
  "encryption_key_previous_ok v \<longleftrightarrow>
     \<not> list_ex (\<lambda>k. k \<noteq> [] \<and> length k < MIN_SECRET_KEY_LEN) (split_at (CHR '','') v)"

definition validate_setup_token :: "string \<Rightarrow> string option" where
  "validate_setup_token v =
     (if v = [] then Some v
      else (let v = strip v in if v = [] \<or> length v < MIN_SETUP_TOKEN_LEN then None else Some v))"

definition base32_char :: "char \<Rightarrow> bool" where
  "base32_char c \<longleftrightarrow> (let n = of_char (lower_char c) :: nat in 97 \<le> n \<and> n \<le> 122 \<or> 50 \<le> n \<and> n \<le> 55)"

definition onion_url :: "string \<Rightarrow> bool" where
  "onion_url v \<longleftrightarrow>
     (let v = lower v;
          rest = (if starts_with ''https://'' v then drop 8 v else drop 7 v)
      in (starts_with ''https://'' v \<or> starts_with ''http://'' v) \<and>
         list_all base32_char (take 56 rest) \<and> length rest = 62 \<and> drop 56 rest = ''.onion'')"

definition validate_onion_location :: "string \<Rightarrow> string option" where
  "validate_onion_location v =
     (let v = strip v in if v \<noteq> [] \<and> \<not> onion_url v then None else Some v)"

definition footer_link :: "string \<Rightarrow> string option" where
  "footer_link v =
     (let v = strip v in
      if v \<noteq> [] \<and> \<not> (starts_with ''https://'' (lower v) \<or> starts_with ''http://'' (lower v)) then None
      else Some v)"

definition logo_from_this_server :: "string \<Rightarrow> string" where
  "logo_from_this_server v =
     (if v \<noteq> [] \<and> \<not> (starts_with ''/'' v \<and> \<not> starts_with ''//'' v \<and> \<not> starts_with [CHR ''/'', CHR 0x5C] v
                       \<or> starts_with ''data:image/'' v)
      then [] else v)"

definition minima :: "settings \<Rightarrow> (string \<times> int) list" where
  "minima s =
     [(''access_token_expire_minutes'', cfg_access_token_expire_minutes s),
      (''session_max_hours'', cfg_session_max_hours s),
      (''max_access_attempts'', cfg_max_access_attempts s),
      (''access_lockout_minutes'', cfg_access_lockout_minutes s),
      (''max_login_attempts'', cfg_max_login_attempts s),
      (''login_lockout_minutes'', cfg_login_lockout_minutes s),
      (''admin_failed_login_alert_window_minutes'', cfg_spray_window_minutes s),
      (''retention_days'', cfg_retention_days s),
      (''clamav_timeout_seconds'', cfg_clamav_timeout s)]"

section \<open>Validators of the whole\<close>

definition ldap_only_over_tls :: "settings \<Rightarrow> bool" where
  "ldap_only_over_tls s \<longleftrightarrow> \<not> (cfg_ldap_enabled s \<and> \<not> (cfg_ldap_use_ssl s \<or> cfg_ldap_start_tls s))"

definition LOOPBACK :: "string list" where "LOOPBACK = [''localhost'', ''127.0.0.1'', ''::1'']"

definition validate_local_review_login :: "(string \<Rightarrow> string option) \<Rightarrow> settings \<Rightarrow> config_error option" where
  "validate_local_review_login hostname s =
     (if cfg_local_review_login s \<and> \<not> cfg_demo_mode s then Some Review_without_demo
      else (let host = lower (case hostname (cfg_app_public_url s) of None \<Rightarrow> [] | Some h \<Rightarrow> h) in
            if cfg_local_review_login s \<and> (host \<notin> set LOOPBACK \<or> cfg_secure_cookies s)
            then Some Review_reachable else None))"

definition field_errors :: "settings \<Rightarrow> config_error list" where
  "field_errors s =
     (if secret_key_ok (cfg_secret_key s) then [] else [Short_secret_key])
     @ (if encryption_key_ok (cfg_encryption_key s) then [] else [Short_encryption_key])
     @ (if encryption_key_previous_ok (cfg_encryption_key_previous s) then [] else [Short_previous_key])
     @ map (\<lambda>p. Below_minimum (fst p)) (filter (\<lambda>p. snd p < 1) (minima s))
     @ (if validate_setup_token (cfg_setup_token s) = None then [Short_setup_token] else [])
     @ (if validate_onion_location (cfg_onion_location s) = None then [Bad_onion_location] else [])
     @ (if footer_link (cfg_privacy_policy_url s) = None \<or> footer_link (cfg_legal_notice_url s) = None
        then [Bad_footer_link] else [])"

definition normalised :: "settings \<Rightarrow> settings" where
  "normalised s =
     s\<lparr>cfg_setup_token := the (validate_setup_token (cfg_setup_token s)),
       cfg_onion_location := the (validate_onion_location (cfg_onion_location s)),
       cfg_privacy_policy_url := the (footer_link (cfg_privacy_policy_url s)),
       cfg_legal_notice_url := the (footer_link (cfg_legal_notice_url s)),
       cfg_brand_logo_url := logo_from_this_server (cfg_brand_logo_url s)\<rparr>"

definition load_settings :: "(string \<Rightarrow> string option) \<Rightarrow> settings \<Rightarrow> config_error list + settings" where
  "load_settings hostname raw =
     (if field_errors raw \<noteq> [] then Inl (field_errors raw)
      else (let s = normalised raw in
            if \<not> ldap_only_over_tls s then Inl [Ldap_in_clear]
            else (case validate_local_review_login hostname s of Some e \<Rightarrow> Inl [e] | None \<Rightarrow> Inr s)))"

definition encryption_keys :: "settings \<Rightarrow> string list" where
  "encryption_keys s =
     (if cfg_encryption_key s \<noteq> [] then cfg_encryption_key s else cfg_secret_key s)
     # filter (\<lambda>k. k \<noteq> []) (split_at (CHR '','') (cfg_encryption_key_previous s))"

section \<open>What a started instance can rely on\<close>

definition safe_settings :: "(string \<Rightarrow> string option) \<Rightarrow> settings \<Rightarrow> bool" where
  "safe_settings hostname s \<longleftrightarrow>
     list_all (\<lambda>k. MIN_SECRET_KEY_LEN \<le> length k) (cfg_secret_key s # encryption_keys s) \<and>
     list_all (\<lambda>p. 1 \<le> snd p) (minima s) \<and>
     (cfg_setup_token s = [] \<or> MIN_SETUP_TOKEN_LEN \<le> length (cfg_setup_token s)) \<and>
     (cfg_onion_location s = [] \<or> onion_url (cfg_onion_location s)) \<and>
     list_all (\<lambda>u. u = [] \<or> starts_with ''https://'' (lower u) \<or> starts_with ''http://'' (lower u))
       [cfg_privacy_policy_url s, cfg_legal_notice_url s] \<and>
     \<not> starts_with ''//'' (cfg_brand_logo_url s) \<and>
     (cfg_ldap_enabled s \<longrightarrow> cfg_ldap_use_ssl s \<or> cfg_ldap_start_tls s) \<and>
     (cfg_local_review_login s \<longrightarrow> cfg_demo_mode s \<and> \<not> cfg_secure_cookies s \<and>
        (\<exists>h. lower h \<in> set LOOPBACK \<and> hostname (cfg_app_public_url s) = Some h))"

lemma encryption_keys_long:
  assumes "field_errors s = []"
  shows "\<forall>k \<in> set (cfg_secret_key s # encryption_keys s). MIN_SECRET_KEY_LEN \<le> length k"
  using assms
  by (auto simp: field_errors_def secret_key_ok_def encryption_key_ok_def encryption_key_previous_ok_def
      encryption_keys_def list_ex_iff not_less split: if_splits)

lemma field_errors_None:
  assumes "field_errors s = []"
  shows "list_all (\<lambda>p. 1 \<le> snd p) (minima s)" "validate_setup_token (cfg_setup_token s) \<noteq> None"
    "validate_onion_location (cfg_onion_location s) \<noteq> None" "footer_link (cfg_privacy_policy_url s) \<noteq> None"
    "footer_link (cfg_legal_notice_url s) \<noteq> None"
  using assms by (auto simp: field_errors_def list_all_iff filter_empty_conv not_less split: if_splits)

lemma encryption_keys_normalised [simp]: "encryption_keys (normalised s) = encryption_keys s"
  by (simp add: encryption_keys_def normalised_def)

lemma minima_normalised [simp]: "minima (normalised s) = minima s"
  by (simp add: minima_def normalised_def)

lemma validate_setup_token_Some:
  "validate_setup_token v = Some w \<Longrightarrow> w = [] \<or> MIN_SETUP_TOKEN_LEN \<le> length w"
  by (auto simp: validate_setup_token_def Let_def split: if_splits)

lemma validate_onion_location_Some: "validate_onion_location v = Some w \<Longrightarrow> w = [] \<or> onion_url w"
  by (auto simp: validate_onion_location_def Let_def split: if_splits)

lemma footer_link_Some:
  "footer_link v = Some w \<Longrightarrow> w = [] \<or> starts_with ''https://'' (lower w) \<or> starts_with ''http://'' (lower w)"
  by (auto simp: footer_link_def Let_def split: if_splits)

lemma logo_not_other_server: "\<not> starts_with ''//'' (logo_from_this_server v)"
  by (cases v) (auto simp: logo_from_this_server_def starts_with_def)

lemma review_login_None:
  assumes "validate_local_review_login hostname s = None" "cfg_local_review_login s"
  shows "cfg_demo_mode s \<and> \<not> cfg_secure_cookies s \<and>
    (\<exists>h. lower h \<in> set LOOPBACK \<and> hostname (cfg_app_public_url s) = Some h)"
proof -
  have "lower [] \<notin> set LOOPBACK" by code_simp
  with assms show ?thesis
    by (auto simp: validate_local_review_login_def Let_def split: if_splits option.splits)
qed

text \<open>
  No instance starts with a short root or retired key, a limit below one, a short setup token,
  an address header or footer link that is not one, a directory bind in clear text, or the review
  login reachable from another machine.
\<close>

theorem load_settings_safe:
  assumes "load_settings hostname raw = Inr s"
  shows "safe_settings hostname s"
proof -
  have f: "field_errors raw = []" and s: "s = normalised raw" and ldap: "ldap_only_over_tls s"
    and review: "validate_local_review_login hostname s = None"
    using assms by (auto simp: load_settings_def Let_def split: if_splits option.splits)
  note ok = field_errors_None [OF f] and keys = encryption_keys_long [OF f]
  have vals: "cfg_secret_key s = cfg_secret_key raw" "Some (cfg_setup_token s) = validate_setup_token (cfg_setup_token raw)"
    "Some (cfg_onion_location s) = validate_onion_location (cfg_onion_location raw)"
    "Some (cfg_privacy_policy_url s) = footer_link (cfg_privacy_policy_url raw)"
    "Some (cfg_legal_notice_url s) = footer_link (cfg_legal_notice_url raw)"
    "cfg_brand_logo_url s = logo_from_this_server (cfg_brand_logo_url raw)"
    using ok by (auto simp: s normalised_def)
  have "encryption_keys s = encryption_keys raw" "minima s = minima raw" by (simp_all add: s)
  moreover have "cfg_setup_token s = [] \<or> MIN_SETUP_TOKEN_LEN \<le> length (cfg_setup_token s)"
    "cfg_onion_location s = [] \<or> onion_url (cfg_onion_location s)"
    using vals(2,3) validate_setup_token_Some validate_onion_location_Some by metis+
  moreover have "cfg_privacy_policy_url s = [] \<or> starts_with ''https://'' (lower (cfg_privacy_policy_url s)) \<or>
      starts_with ''http://'' (lower (cfg_privacy_policy_url s))"
    "cfg_legal_notice_url s = [] \<or> starts_with ''https://'' (lower (cfg_legal_notice_url s)) \<or>
      starts_with ''http://'' (lower (cfg_legal_notice_url s))"
    using vals(4,5) footer_link_Some by metis+
  ultimately show ?thesis
    unfolding safe_settings_def
    using keys ok(1) vals(1,6) logo_not_other_server ldap review_login_None [OF review]
    by (auto simp: list_all_iff ldap_only_over_tls_def)
qed

definition sample_settings :: settings where
  "sample_settings =
     \<lparr>cfg_secret_key = replicate 32 (CHR ''k''), cfg_encryption_key = [], cfg_encryption_key_previous = [],
      cfg_access_token_expire_minutes = 60, cfg_session_max_hours = 12,
      cfg_max_access_attempts = 5, cfg_access_lockout_minutes = 15,
      cfg_max_login_attempts = 10, cfg_login_lockout_minutes = 30,
      cfg_spray_threshold = 50, cfg_spray_window_minutes = 15,
      cfg_demo_mode = False, cfg_local_review_login = False, cfg_secure_cookies = True, cfg_setup_token = [],
      cfg_ldap_enabled = False, cfg_ldap_use_ssl = False, cfg_ldap_start_tls = False, cfg_storage_s3 = False,
      cfg_reminder_enabled = False, cfg_reminder_ack_warn_days = 2, cfg_reminder_feedback_warn_days = 30,
      cfg_submission_mode_enabled = True, cfg_app_public_url = ''http://localhost'',
      cfg_onion_location = [], cfg_privacy_policy_url = '' https://a.example/p'', cfg_legal_notice_url = [],
      cfg_brand_logo_url = ''//evil/x.png'', cfg_notification_batch_minutes = 1440,
      cfg_retention_enabled = True, cfg_retention_days = 1095, cfg_multi_tenancy = False,
      cfg_default_org_slug = ''default'', cfg_update_check = True, cfg_telemetry = None,
      cfg_clamav_timeout = 30, cfg_oidc_enabled = False, cfg_notify_email = False, cfg_notify_email_to = [],
      cfg_notify_webhook = False, cfg_notify_webhook_url = [], cfg_draft_memory_percent = 80,
      cfg_app_version = ''2.5.1'', cfg_app_name = ''OpenWhistle'', cfg_brand_primary_color = ''#0c7253'',
      cfg_notify_email_from = ''openwhistle@localhost'', cfg_notify_smtp_host = ''localhost'',
      cfg_notify_smtp_port = 587, cfg_notify_smtp_user = [], cfg_notify_smtp_password = [],
      cfg_notify_smtp_tls = True, cfg_notify_smtp_ssl = False, cfg_notify_webhook_secret = [],
      cfg_notify_webhook_type = ''generic''\<rparr>"

theorem load_settings_safe_witness:
  "load_settings (\<lambda>_. Some ''localhost'') sample_settings =
     Inr (sample_settings\<lparr>cfg_privacy_policy_url := ''https://a.example/p'', cfg_brand_logo_url := []\<rparr>) \<and>
   safe_settings (\<lambda>_. Some ''localhost'')
     (sample_settings\<lparr>cfg_privacy_policy_url := ''https://a.example/p'', cfg_brand_logo_url := []\<rparr>)"
proof -
  have h: "load_settings (\<lambda>_. Some ''localhost'') sample_settings =
     Inr (sample_settings\<lparr>cfg_privacy_policy_url := ''https://a.example/p'', cfg_brand_logo_url := []\<rparr>)"
    by code_simp
  show ?thesis using h load_settings_safe [OF h] by blast
qed

end
