(* ===== verification/Domain.thy ===== *)
theory Domain
  imports Kv_Store Config
begin

text \<open>
  The data of the program (\<open>app/models/*.py\<close>): one record per table, the tables as lists in
  insertion order, foreign keys with their ON DELETE rule written out in \<open>purge_reports\<close> and
  \<open>purge_user\<close>. Times are microseconds since 1 January of year 1, UTC; a UUID is its 128-bit
  number (\<open>str\<close> of a UUID orders as the number). \<open>env\<close> is what one request is given from
  outside: the clock, the settings, its random draws and the cryptographic functions.
\<close>

type_synonym uuid = nat
type_synonym moment = int

section \<open>Rows\<close>

datatype status = Received | In_review | Pending_feedback | Closed
datatype submission_mode = Anonymous | Confidential
datatype sender = From_whistleblower | From_admin
datatype role = Case_manager | Admin | Superadmin

record report =
  rep_id :: uuid
  rep_case_number :: string
  rep_pin_hash :: string
  rep_org :: "uuid option"
  rep_category :: string
  rep_description :: string
  rep_dek :: string
  rep_status :: status
  rep_mode :: submission_mode
  rep_location :: "uuid option"
  rep_conf_name :: "string option"
  rep_conf_contact :: "string option"
  rep_secure_email :: "string option"
  rep_assigned :: "uuid option"
  rep_submitted_at :: moment
  rep_acknowledged_at :: "moment option"
  rep_feedback_due_at :: "moment option"
  rep_feedback_sent_at :: "moment option"
  rep_closed_at :: "moment option"

record message =
  msg_id :: uuid
  msg_report :: uuid
  msg_sender :: sender
  msg_content :: string
  msg_sent_at :: moment

record admin_note =
  note_id :: uuid
  note_report :: uuid
  note_author :: "uuid option"
  note_author_name :: string
  note_content :: string
  note_created_at :: moment

record case_link =
  lnk_id :: uuid
  lnk_a :: uuid
  lnk_b :: uuid
  lnk_by :: "uuid option"
  lnk_by_name :: string
  lnk_at :: moment

record deletion_request =
  del_id :: uuid
  del_report :: uuid
  del_by :: "uuid option"
  del_by_name :: string
  del_at :: moment
  del_confirmed_by :: "uuid option"
  del_confirmed_name :: "string option"
  del_confirmed_at :: "moment option"

record attachment =
  att_id :: uuid
  att_report :: uuid
  att_filename :: string
  att_type :: string
  att_size :: nat
  att_data :: "string option"
  att_key :: "string option"
  att_encrypted :: bool
  att_at :: moment

record user =
  usr_id :: uuid
  usr_username :: string
  usr_password_hash :: "string option"
  usr_totp_secret :: string
  usr_totp_enabled :: bool
  usr_role :: role
  usr_active :: bool
  usr_must_change :: bool
  usr_oidc_sub :: "string option"
  usr_oidc_issuer :: "string option"
  usr_ldap :: "string option"
  usr_org :: "uuid option"
  usr_created_by :: "uuid option"
  usr_created_at :: moment
  usr_last_login_at :: "moment option"
  usr_asked_version :: "string option"

record organisation =
  org_id :: uuid
  org_name :: string
  org_slug :: string
  org_active :: bool
  org_created_at :: moment

record category =
  cat_id :: uuid
  cat_slug :: string
  cat_label_en :: string
  cat_label_de :: string
  cat_is_default :: bool
  cat_active :: bool
  cat_sort :: int
  cat_org :: "uuid option"

record location =
  loc_id :: uuid
  loc_name :: string
  loc_code :: string
  loc_description :: "string option"
  loc_active :: bool
  loc_sort :: int
  loc_created_at :: moment
  loc_org :: "uuid option"

type_synonym detail = "(string \<times> string) list"

record audit_entry =
  aud_id :: uuid
  aud_at :: moment
  aud_admin :: "uuid option"
  aud_username :: string
  aud_action :: string
  aud_report :: "uuid option"
  aud_detail :: "detail option"
  aud_org :: "uuid option"

record telemetry_state =
  tel_enabled :: bool
  tel_installation_id :: string
  tel_last_sent_at :: "moment option"

record setup_status =
  set_completed :: bool
  set_completed_at :: "moment option"

record db =
  db_reports :: "report list"
  db_messages :: "message list"
  db_notes :: "admin_note list"
  db_links :: "case_link list"
  db_deletions :: "deletion_request list"
  db_attachments :: "attachment list"
  db_users :: "user list"
  db_orgs :: "organisation list"
  db_categories :: "category list"
  db_locations :: "location list"
  db_audit :: "audit_entry list"
  db_telemetry :: "telemetry_state option"
  db_setup :: "setup_status option"

definition empty_db :: db where
  "empty_db = \<lparr>db_reports = [], db_messages = [], db_notes = [], db_links = [], db_deletions = [],
     db_attachments = [], db_users = [], db_orgs = [], db_categories = [], db_locations = [],
     db_audit = [], db_telemetry = None, db_setup = None\<rparr>"

definition STATUS_TRANSITIONS :: "status \<Rightarrow> status list" where
  "STATUS_TRANSITIONS s =
     (case s of
        Received \<Rightarrow> [In_review, Closed]
      | In_review \<Rightarrow> [Pending_feedback, Closed, Received]
      | Pending_feedback \<Rightarrow> [Closed, In_review]
      | Closed \<Rightarrow> [In_review])"

text \<open>Roles are declared, and compare, from least to most privileged.\<close>

instantiation role :: linorder
begin

definition less_eq_role :: "role \<Rightarrow> role \<Rightarrow> bool" where
  "less_eq_role a b \<longleftrightarrow> a = b \<or> a = Case_manager \<or> b = Superadmin"

definition less_role :: "role \<Rightarrow> role \<Rightarrow> bool" where
  "less_role a b \<longleftrightarrow> a \<le> b \<and> \<not> b \<le> (a :: role)"

instance
proof
  fix x y z :: role
  show "x < y \<longleftrightarrow> x \<le> y \<and> \<not> y \<le> x" by (simp add: less_role_def)
  show "x \<le> x" by (simp add: less_eq_role_def)
  show "x \<le> y \<Longrightarrow> y \<le> z \<Longrightarrow> x \<le> z" by (auto simp: less_eq_role_def)
  show "x \<le> y \<Longrightarrow> y \<le> x \<Longrightarrow> x = y" by (auto simp: less_eq_role_def)
  show "x \<le> y \<or> y \<le> x" by (cases x; cases y) (auto simp: less_eq_role_def)
qed

end

section \<open>Rows by key\<close>

definition row :: "('r \<Rightarrow> uuid) \<Rightarrow> uuid \<Rightarrow> 'r list \<Rightarrow> 'r option" where
  "row key i rows = find (\<lambda>x. key x = i) rows"

definition update_row :: "('r \<Rightarrow> uuid) \<Rightarrow> uuid \<Rightarrow> ('r \<Rightarrow> 'r) \<Rightarrow> 'r list \<Rightarrow> 'r list" where
  "update_row key i f rows = map (\<lambda>x. if key x = i then f x else x) rows"

definition delete_row :: "('r \<Rightarrow> uuid) \<Rightarrow> uuid \<Rightarrow> 'r list \<Rightarrow> 'r list" where
  "delete_row key i rows = filter (\<lambda>x. key x \<noteq> i) rows"

lemma row_Some: "row key i rows = Some x \<Longrightarrow> x \<in> set rows \<and> key x = i"
  by (auto simp: row_def find_Some_iff)

lemma row_None: "row key i rows = None \<longleftrightarrow> i \<notin> key ` set rows"
  by (auto simp: row_def find_None_iff)

lemma row_update [table_simps]:
  assumes "\<And>x. key (f x) = key x"
  shows "row key j (update_row key i f rows) = (if i = j then map_option f (row key i rows) else row key j rows)"
  using assms by (induction rows) (auto simp: row_def update_row_def)

lemma row_delete [table_simps]: "row key j (delete_row key i rows) = (if i = j then None else row key j rows)"
  by (induction rows) (auto simp: row_def delete_row_def)

lemma row_append [table_simps]:
  "row key i (rows @ [x]) = (case row key i rows of Some y \<Rightarrow> Some y | None \<Rightarrow> if key x = i then Some x else None)"
  by (induction rows) (auto simp: row_def)

lemma map_update_row: "(\<And>x. g (f x) = g x) \<Longrightarrow> map g (update_row key i f rows) = map g rows"
  by (simp add: update_row_def)

lemma length_update_row [simp]: "length (update_row key i f rows) = length rows"
  by (simp add: update_row_def)

lemma set_update_row: "x \<in> set (update_row key i f rows) \<Longrightarrow>
    (\<exists>y \<in> set rows. key y = i \<and> x = f y) \<or> x \<in> set rows \<and> key x \<noteq> i"
  by (auto simp: update_row_def split: if_splits)

lemma set_delete_row [simp]: "set (delete_row key i rows) = {x \<in> set rows. key x \<noteq> i}"
  by (auto simp: delete_row_def)

definition report_of :: "db \<Rightarrow> uuid \<Rightarrow> report option" where
  "report_of d i = row rep_id i (db_reports d)"

definition user_of :: "db \<Rightarrow> uuid \<Rightarrow> user option" where
  "user_of d i = row usr_id i (db_users d)"

definition set_report :: "uuid \<Rightarrow> (report \<Rightarrow> report) \<Rightarrow> db \<Rightarrow> db" where
  "set_report i f d = d\<lparr>db_reports := update_row rep_id i f (db_reports d)\<rparr>"

definition set_user :: "uuid \<Rightarrow> (user \<Rightarrow> user) \<Rightarrow> db \<Rightarrow> db" where
  "set_user i f d = d\<lparr>db_users := update_row usr_id i f (db_users d)\<rparr>"

text \<open>Deleting reports takes the rows of the tables with ON DELETE CASCADE with them.\<close>

definition purge_reports :: "uuid list \<Rightarrow> db \<Rightarrow> db" where
  "purge_reports ids d =
     d\<lparr>db_reports := filter (\<lambda>r. rep_id r \<notin> set ids) (db_reports d),
       db_messages := filter (\<lambda>m. msg_report m \<notin> set ids) (db_messages d),
       db_notes := filter (\<lambda>n. note_report n \<notin> set ids) (db_notes d),
       db_links := filter (\<lambda>l. lnk_a l \<notin> set ids \<and> lnk_b l \<notin> set ids) (db_links d),
       db_deletions := filter (\<lambda>q. del_report q \<notin> set ids) (db_deletions d),
       db_attachments := filter (\<lambda>a. att_report a \<notin> set ids) (db_attachments d),
       db_audit := filter (\<lambda>e. case aud_report e of None \<Rightarrow> True | Some i \<Rightarrow> i \<notin> set ids) (db_audit d)\<rparr>"

definition messages_of :: "db \<Rightarrow> uuid \<Rightarrow> message list" where
  "messages_of d i = sort_key msg_sent_at (filter (\<lambda>m. msg_report m = i) (db_messages d))"

definition attachments_of :: "db \<Rightarrow> uuid \<Rightarrow> attachment list" where
  "attachments_of d i = filter (\<lambda>a. att_report a = i) (db_attachments d)"

section \<open>One request's surroundings\<close>

record claims =
  clm_sub :: uuid
  clm_role :: role
  clm_exp :: int
  clm_iat :: int
  clm_auth_time :: "int option"
  clm_jti :: uuid

record crypto =
  cr_hmac :: "string \<Rightarrow> string"
  cr_bcrypt :: "string \<Rightarrow> string"
  cr_bcrypt_ok :: "string \<Rightarrow> string \<Rightarrow> bool"
  cr_seal :: "string \<Rightarrow> string \<Rightarrow> string"
  cr_open :: "string \<Rightarrow> string \<Rightarrow> string option"
  cr_hkdf :: "string \<Rightarrow> string"
  cr_sha_key :: "string \<Rightarrow> string"
  cr_totp :: "string \<Rightarrow> string \<Rightarrow> bool"
  cr_jwt :: "claims \<Rightarrow> string"
  cr_jwt_claims :: "string \<Rightarrow> claims option"

record env =
  env_now :: moment
  env_cfg :: settings
  env_id :: "nat \<Rightarrow> uuid"
  env_token :: "nat \<Rightarrow> string"
  env_crypto :: crypto

text \<open>Redis counts milliseconds, tokens count seconds.\<close>

definition millis :: "env \<Rightarrow> int" where "millis e = env_now e div 1000"
definition seconds :: "env \<Rightarrow> int" where "seconds e = env_now e div 1000000"

end
