(* ===== verification/Audit_Trail.thy ===== *)
theory Audit_Trail
  imports Domain "HOL-Library.Product_Lexorder"
begin

text \<open>
  The audit log (\<open>app/services/audit.py\<close>): writing an entry, in which organisation it is visible,
  and reading it page by page.
\<close>

section \<open>Writing\<close>

text \<open>
  \<open>target_org\<close> is \<open>None\<close> for the default of the source (the actor's organisation), and a report's
  organisation always wins. Entries draw their identifier from the request.
\<close>

definition audit_org :: "db \<Rightarrow> user \<Rightarrow> uuid option \<Rightarrow> uuid option option \<Rightarrow> uuid option" where
  "audit_org d actor report target_org =
     (case report of
        None \<Rightarrow> (case target_org of None \<Rightarrow> usr_org actor | Some org \<Rightarrow> org)
      | Some i \<Rightarrow> (case report_of d i of None \<Rightarrow> None | Some r \<Rightarrow> rep_org r))"

definition audit_log ::
  "env \<Rightarrow> nat \<Rightarrow> user \<Rightarrow> string \<Rightarrow> uuid option \<Rightarrow> detail \<Rightarrow> uuid option option \<Rightarrow> db \<Rightarrow> db" where
  "audit_log e n actor action report detail target_org d =
     d\<lparr>db_audit := db_audit d @
       [\<lparr>aud_id = env_id e n, aud_at = env_now e, aud_admin = Some (usr_id actor),
         aud_username = usr_username actor, aud_action = action, aud_report = report,
         aud_detail = (if detail = [] then None else Some detail),
         aud_org = audit_org d actor report target_org\<rparr>]\<rparr>"

definition log_system :: "env \<Rightarrow> nat \<Rightarrow> string \<Rightarrow> detail \<Rightarrow> uuid option \<Rightarrow> db \<Rightarrow> db" where
  "log_system e n action detail org d =
     d\<lparr>db_audit := db_audit d @
       [\<lparr>aud_id = env_id e n, aud_at = env_now e, aud_admin = None, aud_username = ''system'',
         aud_action = action, aud_report = None,
         aud_detail = (if detail = [] then None else Some detail), aud_org = org\<rparr>]\<rparr>"

section \<open>Reading\<close>

definition page_of :: "int \<Rightarrow> int \<Rightarrow> 'a list \<Rightarrow> 'a list" where
  "page_of page per_page rows = take (nat per_page) (drop (nat ((page - 1) * per_page)) rows)"

definition newest_first :: "audit_entry list \<Rightarrow> audit_entry list" where
  "newest_first rows = rev (sort_key (\<lambda>x. (aud_at x, aud_id x)) rows)"

record audit_query =
  aq_report :: "uuid option"
  aq_action :: string
  aq_admin :: "uuid option"
  aq_exclude :: string
  aq_scope_org :: bool
  aq_org :: "uuid option"
  aq_viewer :: "uuid option"

definition audit_visible :: "audit_query \<Rightarrow> audit_entry \<Rightarrow> bool" where
  "audit_visible q x \<longleftrightarrow>
     (aq_report q \<noteq> None \<longrightarrow> aud_report x = aq_report q) \<and>
     (aq_action q \<noteq> [] \<longrightarrow> aud_action x = aq_action q) \<and>
     (aq_exclude q \<noteq> [] \<longrightarrow> aud_action x \<noteq> aq_exclude q) \<and>
     (aq_admin q \<noteq> None \<longrightarrow> aud_admin x = aq_admin q) \<and>
     (aq_scope_org q \<longrightarrow>
        (case aq_org q of
           Some org \<Rightarrow> aud_org x = Some org
         | None \<Rightarrow> aud_org x = None \<and> aud_admin x = aq_viewer q))"

definition get_audit_log :: "db \<Rightarrow> audit_query \<Rightarrow> int \<Rightarrow> int option \<Rightarrow> audit_entry list \<times> int" where
  "get_audit_log d q page per_page =
     (let rows = newest_first (filter (audit_visible q) (db_audit d))
      in ((case per_page of None \<Rightarrow> rows | Some n \<Rightarrow> page_of page n rows), int (length rows)))"

section \<open>Pages\<close>

text \<open>Whatever a listing shows page by page, the pages together are the listing.\<close>

lemma pages_concat:
  assumes "0 < per"
  shows "concat (map (\<lambda>p. page_of (int p + 1) (int per) rows) [0..<k]) = take (k * per) rows"
proof (induction k)
  case (Suc k)
  have "nat (int k * int per) = k * per" by (simp flip: of_nat_mult)
  moreover have "take (Suc k * per) rows = take (k * per) rows @ take per (drop (k * per) rows)"
    by (simp add: take_add [symmetric] add.commute)
  ultimately show ?case using Suc by (simp add: page_of_def)
qed (simp add: page_of_def)

lemma set_newest_first [simp]: "set (newest_first rows) = set rows"
  by (simp add: newest_first_def)

lemma length_newest_first [simp]: "length (newest_first rows) = length rows"
  by (simp add: newest_first_def)

lemma newest_first_sorted:
  "sorted_wrt (\<lambda>x y. (aud_at y, aud_id y) \<le> (aud_at x, aud_id x)) (newest_first rows)"
proof -
  have "sorted (map (\<lambda>x. (aud_at x, aud_id x)) (sort_key (\<lambda>x. (aud_at x, aud_id x)) rows))" by simp
  then have "sorted_wrt (\<lambda>x y. (aud_at x, aud_id x) \<le> (aud_at y, aud_id y)) (sort_key (\<lambda>x. (aud_at x, aud_id x)) rows)"
    by (simp only: sorted_map)
  then show ?thesis by (simp add: newest_first_def sorted_wrt_rev)
qed

text \<open>
  Paging through the audit log shows every entry of the query exactly once, newest first, and an
  organisation's admin sees only entries of that organisation; one without an organisation only
  entries of their own.
\<close>

theorem audit_pages:
  assumes "0 < per" "snd (get_audit_log d q 1 (Some (int per))) \<le> int (k * per)"
  shows "concat (map (\<lambda>p. fst (get_audit_log d q (int p + 1) (Some (int per)))) [0..<k])
      = newest_first (filter (audit_visible q) (db_audit d)) \<and>
    (\<forall>x \<in> set (fst (get_audit_log d q page n)). x \<in> set (db_audit d) \<and>
       (aq_scope_org q \<longrightarrow>
          (if aq_org q = None then aud_org x = None \<and> aud_admin x = aq_viewer q
           else aud_org x = aq_org q)))"
proof
  let ?rows = "newest_first (filter (audit_visible q) (db_audit d))"
  have "length ?rows \<le> k * per" using assms(2) unfolding get_audit_log_def Let_def by (simp only: snd_conv of_nat_le_iff)
  then have "take (k * per) ?rows = ?rows" by simp
  with pages_concat [OF assms(1), of ?rows k]
  show "concat (map (\<lambda>p. fst (get_audit_log d q (int p + 1) (Some (int per)))) [0..<k]) = ?rows"
    by (simp add: get_audit_log_def Let_def)
  have "set (fst (get_audit_log d q page n)) \<subseteq> set (filter (audit_visible q) (db_audit d))"
    by (auto simp: get_audit_log_def Let_def page_of_def split: option.splits dest!: in_set_takeD in_set_dropD)
  then show "\<forall>x \<in> set (fst (get_audit_log d q page n)). x \<in> set (db_audit d) \<and>
       (aq_scope_org q \<longrightarrow>
          (if aq_org q = None then aud_org x = None \<and> aud_admin x = aq_viewer q
           else aud_org x = aq_org q))"
    by (fastforce simp: audit_visible_def split: option.splits)
qed

definition sample_entry :: "nat \<Rightarrow> uuid option \<Rightarrow> audit_entry" where
  "sample_entry i org = \<lparr>aud_id = i, aud_at = 0, aud_admin = Some 7, aud_username = ''a'', aud_action = ''x'',
     aud_report = None, aud_detail = None, aud_org = org\<rparr>"

definition sample_query :: audit_query where
  "sample_query = \<lparr>aq_report = None, aq_action = [], aq_admin = None, aq_exclude = [],
     aq_scope_org = True, aq_org = Some 1, aq_viewer = Some 7\<rparr>"

theorem audit_pages_witness:
  "concat (map (\<lambda>p. fst (get_audit_log
      (empty_db\<lparr>db_audit := [sample_entry 1 (Some 1), sample_entry 2 None, sample_entry 3 (Some 1)]\<rparr>)
      sample_query (int p + 1) (Some (int 1)))) [0..<2]) = [sample_entry 3 (Some 1), sample_entry 1 (Some 1)]"
proof -
  let ?d = "empty_db\<lparr>db_audit := [sample_entry 1 (Some 1), sample_entry 2 None, sample_entry 3 (Some 1)]\<rparr>"
  have h: "(0::nat) < 1" "snd (get_audit_log ?d sample_query 1 (Some (int 1))) \<le> int (2 * 1)" by code_simp+
  have "newest_first (filter (audit_visible sample_query) (db_audit ?d)) = [sample_entry 3 (Some 1), sample_entry 1 (Some 1)]"
    by code_simp
  with audit_pages [OF h, THEN conjunct1] show ?thesis by simp
qed

lemma audit_log_simps [audit_simps]:
  "db_reports (audit_log e n a x r t g d) = db_reports d" "db_messages (audit_log e n a x r t g d) = db_messages d"
  "db_notes (audit_log e n a x r t g d) = db_notes d" "db_links (audit_log e n a x r t g d) = db_links d"
  "db_deletions (audit_log e n a x r t g d) = db_deletions d" "db_users (audit_log e n a x r t g d) = db_users d"
  "db_orgs (audit_log e n a x r t g d) = db_orgs d" "db_categories (audit_log e n a x r t g d) = db_categories d"
  "db_locations (audit_log e n a x r t g d) = db_locations d"
  "db_attachments (audit_log e n a x r t g d) = db_attachments d"
  "length (db_audit (audit_log e n a x r t g d)) = Suc (length (db_audit d))"
  "report_of (audit_log e n a x r t g d) i = report_of d i" "user_of (audit_log e n a x r t g d) i = user_of d i"
  by (simp_all add: audit_log_def report_of_def user_of_def)

lemma log_system_simps [audit_simps]:
  "db_reports (log_system e n x t g d) = db_reports d" "db_users (log_system e n x t g d) = db_users d"
  "db_messages (log_system e n x t g d) = db_messages d" "db_orgs (log_system e n x t g d) = db_orgs d"
  by (simp_all add: log_system_def)

end
