(* ===== verification/Rate_Limit.thy ===== *)
theory Rate_Limit
  imports Kv_Store Config
begin

text \<open>
  Rate limiting without addresses (\<open>app/services/rate_limit.py\<close>): the counters of the reporter's
  and the administrator's sign-in, the instance-wide alarm against password spraying, and the
  interleaving of attempts at the granularity of single Redis commands. The keyed hash
  (HMAC-SHA256 under the secret key) is an argument; the clock is in milliseconds.
\<close>

type_synonym keyed_hash = "string \<Rightarrow> string"

definition WB_PREFIX :: string where "WB_PREFIX = ''openwhistle:wb_ratelimit:''"
definition ADMIN_PREFIX :: string where "ADMIN_PREFIX = ''openwhistle:admin_ratelimit:''"
definition SPRAY_PREFIX :: string where "SPRAY_PREFIX = ''openwhistle:admin_failed_logins:''"
definition SPRAY_ALERTED :: string where "SPRAY_ALERTED = ''openwhistle:admin_spray_alerted''"
definition SETUP_TOKEN_FAILURES :: string where
  "SETUP_TOKEN_FAILURES = ''openwhistle:setup_token_failures''"

definition admin_key :: "string \<Rightarrow> string" where
  "admin_key username = ADMIN_PREFIX @ lower (strip username)"

definition wb_key :: "keyed_hash \<Rightarrow> string \<Rightarrow> string" where
  "wb_key hmac case_key = WB_PREFIX @ hmac case_key"

definition count_failure :: "int \<Rightarrow> redis \<Rightarrow> string \<Rightarrow> int \<Rightarrow> int \<times> redis" where
  "count_failure now r k seconds =
     (let (n, r1) = kv_add now r k 1 in (n, kv_expire now r1 k seconds))"

definition record_whistleblower_failure ::
  "settings \<Rightarrow> keyed_hash \<Rightarrow> int \<Rightarrow> redis \<Rightarrow> string \<Rightarrow> int \<times> redis" where
  "record_whistleblower_failure cfg hmac now r case_key =
     count_failure now r (wb_key hmac case_key) (cfg_access_lockout_minutes cfg * 60)"

definition get_whistleblower_lockout_ttl :: "keyed_hash \<Rightarrow> int \<Rightarrow> redis \<Rightarrow> string \<Rightarrow> int" where
  "get_whistleblower_lockout_ttl hmac now r case_key = max 0 (kv_ttl now r (wb_key hmac case_key))"

definition claim :: "settings \<Rightarrow> int \<Rightarrow> redis \<Rightarrow> string \<Rightarrow> bool \<times> redis" where
  "claim cfg now r k =
     (let (n, r1) = kv_add now r k 1 in
      if n > cfg_max_login_attempts cfg then (False, snd (kv_add now r1 k (- 1)))
      else (True, kv_expire now r1 k (cfg_login_lockout_minutes cfg * 60)))"

definition claim_admin_attempt :: "settings \<Rightarrow> int \<Rightarrow> redis \<Rightarrow> string \<Rightarrow> bool \<times> redis" where
  "claim_admin_attempt cfg now r username = claim cfg now r (admin_key username)"

definition release_admin_attempt :: "int \<Rightarrow> redis \<Rightarrow> string \<Rightarrow> redis" where
  "release_admin_attempt now r username =
     (if kv_exists now r (admin_key username) then snd (kv_add now r (admin_key username) (- 1)) else r)"

definition reset_admin_login_attempts :: "redis \<Rightarrow> string \<Rightarrow> redis" where
  "reset_admin_login_attempts r username = kv_del r (admin_key username)"

definition claim_setup_token_attempt :: "settings \<Rightarrow> int \<Rightarrow> redis \<Rightarrow> bool \<times> redis" where
  "claim_setup_token_attempt cfg now r = claim cfg now r SETUP_TOKEN_FAILURES"

definition reset_setup_token_failures :: "redis \<Rightarrow> redis" where
  "reset_setup_token_failures r = kv_del r SETUP_TOKEN_FAILURES"

text \<open>Failed passwords over the whole instance, in buckets of a minute.\<close>

definition spray_key :: "int \<Rightarrow> string" where
  "spray_key minute = SPRAY_PREFIX @ string_of_int minute"

definition record_instance_login_failure :: "settings \<Rightarrow> int \<Rightarrow> redis \<Rightarrow> bool \<times> redis" where
  "record_instance_login_failure cfg now r =
     (if cfg_spray_threshold cfg \<le> 0 then (False, r)
      else (let minutes = cfg_spray_window_minutes cfg;
                now_minute = now div 60000;
                r1 = snd (count_failure now r (spray_key now_minute) ((minutes + 1) * 60));
                counts = map (\<lambda>m. kv_num now r1 (spray_key m)) [now_minute - minutes + 1 .. now_minute]
            in if sum_list counts < cfg_spray_threshold cfg then (False, r1)
               else kv_setnx now r1 SPRAY_ALERTED (Txt ''1'') (minutes * 60)))"

section \<open>One caller after the other\<close>

lemma claim_counts:
  assumes "0 < cfg_login_lockout_minutes cfg"
  shows "fst (claim cfg now r k) \<longleftrightarrow> kv_num now r k < cfg_max_login_attempts cfg"
    and "kv_num now (snd (claim cfg now r k)) j =
      (if j = k \<and> kv_num now r k < cfg_max_login_attempts cfg then kv_num now r k + 1 else kv_num now r j)"
proof -
  obtain n r1 where a: "kv_add now r k 1 = (n, r1)" by fastforce
  have n: "n = kv_num now r k + 1" "kv_num now r1 i = (if i = k then kv_num now r k + 1 else kv_num now r i)" for i
    using kv_add_fst [of now r k 1] kv_add_num [of now r k 1 i] a by simp_all
  show "fst (claim cfg now r k) \<longleftrightarrow> kv_num now r k < cfg_max_login_attempts cfg"
    using n(1) by (auto simp: claim_def a)
  show "kv_num now (snd (claim cfg now r k)) j =
      (if j = k \<and> kv_num now r k < cfg_max_login_attempts cfg then kv_num now r k + 1 else kv_num now r j)"
    using n assms by (auto simp: claim_def a kv_add_num kv_num_expire)
qed

section \<open>Callers at once\<close>

text \<open>
  A client counts its attempt (INCR), then either takes it back because the account is locked
  (DECR) or renews the lock (EXPIRE) and checks its guess; a right guess is given back. Time may
  pass as long as the counter does not expire meanwhile.
\<close>

datatype phase = Idle | Counted int | Checking

type_synonym race = "int \<times> redis \<times> phase list"

inductive race_step :: "settings \<Rightarrow> string \<Rightarrow> race \<Rightarrow> race \<Rightarrow> bool" for cfg k where
  incr: "i < length ps \<Longrightarrow> ps ! i = Idle \<Longrightarrow> kv_add now r k 1 = (n, r') \<Longrightarrow>
    race_step cfg k (now, r, ps) (now, r', ps[i := Counted n])"
| refuse: "i < length ps \<Longrightarrow> ps ! i = Counted n \<Longrightarrow> n > cfg_max_login_attempts cfg \<Longrightarrow>
    race_step cfg k (now, r, ps) (now, snd (kv_add now r k (- 1)), ps[i := Idle])"
| accept: "i < length ps \<Longrightarrow> ps ! i = Counted n \<Longrightarrow> n \<le> cfg_max_login_attempts cfg \<Longrightarrow>
    race_step cfg k (now, r, ps) (now, kv_expire now r k (cfg_login_lockout_minutes cfg * 60), ps[i := Checking])"
| right: "i < length ps \<Longrightarrow> ps ! i = Checking \<Longrightarrow> kv_exists now r k \<Longrightarrow>
    race_step cfg k (now, r, ps) (now, snd (kv_add now r k (- 1)), ps[i := Idle])"
| tick: "now \<le> later \<Longrightarrow> kv_entry later r k = kv_entry now r k \<Longrightarrow>
    race_step cfg k (now, r, ps) (later, r, ps)"

inductive_cases race_stepE: "race_step cfg k (now, r, ps) s"

definition admitted :: "settings \<Rightarrow> phase \<Rightarrow> bool" where
  "admitted cfg p \<longleftrightarrow> (case p of Idle \<Rightarrow> False | Counted n \<Rightarrow> n \<le> cfg_max_login_attempts cfg | Checking \<Rightarrow> True)"

definition refused :: "settings \<Rightarrow> phase \<Rightarrow> bool" where
  "refused cfg p \<longleftrightarrow> (case p of Counted n \<Rightarrow> n > cfg_max_login_attempts cfg | _ \<Rightarrow> False)"

definition counting :: "(phase \<Rightarrow> bool) \<Rightarrow> phase list \<Rightarrow> int" where
  "counting P ps = int (length (filter P ps))"

lemma counting_update:
  "i < length ps \<Longrightarrow> counting P (ps[i := p]) =
     counting P ps - (if P (ps ! i) then 1 else 0) + (if P p then 1 else 0)"
proof (induction ps arbitrary: i)
  case (Cons q qs)
  show ?case
  proof (cases i)
    case (Suc j)
    with Cons.IH [of j] Cons.prems show ?thesis by (auto simp: counting_def)
  qed (auto simp: counting_def)
qed simp

lemma counting_nonneg: "0 \<le> counting P ps"
  by (simp add: counting_def)

definition race_inv :: "settings \<Rightarrow> string \<Rightarrow> race \<Rightarrow> bool" where
  "race_inv cfg k s \<longleftrightarrow>
     (case s of (now, r, ps) \<Rightarrow>
        kv_num now r k = counting (admitted cfg) ps + counting (refused cfg) ps \<and>
        counting (admitted cfg) ps \<le> cfg_max_login_attempts cfg)"

lemma kv_num_same: "kv_entry later r k = kv_entry now r k \<Longrightarrow> kv_num later r k = kv_num now r k"
  by (simp add: kv_num_def kv_get_def)

lemma race_step_inv:
  assumes "race_step cfg k s t" "race_inv cfg k s" "0 < cfg_login_lockout_minutes cfg"
  shows "race_inv cfg k t"
  using assms
proof cases
  case (incr i ps now r n r')
  have "n = kv_num now r k + 1" "kv_num now r' k = kv_num now r k + 1"
    using kv_add_fst [of now r k 1] kv_add_num [of now r k 1 k] incr(5) by simp_all
  with incr assms(2) show ?thesis
    using counting_nonneg [of "refused cfg" ps]
    by (auto simp: race_inv_def counting_update admitted_def refused_def)
qed (use assms in \<open>auto simp: race_inv_def counting_update admitted_def refused_def kv_add_num kv_num_expire
       dest: kv_num_same\<close>)



text \<open>
  The refusal's DECR does not look whether the counter still exists: a counter that expires between
  the INCR and the DECR of a refused attempt comes back as \<open>-1\<close> and never expires, which admits
  one attempt more than the limit.
\<close>

theorem refused_attempt_after_expiry:
  assumes "kv_get now r k = None"
  shows "kv_get later (snd (kv_add now r k (- 1))) k = Some (Num (- 1)) \<and>
    kv_ttl later (snd (kv_add now r k (- 1))) k = - 1"
  using assms
  by (simp add: kv_get_def kv_add_def kv_num_def kv_ttl_def live_def Let_def split: option.splits)

theorem refused_attempt_after_expiry_witness:
  "kv_get 0 [] ''k'' = None \<and> kv_get 99 (snd (kv_add 0 [] ''k'' (- 1))) ''k'' = Some (Num (- 1)) \<and>
   kv_ttl 99 (snd (kv_add 0 [] ''k'' (- 1))) ''k'' = - 1"
proof -
  have h: "kv_get 0 [] ''k'' = None" by (simp add: kv_get_def kv_entry_def)
  from h refused_attempt_after_expiry [OF h, of 99] show ?thesis by simp
qed

section \<open>The alarm against password spraying\<close>

lemma spray_key_not_alerted: "spray_key m \<noteq> SPRAY_ALERTED"
proof
  assume "spray_key m = SPRAY_ALERTED"
  then have "take 24 (SPRAY_PREFIX @ string_of_int m) = take 24 SPRAY_ALERTED" by (simp add: spray_key_def)
  moreover have "take 24 (SPRAY_PREFIX @ string_of_int m) = take 24 SPRAY_PREFIX" by (simp add: SPRAY_PREFIX_def)
  moreover have "take 24 SPRAY_PREFIX \<noteq> take 24 SPRAY_ALERTED" by code_simp
  ultimately show False by simp
qed

lemma count_failure_other: "j \<noteq> k \<Longrightarrow> kv_get now (snd (count_failure now r k s)) j = kv_get now r j"
  using kv_get_add_other [of j k now r 1]
  by (auto simp: count_failure_def kv_get_expire_other split: prod.split)

lemma count_failure_entry_other:
  "j \<noteq> k \<Longrightarrow> kv_entry later (snd (count_failure now r k s)) j = kv_entry later r j"
  by (auto simp: count_failure_def kv_add_def kv_expire_def kv_set_def Let_def split: option.split)

lemma alerted_silent:
  assumes "kv_exists now r SPRAY_ALERTED"
  shows "\<not> fst (record_instance_login_failure cfg now r)"
    and "kv_entry later (snd (record_instance_login_failure cfg now r)) SPRAY_ALERTED = kv_entry later r SPRAY_ALERTED"
proof -
  let ?r1 = "snd (count_failure now r (spray_key (now div 60000)) ((cfg_spray_window_minutes cfg + 1) * 60))"
  have e: "kv_entry t ?r1 SPRAY_ALERTED = kv_entry t r SPRAY_ALERTED" for t
    using count_failure_entry_other spray_key_not_alerted by metis
  then have nx: "kv_setnx now ?r1 SPRAY_ALERTED v s = (False, ?r1)" for v s
    using assms by (simp add: kv_setnx_def kv_exists_def)
  show "\<not> fst (record_instance_login_failure cfg now r)"
    "kv_entry later (snd (record_instance_login_failure cfg now r)) SPRAY_ALERTED = kv_entry later r SPRAY_ALERTED"
    using nx e by (simp_all add: record_instance_login_failure_def Let_def)
qed

fun later_failures :: "settings \<Rightarrow> redis \<Rightarrow> int list \<Rightarrow> bool list" where
  "later_failures cfg r [] = []"
| "later_failures cfg r (t # ts) =
     (let (alarm, r') = record_instance_login_failure cfg t r in alarm # later_failures cfg r' ts)"

text \<open>
  The alarm sounds only at or over the threshold, and then not again before its window has passed,
  whatever failures follow.
\<close>

theorem spray_alarm_once:
  assumes "record_instance_login_failure cfg now r = (True, r')"
    and "list_all (\<lambda>t. now \<le> t \<and> t < now + cfg_spray_window_minutes cfg * 60000) ts"
  shows "cfg_spray_threshold cfg > 0 \<and> later_failures cfg r' ts = replicate (length ts) False"
proof -
  have pos: "cfg_spray_threshold cfg > 0"
    using assms(1) by (auto simp: record_instance_login_failure_def split: if_splits)
  have up: "kv_exists t r' SPRAY_ALERTED" if "t < now + cfg_spray_window_minutes cfg * 60000" for t
    using assms(1) that
    by (auto simp: record_instance_login_failure_def Let_def kv_setnx_def kv_set_def kv_exists_def live_def
        split: if_splits)
  have "later_failures cfg q ts = replicate (length ts) False"
    if "\<And>t. t < now + cfg_spray_window_minutes cfg * 60000 \<Longrightarrow> kv_exists t q SPRAY_ALERTED" for q
    using assms(2) that
  proof (induction ts arbitrary: q)
    case (Cons t ts)
    from Cons.prems have "kv_exists t q SPRAY_ALERTED" by simp
    note silent = alerted_silent [OF this, where cfg = cfg]
    have "kv_exists u (snd (record_instance_login_failure cfg t q)) SPRAY_ALERTED"
      if "u < now + cfg_spray_window_minutes cfg * 60000" for u
      using Cons.prems(2) [OF that] silent(2) by (simp add: kv_exists_def)
    with Cons silent(1) show ?case by (simp add: case_prod_beta Let_def)
  qed simp
  with up pos show ?thesis by blast
qed

definition spray_settings :: settings where
  "spray_settings = sample_settings\<lparr>cfg_spray_threshold := 1, cfg_spray_window_minutes := 1\<rparr>"

theorem spray_alarm_once_witness:
  "fst (record_instance_login_failure spray_settings 0 []) \<and>
   later_failures spray_settings (snd (record_instance_login_failure spray_settings 0 [])) [5, 59999] = [False, False]"
proof -
  have a: "fst (record_instance_login_failure spray_settings 0 [])" by code_simp
  then have h: "record_instance_login_failure spray_settings 0 []
      = (True, snd (record_instance_login_failure spray_settings 0 []))" by (simp add: prod_eq_iff)
  have t: "list_all (\<lambda>t. 0 \<le> t \<and> t < 0 + cfg_spray_window_minutes spray_settings * 60000) [5, 59999]"
    by (simp add: spray_settings_def)
  show ?thesis using a spray_alarm_once [OF h t] by (simp add: numeral_2_eq_2)
qed

end
