(* ===== verification/Sessions.thy ===== *)
theory Sessions
  imports Audit_Trail Rate_Limit
begin

text \<open>
  Sessions and waiting logins (\<open>app/services/auth.py\<close>), one-time codes (\<open>app/services/mfa.py\<close>) and
  the setup token (\<open>app/services/setup_token.py\<close>). Signed tokens and bcrypt are the functions of
  \<open>crypto\<close>; Redis keys are keyed hashes of the tokens, so that the store never holds one.
\<close>

definition SESSION_PREFIX :: string where "SESSION_PREFIX = ''openwhistle:session:''"
definition TOTP_PENDING_PREFIX :: string where "TOTP_PENDING_PREFIX = ''openwhistle:totp_pending:''"
definition TOTP_SETUP_PREFIX :: string where "TOTP_SETUP_PREFIX = ''openwhistle:totp_setup:''"
definition BCRYPT_MAX_BYTES :: nat where "BCRYPT_MAX_BYTES = 72"
definition MIN_PASSWORD_LENGTH :: nat where "MIN_PASSWORD_LENGTH = 12"

definition token_key :: "env \<Rightarrow> string \<Rightarrow> string \<Rightarrow> string" where
  "token_key e pre token = pre @ cr_hmac (env_crypto e) token"

section \<open>Passwords\<close>

datatype password_error = Password_short | Password_long

definition validate_password :: "string \<Rightarrow> password_error + string" where
  "validate_password password =
     (if length password < MIN_PASSWORD_LENGTH then Inl Password_short
      else if length password > BCRYPT_MAX_BYTES then Inl Password_long else Inr password)"

definition hash_password :: "crypto \<Rightarrow> string \<Rightarrow> string" where
  "hash_password cr password = cr_bcrypt cr password"

definition bcrypt_check :: "crypto \<Rightarrow> string \<Rightarrow> string \<Rightarrow> bool" where
  "bcrypt_check cr plain hashed =
     (if length plain > BCRYPT_MAX_BYTES then False else cr_bcrypt_ok cr plain hashed)"

definition verify_password :: "crypto \<Rightarrow> string \<Rightarrow> string \<Rightarrow> bool" where
  "verify_password cr plain hashed = bcrypt_check cr plain hashed"

definition hash_pin :: "crypto \<Rightarrow> string \<Rightarrow> string" where
  "hash_pin cr pin = cr_bcrypt cr pin"

definition verify_pin :: "crypto \<Rightarrow> string \<Rightarrow> string \<Rightarrow> bool" where
  "verify_pin cr plain hashed = bcrypt_check cr plain hashed"

definition TIMING_DUMMY_HASH :: "crypto \<Rightarrow> string" where
  "TIMING_DUMMY_HASH cr = hash_password cr ''timing-equalizer-not-a-real-secret''"

section \<open>Signed tokens\<close>

definition new_claims :: "env \<Rightarrow> nat \<Rightarrow> uuid \<Rightarrow> role \<Rightarrow> int option \<Rightarrow> claims" where
  "new_claims e n uid role auth_time =
     (let started = (case auth_time of Some t \<Rightarrow> t | None \<Rightarrow> seconds e);
          expire = min (env_now e + cfg_access_token_expire_minutes (env_cfg e) * 60000000)
                       (started * 1000000 + cfg_session_max_hours (env_cfg e) * 3600000000)
      in \<lparr>clm_sub = uid, clm_role = role, clm_exp = expire div 1000000, clm_iat = seconds e,
          clm_auth_time = Some started, clm_jti = env_id e n\<rparr>)"

definition create_access_token :: "env \<Rightarrow> nat \<Rightarrow> uuid \<Rightarrow> role \<Rightarrow> int option \<Rightarrow> string" where
  "create_access_token e n uid role auth_time = cr_jwt (env_crypto e) (new_claims e n uid role auth_time)"

definition decode_access_token_claims :: "env \<Rightarrow> string \<Rightarrow> claims option" where
  "decode_access_token_claims e token =
     (case cr_jwt_claims (env_crypto e) token of
        None \<Rightarrow> None
      | Some c \<Rightarrow> if clm_exp c \<le> seconds e then None else Some c)"

definition session_started_at :: "claims \<Rightarrow> int" where
  "session_started_at c = (case clm_auth_time c of Some t \<Rightarrow> t | None \<Rightarrow> clm_iat c)"

definition session_too_old :: "env \<Rightarrow> claims \<Rightarrow> bool" where
  "session_too_old e c \<longleftrightarrow>
     env_now e - session_started_at c * 1000000 > cfg_session_max_hours (env_cfg e) * 3600000000"

definition decode_access_token_exp :: "env \<Rightarrow> string \<Rightarrow> int option" where
  "decode_access_token_exp e token = map_option clm_exp (decode_access_token_claims e token)"

definition seconds_left :: "env \<Rightarrow> string \<Rightarrow> int" where
  "seconds_left e token =
     (case decode_access_token_exp e token of
        None \<Rightarrow> 0 | Some x \<Rightarrow> max 0 ((x * 1000000 - env_now e) div 1000000))"

section \<open>Sessions in Redis\<close>

definition get_session_ttl :: "env \<Rightarrow> redis \<Rightarrow> string \<Rightarrow> int" where
  "get_session_ttl e r token = max 0 (kv_ttl (millis e) r (token_key e SESSION_PREFIX token))"

definition store_session :: "env \<Rightarrow> redis \<Rightarrow> uuid \<Rightarrow> string \<Rightarrow> redis" where
  "store_session e r uid token =
     kv_set (millis e) r (token_key e SESSION_PREFIX token) (Ref uid) (max 1 (seconds_left e token))"

definition validate_session :: "env \<Rightarrow> redis \<Rightarrow> string \<Rightarrow> bool" where
  "validate_session e r token = kv_exists (millis e) r (token_key e SESSION_PREFIX token)"

definition revoke_session :: "env \<Rightarrow> redis \<Rightarrow> string \<Rightarrow> bool \<times> redis" where
  "revoke_session e r token =
     (validate_session e r token, kv_del r (token_key e SESSION_PREFIX token))"

definition SWEEP_PREFIXES :: "string list" where
  "SWEEP_PREFIXES = [SESSION_PREFIX, TOTP_PENDING_PREFIX, TOTP_SETUP_PREFIX]"

text \<open>The Lua script: one atomic pass over the keys of each prefix.\<close>

definition doomed :: "int \<Rightarrow> redis \<Rightarrow> uuid \<Rightarrow> string \<Rightarrow> string list" where
  "doomed now r uid kept =
     concat (map (\<lambda>p. filter (\<lambda>k. k \<noteq> kept \<and> kv_get now r k = Some (Ref uid)) (kv_keys now r p)) SWEEP_PREFIXES)"

definition revoke_user_sessions :: "env \<Rightarrow> redis \<Rightarrow> uuid \<Rightarrow> string option \<Rightarrow> int \<times> redis" where
  "revoke_user_sessions e r uid keep =
     (let kept = (case keep of None \<Rightarrow> [] | Some t \<Rightarrow> if t = [] then [] else token_key e SESSION_PREFIX t);
          ks = doomed (millis e) r uid kept
      in (int (length ks), kv_del_all r ks))"

definition store_totp_pending :: "env \<Rightarrow> redis \<Rightarrow> string \<Rightarrow> uuid \<Rightarrow> redis" where
  "store_totp_pending e r token uid = kv_set (millis e) r (token_key e TOTP_PENDING_PREFIX token) (Ref uid) 300"

definition ref_of :: "rval option \<Rightarrow> uuid option" where
  "ref_of v = (case v of Some (Ref i) \<Rightarrow> Some i | _ \<Rightarrow> None)"

definition consume_totp_pending :: "env \<Rightarrow> redis \<Rightarrow> string \<Rightarrow> uuid option \<times> redis" where
  "consume_totp_pending e r token =
     (let (v, r') = kv_getdel (millis e) r (token_key e TOTP_PENDING_PREFIX token) in (ref_of v, r'))"

definition store_totp_setup_pending :: "env \<Rightarrow> redis \<Rightarrow> string \<Rightarrow> uuid \<Rightarrow> redis" where
  "store_totp_setup_pending e r token uid = kv_set (millis e) r (token_key e TOTP_SETUP_PREFIX token) (Ref uid) 600"

definition peek_totp_setup_pending :: "env \<Rightarrow> redis \<Rightarrow> string \<Rightarrow> uuid option" where
  "peek_totp_setup_pending e r token = ref_of (kv_get (millis e) r (token_key e TOTP_SETUP_PREFIX token))"

definition consume_totp_setup_pending :: "env \<Rightarrow> redis \<Rightarrow> string \<Rightarrow> uuid option \<times> redis" where
  "consume_totp_setup_pending e r token =
     (let (v, r') = kv_getdel (millis e) r (token_key e TOTP_SETUP_PREFIX token) in (ref_of v, r'))"

definition get_user_by_username :: "db \<Rightarrow> string \<Rightarrow> user option" where
  "get_user_by_username d username = find (\<lambda>u. usr_username u = username) (db_users d)"

definition get_user_by_id :: "db \<Rightarrow> uuid \<Rightarrow> user option" where
  "get_user_by_id d uid = user_of d uid"

definition get_user_by_oidc_sub :: "db \<Rightarrow> string \<Rightarrow> string \<Rightarrow> user option" where
  "get_user_by_oidc_sub d sub issuer =
     find (\<lambda>u. usr_oidc_sub u = Some sub \<and> usr_oidc_issuer u = Some issuer) (db_users d)"

section \<open>One-time codes\<close>

definition six_digits :: "string \<Rightarrow> bool" where
  "six_digits code \<longleftrightarrow>
     length code = 6 \<and> list_all (\<lambda>c. 48 \<le> (of_char c :: nat) \<and> (of_char c :: nat) \<le> 57) code"

definition verify_totp :: "env \<Rightarrow> string \<Rightarrow> string \<Rightarrow> bool" where
  "verify_totp e secret code = (if \<not> six_digits code then False else cr_totp (env_crypto e) secret code)"

definition totp_used_key :: "uuid \<Rightarrow> string \<Rightarrow> string" where
  "totp_used_key uid code = ''openwhistle:totp_used:'' @ string_of_int (int uid) @ '':'' @ code"

definition consume_totp :: "env \<Rightarrow> redis \<Rightarrow> uuid \<Rightarrow> string \<Rightarrow> string \<Rightarrow> bool \<times> redis" where
  "consume_totp e r uid secret code =
     (if verify_totp e secret code then kv_setnx (millis e) r (totp_used_key uid code) (Txt ''1'') 90
      else (False, r))"

definition DEMO_USERNAMES :: "string list" where "DEMO_USERNAMES = [''demo'', ''case_manager'', ''demo2'']"
definition DEMO_TOTP_SECRET :: string where "DEMO_TOTP_SECRET = ''JBSWY3DPEHPK3PXP''"

definition verify_demo_totp :: "string \<Rightarrow> string \<Rightarrow> string \<Rightarrow> bool" where
  "verify_demo_totp code username secret \<longleftrightarrow>
     code = ''000000'' \<and> username \<in> set DEMO_USERNAMES \<and> secret = DEMO_TOTP_SECRET"

section \<open>The setup token\<close>

definition SETUP_TOKEN_KEY :: string where "SETUP_TOKEN_KEY = ''openwhistle:setup-token''"

definition ensure_setup_token :: "env \<Rightarrow> redis \<Rightarrow> string \<Rightarrow> bool \<times> redis" where
  "ensure_setup_token e r fresh =
     (let configured = cfg_setup_token (env_cfg e) in
      if configured \<noteq> [] then
        (kv_get (millis e) r SETUP_TOKEN_KEY \<noteq> Some (Txt configured), kv_put r SETUP_TOKEN_KEY (Txt configured) None)
      else if kv_exists (millis e) r SETUP_TOKEN_KEY then (False, r)
      else (True, kv_put r SETUP_TOKEN_KEY (Txt fresh) None))"

definition check_setup_token :: "env \<Rightarrow> redis \<Rightarrow> string \<Rightarrow> bool" where
  "check_setup_token e r supplied =
     (case kv_get (millis e) r SETUP_TOKEN_KEY of
        Some (Txt stored) \<Rightarrow> stored \<noteq> [] \<and> supplied \<noteq> [] \<and> stored = supplied
      | _ \<Rightarrow> False)"

definition delete_setup_token :: "redis \<Rightarrow> redis" where
  "delete_setup_token r = kv_del r SETUP_TOKEN_KEY"

section \<open>What sessions guarantee\<close>

text \<open>
  However often it is refreshed, a session ends by itself within the configured hours of the sign-in:
  a refreshed token keeps the sign-in time and expires no later than that.
\<close>

theorem session_absolute_limit:
  "session_started_at (new_claims e n uid role (Some (session_started_at old))) = session_started_at old \<and>
   clm_exp (new_claims e n uid role (Some (session_started_at old)))
     \<le> session_started_at old + cfg_session_max_hours (env_cfg e) * 3600 \<and>
   clm_exp (new_claims e n uid role auth_time) * 1000000
     \<le> env_now e + cfg_access_token_expire_minutes (env_cfg e) * 60000000"
proof -
  let ?s = "session_started_at old" and ?h = "cfg_session_max_hours (env_cfg e)"
  have "clm_exp (new_claims e n uid role (Some ?s)) \<le> (?s * 1000000 + ?h * 3600000000) div 1000000"
    by (simp add: new_claims_def Let_def zdiv_mono1)
  also have "(?s * 1000000 + ?h * 3600000000) div 1000000 = ?s + ?h * 3600" by linarith
  finally have "clm_exp (new_claims e n uid role (Some ?s)) \<le> ?s + ?h * 3600" .
  moreover have "clm_exp (new_claims e n uid role auth_time) * 1000000
      \<le> env_now e + cfg_access_token_expire_minutes (env_cfg e) * 60000000"
    by (simp add: new_claims_def Let_def)
  moreover have "session_started_at (new_claims e n uid role (Some ?s)) = ?s"
    by (simp add: new_claims_def Let_def session_started_at_def)
  ultimately show ?thesis by blast
qed

lemma doomed_iff:
  "k \<in> set (doomed now r uid kept) \<longleftrightarrow>
     k \<noteq> kept \<and> kv_get now r k = Some (Ref uid) \<and> list_ex (\<lambda>p. take (length p) k = p) SWEEP_PREFIXES"
  by (auto simp: doomed_def kv_keys_iff kv_exists_get list_ex_iff)

text \<open>
  Ending a user's sessions ends all of them: after the sweep no session, login or enrolment token of
  that user is accepted any more, at this moment or later, save the one kept; everything else in the
  store is as it was.
\<close>

theorem sweep_ends_sessions:
  assumes "revoke_user_sessions e r uid keep = (n, r')" "p \<in> set SWEEP_PREFIXES" "millis e \<le> later"
  shows "(kv_get later r' (p @ cr_hmac (env_crypto e) token) = Some (Ref uid) \<longrightarrow>
      (\<exists>t. keep = Some t \<and> t \<noteq> [] \<and> p @ cr_hmac (env_crypto e) token = token_key e SESSION_PREFIX t)) \<and>
    (kv_get later r' k \<noteq> kv_get later r k \<longrightarrow>
      kv_get (millis e) r k = Some (Ref uid) \<and> list_ex (\<lambda>p. take (length p) k = p) SWEEP_PREFIXES)"
proof -
  define kept where "kept = (case keep of None \<Rightarrow> [] | Some t \<Rightarrow> if t = [] then [] else token_key e SESSION_PREFIX t)"
  have r': "r' = kv_del_all r (doomed (millis e) r uid kept)"
    using assms(1) by (simp add: revoke_user_sessions_def kept_def Let_def)
  let ?k = "p @ cr_hmac (env_crypto e) token"
  have "p \<noteq> []" using assms(2) by (auto simp: SWEEP_PREFIXES_def SESSION_PREFIX_def TOTP_PENDING_PREFIX_def TOTP_SETUP_PREFIX_def)
  have "?k = kept" if "kv_get later r' ?k = Some (Ref uid)"
  proof (rule ccontr)
    assume other: "?k \<noteq> kept"
    from that have "kv_get later r ?k = Some (Ref uid)" and "?k \<notin> set (doomed (millis e) r uid kept)"
      by (auto simp: r' kv_get_del_all split: if_splits)
    with other show False
      using kv_get_later [OF assms(3)] assms(2) by (auto simp: doomed_iff list_ex_iff)
  qed
  moreover have "kept \<noteq> ?k" if "keep = None \<or> keep = Some []"
    using that \<open>p \<noteq> []\<close> by (auto simp: kept_def)
  moreover have "kv_get later r' k \<noteq> kv_get later r k \<Longrightarrow>
      kv_get (millis e) r k = Some (Ref uid) \<and> list_ex (\<lambda>p. take (length p) k = p) SWEEP_PREFIXES"
    by (auto simp: r' kv_get_del_all doomed_iff split: if_splits)
  ultimately show ?thesis by (fastforce simp: kept_def split: option.splits if_splits)
qed

text \<open>
  One code authenticates one action: within its 90 seconds it is never accepted again.
\<close>

theorem totp_single_use:
  assumes "consume_totp e r uid secret code = (True, r')"
    and "millis e \<le> millis e'" "millis e' < millis e + 90 * 1000"
  shows "verify_totp e secret code \<and> \<not> fst (consume_totp e' r' uid secret' code)"
proof -
  have v: "verify_totp e secret code"
    and nx: "kv_setnx (millis e) r (totp_used_key uid code) (Txt ''1'') 90 = (True, r')"
    using assms(1) by (auto simp: consume_totp_def split: if_splits)
  have "\<not> fst (kv_setnx (millis e') r' (totp_used_key uid code) (Txt ''1'') 90)"
    using kv_setnx_once [OF nx _ assms(2)] assms(3) by simp
  then show ?thesis using v by (simp add: consume_totp_def)
qed

definition sample_env :: env where
  "sample_env = \<lparr>env_now = 5000000, env_cfg = sample_settings, env_id = (\<lambda>n. 100 + n),
     env_token = (\<lambda>n. ''tok''), env_crypto =
       \<lparr>cr_hmac = (\<lambda>s. s), cr_bcrypt = (\<lambda>s. ''b'' @ s), cr_bcrypt_ok = (\<lambda>p h. h = ''b'' @ p),
        cr_seal = (\<lambda>k m. m), cr_open = (\<lambda>k t. Some t), cr_hkdf = (\<lambda>k. k), cr_sha_key = (\<lambda>k. k),
        cr_totp = (\<lambda>secret code. code = ''123456''), cr_jwt = (\<lambda>c. ''jwt''),
        cr_jwt_claims = (\<lambda>_. None)\<rparr>\<rparr>"

theorem totp_single_use_witness:
  "consume_totp sample_env [] 7 ''s'' ''123456'' =
     (True, kv_set (millis sample_env) [] (totp_used_key 7 ''123456'') (Txt ''1'') 90) \<and>
   \<not> fst (consume_totp sample_env
      (kv_set (millis sample_env) [] (totp_used_key 7 ''123456'') (Txt ''1'') 90) 7 ''s'' ''123456'')"
proof -
  have h: "consume_totp sample_env [] 7 ''s'' ''123456'' =
     (True, kv_set (millis sample_env) [] (totp_used_key 7 ''123456'') (Txt ''1'') 90)"
    "millis sample_env \<le> millis sample_env" "millis sample_env < millis sample_env + 90 * 1000"
    by code_simp+
  show ?thesis using h(1) totp_single_use [OF h, of "''s''"] by blast
qed

theorem sweep_ends_sessions_witness:
  "revoke_user_sessions sample_env (kv_set 0 [] (token_key sample_env SESSION_PREFIX ''a'') (Ref 7) 3600) 7 None
     = (1, []) \<and> kv_get 5000 [] (SESSION_PREFIX @ cr_hmac (env_crypto sample_env) ''a'') \<noteq> Some (Ref 7)"
proof -
  have h: "revoke_user_sessions sample_env (kv_set 0 [] (token_key sample_env SESSION_PREFIX ''a'') (Ref 7) 3600) 7 None
     = (1, [])" "SESSION_PREFIX \<in> set SWEEP_PREFIXES" "millis sample_env \<le> 5000"
    by code_simp+
  show ?thesis using h(1) sweep_ends_sessions [OF h, of "''a''"] by blast
qed

end
