(* ===== verification/Encryption.thy ===== *)
theory Encryption
  imports Domain
begin

text \<open>
  Encryption at rest (\<open>app/services/crypto.py\<close>, \<open>app/services/encryption.py\<close>): one data key per
  report, wrapped under the instance's root key; root keys can be retired and rotated. Fernet,
  HKDF-SHA256 and SHA-256 are the functions of \<open>crypto\<close>; \<open>fernet_ok\<close> states what Fernet is
  documented to do: a token opens under its own key, under no other one of the set in use, and
  begins with the version byte's text.
\<close>

definition FERNET_PREFIX :: string where "FERNET_PREFIX = ''gAAAA''"

definition DECRYPTION_FAILED :: string where
  "DECRYPTION_FAILED = ''[DECRYPTION FAILED - check ENCRYPTION_KEY/SECRET_KEY]''"

section \<open>Several keys\<close>

fun multi_open :: "crypto \<Rightarrow> string list \<Rightarrow> string \<Rightarrow> string option" where
  "multi_open cr [] token = None"
| "multi_open cr (k # ks) token =
     (case cr_open cr k token of Some m \<Rightarrow> Some m | None \<Rightarrow> multi_open cr ks token)"

definition multi_seal :: "crypto \<Rightarrow> string list \<Rightarrow> string \<Rightarrow> string" where
  "multi_seal cr ks m = cr_seal cr (hd ks) m"

section \<open>crypto.py\<close>

definition make_fernet :: "crypto \<Rightarrow> settings \<Rightarrow> string list" where
  "make_fernet cr cfg = map (cr_sha_key cr) (encryption_keys cfg)"

definition encrypt :: "crypto \<Rightarrow> settings \<Rightarrow> string \<Rightarrow> string" where
  "encrypt cr cfg plaintext = multi_seal cr (make_fernet cr cfg) plaintext"

definition decrypt :: "crypto \<Rightarrow> settings \<Rightarrow> string \<Rightarrow> string option" where
  "decrypt cr cfg token = multi_open cr (make_fernet cr cfg) token"

definition decrypt_or_none :: "crypto \<Rightarrow> settings \<Rightarrow> string option \<Rightarrow> string option" where
  "decrypt_or_none cr cfg token =
     (case token of None \<Rightarrow> None | Some t \<Rightarrow> if t = [] then None else decrypt cr cfg t)"

definition rotate_token :: "crypto \<Rightarrow> settings \<Rightarrow> string \<Rightarrow> string option" where
  "rotate_token cr cfg token = map_option (multi_seal cr (make_fernet cr cfg)) (decrypt cr cfg token)"

section \<open>encryption.py\<close>

definition make_mek_fernet :: "crypto \<Rightarrow> settings \<Rightarrow> string list" where
  "make_mek_fernet cr cfg = map (cr_hkdf cr) (encryption_keys cfg)"

definition encrypt_dek :: "crypto \<Rightarrow> settings \<Rightarrow> string \<Rightarrow> string" where
  "encrypt_dek cr cfg dek = multi_seal cr (make_mek_fernet cr cfg) dek"

definition decrypt_dek :: "crypto \<Rightarrow> settings \<Rightarrow> string \<Rightarrow> string option" where
  "decrypt_dek cr cfg token = multi_open cr (make_mek_fernet cr cfg) token"

definition rotate_dek :: "crypto \<Rightarrow> settings \<Rightarrow> string \<Rightarrow> string option" where
  "rotate_dek cr cfg token = map_option (multi_seal cr (make_mek_fernet cr cfg)) (decrypt_dek cr cfg token)"

definition make_report_fernet :: "crypto \<Rightarrow> settings \<Rightarrow> string \<Rightarrow> string option" where
  "make_report_fernet cr cfg encrypted_dek = decrypt_dek cr cfg encrypted_dek"

definition encrypt_field :: "crypto \<Rightarrow> string \<Rightarrow> string \<Rightarrow> string" where
  "encrypt_field cr fernet plaintext = cr_seal cr fernet plaintext"

definition decrypt_field :: "crypto \<Rightarrow> string \<Rightarrow> string \<Rightarrow> string option" where
  "decrypt_field cr fernet token = cr_open cr fernet token"

definition decrypt_field_safe :: "crypto \<Rightarrow> string \<Rightarrow> string option \<Rightarrow> string option" where
  "decrypt_field_safe cr fernet token =
     (case token of
        None \<Rightarrow> None
      | Some t \<Rightarrow>
          (case cr_open cr fernet t of
             Some m \<Rightarrow> Some m
           | None \<Rightarrow> if starts_with FERNET_PREFIX t then Some DECRYPTION_FAILED else Some t))"

text \<open>
  The probe at start, on the two columns as they are stored: a report without a wrapped key is not
  sampled, nor a secret from before they were encrypted.
\<close>

definition configured_keys_read_existing_data :: "crypto \<Rightarrow> settings \<Rightarrow> string list \<Rightarrow> string list \<Rightarrow> bool" where
  "configured_keys_read_existing_data cr cfg wrapped_keys totp_secrets =
     ((case find (\<lambda>t. t \<noteq> []) wrapped_keys of None \<Rightarrow> True | Some t \<Rightarrow> decrypt_dek cr cfg t \<noteq> None) \<and>
      (case find (starts_with FERNET_PREFIX) totp_secrets of None \<Rightarrow> True | Some t \<Rightarrow> decrypt cr cfg t \<noteq> None))"

section \<open>Round trips and rotation\<close>

definition fernet_ok :: "crypto \<Rightarrow> string list \<Rightarrow> bool" where
  "fernet_ok cr keys \<longleftrightarrow>
     (\<forall>k \<in> set keys. \<forall>m. cr_open cr k (cr_seal cr k m) = Some m \<and> starts_with FERNET_PREFIX (cr_seal cr k m)) \<and>
     (\<forall>k \<in> set keys. \<forall>j \<in> set keys. \<forall>m. j \<noteq> k \<longrightarrow> cr_open cr j (cr_seal cr k m) = None)"

lemma multi_open_seal:
  assumes "fernet_ok cr ks" "k \<in> set ks"
  shows "multi_open cr ks (cr_seal cr k m) = Some m"
proof -
  have "multi_open cr js (cr_seal cr k m) = Some m" if "k \<in> set js" "set js \<subseteq> set ks" for js
    using that
  proof (induction js)
    case (Cons j js)
    have own: "cr_open cr k (cr_seal cr k m) = Some m" using assms unfolding fernet_ok_def by blast
    show ?case
    proof (cases "j = k")
      case False
      then have "cr_open cr j (cr_seal cr k m) = None"
        using assms Cons.prems(2) unfolding fernet_ok_def by (metis insert_subset list.simps(15))
      with Cons False show ?thesis by simp
    qed (simp add: own)
  qed simp
  then show ?thesis using assms(2) by blast
qed

lemma encryption_keys_not_empty [simp]: "encryption_keys cfg \<noteq> []" "make_fernet cr cfg \<noteq> []" "make_mek_fernet cr cfg \<noteq> []"
  by (simp_all add: encryption_keys_def make_fernet_def make_mek_fernet_def)

lemma multi_open_multi_seal: "fernet_ok cr ks \<Longrightarrow> ks \<noteq> [] \<Longrightarrow> multi_open cr ks (multi_seal cr ks m) = Some m"
  by (simp add: multi_seal_def multi_open_seal)

definition current_key_only :: "settings \<Rightarrow> settings" where
  "current_key_only cfg = cfg\<lparr>cfg_encryption_key_previous := []\<rparr>"

lemma encryption_keys_current: "encryption_keys (current_key_only cfg) = [hd (encryption_keys cfg)]"
  by (simp add: encryption_keys_def current_key_only_def)

text \<open>
  Rotating a wrapped data key opens with the current key alone and gives the same data key: the
  retired keys can then be dropped and every field still decrypts as before.
\<close>

theorem rotation_keeps_reports:
  assumes "rotate_dek cr cfg wrapped = Some rotated" "fernet_ok cr (make_mek_fernet cr cfg)"
  shows "decrypt_dek cr (current_key_only cfg) rotated = decrypt_dek cr cfg wrapped \<and>
    decrypt_dek cr cfg rotated = decrypt_dek cr cfg wrapped"
proof -
  obtain dek where dek: "decrypt_dek cr cfg wrapped = Some dek" and r: "rotated = multi_seal cr (make_mek_fernet cr cfg) dek"
    using assms(1) by (auto simp: rotate_dek_def)
  let ?k = "cr_hkdf cr (hd (encryption_keys cfg))"
  have k: "make_mek_fernet cr (current_key_only cfg) = [?k]" "hd (make_mek_fernet cr cfg) = ?k"
    by (simp_all add: make_mek_fernet_def encryption_keys_current hd_map)
  have "?k \<in> set (make_mek_fernet cr cfg)" using k(2) hd_in_set [of "make_mek_fernet cr cfg"] by simp
  then have "cr_open cr ?k (cr_seal cr ?k dek) = Some dek" using assms(2) unfolding fernet_ok_def by blast
  then have "decrypt_dek cr (current_key_only cfg) rotated = Some dek"
    by (simp add: decrypt_dek_def k r multi_seal_def)
  moreover have "decrypt_dek cr cfg rotated = Some dek"
    using assms(2) by (simp add: decrypt_dek_def r multi_open_multi_seal)
  ultimately show ?thesis by (simp add: dek)
qed

text \<open>A cipher that satisfies the hypotheses, for concrete instances.\<close>

definition toy_crypto :: crypto where
  "toy_crypto = \<lparr>cr_hmac = (\<lambda>s. ''h'' @ s), cr_bcrypt = (\<lambda>s. ''b'' @ s), cr_bcrypt_ok = (\<lambda>p h. h = ''b'' @ p),
     cr_seal = (\<lambda>k m. FERNET_PREFIX @ string_of_int (int (length k)) @ '':'' @ k @ m),
     cr_open = (\<lambda>k t. let p = FERNET_PREFIX @ string_of_int (int (length k)) @ '':'' @ k in
                        if starts_with p t then Some (drop (length p) t) else None),
     cr_hkdf = (\<lambda>k. ''m'' @ k), cr_sha_key = (\<lambda>k. ''s'' @ k),
     cr_totp = (\<lambda>secret code. code = ''123456''),
     cr_jwt = (\<lambda>c. string_of_int (int (clm_sub c)) @ ''.'' @ string_of_int (clm_exp c)),
     cr_jwt_claims = (\<lambda>_. None)\<rparr>"

lemma starts_with_append: "starts_with p (p @ s)"
  by (simp add: starts_with_def)

lemma toy_fernet_ok: "fernet_ok toy_crypto [''mnew'', ''mold'']"
proof -
  have "\<not> starts_with (FERNET_PREFIX @ string_of_int 4 @ '':'' @ ''mnew'') (FERNET_PREFIX @ string_of_int 4 @ '':'' @ ''mold'' @ m)"
    "\<not> starts_with (FERNET_PREFIX @ string_of_int 4 @ '':'' @ ''mold'') (FERNET_PREFIX @ string_of_int 4 @ '':'' @ ''mnew'' @ m)" for m
    by (simp_all add: starts_with_def)
  then show ?thesis
    by (auto simp: fernet_ok_def toy_crypto_def Let_def starts_with_def)
qed

theorem rotation_keeps_reports_witness:
  "\<exists>rotated. rotate_dek toy_crypto (sample_settings\<lparr>cfg_encryption_key := ''new'', cfg_encryption_key_previous := ''old''\<rparr>)
       (cr_seal toy_crypto ''mold'' ''DEK'') = Some rotated \<and>
     decrypt_dek toy_crypto (current_key_only
        (sample_settings\<lparr>cfg_encryption_key := ''new'', cfg_encryption_key_previous := ''old''\<rparr>)) rotated
     = decrypt_dek toy_crypto (sample_settings\<lparr>cfg_encryption_key := ''new'', cfg_encryption_key_previous := ''old''\<rparr>)
        (cr_seal toy_crypto ''mold'' ''DEK'')"
proof -
  let ?cfg = "sample_settings\<lparr>cfg_encryption_key := ''new'', cfg_encryption_key_previous := ''old''\<rparr>"
  have k: "make_mek_fernet toy_crypto ?cfg = [''mnew'', ''mold'']"
    by (simp add: make_mek_fernet_def encryption_keys_def toy_crypto_def)
  then have ok: "fernet_ok toy_crypto (make_mek_fernet toy_crypto ?cfg)" using toy_fernet_ok by simp
  have "decrypt_dek toy_crypto ?cfg (cr_seal toy_crypto ''mold'' ''DEK'') = Some ''DEK''"
    unfolding decrypt_dek_def k using toy_fernet_ok by (intro multi_open_seal) simp_all
  then obtain r where r: "rotate_dek toy_crypto ?cfg (cr_seal toy_crypto ''mold'' ''DEK'') = Some r"
    by (simp add: rotate_dek_def)
  from rotation_keeps_reports [OF r ok] r show ?thesis by blast
qed

lemma decrypt_field_safe_seal:
  "fernet_ok cr [k] \<Longrightarrow> decrypt_field_safe cr k (Some (encrypt_field cr k m)) = Some m"
  by (simp add: decrypt_field_safe_def encrypt_field_def fernet_ok_def)

lemma decrypt_or_none_encrypt:
  assumes "fernet_ok cr (make_fernet cr cfg)"
  shows "decrypt_or_none cr cfg (Some (encrypt cr cfg m)) = Some m"
proof -
  have "hd (make_fernet cr cfg) \<in> set (make_fernet cr cfg)" by simp
  then have "starts_with FERNET_PREFIX (encrypt cr cfg m)"
    using assms unfolding fernet_ok_def encrypt_def multi_seal_def by blast
  then have "encrypt cr cfg m \<noteq> []" by (auto simp: starts_with_def FERNET_PREFIX_def)
  then show ?thesis using assms
    by (simp add: decrypt_or_none_def decrypt_def encrypt_def multi_open_multi_seal)
qed

end
