(* ===== verification/Access.thy ===== *)
theory Access
  imports Sessions Encryption
begin

text \<open>
  Who may do what (\<open>app/api/deps.py\<close>, the helpers at the head of \<open>app/api/admin.py\<close>): the gate
  every admin request passes, the roles, and the object-level rules for cases, accounts and the
  rows of an organisation. The locale states what every listing owes the tenants; it is interpreted
  on the listings of the components that have one.
\<close>

section \<open>The gate\<close>

text \<open>A step that may refuse, and what follows it.\<close>

definition on_ok :: "'e + 'a \<Rightarrow> ('a \<Rightarrow> 'e + 'b) \<Rightarrow> 'e + 'b" where
  "on_ok x k = (case x of Inl e \<Rightarrow> Inl e | Inr a \<Rightarrow> k a)"

lemma on_ok_simps [simp]: "on_ok (Inl e) k = Inl e" "on_ok (Inr a) k = k a"
  by (simp_all add: on_ok_def)

lemma on_ok_Inr: "on_ok x k = Inr b \<longleftrightarrow> (\<exists>a. x = Inr a \<and> k a = Inr b)"
  by (cases x) simp_all

lemma if_Inl_Inr: "(if c then Inl e else x) = Inr b \<longleftrightarrow> \<not> c \<and> x = Inr b"
  by simp

datatype refusal = Status nat | Change_password

definition get_signed_in_admin :: "env \<Rightarrow> redis \<Rightarrow> db \<Rightarrow> string option \<Rightarrow> refusal + (user \<times> claims)" where
  "get_signed_in_admin e r d session_token =
     (case session_token of
        None \<Rightarrow> Inl (Status 401)
      | Some token \<Rightarrow>
          (if token = [] then Inl (Status 401)
           else if \<not> validate_session e r token then Inl (Status 401)
           else (case decode_access_token_claims e token of
                   None \<Rightarrow> Inl (Status 401)
                 | Some claims \<Rightarrow>
                     (if session_too_old e claims then Inl (Status 401)
                      else (case get_user_by_id d (clm_sub claims) of
                              None \<Rightarrow> Inl (Status 401)
                            | Some user \<Rightarrow>
                                (if \<not> usr_active user \<or> \<not> usr_totp_enabled user then Inl (Status 401)
                                 else Inr (user, claims)))))))"

definition get_current_admin :: "env \<Rightarrow> redis \<Rightarrow> db \<Rightarrow> string option \<Rightarrow> refusal + user" where
  "get_current_admin e r d session_token =
     (case get_signed_in_admin e r d session_token of
        Inl x \<Rightarrow> Inl x
      | Inr (user, _) \<Rightarrow> (if usr_must_change user then Inl Change_password else Inr user))"

definition require_role :: "role list \<Rightarrow> user \<Rightarrow> refusal + user" where
  "require_role roles u = (if usr_role u \<notin> set roles then Inl (Status 403) else Inr u)"

definition require_admin :: "user \<Rightarrow> refusal + user" where
  "require_admin u = require_role [Admin, Superadmin] u"

definition require_any_role :: "user \<Rightarrow> refusal + user" where
  "require_any_role u = require_role [Admin, Case_manager, Superadmin] u"

definition require_superadmin :: "user \<Rightarrow> refusal + user" where
  "require_superadmin u = require_role [Superadmin] u"

definition require_instance_admin :: "settings \<Rightarrow> user \<Rightarrow> refusal + user" where
  "require_instance_admin cfg u =
     (case require_admin u of
        Inl x \<Rightarrow> Inl x
      | Inr u \<Rightarrow> (if cfg_multi_tenancy cfg \<and> usr_role u \<noteq> Superadmin then Inl (Status 403) else Inr u))"

definition require_tenants :: "settings \<Rightarrow> user \<Rightarrow> refusal + user" where
  "require_tenants cfg u =
     (case require_superadmin u of
        Inl x \<Rightarrow> Inl x
      | Inr u \<Rightarrow> (if \<not> cfg_multi_tenancy cfg then Inl (Status 404) else Inr u))"

definition may_run_the_instance :: "settings \<Rightarrow> user \<Rightarrow> bool" where
  "may_run_the_instance cfg u \<longleftrightarrow>
     (if usr_role u = Superadmin then True else usr_role u = Admin \<and> \<not> cfg_multi_tenancy cfg)"

lemma case_option_Inr: "(case x of None \<Rightarrow> Inl e | Some a \<Rightarrow> k a) = Inr b \<longleftrightarrow> (\<exists>a. x = Some a \<and> k a = Inr b)"
  by (cases x) simp_all

lemma case_sum_Some: "(case x of Inl _ \<Rightarrow> None | Inr a \<Rightarrow> k a) = Some b \<longleftrightarrow> (\<exists>a. x = Inr a \<and> k a = Some b)"
  by (cases x) simp_all

lemma require_admin_Inr: "require_admin u = Inr v \<longleftrightarrow> v = u \<and> usr_role u \<in> {Admin, Superadmin}"
  by (auto simp: require_admin_def require_role_def)

lemma require_superadmin_Inr: "require_superadmin u = Inr v \<longleftrightarrow> v = u \<and> usr_role u = Superadmin"
  by (auto simp: require_superadmin_def require_role_def)

text \<open>A handler's guards, taken apart: what has to hold for it to go through.\<close>

lemmas guard_simps = on_ok_Inr case_option_Inr case_sum_Some if_Inl_Inr require_admin_Inr require_superadmin_Inr Let_def

section \<open>Cases, rows, accounts\<close>

definition can_access_report :: "settings \<Rightarrow> user \<Rightarrow> report \<Rightarrow> bool" where
  "can_access_report cfg u r \<longleftrightarrow>
     (if usr_role u = Superadmin then True
      else if cfg_multi_tenancy cfg \<and> usr_org u \<noteq> rep_org r then False
      else if usr_role u = Case_manager then rep_assigned r = Some (usr_id u)
      else True)"

text \<open>The query arguments that confine a caller: whether to filter by organisation, and by which.\<close>

definition org_scope :: "settings \<Rightarrow> user \<Rightarrow> bool \<times> uuid option" where
  "org_scope cfg u =
     (let scope = cfg_multi_tenancy cfg \<and> usr_role u \<noteq> Superadmin
      in (scope, if scope then usr_org u else None))"

definition report_org :: "settings \<Rightarrow> uuid option \<Rightarrow> bool \<times> uuid option" where
  "report_org cfg org = (cfg_multi_tenancy cfg, org)"

definition own_cases_only :: "user \<Rightarrow> uuid option" where
  "own_cases_only u = (if usr_role u = Case_manager then Some (usr_id u) else None)"

definition in_scope :: "bool \<times> uuid option \<Rightarrow> uuid option \<Rightarrow> bool" where
  "in_scope scope org \<longleftrightarrow> (fst scope \<longrightarrow> org = snd scope)"

definition require_same_org :: "settings \<Rightarrow> user \<Rightarrow> uuid option \<Rightarrow> refusal option" where
  "require_same_org cfg u target =
     (let scope = org_scope cfg u in if fst scope \<and> target \<noteq> snd scope then Some (Status 404) else None)"

definition require_may_manage :: "settings \<Rightarrow> user \<Rightarrow> user \<Rightarrow> refusal option" where
  "require_may_manage cfg u target =
     (case require_same_org cfg u (usr_org target) of
        Some x \<Rightarrow> Some x
      | None \<Rightarrow>
          (if usr_role target = Superadmin \<and> usr_role u \<noteq> Superadmin then Some (Status 403)
           else if cfg_demo_mode cfg \<and> usr_username target \<in> set DEMO_USERNAMES then Some (Status 403)
           else None))"

definition get_authorized_report :: "settings \<Rightarrow> db \<Rightarrow> uuid \<Rightarrow> user \<Rightarrow> refusal + report" where
  "get_authorized_report cfg d i u =
     (case report_of d i of
        None \<Rightarrow> Inl (Status 404)
      | Some r \<Rightarrow> (if \<not> can_access_report cfg u r then Inl (Status 404) else Inr r))"

definition can_reveal_identity :: "settings \<Rightarrow> user \<Rightarrow> report \<Rightarrow> bool" where
  "can_reveal_identity cfg u r \<longleftrightarrow>
     (case rep_assigned r of
        Some i \<Rightarrow> i = usr_id u
      | None \<Rightarrow>
          (if usr_role u \<notin> {Admin, Superadmin} then False
           else \<not> cfg_multi_tenancy cfg \<or> usr_org u = rep_org r))"

definition REASON_MIN :: nat where "REASON_MIN = 10"
definition REASON_MAX :: nat where "REASON_MAX = 500"

definition validated_reason :: "string \<Rightarrow> string option" where
  "validated_reason raw =
     (let reason = strip raw in if REASON_MIN \<le> length reason \<and> length reason \<le> REASON_MAX then Some reason else None)"

text \<open>
  A UUID as typed, \<open>uuid.UUID(s)\<close>: after \<open>urn:\<close>, \<open>uuid:\<close>, the braces at the ends and every hyphen are
  taken away, 32 hexadecimal digits.
\<close>

function without :: "string \<Rightarrow> string \<Rightarrow> string" where
  "without p s =
     (if s = [] \<or> p = [] then s
      else if starts_with p s then without p (drop (length p) s) else hd s # without p (tl s))"
  by pat_completeness auto
termination
  by (relation "measure (length \<circ> snd)") auto

declare without.simps [simp del]

definition brace :: "char \<Rightarrow> bool" where "brace c \<longleftrightarrow> c = CHR 0x7B \<or> c = CHR 0x7D"

definition hex_digit :: "char \<Rightarrow> nat option" where
  "hex_digit c =
     (let n = of_char (lower_char c) :: nat in
      if 48 \<le> n \<and> n \<le> 57 then Some (n - 48) else if 97 \<le> n \<and> n \<le> 102 then Some (n - 87) else None)"

definition parse_uuid :: "string \<Rightarrow> uuid option" where
  "parse_uuid s =
     (let bare = without ''uuid:'' (without ''urn:'' s);
          h = filter (\<lambda>c. c \<noteq> CHR ''-'') (rev (dropWhile brace (rev (dropWhile brace bare)))) in
      if length h = 32 \<and> list_all (\<lambda>c. hex_digit c \<noteq> None) h
      then Some (foldl (\<lambda>a c. 16 * a + the (hex_digit c)) 0 h) else None)"

section \<open>Forms, CSRF tokens, the onion listener\<close>

text \<open>Line breaks become LF before a field is measured (\<open>app/forms.py\<close>).\<close>

fun lf :: "string \<Rightarrow> string" where
  "lf [] = []"
| "lf [c] = [if c = CHR 0x0D then CHR 0x0A else c]"
| "lf (c # c' # cs) =
     (if c = CHR 0x0D then CHR 0x0A # (if c' = CHR 0x0A then lf cs else lf (c' # cs)) else c # lf (c' # cs))"

definition text_field :: "nat \<Rightarrow> string \<Rightarrow> refusal + string" where
  "text_field n v = (let t = lf v in if length t > n then Inl (Status 422) else Inr t)"

definition sort_order_field :: "int \<Rightarrow> refusal + int" where
  "sort_order_field n = (if - (2 ^ 31) \<le> n \<and> n \<le> 2 ^ 31 - 1 then Inr n else Inl (Status 422))"

definition same_token :: "string option \<Rightarrow> string option \<Rightarrow> bool" where
  "same_token submitted cookie =
     (case (submitted, cookie) of
        (Some s, Some c) \<Rightarrow> (if s = [] \<or> c = [] then False else s = c)
      | _ \<Rightarrow> False)"

definition validate_csrf :: "string option \<Rightarrow> string option \<Rightarrow> refusal + unit" where
  "validate_csrf submitted cookie = (if \<not> same_token submitted cookie then Inl (Status 403) else Inr ())"

definition raw_header :: "string \<Rightarrow> (string \<times> string) list \<Rightarrow> string" where
  "raw_header name headers =
     (case find (\<lambda>h. lower (fst h) = lower name) headers of None \<Rightarrow> [] | Some h \<Rightarrow> snd h)"

definition is_onion_request :: "settings \<Rightarrow> (string \<times> string) list \<Rightarrow> bool" where
  "is_onion_request cfg headers \<longleftrightarrow> cfg_onion_location cfg \<noteq> [] \<and> raw_header ''x-ow-onion'' headers = ''1''"

definition cookie_secure :: "settings \<Rightarrow> bool \<Rightarrow> bool" where
  "cookie_secure cfg is_onion \<longleftrightarrow> cfg_secure_cookies cfg \<and> \<not> is_onion"

lemma lf_no_cr: "CHR 0x0D \<notin> set (lf s)"
  by (induction s rule: lf.induct) auto

lemma length_lf: "length (lf s) \<le> length s"
  by (induction s rule: lf.induct) auto

section \<open>What the rules guarantee\<close>

lemma get_signed_in_admin_Inr:
  assumes "get_signed_in_admin e r d t = Inr (u, c)"
  shows "\<exists>token. t = Some token \<and> validate_session e r token \<and>
        decode_access_token_claims e token = Some c \<and> \<not> session_too_old e c \<and>
        get_user_by_id d (clm_sub c) = Some u \<and> usr_active u \<and> usr_totp_enabled u"
  using assms unfolding get_signed_in_admin_def
  by (simp split: option.split_asm if_split_asm)

lemma get_current_admin_Inr:
  assumes "get_current_admin e r d t = Inr u"
  obtains token claims where "t = Some token" "validate_session e r token"
    "decode_access_token_claims e token = Some claims" "\<not> session_too_old e claims"
    "get_user_by_id d (clm_sub claims) = Some u" "usr_active u" "usr_totp_enabled u" "\<not> usr_must_change u"
proof -
  obtain c where "get_signed_in_admin e r d t = Inr (u, c)" "\<not> usr_must_change u"
    using assms by (auto simp: get_current_admin_def split: sum.splits if_splits)
  with that get_signed_in_admin_Inr show ?thesis by blast
qed

text \<open>
  C9. A request acts as an account only while its session is in the store, the token is unexpired and
  not older than the absolute limit, and the account is active, enrolled, and done with any forced
  password change.
\<close>

theorem admin_gate:
  assumes "get_current_admin e r d t = Inr u"
  shows "usr_active u \<and> usr_totp_enabled u \<and> \<not> usr_must_change u \<and> u \<in> set (db_users d) \<and>
    (\<exists>token c. t = Some token \<and> decode_access_token_claims e token = Some c \<and> clm_sub c = usr_id u \<and>
       kv_get (millis e) r (token_key e SESSION_PREFIX token) \<noteq> None \<and> seconds e < clm_exp c \<and>
       env_now e \<le> (session_started_at c + cfg_session_max_hours (env_cfg e) * 3600) * 1000000)"
proof -
  from assms obtain token c where g: "t = Some token" "validate_session e r token"
    "decode_access_token_claims e token = Some c" "\<not> session_too_old e c"
    "get_user_by_id d (clm_sub c) = Some u" "usr_active u" "usr_totp_enabled u" "\<not> usr_must_change u"
    by (rule get_current_admin_Inr)
  have "u \<in> set (db_users d) \<and> usr_id u = clm_sub c"
    using row_Some [of usr_id "clm_sub c" "db_users d" u] g(5) by (simp add: get_user_by_id_def user_of_def)
  moreover have "kv_get (millis e) r (token_key e SESSION_PREFIX token) \<noteq> None"
    using g(2) by (simp add: validate_session_def kv_exists_get)
  moreover have "seconds e < clm_exp c"
    using g(3) by (auto simp: decode_access_token_claims_def split: option.splits if_splits)
  moreover have "env_now e \<le> (session_started_at c + cfg_session_max_hours (env_cfg e) * 3600) * 1000000"
    using g(4) by (simp add: session_too_old_def)
  ultimately show ?thesis
    using g by (intro conjI exI [of _ token] exI [of _ c]) simp_all
qed

lemma require_same_org_scope: "require_same_org cfg u org = None \<longleftrightarrow> in_scope (org_scope cfg u) org"
  by (auto simp: require_same_org_def in_scope_def Let_def)

lemma in_scope_cases:
  "in_scope (org_scope cfg u) org \<longleftrightarrow> \<not> cfg_multi_tenancy cfg \<or> usr_role u = Superadmin \<or> org = usr_org u"
  by (auto simp: in_scope_def org_scope_def Let_def)

text \<open>
  What a tenant-aware listing promises: a row is shown only where the caller's scope has it. The
  lemma is the tenants' isolation: no row is shown to both of two callers of different
  organisations, and no row of another organisation to either.
\<close>

locale tenant_listing =
  fixes shown :: "settings \<Rightarrow> user \<Rightarrow> 'r list \<Rightarrow> 'r list"
    and org_of :: "'r \<Rightarrow> uuid option"
  assumes shown_rows: "x \<in> set (shown cfg u rows) \<Longrightarrow> x \<in> set rows"
    and shown_scope: "x \<in> set (shown cfg u rows) \<Longrightarrow> in_scope (org_scope cfg u) (org_of x)"
begin

lemma own_tenant_only:
  assumes "cfg_multi_tenancy cfg" "usr_role u \<noteq> Superadmin" "x \<in> set (shown cfg u rows)"
  shows "org_of x = usr_org u"
  using shown_scope [OF assms(3)] assms(1,2) by (simp add: in_scope_cases)

lemma tenants_disjoint:
  assumes "cfg_multi_tenancy cfg" "usr_role u \<noteq> Superadmin" "usr_role v \<noteq> Superadmin" "usr_org u \<noteq> usr_org v"
  shows "set (shown cfg u rows) \<inter> set (shown cfg v rows) = {}"
proof -
  have "org_of x = usr_org u \<and> org_of x = usr_org v" if "x \<in> set (shown cfg u rows) \<inter> set (shown cfg v rows)" for x
    using that own_tenant_only [OF assms(1,2), of x rows] own_tenant_only [OF assms(1,3), of x rows] by blast
  with assms(4) show ?thesis by (metis ex_in_conv)
qed

end

lemma require_may_manage_None:
  "require_may_manage cfg u target = None \<longleftrightarrow>
     in_scope (org_scope cfg u) (usr_org target) \<and>
     (usr_role target = Superadmin \<longrightarrow> usr_role u = Superadmin) \<and>
     \<not> (cfg_demo_mode cfg \<and> usr_username target \<in> set DEMO_USERNAMES)"
  by (auto simp: require_may_manage_def require_same_org_scope [symmetric] split: option.splits)

text \<open>Whoever may see an identity may also open the case, unless an operator of another organisation is asked.\<close>

lemma reveal_implies_access:
  assumes "can_reveal_identity cfg u r" "rep_assigned r = None"
  shows "can_access_report cfg u r"
  using assms by (cases "usr_role u") (auto simp: can_reveal_identity_def can_access_report_def)

definition gate_claims :: claims where
  "gate_claims = \<lparr>clm_sub = 1, clm_role = Admin, clm_exp = 3000, clm_iat = 0, clm_auth_time = Some 0, clm_jti = 9\<rparr>"

definition gate_env :: env where
  "gate_env = sample_env\<lparr>env_crypto := (env_crypto sample_env)\<lparr>cr_jwt_claims := (\<lambda>_. Some gate_claims)\<rparr>\<rparr>"

definition gate_user :: user where
  "gate_user =
     \<lparr>usr_id = 1, usr_username = ''u'', usr_password_hash = Some ''b'', usr_totp_secret = ''s'',
      usr_totp_enabled = True, usr_role = Admin, usr_active = True, usr_must_change = False,
      usr_oidc_sub = None, usr_oidc_issuer = None, usr_ldap = None, usr_org = None, usr_created_by = None,
      usr_created_at = 0, usr_last_login_at = None, usr_asked_version = None\<rparr>"

theorem admin_gate_witness:
  "get_current_admin gate_env (kv_set 0 [] (token_key gate_env SESSION_PREFIX ''t'') (Ref 1) 3600)
     (empty_db\<lparr>db_users := [gate_user]\<rparr>) (Some ''t'') = Inr gate_user \<and>
   usr_totp_enabled gate_user \<and> seconds gate_env < clm_exp gate_claims"
proof -
  have h: "get_current_admin gate_env (kv_set 0 [] (token_key gate_env SESSION_PREFIX ''t'') (Ref 1) 3600)
     (empty_db\<lparr>db_users := [gate_user]\<rparr>) (Some ''t'') = Inr gate_user" by code_simp
  have "decode_access_token_claims gate_env x = Some c \<Longrightarrow> c = gate_claims" for x c
    by (simp add: decode_access_token_claims_def gate_env_def split: if_splits)
  with admin_gate [OF h] h show ?thesis by blast
qed

end
