(* ===== verification/Calendar.thy ===== *)
theory Calendar
  imports Main
begin

text \<open>
  Python's proleptic Gregorian calendar, as far as the source uses it: the day number of a date
  (\<open>datetime.toordinal\<close>, counted here from 0 for 1 January of year 1), its inverse, and datetime
  values with an optional UTC offset. The month index \<open>12 * year + month - 1\<close> makes month
  arithmetic linear; the two round-trip lemmas at the end of the date part tie it to year, month
  and day, and every lemma about months in the other theories goes through them.
\<close>

section \<open>Dates\<close>

definition is_leap :: "int \<Rightarrow> bool" where
  "is_leap y \<longleftrightarrow> y mod 4 = 0 \<and> (y mod 100 \<noteq> 0 \<or> y mod 400 = 0)"

definition days_before_year :: "int \<Rightarrow> int" where
  "days_before_year y = (y - 1) * 365 + (y - 1) div 4 - (y - 1) div 100 + (y - 1) div 400"

definition year_days :: "bool \<Rightarrow> int" where
  "year_days l = (if l then 366 else 365)"

fun month_days :: "bool \<Rightarrow> int \<Rightarrow> int" where
  "month_days l m = (if m = 2 then (if l then 29 else 28)
                     else if m = 4 \<or> m = 6 \<or> m = 9 \<or> m = 11 then 30 else 31)"

definition before_month_table :: "int list" where
  "before_month_table = [0, 31, 59, 90, 120, 151, 181, 212, 243, 273, 304, 334]"

definition days_before_month :: "bool \<Rightarrow> int \<Rightarrow> int" where
  "days_before_month l m = before_month_table ! nat (m - 1) + (if m > 2 \<and> l then 1 else 0)"

definition days_in_month :: "int \<Rightarrow> int \<Rightarrow> int" where
  "days_in_month y m = month_days (is_leap y) m"

definition month_of :: "bool \<Rightarrow> int \<Rightarrow> int" where
  "month_of l doy = 1 + int (length (filter (\<lambda>m. days_before_month l m \<le> doy)
                                            [2, 3, 4, 5, 6, 7, 8, 9, 10, 11, 12]))"

definition ymd_day :: "int \<Rightarrow> int \<Rightarrow> int \<Rightarrow> int" where
  "ymd_day y m d = days_before_year y + days_before_month (is_leap y) m + d - 1"

definition year_split :: "int \<Rightarrow> int \<times> int" where
  "year_split n =
     (let n400 = n div 146097; r = n mod 146097;
          n100 = min 3 (r div 36524); r2 = r - n100 * 36524;
          n4 = r2 div 1461; r3 = r2 mod 1461;
          n1 = min 3 (r3 div 365)
      in (400 * n400 + 100 * n100 + 4 * n4 + n1 + 1, r3 - n1 * 365))"

definition day_ymd :: "int \<Rightarrow> int \<times> int \<times> int" where
  "day_ymd n = (let (y, doy) = year_split n; m = month_of (is_leap y) doy
                in (y, m, doy - days_before_month (is_leap y) m + 1))"

definition valid_ymd :: "int \<Rightarrow> int \<Rightarrow> int \<Rightarrow> bool" where
  "valid_ymd y m d \<longleftrightarrow> 1 \<le> m \<and> m \<le> 12 \<and> 1 \<le> d \<and> d \<le> days_in_month y m"

subsection \<open>Years\<close>

lemma year_digits:
  fixes a b c e :: int
  assumes "0 \<le> b" "b \<le> 3" "0 \<le> c" "c \<le> 24" "0 \<le> e" "e \<le> 3"
  shows "(400 * a + 100 * b + 4 * c + e) div 4 = 100 * a + 25 * b + c"
    and "(400 * a + 100 * b + 4 * c + e) div 100 = 4 * a + b"
    and "(400 * a + 100 * b + 4 * c + e) div 400 = a"
    and "(400 * a + 100 * b + 4 * c + e) mod 4 = e"
    and "(400 * a + 100 * b + 4 * c + e) mod 100 = 4 * c + e"
    and "(400 * a + 100 * b + 4 * c + e) mod 400 = 100 * b + 4 * c + e"
proof -
  show "(400 * a + 100 * b + 4 * c + e) div 4 = 100 * a + 25 * b + c"
    by (rule int_div_pos_eq [where r = e]) (use assms in auto)
  show "(400 * a + 100 * b + 4 * c + e) div 100 = 4 * a + b"
    by (rule int_div_pos_eq [where r = "4 * c + e"]) (use assms in auto)
  show "(400 * a + 100 * b + 4 * c + e) div 400 = a"
    by (rule int_div_pos_eq [where r = "100 * b + 4 * c + e"]) (use assms in auto)
  show "(400 * a + 100 * b + 4 * c + e) mod 4 = e"
    by (rule int_mod_pos_eq [where q = "100 * a + 25 * b + c"]) (use assms in auto)
  show "(400 * a + 100 * b + 4 * c + e) mod 100 = 4 * c + e"
    by (rule int_mod_pos_eq [where q = "4 * a + b"]) (use assms in auto)
  show "(400 * a + 100 * b + 4 * c + e) mod 400 = 100 * b + 4 * c + e"
    by (rule int_mod_pos_eq [where q = a]) (use assms in auto)
qed

lemma year_digits_exist:
  fixes x :: int
  obtains a b c e where "x = 400 * a + 100 * b + 4 * c + e"
    "0 \<le> b" "b \<le> 3" "0 \<le> c" "c \<le> 24" "0 \<le> e" "e \<le> 3"
proof -
  define r where "r = x mod 400"
  define r2 where "r2 = r mod 100"
  have b: "0 \<le> r div 100" "r div 100 \<le> 3" and c: "0 \<le> r2 div 4" "r2 div 4 \<le> 24"
    and e: "0 \<le> r2 mod 4" "r2 mod 4 \<le> 3"
    using pos_mod_bound [of 400 x] pos_mod_sign [of 400 x] pos_mod_bound [of 100 r] pos_mod_sign [of 100 r]
    unfolding r_def r2_def by linarith+
  have "x = 400 * (x div 400) + 100 * (r div 100) + 4 * (r2 div 4) + r2 mod 4"
    unfolding r_def r2_def by simp
  from that [OF this b c e] show ?thesis .
qed

text \<open>
  With the four digits at their tops (\<open>e = 3\<close>, \<open>c = 24\<close>, \<open>b = 3\<close>) the next year carries over.
\<close>

lemma year_carry:
  fixes a b c e :: int
  assumes "0 \<le> b" "b \<le> 3" "0 \<le> c" "c \<le> 24" "0 \<le> e" "e \<le> 3"
  shows "(400 * a + 100 * b + 4 * c + e + 1) div 4 = 100 * a + 25 * b + c + (if e = 3 then 1 else 0)"
    and "(400 * a + 100 * b + 4 * c + e + 1) div 100 = 4 * a + b + (if e = 3 \<and> c = 24 then 1 else 0)"
    and "(400 * a + 100 * b + 4 * c + e + 1) div 400 = a + (if e = 3 \<and> c = 24 \<and> b = 3 then 1 else 0)"
    and "is_leap (400 * a + 100 * b + 4 * c + e + 1) \<longleftrightarrow> e = 3 \<and> (c < 24 \<or> b = 3)"
proof -
  consider (no) "e < 3" | (four) "e = 3" "c < 24" | (hundred) "e = 3" "c = 24" "b < 3"
    | (all) "e = 3" "c = 24" "b = 3" using assms by linarith
  then have "(400 * a + 100 * b + 4 * c + e + 1) div 4 = 100 * a + 25 * b + c + (if e = 3 then 1 else 0) \<and>
    (400 * a + 100 * b + 4 * c + e + 1) div 100 = 4 * a + b + (if e = 3 \<and> c = 24 then 1 else 0) \<and>
    (400 * a + 100 * b + 4 * c + e + 1) div 400 = a + (if e = 3 \<and> c = 24 \<and> b = 3 then 1 else 0) \<and>
    (is_leap (400 * a + 100 * b + 4 * c + e + 1) \<longleftrightarrow> e = 3 \<and> (c < 24 \<or> b = 3))"
  proof cases
    case no
    then have eq: "400 * a + 100 * b + 4 * c + e + 1 = 400 * a + 100 * b + 4 * c + (e + 1)"
      and e': "0 \<le> e + 1" "e + 1 \<le> 3" using assms by auto
    show ?thesis unfolding is_leap_def eq year_digits [OF assms(1-4) e'] using no assms by auto
  next
    case four
    then have eq: "400 * a + 100 * b + 4 * c + e + 1 = 400 * a + 100 * b + 4 * (c + 1) + 0"
      and c': "0 \<le> c + 1" "c + 1 \<le> 24" using assms by auto
    show ?thesis unfolding is_leap_def eq year_digits [OF assms(1-2) c' order_refl zero_le_numeral]
      using four assms by auto
  next
    case hundred
    then have eq: "400 * a + 100 * b + 4 * c + e + 1 = 400 * a + 100 * (b + 1) + 4 * 0 + 0"
      and b': "0 \<le> b + 1" "b + 1 \<le> 3" using assms by auto
    show ?thesis
      unfolding is_leap_def eq year_digits [OF b' order_refl zero_le_numeral order_refl zero_le_numeral]
      using hundred assms by auto
  next
    case all
    then have eq: "400 * a + 100 * b + 4 * c + e + 1 = 400 * (a + 1) + 100 * 0 + 4 * 0 + 0" by auto
    show ?thesis
      unfolding is_leap_def eq
        year_digits [OF order_refl zero_le_numeral order_refl zero_le_numeral order_refl zero_le_numeral]
      using all by auto
  qed
  then show "(400 * a + 100 * b + 4 * c + e + 1) div 4 = 100 * a + 25 * b + c + (if e = 3 then 1 else 0)"
    and "(400 * a + 100 * b + 4 * c + e + 1) div 100 = 4 * a + b + (if e = 3 \<and> c = 24 then 1 else 0)"
    and "(400 * a + 100 * b + 4 * c + e + 1) div 400 = a + (if e = 3 \<and> c = 24 \<and> b = 3 then 1 else 0)"
    and "is_leap (400 * a + 100 * b + 4 * c + e + 1) \<longleftrightarrow> e = 3 \<and> (c < 24 \<or> b = 3)"
    by blast+
qed

lemma next_year: "days_before_year (y + 1) = days_before_year y + year_days (is_leap y)"
proof -
  obtain a b c e where x: "y - 1 = 400 * a + 100 * b + 4 * c + e"
    and r: "0 \<le> b" "b \<le> 3" "0 \<le> c" "c \<le> 24" "0 \<le> e" "e \<le> 3"
    by (rule year_digits_exist)
  then have y: "y = 400 * a + 100 * b + 4 * c + e + 1" by simp
  show ?thesis
    unfolding days_before_year_def year_days_def x add_diff_cancel_right'
    unfolding y year_carry [OF r] year_digits [OF r]
    by (use r in auto)
qed

lemma year_split_correct:
  assumes "year_split n = (y, doy)"
  shows "n = days_before_year y + doy \<and> 0 \<le> doy \<and> doy < year_days (is_leap y)"
proof -
  define a where "a = n div 146097"
  define r where "r = n mod 146097"
  define b where "b = min 3 (r div 36524)"
  define r2 where "r2 = r - b * 36524"
  define c where "c = r2 div 1461"
  define r3 where "r3 = r2 mod 1461"
  define e where "e = min 3 (r3 div 365)"
  have "year_split n = (400 * a + 100 * b + 4 * c + e + 1, r3 - e * 365)"
    by (simp only: year_split_def Let_def a_def r_def b_def r2_def c_def r3_def e_def)
  with assms have y: "y = 400 * a + 100 * b + 4 * c + e + 1" and doy: "doy = r3 - e * 365" by simp_all
  have n: "n = 146097 * a + 36524 * b + 1461 * c + 365 * e + doy"
    using doy unfolding a_def r_def r2_def c_def r3_def by simp
  have r: "0 \<le> r" "r < 146097" unfolding r_def by simp_all
  have q: "36524 * (r div 36524) \<le> r" "r < 36524 * (r div 36524) + 36524" "0 \<le> r div 36524"
    using r pos_mod_bound [of 36524 r] pos_mod_sign [of 36524 r] mult_div_mod_eq [of 36524 r]
    by (linarith | simp add: pos_imp_zdiv_nonneg_iff)+
  have b: "0 \<le> b" "b \<le> 3" using q unfolding b_def by simp_all
  have b3: "b = 3 \<and> 3 \<le> r div 36524 \<or> b < 3 \<and> b = r div 36524" unfolding b_def by linarith
  then have r2: "0 \<le> r2" "r2 \<le> 36524" "b < 3 \<Longrightarrow> r2 < 36524"
    using r q unfolding r2_def by linarith+
  have c: "0 \<le> c" "c \<le> 24" using r2 unfolding c_def by linarith+
  have r3: "0 \<le> r3" "r3 < 1461" unfolding r3_def by simp_all
  have r2c: "r2 = 1461 * c + r3" unfolding c_def r3_def by simp
  have e: "0 \<le> e" "e \<le> 3" using r3 unfolding e_def by (auto simp: pos_imp_zdiv_nonneg_iff)
  have "e = 3 \<and> 3 \<le> r3 div 365 \<or> e < 3 \<and> e = r3 div 365" unfolding e_def by linarith
  then have "0 \<le> doy" "doy \<le> 365" "e < 3 \<Longrightarrow> doy < 365"
    using r3 doy by linarith+
  moreover have "e = 3 \<Longrightarrow> c = 24 \<Longrightarrow> b < 3 \<Longrightarrow> doy < 365"
    using r2 r2c doy by simp
  moreover have "days_before_year y = 146097 * a + 36524 * b + 1461 * c + 365 * e"
    unfolding days_before_year_def y add_diff_cancel_right' year_digits [OF b c e] by simp
  moreover have "is_leap y \<longleftrightarrow> e = 3 \<and> (c < 24 \<or> b = 3)"
    using year_carry(4) [OF b c e, of a] y by simp
  ultimately show ?thesis
    using n b c e unfolding year_days_def by (cases "e = 3"; cases "c = 24"; cases "b = 3") auto
qed

lemma year_days_pos: "0 < year_days l"
  by (simp add: year_days_def)

lemma days_before_year_mono: "y \<le> z \<Longrightarrow> days_before_year y \<le> days_before_year z"
proof (induction z rule: int_ge_induct)
  case (step i)
  then show ?case using next_year [of i] year_days_pos [of "is_leap i"] by simp
qed simp

lemma days_before_year_less:
  assumes "y < z" shows "days_before_year y + year_days (is_leap y) \<le> days_before_year z"
  using days_before_year_mono [of "y + 1" z] next_year [of y] assms by simp

lemma year_split_unique:
  assumes "0 \<le> doy" "doy < year_days (is_leap y)"
  shows "year_split (days_before_year y + doy) = (y, doy)"
proof -
  obtain z e where ze: "year_split (days_before_year y + doy) = (z, e)" by fastforce
  note c = year_split_correct [OF ze]
  have "z = y"
    using days_before_year_less [of z y] days_before_year_less [of y z] c assms
    by (cases z y rule: linorder_cases) auto
  with c ze show ?thesis by simp
qed

subsection \<open>Months\<close>

lemma month_cases:
  fixes m :: int
  assumes "1 \<le> m" "m \<le> 12"
  obtains "m = 1" | "m = 2" | "m = 3" | "m = 4" | "m = 5" | "m = 6"
    | "m = 7" | "m = 8" | "m = 9" | "m = 10" | "m = 11" | "m = 12"
proof -
  have "m \<in> set [1, 2, 3, 4, 5, 6, 7, 8, 9, 10, 11, 12]" using assms by (simp, presburger)
  then show ?thesis using that by auto
qed

lemmas month_table = days_before_month_def before_month_table_def

lemma month_of_unique:
  assumes "1 \<le> m" "m \<le> 12" "days_before_month l m \<le> doy" "doy < days_before_month l m + month_days l m"
  shows "month_of l doy = m"
  by (cases l; rule month_cases [OF assms(1,2)]; use assms(3,4) in \<open>simp add: month_of_def month_table\<close>)

lemma month_exists:
  assumes "0 \<le> doy" "doy < year_days l"
  obtains m where "1 \<le> m" "m \<le> 12" "days_before_month l m \<le> doy"
    "doy < days_before_month l m + month_days l m"
proof -
  have "\<exists>m \<in> {1, 2, 3, 4, 5, 6, 7, 8, 9, 10, 11, 12}.
      days_before_month l m \<le> doy \<and> doy < days_before_month l m + month_days l m"
    using assms by (cases l) (simp_all add: month_table year_days_def, linarith+)
  then obtain m where "m \<in> {1, 2, 3, 4, 5, 6, 7, 8, 9, 10, 11, 12}" "days_before_month l m \<le> doy"
    "doy < days_before_month l m + month_days l m" by blast
  then show ?thesis by (intro that [of m]) auto
qed

lemma next_month:
  assumes "1 \<le> m" "m < 12"
  shows "days_before_month l (m + 1) = days_before_month l m + month_days l m"
proof -
  from assms have "1 \<le> m" "m \<le> 12" by simp_all
  then show ?thesis using assms(2) by (cases rule: month_cases) (auto simp: month_table)
qed

lemma december: "days_before_month l 12 + month_days l 12 = year_days l"
  by (simp add: month_table year_days_def)

lemma month_days_bounds: "28 \<le> month_days l m" "month_days l m \<le> 31"
  by (auto simp: month_days.simps)

lemma month_in_year:
  assumes "1 \<le> m" "m \<le> 12"
  shows "0 \<le> days_before_month l m" "days_before_month l m + month_days l m \<le> year_days l"
  using assms by (cases rule: month_cases; auto simp: month_table year_days_def)+

declare month_days.simps [simp del]

theorem ymd_day_of_day_ymd:
  assumes "day_ymd n = (y, m, d)"
  shows "ymd_day y m d = n" and "valid_ymd y m d"
proof -
  obtain z doy where z: "year_split n = (z, doy)" by fastforce
  note c = year_split_correct [OF z]
  obtain k where k: "1 \<le> k" "k \<le> 12" "days_before_month (is_leap z) k \<le> doy"
      "doy < days_before_month (is_leap z) k + month_days (is_leap z) k"
    using month_exists c by blast
  have "day_ymd n = (z, k, doy - days_before_month (is_leap z) k + 1)"
    unfolding day_ymd_def z by (simp add: Let_def month_of_unique [OF k])
  then show "ymd_day y m d = n" "valid_ymd y m d"
    using assms c k by (auto simp: ymd_day_def valid_ymd_def days_in_month_def)
qed

theorem day_ymd_of_ymd_day:
  assumes "valid_ymd y m d" shows "day_ymd (ymd_day y m d) = (y, m, d)"
proof -
  let ?l = "is_leap y" and ?doy = "days_before_month (is_leap y) m + d - 1"
  from assms have m: "1 \<le> m" "m \<le> 12" and d: "1 \<le> d" "d \<le> month_days ?l m"
    by (simp_all add: valid_ymd_def days_in_month_def)
  have b: "0 \<le> ?doy" "?doy < year_days ?l" using month_in_year [OF m, of ?l] d by linarith+
  have "year_split (ymd_day y m d) = (y, ?doy)"
    using year_split_unique [OF b] by (simp add: ymd_day_def algebra_simps)
  moreover have "month_of ?l ?doy = m" by (rule month_of_unique [OF m]) (use d in auto)
  ultimately show ?thesis by (simp add: day_ymd_def)
qed

subsection \<open>The month index\<close>

text \<open>
  \<open>month_start\<close> is the day number of the first of the month with a given index: consecutive months
  touch, so a later month starts after every day of an earlier one.
\<close>

definition month_start :: "int \<Rightarrow> int" where
  "month_start i = ymd_day (i div 12) (i mod 12 + 1) 1"

definition index_days :: "int \<Rightarrow> int" where
  "index_days i = days_in_month (i div 12) (i mod 12 + 1)"

lemma index_days_bounds: "28 \<le> index_days i" "index_days i \<le> 31"
  by (simp_all add: index_days_def days_in_month_def month_days_bounds)

lemma month_start_Suc: "month_start (i + 1) = month_start i + index_days i"
proof -
  let ?y = "i div 12" and ?m = "i mod 12 + 1"
  have m: "1 \<le> ?m" "?m \<le> 12" by simp_all
  show ?thesis
  proof (cases "?m = 12")
    case True
    then have "i + 1 = 12 * (?y + 1) + 0" using mult_div_mod_eq [of 12 i] by (simp add: distrib_left)
    then have q: "(i + 1) div 12 = ?y + 1" "(i + 1) mod 12 = 0"
      by (simp_all only: int_div_pos_eq int_mod_pos_eq)
    have "days_before_month (is_leap (?y + 1)) (0 + 1) = 0" by (simp add: month_table)
    then show ?thesis
      unfolding month_start_def index_days_def ymd_day_def days_in_month_def q True
      using next_year [of ?y] december [of "is_leap ?y"] by linarith
  next
    case False
    then have "i + 1 = 12 * ?y + ?m" "0 \<le> ?m" "?m < 12" using mult_div_mod_eq [of 12 i] m by linarith+
    then have q: "(i + 1) div 12 = ?y" "(i + 1) mod 12 = ?m"
      by (rule int_div_pos_eq, rule int_mod_pos_eq)
    show ?thesis
      unfolding month_start_def index_days_def ymd_day_def days_in_month_def q
      using next_month [of ?m "is_leap ?y"] False m by linarith
  qed
qed

lemma month_start_less: "i < j \<Longrightarrow> month_start i + index_days i \<le> month_start j"
proof (induction j rule: int_gr_induct)
  case base
  show ?case by (simp add: month_start_Suc)
next
  case (step j)
  then show ?case using month_start_Suc [of j] index_days_bounds [of j] by simp
qed

text \<open>A day number as month index and day of the month.\<close>

definition day_month :: "int \<Rightarrow> int \<times> int" where
  "day_month n = (let (y, m, d) = day_ymd n in (12 * y + m - 1, d))"

lemma month_index_simps:
  fixes y m :: int
  assumes "1 \<le> m" "m \<le> 12"
  shows "(12 * y + m - 1) div 12 = y" "(12 * y + m - 1) mod 12 = m - 1"
  using assms by (simp_all add: int_div_pos_eq [where r = "m - 1"] int_mod_pos_eq [where r = "m - 1" and q = y])

lemma day_month_start:
  assumes "day_month n = (i, d)"
  shows "n = month_start i + d - 1" "1 \<le> d" "d \<le> index_days i"
proof -
  obtain y m e where e: "day_ymd n = (y, m, e)" by (metis prod_cases3)
  from e assms have i: "i = 12 * y + m - 1" "d = e" by (auto simp: day_month_def)
  from ymd_day_of_day_ymd [OF e] have v: "ymd_day y m e = n" "valid_ymd y m e" by auto
  then have m: "1 \<le> m" "m \<le> 12" by (auto simp: valid_ymd_def)
  show "n = month_start i + d - 1" "1 \<le> d" "d \<le> index_days i"
    using v i month_index_simps [OF m, of y]
    by (auto simp: month_start_def index_days_def valid_ymd_def ymd_day_def)
qed

lemma day_month_unique:
  assumes "1 \<le> d" "d \<le> index_days i"
  shows "day_month (month_start i + d - 1) = (i, d)"
proof -
  have "valid_ymd (i div 12) (i mod 12 + 1) d"
    using assms by (simp add: valid_ymd_def index_days_def)
  from day_ymd_of_ymd_day [OF this] show ?thesis
    by (simp add: day_month_def month_start_def ymd_day_def add.commute add.left_commute diff_add_eq)
qed

section \<open>Datetimes\<close>

text \<open>
  A \<open>datetime\<close> is its wall-clock time in microseconds since 0001-01-01T00:00 and its UTC offset in
  microseconds (\<open>None\<close>: naive). Its year lies between 1 and 9999: arithmetic that leaves this range
  raises (\<open>OverflowError\<close>, \<open>ValueError\<close>), which is \<open>None\<close> here. Aware values compare by the instant
  they name; the difference of two of them has \<open>days\<close> rounded down.
\<close>

definition day_us :: int where
  "day_us = 86400000000"

definition in_range :: "int \<Rightarrow> bool" where
  "in_range w \<longleftrightarrow> 0 \<le> w \<and> w < 3652059 * day_us"

record pydt =
  wall :: int
  tz :: "int option"

definition utc :: "int \<Rightarrow> pydt" where
  "utc w = \<lparr>wall = w, tz = Some 0\<rparr>"

definition instant :: "pydt \<Rightarrow> int" where
  "instant t = wall t - (case tz t of None \<Rightarrow> 0 | Some z \<Rightarrow> z)"

definition dt_add :: "pydt \<Rightarrow> int \<Rightarrow> pydt option" where
  "dt_add t us = (if in_range (wall t + us) then Some (t\<lparr>wall := wall t + us\<rparr>) else None)"

definition dt_min :: "pydt \<Rightarrow> pydt \<Rightarrow> pydt" where
  "dt_min a b = (if instant b < instant a then b else a)"

definition days_between :: "pydt \<Rightarrow> pydt \<Rightarrow> int" where
  "days_between a b = (instant a - instant b) div day_us"

lemma wall_utc [simp]: "wall (utc w) = w" and tz_utc [simp]: "tz (utc w) = Some 0"
  and instant_utc [simp]: "instant (utc w) = w"
  by (simp_all add: utc_def instant_def)

lemma instant_dt_min [simp]: "instant (dt_min a b) = min (instant a) (instant b)"
  by (simp add: dt_min_def)

lemma day_us_pos: "0 < day_us"
  by (simp add: day_us_def)

lemma day_us_nonzero [simp]: "day_us \<noteq> 0"
  by (simp add: day_us_def)

lemma day_split: "w = w div day_us * day_us + w mod day_us" "0 \<le> w mod day_us" "w mod day_us < day_us"
  using day_us_pos by simp_all

lemma div_day_mono: "a \<le> b \<Longrightarrow> a div day_us \<le> b div day_us"
  by (simp add: zdiv_mono1 day_us_pos)

lemma le_div_day: "n \<le> x div day_us \<longleftrightarrow> n * day_us \<le> x"
proof
  assume "n \<le> x div day_us"
  then have "n * day_us \<le> x div day_us * day_us" using day_us_pos by (simp add: mult_right_mono)
  then show "n * day_us \<le> x" using day_split [of x] by linarith
next
  assume "n * day_us \<le> x"
  from div_day_mono [OF this] show "n \<le> x div day_us" by simp
qed

lemma div_day_less: "a div day_us < b div day_us \<Longrightarrow> a < b"
  using div_day_mono [of b a] by linarith

lemma div_day_mult [simp]: "0 \<le> r \<Longrightarrow> r < day_us \<Longrightarrow> (n * day_us + r) div day_us = n"
  by (rule int_div_pos_eq [where r = r]) (simp_all add: mult.commute)

lemma mod_day_mult [simp]: "0 \<le> r \<Longrightarrow> r < day_us \<Longrightarrow> (n * day_us + r) mod day_us = r"
  by (rule int_mod_pos_eq [where q = n]) (simp_all add: mult.commute)

lemma same_day_less:
  assumes "a div day_us = b div day_us" shows "a < b \<longleftrightarrow> a mod day_us < b mod day_us"
  using day_split(1) [of a] day_split(1) [of b] unfolding assms by (metis add_less_cancel_left)

end
