(* ===== verification/Deadlines.thy ===== *)
theory Deadlines
  imports Calendar
begin

text \<open>
  The statutory deadlines (\<open>app/services/deadlines.py\<close>) and the retention cutoff
  (\<open>app/services/retention.py\<close>): definitions in the source's order, then the lemmas on calendar
  months, then what the deadlines guarantee. Every function that can leave the range of
  \<open>datetime\<close> returns an option.
\<close>

section \<open>The functions of deadlines.py and retention.cutoff\<close>

definition ACK_DAYS :: int where "ACK_DAYS = 7"
definition FEEDBACK_MONTHS :: int where "FEEDBACK_MONTHS = 3"
definition ACK_WARN_FROM_DAY :: int where "ACK_WARN_FROM_DAY = 5"
definition FEEDBACK_WARN_DAYS :: int where "FEEDBACK_WARN_DAYS = 14"

datatype deadline_state = Is_done | Is_ok | Is_warning | Is_overdue

definition aware :: "pydt \<Rightarrow> pydt" where
  "aware t = (case tz t of None \<Rightarrow> t\<lparr>tz := Some 0\<rparr> | Some _ \<Rightarrow> t)"

definition add_months :: "pydt \<Rightarrow> int \<Rightarrow> pydt option" where
  "add_months t months =
     (let (y, m, d) = day_ymd (wall t div day_us);
          month_index = m - 1 + months;
          year = y + month_index div 12;
          month = month_index mod 12 + 1;
          day = min d (days_in_month year month)
      in if 1 \<le> year \<and> year \<le> 9999
         then Some (t\<lparr>wall := ymd_day year month day * day_us + wall t mod day_us\<rparr>) else None)"

definition end_of_day :: "pydt \<Rightarrow> pydt" where
  "end_of_day t = (let a = aware t in a\<lparr>wall := wall a div day_us * day_us + (day_us - 1)\<rparr>)"

definition ack_due :: "pydt \<Rightarrow> pydt option" where
  "ack_due submitted_at = map_option end_of_day (dt_add (aware submitted_at) (ACK_DAYS * day_us))"

definition feedback_due :: "pydt \<Rightarrow> pydt option \<Rightarrow> pydt option" where
  "feedback_due submitted_at acknowledged_at =
     (case add_months (aware submitted_at) FEEDBACK_MONTHS of
        None \<Rightarrow> None
      | Some three \<Rightarrow>
          (case dt_add three (ACK_DAYS * day_us) of
             None \<Rightarrow> None
           | Some d \<Rightarrow>
               (let without_ack = end_of_day d in
                case acknowledged_at of
                  None \<Rightarrow> Some without_ack
                | Some a \<Rightarrow>
                    map_option (\<lambda>e. dt_min (end_of_day e) without_ack)
                      (add_months (aware a) FEEDBACK_MONTHS))))"

definition ack_on_time :: "pydt \<Rightarrow> pydt option \<Rightarrow> bool option" where
  "ack_on_time submitted_at acknowledged_at =
     (case acknowledged_at of
        None \<Rightarrow> Some False
      | Some a \<Rightarrow> map_option (\<lambda>due. instant (aware a) \<le> instant due) (ack_due submitted_at))"

record deadline =
  dl_state :: deadline_state
  dl_due :: pydt
  dl_days :: int

definition ack_status :: "pydt \<Rightarrow> pydt option \<Rightarrow> pydt \<Rightarrow> deadline option" where
  "ack_status submitted_at acknowledged_at now =
     (case ack_due submitted_at of
        None \<Rightarrow> None
      | Some due \<Rightarrow>
          (let day = days_between (aware now) (aware submitted_at) in
           if acknowledged_at \<noteq> None then Some \<lparr>dl_state = Is_done, dl_due = due, dl_days = day\<rparr>
           else if instant (aware now) > instant due
             then Some \<lparr>dl_state = Is_overdue, dl_due = due, dl_days = day\<rparr>
           else Some \<lparr>dl_state = (if day \<ge> ACK_WARN_FROM_DAY then Is_warning else Is_ok),
                      dl_due = due, dl_days = day\<rparr>))"

definition feedback_status :: "pydt option \<Rightarrow> pydt option \<Rightarrow> pydt \<Rightarrow> deadline option" where
  "feedback_status due feedback_sent_at now =
     (case due of
        None \<Rightarrow> None
      | Some d \<Rightarrow>
          (let due = aware d; left = days_between due (aware now) in
           if feedback_sent_at \<noteq> None then Some \<lparr>dl_state = Is_done, dl_due = due, dl_days = left\<rparr>
           else if instant (aware now) > instant due
             then Some \<lparr>dl_state = Is_overdue, dl_due = due, dl_days = left\<rparr>
           else Some \<lparr>dl_state = (if left \<le> FEEDBACK_WARN_DAYS then Is_warning else Is_ok),
                      dl_due = due, dl_days = left\<rparr>))"

definition cutoff :: "pydt \<Rightarrow> int \<Rightarrow> pydt option" where
  "cutoff now days =
     (let years = days div 365; rest = days mod 365 in
      case add_months now (- 12 * years) of
        None \<Rightarrow> None
      | Some t \<Rightarrow> dt_add t (- rest * day_us))"

section \<open>Calendar months\<close>

lemma aware_simps [simp]:
  "wall (aware t) = wall t" "instant (aware t) = instant t" "aware (aware t) = aware t"
  "aware (utc w) = utc w"
  by (auto simp: aware_def instant_def split: option.splits)

lemma wall_end_of_day [simp]: "wall (end_of_day t) = wall t div day_us * day_us + (day_us - 1)"
  by (simp add: end_of_day_def)

lemma end_of_day_utc [simp]: "end_of_day (utc w) = utc (w div day_us * day_us + (day_us - 1))"
  by (simp add: end_of_day_def utc_def aware_def)

text \<open>Through the month index: the month moves by the number given, the day is cut to the month.\<close>

lemma add_months_index:
  assumes "day_month (wall t div day_us) = (i, d)"
  shows "add_months t k =
    (if 12 \<le> i + k \<and> i + k < 120000
     then Some (t\<lparr>wall := (month_start (i + k) + min d (index_days (i + k)) - 1) * day_us
                          + wall t mod day_us\<rparr>) else None)"
proof -
  obtain y m e where e: "day_ymd (wall t div day_us) = (y, m, e)" by (metis prod_cases3)
  from e assms have i: "i = 12 * y + m - 1" "d = e" by (auto simp: day_month_def)
  have eq: "i + k = (m - 1 + k) + 12 * y" using i by simp
  have q: "(i + k) div 12 = y + (m - 1 + k) div 12" "(i + k) mod 12 = (m - 1 + k) mod 12"
    unfolding eq by (simp_all only: div_mult_self2 mod_mult_self2 zero_neq_numeral not_False_eq_True
        neq_commute [of _ 0])
  have r: "12 \<le> i + k \<and> i + k < 120000 \<longleftrightarrow> 1 \<le> (i + k) div 12 \<and> (i + k) div 12 \<le> 9999"
    by linarith
  show ?thesis
    unfolding add_months_def e Let_def r prod.case month_start_def index_days_def q
    by (simp add: i ymd_day_def)
qed

lemma add_months_Some:
  assumes "add_months t k = Some r"
  obtains i d where "day_month (wall t div day_us) = (i, d)"
    "day_month (wall r div day_us) = (i + k, min d (index_days (i + k)))"
    "wall r mod day_us = wall t mod day_us" "tz r = tz t"
proof -
  obtain i d where id: "day_month (wall t div day_us) = (i, d)" by fastforce
  from assms have w: "wall r = (month_start (i + k) + min d (index_days (i + k)) - 1) * day_us + wall t mod day_us"
    and z: "tz r = tz t"
    by (auto simp: add_months_index [OF id] split: if_splits)
  have "1 \<le> min d (index_days (i + k))" "min d (index_days (i + k)) \<le> index_days (i + k)"
    using day_month_start(2) [OF id] index_days_bounds [of "i + k"] by simp_all
  with w z show ?thesis
    by (intro that [OF id]) (simp_all add: day_month_unique day_split)
qed

text \<open>Later in the same month or in a later month: the order of instants, read off the index.\<close>

lemma day_order:
  assumes "day_month a = (i, d)" "day_month b = (j, e)"
  shows "a \<le> b \<longleftrightarrow> i < j \<or> i = j \<and> d \<le> e" "a < b \<longleftrightarrow> i < j \<or> i = j \<and> d < e"
  using day_month_start [OF assms(1)] day_month_start [OF assms(2)]
    month_start_less [of i j] month_start_less [of j i]
  by (cases i j rule: linorder_cases; auto)+

lemma add_months_day_mono:
  assumes "wall a \<le> wall b" "add_months a k = Some ra" "add_months b k = Some rb"
  shows "wall ra div day_us \<le> wall rb div day_us"
proof -
  obtain i d where a: "day_month (wall a div day_us) = (i, d)"
      "day_month (wall ra div day_us) = (i + k, min d (index_days (i + k)))"
    using add_months_Some [OF assms(2)] by blast
  obtain j e where b: "day_month (wall b div day_us) = (j, e)"
      "day_month (wall rb div day_us) = (j + k, min e (index_days (j + k)))"
    using add_months_Some [OF assms(3)] by blast
  show ?thesis
    using div_day_mono [OF assms(1)] unfolding day_order(1) [OF a(1) b(1)] day_order(1) [OF a(2) b(2)]
    by auto
qed

text \<open>Months back and the same months forth never passes the start, and keeps strict order.\<close>

lemma add_months_back_forth:
  assumes "add_months now (- k) = Some c" "wall x < wall c" "add_months x k = Some r"
  shows "wall r < wall now"
proof -
  obtain i d where n: "day_month (wall now div day_us) = (i, d)"
      "day_month (wall c div day_us) = (i + - k, min d (index_days (i + - k)))"
      "wall c mod day_us = wall now mod day_us"
    using add_months_Some [OF assms(1)] by blast
  obtain j e where x: "day_month (wall x div day_us) = (j, e)"
      "day_month (wall r div day_us) = (j + k, min e (index_days (j + k)))"
      "wall r mod day_us = wall x mod day_us"
    using add_months_Some [OF assms(3)] by blast
  show ?thesis
  proof (cases "wall r div day_us < wall now div day_us")
    case True
    then show ?thesis by (rule div_day_less)
  next
    case False
    have "wall x div day_us \<le> wall c div day_us" using assms(2) by (simp add: div_day_mono)
    then have "j = i - k" "e = d"
      using False unfolding day_order(1) [OF x(1) n(2)] day_order(2) [OF x(2) n(1)] by auto
    then have "wall x div day_us = wall c div day_us" "wall r div day_us = wall now div day_us"
      using False \<open>wall x div day_us \<le> wall c div day_us\<close> day_order [OF x(1) n(2)] day_order [OF x(2) n(1)]
      by auto
    then show ?thesis
      using assms(2) n(3) x(3) same_day_less [of "wall x" "wall c"] same_day_less [of "wall r" "wall now"]
      by simp
  qed
qed

section \<open>What the deadlines guarantee\<close>

lemma feedback_due_ack:
  "feedback_due s (Some a) =
    (case feedback_due s None of
       None \<Rightarrow> None
     | Some w \<Rightarrow> map_option (\<lambda>e. dt_min (end_of_day e) w) (add_months (aware a) FEEDBACK_MONTHS))"
  by (simp add: feedback_due_def Let_def split: option.split)

lemma add_months_utc:
  assumes "add_months (utc w) k = Some r" shows "r = utc (wall r)"
proof -
  have "tz r = Some 0" using assms by (auto elim: add_months_Some)
  then show ?thesis by (simp add: utc_def)
qed

lemma end_of_day_mono:
  "wall a div day_us \<le> wall b div day_us \<Longrightarrow> wall (end_of_day a) \<le> wall (end_of_day b)"
  using day_us_pos by simp

text \<open>
  A month calculation lands in the month it names, on the same day or the month's last one.
\<close>

theorem add_months_calendar:
  assumes "add_months t k = Some r" "day_ymd (wall t div day_us) = (y, m, d)"
  shows "\<exists>y' m'. day_ymd (wall r div day_us) = (y', m', min d (days_in_month y' m')) \<and>
    1 \<le> m' \<and> m' \<le> 12 \<and> 12 * y' + m' = 12 * y + m + k \<and> wall r mod day_us = wall t mod day_us"
proof -
  obtain y' m' d' where r: "day_ymd (wall r div day_us) = (y', m', d')" by (metis prod_cases3)
  have v: "1 \<le> m'" "m' \<le> 12" using ymd_day_of_day_ymd(2) [OF r] by (auto simp: valid_ymd_def)
  from assms(1) show ?thesis
    by (rule add_months_Some) (use r v assms(2) month_index_simps [OF v, of y'] in
        \<open>auto simp: day_month_def index_days_def\<close>)
qed

theorem add_months_calendar_witness:
  "\<exists>r. add_months (utc (30 * day_us)) 1 = Some r \<and> day_ymd 30 = (1, 1, 31) \<and>
    (\<exists>y' m'. day_ymd (wall r div day_us) = (y', m', min 31 (days_in_month y' m')) \<and>
    1 \<le> m' \<and> m' \<le> 12 \<and> 12 * y' + m' = 12 * 1 + 1 + 1 \<and> wall r mod day_us = wall (utc (30 * day_us)) mod day_us)"
proof -
  have h: "add_months (utc (30 * day_us)) 1 = Some (utc (58 * day_us))"
    "day_ymd (wall (utc (30 * day_us)) div day_us) = (1, 1, 31)" by code_simp+
  show ?thesis using h add_months_calendar [OF h] by simp
qed

text \<open>
  An acknowledgement never moves the feedback deadline later than the one counted from receipt.
\<close>

theorem feedback_due_capped:
  assumes "feedback_due s (Some a) = Some f" "feedback_due s None = Some w"
  shows "instant f \<le> instant w"
  using assms by (auto simp: feedback_due_ack)

theorem feedback_due_capped_witness:
  "feedback_due (utc 0) (Some (utc 0)) = Some (utc (91 * day_us - 1)) \<and>
   feedback_due (utc 0) None = Some (utc (98 * day_us - 1)) \<and>
   instant (utc (91 * day_us - 1)) \<le> instant (utc (98 * day_us - 1))"
proof -
  have h: "feedback_due (utc 0) (Some (utc 0)) = Some (utc (91 * day_us - 1))"
    "feedback_due (utc 0) None = Some (utc (98 * day_us - 1))" by code_simp+
  show ?thesis using h feedback_due_capped [OF h] by blast
qed

text \<open>
  A later acknowledgement never makes the feedback due earlier (all times in UTC).
\<close>

theorem feedback_due_mono:
  assumes "a \<le> b" "feedback_due (utc s) (Some (utc a)) = Some f" "feedback_due (utc s) (Some (utc b)) = Some g"
  shows "instant f \<le> instant g"
proof -
  from assms(2,3) obtain w ea eb where w: "feedback_due (utc s) None = Some w"
    and ea: "add_months (utc a) FEEDBACK_MONTHS = Some ea" "f = dt_min (end_of_day ea) w"
    and eb: "add_months (utc b) FEEDBACK_MONTHS = Some eb" "g = dt_min (end_of_day eb) w"
    by (auto simp: feedback_due_ack split: option.splits)
  have "wall ea div day_us \<le> wall eb div day_us"
    by (rule add_months_day_mono [OF _ ea(1) eb(1)]) (simp add: assms(1))
  then have "wall (end_of_day ea) \<le> wall (end_of_day eb)" by (rule end_of_day_mono)
  moreover have "end_of_day ea = utc (wall (end_of_day ea))" "end_of_day eb = utc (wall (end_of_day eb))"
    using add_months_utc [OF ea(1)] add_months_utc [OF eb(1)] by (metis end_of_day_utc wall_utc)+
  ultimately have "instant (end_of_day ea) \<le> instant (end_of_day eb)" by (metis instant_utc)
  then show ?thesis by (auto simp: ea(2) eb(2))
qed

theorem feedback_due_mono_witness:
  "(0::int) \<le> day_us \<and> feedback_due (utc 0) (Some (utc 0)) = Some (utc (91 * day_us - 1)) \<and>
   feedback_due (utc 0) (Some (utc day_us)) = Some (utc (92 * day_us - 1)) \<and>
   instant (utc (91 * day_us - 1)) \<le> instant (utc (92 * day_us - 1))"
proof -
  have h: "(0::int) \<le> day_us" "feedback_due (utc 0) (Some (utc 0)) = Some (utc (91 * day_us - 1))"
    "feedback_due (utc 0) (Some (utc day_us)) = Some (utc (92 * day_us - 1))" by code_simp+
  show ?thesis using h feedback_due_mono [OF h] by blast
qed

lemma ack_due_utc:
  assumes "ack_due (utc s) = Some due" "s mod day_us = 0"
  shows "due = utc (s + 8 * day_us - 1)"
proof -
  have "(s + 7 * day_us) div day_us * day_us = s + 7 * day_us"
    using assms(2) day_us_pos day_split(1) [of "s + 7 * day_us"] by simp
  then show ?thesis
    using assms(1) by (auto simp: ack_due_def dt_add_def ACK_DAYS_def utc_def end_of_day_def aware_def
        split: if_splits)
qed

text \<open>
  Receipt is stored as a UTC day. An unacknowledged report is then fine up to day 4, in the warning
  window on days 5 to 7 and overdue from day 8 on: the deadline is the end of the seventh day.
\<close>

theorem ack_status_by_day:
  assumes "s mod day_us = 0" "ack_status (utc s) None (utc now) = Some d"
  shows "dl_days d = (now - s) div day_us \<and>
    dl_state d = (if 8 \<le> dl_days d then Is_overdue else if 5 \<le> dl_days d then Is_warning else Is_ok)"
proof -
  obtain due where due: "ack_due (utc s) = Some due"
    using assms(2) by (auto simp: ack_status_def split: option.splits)
  have "s + 8 * day_us \<le> now \<longleftrightarrow> 8 \<le> (now - s) div day_us"
    using le_div_day [of 8 "now - s"] by linarith
  then show ?thesis
    using assms(2) unfolding ack_status_def due ack_due_utc [OF due assms(1)]
    by (auto simp: Let_def days_between_def ACK_WARN_FROM_DAY_def split: if_splits)
qed

theorem ack_status_by_day_witness:
  "(0::int) mod day_us = 0 \<and> ack_status (utc 0) None (utc (7 * day_us + 5)) =
      Some \<lparr>dl_state = Is_warning, dl_due = utc (8 * day_us - 1), dl_days = 7\<rparr> \<and>
    (7 * day_us + 5 - 0) div day_us = 7 \<and> (8::int) > 7"
proof -
  have h: "(0::int) mod day_us = 0" "ack_status (utc 0) None (utc (7 * day_us + 5)) =
      Some \<lparr>dl_state = Is_warning, dl_due = utc (8 * day_us - 1), dl_days = 7\<rparr>"
    by code_simp+
  show ?thesis using h ack_status_by_day [OF h] by simp
qed

text \<open>
  Retention is never early: a case closed before the cutoff of \<open>n\<close> days (whole years as calendar
  years, the rest as days) was closed that long ago, the days added first.
\<close>

theorem cutoff_never_early:
  assumes "cutoff (utc now) n = Some c" "closed < wall c"
    and "add_months (utc (closed + n mod 365 * day_us)) (12 * (n div 365)) = Some kept_until"
  shows "instant kept_until < now"
proof -
  let ?years = "12 * (n div 365)" and ?rest = "n mod 365 * day_us"
  obtain t where t: "add_months (utc now) (- ?years) = Some t" and c: "wall c = wall t - ?rest"
    using assms(1) by (auto simp: cutoff_def dt_add_def split: option.splits if_splits)
  have "wall (utc (closed + ?rest)) < wall t" using assms(2) c by simp
  from add_months_back_forth [OF t this assms(3)] have "wall kept_until < now" by simp
  then show ?thesis using add_months_utc [OF assms(3)] by (metis instant_utc)
qed

theorem cutoff_never_early_witness:
  "cutoff (utc (2000 * day_us)) 1095 = Some (utc (904 * day_us)) \<and> 0 < wall (utc (904 * day_us)) \<and>
    add_months (utc (0 + 1095 mod 365 * day_us)) (12 * (1095 div 365)) = Some (utc (1095 * day_us)) \<and>
    instant (utc (1095 * day_us)) < 2000 * day_us"
proof -
  have h: "cutoff (utc (2000 * day_us)) 1095 = Some (utc (904 * day_us))" "0 < wall (utc (904 * day_us))"
    "add_months (utc (0 + 1095 mod 365 * day_us)) (12 * (1095 div 365)) = Some (utc (1095 * day_us))"
    by code_simp+
  show ?thesis using h cutoff_never_early [OF h] by blast
qed

end
