(* ===== verification/Report_Service.thy ===== *)
theory Report_Service
  imports Access Deadlines
begin

text \<open>
  Cases: filing one, finding them and showing them (\<open>app/services/report.py\<close>, first half, and
  \<open>app/services/pin.py\<close>). The text of the receipt in a language and the comparison form of a
  text (NFC and case folding) are arguments; random draws are arguments of the functions that make
  them.
\<close>

section \<open>Organisations, days, numbers\<close>

definition default_org_id :: "settings \<Rightarrow> db \<Rightarrow> uuid option" where
  "default_org_id cfg d =
     (case find (\<lambda>x. org_slug x = cfg_default_org_slug cfg) (db_orgs d) of
        Some x \<Rightarrow> Some (org_id x)
      | None \<Rightarrow> (case sort_key (\<lambda>x. (org_created_at x, org_id x)) (db_orgs d) of
                   [] \<Rightarrow> None | x # _ \<Rightarrow> Some (org_id x)))"

definition active_default_org_id :: "settings \<Rightarrow> db \<Rightarrow> uuid option" where
  "active_default_org_id cfg d =
     map_option org_id (find (\<lambda>x. org_slug x = cfg_default_org_slug cfg \<and> org_active x) (db_orgs d))"

definition day_floor :: "moment \<Rightarrow> moment" where
  "day_floor t = t div day_us * day_us"

definition whistleblower_caused :: "message \<Rightarrow> nat \<Rightarrow> bool" where
  "whistleblower_caused m index \<longleftrightarrow> index = 0 \<or> msg_sender m = From_whistleblower"

definition generate_case_number :: "moment \<Rightarrow> nat \<Rightarrow> string" where
  "generate_case_number now draw =
     (let n = digits (draw mod 100000)
      in ''OW-'' @ string_of_int (fst (day_ymd (now div day_us))) @ ''-'' @ replicate (5 - length n) (CHR ''0'') @ n)"

definition due_at :: "moment \<Rightarrow> moment option \<Rightarrow> moment option" where
  "due_at submitted acknowledged =
     map_option instant (feedback_due (utc submitted) (map_option utc acknowledged))"

section \<open>Filing a report\<close>

record new_report =
  nr_category :: string
  nr_description :: string
  nr_mode :: submission_mode
  nr_location :: "uuid option"
  nr_name :: "string option"
  nr_contact :: "string option"
  nr_email :: "string option"
  nr_id :: "uuid option"
  nr_org :: "uuid option"

record draws =
  drw_pin :: string
  drw_dek :: string
  drw_numbers :: "nat list"

datatype create_error = Case_number_collision | Integrity_error | Date_overflow | Invalid_token

fun insert_report :: "report \<Rightarrow> message \<Rightarrow> string list \<Rightarrow> db \<Rightarrow> create_error + (report \<times> db)" where
  "insert_report r m [] d = Inl Case_number_collision"
| "insert_report r m (n # ns) d =
     (let r' = r\<lparr>rep_case_number := n\<rparr> in
      if report_of d (rep_id r') \<noteq> None then Inl Integrity_error
      else if n \<in> rep_case_number ` set (db_reports d) then insert_report r m ns d
      else Inr (r', d\<lparr>db_reports := db_reports d @ [r'], db_messages := db_messages d @ [m]\<rparr>))"

definition create_report ::
  "env \<Rightarrow> draws \<Rightarrow> string \<Rightarrow> new_report \<Rightarrow> db \<Rightarrow> create_error + (report \<times> string \<times> db)" where
  "create_report e drw receipt a d =
     (let cr = env_crypto e; cfg = env_cfg e; enc_dek = encrypt_dek cr cfg (drw_dek drw);
          org = (case nr_org a of None \<Rightarrow> default_org_id cfg d | Some i \<Rightarrow> Some i);
          today = day_floor (env_now e);
          fixed_id = (case nr_id a of None \<Rightarrow> env_id e 0 | Some i \<Rightarrow> i)
      in case make_report_fernet cr cfg enc_dek of
           None \<Rightarrow> Inl Invalid_token
         | Some fernet \<Rightarrow>
             (case due_at today None of
                None \<Rightarrow> Inl Date_overflow
              | Some due \<Rightarrow>
                  (let r = \<lparr>rep_id = fixed_id, rep_case_number = [], rep_pin_hash = hash_pin cr (drw_pin drw),
                            rep_org = org, rep_category = nr_category a,
                            rep_description = encrypt_field cr fernet (nr_description a), rep_dek = enc_dek,
                            rep_status = Received, rep_mode = nr_mode a, rep_location = nr_location a,
                            rep_conf_name = nr_name a, rep_conf_contact = nr_contact a,
                            rep_secure_email = nr_email a, rep_assigned = None, rep_submitted_at = today,
                            rep_acknowledged_at = None, rep_feedback_due_at = Some due,
                            rep_feedback_sent_at = None, rep_closed_at = None\<rparr>;
                       m = \<lparr>msg_id = env_id e 1, msg_report = fixed_id, msg_sender = From_admin,
                            msg_content = encrypt_field cr fernet receipt, msg_sent_at = today\<rparr>
                   in case insert_report r m (map (generate_case_number (env_now e)) (take 5 (drw_numbers drw))) d of
                        Inl x \<Rightarrow> Inl x
                      | Inr (r', d') \<Rightarrow> Inr (r', drw_pin drw, d'))))"

section \<open>Reading a case\<close>

definition decrypt_text :: "crypto \<Rightarrow> string \<Rightarrow> string \<Rightarrow> string" where
  "decrypt_text cr fernet t = (case decrypt_field_safe cr fernet (Some t) of Some x \<Rightarrow> x | None \<Rightarrow> t)"

text \<open>The description and the messages; with a language, the receipt in that language.\<close>

definition decrypt_report_fields ::
  "crypto \<Rightarrow> settings \<Rightarrow> (string \<Rightarrow> string) \<Rightarrow> string list \<Rightarrow> db \<Rightarrow> report \<Rightarrow> string option
     \<Rightarrow> (string \<times> string list) option" where
  "decrypt_report_fields cr cfg receipt langs d r lang =
     (let ms = messages_of d (rep_id r);
          plain = (if rep_dek r \<noteq> []
                   then (case make_report_fernet cr cfg (rep_dek r) of
                           None \<Rightarrow> None
                         | Some fernet \<Rightarrow> Some (decrypt_text cr fernet (rep_description r),
                                              map (\<lambda>m. decrypt_text cr fernet (msg_content m)) ms))
                   else Some (rep_description r, map msg_content ms))
      in case plain of
           None \<Rightarrow> None
         | Some (description, texts) \<Rightarrow>
             (case lang of
                None \<Rightarrow> Some (description, texts)
              | Some l \<Rightarrow>
                  Some (description,
                    map (\<lambda>(m, t). if msg_sender m = From_admin \<and> t \<in> receipt ` set langs then receipt l else t)
                      (zip ms texts))))"

definition decrypt_attachment_names :: "crypto \<Rightarrow> settings \<Rightarrow> db \<Rightarrow> report \<Rightarrow> string list option" where
  "decrypt_attachment_names cr cfg d r =
     (let names = map att_filename (attachments_of d (rep_id r)) in
      if rep_dek r = [] then Some names
      else map_option (\<lambda>fernet. map (\<lambda>t. let x = decrypt_text cr fernet t in if x = [] then t else x) names)
             (make_report_fernet cr cfg (rep_dek r)))"

definition decrypt_note_contents :: "crypto \<Rightarrow> settings \<Rightarrow> db \<Rightarrow> report \<Rightarrow> string list option" where
  "decrypt_note_contents cr cfg d r =
     (let notes = map note_content (sort_key note_created_at (filter (\<lambda>n. note_report n = rep_id r) (db_notes d))) in
      if rep_dek r = [] then Some notes
      else map_option (\<lambda>fernet. map (decrypt_text cr fernet) notes) (make_report_fernet cr cfg (rep_dek r)))"

section \<open>Listing\<close>

datatype sort_field = By_submitted_at | By_case_number | By_category | By_status

definition status_rank :: "status \<Rightarrow> nat" where
  "status_rank s = (case s of Received \<Rightarrow> 0 | In_review \<Rightarrow> 1 | Pending_feedback \<Rightarrow> 2 | Closed \<Rightarrow> 3)"

definition ordered :: "bool \<Rightarrow> ('r \<Rightarrow> uuid) \<Rightarrow> ('r \<Rightarrow> 'k::linorder) \<Rightarrow> 'r list \<Rightarrow> 'r list" where
  "ordered asc key k rows =
     (if asc then sort_key k (rev (sort_key key rows)) else rev (sort_key k (sort_key key rows)))"

definition order_reports :: "sort_field \<Rightarrow> bool \<Rightarrow> report list \<Rightarrow> report list" where
  "order_reports f asc rows =
     (case f of
        By_submitted_at \<Rightarrow> ordered asc rep_id rep_submitted_at rows
      | By_case_number \<Rightarrow> ordered asc rep_id rep_case_number rows
      | By_category \<Rightarrow> ordered asc rep_id rep_category rows
      | By_status \<Rightarrow> ordered asc rep_id (\<lambda>r. status_rank (rep_status r)) rows)"

record case_query =
  cq_status :: "status option"
  cq_assigned :: "uuid option"
  cq_location :: "uuid option"
  cq_scope :: "bool \<times> uuid option"
  cq_text :: string
  cq_content :: "uuid list"

definition case_filter :: "case_query \<Rightarrow> report \<Rightarrow> bool" where
  "case_filter q r \<longleftrightarrow>
     (cq_status q \<noteq> None \<longrightarrow> Some (rep_status r) = cq_status q) \<and>
     (cq_assigned q \<noteq> None \<longrightarrow> rep_assigned r = cq_assigned q) \<and>
     (cq_location q \<noteq> None \<longrightarrow> rep_location r = cq_location q) \<and>
     (fst (cq_scope q) \<or> snd (cq_scope q) \<noteq> None \<longrightarrow> rep_org r = snd (cq_scope q)) \<and>
     (cq_text q \<noteq> [] \<longrightarrow>
        sublist (lower (cq_text q)) (lower (rep_case_number r)) \<or> rep_id r \<in> set (cq_content q))"

definition get_reports_paginated ::
  "db \<Rightarrow> case_query \<Rightarrow> int \<Rightarrow> int \<Rightarrow> sort_field \<Rightarrow> bool \<Rightarrow> report list \<times> int" where
  "get_reports_paginated d q page per_page f asc =
     (let page = max 1 page; per_page = max 1 (min 100 per_page);
          rows = order_reports f asc (filter (case_filter q) (db_reports d))
      in (page_of page per_page rows, int (length rows)))"

definition get_report_stats :: "db \<Rightarrow> bool \<times> uuid option \<Rightarrow> uuid option \<Rightarrow> uuid option \<Rightarrow> status \<Rightarrow> nat" where
  "get_report_stats d scope assigned location s =
     length (filter (\<lambda>r. rep_status r = s \<and> (fst scope \<longrightarrow> rep_org r = snd scope) \<and>
                         (assigned \<noteq> None \<longrightarrow> rep_assigned r = assigned) \<and>
                         (location \<noteq> None \<longrightarrow> rep_location r = location)) (db_reports d))"

definition CONTENT_SEARCH_LIMIT :: nat where "CONTENT_SEARCH_LIMIT = 5000"

definition content_match_ids ::
  "crypto \<Rightarrow> settings \<Rightarrow> (string \<Rightarrow> string) \<Rightarrow> db \<Rightarrow> string \<Rightarrow> case_query
     \<Rightarrow> (uuid list \<times> uuid option list \<times> bool) option" where
  "content_match_ids cr cfg fold_text d needle q =
     (let rows = ordered False rep_id rep_submitted_at (filter (case_filter (q\<lparr>cq_text := []\<rparr>)) (db_reports d));
          reports = take CONTENT_SEARCH_LIMIT rows;
          texts = map (\<lambda>r. decrypt_report_fields cr cfg (\<lambda>_. []) [] d r None) reports;
          hit = (\<lambda>t. case t of None \<Rightarrow> False
                     | Some (description, ms) \<Rightarrow>
                         list_ex (\<lambda>x. sublist (fold_text needle) (fold_text x)) (description # ms))
      in if None \<in> set texts then None
         else Some (map (rep_id \<circ> fst) (filter (\<lambda>p. hit (snd p)) (zip reports texts)),
                    remdups (map rep_org reports), length rows > CONTENT_SEARCH_LIMIT))"

definition get_report_by_id :: "db \<Rightarrow> uuid \<Rightarrow> report option" where
  "get_report_by_id d i = report_of d i"

definition get_report_by_case_number :: "db \<Rightarrow> string \<Rightarrow> report option" where
  "get_report_by_case_number d n = find (\<lambda>r. rep_case_number r = n) (db_reports d)"

section \<open>The reporter's sign-in\<close>

definition get_report_by_credentials :: "crypto \<Rightarrow> db \<Rightarrow> string \<Rightarrow> string \<Rightarrow> report option" where
  "get_report_by_credentials cr d case_number plain_pin =
     (let found = get_report_by_case_number d case_number;
          checked = verify_pin cr plain_pin
            (case found of None \<Rightarrow> TIMING_DUMMY_HASH cr
             | Some r \<Rightarrow> if rep_pin_hash r = [] then TIMING_DUMMY_HASH cr else rep_pin_hash r)
      in if \<not> checked then None else found)"

definition STATUS_SESSION_PREFIX :: string where "STATUS_SESSION_PREFIX = ''status-session:''"

definition status_session_key :: "env \<Rightarrow> string \<Rightarrow> string" where
  "status_session_key e token = STATUS_SESSION_PREFIX @ cr_hmac (env_crypto e) token"

definition end_status_sessions :: "int \<Rightarrow> redis \<Rightarrow> uuid list \<Rightarrow> redis" where
  "end_status_sessions now r report_ids =
     kv_del_all r (filter (\<lambda>k. \<exists>i \<in> set report_ids. kv_get now r k = Some (Ref i)) (kv_keys now r STATUS_SESSION_PREFIX))"

definition authenticate_whistleblower ::
  "env \<Rightarrow> redis \<Rightarrow> db \<Rightarrow> string \<Rightarrow> string \<Rightarrow> (report option \<times> int) \<times> redis" where
  "authenticate_whistleblower e r d case_number pin =
     (let key = upper (strip case_number); hmac = cr_hmac (env_crypto e) in
      case get_report_by_credentials (env_crypto e) d key (lower (strip pin)) of
        Some report \<Rightarrow> ((Some report, 0), r)
      | None \<Rightarrow>
          (let (failures, r1) = record_whistleblower_failure (env_cfg e) hmac (millis e) r key in
           if failures \<le> cfg_max_access_attempts (env_cfg e) then ((None, 0), r1)
           else ((None, max 1 (get_whistleblower_lockout_ttl hmac (millis e) r1 key)), r1)))"

section \<open>The reporter is never locked out\<close>

lemma get_report_by_case_number_Some:
  "get_report_by_case_number d n = Some r \<Longrightarrow> r \<in> set (db_reports d) \<and> rep_case_number r = n"
  by (auto simp: get_report_by_case_number_def find_Some_iff)

text \<open>
  The right case number and PIN always open the case, whatever was counted before, and leave the
  counter alone; anything else opens nothing and is counted once.
\<close>

theorem reporter_sign_in:
  "fst (fst (authenticate_whistleblower e r d c p)) = fst (fst (authenticate_whistleblower e any_other_store d c p)) \<and>
   (fst (fst (authenticate_whistleblower e r d c p)) = Some report \<longleftrightarrow>
      get_report_by_case_number d (upper (strip c)) = Some report \<and>
      verify_pin (env_crypto e) (lower (strip p))
        (if rep_pin_hash report = [] then TIMING_DUMMY_HASH (env_crypto e) else rep_pin_hash report)) \<and>
   snd (authenticate_whistleblower e r d c p) =
     (if fst (fst (authenticate_whistleblower e r d c p)) = None
      then snd (record_whistleblower_failure (env_cfg e) (cr_hmac (env_crypto e)) (millis e) r (upper (strip c)))
      else r)"
  by (auto simp: authenticate_whistleblower_def get_report_by_credentials_def Let_def
      split: option.splits prod.splits if_splits)

section \<open>A new case\<close>

lemma insert_report_Inr:
  "insert_report r m ns d = Inr (r', d') \<Longrightarrow>
     (\<exists>n \<in> set ns. r' = r\<lparr>rep_case_number := n\<rparr> \<and> n \<notin> rep_case_number ` set (db_reports d)) \<and>
     report_of d (rep_id r) = None \<and>
     d' = d\<lparr>db_reports := db_reports d @ [r'], db_messages := db_messages d @ [m]\<rparr>"
  by (induction ns) (auto simp: Let_def split: if_splits)

lemma create_report_Inr:
  assumes "create_report e drw receipt a d = Inr (r, pin, d')"
  obtains n fernet m where "pin = drw_pin drw" "rep_case_number r = n" "n \<notin> rep_case_number ` set (db_reports d)"
    "make_report_fernet (env_crypto e) (env_cfg e) (encrypt_dek (env_crypto e) (env_cfg e) (drw_dek drw)) = Some fernet"
    "rep_dek r = encrypt_dek (env_crypto e) (env_cfg e) (drw_dek drw)"
    "rep_pin_hash r = hash_pin (env_crypto e) (drw_pin drw)"
    "rep_description r = encrypt_field (env_crypto e) fernet (nr_description a)"
    "rep_status r = Received" "rep_submitted_at r = day_floor (env_now e)" "rep_acknowledged_at r = None"
    "rep_feedback_due_at r = due_at (day_floor (env_now e)) None" "rep_closed_at r = None"
    "rep_feedback_sent_at r = None" "rep_assigned r = None"
    "rep_org r = (case nr_org a of None \<Rightarrow> default_org_id (env_cfg e) d | Some i \<Rightarrow> Some i)"
    "rep_id r = (case nr_id a of None \<Rightarrow> env_id e 0 | Some i \<Rightarrow> i)"
    "m = \<lparr>msg_id = env_id e 1, msg_report = rep_id r, msg_sender = From_admin,
          msg_content = encrypt_field (env_crypto e) fernet receipt, msg_sent_at = day_floor (env_now e)\<rparr>"
    "report_of d (rep_id r) = None"
    "d' = d\<lparr>db_reports := db_reports d @ [r], db_messages := db_messages d @ [m]\<rparr>"
  using assms
  by (auto simp: create_report_def Let_def split: option.splits sum.splits dest!: insert_report_Inr)

lemma report_of_append:
  "report_of (d\<lparr>db_reports := db_reports d @ [r], db_messages := ms\<rparr>) i =
     (case report_of d i of Some y \<Rightarrow> Some y | None \<Rightarrow> if rep_id r = i then Some r else None)"
  by (simp add: report_of_def row_append)

text \<open>
  C8. A filed report is there under its own identifier with a case number nobody else has, its
  description opens under the stored wrapped key and reads as submitted, its PIN opens it, its time
  is the day alone, its deadline is set, and every case filed before is as it was.
\<close>

theorem create_report_files:
  assumes "create_report e drw receipt a d = Inr (r, pin, d')"
    and "fernet_ok (env_crypto e) (make_mek_fernet (env_crypto e) (env_cfg e))"
    and "fernet_ok (env_crypto e) [drw_dek drw]"
    and "cr_bcrypt_ok (env_crypto e) pin (cr_bcrypt (env_crypto e) pin)" "length pin \<le> BCRYPT_MAX_BYTES"
  shows "report_of d' (rep_id r) = Some r \<and> rep_case_number r \<notin> rep_case_number ` set (db_reports d) \<and>
    make_report_fernet (env_crypto e) (env_cfg e) (rep_dek r) = Some (drw_dek drw) \<and>
    decrypt_field_safe (env_crypto e) (drw_dek drw) (Some (rep_description r)) = Some (nr_description a) \<and>
    verify_pin (env_crypto e) pin (rep_pin_hash r) \<and> rep_submitted_at r mod day_us = 0 \<and>
    rep_status r = Received \<and> rep_feedback_due_at r = due_at (rep_submitted_at r) None \<and>
    (\<forall>i. i \<noteq> rep_id r \<longrightarrow> report_of d' i = report_of d i)"
proof -
  from assms(1) obtain n fernet m where f: "pin = drw_pin drw" "n \<notin> rep_case_number ` set (db_reports d)"
    "rep_case_number r = n"
    "make_report_fernet (env_crypto e) (env_cfg e) (encrypt_dek (env_crypto e) (env_cfg e) (drw_dek drw)) = Some fernet"
    "rep_dek r = encrypt_dek (env_crypto e) (env_cfg e) (drw_dek drw)"
    "rep_pin_hash r = hash_pin (env_crypto e) (drw_pin drw)"
    "rep_description r = encrypt_field (env_crypto e) fernet (nr_description a)"
    "rep_status r = Received" "rep_submitted_at r = day_floor (env_now e)"
    "rep_feedback_due_at r = due_at (day_floor (env_now e)) None" "report_of d (rep_id r) = None"
    "d' = d\<lparr>db_reports := db_reports d @ [r], db_messages := db_messages d @ [m]\<rparr>"
    by (rule create_report_Inr) blast
  have dek: "fernet = drw_dek drw"
    using f(4) assms(2) by (simp add: make_report_fernet_def decrypt_dek_def encrypt_dek_def multi_open_multi_seal)
  have "decrypt_field_safe (env_crypto e) (drw_dek drw) (Some (rep_description r)) = Some (nr_description a)"
    unfolding f(7) dek by (rule decrypt_field_safe_seal [OF assms(3)])
  moreover have "verify_pin (env_crypto e) pin (rep_pin_hash r)"
    using assms(4,5) f(1,6) by (simp add: verify_pin_def bcrypt_check_def hash_pin_def)
  moreover have "rep_submitted_at r mod day_us = 0" by (simp add: f(9) day_floor_def)
  ultimately show ?thesis
    using f dek by (auto simp: report_of_append split: option.split)
qed

definition toy_env :: env where
  "toy_env = sample_env\<lparr>env_crypto := toy_crypto\<rparr>"

definition toy_draws :: draws where
  "toy_draws = \<lparr>drw_pin = ''p'', drw_dek = ''D'', drw_numbers = [42]\<rparr>"

definition toy_report :: new_report where
  "toy_report = \<lparr>nr_category = ''fraud'', nr_description = ''text'', nr_mode = Anonymous, nr_location = None,
     nr_name = None, nr_contact = None, nr_email = None, nr_id = Some 5, nr_org = Some 1\<rparr>"

lemma toy_fernet_ok_one: "fernet_ok toy_crypto [k]"
  by (simp add: fernet_ok_def toy_crypto_def Let_def starts_with_def)

lemma toy_mek: "make_mek_fernet toy_crypto sample_settings = [''m'' @ replicate 32 (CHR ''k'')]"
  by (simp add: make_mek_fernet_def encryption_keys_def sample_settings_def toy_crypto_def)

lemma toy_report_filed: "\<exists>r d'. create_report toy_env toy_draws ''receipt'' toy_report empty_db = Inr (r, ''p'', d')"
proof -
  have "day_floor (env_now toy_env) = 0" by code_simp
  moreover have "due_at 0 None = Some (98 * day_us - 1)" by code_simp
  moreover have "make_report_fernet toy_crypto sample_settings (encrypt_dek toy_crypto sample_settings ''D'') = Some ''D''"
    unfolding make_report_fernet_def decrypt_dek_def encrypt_dek_def toy_mek
    by (rule multi_open_multi_seal [OF toy_fernet_ok_one]) simp
  moreover have "env_crypto toy_env = toy_crypto" "env_cfg toy_env = sample_settings" "drw_dek toy_draws = ''D''"
    "drw_pin toy_draws = ''p''" "take 5 (drw_numbers toy_draws) = [42]"
    by (simp_all add: toy_env_def sample_env_def toy_draws_def)
  ultimately have "case create_report toy_env toy_draws ''receipt'' toy_report empty_db of
      Inl _ \<Rightarrow> False | Inr (r, p, d') \<Rightarrow> p = ''p''"
    by (simp add: create_report_def Let_def report_of_def row_def empty_db_def)
  then show ?thesis by (auto split: sum.splits)
qed

theorem create_report_files_witness:
  "\<exists>r d'. create_report toy_env toy_draws ''receipt'' toy_report empty_db = Inr (r, ''p'', d') \<and>
     report_of d' (rep_id r) = Some r \<and> rep_status r = Received \<and>
     verify_pin (env_crypto toy_env) ''p'' (rep_pin_hash r)"
proof -
  obtain r d' where h: "create_report toy_env toy_draws ''receipt'' toy_report empty_db = Inr (r, ''p'', d')"
    using toy_report_filed by blast
  have ok: "fernet_ok (env_crypto toy_env) (make_mek_fernet (env_crypto toy_env) (env_cfg toy_env))"
    "fernet_ok (env_crypto toy_env) [drw_dek toy_draws]"
    "cr_bcrypt_ok (env_crypto toy_env) ''p'' (cr_bcrypt (env_crypto toy_env) ''p'')" "length ''p'' \<le> BCRYPT_MAX_BYTES"
    by (simp_all add: toy_env_def sample_env_def toy_mek toy_fernet_ok_one toy_draws_def BCRYPT_MAX_BYTES_def)
      (simp add: toy_crypto_def)
  from create_report_files [OF h ok] h show ?thesis by blast
qed

section \<open>Listing and access agree\<close>

lemma set_ordered [simp]: "set (ordered asc key k rows) = set rows"
  by (simp add: ordered_def)

lemma length_ordered [simp]: "length (ordered asc key k rows) = length rows"
  by (simp add: ordered_def)

lemma set_order_reports [simp]: "set (order_reports f asc rows) = set rows"
  and length_order_reports [simp]: "length (order_reports f asc rows) = length rows"
  by (simp_all add: order_reports_def split: sort_field.split)

definition dashboard_query :: "settings \<Rightarrow> user \<Rightarrow> case_query" where
  "dashboard_query cfg u =
     \<lparr>cq_status = None, cq_assigned = own_cases_only u, cq_location = None, cq_scope = org_scope cfg u,
      cq_text = [], cq_content = []\<rparr>"

definition listed_reports :: "settings \<Rightarrow> user \<Rightarrow> report list \<Rightarrow> report list" where
  "listed_reports cfg u rows = filter (case_filter (dashboard_query cfg u)) rows"

lemma dashboard_filter_access: "case_filter (dashboard_query cfg u) r \<longleftrightarrow> can_access_report cfg u r"
  by (cases "usr_role u")
    (auto simp: case_filter_def dashboard_query_def org_scope_def own_cases_only_def can_access_report_def Let_def)

interpretation cases: tenant_listing listed_reports rep_org
  by unfold_locales
    (auto simp: listed_reports_def dashboard_filter_access can_access_report_def in_scope_cases split: if_splits)

text \<open>
  The dashboard lists exactly the cases whose page the caller may open: paging through it in any
  order shows each of them once, and no case the caller would be refused.
\<close>

theorem dashboard_lists_accessible:
  "set (order_reports f asc (filter (case_filter (dashboard_query cfg u)) (db_reports d)))
     = {r \<in> set (db_reports d). can_access_report cfg u r} \<and>
   snd (get_reports_paginated d (dashboard_query cfg u) page per f asc)
     = int (length (filter (can_access_report cfg u) (db_reports d))) \<and>
   concat (map (\<lambda>p. fst (get_reports_paginated d (dashboard_query cfg u) (int p + 1) 100 f asc)) [0..<length (db_reports d)])
     = order_reports f asc (filter (can_access_report cfg u) (db_reports d))"
proof (intro conjI)
  have eq: "case_filter (dashboard_query cfg u) = can_access_report cfg u"
    by (rule ext) (rule dashboard_filter_access)
  show "set (order_reports f asc (filter (case_filter (dashboard_query cfg u)) (db_reports d)))
     = {r \<in> set (db_reports d). can_access_report cfg u r}"
    and "snd (get_reports_paginated d (dashboard_query cfg u) page per f asc)
     = int (length (filter (can_access_report cfg u) (db_reports d)))"
    by (auto simp: get_reports_paginated_def eq Let_def)
  let ?rows = "order_reports f asc (filter (can_access_report cfg u) (db_reports d))"
  have "fst (get_reports_paginated d (dashboard_query cfg u) (int p + 1) 100 f asc) = page_of (int p + 1) (int 100) ?rows" for p
    by (simp add: get_reports_paginated_def eq Let_def)
  then have "concat (map (\<lambda>p. fst (get_reports_paginated d (dashboard_query cfg u) (int p + 1) 100 f asc)) [0..<length (db_reports d)])
      = take (length (db_reports d) * 100) ?rows"
    using pages_concat [of 100 ?rows "length (db_reports d)"] by simp
  moreover have "length ?rows \<le> length (db_reports d) * 100"
    using length_filter_le [of "can_access_report cfg u" "db_reports d"] unfolding length_order_reports by linarith
  ultimately show "concat (map (\<lambda>p. fst (get_reports_paginated d (dashboard_query cfg u) (int p + 1) 100 f asc)) [0..<length (db_reports d)])
      = ?rows" by simp
qed

text \<open>
  With several organisations, no case is in the lists of two organisations' staff.
\<close>

theorem tenants_share_no_case:
  assumes "cfg_multi_tenancy cfg" "usr_role u \<noteq> Superadmin" "usr_role v \<noteq> Superadmin" "usr_org u \<noteq> usr_org v"
  shows "set (listed_reports cfg u (db_reports d)) \<inter> set (listed_reports cfg v (db_reports d)) = {}"
  using assms by (rule cases.tenants_disjoint)

definition sample_user :: "uuid \<Rightarrow> role \<Rightarrow> uuid option \<Rightarrow> user" where
  "sample_user i role org =
     \<lparr>usr_id = i, usr_username = ''u'' @ string_of_int (int i), usr_password_hash = Some ''b'', usr_totp_secret = ''s'',
      usr_totp_enabled = True, usr_role = role, usr_active = True, usr_must_change = False,
      usr_oidc_sub = None, usr_oidc_issuer = None, usr_ldap = None, usr_org = org, usr_created_by = None,
      usr_created_at = 0, usr_last_login_at = None, usr_asked_version = None\<rparr>"

definition sample_report :: "uuid \<Rightarrow> uuid option \<Rightarrow> uuid option \<Rightarrow> report" where
  "sample_report i org assigned =
     \<lparr>rep_id = i, rep_case_number = ''OW-'' @ string_of_int (int i), rep_pin_hash = ''bp'', rep_org = org,
      rep_category = ''c'', rep_description = ''x'', rep_dek = [], rep_status = Received, rep_mode = Anonymous,
      rep_location = None, rep_conf_name = None, rep_conf_contact = None, rep_secure_email = None,
      rep_assigned = assigned, rep_submitted_at = 0, rep_acknowledged_at = None, rep_feedback_due_at = None,
      rep_feedback_sent_at = None, rep_closed_at = None\<rparr>"

theorem tenants_share_no_case_witness:
  "let cfg = sample_settings\<lparr>cfg_multi_tenancy := True\<rparr>; u = sample_user 1 Admin (Some 1); v = sample_user 2 Admin (Some 2);
       d = empty_db\<lparr>db_reports := [sample_report 10 (Some 1) None, sample_report 11 (Some 2) None]\<rparr>
   in set (listed_reports cfg u (db_reports d)) \<inter> set (listed_reports cfg v (db_reports d)) = {}"
proof -
  have h: "cfg_multi_tenancy (sample_settings\<lparr>cfg_multi_tenancy := True\<rparr>)"
    "usr_role (sample_user 1 Admin (Some 1)) \<noteq> Superadmin" "usr_role (sample_user 2 Admin (Some 2)) \<noteq> Superadmin"
    "usr_org (sample_user 1 Admin (Some 1)) \<noteq> usr_org (sample_user 2 Admin (Some 2))"
    by (simp_all add: sample_user_def)
  show ?thesis unfolding Let_def by (rule tenants_share_no_case [OF h])
qed

end
