(* ===== verification/Case_Service.thy ===== *)
theory Case_Service
  imports Report_Service
begin

text \<open>
  What happens to a case (\<open>app/services/report.py\<close>, second half): the message thread, the
  acknowledgement, the status machine, assignment, notes, links, and the two-step deletion. Each
  operation is a function on the database; the route that calls it commits, so a refusal leaves the
  database as it was. Operations that delete return the storage keys the route then removes.
\<close>

section \<open>Messages\<close>

definition encrypt_message_content :: "env \<Rightarrow> report \<Rightarrow> string \<Rightarrow> string option" where
  "encrypt_message_content e r content =
     (if rep_dek r = [] then Some content
      else map_option (\<lambda>fernet. encrypt_field (env_crypto e) fernet content)
             (make_report_fernet (env_crypto e) (env_cfg e) (rep_dek r)))"

definition thread :: "db \<Rightarrow> uuid \<Rightarrow> message list" where
  "thread d i = filter (\<lambda>m. msg_report m = i) (db_messages d)"

definition next_sent_at :: "db \<Rightarrow> uuid \<Rightarrow> moment \<Rightarrow> moment" where
  "next_sent_at d i earliest =
     (case map msg_sent_at (thread d i) of
        [] \<Rightarrow> earliest
      | t # ts \<Rightarrow> (let latest = foldl max t ts in if latest \<ge> earliest then latest + 1 else earliest))"

definition add_whistleblower_message :: "env \<Rightarrow> db \<Rightarrow> report \<Rightarrow> string \<Rightarrow> (message \<times> db) option" where
  "add_whistleblower_message e d r content =
     (case encrypt_message_content e r content of
        None \<Rightarrow> None
      | Some c \<Rightarrow>
          (let m = \<lparr>msg_id = env_id e 0, msg_report = rep_id r, msg_sender = From_whistleblower,
                    msg_content = c, msg_sent_at = next_sent_at d (rep_id r) (day_floor (env_now e))\<rparr>
           in Some (m, d\<lparr>db_messages := db_messages d @ [m]\<rparr>)))"

text \<open>Whether the reporter is to be notified, and at which address, is returned to the route.\<close>

definition add_admin_message ::
  "env \<Rightarrow> db \<Rightarrow> report \<Rightarrow> string \<Rightarrow> bool \<Rightarrow> (message \<times> string option \<times> db) option" where
  "add_admin_message e d r content notify =
     (case encrypt_message_content e r content of
        None \<Rightarrow> None
      | Some c \<Rightarrow>
          (let m = \<lparr>msg_id = env_id e 0, msg_report = rep_id r, msg_sender = From_admin,
                    msg_content = c, msg_sent_at = next_sent_at d (rep_id r) (env_now e)\<rparr>;
               d1 = (if rep_acknowledged_at r \<noteq> None \<and> rep_feedback_sent_at r = None
                     then set_report (rep_id r) (\<lambda>x. x\<lparr>rep_feedback_sent_at := Some (msg_sent_at m)\<rparr>) d else d);
               mail = (if notify then decrypt_or_none (env_crypto e) (env_cfg e) (rep_secure_email r) else None)
           in Some (m, mail, d1\<lparr>db_messages := db_messages d1 @ [m]\<rparr>)))"

section \<open>Acknowledgement, status, assignment, notes\<close>

definition acknowledge_report :: "env \<Rightarrow> report \<Rightarrow> report option" where
  "acknowledge_report e r =
     (let acked = (if rep_acknowledged_at r = None
                   then (case due_at (rep_submitted_at r) (Some (env_now e)) of
                           None \<Rightarrow> None
                         | Some due \<Rightarrow> Some (r\<lparr>rep_acknowledged_at := Some (env_now e), rep_feedback_due_at := Some due\<rparr>))
                   else Some r)
      in map_option (\<lambda>x. if rep_status x = Received then x\<lparr>rep_status := In_review\<rparr> else x) acked)"

definition is_valid_transition :: "status \<Rightarrow> status \<Rightarrow> bool" where
  "is_valid_transition current new \<longleftrightarrow> new \<in> set (STATUS_TRANSITIONS current)"

definition update_report_status :: "env \<Rightarrow> status \<Rightarrow> report \<Rightarrow> report" where
  "update_report_status e new r =
     (let r1 = r\<lparr>rep_status := new\<rparr> in
      if new = Closed then (if rep_closed_at r1 = None then r1\<lparr>rep_closed_at := Some (env_now e)\<rparr> else r1)
      else if rep_closed_at r1 \<noteq> None then r1\<lparr>rep_closed_at := None\<rparr> else r1)"

definition assign_report :: "user option \<Rightarrow> report \<Rightarrow> report" where
  "assign_report admin r = r\<lparr>rep_assigned := map_option usr_id admin\<rparr>"

definition add_note :: "env \<Rightarrow> db \<Rightarrow> report \<Rightarrow> user \<Rightarrow> string \<Rightarrow> db option" where
  "add_note e d r author content =
     (case encrypt_message_content e r content of
        None \<Rightarrow> None
      | Some c \<Rightarrow>
          Some (d\<lparr>db_notes := db_notes d @
            [\<lparr>note_id = env_id e 0, note_report = rep_id r, note_author = Some (usr_id author),
              note_author_name = usr_username author, note_content = c, note_created_at = env_now e\<rparr>]\<rparr>))"

section \<open>Deletion\<close>

definition stored_object_keys :: "db \<Rightarrow> uuid list \<Rightarrow> string list" where
  "stored_object_keys d ids =
     filter (\<lambda>k. k \<noteq> []) (List.map_filter (\<lambda>a. if att_report a \<in> set ids then att_key a else None) (db_attachments d))"

definition delete_report :: "db \<Rightarrow> report \<Rightarrow> string list \<times> db" where
  "delete_report d r = (stored_object_keys d [rep_id r], purge_reports [rep_id r] d)"

definition get_active_deletion_request :: "db \<Rightarrow> uuid \<Rightarrow> deletion_request option" where
  "get_active_deletion_request d i = find (\<lambda>q. del_report q = i) (db_deletions d)"

definition request_deletion :: "env \<Rightarrow> db \<Rightarrow> report \<Rightarrow> user \<Rightarrow> db option" where
  "request_deletion e d r requester =
     (if get_active_deletion_request d (rep_id r) \<noteq> None then None
      else Some (d\<lparr>db_deletions := db_deletions d @
        [\<lparr>del_id = env_id e 0, del_report = rep_id r, del_by = Some (usr_id requester),
          del_by_name = usr_username requester, del_at = env_now e,
          del_confirmed_by = None, del_confirmed_name = None, del_confirmed_at = None\<rparr>]\<rparr>))"

definition cancel_deletion_request :: "db \<Rightarrow> deletion_request \<Rightarrow> db" where
  "cancel_deletion_request d q = d\<lparr>db_deletions := delete_row del_id (del_id q) (db_deletions d)\<rparr>"

definition confirm_deletion :: "env \<Rightarrow> db \<Rightarrow> report \<Rightarrow> deletion_request \<Rightarrow> user \<Rightarrow> string list \<times> db" where
  "confirm_deletion e d r q confirmer =
     (let d1 = d\<lparr>db_deletions := update_row del_id (del_id q)
                   (\<lambda>x. x\<lparr>del_confirmed_by := Some (usr_id confirmer),
                          del_confirmed_name := Some (usr_username confirmer),
                          del_confirmed_at := Some (env_now e)\<rparr>) (db_deletions d)\<rparr>;
          d2 = audit_log e 1 confirmer ''report.delete_confirmed'' None
                 [(''case_number'', rep_case_number r), (''requested_by'', del_by_name q),
                  (''confirmed_by'', usr_username confirmer)] (Some (rep_org r)) d1
      in (stored_object_keys d2 [rep_id r], purge_reports [rep_id r] d2))"

section \<open>Links\<close>

definition normalize_ids :: "uuid \<Rightarrow> uuid \<Rightarrow> uuid \<times> uuid" where
  "normalize_ids a b = (if a < b then (a, b) else (b, a))"

definition get_link :: "db \<Rightarrow> uuid \<Rightarrow> case_link option" where
  "get_link d i = row lnk_id i (db_links d)"

definition get_link_between :: "db \<Rightarrow> uuid \<Rightarrow> uuid \<Rightarrow> case_link option" where
  "get_link_between d a b =
     (let (x, y) = normalize_ids a b in find (\<lambda>l. lnk_a l = x \<and> lnk_b l = y) (db_links d))"

definition link_cases :: "env \<Rightarrow> db \<Rightarrow> report \<Rightarrow> report \<Rightarrow> user \<Rightarrow> db" where
  "link_cases e d ra rb actor =
     (let (x, y) = normalize_ids (rep_id ra) (rep_id rb)
      in d\<lparr>db_links := db_links d @
           [\<lparr>lnk_id = env_id e 0, lnk_a = x, lnk_b = y, lnk_by = Some (usr_id actor),
             lnk_by_name = usr_username actor, lnk_at = env_now e\<rparr>]\<rparr>)"

definition unlink_cases :: "db \<Rightarrow> case_link \<Rightarrow> db" where
  "unlink_cases d l = d\<lparr>db_links := delete_row lnk_id (lnk_id l) (db_links d)\<rparr>"

definition get_linked_reports :: "db \<Rightarrow> report \<Rightarrow> (uuid \<times> uuid) list" where
  "get_linked_reports d r =
     map (\<lambda>l. (lnk_b l, lnk_id l)) (filter (\<lambda>l. lnk_a l = rep_id r) (db_links d))
     @ map (\<lambda>l. (lnk_a l, lnk_id l)) (filter (\<lambda>l. lnk_b l = rep_id r) (db_links d))"

section \<open>Dashboard statistics\<close>

record dashboard_stats =
  ds_status :: "status \<Rightarrow> nat"
  ds_by_category :: "string \<Rightarrow> nat"
  ds_total :: nat
  ds_decided :: nat
  ds_on_time :: nat

definition ack_window :: int where "ack_window = (ACK_DAYS + 1) * day_us"

definition ack_decided :: "moment \<Rightarrow> report \<Rightarrow> bool" where
  "ack_decided now r \<longleftrightarrow> rep_acknowledged_at r \<noteq> None \<or> rep_submitted_at r + ack_window \<le> now"

definition ack_in_time :: "report \<Rightarrow> bool" where
  "ack_in_time r \<longleftrightarrow> (case rep_acknowledged_at r of None \<Rightarrow> False | Some a \<Rightarrow> a < rep_submitted_at r + ack_window)"

definition get_dashboard_stats :: "moment \<Rightarrow> db \<Rightarrow> bool \<times> uuid option \<Rightarrow> uuid option \<Rightarrow> dashboard_stats" where
  "get_dashboard_stats now d scope assigned =
     (let rows = filter (\<lambda>r. (fst scope \<longrightarrow> rep_org r = snd scope) \<and>
                             (assigned \<noteq> None \<longrightarrow> rep_assigned r = assigned)) (db_reports d)
      in \<lparr>ds_status = get_report_stats d scope assigned None,
          ds_by_category = (\<lambda>c. length (filter (\<lambda>r. rep_category r = c) rows)),
          ds_total = length rows,
          ds_decided = length (filter (ack_decided now) rows),
          ds_on_time = length (filter ack_in_time rows)\<rparr>)"

section \<open>The thread\<close>

lemma next_sent_at_gt: "m \<in> set (thread d i) \<Longrightarrow> msg_sent_at m < next_sent_at d i earliest"
proof -
  have ge: "t \<le> foldl max t ts \<and> (\<forall>x \<in> set ts. x \<le> foldl max t ts)" for t :: int and ts
  proof (induction ts arbitrary: t)
    case (Cons a ts)
    from Cons [of "max t a"] show ?case by auto
  qed simp
  assume "m \<in> set (thread d i)"
  then have "msg_sent_at m \<in> set (map msg_sent_at (thread d i))" by simp
  moreover obtain t ts where l: "map msg_sent_at (thread d i) = t # ts"
    using calculation by (cases "map msg_sent_at (thread d i)") auto
  ultimately have "msg_sent_at m \<in> set (t # ts)" by (simp only: l)
  then have "msg_sent_at m \<le> foldl max t ts" using ge [of t ts] by auto
  then show ?thesis by (auto simp: next_sent_at_def l(1) Let_def)
qed

lemma next_sent_at_ge: "earliest \<le> next_sent_at d i earliest"
  by (auto simp: next_sent_at_def Let_def split: list.split)

text \<open>Every thread in the database is in strictly increasing order of its times.\<close>

definition threads_ordered :: "db \<Rightarrow> bool" where
  "threads_ordered d \<longleftrightarrow> (\<forall>i. sorted_wrt (\<lambda>a b. msg_sent_at a < msg_sent_at b) (thread d i))"

lemma threads_ordered_append:
  assumes "threads_ordered d" "msg_sent_at m = next_sent_at d (msg_report m) t"
  shows "threads_ordered (d\<lparr>db_messages := db_messages d @ [m]\<rparr>)"
  using assms next_sent_at_gt [of _ d "msg_report m" t]
  by (auto simp: threads_ordered_def thread_def sorted_wrt_append)

lemma threads_ordered_cong: "db_messages d = db_messages d' \<Longrightarrow> threads_ordered d = threads_ordered d'"
  by (simp add: threads_ordered_def thread_def)

lemma set_report_simps [table_simps]:
  "db_messages (set_report i f d) = db_messages d" "db_notes (set_report i f d) = db_notes d"
  "db_links (set_report i f d) = db_links d" "db_deletions (set_report i f d) = db_deletions d"
  "db_attachments (set_report i f d) = db_attachments d" "db_users (set_report i f d) = db_users d"
  "db_audit (set_report i f d) = db_audit d" "db_orgs (set_report i f d) = db_orgs d"
  "db_reports (set_report i f d) = update_row rep_id i f (db_reports d)"
  by (simp_all add: set_report_def)

text \<open>
  A thread reads in the order it was written: a message from either side is stored after every
  earlier one of its case, though the reporter's carry the day alone.
\<close>

theorem messages_stay_ordered:
  assumes "threads_ordered d"
  shows "(case add_whistleblower_message e d r c of
            None \<Rightarrow> True
          | Some (m, d') \<Rightarrow> threads_ordered d' \<and> thread d' (rep_id r) = thread d (rep_id r) @ [m] \<and>
              day_floor (env_now e) \<le> msg_sent_at m) \<and>
         (case add_admin_message e d r c notify of
            None \<Rightarrow> True
          | Some (m, _, d') \<Rightarrow> threads_ordered d' \<and> thread d' (rep_id r) = thread d (rep_id r) @ [m] \<and>
              env_now e \<le> msg_sent_at m)"
proof -
  have w: "threads_ordered d' \<and> thread d' (rep_id r) = thread d (rep_id r) @ [m] \<and> day_floor (env_now e) \<le> msg_sent_at m"
    if "add_whistleblower_message e d r c = Some (m, d')" for m d'
    using that threads_ordered_append [OF assms, of m "day_floor (env_now e)"] next_sent_at_ge
    by (auto simp: add_whistleblower_message_def Let_def thread_def split: option.splits)
  have a: "threads_ordered d' \<and> thread d' (rep_id r) = thread d (rep_id r) @ [m] \<and> env_now e \<le> msg_sent_at m"
    if h: "add_admin_message e d r c notify = Some (m, mail, d')" for m mail d'
  proof -
    from h have m: "msg_report m = rep_id r" "msg_sent_at m = next_sent_at d (rep_id r) (env_now e)"
      and d': "db_messages d' = db_messages (d\<lparr>db_messages := db_messages d @ [m]\<rparr>)"
      by (auto simp: add_admin_message_def Let_def table_simps split: option.splits)
    have "threads_ordered d'"
      unfolding threads_ordered_cong [OF d'] using m by (intro threads_ordered_append [OF assms]) simp
    with m d' next_sent_at_ge show ?thesis by (simp add: thread_def)
  qed
  show ?thesis using w a by (auto split: option.splits)
qed

theorem messages_stay_ordered_witness:
  "\<exists>m d'. add_whistleblower_message toy_env empty_db (sample_report 10 None None) ''hello'' = Some (m, d') \<and>
     threads_ordered d' \<and> thread d' 10 = [m]"
proof -
  have h: "threads_ordered empty_db" by (simp add: threads_ordered_def thread_def empty_db_def)
  have "add_whistleblower_message toy_env empty_db (sample_report 10 None None) ''hello'' \<noteq> None" by code_simp
  then obtain m d' where a: "add_whistleblower_message toy_env empty_db (sample_report 10 None None) ''hello'' = Some (m, d')"
    by auto
  have "thread empty_db 10 = []" "rep_id (sample_report 10 None None) = 10" by (simp_all add: thread_def empty_db_def sample_report_def)
  with messages_stay_ordered [OF h, where e = toy_env and r = "sample_report 10 None None" and c = "''hello''", THEN conjunct1] a show ?thesis by simp
qed

section \<open>The statistics follow the deadlines\<close>

text \<open>
  The dashboard's acknowledgement statistics, written as queries, count by the rule of the deadlines: a
  case is on time when its acknowledgement met the deadline, and decided when the deadline reads done or
  overdue; so the cases on time are among the decided ones.
\<close>

theorem sla_follows_deadlines:
  assumes "rep_submitted_at r mod day_us = 0" "ack_due (utc (rep_submitted_at r)) = Some due"
  shows "(ack_in_time r \<longleftrightarrow> ack_on_time (utc (rep_submitted_at r)) (map_option utc (rep_acknowledged_at r)) = Some True) \<and>
    (ack_decided now r \<longleftrightarrow>
       map_option dl_state (ack_status (utc (rep_submitted_at r)) (map_option utc (rep_acknowledged_at r)) (utc now))
         \<in> {Some Is_done, Some Is_overdue}) \<and>
    (ack_in_time r \<longrightarrow> ack_decided now r)"
  using ack_due_utc [OF assms(2,1)]
  by (auto simp: ack_in_time_def ack_decided_def ack_on_time_def ack_status_def assms(2) ack_window_def ACK_DAYS_def Let_def
      split: option.splits)

theorem sla_follows_deadlines_witness:
  "ack_decided (8 * day_us) (sample_report 10 None None) \<and> \<not> ack_decided (8 * day_us - 1) (sample_report 10 None None) \<and>
   map_option dl_state (ack_status (utc 0) None (utc (8 * day_us))) = Some Is_overdue"
proof -
  have h: "rep_submitted_at (sample_report 10 None None) mod day_us = 0"
    "ack_due (utc (rep_submitted_at (sample_report 10 None None))) = Some (utc (8 * day_us - 1))"
    by (simp_all add: sample_report_def) code_simp
  have f: "rep_submitted_at (sample_report 10 None None) = 0" "rep_acknowledged_at (sample_report 10 None None) = None"
    by (simp_all add: sample_report_def)
  have a: "map_option dl_state (ack_status (utc 0) None (utc (8 * day_us))) = Some Is_overdue"
    "map_option dl_state (ack_status (utc 0) None (utc (8 * day_us - 1))) = Some Is_warning" by code_simp+
  show ?thesis
    using sla_follows_deadlines [OF h, of "8 * day_us"] sla_follows_deadlines [OF h, of "8 * day_us - 1"]
    unfolding f option.map(1) a by simp
qed

end
