(* ===== verification/Case_Handling.thy ===== *)
theory Case_Handling
  imports Case_Service
begin

text \<open>
  The routes that act on a case (\<open>app/api/admin.py\<close>): each as a function of the signed-in account
  and the database. \<open>Inl\<close> is the refusal, after which nothing is committed; \<open>Inr\<close> is the response
  with the database committed.
\<close>

datatype response = Redirect string | Page nat | File string | Identity "string option" "string option"

type_synonym outcome = "refusal + (response \<times> db)"

definition status_name :: "status \<Rightarrow> string" where
  "status_name s =
     (case s of Received \<Rightarrow> ''received'' | In_review \<Rightarrow> ''in_review''
      | Pending_feedback \<Rightarrow> ''pending_feedback'' | Closed \<Rightarrow> ''closed'')"

definition status_of :: "string \<Rightarrow> status option" where
  "status_of t = find (\<lambda>s. status_name s = t) [Received, In_review, Pending_feedback, Closed]"

definition case_url :: "uuid \<Rightarrow> string" where
  "case_url i = ''/admin/reports/'' @ string_of_int (int i)"

definition name_or :: "string option \<Rightarrow> string" where
  "name_or n = (case n of None \<Rightarrow> ''null'' | Some s \<Rightarrow> s)"

section \<open>Reading a case\<close>

definition report_detail :: "env \<Rightarrow> db \<Rightarrow> user \<Rightarrow> uuid \<Rightarrow> outcome" where
  "report_detail e d u i =
     on_ok (get_authorized_report (env_cfg e) d i u)
       (\<lambda>r. Inr (Page 200, audit_log e 1 u ''report.viewed'' (Some (rep_id r)) [] None d))"

text \<open>
  The gate of both ways to reveal an identity: a refused reason is an audited view (\<open>Inl\<close> inside),
  an accepted one assigns an unassigned case to the caller.
\<close>

definition reveal_gate ::
  "env \<Rightarrow> db \<Rightarrow> user \<Rightarrow> uuid \<Rightarrow> string \<Rightarrow> refusal + ((response \<times> db) + (report \<times> string \<times> db))" where
  "reveal_gate e d u i reason =
     on_ok (get_authorized_report (env_cfg e) d i u) (\<lambda>r.
       if \<not> can_reveal_identity (env_cfg e) u r then Inl (Status 403)
       else (case validated_reason reason of
               None \<Rightarrow> Inr (Inl (Page 422, audit_log e 1 u ''report.viewed'' (Some (rep_id r)) [] None d))
             | Some valid \<Rightarrow>
                 (if rep_assigned r = None
                  then Inr (Inr (assign_report (Some u) r, valid,
                         audit_log e 1 u ''report.assigned'' (Some (rep_id r))
                           [(''from'', ''null''), (''to'', usr_username u)] None
                           (set_report (rep_id r) (assign_report (Some u)) d)))
                  else Inr (Inr (r, valid, d)))))"

definition reveal_identity :: "env \<Rightarrow> db \<Rightarrow> user \<Rightarrow> uuid \<Rightarrow> string \<Rightarrow> outcome" where
  "reveal_identity e d u i reason =
     on_ok (reveal_gate e d u i reason) (\<lambda>gate.
       case gate of
         Inl page \<Rightarrow> Inr page
       | Inr (r, valid, d1) \<Rightarrow>
           Inr (Identity (decrypt_or_none (env_crypto e) (env_cfg e) (rep_conf_name r))
                         (decrypt_or_none (env_crypto e) (env_cfg e) (rep_conf_contact r)),
                audit_log e 2 u ''report.identity_revealed'' (Some (rep_id r))
                  [(''reason'', encrypt (env_crypto e) (env_cfg e) valid)] None d1))"

definition export_pdf :: "env \<Rightarrow> db \<Rightarrow> user \<Rightarrow> uuid \<Rightarrow> outcome" where
  "export_pdf e d u i =
     on_ok (get_authorized_report (env_cfg e) d i u)
       (\<lambda>r. Inr (File (rep_case_number r @ ''_export.pdf''),
                 audit_log e 1 u ''report.exported'' (Some (rep_id r)) [] None d))"

definition export_pdf_with_identity :: "env \<Rightarrow> db \<Rightarrow> user \<Rightarrow> uuid \<Rightarrow> string \<Rightarrow> outcome" where
  "export_pdf_with_identity e d u i reason =
     on_ok (reveal_gate e d u i reason) (\<lambda>gate.
       case gate of
         Inl page \<Rightarrow> Inr page
       | Inr (r, valid, d1) \<Rightarrow>
           Inr (File (rep_case_number r @ ''_export.pdf''),
                audit_log e 2 u ''report.identity_revealed'' (Some (rep_id r))
                  [(''reason'', encrypt (env_crypto e) (env_cfg e) valid), (''via'', ''pdf'')] None d1))"

text \<open>\<open>stored\<close> is the object store: the sealed bytes under a key, or nothing when they are gone.\<close>

definition read_attachment :: "env \<Rightarrow> (string \<Rightarrow> string option) \<Rightarrow> db \<Rightarrow> attachment \<Rightarrow> refusal + string" where
  "read_attachment e stored d a =
     (case (if att_key a \<noteq> None \<and> att_key a \<noteq> Some [] then stored (the (att_key a)) else att_data a) of
        None \<Rightarrow> Inl (Status 404)
      | Some bytes \<Rightarrow>
          (if \<not> att_encrypted a then Inr bytes
           else (case report_of d (att_report a) of
                   None \<Rightarrow> Inl (Status 404)
                 | Some r \<Rightarrow>
                     (case make_report_fernet (env_crypto e) (env_cfg e) (rep_dek r) of
                        None \<Rightarrow> Inl (Status 500)
                      | Some fernet \<Rightarrow>
                          (case cr_open (env_crypto e) fernet bytes of None \<Rightarrow> Inl (Status 500) | Some x \<Rightarrow> Inr x)))))"

definition admin_download_attachment ::
  "env \<Rightarrow> (string \<Rightarrow> string option) \<Rightarrow> db \<Rightarrow> user \<Rightarrow> uuid \<Rightarrow> uuid \<Rightarrow> outcome" where
  "admin_download_attachment e stored d u i aid =
     on_ok (get_authorized_report (env_cfg e) d i u) (\<lambda>_.
       case row att_id aid (db_attachments d) of
         None \<Rightarrow> Inl (Status 404)
       | Some a \<Rightarrow>
           (if att_report a \<noteq> i then Inl (Status 404)
            else on_ok (read_attachment e stored d a) (\<lambda>bytes.
              Inr (File bytes,
                audit_log e 1 u ''report.attachment_downloaded'' (Some i)
                  [(''attachment_id'', string_of_int (int aid))] None d))))"

section \<open>Acting on a case\<close>

definition acknowledge_route :: "env \<Rightarrow> db \<Rightarrow> user \<Rightarrow> uuid \<Rightarrow> outcome" where
  "acknowledge_route e d u i =
     on_ok (get_authorized_report (env_cfg e) d i u) (\<lambda>r.
       case acknowledge_report e r of
         None \<Rightarrow> Inl (Status 500)
       | Some r' \<Rightarrow>
           Inr (Redirect (case_url i),
             audit_log e 1 u ''report.acknowledged'' (Some i)
               [(''old_status'', status_name (rep_status r)), (''new_status'', status_name (rep_status r'))] None
               (set_report i (\<lambda>_. r') d)))"

definition update_status :: "env \<Rightarrow> db \<Rightarrow> user \<Rightarrow> uuid \<Rightarrow> string \<Rightarrow> outcome" where
  "update_status e d u i new_status =
     on_ok (get_authorized_report (env_cfg e) d i u) (\<lambda>r.
       case status_of new_status of
         None \<Rightarrow> Inl (Status 400)
       | Some s \<Rightarrow>
           (if \<not> is_valid_transition (rep_status r) s then Inl (Status 400)
            else Inr (Redirect (case_url i),
              audit_log e 1 u ''report.status_changed'' (Some i)
                [(''old'', status_name (rep_status r)), (''new'', status_name s)] None
                (set_report i (update_report_status e s) d))))"

definition admin_reply :: "env \<Rightarrow> db \<Rightarrow> user \<Rightarrow> uuid \<Rightarrow> string \<Rightarrow> refusal + (response \<times> string option \<times> db)" where
  "admin_reply e d u i raw =
     on_ok (text_field 5000 raw) (\<lambda>content.
     on_ok (get_authorized_report (env_cfg e) d i u) (\<lambda>r.
       if strip content = [] then Inl (Status 422)
       else (case add_admin_message e (audit_log e 1 u ''report.message_sent'' (Some i) [] None d) r (strip content) True of
               None \<Rightarrow> Inl (Status 500)
             | Some (m, mail, d') \<Rightarrow> Inr (Redirect (case_url i), mail, d'))))"

definition assign_route :: "env \<Rightarrow> db \<Rightarrow> user \<Rightarrow> uuid \<Rightarrow> string \<Rightarrow> outcome" where
  "assign_route e d u i admin_id =
     on_ok (require_admin u) (\<lambda>u.
     on_ok (get_authorized_report (env_cfg e) d i u) (\<lambda>r.
     on_ok (if admin_id = [] then Inr None
            else (case parse_uuid admin_id of
                    None \<Rightarrow> Inl (Status 400)
                  | Some aid \<Rightarrow>
                      (case user_of d aid of
                         None \<Rightarrow> Inl (Status 404)
                       | Some a \<Rightarrow>
                           (if \<not> usr_active a then Inl (Status 400)
                            else if cfg_multi_tenancy (env_cfg e) \<and> rep_org r \<noteq> None \<and> usr_org a \<noteq> rep_org r
                              then Inl (Status 400)
                            else Inr (Some a))))) (\<lambda>assignee.
       Inr (Redirect (case_url i),
         audit_log e 1 u (if assignee \<noteq> None then ''report.assigned'' else ''report.unassigned'') (Some i)
           [(''from'', name_or (Option.bind (rep_assigned r) (\<lambda>j. map_option usr_username (user_of d j)))),
            (''to'', name_or (map_option usr_username assignee))] None
           (set_report i (assign_report assignee) d)))))"

definition add_note_route :: "env \<Rightarrow> db \<Rightarrow> user \<Rightarrow> uuid \<Rightarrow> string \<Rightarrow> outcome" where
  "add_note_route e d u i raw =
     on_ok (text_field 5000 raw) (\<lambda>content.
     on_ok (get_authorized_report (env_cfg e) d i u) (\<lambda>r.
       if strip content = [] then Inl (Status 422)
       else (case add_note e d r u (strip content) of
               None \<Rightarrow> Inl (Status 500)
             | Some d' \<Rightarrow> Inr (Redirect (case_url i @ ''#notes''),
                 audit_log e 1 u ''report.note_added'' (Some i) [] None d'))))"

definition link_report :: "env \<Rightarrow> db \<Rightarrow> user \<Rightarrow> uuid \<Rightarrow> string \<Rightarrow> outcome" where
  "link_report e d u i case_number =
     on_ok (get_authorized_report (env_cfg e) d i u) (\<lambda>r.
       case get_report_by_case_number d (upper (strip case_number)) of
         None \<Rightarrow> Inl (Status 404)
       | Some other \<Rightarrow>
           (if \<not> can_access_report (env_cfg e) u other then Inl (Status 404)
            else if rep_id other = rep_id r then Inl (Status 400)
            else if get_link_between d (rep_id r) (rep_id other) \<noteq> None then Inl (Status 409)
            else Inr (Redirect (case_url i @ ''#links''),
              audit_log e 1 u ''report.link_added'' (Some i) [(''linked_with'', rep_case_number other)] None
                (link_cases e d r other u))))"

definition unlink_report :: "env \<Rightarrow> db \<Rightarrow> user \<Rightarrow> uuid \<Rightarrow> uuid \<Rightarrow> outcome" where
  "unlink_report e d u i link_id =
     on_ok (get_authorized_report (env_cfg e) d i u) (\<lambda>r.
       case get_link d link_id of
         None \<Rightarrow> Inl (Status 404)
       | Some l \<Rightarrow>
           (if lnk_a l \<noteq> rep_id r \<and> lnk_b l \<noteq> rep_id r then Inl (Status 404)
            else Inr (Redirect (case_url i @ ''#links''),
              audit_log e 1 u ''report.link_removed'' (Some i) [] None (unlink_cases d l))))"

section \<open>The four-eyes deletion\<close>

definition request_delete :: "env \<Rightarrow> db \<Rightarrow> user \<Rightarrow> uuid \<Rightarrow> outcome" where
  "request_delete e d u i =
     on_ok (require_admin u) (\<lambda>u.
     on_ok (get_authorized_report (env_cfg e) d i u) (\<lambda>r.
       if get_active_deletion_request d (rep_id r) \<noteq> None then Inl (Status 409)
       else (case request_deletion e d r u of
               None \<Rightarrow> Inl (Status 500)
             | Some d' \<Rightarrow> Inr (Redirect (case_url i),
                 audit_log e 1 u ''report.delete_requested'' (Some i) [] None d'))))"

function makers :: "db \<Rightarrow> uuid option \<Rightarrow> uuid list \<Rightarrow> uuid list" where
  "makers d None seen = seen"
| "makers d (Some i) seen =
     (if i \<in> set seen then seen
      else (case user_of d i of
              None \<Rightarrow> i # seen
            | Some u \<Rightarrow> makers d (usr_created_by u) (i # seen)))"
  by pat_completeness auto

text \<open>Each round adds an account of the table to \<open>seen\<close>; a cycle in the table ends the walk.\<close>

termination makers
proof (relation "measure (\<lambda>(d, i, seen). card (usr_id ` set (db_users d) - set seen))", simp)
  fix d :: db and i seen u
  assume "i \<notin> set seen" "user_of d i = Some u"
  then have "i \<in> usr_id ` set (db_users d) - set seen" by (auto simp: user_of_def dest!: row_Some)
  then have "card (usr_id ` set (db_users d) - set seen - {i}) < card (usr_id ` set (db_users d) - set seen)"
    by (intro card_Diff1_less) auto
  moreover have "usr_id ` set (db_users d) - set (i # seen) = usr_id ` set (db_users d) - set seen - {i}" by auto
  ultimately show "((d, usr_created_by u, i # seen), d, Some i, seen)
      \<in> measure (\<lambda>(d, i, seen). card (usr_id ` set (db_users d) - set seen))"
    by (simp only: in_measure prod.case)
qed

definition one_made_the_other :: "db \<Rightarrow> uuid option \<Rightarrow> uuid \<Rightarrow> bool" where
  "one_made_the_other d a b \<longleftrightarrow>
     (case a of None \<Rightarrow> False | Some x \<Rightarrow> x \<in> set (makers d (Some b) []) \<or> b \<in> set (makers d (Some x) []))"

text \<open>Confirming deletes at once; the storage keys and the case number are what is cleaned up after.\<close>

definition confirm_delete ::
  "env \<Rightarrow> redis \<Rightarrow> db \<Rightarrow> user \<Rightarrow> uuid \<Rightarrow> refusal + (response \<times> string list \<times> string \<times> redis \<times> db)" where
  "confirm_delete e rd d u i =
     on_ok (require_admin u) (\<lambda>u.
     on_ok (get_authorized_report (env_cfg e) d i u) (\<lambda>r.
       case get_active_deletion_request d (rep_id r) of
         None \<Rightarrow> Inl (Status 400)
       | Some q \<Rightarrow>
           (if del_by q = Some (usr_id u) \<or> one_made_the_other d (del_by q) (usr_id u) then Inl (Status 409)
            else (let (keys, d') = confirm_deletion e d r q u
                  in Inr (Redirect (''/admin/dashboard?deleted='' @ rep_case_number r), keys, rep_case_number r,
                          end_status_sessions (millis e) rd [i], d')))))"

definition cancel_delete :: "env \<Rightarrow> db \<Rightarrow> user \<Rightarrow> uuid \<Rightarrow> outcome" where
  "cancel_delete e d u i =
     on_ok (require_admin u) (\<lambda>u.
     on_ok (get_authorized_report (env_cfg e) d i u) (\<lambda>r.
       case get_active_deletion_request d (rep_id r) of
         None \<Rightarrow> Inl (Status 400)
       | Some q \<Rightarrow>
           (if del_by q \<noteq> Some (usr_id u) then Inl (Status 403)
            else Inr (Redirect (case_url i),
              audit_log e 1 u ''report.delete_cancelled'' (Some i) [] None (cancel_deletion_request d q)))))"

end
