(* ===== verification/Case_Lifecycle.thy ===== *)
theory Case_Lifecycle
  imports Case_Handling Reachability
begin

text \<open>
  The case tables as a state machine: every request that acts on a case is a step, and the
  integrity of the tables (one row per key, no row without its case, ordered threads, a closing time
  exactly on a closed case) is an invariant of what is reachable by them.
\<close>

section \<open>The invariant of the case tables\<close>

definition case_ok :: "report \<Rightarrow> bool" where
  "case_ok r \<longleftrightarrow> (rep_status r = Closed \<longleftrightarrow> rep_closed_at r \<noteq> None) \<and>
     (rep_feedback_sent_at r \<noteq> None \<longrightarrow> rep_acknowledged_at r \<noteq> None)"

definition report_ids :: "db \<Rightarrow> uuid set" where
  "report_ids d = rep_id ` set (db_reports d)"

lemma report_ids_map: "report_ids d = set (map rep_id (db_reports d))"
  by (simp add: report_ids_def)

definition db_inv :: "db \<Rightarrow> bool" where
  "db_inv d \<longleftrightarrow>
     distinct (map rep_id (db_reports d)) \<and> distinct (map rep_case_number (db_reports d)) \<and>
     (\<forall>r \<in> set (db_reports d). case_ok r) \<and> threads_ordered d \<and>
     (\<forall>m \<in> set (db_messages d). msg_report m \<in> report_ids d) \<and>
     (\<forall>n \<in> set (db_notes d). note_report n \<in> report_ids d) \<and>
     distinct (map del_report (db_deletions d)) \<and> (\<forall>q \<in> set (db_deletions d). del_report q \<in> report_ids d) \<and>
     distinct (map (\<lambda>l. (lnk_a l, lnk_b l)) (db_links d)) \<and>
     (\<forall>l \<in> set (db_links d). lnk_a l < lnk_b l \<and> lnk_a l \<in> report_ids d \<and> lnk_b l \<in> report_ids d)"

text \<open>What the invariant looks at; the audit log, the accounts and the attachments are not part of it.\<close>

lemma db_inv_cong:
  assumes "db_reports d = db_reports d'" "db_messages d = db_messages d'" "db_notes d = db_notes d'"
    "db_deletions d = db_deletions d'" "db_links d = db_links d'"
  shows "db_inv d = db_inv d'"
  using assms threads_ordered_cong [OF assms(2)] by (simp add: db_inv_def report_ids_def)

lemma db_inv_audit [audit_simps]: "db_inv (audit_log e n u x r t g d) = db_inv d"
  by (rule db_inv_cong) (simp_all add: audit_simps)

lemma report_row_unique:
  assumes "db_inv d" "report_of d i = Some r" "x \<in> set (db_reports d)" "rep_id x = i"
  shows "x = r"
proof -
  have "inj_on rep_id (set (db_reports d))" using assms(1) by (simp add: db_inv_def distinct_map)
  moreover have "r \<in> set (db_reports d)" "rep_id r = i"
    using row_Some [of rep_id i "db_reports d" r] assms(2) by (simp_all add: report_of_def)
  ultimately show ?thesis using assms(3,4) by (simp add: inj_on_def)
qed

lemma db_inv_set_report:
  assumes inv: "db_inv d" and r: "report_of d i = Some r"
    and f: "rep_id (f r) = i" "rep_case_number (f r) = rep_case_number r" "case_ok r \<Longrightarrow> case_ok (f r)"
  shows "db_inv (set_report i f d)"
proof -
  have same: "x = r" if "x \<in> set (db_reports d)" "rep_id x = i" for x
    using report_row_unique [OF inv r that] .
  have key: "map rep_id (update_row rep_id i f (db_reports d)) = map rep_id (db_reports d)"
    "map rep_case_number (update_row rep_id i f (db_reports d)) = map rep_case_number (db_reports d)"
    using f(1,2) by (auto simp: update_row_def dest: same)
  have "\<forall>x \<in> set (update_row rep_id i f (db_reports d)). case_ok x"
  proof
    fix x assume "x \<in> set (update_row rep_id i f (db_reports d))"
    from set_update_row [OF this] same have "x = f r \<and> r \<in> set (db_reports d) \<or> x \<in> set (db_reports d)" by blast
    with inv f(3) show "case_ok x" by (auto simp: db_inv_def)
  qed
  moreover have "threads_ordered (set_report i f d) = threads_ordered d"
    by (rule threads_ordered_cong) (simp add: table_simps)
  moreover have "report_ids (set_report i f d) = report_ids d"
    by (simp add: report_ids_map table_simps key)
  ultimately show ?thesis
    using inv by (simp add: db_inv_def table_simps key)
qed

lemma case_ok_steps:
  "case_ok r \<Longrightarrow> case_ok (update_report_status e s r)"
  "case_ok r \<Longrightarrow> case_ok (assign_report a r)"
  "case_ok r \<Longrightarrow> acknowledge_report e r = Some r' \<Longrightarrow> case_ok r'"
  by (auto simp: case_ok_def update_report_status_def assign_report_def acknowledge_report_def Let_def
      split: if_splits option.splits)

lemma case_step_keeps_key:
  "rep_id (update_report_status e s r) = rep_id r" "rep_case_number (update_report_status e s r) = rep_case_number r"
  "rep_id (assign_report a r) = rep_id r" "rep_case_number (assign_report a r) = rep_case_number r"
  "acknowledge_report e r = Some r' \<Longrightarrow> rep_id r' = rep_id r \<and> rep_case_number r' = rep_case_number r"
  by (auto simp: update_report_status_def assign_report_def acknowledge_report_def Let_def
      split: if_splits option.splits)

lemma db_inv_purge: "db_inv d \<Longrightarrow> db_inv (purge_reports ids d)"
proof -
  assume inv: "db_inv d"
  have th: "thread (purge_reports ids d) i = (if i \<in> set ids then [] else thread d i)" for i
    by (auto simp: thread_def purge_reports_def filter_empty_conv intro!: filter_cong)
  have ids: "report_ids (purge_reports ids d) = report_ids d - set ids"
    by (auto simp: report_ids_def purge_reports_def)
  have "threads_ordered (purge_reports ids d)"
    using inv by (simp add: db_inv_def threads_ordered_def th)
  with inv ids show ?thesis
    by (auto simp: db_inv_def purge_reports_def distinct_map_filter)
qed

section \<open>The requests as one operation\<close>

text \<open>What a signed-in account may ask for on a case; \<open>perform\<close> is the database after a request that went through.\<close>

datatype case_act =
  View | Reveal string | Export | Export_identity string | Download uuid | Acknowledge | Change_status string
  | Reply string | Assign string | Note string | Link string | Unlink uuid
  | Request_deletion | Confirm_deletion | Cancel_deletion

definition committed :: "refusal + (response \<times> db) \<Rightarrow> db option" where
  "committed x = (case x of Inl _ \<Rightarrow> None | Inr (_, d) \<Rightarrow> Some d)"

definition perform :: "env \<Rightarrow> (string \<Rightarrow> string option) \<Rightarrow> redis \<Rightarrow> db \<Rightarrow> user \<Rightarrow> uuid \<Rightarrow> case_act \<Rightarrow> db option" where
  "perform e stored rd d u i act =
     (case act of
        View \<Rightarrow> committed (report_detail e d u i)
      | Reveal reason \<Rightarrow> committed (reveal_identity e d u i reason)
      | Export \<Rightarrow> committed (export_pdf e d u i)
      | Export_identity reason \<Rightarrow> committed (export_pdf_with_identity e d u i reason)
      | Download a \<Rightarrow> committed (admin_download_attachment e stored d u i a)
      | Acknowledge \<Rightarrow> committed (acknowledge_route e d u i)
      | Change_status s \<Rightarrow> committed (update_status e d u i s)
      | Reply t \<Rightarrow> (case admin_reply e d u i t of Inl _ \<Rightarrow> None | Inr (_, _, d') \<Rightarrow> Some d')
      | Assign a \<Rightarrow> committed (assign_route e d u i a)
      | Note t \<Rightarrow> committed (add_note_route e d u i t)
      | Link c \<Rightarrow> committed (link_report e d u i c)
      | Unlink l \<Rightarrow> committed (unlink_report e d u i l)
      | Request_deletion \<Rightarrow> committed (request_delete e d u i)
      | Confirm_deletion \<Rightarrow> (case confirm_delete e rd d u i of Inl _ \<Rightarrow> None | Inr (_, _, _, _, d') \<Rightarrow> Some d')
      | Cancel_deletion \<Rightarrow> committed (cancel_delete e d u i))"

lemma committed_Some: "committed x = Some d \<longleftrightarrow> (\<exists>p. x = Inr (p, d))"
  by (auto simp: committed_def split: sum.splits)

lemma get_authorized_report_Inr:
  "get_authorized_report cfg d i u = Inr r \<longleftrightarrow> report_of d i = Some r \<and> can_access_report cfg u r"
  by (auto simp: get_authorized_report_def split: option.splits)

lemmas request_simps = guard_simps committed_Some get_authorized_report_Inr

lemmas case_handlers = report_detail_def reveal_identity_def export_pdf_def export_pdf_with_identity_def
  admin_download_attachment_def acknowledge_route_def update_status_def admin_reply_def assign_route_def
  add_note_route_def link_report_def unlink_report_def request_delete_def confirm_delete_def cancel_delete_def

lemma report_of_id: "report_of d i = Some r \<Longrightarrow> rep_id r = i \<and> r \<in> set (db_reports d)"
  unfolding report_of_def by (drule row_Some) simp

text \<open>What both ways to an identity commit: a refused reason is a page view, an accepted one takes the case first.\<close>

definition claimed :: "env \<Rightarrow> db \<Rightarrow> user \<Rightarrow> report \<Rightarrow> db" where
  "claimed e d u r =
     (if rep_assigned r = None
      then audit_log e 1 u ''report.assigned'' (Some (rep_id r)) [(''from'', ''null''), (''to'', usr_username u)] None
             (set_report (rep_id r) (assign_report (Some u)) d)
      else d)"

definition revealed :: "env \<Rightarrow> db \<Rightarrow> user \<Rightarrow> uuid \<Rightarrow> string \<Rightarrow> db \<Rightarrow> bool" where
  "revealed e d u i reason d' \<longleftrightarrow>
     (\<exists>r. report_of d i = Some r \<and> can_access_report (env_cfg e) u r \<and> can_reveal_identity (env_cfg e) u r \<and>
        (case validated_reason reason of
           None \<Rightarrow> d' = audit_log e 1 u ''report.viewed'' (Some i) [] None d
         | Some valid \<Rightarrow> \<exists>via. d' = audit_log e 2 u ''report.identity_revealed'' (Some i)
               ((''reason'', encrypt (env_crypto e) (env_cfg e) valid) # via) None (claimed e d u r)))"

lemma reveal_gate_revealed:
  assumes "reveal_gate e d u i reason = Inr g"
    and "\<And>page. g = Inl page \<Longrightarrow> d' = snd page"
    and "\<And>r valid d1. g = Inr (r, valid, d1) \<Longrightarrow> \<exists>via. d' = audit_log e 2 u ''report.identity_revealed'' (Some (rep_id r))
           ((''reason'', encrypt (env_crypto e) (env_cfg e) valid) # via) None d1"
  shows "revealed e d u i reason d'"
proof -
  from assms(1) obtain r where r: "report_of d i = Some r" "can_access_report (env_cfg e) u r" "can_reveal_identity (env_cfg e) u r"
    by (auto simp: reveal_gate_def request_simps split: if_split_asm)
  have i: "rep_id r = i" using report_of_id [OF r(1)] by blast
  show ?thesis
  proof (cases "validated_reason reason")
    case None
    with assms(1,2) r i show ?thesis by (auto simp: reveal_gate_def request_simps revealed_def)
  next
    case (Some valid)
    then have "g = Inr (if rep_assigned r = None then assign_report (Some u) r else r, valid, claimed e d u r)"
      using assms(1) r by (auto simp: reveal_gate_def request_simps claimed_def split: if_split_asm)
    with assms(3) [OF this] r i Some show ?thesis by (simp add: revealed_def assign_report_def split: if_split_asm)
  qed
qed

lemma reveal_identity_Inr: "reveal_identity e d u i reason = Inr (x, d') \<Longrightarrow> revealed e d u i reason d'"
proof -
  assume h: "reveal_identity e d u i reason = Inr (x, d')"
  then obtain g where g: "reveal_gate e d u i reason = Inr g" by (auto simp: reveal_identity_def request_simps)
  then show ?thesis
    by (rule reveal_gate_revealed) (use h g in \<open>auto simp: reveal_identity_def\<close>)
qed

lemma export_pdf_with_identity_Inr: "export_pdf_with_identity e d u i reason = Inr (x, d') \<Longrightarrow> revealed e d u i reason d'"
proof -
  assume h: "export_pdf_with_identity e d u i reason = Inr (x, d')"
  then obtain g where g: "reveal_gate e d u i reason = Inr g" by (auto simp: export_pdf_with_identity_def request_simps)
  then show ?thesis
    by (rule reveal_gate_revealed) (use h g in \<open>auto simp: export_pdf_with_identity_def\<close>)
qed

text \<open>Every request but the two that reveal, taken apart by its definition.\<close>

lemma perform_plain:
  assumes "perform e stored rd d u i act = Some d'"
  shows "(\<exists>reason. revealed e d u i reason d') \<or> (\<forall>x. act \<noteq> Reveal x \<and> act \<noteq> Export_identity x)"
  using assms reveal_identity_Inr export_pdf_with_identity_Inr
  by (cases act) (auto simp: perform_def committed_Some, blast+)

section \<open>Nobody acts on a case unseen\<close>

lemma perform_access:
  assumes "perform e stored rd d u i act = Some d'"
  shows "\<exists>r. report_of d i = Some r \<and> can_access_report (env_cfg e) u r"
  using perform_plain [OF assms]
proof (elim disjE exE)
  assume "\<forall>x. act \<noteq> Reveal x \<and> act \<noteq> Export_identity x"
  with assms show ?thesis
    by (cases act)
      (auto simp: perform_def case_handlers request_simps split: prod.split_asm)
qed (auto simp: revealed_def)

text \<open>The last entry of the log after a request is its own: who, when, about which case.\<close>

definition own_entry :: "env \<Rightarrow> user \<Rightarrow> uuid \<Rightarrow> db \<Rightarrow> bool" where
  "own_entry e u i d \<longleftrightarrow>
     (\<exists>es x. db_audit d = es @ [x] \<and> aud_admin x = Some (usr_id u) \<and> aud_username x = usr_username u \<and>
        aud_at x = env_now e \<and> (aud_report x = Some i \<or> aud_report x = None \<and> report_of d i = None))"

lemma own_entry_audit_log: "r = Some i \<Longrightarrow> own_entry e u i (audit_log e n u x r t g d)"
  by (simp add: own_entry_def audit_log_def)

lemma own_entry_cong: "db_audit d' = db_audit d \<Longrightarrow> report_of d' i = report_of d i \<Longrightarrow> own_entry e u i d' = own_entry e u i d"
  by (simp add: own_entry_def)

lemma add_admin_message_audit:
  "add_admin_message e d r t n = Some (m, mail, d') \<Longrightarrow> db_audit d' = db_audit d"
  by (auto simp: add_admin_message_def Let_def table_simps split: option.splits if_splits)

lemma confirm_deletion_frame:
  assumes "confirm_deletion e d r q u = (keys, d')" "rep_id r = i"
  shows "own_entry e u i d'"
  using assms
  by (auto simp: confirm_deletion_def Let_def own_entry_def purge_reports_def audit_log_def report_of_def row_None)


lemma revealed_own_entry: "revealed e d u i reason d' \<Longrightarrow> own_entry e u i d'"
  by (auto simp: revealed_def own_entry_audit_log split: option.splits)

lemma confirm_delete_Inr:
  assumes "confirm_delete e rd d u i = Inr (x, keys, number, rd', d')"
  shows "\<exists>r q. usr_role u \<in> {Admin, Superadmin} \<and> report_of d i = Some r \<and> can_access_report (env_cfg e) u r \<and>
    get_active_deletion_request d (rep_id r) = Some q \<and> del_by q \<noteq> Some (usr_id u) \<and>
    \<not> one_made_the_other d (del_by q) (usr_id u) \<and> confirm_deletion e d r q u = (keys, d') \<and>
    number = rep_case_number r \<and> rd' = end_status_sessions (millis e) rd [i]"
proof -
  from assms obtain r q where "usr_role u \<in> {Admin, Superadmin}" "report_of d i = Some r" "can_access_report (env_cfg e) u r"
    "get_active_deletion_request d (rep_id r) = Some q" "del_by q \<noteq> Some (usr_id u)"
    "\<not> one_made_the_other d (del_by q) (usr_id u)"
    "(case confirm_deletion e d r q u of (keys, d') \<Rightarrow>
        (rep_case_number r, end_status_sessions (millis e) rd [i], keys, d')) = (number, rd', keys, d')"
    by (auto simp: confirm_delete_def request_simps case_prod_unfold)
  then show ?thesis by (auto split: prod.split_asm)
qed

lemma perform_own_entry:
  assumes "perform e stored rd d u i act = Some d'"
  shows "own_entry e u i d'"
  using perform_plain [OF assms]
proof (elim disjE exE)
  assume "\<forall>x. act \<noteq> Reveal x \<and> act \<noteq> Export_identity x"
  with assms show ?thesis
  proof (cases act)
    case (Reply t)
    with assms obtain r m mail where
      "add_admin_message e (audit_log e 1 u ''report.message_sent'' (Some i) [] None d) r (strip (lf t)) True = Some (m, mail, d')"
      by (auto simp: perform_def admin_reply_def text_field_def request_simps split: prod.split_asm)
    from add_admin_message_audit [OF this] own_entry_audit_log [of "Some i" i e u 1]
    show ?thesis unfolding own_entry_def by (simp add: audit_log_def)
  next
    case Confirm_deletion
    with assms obtain r q keys where "confirm_deletion e d r q u = (keys, d')" "report_of d i = Some r"
      by (auto simp: perform_def request_simps split: prod.split_asm dest!: confirm_delete_Inr)
    with confirm_deletion_frame report_of_id show ?thesis by blast
  qed (auto simp: perform_def case_handlers request_simps intro!: own_entry_audit_log dest: report_of_id
        split: prod.split_asm)
qed (rule revealed_own_entry)

section \<open>Every request keeps the tables whole\<close>

lemma db_inv_acknowledge:
  assumes "db_inv d" "report_of d i = Some r" "acknowledge_report e r = Some r'"
  shows "db_inv (set_report i (\<lambda>_. r') d)"
proof (rule db_inv_set_report [OF assms(1,2)])
  show "rep_id r' = i" "rep_case_number r' = rep_case_number r"
    using case_step_keeps_key(5) [OF assms(3)] report_of_id [OF assms(2)] by simp_all
  show "case_ok r \<Longrightarrow> case_ok r'" using case_ok_steps(3) [OF _ assms(3)] .
qed

lemma db_inv_status: "db_inv d \<Longrightarrow> report_of d i = Some r \<Longrightarrow> db_inv (set_report i (update_report_status e s) d)"
  and db_inv_assign: "db_inv d \<Longrightarrow> report_of d i = Some r \<Longrightarrow> db_inv (set_report i (assign_report a) d)"
  using report_of_id [of d i r]
  by (auto intro: db_inv_set_report simp: case_step_keeps_key case_ok_steps)

lemma db_inv_claimed: "db_inv d \<Longrightarrow> report_of d i = Some r \<Longrightarrow> db_inv (claimed e d u r)"
  using report_of_id [of d i r]
  by (auto simp: claimed_def audit_simps db_inv_assign)

lemma db_inv_revealed: "revealed e d u i reason d' \<Longrightarrow> db_inv d \<Longrightarrow> db_inv d'"
  by (auto simp: revealed_def audit_simps db_inv_claimed split: option.split_asm)

lemma db_inv_message:
  assumes "db_inv d" "msg_report m \<in> report_ids d" "msg_sent_at m = next_sent_at d (msg_report m) t"
  shows "db_inv (d\<lparr>db_messages := db_messages d @ [m]\<rparr>)"
  using assms threads_ordered_append [of d m t] by (auto simp: db_inv_def report_ids_def)

lemma report_ids_I: "report_of d i = Some r \<Longrightarrow> i \<in> report_ids d"
  using report_of_id [of d i r] by (auto simp: report_ids_def)

lemma db_inv_whistleblower_message:
  assumes "db_inv d" "report_of d i = Some r" "add_whistleblower_message e d r c = Some (m, d')"
  shows "db_inv d'"
  using assms report_ids_I [OF assms(2)] report_of_id [OF assms(2)]
  by (auto simp: add_whistleblower_message_def Let_def split: option.splits intro!: db_inv_message)

lemma db_inv_admin_message:
  assumes "db_inv d" "report_of d i = Some r" "add_admin_message e d r c n = Some (m, mail, d')"
  shows "db_inv d'"
proof -
  have i: "rep_id r = i" "i \<in> report_ids d" using report_of_id [OF assms(2)] report_ids_I [OF assms(2)] by auto
  define d1 where "d1 = (if rep_acknowledged_at r \<noteq> None \<and> rep_feedback_sent_at r = None
      then set_report (rep_id r) (\<lambda>x. x\<lparr>rep_feedback_sent_at := Some (msg_sent_at m)\<rparr>) d else d)"
  have m: "msg_report m = i" "msg_sent_at m = next_sent_at d i (env_now e)" "d' = d1\<lparr>db_messages := db_messages d1 @ [m]\<rparr>"
    using assms(3) i by (auto simp: add_admin_message_def Let_def d1_def split: option.splits)
  have "db_inv d1"
    using assms(1,2) i by (auto simp: d1_def case_ok_def intro!: db_inv_set_report)
  moreover have "report_ids d1 = report_ids d" "next_sent_at d1 i (env_now e) = next_sent_at d i (env_now e)"
    by (simp_all add: d1_def report_ids_map table_simps map_update_row next_sent_at_def thread_def del: set_map)
  ultimately show ?thesis using m i by (auto intro!: db_inv_message [where t = "env_now e"])
qed

lemma db_inv_notes:
  "db_inv d \<Longrightarrow> report_of d i = Some r \<Longrightarrow> add_note e d r u c = Some d' \<Longrightarrow> db_inv d'"
  using report_of_id [of d i r] report_ids_I [of d i r]
  by (auto simp: add_note_def db_inv_def report_ids_def threads_ordered_def thread_def split: option.splits)

lemma db_inv_request:
  assumes "db_inv d" "report_of d i = Some r" "request_deletion e d r u = Some d'"
  shows "db_inv d'"
proof -
  have "rep_id r \<notin> del_report ` set (db_deletions d)"
    using assms(3) by (auto simp: request_deletion_def get_active_deletion_request_def find_None_iff split: if_splits)
  with assms report_ids_I [OF assms(2)] report_of_id [OF assms(2)] show ?thesis
    by (auto simp: request_deletion_def db_inv_def report_ids_def threads_ordered_def thread_def split: if_splits)
qed

lemma db_inv_link:
  assumes "db_inv d" "report_of d i = Some ra" "rb \<in> set (db_reports d)" "rep_id rb \<noteq> rep_id ra"
    "get_link_between d (rep_id ra) (rep_id rb) = None"
  shows "db_inv (link_cases e d ra rb u)"
proof -
  obtain x y where n: "normalize_ids (rep_id ra) (rep_id rb) = (x, y)" by force
  have "x < y" "x \<in> report_ids d" "y \<in> report_ids d"
    using n assms(3,4) report_of_id [OF assms(2)] by (auto simp: normalize_ids_def report_ids_def split: if_splits)
  moreover have "(x, y) \<notin> (\<lambda>l. (lnk_a l, lnk_b l)) ` set (db_links d)"
    using assms(5) n by (auto simp: get_link_between_def find_None_iff)
  moreover have "threads_ordered (link_cases e d ra rb u) = threads_ordered d"
    by (rule threads_ordered_cong) (simp add: link_cases_def n)
  ultimately show ?thesis
    using assms(1) n by (simp add: link_cases_def db_inv_def report_ids_def)
qed

lemma distinct_map_delete: "distinct (map f rows) \<Longrightarrow> distinct (map f (delete_row k i rows))"
  by (simp add: delete_row_def distinct_map_filter)

lemma db_inv_unlink: "db_inv d \<Longrightarrow> db_inv (unlink_cases d l)"
  and db_inv_cancel: "db_inv d \<Longrightarrow> db_inv (cancel_deletion_request d q)"
  using threads_ordered_cong [of "unlink_cases d l" d] threads_ordered_cong [of "cancel_deletion_request d q" d]
  by (auto simp: unlink_cases_def cancel_deletion_request_def db_inv_def report_ids_def distinct_map_delete)

lemma db_inv_confirm: "db_inv d \<Longrightarrow> confirm_deletion e d r q u = (keys, d') \<Longrightarrow> db_inv d'"
proof -
  assume inv: "db_inv d" and c: "confirm_deletion e d r q u = (keys, d')"
  define f :: "deletion_request \<Rightarrow> deletion_request" where "f = (\<lambda>x. x\<lparr>del_confirmed_by := Some (usr_id u), del_confirmed_name := Some (usr_username u),
      del_confirmed_at := Some (env_now e)\<rparr>)"
  let ?d1 = "d\<lparr>db_deletions := update_row del_id (del_id q) f (db_deletions d)\<rparr>"
  have "map del_report (update_row del_id (del_id q) f (db_deletions d)) = map del_report (db_deletions d)"
    by (rule map_update_row) (simp add: f_def)
  moreover have "del_report x \<in> report_ids d" if "x \<in> set (update_row del_id (del_id q) f (db_deletions d))" for x
    using set_update_row [OF that] inv by (auto simp: f_def db_inv_def)
  moreover have "threads_ordered ?d1 = threads_ordered d" by (rule threads_ordered_cong) simp
  ultimately have "db_inv ?d1" using inv by (simp add: db_inv_def report_ids_def)
  with c show ?thesis by (auto simp: confirm_deletion_def Let_def f_def audit_simps intro: db_inv_purge)
qed

lemma db_inv_create:
  assumes "db_inv d" "create_report e drw receipt a d = Inr (r, pin, d')"
  shows "db_inv d'"
proof -
  from assms(2) obtain n m where c: "rep_case_number r = n" "n \<notin> rep_case_number ` set (db_reports d)"
    "rep_acknowledged_at r = None" "rep_status r = Received" "rep_closed_at r = None" "rep_feedback_sent_at r = None"
    "msg_report m = rep_id r" "report_of d (rep_id r) = None"
    "d' = d\<lparr>db_reports := db_reports d @ [r], db_messages := db_messages d @ [m]\<rparr>"
    by (rule create_report_Inr) (rule that, simp_all)
  have new: "rep_id r \<notin> report_ids d" using c(8) by (simp add: report_of_def row_None report_ids_def)
  have "thread d (rep_id r) = []"
    using assms(1) new by (auto simp: thread_def filter_empty_conv db_inv_def)
  then have "threads_ordered d'"
    using assms(1) c(7,9) by (auto simp: threads_ordered_def thread_def db_inv_def)
  moreover have "report_ids d' = insert (rep_id r) (report_ids d)" using c(9) by (auto simp: report_ids_def)
  moreover have "case_ok r" using c by (simp add: case_ok_def)
  ultimately show ?thesis
    using assms(1) c new by (auto simp: db_inv_def report_ids_def)
qed

lemma perform_db_inv:
  assumes "perform e stored rd d u i act = Some d'" "db_inv d"
  shows "db_inv d'"
  using perform_plain [OF assms(1)]
proof (elim disjE exE)
  assume plain: "\<forall>x. act \<noteq> Reveal x \<and> act \<noteq> Export_identity x"
  note parts = perform_def case_handlers request_simps audit_simps
  show ?thesis
  proof (cases act)
    case Acknowledge
    with assms show ?thesis by (auto simp: parts db_inv_acknowledge)
  next
    case (Change_status s)
    with assms show ?thesis by (auto simp: parts db_inv_status db_inv_assign)
  next
    case (Assign a)
    with assms show ?thesis by (auto simp: parts db_inv_status db_inv_assign)
  next
    case (Reply t)
    with assms obtain r m mail where
      "add_admin_message e (audit_log e 1 u ''report.message_sent'' (Some i) [] None d) r (strip (lf t)) True = Some (m, mail, d')"
      "report_of d i = Some r"
      by (auto simp: perform_def admin_reply_def text_field_def request_simps split: prod.split_asm)
    moreover define da where "da = audit_log e 1 u ''report.message_sent'' (Some i) [] None d"
    moreover have "db_inv da" "report_of da i = report_of d i"
      using assms(2) by (simp_all add: da_def audit_simps)
    ultimately show ?thesis by (metis db_inv_admin_message)
  next
    case (Note t)
    with assms show ?thesis by (auto simp: parts dest: db_inv_notes)
  next
    case (Link c)
    with assms show ?thesis
      by (auto simp: parts get_report_by_case_number_Some intro!: db_inv_link dest: get_report_by_case_number_Some)
  next
    case Request_deletion
    with assms show ?thesis by (auto simp: parts dest: db_inv_request)
  next
    case Confirm_deletion
    with assms show ?thesis
      by (auto simp: perform_def request_simps split: prod.split_asm dest!: confirm_delete_Inr intro: db_inv_confirm)
  qed (use assms plain in \<open>auto simp: parts db_inv_unlink db_inv_cancel\<close>)
qed (use assms(2) db_inv_revealed in blast)

section \<open>The life of the case tables\<close>

inductive case_step :: "db \<Rightarrow> db \<Rightarrow> bool" where
  filed: "create_report e drw receipt a d = Inr (r, pin, d') \<Longrightarrow> case_step d d'"
| reporter_wrote: "report_of d i = Some r \<Longrightarrow> add_whistleblower_message e d r c = Some (m, d') \<Longrightarrow> case_step d d'"
| staff_acted: "perform e stored rd d u i act = Some d' \<Longrightarrow> case_step d d'"
| expired: "report_of d i = Some r \<Longrightarrow> delete_report d r = (keys, d') \<Longrightarrow> case_step d d'"

definition no_cases :: "db \<Rightarrow> bool" where
  "no_cases d \<longleftrightarrow> db_reports d = [] \<and> db_messages d = [] \<and> db_notes d = [] \<and> db_deletions d = [] \<and> db_links d = []"

interpretation case_tables: invariant_system no_cases case_step db_inv
proof
  show "no_cases d \<Longrightarrow> db_inv d" for d
    by (simp add: no_cases_def db_inv_def report_ids_def threads_ordered_def thread_def)
  fix d d' assume inv: "db_inv d"
  assume "case_step d d'"
  then show "db_inv d'"
    using inv
    by cases (auto intro: db_inv_create db_inv_whistleblower_message perform_db_inv simp: delete_report_def db_inv_purge)
qed


text \<open>
  C2. No request shows a case or acts on it unless the account may see that case, and none goes through
  without an entry in the audit log naming the account, the time and the case - the entry of a
  deletion, which outlives the case, names none.
\<close>

theorem every_act_authorised_and_audited:
  assumes "perform e stored rd d u i act = Some d'"
  shows "(\<exists>r. report_of d i = Some r \<and> can_access_report (env_cfg e) u r) \<and>
    (\<exists>es x. db_audit d' = es @ [x] \<and> aud_admin x = Some (usr_id u) \<and> aud_username x = usr_username u \<and>
       aud_at x = env_now e \<and> (aud_report x = Some i \<or> aud_report x = None \<and> report_of d' i = None))"
  using perform_access [OF assms] perform_own_entry [OF assms] by (simp add: own_entry_def)


definition one_case :: db where
  "one_case = empty_db\<lparr>db_reports := [sample_report 10 None None], db_users := [sample_user 1 Admin None]\<rparr>"

theorem every_act_authorised_and_audited_witness:
  "\<exists>d' es x. perform toy_env (\<lambda>_. None) [] one_case (sample_user 1 Admin None) 10 (Change_status ''in_review'') = Some d' \<and>
     db_audit d' = es @ [x] \<and> aud_admin x = Some 1 \<and> report_of d' 10 \<noteq> None"
proof -
  obtain d' where d': "perform toy_env (\<lambda>_. None) [] one_case (sample_user 1 Admin None) 10 (Change_status ''in_review'') = Some d'"
    "report_of d' 10 \<noteq> None"
  proof -
    have "case perform toy_env (\<lambda>_. None) [] one_case (sample_user 1 Admin None) 10 (Change_status ''in_review'') of
        None \<Rightarrow> False | Some d' \<Rightarrow> report_of d' 10 \<noteq> None" by code_simp
    with that show ?thesis by (auto split: option.splits)
  qed
  from every_act_authorised_and_audited [OF d'(1)] d' show ?thesis by (auto simp: sample_user_def)
qed

end
