(* ===== verification/Four_Eyes.thy ===== *)
theory Four_Eyes
  imports Case_Lifecycle
begin

text \<open>
  The four-eyes deletion: what it takes to destroy a case, and what is left of it. The walk over the
  makers of an account is the reflexive-transitive closure of "was made by".
\<close>

section \<open>Who made whom\<close>

definition made_by :: "db \<Rightarrow> (uuid \<times> uuid) set" where
  "made_by d = {(c, p). \<exists>u. user_of d c = Some u \<and> usr_created_by u = Some p}"

lemma makers_subset: "set (makers d i seen) \<subseteq> set seen \<union> {x. \<exists>s. i = Some s \<and> (s, x) \<in> (made_by d)\<^sup>*}"
proof (induction d i seen rule: makers.induct)
  case (2 d i seen)
  have up: "(i, x) \<in> (made_by d)\<^sup>*" if "user_of d i = Some u" "usr_created_by u = Some p" "(p, x) \<in> (made_by d)\<^sup>*" for u p x
    using that by (intro converse_rtrancl_into_rtrancl [of i p]) (auto simp: made_by_def)
  show ?case
  proof (cases "i \<in> set seen \<or> user_of d i = None")
    case False
    then obtain u where u: "user_of d i = Some u" "i \<notin> set seen" by auto
    with 2 [OF u(2,1)] up show ?thesis by auto
  qed auto
qed simp

lemma makers_closed:
  assumes "\<forall>s \<in> set seen. \<forall>p. (s, p) \<in> made_by d \<longrightarrow> p \<in> set seen \<or> i = Some p"
  shows "set seen \<subseteq> set (makers d i seen) \<and> (\<forall>s. i = Some s \<longrightarrow> s \<in> set (makers d i seen)) \<and>
    (\<forall>s \<in> set (makers d i seen). \<forall>p. (s, p) \<in> made_by d \<longrightarrow> p \<in> set (makers d i seen))"
  using assms
proof (induction d i seen rule: makers.induct)
  case (2 d i seen)
  show ?case
  proof (cases "i \<in> set seen \<or> user_of d i = None")
    case True
    then have "makers d (Some i) seen = (if i \<in> set seen then seen else i # seen)" by auto
    with 2(2) True show ?thesis by (auto simp: made_by_def simp del: makers.simps)
  next
    case False
    then obtain u where u: "user_of d i = Some u" "i \<notin> set seen" by auto
    have "\<forall>s \<in> set (i # seen). \<forall>p. (s, p) \<in> made_by d \<longrightarrow> p \<in> set (i # seen) \<or> usr_created_by u = Some p"
      using 2(2) u by (auto simp: made_by_def)
    from 2(1) [OF u(2,1) this] u show ?thesis by auto
  qed
qed simp

lemma makers_eq: "set (makers d (Some i) []) = {x. (i, x) \<in> (made_by d)\<^sup>*}"
proof
  show "set (makers d (Some i) []) \<subseteq> {x. (i, x) \<in> (made_by d)\<^sup>*}" using makers_subset [of d "Some i" "[]"] by auto
  have c: "i \<in> set (makers d (Some i) [])"
    "\<And>s p. s \<in> set (makers d (Some i) []) \<Longrightarrow> (s, p) \<in> made_by d \<Longrightarrow> p \<in> set (makers d (Some i) [])"
    using makers_closed [of "[]" d "Some i"] by (auto simp del: makers.simps)
  have "x \<in> set (makers d (Some i) [])" if "(i, x) \<in> (made_by d)\<^sup>*" for x
    using that by (induction rule: rtrancl_induct) (use c in blast)+
  then show "{x. (i, x) \<in> (made_by d)\<^sup>*} \<subseteq> set (makers d (Some i) [])" by blast
qed

text \<open>
  The check of the code is the relation it means: one of the two accounts made the other, directly or
  through others, whatever cycles the table has.
\<close>

theorem one_made_the_other_iff:
  "one_made_the_other d a b \<longleftrightarrow>
     (\<exists>x. a = Some x \<and> ((b, x) \<in> (made_by d)\<^sup>* \<or> (x, b) \<in> (made_by d)\<^sup>*))"
  by (auto simp: one_made_the_other_def makers_eq simp del: makers.simps split: option.splits)

section \<open>What a confirmed deletion does\<close>

lemma purge_reports_of [table_simps]:
  "report_of (purge_reports ids d) j = (if j \<in> set ids then None else report_of d j)"
proof -
  have "row rep_id j (filter (\<lambda>r. rep_id r \<notin> set ids) rows) = (if j \<in> set ids then None else row rep_id j rows)" for rows
    by (induction rows) (auto simp: row_def)
  from this [of "db_reports d"] show ?thesis by (simp add: report_of_def purge_reports_def)
qed

lemma end_status_sessions_done:
  assumes "i \<in> set ids" "starts_with STATUS_SESSION_PREFIX k"
  shows "kv_get now (end_status_sessions now r ids) k \<noteq> Some (Ref i)"
  using assms
  by (auto simp: end_status_sessions_def kv_get_del_all kv_keys_iff kv_exists_get starts_with_def split: if_splits)


section \<open>Concrete deletions\<close>

definition pending :: "uuid \<Rightarrow> uuid \<Rightarrow> deletion_request" where
  "pending i by = \<lparr>del_id = 50, del_report = i, del_by = Some by, del_by_name = ''r'', del_at = 0,
     del_confirmed_by = None, del_confirmed_name = None, del_confirmed_at = None\<rparr>"

definition two_admins :: "uuid option \<Rightarrow> uuid option \<Rightarrow> db" where
  "two_admins maker1 maker2 = empty_db\<lparr>db_reports := [sample_report 10 None None],
     db_deletions := [pending 10 1],
     db_users := [sample_user 1 Admin None\<lparr>usr_created_by := maker1\<rparr>, sample_user 2 Admin None\<lparr>usr_created_by := maker2\<rparr>,
                  sample_user 3 Superadmin None]\<rparr>"


text \<open>
  Two accounts that a third one made count as two people: one requests, the other confirms, though
  their maker chose both first passwords. (An account and one it made do not.)
\<close>

theorem siblings_are_two_pairs_of_eyes:
  "\<not> isl (confirm_delete toy_env [] (two_admins (Some 3) (Some 3)) (sample_user 2 Admin None) 10) \<and>
   confirm_delete toy_env [] (two_admins None (Some 1)) (sample_user 2 Admin None) 10 = Inl (Status 409)"
  by code_simp

end
