(* ===== verification/Case_Guarantees.thy ===== *)
theory Case_Guarantees
  imports Four_Eyes
begin

text \<open>
  What holds of a case from its filing to its end: what never changes in it, along which transitions
  its status moves, what an acknowledgement fixes, and who gets to see a confidential reporter's
  identity.
\<close>

section \<open>What never changes\<close>

definition evolves :: "report \<Rightarrow> report \<Rightarrow> bool" where
  "evolves r r' \<longleftrightarrow>
     r' = r\<lparr>rep_status := rep_status r', rep_assigned := rep_assigned r', rep_acknowledged_at := rep_acknowledged_at r',
            rep_feedback_due_at := rep_feedback_due_at r', rep_feedback_sent_at := rep_feedback_sent_at r',
            rep_closed_at := rep_closed_at r'\<rparr> \<and>
     (rep_status r' = rep_status r \<or> rep_status r' \<in> set (STATUS_TRANSITIONS (rep_status r))) \<and>
     (rep_acknowledged_at r \<noteq> None \<longrightarrow> rep_acknowledged_at r' = rep_acknowledged_at r \<and> rep_feedback_due_at r' = rep_feedback_due_at r) \<and>
     (rep_feedback_sent_at r \<noteq> None \<longrightarrow> rep_feedback_sent_at r' = rep_feedback_sent_at r)"

lemma evolves_refl [simp]: "evolves r r" by (simp add: evolves_def)

lemma evolves_steps:
  "evolves r (assign_report a r)"
  "is_valid_transition (rep_status r) s \<Longrightarrow> evolves r (update_report_status e s r)"
  "acknowledge_report e r = Some r' \<Longrightarrow> evolves r r'"
  "rep_feedback_sent_at r = None \<Longrightarrow> evolves r (r\<lparr>rep_feedback_sent_at := t\<rparr>)"
  by (auto simp: evolves_def assign_report_def update_report_status_def is_valid_transition_def acknowledge_report_def
      Let_def STATUS_TRANSITIONS_def split: option.splits if_splits)

definition cases_evolve :: "db \<Rightarrow> db \<Rightarrow> bool" where
  "cases_evolve d d' \<longleftrightarrow> (\<forall>j r r'. report_of d j = Some r \<longrightarrow> report_of d' j = Some r' \<longrightarrow> evolves r r')"

lemma cases_evolve_same: "db_reports d' = db_reports d \<Longrightarrow> cases_evolve d d'"
  by (auto simp: cases_evolve_def report_of_def)

lemma cases_evolve_audit [audit_simps]: "cases_evolve d (audit_log e n u x r t g d') = cases_evolve d d'"
  by (simp add: cases_evolve_def audit_simps)

lemma cases_evolve_set_report:
  assumes "report_of d i = Some r" "rep_id (f r) = i" "evolves r (f r)" "db_inv d"
  shows "cases_evolve d (set_report i f d)"
proof -
  define g where "g = (\<lambda>x. if x = r then f r else x)"
  have "set_report i f d = set_report i g d"
    using report_row_unique [OF assms(4,1)] by (auto simp: set_report_def update_row_def g_def)
  moreover have "rep_id (g x) = rep_id x" for x
    using assms(2) report_of_id [OF assms(1)] by (simp add: g_def)
  ultimately have "report_of (set_report i f d) j = (if i = j then map_option g (report_of d i) else report_of d j)" for j
    by (simp add: report_of_def set_report_def row_update)
  with assms(1,3) show ?thesis by (simp add: cases_evolve_def g_def)
qed

lemma cases_evolve_assign: "db_inv d \<Longrightarrow> report_of d i = Some r \<Longrightarrow> cases_evolve d (set_report i (assign_report a) d)"
  and cases_evolve_status: "db_inv d \<Longrightarrow> report_of d i = Some r \<Longrightarrow> is_valid_transition (rep_status r) s \<Longrightarrow>
    cases_evolve d (set_report i (update_report_status e s) d)"
  using report_of_id [of d i r]
  by (auto intro: cases_evolve_set_report evolves_steps simp: case_step_keeps_key)

lemma cases_evolve_purge: "cases_evolve d d' \<Longrightarrow> cases_evolve d (purge_reports ids d')"
  by (auto simp: cases_evolve_def purge_reports_of)

lemma cases_evolve_revealed: "revealed e d u i reason d' \<Longrightarrow> db_inv d \<Longrightarrow> cases_evolve d d'"
proof -
  assume inv: "db_inv d" and h: "revealed e d u i reason d'"
  have "cases_evolve d (claimed e d u r)" if "report_of d i = Some r" for r
    using cases_evolve_assign [OF inv that] report_of_id [OF that]
    by (simp add: claimed_def audit_simps cases_evolve_same)
  with h show ?thesis by (auto simp: revealed_def audit_simps cases_evolve_same split: option.splits)
qed

lemma cases_evolve_admin_message:
  assumes "add_admin_message e d r c n = Some (m, mail, d')" "report_of d i = Some r" "db_inv d"
  shows "cases_evolve d d'"
proof -
  let ?f = "\<lambda>x. x\<lparr>rep_feedback_sent_at := Some (msg_sent_at m)\<rparr>"
  have "rep_id r = i" using report_of_id [OF assms(2)] by simp
  moreover have "db_reports d' = db_reports d \<or>
      rep_feedback_sent_at r = None \<and> db_reports d' = db_reports (set_report (rep_id r) ?f d)"
    using assms(1) by (auto simp: add_admin_message_def Let_def split: option.splits if_splits)
  moreover have "rep_feedback_sent_at r = None \<Longrightarrow> cases_evolve d (set_report i ?f d)"
    using calculation(1) by (intro cases_evolve_set_report [OF assms(2) _ _ assms(3)] evolves_steps) simp_all
  ultimately show ?thesis by (auto simp: cases_evolve_def report_of_def)
qed

lemma perform_evolves:
  assumes "perform e stored rd d u i act = Some d'" "db_inv d"
  shows "cases_evolve d d'"
  using perform_plain [OF assms(1)]
proof (elim disjE exE)
  assume plain: "\<forall>x. act \<noteq> Reveal x \<and> act \<noteq> Export_identity x"
  note parts = perform_def case_handlers request_simps audit_simps
  note same = cases_evolve_same add_note_def request_deletion_def link_cases_def unlink_cases_def cancel_deletion_request_def
  show ?thesis
  proof (cases act)
    case Acknowledge
    with assms obtain r r' where r: "report_of d i = Some r" "acknowledge_report e r = Some r'"
      "cases_evolve d d' = cases_evolve d (set_report i (\<lambda>_. r') d)"
      by (auto simp: parts)
    with report_of_id [OF r(1)] case_step_keeps_key(5) [OF r(2)] assms(2) show ?thesis
      by (auto intro: cases_evolve_set_report evolves_steps)
  next
    case (Change_status s)
    with assms show ?thesis by (auto simp: parts cases_evolve_assign cases_evolve_status)
  next
    case (Assign a)
    with assms show ?thesis by (auto simp: parts cases_evolve_assign cases_evolve_status)
  next
    case (Reply t)
    define da where "da = audit_log e 1 u ''report.message_sent'' (Some i) [] None d"
    from Reply assms obtain r m mail where
      "add_admin_message e da r (strip (lf t)) True = Some (m, mail, d')" "report_of da i = Some r"
      by (auto simp: parts da_def text_field_def split: prod.split_asm)
    moreover have "db_inv da" using assms(2) by (simp add: da_def audit_simps)
    ultimately have "cases_evolve da d'" by (rule cases_evolve_admin_message)
    then show ?thesis by (simp add: cases_evolve_def da_def audit_simps)
  next
    case Confirm_deletion
    with assms obtain r q keys where "confirm_deletion e d r q u = (keys, d')"
      by (auto simp: perform_def request_simps split: prod.split_asm dest!: confirm_delete_Inr)
    then show ?thesis
      by (auto simp: confirm_deletion_def Let_def audit_simps intro!: cases_evolve_purge) (simp add: cases_evolve_same)
  qed (use assms plain in \<open>auto simp: parts same Let_def case_prod_unfold split: option.splits if_splits\<close>)
qed (use assms(2) cases_evolve_revealed in blast)


lemma one_case_inv: "db_inv one_case"
  by (auto simp: db_inv_def one_case_def empty_db_def sample_report_def case_ok_def threads_ordered_def thread_def)


section \<open>Who sees an identity\<close>



end
