(* ===== verification/Segments.thy ===== *)
theory Segments
  imports Prelude
begin

text \<open>
  A container format as a run of segments. \<open>segments nxt xs\<close> cuts \<open>xs\<close> into segments as long as
  \<open>nxt\<close> gives the length of the first one, and returns what is left. The locale states what a
  format promises: a segment fits, and its length can be read off the segment itself whatever
  follows it (as long as what follows is a proper start). The client lemma is the round trip that
  every metadata stripper rests on: dropping segments and reading the result again gives exactly
  the segments that were kept.
\<close>

function segments :: "('a list \<Rightarrow> nat option) \<Rightarrow> 'a list \<Rightarrow> 'a list list \<times> 'a list" where
  "segments nxt xs =
     (case nxt xs of
        None \<Rightarrow> ([], xs)
      | Some n \<Rightarrow>
          (if 0 < n \<and> n \<le> length xs
           then (let (ss, rest) = segments nxt (drop n xs) in (take n xs # ss, rest))
           else ([], xs)))"
  by pat_completeness auto
termination
  by (relation "measure (\<lambda>(nxt, xs). length xs)") auto

declare segments.simps [simp del]

lemma segments_None: "nxt xs = None \<Longrightarrow> segments nxt xs = ([], xs)"
  by (simp add: segments.simps)

lemma segments_concat_eq: "segments nxt xs = (ss, rest) \<Longrightarrow> concat ss @ rest = xs"
proof (induction nxt xs arbitrary: ss rest rule: segments.induct)
  case (1 nxt xs)
  show ?case
  proof (cases "\<exists>n. nxt xs = Some n \<and> 0 < n \<and> n \<le> length xs")
    case True
    then obtain n where n: "nxt xs = Some n" "0 < n" "n \<le> length xs" by blast
    obtain ts r where t: "segments nxt (drop n xs) = (ts, r)" by fastforce
    from "1.IH" [OF n(1) conjI [OF n(2,3)] t] "1.prems" n t show ?thesis
      by (auto simp: segments.simps [of nxt xs])
  next
    case False
    with "1.prems" show ?thesis by (auto simp: segments.simps [of nxt xs] split: option.splits if_splits)
  qed
qed

locale segment_format =
  fixes nxt :: "'a list \<Rightarrow> nat option"
    and proper :: "'a list \<Rightarrow> bool"
  assumes next_fits: "nxt xs = Some n \<Longrightarrow> 0 < n \<and> n \<le> length xs"
    and next_stable: "nxt xs = Some n \<Longrightarrow> proper ys \<Longrightarrow> nxt (take n xs @ ys) = Some n"
begin

lemma segments_Some:
  assumes "nxt xs = Some n"
  shows "segments nxt xs = (take n xs # fst (segments nxt (drop n xs)), snd (segments nxt (drop n xs)))"
  using next_fits [OF assms] assms by (simp add: segments.simps [of nxt xs] split: prod.split)

lemma rest_stops: "nxt (snd (segments nxt xs)) = None"
proof (induction "length xs" arbitrary: xs rule: less_induct)
  case less
  show ?case
  proof (cases "nxt xs")
    case None
    then show ?thesis by (simp add: segments_None)
  next
    case (Some n)
    from next_fits [OF Some] have "length (drop n xs) < length xs" by auto
    from less [OF this] show ?thesis by (simp add: segments_Some [OF Some])
  qed
qed

text \<open>Every segment is a whole one: its own prefix of some input tells its length.\<close>

lemma segments_whole:
  "s \<in> set (fst (segments nxt xs)) \<Longrightarrow> \<exists>zs. nxt zs = Some (length s) \<and> s = take (length s) zs"
proof (induction "length xs" arbitrary: xs rule: less_induct)
  case less
  show ?case
  proof (cases "nxt xs")
    case None
    with less.prems show ?thesis by (simp add: segments_None)
  next
    case (Some n)
    note b = next_fits [OF Some]
    then have shorter: "length (drop n xs) < length xs" by auto
    from less.prems consider "s = take n xs" | "s \<in> set (fst (segments nxt (drop n xs)))"
      by (auto simp: segments_Some [OF Some])
    then show ?thesis
    proof cases
      case 1
      with b Some show ?thesis by (intro exI [of _ xs]) simp
    next
      case 2
      from less.hyps [OF shorter 2] show ?thesis .
    qed
  qed
qed

lemma proper_concat:
  assumes "\<forall>s \<in> set ss. \<forall>ys. proper (s @ ys)" "proper rest"
  shows "proper (concat ss @ rest)"
  using assms by (cases ss) simp_all

lemma segments_of_concat:
  assumes "\<forall>s \<in> set ss. \<exists>zs. nxt zs = Some (length s) \<and> s = take (length s) zs"
    and "\<forall>s \<in> set ss. \<forall>ys. proper (s @ ys)" "proper rest" "nxt rest = None"
  shows "segments nxt (concat ss @ rest) = (ss, rest)"
  using assms
proof (induction ss)
  case Nil
  then show ?case by (simp add: segments_None)
next
  case (Cons s ss)
  from Cons.prems(1) obtain zs where z: "nxt zs = Some (length s)" "s = take (length s) zs" by auto
  have "proper (concat ss @ rest)" using Cons.prems by (intro proper_concat) auto
  from next_stable [OF z(1) this] z(2) have "nxt (s @ concat ss @ rest) = Some (length s)" by simp
  moreover have "segments nxt (concat ss @ rest) = (ss, rest)" using Cons by auto
  ultimately show ?case by (simp add: segments_Some)
qed

theorem segments_filter:
  assumes "segments nxt xs = (ss, rest)" "proper rest'" "nxt rest' = None"
    and "\<forall>s \<in> set ss. keep s \<longrightarrow> (\<forall>ys. proper (s @ ys))"
  shows "segments nxt (concat (filter keep ss) @ rest') = (filter keep ss, rest')"
proof (rule segments_of_concat)
  show "\<forall>s \<in> set (filter keep ss). \<exists>zs. nxt zs = Some (length s) \<and> s = take (length s) zs"
  proof
    fix s assume "s \<in> set (filter keep ss)"
    then have "s \<in> set (fst (segments nxt xs))" using assms(1) by simp
    then show "\<exists>zs. nxt zs = Some (length s) \<and> s = take (length s) zs" by (rule segments_whole)
  qed
qed (use assms in auto)

end

end
