(* ===== verification/Media_Strip.thy ===== *)
theory Media_Strip
  imports Segments
begin

text \<open>
  Removal of identifying metadata from images (\<open>app/services/attachment.py\<close>): the PNG, WebP, JPEG
  and JPEG 2000 rewriters, byte for byte. The EXIF parser and the decoder of Pillow are arguments:
  \<open>get\<close> gives the orientation value Pillow reads from an EXIF block (1 when it has none). The loops
  are the code's index loops; each is then shown to cut the file into segments (theory
  \<open>Segments\<close>), keep some, and print them again.
\<close>

section \<open>Orientation\<close>

datatype strip_error = Metadata_error string | Parser_error

type_synonym exif_reader = "bytes \<Rightarrow> strip_error + int"

definition ORIENTATION :: nat where "ORIENTATION = 0x0112"

definition orientation :: "exif_reader \<Rightarrow> bytes \<Rightarrow> strip_error + nat" where
  "orientation get exif =
     (case get exif of Inl e \<Rightarrow> Inl e
      | Inr v \<Rightarrow> Inr (if 2 \<le> v \<and> v < 9 then nat v else 1))"

definition orientation_exif :: "nat \<Rightarrow> bytes" where
  "orientation_exif v =
     [0x4D, 0x4D, 0, 0x2A, 0, 0, 0, 8, 0, 1]
     @ nat_be 2 ORIENTATION @ nat_be 2 3 @ nat_be 4 1 @ nat_be 2 v @ nat_be 2 0 @ nat_be 4 0"

definition to_bytes :: "(nat \<Rightarrow> nat \<Rightarrow> bytes) \<Rightarrow> nat \<Rightarrow> nat \<Rightarrow> strip_error + bytes" where
  "to_bytes enc n k = (if k < 256 ^ n then Inr (enc n k) else Inl Parser_error)"

lemma length_orientation_exif [simp]: "length (orientation_exif v) = 26"
  by (simp add: orientation_exif_def)

text \<open>Pillow reads back the orientation from the block the code writes.\<close>

definition reads_orientation :: "exif_reader \<Rightarrow> bool" where
  "reads_orientation get \<longleftrightarrow>
     list_all (\<lambda>v. get (orientation_exif v) = Inr (int v)) [2, 3, 4, 5, 6, 7, 8]"

lemma orientation_range: "orientation get exif = Inr v \<Longrightarrow> v = 1 \<or> v \<in> set [2, 3, 4, 5, 6, 7, 8]"
  by (auto simp: orientation_def split: sum.splits if_splits)

lemma orientation_reads:
  assumes "reads_orientation get" "orientation get exif = Inr v" "v \<noteq> 1"
  shows "orientation get (orientation_exif v) = Inr v"
  using assms orientation_range [OF assms(2)]
  by (auto simp: reads_orientation_def orientation_def)

section \<open>PNG\<close>

definition PNG_KEEP :: "bytes list" where
  "PNG_KEEP = map bytes_of
     [''IHDR'', ''PLTE'', ''tRNS'', ''IDAT'', ''IEND'', ''acTL'', ''fcTL'', ''fdAT'',
      ''gAMA'', ''cHRM'', ''sRGB'', ''cICP'', ''sBIT'', ''bKGD'', ''pHYs'']"

definition eXIf :: bytes where "eXIf = bytes_of ''eXIf''"
definition IEND :: bytes where "IEND = bytes_of ''IEND''"

definition png_exif_chunk :: "nat \<Rightarrow> bytes" where
  "png_exif_chunk v =
     (let exif = eXIf @ orientation_exif v
      in nat_be 4 (length exif - 4) @ exif @ nat_be 4 (crc32 exif))"

function strip_png_loop ::
  "exif_reader \<Rightarrow> bytes \<Rightarrow> bytes \<Rightarrow> nat \<Rightarrow> nat \<Rightarrow> strip_error + bytes" where
  "strip_png_loop get data out i ori =
     (let len = be_nat (pyslice data i (i + 4));
          kind = pyslice data (i + 4) (i + 8);
          fin = i + 12 + len
      in if fin > length data then Inl (Metadata_error ''truncated PNG'')
         else if kind = eXIf then
           (case orientation get (pyslice data (i + 8) (fin - 4)) of
              Inl e \<Rightarrow> Inl e
            | Inr v \<Rightarrow> strip_png_loop get data out fin v)
         else if kind = IEND then
           Inr ((if ori \<noteq> 1 then out @ png_exif_chunk ori else out) @ pyslice data i fin)
         else if kind \<in> set PNG_KEEP then strip_png_loop get data (out @ pyslice data i fin) fin ori
         else strip_png_loop get data out fin ori)"
  by pat_completeness auto
termination
  by (relation "measure (\<lambda>(get, data, out, i, ori). length data - i)") auto

declare strip_png_loop.simps [simp del]

definition strip_png :: "exif_reader \<Rightarrow> bytes \<Rightarrow> strip_error + bytes" where
  "strip_png get data = strip_png_loop get data (take 8 data) 8 1"

subsection \<open>PNG as segments\<close>

definition png_size :: "bytes \<Rightarrow> nat" where
  "png_size xs = 12 + be_nat (take 4 xs)"

definition png_kind :: "bytes \<Rightarrow> bytes" where
  "png_kind xs = pyslice xs 4 8"

definition png_next :: "bytes \<Rightarrow> nat option" where
  "png_next xs = (if png_size xs \<le> length xs \<and> png_kind xs \<noteq> IEND then Some (png_size xs) else None)"

definition png_kept :: "bytes \<Rightarrow> bool" where
  "png_kept c \<longleftrightarrow> png_kind c \<in> set PNG_KEEP"

definition png_chunks :: "bytes \<Rightarrow> bytes list" where
  "png_chunks data = fst (segments png_next (drop 8 data))"

fun png_orientation :: "exif_reader \<Rightarrow> nat \<Rightarrow> bytes list \<Rightarrow> strip_error + nat" where
  "png_orientation get ori [] = Inr ori"
| "png_orientation get ori (c # cs) =
     (if png_kind c = eXIf
      then (case orientation get (pyslice c 8 (length c - 4)) of
              Inl e \<Rightarrow> Inl e | Inr v \<Rightarrow> png_orientation get v cs)
      else png_orientation get ori cs)"

definition exif_chunks :: "nat \<Rightarrow> bytes list" where
  "exif_chunks v = (if v \<noteq> 1 then [png_exif_chunk v] else [])"

lemma eXIf_not_kept: "eXIf \<notin> set PNG_KEEP" and IEND_not_eXIf: "IEND \<noteq> eXIf"
  and length_eXIf: "length eXIf = 4"
  by code_simp+

lemma png_size_take:
  assumes "12 \<le> n" "n \<le> length xs"
  shows "png_size (take n xs @ ys) = png_size xs" "png_kind (take n xs @ ys) = png_kind xs"
  using assms by (simp_all add: png_size_def png_kind_def min_def)

lemma png_size_ge: "12 \<le> png_size xs"
  by (simp add: png_size_def)

interpretation png: segment_format png_next "\<lambda>_. True"
proof
  fix xs ys :: bytes and n
  assume n: "png_next xs = Some n"
  then have b: "n = png_size xs" "n \<le> length xs" "png_kind xs \<noteq> IEND"
    by (auto simp: png_next_def split: if_splits)
  have ge: "12 \<le> n" using b(1) png_size_ge [of xs] by simp
  show "0 < n \<and> n \<le> length xs" using ge b(2) by auto
  show "png_next (take n xs @ ys) = Some n"
    using b png_size_take [OF ge b(2), of ys] by (simp add: png_next_def min_def)
qed

lemma png_chunk_whole:
  assumes "c \<in> set (fst (segments png_next xs))"
  shows "png_size c = length c" "png_kind c \<noteq> IEND" "12 \<le> length c"
proof -
  from png.segments_whole [OF assms] obtain zs
    where z: "png_next zs = Some (length c)" "c = take (length c) zs" by blast
  then have b: "length c = png_size zs" "length c \<le> length zs" "png_kind zs \<noteq> IEND"
    by (auto simp: png_next_def split: if_splits)
  have ge: "12 \<le> length c" using b(1) png_size_ge [of zs] by simp
  have "png_size c = png_size zs" "png_kind c = png_kind zs"
    using png_size_take [OF ge b(2), of "[]"] z(2) by simp_all
  with b ge show "png_size c = length c" "png_kind c \<noteq> IEND" "12 \<le> length c" by simp_all
qed

definition png_print :: "bytes \<Rightarrow> bytes list \<times> bytes \<Rightarrow> nat \<Rightarrow> strip_error + bytes" where
  "png_print out parsed v =
     (case parsed of (cs, rest) \<Rightarrow>
        if png_size rest \<le> length rest
        then Inr (out @ concat (filter png_kept cs @ exif_chunks v) @ take (png_size rest) rest)
        else Inl (Metadata_error ''truncated PNG''))"

text \<open>The loop cuts, filters and prints.\<close>

lemma strip_png_loop_segments:
  "strip_png_loop get data out i ori =
     (case png_orientation get ori (fst (segments png_next (drop i data))) of
        Inl e \<Rightarrow> Inl e
      | Inr v \<Rightarrow> png_print out (segments png_next (drop i data)) v)"
proof (induction get data out i ori rule: strip_png_loop.induct)
  case (1 get data out i ori)
  let ?xs = "drop i data"
  have size: "png_size ?xs = 12 + be_nat (pyslice data i (i + 4))"
    and kind: "png_kind ?xs = pyslice data (i + 4) (i + 8)"
    by (simp_all add: png_size_def png_kind_def slice_shift take_drop_slice)
  have chunk: "take (png_size ?xs) ?xs = pyslice data i (i + png_size ?xs)"
    by (simp add: pyslice_def)
  have sliced: "pyslice data (i + 8) (i + png_size ?xs - 4) = pyslice (take (png_size ?xs) ?xs) 8 (png_size ?xs - 4)"
    using png_size_ge [of ?xs] by (simp add: slice_shift)
  show ?case
  proof (cases "i + png_size ?xs \<le> length data")
    case False
    then have n: "\<not> png_size ?xs \<le> length ?xs" using png_size_ge [of ?xs] by auto
    then have "png_next ?xs = None" by (simp add: png_next_def)
    with n False show ?thesis
      by (simp add: strip_png_loop.simps [of _ _ _ i] size segments_None png_print_def)
  next
    case fits: True
    then have n: "png_size ?xs \<le> length ?xs" by auto
    show ?thesis
    proof (cases "png_kind ?xs = IEND")
      case True
      then have "png_next ?xs = None" by (simp add: png_next_def)
      moreover note IEND_not_eXIf
      ultimately show ?thesis
        using n fits True chunk
        by (simp add: strip_png_loop.simps [of _ _ _ i] size kind segments_None png_print_def exif_chunks_def
              add.assoc)
    next
      case False
      then have step: "png_next ?xs = Some (png_size ?xs)" using n by (simp add: png_next_def)
      have k: "png_kind (take (png_size ?xs) ?xs) = png_kind ?xs"
        using png_size_take(2) [OF png_size_ge n, of "[]"] by simp
      note exif_dropped = eXIf_not_kept
      note unf = strip_png_loop.simps [of _ _ _ i] size [symmetric] kind [symmetric] png.segments_Some [OF step]
      have fin: "i + 12 + be_nat (pyslice data i (i + 4)) = i + png_size ?xs" by (simp add: size)
      note IH = "1.IH" [OF refl refl refl, unfolded fin kind [symmetric]]
      show ?thesis
      proof (cases "png_kind ?xs = eXIf")
        case True
        show ?thesis
          using fits True step k sliced exif_dropped IH(1) [OF _ True]
          by (auto simp: strip_png_loop.simps [of _ _ _ i] fin kind [symmetric] png.segments_Some [OF step]
              Let_def png_print_def png_kept_def add.commute split: sum.split prod.split)
      next
        case other: False
        show ?thesis
          using fits False other step k chunk IH(2,3) [OF _ other False]
          by (auto simp: strip_png_loop.simps [of _ _ _ i] fin kind [symmetric] png.segments_Some [OF step]
              Let_def png_print_def png_kept_def add.commute split: sum.split prod.split)
      qed
    qed
  qed
qed

definition png_tail :: "bytes \<Rightarrow> bytes" where
  "png_tail data = snd (segments png_next (drop 8 data))"

lemma strip_png_eq:
  "strip_png get data =
     (case png_orientation get 1 (png_chunks data) of
        Inl e \<Rightarrow> Inl e
      | Inr v \<Rightarrow> png_print (take 8 data) (png_chunks data, png_tail data) v)"
  unfolding strip_png_def strip_png_loop_segments png_chunks_def png_tail_def prod.collapse ..

lemma png_exif_chunk_whole:
  "png_next (png_exif_chunk v) = Some (length (png_exif_chunk v))" "png_kind (png_exif_chunk v) = eXIf"
  "pyslice (png_exif_chunk v) 8 (length (png_exif_chunk v) - 4) = orientation_exif v"
proof -
  let ?x = "nat_be 4 26" and ?c = "nat_be 4 (crc32 (eXIf @ orientation_exif v))"
  have eq: "png_exif_chunk v = ?x @ eXIf @ orientation_exif v @ ?c"
    by (simp add: png_exif_chunk_def eXIf_def bytes_of_def)
  note l = length_eXIf
  show k: "png_kind (png_exif_chunk v) = eXIf" by (simp add: eq png_kind_def pyslice_def l)
  have "be_nat ?x = 26" by (rule be_nat_nat_be) simp
  then have "png_size (png_exif_chunk v) = length (png_exif_chunk v)" by (simp add: eq png_size_def l)
  with k IEND_not_eXIf show "png_next (png_exif_chunk v) = Some (length (png_exif_chunk v))"
    by (simp add: png_next_def)
  show "pyslice (png_exif_chunk v) 8 (length (png_exif_chunk v) - 4) = orientation_exif v"
    by (simp add: eq pyslice_def l)
qed

lemma png_orientation_kept:
  assumes "\<forall>c \<in> set cs. png_kind c \<noteq> eXIf"
  shows "png_orientation get ori (cs @ ds) = png_orientation get ori ds"
  using assms by (induction cs) auto

lemma png_orientation_range:
  "png_orientation get ori cs = Inr v \<Longrightarrow> v = ori \<or> (\<exists>exif. orientation get exif = Inr v)"
  by (induction cs arbitrary: ori) (auto split: if_splits sum.splits)

lemma png_orientation_exif_chunks:
  assumes "reads_orientation get" "png_orientation get 1 cs = Inr v"
  shows "png_orientation get 1 (exif_chunks v) = Inr v"
  using assms png_orientation_range [OF assms(2)]
  by (auto simp: exif_chunks_def png_exif_chunk_whole orientation_reads)

lemma png_tail_IEND:
  assumes "png_size (png_tail data) \<le> length (png_tail data)"
  shows "png_kind (png_tail data) = IEND"
  using png.rest_stops [of "drop 8 data"] assms by (auto simp: png_tail_def png_next_def split: if_splits)

lemma strip_png_Inr:
  assumes "strip_png get data = Inr out"
  obtains v where "png_orientation get 1 (png_chunks data) = Inr v"
    "png_size (png_tail data) \<le> length (png_tail data)"
    "out = take 8 data @ concat (filter png_kept (png_chunks data) @ exif_chunks v)
       @ take (png_size (png_tail data)) (png_tail data)"
    "length (take 8 data) = 8"
proof -
  obtain v where v: "png_orientation get 1 (png_chunks data) = Inr v"
    "png_size (png_tail data) \<le> length (png_tail data)"
    "out = take 8 data @ concat (filter png_kept (png_chunks data) @ exif_chunks v)
       @ take (png_size (png_tail data)) (png_tail data)"
    using assms by (auto simp: strip_png_eq png_print_def split: sum.splits if_splits)
  have "8 \<le> length data"
  proof (rule ccontr)
    assume "\<not> 8 \<le> length data"
    then have "drop 8 data = []" by simp
    then have "png_tail data = []" by (simp add: png_tail_def segments_None png_next_def png_size_def)
    with v(2) show False by (simp add: png_size_def)
  qed
  with v show ?thesis by (intro that) simp_all
qed

lemma png_chunks_of_print:
  assumes "length pre = 8" "png_size tail = length tail" "png_kind tail = IEND"
    and "\<forall>c \<in> set cs. \<exists>zs. png_next zs = Some (length c) \<and> c = take (length c) zs"
  shows "png_chunks (pre @ concat cs @ tail) = cs" "png_tail (pre @ concat cs @ tail) = tail"
proof -
  have "png_next tail = None" using assms by (simp add: png_next_def)
  then have "segments png_next (concat cs @ tail) = (cs, tail)"
    using assms by (intro png.segments_of_concat) simp_all
  then show "png_chunks (pre @ concat cs @ tail) = cs" "png_tail (pre @ concat cs @ tail) = tail"
    using assms(1) by (simp_all add: png_chunks_def png_tail_def)
qed

lemma png_tail_take:
  assumes "png_size (png_tail data) \<le> length (png_tail data)"
  shows "png_size (take (png_size (png_tail data)) (png_tail data)) = png_size (png_tail data)"
    "png_kind (take (png_size (png_tail data)) (png_tail data)) = IEND"
  using png_size_take [OF png_size_ge assms, of "[]"] png_tail_IEND [OF assms] by simp_all

text \<open>
  A cleaned PNG holds the pixel chunks of the original, unchanged and in order, at most one fresh
  orientation chunk after them, its IEND chunk, and nothing after that.
\<close>

lemma strip_png_chunks:
  assumes "strip_png get data = Inr out"
  shows "\<exists>v. png_orientation get 1 (png_chunks data) = Inr v \<and> take 8 out = take 8 data \<and>
    png_chunks out = filter png_kept (png_chunks data) @ exif_chunks v \<and>
    png_kind (png_tail out) = IEND \<and> length (png_tail out) = png_size (png_tail out)"
proof -
  from assms obtain v where v: "png_orientation get 1 (png_chunks data) = Inr v"
    "png_size (png_tail data) \<le> length (png_tail data)"
    "out = take 8 data @ concat (filter png_kept (png_chunks data) @ exif_chunks v)
       @ take (png_size (png_tail data)) (png_tail data)" "length (take 8 data) = 8"
    by (rule strip_png_Inr)
  have whole: "\<exists>zs. png_next zs = Some (length c) \<and> c = take (length c) zs"
    if "c \<in> set (filter png_kept (png_chunks data) @ exif_chunks v)" for c
    using that png.segments_whole [of c "drop 8 data"] png_exif_chunk_whole(1) [of v]
    by (auto simp: png_chunks_def exif_chunks_def split: if_splits)
  have len: "png_size (take (png_size (png_tail data)) (png_tail data)) =
      length (take (png_size (png_tail data)) (png_tail data))"
    using png_tail_take(1) [OF v(2)] v(2) by simp
  note parsed = png_chunks_of_print [OF v(4) len png_tail_take(2) [OF v(2)]]
  show ?thesis
    using v(1,4) parsed [of "filter png_kept (png_chunks data) @ exif_chunks v"] whole len png_tail_take(2) [OF v(2)]
    unfolding v(3) [symmetric] by (intro exI [of _ v]) (auto simp: v(3))
qed

lemma strip_png_idem:
  assumes "reads_orientation get" "strip_png get data = Inr out"
  shows "strip_png get out = Inr out"
proof -
  from strip_png_chunks [OF assms(2)] obtain v where v: "png_orientation get 1 (png_chunks data) = Inr v"
    "take 8 out = take 8 data" "png_chunks out = filter png_kept (png_chunks data) @ exif_chunks v"
    "png_kind (png_tail out) = IEND" "length (png_tail out) = png_size (png_tail out)" by blast
  have "\<not> png_kept c" if "c \<in> set (exif_chunks v)" for c
    using that png_exif_chunk_whole(2) [of v] by (auto simp: exif_chunks_def png_kept_def eXIf_not_kept split: if_splits)
  moreover have "png_kind c \<noteq> eXIf" if "png_kept c" for c
    using that eXIf_not_kept by (auto simp: png_kept_def)
  ultimately have "filter png_kept (png_chunks out) = filter png_kept (png_chunks data)"
    "png_orientation get 1 (png_chunks out) = Inr v"
    using v(1,3) png_orientation_exif_chunks [OF assms(1) v(1)] by (auto simp: png_orientation_kept filter_empty_conv)
  then have "strip_png get out = Inr (take 8 out @ concat (png_chunks out) @ png_tail out)"
    using v(3,5) by (simp add: strip_png_eq png_print_def)
  moreover have "concat (png_chunks out) @ png_tail out = drop 8 out"
    unfolding png_chunks_def png_tail_def by (rule segments_concat_eq) simp
  ultimately show ?thesis by simp
qed

text \<open>
  C23. A cleaned PNG holds the pixel chunks of the original, unchanged and in order, then at most one fresh
  orientation chunk and its IEND chunk, and nothing after that; cleaning it again changes nothing,
  provided Pillow reads back the orientation from the block the code writes.
\<close>

theorem strip_png_clean:
  assumes "reads_orientation get" "strip_png get data = Inr out"
  shows "\<exists>v. png_orientation get 1 (png_chunks data) = Inr v \<and>
    png_chunks out = filter png_kept (png_chunks data) @ exif_chunks v \<and>
    png_kind (png_tail out) = IEND \<and> length (png_tail out) = png_size (png_tail out) \<and>
    strip_png get out = Inr out"
  using strip_png_chunks [OF assms(2)] strip_png_idem [OF assms] by blast

definition toy_reader :: exif_reader where
  "toy_reader exif = Inr (uint (exif ! 19))"

definition sample_png :: bytes where
  "sample_png = [0x89, 0x50, 0x4E, 0x47, 0x0D, 0x0A, 0x1A, 0x0A]
     @ [0, 0, 0, 1] @ bytes_of ''tEXt'' @ [65, 0, 0, 0, 0]
     @ [0, 0, 0, 1] @ bytes_of ''IDAT'' @ [7, 0, 0, 0, 0]
     @ [0, 0, 0, 0] @ IEND @ [0, 0, 0, 0] @ [1, 2, 3]"

theorem strip_png_clean_witness:
  "\<exists>out. strip_png toy_reader sample_png = Inr out \<and> length out = 33 \<and> strip_png toy_reader out = Inr out"
proof -
  have r: "reads_orientation toy_reader" by code_simp
  have "case strip_png toy_reader sample_png of Inl _ \<Rightarrow> False | Inr out \<Rightarrow> length out = 33" by code_simp
  then obtain out where h: "strip_png toy_reader sample_png = Inr out" "length out = 33" by (auto split: sum.splits)
  from strip_png_clean [OF r h(1)] h show ?thesis by blast
qed

end
