(* ===== verification/Jpeg_Strip.thy ===== *)
theory Jpeg_Strip
  imports Media_Strip
begin

text \<open>
  The JPEG cleaner of \<open>app/services/attachment.py\<close>: \<open>_scan_end\<close>, \<open>_strip_jpeg_segments\<close> and
  \<open>_strip_jpeg\<close> as the code's index loops, and what they do to a well-formed file. A file is
  well-formed here when segments with a length of at least two, optional fill bytes and scans follow
  each other up to the end-of-image marker.
\<close>

section \<open>The loops\<close>

definition JPEG_KEEP_APP :: "byte list" where "JPEG_KEEP_APP = [0xEE]"

definition find_byte :: "byte \<Rightarrow> bytes \<Rightarrow> nat \<Rightarrow> nat option" where
  "find_byte b data i =
     (let k = i + length (takeWhile (\<lambda>x. x \<noteq> b) (drop i data)) in if k < length data then Some k else None)"

definition in_scan :: "byte \<Rightarrow> bool" where
  "in_scan m \<longleftrightarrow> m = 0 \<or> 0xD0 \<le> m \<and> m \<le> 0xD7"

lemma find_byte_bounds: "find_byte b data i = Some j \<Longrightarrow> i \<le> j \<and> j < length data"
  by (auto simp: find_byte_def Let_def split: if_splits)

function scan_end :: "bytes \<Rightarrow> nat \<Rightarrow> nat" where
  "scan_end data i =
     (case find_byte 0xFF data i of
        None \<Rightarrow> length data
      | Some j \<Rightarrow>
          (if j + 1 < length data
           then (if \<not> in_scan (data ! (j + 1)) then j else scan_end data (j + 2))
           else length data))"
  by pat_completeness auto
termination
  by (relation "measure (\<lambda>(data, i). length data - i)") (auto dest: find_byte_bounds)

declare scan_end.simps [simp del]

lemma scan_end_ge: "min i (length data) \<le> scan_end data i"
proof (induction data i rule: scan_end.induct)
  case (1 data i)
  show ?case
  proof (cases "find_byte 0xFF data i")
    case None
    then show ?thesis by (simp add: scan_end.simps [of data i])
  next
    case (Some j)
    from find_byte_bounds [OF Some] 1 [OF Some] show ?thesis
      by (auto simp: scan_end.simps [of data i] Some)
  qed
qed

definition jpeg_dropped :: "byte \<Rightarrow> bool" where
  "jpeg_dropped marker \<longleftrightarrow>
     0xE0 \<le> marker \<and> marker \<le> 0xEF \<and> marker \<notin> set JPEG_KEEP_APP \<or> marker = 0xFE"

definition jpeg_end :: "bytes \<Rightarrow> nat \<Rightarrow> nat" where
  "jpeg_end data i =
     (let e = i + 2 + be_nat (pyslice data (i + 2) (i + 4))
      in if data ! (i + 1) = 0xDA then scan_end data e else e)"

function jpeg_loop :: "bytes \<Rightarrow> bytes \<Rightarrow> nat \<Rightarrow> bytes" where
  "jpeg_loop data out i =
     (if i + 1 < length data \<and> data ! i = 0xFF then
        (let marker = data ! (i + 1) in
         if marker = 0xFF then jpeg_loop data out (i + 1)
         else if marker = 0xD9 then out @ [0xFF, 0xD9]
         else if jpeg_dropped marker then jpeg_loop data out (jpeg_end data i)
         else jpeg_loop data (out @ pyslice data i (jpeg_end data i)) (jpeg_end data i))
      else out)"
  by pat_completeness auto

lemma jpeg_end_gt: "i < length data \<Longrightarrow> i < jpeg_end data i"
  using scan_end_ge [of "i + 2 + be_nat (pyslice data (i + 2) (i + 4))" data]
  by (auto simp: jpeg_end_def Let_def)

termination jpeg_loop
  by (relation "measure (\<lambda>(data, out, i). length data - i)")
    (auto intro!: diff_less_mono2 jpeg_end_gt)

declare jpeg_loop.simps [simp del]

definition strip_jpeg_segments :: "bytes \<Rightarrow> bytes" where
  "strip_jpeg_segments data =
     (if take 2 data \<noteq> [0xFF, 0xD8] then data else jpeg_loop data (take 2 data) 2)"

definition strip_jpeg :: "exif_reader \<Rightarrow> bytes \<Rightarrow> bytes \<Rightarrow> strip_error + bytes" where
  "strip_jpeg get data exif =
     (let body = strip_jpeg_segments data in
      case (if exif \<noteq> [] then orientation get exif else Inr 1) of
        Inl e \<Rightarrow> Inl e
      | Inr ori \<Rightarrow>
          (if ori = 1 then Inr body
           else (let payload = bytes_of ''Exif'' @ [0, 0] @ orientation_exif ori
                 in Inr (take 2 body @ [0xFF, 0xE1] @ nat_be 2 (length payload + 2) @ payload @ drop 2 body))))"

section \<open>JPEG as segments\<close>

fun scan_len :: "bytes \<Rightarrow> nat" where
  "scan_len (b # c # xs) =
     (if b = 0xFF then (if in_scan c then 2 + scan_len xs else 0) else 1 + scan_len (c # xs))"
| "scan_len [b] = 1"
| "scan_len [] = 0"

definition jpeg_proper :: "bytes \<Rightarrow> bool" where
  "jpeg_proper ys \<longleftrightarrow> 2 \<le> length ys \<and> ys ! 0 = 0xFF \<and> \<not> in_scan (ys ! 1)"

definition jpeg_next :: "bytes \<Rightarrow> nat option" where
  "jpeg_next xs =
     (if jpeg_proper xs then
        (if xs ! 1 = 0xFF then Some 1
         else (let n = 2 + be_nat (pyslice xs 2 4) in
               if xs ! 1 = 0xD9 \<or> n < 4 \<or> length xs < n then None
               else if xs ! 1 \<noteq> 0xDA then Some n
               else if n + scan_len (drop n xs) < length xs then Some (n + scan_len (drop n xs))
               else None))
      else None)"

lemma scan_len_le: "scan_len xs \<le> length xs"
  by (induction xs rule: scan_len.induct) auto

lemma scan_end_scan_len: "i \<le> length data \<Longrightarrow> scan_end data i = i + scan_len (drop i data)"
proof (induction "length data - i" arbitrary: i rule: less_induct)
  case less
  show ?case
  proof (cases "drop i data")
    case Nil
    with less.prems have "i = length data" by simp
    then show ?thesis by (simp add: scan_end.simps [of data "length data"] find_byte_def)
  next
    case (Cons b rest)
    then have i: "i < length data" and b: "data ! i = b" "rest = drop (Suc i) data"
      by (metis drop_all list.distinct(1) not_le, metis Cons nth_via_drop, metis Cons drop_Suc tl_drop list.sel(3))
    show ?thesis
    proof (cases "b = 0xFF")
      case True
      have f: "find_byte 0xFF data i = Some i" using True Cons i by (simp add: find_byte_def)
      show ?thesis
      proof (cases rest)
        case Nil
        then have "i + 1 = length data" using b(2) i by simp
        then show ?thesis using Cons Nil by (simp add: scan_end.simps [of data i] f)
      next
        case (Cons c more)
        then have c: "i + 1 < length data" "data ! (i + 1) = c" "more = drop (i + 2) data"
          using b(2) by (metis Suc_eq_plus1 drop_all list.distinct(1) not_le,
              metis Suc_eq_plus1 nth_via_drop, metis add_2_eq_Suc' drop_Suc tl_drop list.sel(3))
        show ?thesis
          using less.hyps [of "i + 2"] c True \<open>drop i data = b # rest\<close> Cons
          by (auto simp: scan_end.simps [of data i] f)
      qed
    next
      case False
      have "find_byte 0xFF data i = find_byte 0xFF data (Suc i)"
        using False Cons b by (simp add: find_byte_def)
      then have "scan_end data i = scan_end data (Suc i)"
        by (simp add: scan_end.simps [of data i] scan_end.simps [of data "Suc i"])
      moreover have "scan_len (b # rest) = Suc (scan_len rest)" using False by (cases rest) auto
      ultimately show ?thesis using less.hyps [of "Suc i"] i b Cons by simp
    qed
  qed
qed

lemma scan_len_proper [simp]: "jpeg_proper ys \<Longrightarrow> scan_len ys = 0"
  by (cases ys rule: scan_len.cases) (auto simp: jpeg_proper_def)

lemma scan_len_stable:
  "scan_len xs < length xs \<Longrightarrow> jpeg_proper ys \<Longrightarrow> scan_len (take (scan_len xs) xs @ ys) = scan_len xs"
proof (induction xs rule: scan_len.induct)
  case (1 b c xs)
  show ?case
  proof (cases "b = 0xFF")
    case True
    with 1 show ?thesis by auto
  next
    case False
    then have s: "scan_len (take (scan_len (c # xs)) (c # xs) @ ys) = scan_len (c # xs)"
      using 1 by simp
    obtain d ds where d: "take (scan_len (c # xs)) (c # xs) @ ys = d # ds"
      using "1.prems"(2) by (cases "take (scan_len (c # xs)) (c # xs) @ ys") (auto simp: jpeg_proper_def)
    have "scan_len (b # d # ds) = Suc (scan_len (d # ds))" using False by simp
    then show ?thesis using False s d by simp
  qed
qed simp_all

lemma jpeg_next_Some:
  assumes "jpeg_next xs = Some n"
  shows "jpeg_proper xs" "0 < n" "n \<le> length xs" "xs ! 1 = 0xFF \<longleftrightarrow> n = 1" "n \<noteq> 1 \<Longrightarrow> 4 \<le> n"
    "xs ! 1 \<noteq> 0xD9"
  using assms by (auto simp: jpeg_next_def Let_def jpeg_proper_def split: if_splits)

lemma jpeg_next_stable:
  assumes "jpeg_next xs = Some n" "jpeg_proper ys"
  shows "jpeg_next (take n xs @ ys) = Some n"
proof (cases "n = 1")
  case True
  with assms jpeg_next_Some [OF assms(1)] have "xs ! 0 = 0xFF" "ys ! 0 = 0xFF" "xs ! 1 = 0xFF" "xs \<noteq> []" "ys \<noteq> []"
    by (auto simp: jpeg_proper_def)
  moreover have "\<not> in_scan 0xFF" by code_simp
  ultimately show ?thesis using True assms(2)
    by (cases xs) (auto simp: jpeg_next_def jpeg_proper_def)
next
  case False
  note b = jpeg_next_Some [OF assms(1)]
  let ?m = "2 + be_nat (pyslice xs 2 4)" and ?zs = "take n xs @ ys"
  have m: "4 \<le> ?m" "?m \<le> n" "n \<le> length xs" "xs ! 1 \<noteq> 0xDA \<Longrightarrow> n = ?m"
    "xs ! 1 = 0xDA \<Longrightarrow> n = ?m + scan_len (drop ?m xs) \<and> n < length xs"
    using assms(1) False by (auto simp: jpeg_next_def Let_def split: if_splits)
  have same: "pyslice ?zs 2 4 = pyslice xs 2 4" "?zs ! 0 = xs ! 0" "?zs ! 1 = xs ! 1" "2 \<le> length ?zs"
    using m by (auto simp: nth_append)
  have "drop ?m ?zs = take (n - ?m) (drop ?m xs) @ ys" using m by (simp add: drop_take)
  then have "scan_len (drop ?m ?zs) = scan_len (drop ?m xs)" if "xs ! 1 = 0xDA"
    using m(5) [OF that] scan_len_stable [of "drop ?m xs" ys] assms(2) by auto
  then show ?thesis
    using b False m same assms(2) unfolding jpeg_next_def Let_def same jpeg_proper_def
    by (auto simp: jpeg_proper_def)
qed

interpretation jpeg: segment_format jpeg_next jpeg_proper
  by unfold_locales (use jpeg_next_Some jpeg_next_stable in blast)+

definition jpeg_keep :: "bytes \<Rightarrow> bool" where
  "jpeg_keep s \<longleftrightarrow> 2 \<le> length s \<and> \<not> jpeg_dropped (s ! 1)"

definition jpeg_segs :: "bytes \<Rightarrow> bytes list" where
  "jpeg_segs data = fst (segments jpeg_next (drop 2 data))"

definition jpeg_tail :: "bytes \<Rightarrow> bytes" where
  "jpeg_tail data = snd (segments jpeg_next (drop 2 data))"

definition jpeg_wf :: "bytes \<Rightarrow> bool" where
  "jpeg_wf data \<longleftrightarrow> take 2 data = [0xFF, 0xD8] \<and> take 2 (jpeg_tail data) = [0xFF, 0xD9]"

text \<open>One round of the loop is one segment.\<close>

lemma jpeg_loop_step:
  assumes "jpeg_next (drop i data) = Some n"
  shows "jpeg_loop data out i =
    jpeg_loop data (if jpeg_keep (take n (drop i data)) then out @ take n (drop i data) else out) (i + n)"
proof -
  let ?xs = "drop i data"
  note b = jpeg_next_Some [OF assms]
  then have len: "i + 1 < length data" "?xs ! 0 = data ! i" "?xs ! 1 = data ! (i + 1)" "data ! i = 0xFF"
    by (auto simp: jpeg_proper_def)
  show ?thesis
  proof (cases "n = 1")
    case True
    then show ?thesis using b len by (simp add: jpeg_loop.simps [of data out i] jpeg_keep_def)
  next
    case False
    have "pyslice ?xs 2 4 = pyslice data (i + 2) (i + 4)" by (simp add: slice_shift)
    then have fin: "jpeg_end data i = i + n"
      using assms False len b scan_end_scan_len [of "i + (2 + be_nat (pyslice ?xs 2 4))" data]
      by (auto simp: jpeg_next_def jpeg_end_def Let_def add_ac split: if_splits)
    have k: "jpeg_keep (take n ?xs) \<longleftrightarrow> \<not> jpeg_dropped (data ! (i + 1))"
      using b False len by (auto simp: jpeg_keep_def)
    have "take n ?xs = pyslice data i (i + n)" by (simp add: pyslice_def)
    then show ?thesis using b False len k fin by (simp add: jpeg_loop.simps [of data out i])
  qed
qed

lemma jpeg_loop_segments:
  "take 2 (snd (segments jpeg_next (drop i data))) = [0xFF, 0xD9] \<Longrightarrow>
   jpeg_loop data out i = out @ concat (filter jpeg_keep (fst (segments jpeg_next (drop i data)))) @ [0xFF, 0xD9]"
proof (induction "length data - i" arbitrary: i out rule: less_induct)
  case less
  show ?case
  proof (cases "jpeg_next (drop i data)")
    case None
    then have t: "take 2 (drop i data) = [0xFF, 0xD9]" using less.prems by (simp add: segments_None)
    from take_two_drop [OF t] show ?thesis using None by (simp add: jpeg_loop.simps [of data out i] segments_None)
  next
    case (Some n)
    with jpeg_next_Some(2,3) [OF Some] have "length data - (i + n) < length data - i" by auto
    from less.hyps [OF this] less.prems show ?thesis
      by (auto simp: jpeg_loop_step [OF Some] jpeg.segments_Some [OF Some] add.commute)
  qed
qed

section \<open>What the JPEG cleaner guarantees\<close>

lemma strip_jpeg_segments_eq:
  assumes "jpeg_wf data"
  shows "strip_jpeg_segments data =
    [0xFF, 0xD8] @ concat (filter jpeg_keep (jpeg_segs data)) @ [0xFF, 0xD9]"
proof -
  have w: "take 2 data = [0xFF, 0xD8]" "take 2 (snd (segments jpeg_next (drop 2 data))) = [0xFF, 0xD9]"
    using assms by (simp_all only: jpeg_wf_def jpeg_tail_def)
  have "strip_jpeg_segments data = jpeg_loop data [0xFF, 0xD8] 2"
    unfolding strip_jpeg_segments_def w(1) by (simp only: if_False refl not_True_eq_False)
  then show ?thesis unfolding jpeg_loop_segments [OF w(2)] jpeg_segs_def .
qed

lemma jpeg_segs_kept_proper:
  assumes "s \<in> set (jpeg_segs data)" "jpeg_keep s"
  shows "jpeg_proper (s @ ys)"
proof -
  from jpeg.segments_whole [of s "drop 2 data"] assms(1) obtain zs
    where z: "jpeg_next zs = Some (length s)" "s = take (length s) zs" by (auto simp: jpeg_segs_def)
  have "2 \<le> length s" using assms(2) by (simp add: jpeg_keep_def)
  then have "take (length s) zs ! 0 = zs ! 0" "take (length s) zs ! 1 = zs ! 1"
    by (intro nth_take; linarith)+
  then have "s ! 0 = zs ! 0" "s ! 1 = zs ! 1" by (simp_all only: z(2) [symmetric])
  with jpeg_next_Some(1) [OF z(1)] \<open>2 \<le> length s\<close> show ?thesis
    by (auto simp: jpeg_proper_def nth_append)
qed

text \<open>
  A well-formed JPEG comes out as its own segments less the APPn (all but Adobe's) and comment
  segments and the fill bytes, in order and unchanged, scans included, up to the end-of-image
  marker: trailing data is gone.
\<close>

theorem strip_jpeg_segments_wf:
  assumes "jpeg_wf data"
  shows "jpeg_segs (strip_jpeg_segments data) = filter jpeg_keep (jpeg_segs data) \<and>
    jpeg_tail (strip_jpeg_segments data) = [0xFF, 0xD9] \<and>
    list_all (\<lambda>s. \<not> jpeg_dropped (s ! 1)) (jpeg_segs (strip_jpeg_segments data))"
proof -
  have e: "jpeg_proper [0xFF, 0xD9]" "jpeg_next [0xFF, 0xD9] = None" by code_simp+
  have "segments jpeg_next (drop 2 data) = (jpeg_segs data, jpeg_tail data)"
    by (simp add: jpeg_segs_def jpeg_tail_def)
  from jpeg.segments_filter [OF this e, of jpeg_keep] jpeg_segs_kept_proper
  have "segments jpeg_next (concat (filter jpeg_keep (jpeg_segs data)) @ [0xFF, 0xD9])
      = (filter jpeg_keep (jpeg_segs data), [0xFF, 0xD9])" by blast
  then show ?thesis
    unfolding strip_jpeg_segments_eq [OF assms]
    by (simp add: jpeg_segs_def [of "[0xFF, 0xD8] @ _"] jpeg_segs_def [of "0xFF # _"] jpeg_tail_def [of "0xFF # _"]
        jpeg_tail_def [of "[0xFF, 0xD8] @ _"] list_all_iff jpeg_keep_def)
qed

definition jpeg_sample :: bytes where
  "jpeg_sample = [0xFF, 0xD8, 0xFF, 0xE1, 0, 4, 1, 2, 0xFF, 0xFF, 0xDB, 0, 3, 9,
     0xFF, 0xDA, 0, 2, 7, 0xFF, 0, 8, 0xFF, 0xD9, 5, 6]"

theorem strip_jpeg_segments_wf_witness:
  "jpeg_wf jpeg_sample \<and> strip_jpeg_segments jpeg_sample =
     [0xFF, 0xD8, 0xFF, 0xDB, 0, 3, 9, 0xFF, 0xDA, 0, 2, 7, 0xFF, 0, 8, 0xFF, 0xD9] \<and>
   jpeg_tail (strip_jpeg_segments jpeg_sample) = [0xFF, 0xD9]"
proof -
  have h: "jpeg_wf jpeg_sample" "strip_jpeg_segments jpeg_sample =
     [0xFF, 0xD8, 0xFF, 0xDB, 0, 3, 9, 0xFF, 0xDA, 0, 2, 7, 0xFF, 0, 8, 0xFF, 0xD9]" by code_simp+
  show ?thesis using h strip_jpeg_segments_wf [OF h(1)] by simp
qed

definition jpeg_crafted :: bytes where
  "jpeg_crafted = [0xFF, 0xD8, 0xFF, 0xDA, 0, 2, 7,
     0xFF, 0xE1, 0, 2,
     0xFF, 0, 0, 8, 0xFF, 0xE1, 0, 4, 1, 2, 0xFF, 0xD9]"

text \<open>
  The scan is skipped by markers alone, so a crafted file can leave an APP1 behind: the scan of the
  input ends at an APP1, which is dropped, and the segment after it has marker byte 0, which is
  stuffing once it follows the scan directly. A second run over the output finds and drops the APP1
  that segment carried.
\<close>

theorem strip_jpeg_segments_not_idem:
  "strip_jpeg_segments jpeg_crafted =
     [0xFF, 0xD8, 0xFF, 0xDA, 0, 2, 7, 0xFF, 0, 0, 8, 0xFF, 0xE1, 0, 4, 1, 2, 0xFF, 0xD9] \<and>
   strip_jpeg_segments (strip_jpeg_segments jpeg_crafted) =
     [0xFF, 0xD8, 0xFF, 0xDA, 0, 2, 7, 0xFF, 0, 0, 8, 0xFF, 0xD9]"
  by code_simp

end
