(* ===== verification/Image_Strip.thy ===== *)
theory Image_Strip
  imports Jpeg_Strip
begin

text \<open>
  The WebP and JPEG 2000 cleaners, the dispatch on the image format and \<open>strip_metadata\<close>
  (\<open>app/services/attachment.py\<close>). Pillow's decoder and its GIF and TIFF writers, and the PDF and
  Office cleaners, are arguments.
\<close>

section \<open>WebP\<close>

definition WEBP_KEEP :: "bytes list" where
  "WEBP_KEEP = map bytes_of [''VP8X'', ''VP8 '', ''VP8L'', ''ALPH'', ''ANIM'', ''ANMF'']"

definition EXIF :: bytes where "EXIF = bytes_of ''EXIF''"
definition VP8X :: bytes where "VP8X = bytes_of ''VP8X''"

function webp_loop ::
  "exif_reader \<Rightarrow> bytes \<Rightarrow> bytes \<Rightarrow> nat \<Rightarrow> nat \<Rightarrow> strip_error + (bytes \<times> nat)" where
  "webp_loop get body out i ori =
     (if i < length body then
        (let kind = pyslice body i (i + 4); size = le_nat (pyslice body (i + 4) (i + 8));
             fin = i + 8 + size + size mod 2
         in if kind = EXIF then
              (case orientation get (pyslice body (i + 8) (i + 8 + size)) of
                 Inl e \<Rightarrow> Inl e | Inr v \<Rightarrow> webp_loop get body out fin v)
            else if kind \<in> set WEBP_KEEP then webp_loop get body (out @ pyslice body i fin) fin ori
            else webp_loop get body out fin ori)
      else Inr (out, ori))"
  by pat_completeness auto
termination
  by (relation "measure (\<lambda>(get, body, out, i, ori). length body - i)") auto

declare webp_loop.simps [simp del]

definition webp_flags :: "nat \<Rightarrow> byte \<Rightarrow> byte" where
  "webp_flags ori b = (let flags = b AND NOT 0x2C in if ori \<noteq> 1 then flags OR 0x08 else flags)"

definition webp_exif :: "nat \<Rightarrow> bytes" where
  "webp_exif ori =
     (if ori \<noteq> 1 then EXIF @ nat_le 4 (length (orientation_exif ori)) @ orientation_exif ori else [])"

definition strip_webp :: "exif_reader \<Rightarrow> bytes \<Rightarrow> strip_error + bytes" where
  "strip_webp get data =
     (case webp_loop get (pyslice data 12 (8 + le_nat (pyslice data 4 8))) [] 0 1 of
        Inl e \<Rightarrow> Inl e
      | Inr (out, ori) \<Rightarrow>
          (case (if take 4 out = VP8X
                 then (if 8 < length out then Inr ((out @ webp_exif ori)[8 := webp_flags ori (out ! 8)])
                       else Inl Parser_error)
                 else Inr out) of
             Inl e \<Rightarrow> Inl e
           | Inr out' \<Rightarrow>
               (case to_bytes nat_le 4 (length out' + 4) of
                  Inl e \<Rightarrow> Inl e
                | Inr n \<Rightarrow> Inr (bytes_of ''RIFF'' @ n @ bytes_of ''WEBP'' @ out'))))"

section \<open>JPEG 2000\<close>

definition JP2_KEEP :: "bytes list" where
  "JP2_KEEP = map bytes_of [''jP  '', ''ftyp'', ''rreq'', ''jp2h'', ''jp2c'']"

function jp2_codestream :: "bytes \<Rightarrow> bytes \<Rightarrow> nat \<Rightarrow> bytes" where
  "jp2_codestream data out i =
     (if i + 4 \<le> length data \<and> data ! i = 0xFF \<and> data ! (i + 1) \<noteq> 0x90 then
        (let fin = i + 2 + be_nat (pyslice data (i + 2) (i + 4)) in
         jp2_codestream data (if data ! (i + 1) \<noteq> 0x64 then out @ pyslice data i fin else out) fin)
      else out @ drop i data)"
  by pat_completeness auto
termination
  by (relation "measure (\<lambda>(data, out, i). length data - i)") auto

declare jp2_codestream.simps [simp del]

definition jp2_header :: "bytes \<Rightarrow> nat \<Rightarrow> nat" where
  "jp2_header data i = (if be_nat (pyslice data i (i + 4)) = 1 then 16 else 8)"

definition jp2_end :: "bytes \<Rightarrow> nat \<Rightarrow> nat" where
  "jp2_end data i =
     (let size0 = be_nat (pyslice data i (i + 4));
          size = (if size0 = 1 then be_nat (pyslice data (i + 8) (i + 16)) else size0)
      in if size = 0 then length data else i + size)"

lemma jp2_header_pos: "0 < jp2_header data i"
  by (simp add: jp2_header_def)

lemma jp2_progress:
  assumes "i + 8 \<le> length data" "\<not> (jp2_end data i > length data \<or> jp2_end data i < i + jp2_header data i)"
  shows "length data - jp2_end data i < length data - i"
    "length (pyslice data (i + jp2_header data i) (jp2_end data i)) < length data"
proof -
  note pos = jp2_header_pos [of data i]
  have "data \<noteq> []" "0 < i + jp2_header data i" using assms(1) pos by auto
  then show "length (pyslice data (i + jp2_header data i) (jp2_end data i)) < length data"
    by (intro length_pyslice_less)
  show "length data - jp2_end data i < length data - i" using assms pos by linarith
qed

function strip_jp2 :: "bytes \<Rightarrow> strip_error + bytes"
  and jp2_boxes :: "bytes \<Rightarrow> bytes \<Rightarrow> nat \<Rightarrow> strip_error + bytes" where
  "strip_jp2 data =
     (if take 2 data = [0xFF, 0x4F] then Inr (jp2_codestream data (take 2 data) 2)
      else if pyslice data 4 8 \<noteq> bytes_of ''jP  '' then Inl (Metadata_error ''not a JPEG 2000 file'')
      else jp2_boxes data [] 0)"
| "jp2_boxes data out i =
     (if i + 8 \<le> length data then
        (if jp2_end data i > length data \<or> jp2_end data i < i + jp2_header data i
           then Inl (Metadata_error ''truncated JPEG 2000'')
         else if pyslice data (i + 4) (i + 8) = bytes_of ''jp2c'' then
           (case strip_jp2 (pyslice data (i + jp2_header data i) (jp2_end data i)) of
              Inl e \<Rightarrow> Inl e
            | Inr codestream \<Rightarrow>
                (case to_bytes nat_be 4 (8 + length codestream) of
                   Inl e \<Rightarrow> Inl e
                 | Inr n \<Rightarrow>
                     jp2_boxes data (out @ n @ pyslice data (i + 4) (i + 8) @ codestream) (jp2_end data i)))
         else if pyslice data (i + 4) (i + 8) \<in> set JP2_KEEP
           then jp2_boxes data (out @ pyslice data i (jp2_end data i)) (jp2_end data i)
         else jp2_boxes data out (jp2_end data i))
      else Inr out)"
  by pat_completeness auto
termination
  by (relation "measures
      [\<lambda>x. case x of Inl data \<Rightarrow> length data | Inr (data, out, i) \<Rightarrow> length data,
       \<lambda>x. case x of Inl data \<Rightarrow> Suc (length data) | Inr (data, out, i) \<Rightarrow> length data - i]")
    (simp_all only: wf_measures in_measures sum.case prod.case jp2_progress simp_thms order_refl diff_zero lessI)

declare strip_jp2.simps [simp del] jp2_boxes.simps [simp del]

section \<open>Dispatch\<close>

datatype open_error = Unidentified | Open_failed

record image =
  im_format :: string
  im_pixels :: nat
  im_exif :: bytes

record pillow =
  pil_open :: "bytes \<Rightarrow> open_error + image"
  pil_exif :: exif_reader
  pil_gif :: "bytes \<Rightarrow> strip_error + bytes"
  pil_tiff :: "bytes \<Rightarrow> strip_error + bytes"

definition MAX_IMAGE_PIXELS :: nat where "MAX_IMAGE_PIXELS = 50000000"

definition strip_image :: "pillow \<Rightarrow> bytes \<Rightarrow> strip_error + bytes" where
  "strip_image pil data =
     (case pil_open pil data of
        Inl Unidentified \<Rightarrow> Inl (Metadata_error ''unsupported image format'')
      | Inl Open_failed \<Rightarrow> Inl Parser_error
      | Inr img \<Rightarrow>
          (if im_format img = ''JPEG'' \<or> im_format img = ''MPO''
             then strip_jpeg (pil_exif pil) data (im_exif img)
           else if im_format img = ''PNG'' then strip_png (pil_exif pil) data
           else if im_format img = ''WEBP'' then strip_webp (pil_exif pil) data
           else if im_format img \<noteq> ''GIF'' \<and> im_format img \<noteq> ''TIFF''
             then Inl (Metadata_error (''unsupported image format '' @ im_format img))
           else if im_pixels img > MAX_IMAGE_PIXELS then Inl (Metadata_error ''image too large to clean'')
           else if im_format img = ''GIF'' then pil_gif pil data
           else pil_tiff pil data))"

text \<open>File names: the last path component and its extension (\<open>pathlib\<close>).\<close>

fun split_on :: "char \<Rightarrow> string \<Rightarrow> string list" where
  "split_on c [] = [[]]"
| "split_on c (x # xs) = (if x = c then [] # split_on c xs
                          else (x # hd (split_on c xs)) # tl (split_on c xs))"

definition path_name :: "string \<Rightarrow> string" where
  "path_name s =
     (case filter (\<lambda>p. p \<noteq> [] \<and> p \<noteq> ''.'') (split_on (CHR ''/'') s) of [] \<Rightarrow> [] | ps \<Rightarrow> last ps)"

definition suffix :: "string \<Rightarrow> string" where
  "suffix name =
     (let stem = dropWhile (\<lambda>c. c = CHR ''.'') name;
          ext = takeWhile (\<lambda>c. c \<noteq> CHR ''.'') (rev stem)
      in if CHR ''.'' \<in> set stem then CHR ''.'' # rev ext else [])"

definition IMAGE_SUFFIXES :: "string list" where
  "IMAGE_SUFFIXES = [''.jpg'', ''.jpeg'', ''.png'', ''.gif'', ''.webp'']"

definition OFFICE_SUFFIXES :: "string list" where
  "OFFICE_SUFFIXES = [''.docx'', ''.xlsx'']"

record document_cleaners =
  strip_pdf :: "bytes \<Rightarrow> strip_error + bytes"
  strip_ooxml :: "bytes \<Rightarrow> strip_error + bytes"

definition stripper_for ::
  "pillow \<Rightarrow> document_cleaners \<Rightarrow> string \<Rightarrow> (bytes \<Rightarrow> strip_error + bytes) option" where
  "stripper_for pil dc ext =
     (if ext \<in> set IMAGE_SUFFIXES then Some (strip_image pil)
      else if ext = ''.pdf'' then Some (strip_pdf dc)
      else if ext \<in> set OFFICE_SUFFIXES then Some (strip_ooxml dc) else None)"

definition strip_metadata ::
  "pillow \<Rightarrow> document_cleaners \<Rightarrow> string \<Rightarrow> bytes \<Rightarrow> strip_error + bytes" where
  "strip_metadata pil dc filename data =
     (case stripper_for pil dc (lower (suffix (path_name filename))) of
        None \<Rightarrow> Inr data
      | Some stripper \<Rightarrow>
          (case stripper data of
             Inl (Metadata_error m) \<Rightarrow> Inl (Metadata_error m)
           | Inl Parser_error \<Rightarrow> Inl (Metadata_error [])
           | Inr clean \<Rightarrow> Inr clean))"

section \<open>WebP as segments\<close>

definition webp_size :: "bytes \<Rightarrow> nat" where
  "webp_size xs = (let size = le_nat (pyslice xs 4 8) in 8 + size + size mod 2)"

definition webp_kind :: "bytes \<Rightarrow> bytes" where
  "webp_kind xs = take 4 xs"

definition webp_next :: "bytes \<Rightarrow> nat option" where
  "webp_next xs = (if webp_size xs \<le> length xs then Some (webp_size xs) else None)"

definition webp_kept :: "bytes \<Rightarrow> bool" where
  "webp_kept c \<longleftrightarrow> webp_kind c \<in> set WEBP_KEEP"

fun webp_orientation :: "exif_reader \<Rightarrow> nat \<Rightarrow> bytes list \<Rightarrow> strip_error + nat" where
  "webp_orientation get ori [] = Inr ori"
| "webp_orientation get ori (c # cs) =
     (if webp_kind c = EXIF
      then (case orientation get (pyslice c 8 (8 + le_nat (pyslice c 4 8))) of
              Inl e \<Rightarrow> Inl e | Inr v \<Rightarrow> webp_orientation get v cs)
      else webp_orientation get ori cs)"

lemma webp_size_ge: "8 \<le> webp_size xs"
  by (simp add: webp_size_def Let_def)

lemma webp_size_take:
  assumes "8 \<le> n" "n \<le> length xs"
  shows "webp_size (take n xs @ ys) = webp_size xs" "webp_kind (take n xs @ ys) = webp_kind xs"
  using assms by (simp_all add: webp_size_def webp_kind_def min_def)

interpretation webp: segment_format webp_next "\<lambda>_. True"
proof
  fix xs ys :: bytes and n
  assume n: "webp_next xs = Some n"
  then have b: "n = webp_size xs" "n \<le> length xs" by (auto simp: webp_next_def split: if_splits)
  have ge: "8 \<le> n" using b(1) webp_size_ge [of xs] by simp
  show "0 < n \<and> n \<le> length xs" using ge b(2) by auto
  show "webp_next (take n xs @ ys) = Some n"
    using b webp_size_take [OF ge b(2), of ys] by (simp add: webp_next_def min_def)
qed

definition webp_body :: "bytes \<Rightarrow> bytes" where
  "webp_body data = pyslice data 12 (8 + le_nat (pyslice data 4 8))"

definition webp_chunks :: "bytes \<Rightarrow> bytes list" where
  "webp_chunks data = fst (segments webp_next (webp_body data))"

text \<open>The chunks fill the body exactly, and a VP8X chunk has its flags byte.\<close>

definition webp_wf :: "bytes \<Rightarrow> bool" where
  "webp_wf data \<longleftrightarrow> snd (segments webp_next (webp_body data)) = [] \<and>
     list_all (\<lambda>c. webp_kind c = VP8X \<longrightarrow> 9 \<le> length c) (webp_chunks data)"

lemma EXIF_not_kept: "EXIF \<notin> set WEBP_KEEP" and EXIF_not_VP8X: "EXIF \<noteq> VP8X" and length_EXIF: "length EXIF = 4"
  by code_simp+

lemma webp_loop_segments:
  "snd (segments webp_next (drop i body)) = [] \<Longrightarrow>
   webp_loop get body out i ori =
     (case webp_orientation get ori (fst (segments webp_next (drop i body))) of
        Inl e \<Rightarrow> Inl e
      | Inr v \<Rightarrow> Inr (out @ concat (filter webp_kept (fst (segments webp_next (drop i body)))), v))"
proof (induction get body out i ori rule: webp_loop.induct)
  case (1 get body out i ori)
  let ?xs = "drop i body"
  show ?case
  proof (cases "webp_next ?xs")
    case None
    with "1.prems" have "?xs = []" by (simp add: segments_None)
    with None show ?thesis by (simp add: webp_loop.simps [of _ _ _ i] segments_None)
  next
    case (Some n)
    then have n: "n = webp_size ?xs" "n \<le> length ?xs" "8 \<le> n"
      using webp_size_ge [of ?xs] by (auto simp: webp_next_def split: if_splits)
    then have i: "i < length body" by auto
    have fin: "i + 8 + le_nat (pyslice body (i + 4) (i + 8)) + le_nat (pyslice body (i + 4) (i + 8)) mod 2 = i + n"
      by (simp add: n(1) webp_size_def slice_shift Let_def)
    have kind: "webp_kind ?xs = pyslice body i (i + 4)" "webp_kind (take n ?xs) = webp_kind ?xs"
      using webp_size_take(2) [OF n(3,2), of "[]"] by (simp_all add: webp_kind_def [of ?xs] take_drop_slice)
    have chunk: "take n ?xs = pyslice body i (i + n)" by (simp add: pyslice_def)
    have size: "le_nat (pyslice (take n ?xs) 4 8) = le_nat (pyslice body (i + 4) (i + 8))"
      using n by (simp add: slice_shift)
    have exif: "pyslice (take n ?xs) 8 (8 + le_nat (pyslice body (i + 4) (i + 8)))
        = pyslice body (i + 8) (i + 8 + le_nat (pyslice body (i + 4) (i + 8)))"
      using n fin by (simp add: slice_shift add.assoc)
    have rest: "snd (segments webp_next (drop (i + n) body)) = []"
      using "1.prems" by (simp add: webp.segments_Some [OF Some] add.commute)
    have d: "drop (n + i) body = drop (i + n) body" by (simp add: add.commute)
    note IH = "1.IH" [OF i refl refl refl, unfolded fin kind(1) [symmetric]]
    show ?thesis
    proof (cases "webp_kind ?xs = EXIF")
      case True
      then have parsed: "fst (segments webp_next ?xs) = take n ?xs # fst (segments webp_next (drop (i + n) body))"
        "\<not> webp_kept (take n ?xs)"
        using EXIF_not_kept kind by (simp_all add: webp.segments_Some [OF Some] d webp_kept_def)
      show ?thesis
        unfolding parsed webp_loop.simps [of _ _ _ i] Let_def fin kind(1) [symmetric]
        using i True parsed(2) kind(2) exif size IH(1) [OF True _ rest] by (simp split: sum.split)
    next
      case other: False
      have parsed: "fst (segments webp_next ?xs) = take n ?xs # fst (segments webp_next (drop (i + n) body))"
        by (simp add: webp.segments_Some [OF Some] d)
      have k: "webp_kept (take n ?xs) \<longleftrightarrow> webp_kind ?xs \<in> set WEBP_KEEP" by (simp add: webp_kept_def kind)
      show ?thesis
        unfolding parsed webp_loop.simps [of _ _ _ i] Let_def fin kind(1) [symmetric] chunk [symmetric]
        using i other k kind(2) IH(2,3) [OF other _ rest, unfolded chunk [symmetric]] by (simp split: sum.split)
    qed
  qed
qed

definition webp_clean :: "nat \<Rightarrow> bytes list \<Rightarrow> bytes list" where
  "webp_clean v cs =
     (case cs of [] \<Rightarrow> []
      | c # rest \<Rightarrow>
          (if webp_kind c = VP8X
           then c[8 := webp_flags v (c ! 8)] # rest @ (if v \<noteq> 1 then [webp_exif v] else [])
           else cs))"

lemma webp_chunk_whole:
  assumes "c \<in> set (webp_chunks data)"
  shows "webp_size c = length c" "webp_next c = Some (length c)" "8 \<le> length c"
proof -
  from webp.segments_whole [of c] assms obtain zs
    where z: "webp_next zs = Some (length c)" "c = take (length c) zs" by (auto simp: webp_chunks_def)
  then have b: "length c = webp_size zs" "length c \<le> length zs"
    by (auto simp: webp_next_def split: if_splits)
  then show ge: "8 \<le> length c" using webp_size_ge [of zs] by simp
  show "webp_size c = length c" using webp_size_take(1) [OF ge b(2), of "[]"] z(2) b(1) by simp
  then show "webp_next c = Some (length c)" by (simp add: webp_next_def)
qed

lemma webp_exif_whole: "v \<noteq> 1 \<Longrightarrow> webp_next (webp_exif v) = Some (length (webp_exif v))"
proof -
  assume v: "v \<noteq> 1"
  have "pyslice (webp_exif v) 4 8 = nat_le 4 26" "length (webp_exif v) = 34"
    using v length_EXIF by (simp_all add: webp_exif_def pyslice_def)
  moreover have "le_nat (nat_le 4 26) = 26" by (rule le_nat_nat_le) simp
  ultimately show ?thesis by (simp add: webp_next_def webp_size_def Let_def)
qed

lemma webp_flags_whole:
  assumes "webp_size c = length c"
  shows "webp_next (c[8 := b]) = Some (length (c[8 := b]))"
proof -
  have "pyslice (c[8 := b]) 4 8 = pyslice c 4 8" by (simp add: pyslice_def drop_update_swap)
  then show ?thesis using assms by (simp add: webp_next_def webp_size_def)
qed

lemma webp_clean_whole:
  assumes "set cs \<subseteq> set (webp_chunks data)" "c \<in> set (webp_clean v cs)"
  shows "webp_next c = Some (length c)"
  using assms webp_chunk_whole webp_flags_whole webp_exif_whole
  by (cases cs) (auto simp: webp_clean_def split: if_splits)

lemma webp_out_clean:
  assumes "set cs \<subseteq> set (webp_chunks data)" "list_all (\<lambda>c. webp_kind c = VP8X \<longrightarrow> 9 \<le> length c) cs"
  shows "(if take 4 (concat cs) = VP8X
      then (if 8 < length (concat cs)
            then Inr ((concat cs @ webp_exif v)[8 := webp_flags v (concat cs ! 8)]) else Inl Parser_error)
      else Inr (concat cs)) = Inr (concat (webp_clean v cs))"
proof (cases cs)
  case Nil
  have "VP8X \<noteq> []" by code_simp
  with Nil show ?thesis by (simp add: webp_clean_def)
next
  case (Cons c rest)
  with assms(1) webp_chunk_whole(3) [of c data] have c: "8 \<le> length c" by simp
  then have k: "take 4 (concat cs) = webp_kind c" by (simp add: Cons webp_kind_def)
  show ?thesis
  proof (cases "webp_kind c = VP8X")
    case True
    with assms(2) Cons have l: "9 \<le> length c" by simp
    then have "8 < length (concat cs)" "concat cs ! 8 = c ! 8"
      "(concat cs @ webp_exif v)[8 := f] = c[8 := f] @ concat rest @ webp_exif v" for f
      by (auto simp: Cons nth_append list_update_append)
    with True k show ?thesis by (simp add: webp_clean_def Cons webp_exif_def)
  next
    case False
    with k show ?thesis by (simp add: webp_clean_def Cons)
  qed
qed

lemma webp_file:
  assumes "length out + 4 < 256 ^ 4"
  shows "webp_body (bytes_of ''RIFF'' @ nat_le 4 (length out + 4) @ bytes_of ''WEBP'' @ out) = out"
proof -
  let ?f = "bytes_of ''RIFF'' @ nat_le 4 (length out + 4) @ bytes_of ''WEBP'' @ out"
  have "pyslice ?f 4 8 = nat_le 4 (length out + 4)" by (simp add: pyslice_def bytes_of_def)
  then show ?thesis by (simp add: webp_body_def le_nat_nat_le [OF assms]) (simp add: pyslice_def bytes_of_def)
qed

text \<open>
  A cleaned WebP holds the picture chunks of the original in order and nothing else, except that an
  extended file has the ICC, EXIF and XMP flags cleared and, when the picture was turned, one fresh
  EXIF chunk with the orientation alone and its flag.
\<close>

theorem strip_webp_chunks:
  assumes "strip_webp get data = Inr out" "webp_wf data"
  shows "\<exists>v. webp_orientation get 1 (webp_chunks data) = Inr v \<and>
    webp_chunks out = webp_clean v (filter webp_kept (webp_chunks data)) \<and>
    snd (segments webp_next (webp_body out)) = []"
proof -
  let ?cs = "filter webp_kept (webp_chunks data)"
  have parsed: "snd (segments webp_next (drop 0 (webp_body data))) = []"
    and vp8x: "list_all (\<lambda>c. webp_kind c = VP8X \<longrightarrow> 9 \<le> length c) ?cs"
    using assms(2) by (simp_all add: webp_wf_def list_all_iff)
  note loop = webp_loop_segments [OF parsed, of get "[]" 1, unfolded drop_0 append_Nil, folded webp_chunks_def]
  obtain v where v: "webp_orientation get 1 (webp_chunks data) = Inr v"
    using assms(1) loop by (auto simp: strip_webp_def webp_body_def split: sum.splits)
  let ?out = "concat (webp_clean v ?cs)"
  have sub: "set ?cs \<subseteq> set (webp_chunks data)" by auto
  note clean = webp_out_clean [OF sub vp8x, of v]
  have "length ?out + 4 < 256 ^ 4"
    and out: "out = bytes_of ''RIFF'' @ nat_le 4 (length ?out + 4) @ bytes_of ''WEBP'' @ ?out"
    using assms(1) unfolding strip_webp_def webp_body_def [symmetric] loop v sum.case prod.case clean
    by (auto simp: to_bytes_def split: if_splits)
  then have "webp_body out = ?out" using webp_file by simp
  moreover have "segments webp_next (?out @ []) = (webp_clean v ?cs, [])"
  proof (rule webp.segments_of_concat)
    show "\<forall>c \<in> set (webp_clean v ?cs). \<exists>zs. webp_next zs = Some (length c) \<and> c = take (length c) zs"
      using webp_clean_whole [OF sub] by (metis order_refl take_all)
  qed (simp_all add: webp_next_def webp_size_def Let_def)
  ultimately show ?thesis using v by (simp add: webp_chunks_def [of out])
qed

text \<open>
  Whatever a parser does, an image or document is either cleaned or refused as such.
\<close>

theorem strip_metadata_refuses:
  "strip_metadata pil dc filename data = Inl e \<longleftrightarrow>
    (\<exists>stripper m. stripper_for pil dc (lower (suffix (path_name filename))) = Some stripper \<and>
      e = Metadata_error m \<and> (stripper data = Inl e \<or> stripper data = Inl Parser_error \<and> m = []))"
  by (auto simp: strip_metadata_def split: option.splits sum.splits strip_error.splits)

definition sample_webp :: bytes where
  "sample_webp = bytes_of ''RIFF'' @ nat_le 4 24 @ bytes_of ''WEBP''
     @ bytes_of ''VP8 '' @ nat_le 4 2 @ [1, 2] @ bytes_of ''XMP '' @ nat_le 4 2 @ [3, 4]"

theorem strip_webp_chunks_witness:
  "\<exists>out. strip_webp toy_reader sample_webp = Inr out \<and> length out = 22 \<and>
     map webp_kind (webp_chunks out) = [bytes_of ''VP8 '']"
proof -
  have w: "webp_wf sample_webp" by code_simp
  have l: "webp_loop toy_reader (pyslice sample_webp 12 (8 + le_nat (pyslice sample_webp 4 8))) [] 0 1
      = Inr (bytes_of ''VP8 '' @ nat_le 4 2 @ [1, 2], 1)" by code_simp
  have "take 4 (bytes_of ''VP8 '' @ nat_le 4 2 @ [1, 2]) \<noteq> VP8X" "length (bytes_of ''VP8 '' @ nat_le 4 2 @ [1, 2]) = 10"
    "length (bytes_of ''RIFF'') = 4" "length (bytes_of ''WEBP'') = 4" by code_simp+
  then obtain out where h: "strip_webp toy_reader sample_webp = Inr out" "length out = 22"
    unfolding strip_webp_def l by (simp add: to_bytes_def)
  from strip_webp_chunks [OF h(1) w] obtain v where
    "webp_orientation toy_reader 1 (webp_chunks sample_webp) = Inr v"
    "webp_chunks out = webp_clean v (filter webp_kept (webp_chunks sample_webp))" by blast
  moreover have "webp_orientation toy_reader 1 (webp_chunks sample_webp) = Inr 1"
    "map webp_kind (webp_clean 1 (filter webp_kept (webp_chunks sample_webp))) = [bytes_of ''VP8 '']" by code_simp+
  ultimately show ?thesis using h by auto
qed

end
