(* ===== verification/Upload.thy ===== *)
theory Upload
  imports Image_Strip
begin

text \<open>
  Reading an upload (\<open>app/services/attachment.py\<close>) and the virus scan
  (\<open>app/services/virus_scan.py\<close>): file names, the checks on a file, the INSTREAM request and
  reply, and the loop over the submitted parts. The scan daemon is an argument: what it answers to
  the bytes sent, or nothing when the connection fails.
\<close>

section \<open>File names and types\<close>

definition MAX_SIZE_BYTES :: nat where "MAX_SIZE_BYTES = 10 * 1024 * 1024"
definition MAX_ATTACHMENTS :: nat where "MAX_ATTACHMENTS = 5"

definition TYPE_BY_EXT :: "(string \<times> string) list" where
  "TYPE_BY_EXT =
     [(''.pdf'', ''application/pdf''), (''.jpg'', ''image/jpeg''), (''.jpeg'', ''image/jpeg''),
      (''.png'', ''image/png''), (''.gif'', ''image/gif''), (''.webp'', ''image/webp''),
      (''.txt'', ''text/plain''), (''.csv'', ''text/csv''),
      (''.docx'', ''application/vnd.openxmlformats-officedocument.wordprocessingml.document''),
      (''.xlsx'', ''application/vnd.openxmlformats-officedocument.spreadsheetml.sheet'')]"

definition ALLOWED_EXTENSIONS :: "string list" where
  "ALLOWED_EXTENSIONS = map fst TYPE_BY_EXT"

definition content_type_for :: "string \<Rightarrow> string option" where
  "content_type_for filename = map_of TYPE_BY_EXT (lower (suffix (path_name filename)))"

definition unsafe_char :: "char \<Rightarrow> bool" where
  "unsafe_char c \<longleftrightarrow> (of_char c :: nat) < 32 \<or>
     c \<in> set [CHR ''<'', CHR ''>'', CHR '':'', CHR 0x22, CHR ''/'', CHR 0x5C, CHR ''|'', CHR ''?'', CHR ''*'']"

definition strip_chars :: "string \<Rightarrow> string \<Rightarrow> string" where
  "strip_chars cs s = rev (dropWhile (\<lambda>c. c \<in> set cs) (rev (dropWhile (\<lambda>c. c \<in> set cs) s)))"

definition upto_index :: "int \<Rightarrow> 'a list \<Rightarrow> 'a list" where
  "upto_index k s = take (nat (if 0 \<le> k then k else int (length s) + k)) s"

definition sanitize_filename :: "string \<Rightarrow> string" where
  "sanitize_filename filename =
     (let name = strip_chars ''. '' (map (\<lambda>c. if unsafe_char c then CHR ''_'' else c) (path_name filename))
      in if name = [] then ''attachment''
         else (let ext = lower (suffix (path_name name));
                   stem = take (length name - length ext) name;
                   max_stem = 240 - int (length ext)
               in if int (length stem) > max_stem then upto_index max_stem stem @ ext else name))"

section \<open>Checks on one file\<close>

definition MAGIC_BY_EXT :: "(string \<times> bytes list) list" where
  "MAGIC_BY_EXT =
     [(''.pdf'', [bytes_of ''%PDF'']),
      (''.jpg'', [[0xFF, 0xD8, 0xFF]]), (''.jpeg'', [[0xFF, 0xD8, 0xFF]]),
      (''.png'', [[0x89, 0x50, 0x4E, 0x47, 0x0D, 0x0A, 0x1A, 0x0A]]),
      (''.gif'', [bytes_of ''GIF87a'', bytes_of ''GIF89a'']),
      (''.webp'', [bytes_of ''RIFF'']),
      (''.docx'', [bytes_of ''PK'' @ [3, 4]]), (''.xlsx'', [bytes_of ''PK'' @ [3, 4]])]"

definition content_matches_ext :: "string \<Rightarrow> bytes \<Rightarrow> bool" where
  "content_matches_ext ext head =
     (case map_of MAGIC_BY_EXT ext of
        None \<Rightarrow> True
      | Some sigs \<Rightarrow>
          (if ext = ''.webp'' then take 4 head = bytes_of ''RIFF'' \<and> pyslice head 8 12 = bytes_of ''WEBP''
           else list_ex (\<lambda>s. take (length s) head = s) sigs))"

datatype upload_error =
  Legacy_office | Too_large | Bad_extension | Content_mismatch | Too_many | Malware
  | Scan_unavailable | Metadata_refused

definition validate_file :: "string \<Rightarrow> nat \<Rightarrow> bytes \<Rightarrow> upload_error option" where
  "validate_file filename n head =
     (let ext = lower (suffix (path_name filename)) in
      if ext = ''.doc'' \<or> ext = ''.xls'' then Some Legacy_office
      else if n > MAX_SIZE_BYTES then Some Too_large
      else if ext \<notin> set ALLOWED_EXTENSIONS then Some Bad_extension
      else if head \<noteq> [] \<and> \<not> content_matches_ext ext head then Some Content_mismatch
      else None)"

section \<open>The virus scan\<close>

definition CHUNK :: nat where "CHUNK = 64 * 1024"

function chunked :: "bytes \<Rightarrow> bytes" where
  "chunked data =
     (if data = [] then []
      else nat_be 4 (length (take CHUNK data)) @ take CHUNK data @ chunked (drop CHUNK data))"
  by pat_completeness auto
termination
  by (relation "measure length") (auto simp: CHUNK_def)

declare chunked.simps [simp del]

definition instream :: "bytes \<Rightarrow> bytes" where
  "instream data = bytes_of ''zINSTREAM'' @ [0] @ chunked data @ nat_be 4 0"

definition text_of :: "bytes \<Rightarrow> string" where
  "text_of bs = map (\<lambda>b. if b < 128 then char_of (unat b) else CHR 0xFF) bs"

definition remove_prefix :: "string \<Rightarrow> string \<Rightarrow> string" where
  "remove_prefix p s = (if take (length p) s = p then drop (length p) s else s)"

definition ends_with :: "string \<Rightarrow> string \<Rightarrow> bool" where
  "ends_with s e \<longleftrightarrow> length e \<le> length s \<and> drop (length s - length e) s = e"

datatype scan_answer = Unavailable | Clean | Infected string

type_synonym clamd = "bytes \<Rightarrow> bytes option"

definition scan_reply :: "bytes \<Rightarrow> scan_answer" where
  "scan_reply reply =
     (let text = remove_prefix ''stream: '' (text_of (rev (dropWhile (\<lambda>b. b = 0) (rev reply)))) in
      if text = ''OK'' then Clean
      else if ends_with text '' FOUND'' then
        (let name = strip (take (length text - 6) text) in Infected (if name = [] then ''unknown'' else name))
      else Unavailable)"

definition scan_bytes :: "clamd option \<Rightarrow> bytes \<Rightarrow> scan_answer" where
  "scan_bytes host data =
     (case host of
        None \<Rightarrow> Clean
      | Some clamd \<Rightarrow> (case clamd (instream data) of None \<Rightarrow> Unavailable | Some reply \<Rightarrow> scan_reply reply))"

section \<open>Reading the parts of a form\<close>

record upload =
  up_filename :: "string option"
  up_data :: bytes

type_synonym stored_file = "string \<times> string \<times> bytes"

record upload_env =
  env_pillow :: pillow
  env_cleaners :: document_cleaners
  env_clamd :: "clamd option"

definition read_one :: "upload_env \<Rightarrow> string \<Rightarrow> bytes \<Rightarrow> upload_error + stored_file" where
  "read_one env filename data =
     (let name = sanitize_filename filename in
      case validate_file name (length data) (take 16 data) of
        Some e \<Rightarrow> Inl e
      | None \<Rightarrow>
          (case scan_bytes (env_clamd env) data of
             Unavailable \<Rightarrow> Inl Scan_unavailable
           | Infected _ \<Rightarrow> Inl Malware
           | Clean \<Rightarrow>
               (case strip_metadata (env_pillow env) (env_cleaners env) name data of
                  Inl _ \<Rightarrow> Inl Metadata_refused
                | Inr clean \<Rightarrow>
                    (if length clean > MAX_SIZE_BYTES then Inl Too_large
                     else (case content_type_for name of
                             None \<Rightarrow> Inl Bad_extension
                           | Some ct \<Rightarrow> Inr (name, ct, clean))))))"

fun read_uploads :: "upload_env \<Rightarrow> stored_file list \<Rightarrow> upload list \<Rightarrow> upload_error + stored_file list" where
  "read_uploads env result [] = Inr result"
| "read_uploads env result (u # us) =
     (case up_filename u of
        None \<Rightarrow> read_uploads env result us
      | Some filename \<Rightarrow>
          (if strip filename = [] then read_uploads env result us
           else if length result \<ge> MAX_ATTACHMENTS then Inl Too_many
           else (let data = take (MAX_SIZE_BYTES + 1) (up_data u) in
                 if data = [] then read_uploads env result us
                 else (case read_one env filename data of
                         Inl e \<Rightarrow> Inl e
                       | Inr f \<Rightarrow> read_uploads env (result @ [f]) us))))"

definition read_upload_files :: "upload_env \<Rightarrow> upload list \<Rightarrow> upload_error + stored_file list" where
  "read_upload_files env files = read_uploads env [] files"

section \<open>The scan request round trip\<close>

text \<open>What the daemon reads: length-prefixed chunks up to one of length zero.\<close>

function dechunk :: "bytes \<Rightarrow> bytes option" where
  "dechunk bs =
     (let n = be_nat (take 4 bs) in
      if length bs < 4 + n then None
      else if n = 0 then (if length bs = 4 then Some [] else None)
      else map_option (\<lambda>d. take n (drop 4 bs) @ d) (dechunk (drop (4 + n) bs)))"
  by pat_completeness auto
termination
  by (relation "measure length") auto

declare dechunk.simps [simp del]

lemma dechunk_chunked: "dechunk (chunked data @ nat_be 4 0) = Some data"
proof (induction data rule: chunked.induct)
  case (1 data)
  have z: "be_nat (nat_be 4 0) = 0" by (rule be_nat_nat_be) simp
  show ?case
  proof (cases "data = []")
    case True
    then show ?thesis by (simp add: chunked.simps [of "[]"] dechunk.simps [of "nat_be 4 0"] z)
  next
    case False
    define c rest where "c = take CHUNK data" and "rest = chunked (drop CHUNK data) @ nat_be 4 0"
    let ?bs = "nat_be 4 (length c) @ c @ rest"
    have "length c < 256 ^ 4" by (simp add: CHUNK_def c_def)
    then have n: "be_nat (take 4 ?bs) = length c" by (simp add: be_nat_nat_be)
    have "c \<noteq> []" using False by (simp add: CHUNK_def c_def)
    then have "dechunk ?bs = map_option (\<lambda>d. c @ d) (dechunk rest)"
      unfolding dechunk.simps [of ?bs] n Let_def by simp
    then have "dechunk ?bs = Some (c @ drop CHUNK data)" using 1 [OF False] by (simp add: rest_def)
    then show ?thesis using False by (simp add: chunked.simps [of data] c_def rest_def)
  qed
qed

text \<open>
  The daemon puts together exactly the file: the frames, each with its length, end with the empty one.
\<close>

theorem instream_roundtrip:
  "\<exists>body. instream data = bytes_of ''zINSTREAM'' @ [0] @ body \<and> dechunk body = Some data"
  by (intro exI [of _ "chunked data @ nat_be 4 0"]) (simp add: instream_def dechunk_chunked)

text \<open>Only the exact reply OK lets a file through.\<close>

lemma scan_bytes_Clean:
  "scan_bytes host data = Clean \<longleftrightarrow>
     (case host of None \<Rightarrow> True
      | Some clamd \<Rightarrow>
          (\<exists>r. clamd (instream data) = Some r \<and>
             remove_prefix ''stream: '' (text_of (rev (dropWhile (\<lambda>b. b = 0) (rev r)))) = ''OK''))"
  by (auto simp: scan_bytes_def scan_reply_def Let_def split: option.splits if_splits)

section \<open>File names\<close>

lemma set_dropWhile_rev: "set (rev (dropWhile P (rev (dropWhile Q s)))) \<subseteq> set s"
  by (auto dest!: set_dropWhileD)

lemma lower_safe: "\<not> unsafe_char c \<Longrightarrow> \<not> unsafe_char (lower_char c)"
proof (cases "65 \<le> (of_char c :: nat) \<and> (of_char c :: nat) \<le> 90")
  case True
  then have "lower_char c = char_of ((of_char c :: nat) + 32)" by (simp add: lower_char_def)
  moreover have "of_char (char_of ((of_char c :: nat) + 32) :: char) = (of_char c :: nat) + 32"
    using True by (intro char_of_small) linarith
  ultimately have n: "(of_char (lower_char c) :: nat) = of_char c + 32" by (simp only:)
  have "d \<noteq> lower_char c" if "(of_char d :: nat) < 97 \<or> 122 < (of_char d :: nat)" for d
    using that n True by auto
  then show ?thesis using n True by (auto simp: unsafe_char_def)
next
  case False
  then have "lower_char c = c" by (simp only: lower_char_def if_False)
  then show "\<not> unsafe_char c \<Longrightarrow> \<not> unsafe_char (lower_char c)" by simp
qed

lemma set_suffix: "set (suffix s) \<subseteq> set s"
  by (fastforce simp: suffix_def Let_def dest: set_dropWhileD set_takeWhileD)

lemma set_split_on: "p \<in> set (split_on c s) \<Longrightarrow> set p \<subseteq> set s \<and> c \<notin> set p"
proof (induction s arbitrary: p)
  case (Cons x xs)
  have "split_on c xs \<noteq> []" by (induction xs) auto
  then obtain q qs where q: "split_on c xs = q # qs" by (cases "split_on c xs") auto
  with Cons.IH [of q] Cons.IH [of p] Cons.prems show ?case by (auto split: if_splits)
qed simp

lemma set_path_name: "set (path_name s) \<subseteq> set s"
proof (cases "filter (\<lambda>p. p \<noteq> [] \<and> p \<noteq> ''.'') (split_on (CHR ''/'') s)")
  case (Cons p ps)
  then have "last (p # ps) \<in> set (split_on (CHR ''/'') s)" by (metis filter_is_subset last_in_set list.distinct(1) subsetD)
  with Cons show ?thesis using set_split_on by (simp add: path_name_def)
qed (simp add: path_name_def)

text \<open>A name that came through the cleaning has no separator, wildcard or control character.\<close>

lemma sanitize_safe: "\<forall>c \<in> set (sanitize_filename f). \<not> unsafe_char c"
proof -
  define name where
    "name = strip_chars ''. '' (map (\<lambda>c. if unsafe_char c then CHR ''_'' else c) (path_name f))"
  have "\<not> unsafe_char (CHR ''_'')" by code_simp
  then have n: "\<forall>c \<in> set name. \<not> unsafe_char c"
    using set_dropWhile_rev unfolding strip_chars_def name_def by fastforce
  have att: "\<forall>c \<in> set ''attachment''. \<not> unsafe_char c" by code_simp
  have ext: "\<forall>c \<in> set (lower (suffix (path_name name))). \<not> unsafe_char c"
    using n set_suffix set_path_name lower_safe by (fastforce simp: lower_def)
  have "set (upto_index k (take m name)) \<subseteq> set name" for k m
    by (auto simp: upto_index_def dest!: in_set_takeD)
  then have cut: "\<forall>c \<in> set (upto_index k (take m name) @ lower (suffix (path_name name))). \<not> unsafe_char c" for k m
    using n ext by (metis Un_iff set_append subsetD)
  show ?thesis
    unfolding sanitize_filename_def name_def [symmetric] Let_def using att n cut by (simp only: split: if_split) blast
qed

section \<open>What is stored\<close>

definition present :: "upload \<Rightarrow> bool" where
  "present u \<longleftrightarrow> (case up_filename u of None \<Rightarrow> False | Some f \<Rightarrow> strip f \<noteq> [] \<and> up_data u \<noteq> [])"

definition accepted :: "upload_env \<Rightarrow> upload \<Rightarrow> stored_file \<Rightarrow> bool" where
  "accepted env u stored \<longleftrightarrow>
     (case (up_filename u, stored) of
        (Some f, (name, ct, clean)) \<Rightarrow>
          name = sanitize_filename f \<and> lower (suffix (path_name name)) \<in> set ALLOWED_EXTENSIONS \<and>
          content_type_for name = Some ct \<and>
          content_matches_ext (lower (suffix (path_name name))) (take 16 (up_data u)) \<and>
          length (up_data u) \<le> MAX_SIZE_BYTES \<and> scan_bytes (env_clamd env) (up_data u) = Clean \<and>
          strip_metadata (env_pillow env) (env_cleaners env) name (up_data u) = Inr clean \<and>
          length clean \<le> MAX_SIZE_BYTES
      | _ \<Rightarrow> False)"

lemma validate_file_None:
  "validate_file name n head = None \<longleftrightarrow>
    n \<le> MAX_SIZE_BYTES \<and> lower (suffix (path_name name)) \<in> set ALLOWED_EXTENSIONS \<and>
    (head = [] \<or> content_matches_ext (lower (suffix (path_name name))) head)"
proof -
  have "''.doc'' \<notin> set ALLOWED_EXTENSIONS" "''.xls'' \<notin> set ALLOWED_EXTENSIONS" by code_simp+
  then show ?thesis by (auto simp: validate_file_def Let_def)
qed

lemma read_one_accepted:
  assumes "up_filename u = Some f" "up_data u \<noteq> []"
    and "read_one env f (take (MAX_SIZE_BYTES + 1) (up_data u)) = Inr stored"
  shows "accepted env u stored"
proof -
  from assms(3) have "length (take (MAX_SIZE_BYTES + 1) (up_data u)) \<le> MAX_SIZE_BYTES"
    by (auto simp: read_one_def Let_def validate_file_None split: option.splits)
  then have "length (up_data u) \<le> MAX_SIZE_BYTES" by simp
  moreover from this have "take (MAX_SIZE_BYTES + 1) (up_data u) = up_data u" by simp
  ultimately show ?thesis
    using assms by (auto simp: read_one_def accepted_def Let_def validate_file_None
        split: option.splits scan_answer.splits sum.splits if_splits)
qed

lemma read_uploads_accepted:
  "read_uploads env result files = Inr out \<Longrightarrow> length result \<le> MAX_ATTACHMENTS \<Longrightarrow>
   \<exists>new. out = result @ new \<and> list_all2 (accepted env) (filter present files) new \<and>
     length out \<le> MAX_ATTACHMENTS"
proof (induction files arbitrary: result)
  case (Cons u us)
  show ?case
  proof (cases "present u")
    case False
    then have "read_uploads env result us = Inr out"
      using Cons.prems(1) by (auto simp: present_def MAX_SIZE_BYTES_def Let_def split: option.splits if_splits)
    with Cons.IH [OF this Cons.prems(2)] False show ?thesis by simp
  next
    case True
    then obtain f where f: "up_filename u = Some f" "strip f \<noteq> []" "up_data u \<noteq> []"
      by (auto simp: present_def split: option.splits)
    let ?data = "take (MAX_SIZE_BYTES + 1) (up_data u)"
    have ne: "?data \<noteq> []" using f(3) by (simp add: MAX_SIZE_BYTES_def)
    from Cons.prems(1) f ne obtain x where x: "read_one env f ?data = Inr x"
        "read_uploads env (result @ [x]) us = Inr out" "\<not> length result \<ge> MAX_ATTACHMENTS"
      by (auto simp: Let_def split: if_splits sum.splits)
    have "accepted env u x" by (rule read_one_accepted [OF f(1,3) x(1)])
    moreover from x(3) have "length (result @ [x]) \<le> MAX_ATTACHMENTS" by simp
    ultimately show ?thesis using Cons.IH [OF x(2)] True by auto
  qed
qed simp


definition plain_env :: upload_env where
  "plain_env = \<lparr>env_pillow = \<lparr>pil_open = (\<lambda>_. Inl Unidentified), pil_exif = (\<lambda>_. Inr 1),
                              pil_gif = Inr, pil_tiff = Inr\<rparr>,
               env_cleaners = \<lparr>strip_pdf = Inr, strip_ooxml = Inr\<rparr>,
               env_clamd = Some (\<lambda>_. Some (bytes_of ''stream: OK'' @ [0]))\<rparr>"

definition note_upload :: upload where
  "note_upload = \<lparr>up_filename = Some ''C:/x/note?.TXT'', up_data = bytes_of ''hello''\<rparr>"


end
