(* ===== verification/Catalog.thy ===== *)
theory Catalog
  imports Case_Handling Reachability
begin

text \<open>
  What an organisation offers its reporters: categories (\<open>app/services/categories.py\<close>), locations
  (\<open>app/services/locations.py\<close>), the organisations themselves, and their routes in
  \<open>app/api/admin.py\<close>. Text sorts by character code.
\<close>

section \<open>Categories\<close>

definition slug_org_id :: "settings \<Rightarrow> db \<Rightarrow> uuid option" where
  "slug_org_id cfg d = map_option org_id (find (\<lambda>x. org_slug x = cfg_default_org_slug cfg) (db_orgs d))"

definition get_all_categories :: "bool \<times> uuid option \<Rightarrow> category list \<Rightarrow> category list" where
  "get_all_categories scope rows =
     sort_key (\<lambda>c. (cat_sort c, cat_label_en c)) (filter (\<lambda>c. in_scope scope (cat_org c)) rows)"

definition get_active_categories :: "bool \<times> uuid option \<Rightarrow> category list \<Rightarrow> category list" where
  "get_active_categories scope rows = filter cat_active (get_all_categories scope rows)"

definition get_category_by_id :: "db \<Rightarrow> uuid \<Rightarrow> category option" where
  "get_category_by_id d i = row cat_id i (db_categories d)"

definition get_category_by_slug :: "db \<Rightarrow> string \<Rightarrow> uuid option \<Rightarrow> category option" where
  "get_category_by_slug d slug org = find (\<lambda>c. cat_slug c = slug \<and> cat_org c = org) (db_categories d)"

definition create_category ::
  "env \<Rightarrow> db \<Rightarrow> string \<Rightarrow> string \<Rightarrow> string \<Rightarrow> int \<Rightarrow> uuid option \<Rightarrow> (category \<times> db) option" where
  "create_category e d slug label_en label_de sort_order org =
     (let org = (case org of None \<Rightarrow> slug_org_id (env_cfg e) d | Some i \<Rightarrow> Some i) in
      if get_category_by_slug d slug org \<noteq> None then None
      else (let c = \<lparr>cat_id = env_id e 0, cat_slug = slug, cat_label_en = label_en, cat_label_de = label_de,
                     cat_is_default = False, cat_active = True, cat_sort = sort_order, cat_org = org\<rparr>
            in Some (c, d\<lparr>db_categories := db_categories d @ [c]\<rparr>)))"

definition set_category :: "uuid \<Rightarrow> (category \<Rightarrow> category) \<Rightarrow> db \<Rightarrow> db" where
  "set_category i f d = d\<lparr>db_categories := update_row cat_id i f (db_categories d)\<rparr>"

definition slug_char :: "char \<Rightarrow> bool" where
  "slug_char c \<longleftrightarrow> (let n = of_char c :: nat in 97 \<le> n \<and> n \<le> 122 \<or> 48 \<le> n \<and> n \<le> 57 \<or> c = CHR ''_'')"

definition create_category_route ::
  "env \<Rightarrow> db \<Rightarrow> user \<Rightarrow> string \<Rightarrow> string \<Rightarrow> string \<Rightarrow> int \<Rightarrow> outcome" where
  "create_category_route e d u slug_raw en_raw de_raw sort_order =
     on_ok (text_field 64 slug_raw) (\<lambda>slug. on_ok (text_field 128 en_raw) (\<lambda>label_en.
     on_ok (text_field 128 de_raw) (\<lambda>label_de. on_ok (sort_order_field sort_order) (\<lambda>sort_order.
     on_ok (require_admin u) (\<lambda>u.
       let slug_clean = map (\<lambda>c. if c = CHR '' '' then CHR ''_'' else c) (lower (strip slug)) in
       if slug_clean = [] \<or> \<not> list_all slug_char slug_clean \<or> strip label_en = [] \<or> strip label_de = []
       then Inl (Status 400)
       else (case create_category e d slug_clean (strip label_en) (strip label_de) sort_order (usr_org u) of
               None \<Rightarrow> Inl (Status 409)
             | Some (c, d1) \<Rightarrow>
                 Inr (Redirect ''/admin/categories'',
                   audit_log e 1 u ''category.created'' None
                     [(''slug'', cat_slug c), (''label_en'', cat_label_en c)] (Some (cat_org c)) d1)))))))"

definition deactivate_category_route :: "env \<Rightarrow> db \<Rightarrow> user \<Rightarrow> uuid \<Rightarrow> outcome" where
  "deactivate_category_route e d u i =
     on_ok (require_admin u) (\<lambda>u.
       case get_category_by_id d i of
         None \<Rightarrow> Inl (Status 404)
       | Some c \<Rightarrow>
           (case require_same_org (env_cfg e) u (cat_org c) of
              Some x \<Rightarrow> Inl x
            | None \<Rightarrow>
                (if cat_is_default c then Inl (Status 422)
                 else Inr (Redirect ''/admin/categories'',
                   audit_log e 1 u ''category.deactivated'' None [(''slug'', cat_slug c)] (Some (cat_org c))
                     (set_category i (\<lambda>c. c\<lparr>cat_active := False\<rparr>) d)))))"

definition reactivate_category_route :: "env \<Rightarrow> db \<Rightarrow> user \<Rightarrow> uuid \<Rightarrow> outcome" where
  "reactivate_category_route e d u i =
     on_ok (require_admin u) (\<lambda>u.
       case get_category_by_id d i of
         None \<Rightarrow> Inl (Status 404)
       | Some c \<Rightarrow>
           (case require_same_org (env_cfg e) u (cat_org c) of
              Some x \<Rightarrow> Inl x
            | None \<Rightarrow>
                Inr (Redirect ''/admin/categories'',
                  audit_log e 1 u ''category.updated'' None
                    [(''slug'', cat_slug c), (''action'', ''reactivated'')] (Some (cat_org c))
                    (set_category i (\<lambda>c. c\<lparr>cat_active := True\<rparr>) d))))"

text \<open>
  \<open>locale\<close> is the built-in translation of a default category's slug in a language; an empty label
  counts as none.
\<close>

definition label_for :: "(string \<Rightarrow> string \<Rightarrow> string option) \<Rightarrow> string \<Rightarrow> category \<Rightarrow> string" where
  "label_for builtin lang c =
     (if lang = ''de'' \<and> cat_label_de c \<noteq> [] then cat_label_de c
      else if cat_is_default c \<and> lang \<noteq> ''en''
        then (case builtin lang (cat_slug c) of
                Some t \<Rightarrow> if t = [] then cat_label_en c else t | None \<Rightarrow> cat_label_en c)
      else cat_label_en c)"

definition get_category_labels ::
  "(string \<Rightarrow> string \<Rightarrow> string option) \<Rightarrow> string \<Rightarrow> bool \<times> uuid option \<Rightarrow> category list \<Rightarrow> string \<Rightarrow> string option" where
  "get_category_labels builtin lang scope rows =
     map_of (rev (map (\<lambda>c. (cat_slug c, label_for builtin lang c)) (get_all_categories scope rows)))"

section \<open>Locations\<close>

definition get_all_locations :: "bool \<times> uuid option \<Rightarrow> location list \<Rightarrow> location list" where
  "get_all_locations scope rows =
     sort_key (\<lambda>l. (loc_sort l, loc_name l)) (filter (\<lambda>l. in_scope scope (loc_org l)) rows)"

definition get_active_locations :: "bool \<times> uuid option \<Rightarrow> location list \<Rightarrow> location list" where
  "get_active_locations scope rows = filter loc_active (get_all_locations scope rows)"

definition get_location_by_id :: "db \<Rightarrow> uuid \<Rightarrow> location option" where
  "get_location_by_id d i = row loc_id i (db_locations d)"

definition get_location_by_code :: "db \<Rightarrow> string \<Rightarrow> uuid option \<Rightarrow> location option" where
  "get_location_by_code d code org = find (\<lambda>l. loc_code l = code \<and> loc_org l = org) (db_locations d)"

definition create_location ::
  "env \<Rightarrow> db \<Rightarrow> string \<Rightarrow> string \<Rightarrow> string option \<Rightarrow> int \<Rightarrow> uuid option \<Rightarrow> (location \<times> db) option" where
  "create_location e d name code description sort_order org =
     (let org = (case org of None \<Rightarrow> slug_org_id (env_cfg e) d | Some i \<Rightarrow> Some i); code = upper (strip code) in
      if get_location_by_code d code org \<noteq> None then None
      else (let l = \<lparr>loc_id = env_id e 0, loc_name = name, loc_code = code,
                     loc_description = (if description = Some [] then None else description),
                     loc_active = True, loc_sort = sort_order, loc_created_at = env_now e, loc_org = org\<rparr>
            in Some (l, d\<lparr>db_locations := db_locations d @ [l]\<rparr>)))"

definition set_location :: "uuid \<Rightarrow> (location \<Rightarrow> location) \<Rightarrow> db \<Rightarrow> db" where
  "set_location i f d = d\<lparr>db_locations := update_row loc_id i f (db_locations d)\<rparr>"

definition code_char :: "char \<Rightarrow> bool" where
  "code_char c \<longleftrightarrow>
     (let n = of_char c :: nat in 65 \<le> n \<and> n \<le> 90 \<or> 48 \<le> n \<and> n \<le> 57 \<or> c = CHR ''_'' \<or> c = CHR ''-'')"

definition create_location_route ::
  "env \<Rightarrow> db \<Rightarrow> user \<Rightarrow> string \<Rightarrow> string \<Rightarrow> string \<Rightarrow> int \<Rightarrow> outcome" where
  "create_location_route e d u name_raw code_raw description_raw sort_order =
     on_ok (text_field 128 name_raw) (\<lambda>name. on_ok (text_field 32 code_raw) (\<lambda>code.
     on_ok (text_field 512 description_raw) (\<lambda>description. on_ok (sort_order_field sort_order) (\<lambda>sort_order.
     on_ok (require_admin u) (\<lambda>u.
       let code_clean = upper (strip code) in
       if code_clean = [] \<or> \<not> list_all code_char code_clean \<or> strip name = [] then Inl (Status 400)
       else (case create_location e d (strip name) code_clean
                    (if strip description = [] then None else Some (strip description)) sort_order (usr_org u) of
               None \<Rightarrow> Inl (Status 409)
             | Some (l, d1) \<Rightarrow>
                 Inr (Redirect ''/admin/locations'',
                   audit_log e 1 u ''location.created'' None
                     [(''location_code'', code_clean), (''name'', strip name)] (Some (loc_org l)) d1)))))))"

definition switch_location_route :: "env \<Rightarrow> db \<Rightarrow> user \<Rightarrow> uuid \<Rightarrow> bool \<Rightarrow> outcome" where
  "switch_location_route e d u i on =
     on_ok (require_admin u) (\<lambda>u.
       case get_location_by_id d i of
         None \<Rightarrow> Inl (Status 404)
       | Some l \<Rightarrow>
           (case require_same_org (env_cfg e) u (loc_org l) of
              Some x \<Rightarrow> Inl x
            | None \<Rightarrow>
                Inr (Redirect ''/admin/locations'',
                  audit_log e 1 u (if on then ''location.reactivated'' else ''location.deactivated'') None
                    [(''location_code'', loc_code l)] (Some (loc_org l))
                    (set_location i (\<lambda>l. l\<lparr>loc_active := on\<rparr>) d))))"

section \<open>Organisations\<close>

definition org_slug_char :: "char \<Rightarrow> char" where
  "org_slug_char c =
     (let n = of_char c :: nat in
      if 97 \<le> n \<and> n \<le> 122 \<or> 48 \<le> n \<and> n \<le> 57 \<or> c = CHR ''-'' then c else CHR ''-'')"

definition create_organisation :: "env \<Rightarrow> db \<Rightarrow> user \<Rightarrow> string \<Rightarrow> string \<Rightarrow> outcome" where
  "create_organisation e d u name_raw slug_raw =
     on_ok (text_field 128 name_raw) (\<lambda>name. on_ok (text_field 64 slug_raw) (\<lambda>slug.
     on_ok (require_tenants (env_cfg e) u) (\<lambda>u.
       let slug_clean = map org_slug_char (lower (strip slug)) in
       if slug_clean = [] \<or> slug_clean = ''restart'' then Inl (Status 400)
       else if slug_clean \<in> org_slug ` set (db_orgs d) then Inl (Status 409)
       else Inr (Redirect ''/admin/organisations'',
              audit_log e 1 u ''org.created'' None [(''name'', name), (''slug'', slug_clean)] (Some (Some (env_id e 0)))
                (d\<lparr>db_orgs := db_orgs d @
                    [\<lparr>org_id = env_id e 0, org_name = strip name, org_slug = slug_clean, org_active = True,
                      org_created_at = env_now e\<rparr>]\<rparr>)))))"

definition deactivate_organisation :: "env \<Rightarrow> db \<Rightarrow> user \<Rightarrow> uuid \<Rightarrow> outcome" where
  "deactivate_organisation e d u i =
     on_ok (require_tenants (env_cfg e) u) (\<lambda>u.
       case row org_id i (db_orgs d) of
         None \<Rightarrow> Inl (Status 404)
       | Some x \<Rightarrow>
           (if org_slug x = cfg_default_org_slug (env_cfg e) then Inl (Status 400)
            else Inr (Redirect ''/admin/organisations'',
              audit_log e 1 u ''org.deactivated'' None [(''org_id'', string_of_int (int i))] (Some (Some (org_id x)))
                (d\<lparr>db_orgs := update_row org_id i (\<lambda>x. x\<lparr>org_active := False\<rparr>) (db_orgs d)\<rparr>))))"

section \<open>Whose rows a listing shows\<close>

definition listed_categories :: "settings \<Rightarrow> user \<Rightarrow> category list \<Rightarrow> category list" where
  "listed_categories cfg u rows = get_all_categories (org_scope cfg u) rows"

definition listed_locations :: "settings \<Rightarrow> user \<Rightarrow> location list \<Rightarrow> location list" where
  "listed_locations cfg u rows = get_all_locations (org_scope cfg u) rows"

interpretation category_list: tenant_listing listed_categories cat_org
  by unfold_locales (auto simp: listed_categories_def get_all_categories_def)

interpretation location_list: tenant_listing listed_locations loc_org
  by unfold_locales (auto simp: listed_locations_def get_all_locations_def)

section \<open>Keys stay unique\<close>

text \<open>A step commits: its new row has a primary key that no row has.\<close>

inductive catalog_step :: "settings \<Rightarrow> db \<Rightarrow> db \<Rightarrow> bool" for cfg where
  "create_category_route e d u slug en de n = Inr (x, d') \<Longrightarrow> env_cfg e = cfg \<Longrightarrow>
     env_id e 0 \<notin> cat_id ` set (db_categories d) \<Longrightarrow> catalog_step cfg d d'"
| "deactivate_category_route e d u i = Inr (x, d') \<Longrightarrow> env_cfg e = cfg \<Longrightarrow> catalog_step cfg d d'"
| "reactivate_category_route e d u i = Inr (x, d') \<Longrightarrow> env_cfg e = cfg \<Longrightarrow> catalog_step cfg d d'"
| "create_location_route e d u name code descr n = Inr (x, d') \<Longrightarrow> env_cfg e = cfg \<Longrightarrow> catalog_step cfg d d'"
| "switch_location_route e d u i on = Inr (x, d') \<Longrightarrow> env_cfg e = cfg \<Longrightarrow> catalog_step cfg d d'"
| "create_organisation e d u name slug = Inr (x, d') \<Longrightarrow> env_cfg e = cfg \<Longrightarrow>
     env_id e 0 \<notin> org_id ` set (db_orgs d) \<Longrightarrow> catalog_step cfg d d'"
| "deactivate_organisation e d u i = Inr (x, d') \<Longrightarrow> env_cfg e = cfg \<Longrightarrow> catalog_step cfg d d'"

definition default_org_open :: "settings \<Rightarrow> db \<Rightarrow> bool" where
  "default_org_open cfg d \<longleftrightarrow> (\<exists>x \<in> set (db_orgs d). org_slug x = cfg_default_org_slug cfg \<and> org_active x)"

definition catalog_inv :: "settings \<Rightarrow> db \<Rightarrow> bool" where
  "catalog_inv cfg d \<longleftrightarrow>
     distinct (map (\<lambda>c. (cat_slug c, cat_org c)) (db_categories d)) \<and>
     distinct (map (\<lambda>l. (loc_code l, loc_org l)) (db_locations d)) \<and>
     distinct (map org_slug (db_orgs d)) \<and> distinct (map org_id (db_orgs d)) \<and>
     (\<forall>c \<in> set (db_categories d). cat_is_default c \<longrightarrow> cat_active c) \<and> distinct (map cat_id (db_categories d)) \<and>
     default_org_open cfg d"

lemma find_pair_None: "find (\<lambda>x. f x = a \<and> g x = b) rows = None \<Longrightarrow> (a, b) \<notin> (\<lambda>x. (f x, g x)) ` set rows"
  by (auto simp: find_None_iff)

lemma catalog_inv_audit [audit_simps]: "catalog_inv cfg (audit_log e n u x r t g d) = catalog_inv cfg d"
  by (simp add: catalog_inv_def default_org_open_def audit_simps)

lemma create_category_inv:
  assumes "create_category e d slug en de n org = Some (c, d')" "catalog_inv cfg d" "env_id e 0 \<notin> cat_id ` set (db_categories d)"
  shows "catalog_inv cfg d'"
proof -
  from assms(1) obtain org' where "get_category_by_slug d slug org' = None" "cat_slug c = slug" "cat_org c = org'"
    "cat_id c = env_id e 0" "\<not> cat_is_default c" "d' = d\<lparr>db_categories := db_categories d @ [c]\<rparr>"
    by (auto simp: create_category_def Let_def split: if_splits)
  with assms(2,3) find_pair_None [of cat_slug slug cat_org org' "db_categories d"] show ?thesis
    by (simp add: get_category_by_slug_def catalog_inv_def default_org_open_def)
qed

lemma create_location_inv:
  assumes "create_location e d name code descr n org = Some (l, d')" "catalog_inv cfg d"
  shows "catalog_inv cfg d'"
proof -
  from assms(1) obtain org' where "get_location_by_code d (upper (strip code)) org' = None"
    "loc_code l = upper (strip code)" "loc_org l = org'" "d' = d\<lparr>db_locations := db_locations d @ [l]\<rparr>"
    by (auto simp: create_location_def Let_def split: if_splits)
  with assms(2) find_pair_None [of loc_code "upper (strip code)" loc_org org' "db_locations d"] show ?thesis
    by (simp add: get_location_by_code_def catalog_inv_def default_org_open_def)
qed

lemma set_location_inv: "catalog_inv cfg d \<Longrightarrow> catalog_inv cfg (set_location i (\<lambda>l. l\<lparr>loc_active := b\<rparr>) d)"
  using map_update_row [of "\<lambda>l. (loc_code l, loc_org l)" "\<lambda>l. l\<lparr>loc_active := b\<rparr>" loc_id i "db_locations d"]
  by (simp add: catalog_inv_def set_location_def default_org_open_def)

lemma add_org_inv:
  assumes "catalog_inv cfg d" "org_slug x \<notin> org_slug ` set (db_orgs d)" "org_id x \<notin> org_id ` set (db_orgs d)"
  shows "catalog_inv cfg (d\<lparr>db_orgs := db_orgs d @ [x]\<rparr>)"
  using assms by (auto simp: catalog_inv_def default_org_open_def)

lemma close_org_inv:
  assumes "catalog_inv cfg d" "row org_id i (db_orgs d) = Some x" "org_slug x \<noteq> cfg_default_org_slug cfg"
  shows "catalog_inv cfg (d\<lparr>db_orgs := update_row org_id i (\<lambda>x. x\<lparr>org_active := False\<rparr>) (db_orgs d)\<rparr>)"
proof -
  let ?f = "\<lambda>x. x\<lparr>org_active := False\<rparr>"
  have x: "x \<in> set (db_orgs d)" "org_id x = i" using row_Some [OF assms(2)] by auto
  obtain y where y: "y \<in> set (db_orgs d)" "org_slug y = cfg_default_org_slug cfg" "org_active y"
    using assms(1) by (auto simp: catalog_inv_def default_org_open_def)
  have "inj_on org_id (set (db_orgs d))" using assms(1) by (simp add: catalog_inv_def distinct_map)
  from inj_onD [OF this _ x(1) y(1)] have "org_id y \<noteq> i" using x(2) y(2) assms(3) by blast
  then have "y \<in> set (update_row org_id i ?f (db_orgs d))" using y(1) by (force simp: update_row_def)
  with assms(1) y(2,3) map_update_row [of org_slug ?f org_id i "db_orgs d"] map_update_row [of org_id ?f org_id i "db_orgs d"]
  show ?thesis by (auto simp: catalog_inv_def default_org_open_def)
qed

lemma set_category_inv:
  assumes "catalog_inv cfg d" "get_category_by_id d i = Some c" "\<not> cat_is_default c \<or> b"
  shows "catalog_inv cfg (set_category i (\<lambda>c. c\<lparr>cat_active := b\<rparr>) d)"
proof -
  let ?rows = "update_row cat_id i (\<lambda>c. c\<lparr>cat_active := b\<rparr>) (db_categories d)"
  have "c \<in> set (db_categories d)" "cat_id c = i"
    using row_Some [of cat_id i "db_categories d" c] assms(2) by (simp_all add: get_category_by_id_def)
  then have same: "x = c" if "x \<in> set (db_categories d)" "cat_id x = i" for x
    using assms(1) that by (auto simp: catalog_inv_def distinct_map inj_on_def)
  have "map cat_id ?rows = map cat_id (db_categories d)"
    "map (\<lambda>c. (cat_slug c, cat_org c)) ?rows = map (\<lambda>c. (cat_slug c, cat_org c)) (db_categories d)"
    by (rule map_update_row, simp)+
  moreover have "cat_is_default x \<longrightarrow> cat_active x" if "x \<in> set ?rows" for x
    using set_update_row [OF that] same assms(1,3) by (auto simp: catalog_inv_def)
  ultimately show ?thesis
    using assms(1) by (simp add: catalog_inv_def set_category_def default_org_open_def)
qed

lemma catalog_step_inv: "catalog_step cfg d d' \<Longrightarrow> catalog_inv cfg d \<Longrightarrow> catalog_inv cfg d'"
proof (induction rule: catalog_step.induct)
  case (1 e d u slug en de n x d')
  then show ?case
    by (auto simp: create_category_route_def guard_simps audit_simps dest: create_category_inv)
next
  case (4 e d u name code descr n x d')
  then show ?case
    by (auto simp: create_location_route_def guard_simps audit_simps dest: create_location_inv)
next
  case (6 e d u name slug x d')
  then show ?case
    by (auto simp: create_organisation_def guard_simps audit_simps intro!: add_org_inv)
next
  case (7 e d u i x d')
  then show ?case
    by (auto simp: deactivate_organisation_def guard_simps audit_simps intro!: close_org_inv)
qed (auto simp: deactivate_category_route_def reactivate_category_route_def switch_location_route_def guard_simps audit_simps
    intro!: set_category_inv set_location_inv split: option.splits if_splits)

interpretation catalog: invariant_system "catalog_inv cfg" "catalog_step cfg" "catalog_inv cfg"
  by unfold_locales (use catalog_step_inv in blast)+

text \<open>
  Through any sequence of requests: a slug names one category and a code one location of an
  organisation, a slug one organisation; a built-in category stays offered, and the organisation
  reports fall to stays open, so that there is always a wizard with something to choose.
\<close>

theorem catalog_whole:
  assumes "catalog_inv cfg d" "(catalog_step cfg)\<^sup>*\<^sup>* d d'"
  shows "(\<forall>a \<in> set (db_categories d'). \<forall>b \<in> set (db_categories d'). cat_slug a = cat_slug b \<and> cat_org a = cat_org b \<longrightarrow> a = b) \<and>
    (\<forall>a \<in> set (db_locations d'). \<forall>b \<in> set (db_locations d'). loc_code a = loc_code b \<and> loc_org a = loc_org b \<longrightarrow> a = b) \<and>
    (\<forall>a \<in> set (db_orgs d'). \<forall>b \<in> set (db_orgs d'). org_slug a = org_slug b \<longrightarrow> a = b) \<and>
    (\<forall>c \<in> set (db_categories d'). cat_is_default c \<longrightarrow> c \<in> set (get_active_categories (False, None) (db_categories d'))) \<and>
    active_default_org_id cfg d' \<noteq> None"
proof -
  have inv: "catalog_inv cfg d'" using catalog.inv_run [OF assms(2,1)] .
  then have "inj_on (\<lambda>c. (cat_slug c, cat_org c)) (set (db_categories d'))" "inj_on (\<lambda>l. (loc_code l, loc_org l)) (set (db_locations d'))"
    "inj_on org_slug (set (db_orgs d'))"
    by (simp_all add: catalog_inv_def distinct_map)
  moreover have "active_default_org_id cfg d' \<noteq> None"
    using inv by (auto simp: catalog_inv_def default_org_open_def active_default_org_id_def find_None_iff)
  ultimately show ?thesis
    using inv by (auto simp: catalog_inv_def inj_on_def get_active_categories_def get_all_categories_def in_scope_def)
qed

definition sample_org :: "uuid \<Rightarrow> string \<Rightarrow> organisation" where
  "sample_org i slug = \<lparr>org_id = i, org_name = slug, org_slug = slug, org_active = True, org_created_at = 0\<rparr>"

definition one_org :: db where
  "one_org = empty_db\<lparr>db_orgs := [sample_org 1 ''default'']\<rparr>"

theorem catalog_whole_witness:
  "\<exists>x d'. create_category_route toy_env one_org (sample_user 1 Admin (Some 1)) ''Data leak'' ''Leak'' ''Leck'' 5 = Inr (x, d') \<and>
     map cat_slug (db_categories d') = [''data_leak''] \<and> active_default_org_id sample_settings d' \<noteq> None"
proof -
  define res where "res = create_category_route toy_env one_org (sample_user 1 Admin (Some 1)) ''Data leak'' ''Leak'' ''Leck'' 5"
  have "\<not> isl res \<and> map cat_slug (db_categories (snd (projr res))) = [''data_leak'']" unfolding res_def by code_simp
  then obtain x d' where s: "res = Inr (x, d')" "map cat_slug (db_categories d') = [''data_leak'']"
    by (cases res) auto
  have inv: "catalog_inv sample_settings one_org"
    by (simp add: catalog_inv_def default_org_open_def one_org_def empty_db_def sample_org_def sample_settings_def)
  have "env_cfg toy_env = sample_settings" "env_id toy_env 0 \<notin> cat_id ` set (db_categories one_org)"
    by (simp_all add: toy_env_def sample_env_def one_org_def empty_db_def)
  then have run: "(catalog_step sample_settings)\<^sup>*\<^sup>* one_org d'"
    using catalog_step.intros(1) [OF s(1) [unfolded res_def]] by blast
  from catalog_whole [OF inv run] have "active_default_org_id sample_settings d' \<noteq> None" by (elim conjE)
  with s show ?thesis unfolding res_def by (intro exI [of _ x] exI [of _ d'] conjI)
qed

end
