(* ===== verification/User_Admin.thy ===== *)
theory User_Admin
  imports Catalog
begin

text \<open>
  Accounts (\<open>app/services/users.py\<close> and the user routes of \<open>app/api/admin.py\<close>): making one, its role,
  switching it off and on, and the reset of a lost authenticator. Deactivation and the change of a
  role are split where the code awaits the database between its check and its write.
\<close>

section \<open>Names and look-ups\<close>

definition username_char :: "char \<Rightarrow> bool" where
  "username_char c \<longleftrightarrow>
     (let n = of_char c :: nat in 65 \<le> n \<and> n \<le> 90 \<or> 97 \<le> n \<and> n \<le> 122 \<or> 48 \<le> n \<and> n \<le> 57 \<or>
        c = CHR ''.'' \<or> c = CHR ''_'' \<or> c = CHR ''@'' \<or> c = CHR '' '' \<or> c = CHR ''-'')"

definition validate_username :: "string \<Rightarrow> string option" where
  "validate_username username =
     (let candidate = strip username in
      if 3 \<le> length candidate \<and> length candidate \<le> 64 \<and> list_all username_char candidate then Some candidate else None)"

definition get_all_users :: "db \<Rightarrow> user list" where
  "get_all_users d = sort_key usr_created_at (db_users d)"

definition get_user_by_username_ci :: "db \<Rightarrow> string \<Rightarrow> user option" where
  "get_user_by_username_ci d username = find (\<lambda>u. lower (usr_username u) = lower (strip username)) (db_users d)"

definition privileged :: "user \<Rightarrow> bool" where
  "privileged u \<longleftrightarrow> usr_role u \<in> {Admin, Superadmin}"

definition count_active_admins :: "db \<Rightarrow> nat" where
  "count_active_admins d = length (filter (\<lambda>u. usr_role u = Admin \<and> usr_active u) (db_users d))"

definition count_active_privileged_admins :: "db \<Rightarrow> nat" where
  "count_active_privileged_admins d = length (filter (\<lambda>u. privileged u \<and> usr_active u) (db_users d))"

definition role_name :: "role \<Rightarrow> string" where
  "role_name r = (case r of Case_manager \<Rightarrow> ''case_manager'' | Admin \<Rightarrow> ''admin'' | Superadmin \<Rightarrow> ''superadmin'')"

definition role_of :: "string \<Rightarrow> role option" where
  "role_of t = find (\<lambda>r. role_name r = t) [Superadmin, Admin, Case_manager]"

section \<open>Making an account\<close>

definition create_user :: "env \<Rightarrow> db \<Rightarrow> string \<Rightarrow> string \<Rightarrow> role \<Rightarrow> (user \<times> db) option" where
  "create_user e d username password role =
     (case (validate_username username, validate_password password) of
        (Some name, Inr pw) \<Rightarrow>
          (let u = \<lparr>usr_id = env_id e 0, usr_username = name, usr_password_hash = Some (hash_password (env_crypto e) pw),
                    usr_totp_secret = env_token e 0, usr_totp_enabled = False, usr_role = role, usr_active = True,
                    usr_must_change = True, usr_oidc_sub = None, usr_oidc_issuer = None, usr_ldap = None,
                    usr_org = None, usr_created_by = None, usr_created_at = env_now e,
                    usr_last_login_at = None, usr_asked_version = None\<rparr>
           in Some (u, d\<lparr>db_users := db_users d @ [u]\<rparr>))
      | _ \<Rightarrow> None)"

definition new_account_org :: "settings \<Rightarrow> db \<Rightarrow> user \<Rightarrow> string \<Rightarrow> refusal + uuid" where
  "new_account_org cfg d creator chosen =
     (let org = (if chosen \<noteq> [] \<and> cfg_multi_tenancy cfg \<and> usr_role creator = Superadmin
                 then Option.bind (parse_uuid chosen) (\<lambda>i. row org_id i (db_orgs d))
                 else Option.bind (case usr_org creator of Some i \<Rightarrow> Some i | None \<Rightarrow> default_org_id cfg d)
                        (\<lambda>i. row org_id i (db_orgs d)))
      in case org of None \<Rightarrow> Inl (Status 422) | Some x \<Rightarrow> if \<not> org_active x then Inl (Status 422) else Inr (org_id x))"

definition create_user_errors :: "db \<Rightarrow> string \<Rightarrow> string \<Rightarrow> (string \<times> string) list" where
  "create_user_errors d username password =
     (if validate_username username = None then [(''username'', ''wizard.error.username'')]
      else if get_user_by_username_ci d (strip username) \<noteq> None then [(''username'', ''admin.users.add.error.taken'')]
      else []) @
     (case validate_password password of Inl _ \<Rightarrow> [(''password'', ''wizard.error.password'')] | Inr _ \<Rightarrow> [])"

definition create_user_route ::
  "env \<Rightarrow> db \<Rightarrow> user \<Rightarrow> string \<Rightarrow> string \<Rightarrow> string \<Rightarrow> string \<Rightarrow> outcome" where
  "create_user_route e d u username password role chosen =
     on_ok (require_admin u) (\<lambda>u.
       if create_user_errors d username password \<noteq> [] then Inr (Page 422, d)
       else (case role_of role of
               None \<Rightarrow> Inl (Status 422)
             | Some r \<Rightarrow>
                 (if r = Superadmin \<and> usr_role u \<noteq> Superadmin then Inl (Status 403)
                  else on_ok (new_account_org (env_cfg e) d u chosen) (\<lambda>org.
                    case create_user e d (strip username) password r of
                      None \<Rightarrow> Inl (Status 400)
                    | Some (new, d1) \<Rightarrow>
                        Inr (Redirect ''/admin/users'',
                          audit_log e 1 u ''admin.created'' None
                            [(''username'', usr_username new), (''role'', role_name r)] (Some (Some org))
                            (set_user (usr_id new)
                              (\<lambda>x. x\<lparr>usr_org := Some org, usr_created_by := Some (usr_id u)\<rparr>) d1))))))"

section \<open>Role, deactivation, reactivation\<close>

definition role_change_allowed :: "settings \<Rightarrow> db \<Rightarrow> user \<Rightarrow> uuid \<Rightarrow> string \<Rightarrow> refusal + (user \<times> role)" where
  "role_change_allowed cfg d u i role =
     on_ok (require_admin u) (\<lambda>u.
       case user_of d i of
         None \<Rightarrow> Inl (Status 404)
       | Some target \<Rightarrow>
           (case require_may_manage cfg u target of
              Some x \<Rightarrow> Inl x
            | None \<Rightarrow>
                (case role_of role of
                   None \<Rightarrow> Inl (Status 422)
                 | Some r \<Rightarrow>
                     (if usr_id target = usr_id u then Inl (Status 403)
                      else if r = Superadmin \<and> usr_role u \<noteq> Superadmin then Inl (Status 403)
                      else if privileged target \<and> r = Case_manager \<and> usr_active target \<and>
                              count_active_privileged_admins d \<le> 1 then Inl (Status 422)
                      else Inr (target, r)))))"

definition apply_role_change :: "env \<Rightarrow> user \<Rightarrow> user \<times> role \<Rightarrow> db \<Rightarrow> response \<times> db" where
  "apply_role_change e u checked d =
     (let (target, r) = checked in
      (Redirect ''/admin/users'',
       audit_log e 1 u ''admin.role_changed'' None
         [(''username'', usr_username target), (''old'', role_name (usr_role target)), (''new'', role_name r)]
         (Some (usr_org target)) (set_user (usr_id target) (\<lambda>x. x\<lparr>usr_role := r\<rparr>) d)))"

definition change_user_role :: "env \<Rightarrow> db \<Rightarrow> user \<Rightarrow> uuid \<Rightarrow> string \<Rightarrow> outcome" where
  "change_user_role e d u i role =
     on_ok (role_change_allowed (env_cfg e) d u i role) (\<lambda>checked. Inr (apply_role_change e u checked d))"

definition deactivation_allowed :: "settings \<Rightarrow> db \<Rightarrow> user \<Rightarrow> uuid \<Rightarrow> refusal + user" where
  "deactivation_allowed cfg d u i =
     on_ok (require_admin u) (\<lambda>u.
       case user_of d i of
         None \<Rightarrow> Inl (Status 404)
       | Some target \<Rightarrow>
           (if usr_id target = usr_id u then Inl (Status 400)
            else (case require_may_manage cfg u target of
                    Some x \<Rightarrow> Inl x
                  | None \<Rightarrow>
                      (if privileged target \<and> usr_active target \<and> count_active_privileged_admins d \<le> 1
                       then Inl (Status 422) else Inr target))))"

definition apply_deactivation :: "env \<Rightarrow> user \<Rightarrow> user \<Rightarrow> db \<Rightarrow> response \<times> db" where
  "apply_deactivation e u target d =
     (Redirect ''/admin/users'',
      audit_log e 1 u ''admin.deactivated'' None [(''username'', usr_username target)] (Some (usr_org target))
        (set_user (usr_id target) (\<lambda>x. x\<lparr>usr_active := False\<rparr>) d))"

text \<open>The sessions end after the commit.\<close>

definition deactivate_user :: "env \<Rightarrow> redis \<Rightarrow> db \<Rightarrow> user \<Rightarrow> uuid \<Rightarrow> refusal + (response \<times> redis \<times> db)" where
  "deactivate_user e rd d u i =
     on_ok (deactivation_allowed (env_cfg e) d u i) (\<lambda>target.
       let (x, d') = apply_deactivation e u target d
       in Inr (x, snd (revoke_user_sessions e rd (usr_id target) None), d'))"

definition reactivate_user :: "env \<Rightarrow> db \<Rightarrow> user \<Rightarrow> uuid \<Rightarrow> outcome" where
  "reactivate_user e d u i =
     on_ok (require_admin u) (\<lambda>u.
       case user_of d i of
         None \<Rightarrow> Inl (Status 404)
       | Some target \<Rightarrow>
           (case require_may_manage (env_cfg e) u target of
              Some x \<Rightarrow> Inl x
            | None \<Rightarrow>
                Inr (Redirect ''/admin/users'',
                  audit_log e 1 u ''admin.reactivated'' None [(''username'', usr_username target)] (Some (usr_org target))
                    (set_user i (\<lambda>x. x\<lparr>usr_active := True\<rparr>) d))))"

section \<open>A lost authenticator\<close>

definition require_new_authenticator :: "string \<Rightarrow> user \<Rightarrow> user" where
  "require_new_authenticator secret u = u\<lparr>usr_totp_secret := secret, usr_totp_enabled := False\<rparr>"

definition new_temporary_password :: "env \<Rightarrow> string option" where
  "new_temporary_password e = (case validate_password (env_token e 1) of Inl _ \<Rightarrow> None | Inr p \<Rightarrow> Some p)"

definition reset_user_totp ::
  "env \<Rightarrow> redis \<Rightarrow> db \<Rightarrow> user \<Rightarrow> uuid \<Rightarrow> refusal + (response \<times> string option \<times> redis \<times> db)" where
  "reset_user_totp e rd d u i =
     on_ok (require_superadmin u) (\<lambda>u.
       case user_of d i of
         None \<Rightarrow> Inl (Status 404)
       | Some target \<Rightarrow>
           (case require_same_org (env_cfg e) u (usr_org target) of
              Some x \<Rightarrow> Inl x
            | None \<Rightarrow>
                (if usr_id target = usr_id u then Inl (Status 400)
                 else if cfg_demo_mode (env_cfg e) \<and> usr_username target \<in> set DEMO_USERNAMES then Inl (Status 403)
                 else on_ok (if usr_password_hash target \<noteq> None \<and> usr_password_hash target \<noteq> Some []
                             then (case new_temporary_password e of None \<Rightarrow> Inl (Status 500) | Some p \<Rightarrow> Inr (Some p))
                             else Inr None) (\<lambda>temporary.
                   let changed = (\<lambda>x.
                         (let x = require_new_authenticator (env_token e 0) x in
                          case temporary of
                            None \<Rightarrow> x
                          | Some p \<Rightarrow> x\<lparr>usr_password_hash := Some (hash_password (env_crypto e) p),
                                        usr_must_change := True, usr_created_by := Some (usr_id u)\<rparr>))
                   in Inr (Page 200, temporary, snd (revoke_user_sessions e rd i None),
                        audit_log e 1 u ''admin.totp_reset'' None
                          [(''username'', usr_username target),
                           (''password_reset'', if temporary \<noteq> None then ''true'' else ''false'')]
                          (Some (usr_org target)) (set_user i changed d))))))"

section \<open>The list\<close>

definition listed_users :: "settings \<Rightarrow> user \<Rightarrow> user list \<Rightarrow> user list" where
  "listed_users cfg u rows = filter (\<lambda>x. in_scope (org_scope cfg u) (usr_org x)) (sort_key usr_created_at rows)"

interpretation user_list: tenant_listing listed_users usr_org
  by unfold_locales (auto simp: listed_users_def)

section \<open>Somebody can always run the instance\<close>

inductive user_step :: "settings \<Rightarrow> db \<Rightarrow> db \<Rightarrow> bool" for cfg where
  made: "create_user_route e d u name pw r org = Inr (x, d') \<Longrightarrow> env_cfg e = cfg \<Longrightarrow> user_of d (usr_id u) = Some u \<Longrightarrow>
    usr_active u \<Longrightarrow> env_id e 0 \<notin> usr_id ` set (db_users d) \<Longrightarrow> user_step cfg d d'"
| role_changed: "change_user_role e d u i r = Inr (x, d') \<Longrightarrow> env_cfg e = cfg \<Longrightarrow> user_of d (usr_id u) = Some u \<Longrightarrow>
    usr_active u \<Longrightarrow> user_step cfg d d'"
| deactivated: "deactivate_user e rd d u i = Inr (x, rd', d') \<Longrightarrow> env_cfg e = cfg \<Longrightarrow> user_of d (usr_id u) = Some u \<Longrightarrow>
    usr_active u \<Longrightarrow> user_step cfg d d'"
| reactivated: "reactivate_user e d u i = Inr (x, d') \<Longrightarrow> env_cfg e = cfg \<Longrightarrow> user_of d (usr_id u) = Some u \<Longrightarrow>
    usr_active u \<Longrightarrow> user_step cfg d d'"
| totp_reset: "reset_user_totp e rd d u i = Inr (x, p, rd', d') \<Longrightarrow> env_cfg e = cfg \<Longrightarrow> user_of d (usr_id u) = Some u \<Longrightarrow>
    usr_active u \<Longrightarrow> user_step cfg d d'"

definition has_superadmin :: "db \<Rightarrow> bool" where
  "has_superadmin d \<longleftrightarrow> (\<exists>u \<in> set (db_users d). usr_role u = Superadmin \<and> usr_active u)"

definition users_inv :: "db \<Rightarrow> bool" where
  "users_inv d \<longleftrightarrow> distinct (map usr_id (db_users d)) \<and> distinct (map (\<lambda>u. lower (usr_username u)) (db_users d)) \<and>
     has_superadmin d"

lemma users_inv_audit [audit_simps]: "users_inv (audit_log e n u x r t g d) = users_inv d"
  by (simp add: users_inv_def has_superadmin_def audit_simps)

lemma user_of_set: "user_of d i = Some u \<Longrightarrow> u \<in> set (db_users d) \<and> usr_id u = i"
  unfolding user_of_def by (rule row_Some)

text \<open>A change of one account keeps a superadmin when it keeps that account one, or leaves another in place.\<close>

lemma users_inv_set_user:
  assumes inv: "users_inv d" and f: "\<And>x. usr_id (f x) = usr_id x" "\<And>x. usr_username (f x) = usr_username x"
    and keeps: "(\<forall>x. usr_id x = i \<and> usr_role x = Superadmin \<and> usr_active x \<longrightarrow> usr_role (f x) = Superadmin \<and> usr_active (f x)) \<or>
      (\<exists>s \<in> set (db_users d). usr_id s \<noteq> i \<and> usr_role s = Superadmin \<and> usr_active s)"
  shows "users_inv (set_user i f d)"
proof -
  let ?rows = "update_row usr_id i f (db_users d)"
  have "map usr_id ?rows = map usr_id (db_users d)"
    "map (\<lambda>u. lower (usr_username u)) ?rows = map (\<lambda>u. lower (usr_username u)) (db_users d)"
    by (rule map_update_row, simp add: f)+
  moreover have "has_superadmin (set_user i f d)"
    using keeps
  proof
    assume "\<exists>s \<in> set (db_users d). usr_id s \<noteq> i \<and> usr_role s = Superadmin \<and> usr_active s"
    then obtain s where s: "s \<in> set (db_users d)" "usr_id s \<noteq> i" "usr_role s = Superadmin" "usr_active s" by blast
    then have "s \<in> set ?rows" by (force simp: update_row_def)
    with s show ?thesis by (auto simp: has_superadmin_def set_user_def)
  next
    assume k: "\<forall>x. usr_id x = i \<and> usr_role x = Superadmin \<and> usr_active x \<longrightarrow> usr_role (f x) = Superadmin \<and> usr_active (f x)"
    obtain s where s: "s \<in> set (db_users d)" "usr_role s = Superadmin" "usr_active s"
      using inv by (auto simp: users_inv_def has_superadmin_def)
    then have "(if usr_id s = i then f s else s) \<in> set ?rows" by (auto simp: update_row_def)
    moreover have "usr_role (if usr_id s = i then f s else s) = Superadmin \<and> usr_active (if usr_id s = i then f s else s)"
      using k s by simp
    ultimately show ?thesis unfolding has_superadmin_def set_user_def by force
  qed
  ultimately show ?thesis using inv by (simp add: users_inv_def set_user_def)
qed

text \<open>Taking a superadmin's power needs another superadmin, who keeps it.\<close>

lemma users_inv_demote:
  assumes "users_inv d" "\<And>x. usr_id (f x) = usr_id x" "\<And>x. usr_username (f x) = usr_username x"
    and u: "user_of d (usr_id u) = Some u" "usr_active u" "usr_id t \<noteq> usr_id u" "user_of d (usr_id t) = Some t"
    and m: "require_may_manage cfg u t = None"
  shows "users_inv (set_user (usr_id t) f d)"
proof (rule users_inv_set_user [OF assms(1-3)])
  have ut: "u \<in> set (db_users d)" "t \<in> set (db_users d)" using user_of_set u by blast+
  obtain s where s: "s \<in> set (db_users d)" "usr_role s = Superadmin" "usr_active s"
    using assms(1) by (auto simp: users_inv_def has_superadmin_def)
  have "inj_on usr_id (set (db_users d))" using assms(1) by (simp add: users_inv_def distinct_map)
  then have "s = t" if "usr_id s = usr_id t" using inj_onD [OF _ that s(1) ut(2)] by blast
  moreover have "usr_role t = Superadmin \<Longrightarrow> usr_role u = Superadmin" using m by (simp add: require_may_manage_None)
  ultimately have "\<exists>s \<in> set (db_users d). usr_id s \<noteq> usr_id t \<and> usr_role s = Superadmin \<and> usr_active s"
    using s ut u(2,3) by (cases "usr_id s = usr_id t") (force, blast)
  then show "(\<forall>x. usr_id x = usr_id t \<and> usr_role x = Superadmin \<and> usr_active x \<longrightarrow> usr_role (f x) = Superadmin \<and> usr_active (f x)) \<or>
      (\<exists>s \<in> set (db_users d). usr_id s \<noteq> usr_id t \<and> usr_role s = Superadmin \<and> usr_active s)" ..
qed

lemma role_change_allowed_Inr:
  "role_change_allowed cfg d u i r = Inr (t, r') \<Longrightarrow>
     user_of d i = Some t \<and> usr_id t \<noteq> usr_id u \<and> require_may_manage cfg u t = None \<and>
     (r' = Superadmin \<longrightarrow> usr_role u = Superadmin) \<and> privileged u"
  by (auto simp: role_change_allowed_def guard_simps privileged_def split: option.split_asm)

lemma deactivation_allowed_Inr:
  "deactivation_allowed cfg d u i = Inr t \<Longrightarrow>
     user_of d i = Some t \<and> usr_id t \<noteq> usr_id u \<and> require_may_manage cfg u t = None \<and> privileged u"
  by (auto simp: deactivation_allowed_def guard_simps privileged_def split: option.split_asm)

lemma create_user_route_Inr:
  assumes "create_user_route e d u name pw r chosen = Inr (x, d')"
  shows "x = Page 422 \<and> d' = d \<or> (\<exists>new role org. role_of r = Some role \<and> (role = Superadmin \<longrightarrow> usr_role u = Superadmin) \<and>
    new_account_org (env_cfg e) d u chosen = Inr org \<and> create_user_errors d name pw = [] \<and>
    create_user e d (strip name) pw role = Some (new, d\<lparr>db_users := db_users d @ [new]\<rparr>) \<and>
    d' = audit_log e 1 u ''admin.created'' None [(''username'', usr_username new), (''role'', role_name role)] (Some (Some org))
           (set_user (usr_id new) (\<lambda>x. x\<lparr>usr_org := Some org, usr_created_by := Some (usr_id u)\<rparr>)
             (d\<lparr>db_users := db_users d @ [new]\<rparr>)))"
  using assms
  by (auto simp: create_user_route_def guard_simps create_user_def split: if_split_asm option.split_asm sum.split_asm prod.split_asm)

lemma create_user_new:
  "create_user e d name pw r = Some (new, d1) \<Longrightarrow>
     usr_id new = env_id e 0 \<and> validate_username name = Some (usr_username new) \<and> usr_role new = r \<and>
     \<not> usr_totp_enabled new \<and> usr_must_change new \<and> d1 = d\<lparr>db_users := db_users d @ [new]\<rparr>"
  by (auto simp: create_user_def Let_def split: option.splits sum.splits)

lemma users_inv_create:
  assumes inv: "users_inv d" and new: "create_user e d (strip name) pw r = Some (new, d1)"
    and ok: "create_user_errors d name pw = []" and fresh: "env_id e 0 \<notin> usr_id ` set (db_users d)"
  shows "users_inv d1"
proof -
  from create_user_new [OF new] have n: "usr_id new = env_id e 0" "usr_username new = strip name" "d1 = d\<lparr>db_users := db_users d @ [new]\<rparr>"
    by (auto simp: validate_username_def Let_def split: if_splits)
  have "get_user_by_username_ci d (strip name) = None"
    using ok by (auto simp: create_user_errors_def split: if_splits)
  then have "lower (usr_username new) \<notin> (\<lambda>u. lower (usr_username u)) ` set (db_users d)"
    by (auto simp: get_user_by_username_ci_def find_None_iff n(2))
  with inv n fresh show ?thesis by (auto simp: users_inv_def has_superadmin_def)
qed

lemma user_step_inv: "user_step cfg d d' \<Longrightarrow> users_inv d \<Longrightarrow> users_inv d'"
proof (induction rule: user_step.induct)
  case (made e d u name pw r org x d')
  from create_user_route_Inr [OF made(1)] made(5,6) show ?case
    by (auto simp: audit_simps intro!: users_inv_set_user dest: users_inv_create)
next
  case (role_changed e d u i r x d')
  then obtain t r' where t: "role_change_allowed cfg d u i r = Inr (t, r')" "apply_role_change e u (t, r') d = (x, d')"
    by (auto simp: change_user_role_def guard_simps)
  have "usr_id t = i" using role_change_allowed_Inr [OF t(1)] user_of_set by blast
  with role_change_allowed_Inr [OF t(1)] t(2) role_changed(3-) show ?case
    by (auto simp: apply_role_change_def Let_def audit_simps intro!: users_inv_demote)
next
  case (deactivated e rd d u i x rd' d')
  then obtain t where t: "deactivation_allowed cfg d u i = Inr t" "apply_deactivation e u t d = (x, d')"
    by (auto simp: deactivate_user_def guard_simps case_prod_unfold prod_eq_iff)
  have "usr_id t = i" using deactivation_allowed_Inr [OF t(1)] user_of_set by blast
  with deactivation_allowed_Inr [OF t(1)] t(2) deactivated(3-) show ?case
    by (auto simp: apply_deactivation_def audit_simps intro!: users_inv_demote)
next
  case (reactivated e d u i x d')
  then show ?case
    by (auto simp: reactivate_user_def guard_simps audit_simps split: option.split_asm intro!: users_inv_set_user)
next
  case (totp_reset e rd d u i x p rd' d')
  then show ?case
    by (auto simp: reset_user_totp_def guard_simps audit_simps require_new_authenticator_def
        split: option.split_asm if_split_asm intro!: users_inv_set_user split: option.splits)
qed

interpretation accounts: invariant_system users_inv "user_step cfg" users_inv
  by unfold_locales (use user_step_inv in blast)+

text \<open>
  C29. Whatever the admins do to each other's accounts, one request after the other, an active superadmin
  remains, and so an account that can run the instance; identifiers stay unique, and so do names,
  case-insensitively.
\<close>

theorem superadmin_remains:
  assumes "users_inv d" "(user_step cfg)\<^sup>*\<^sup>* d d'"
  shows "(\<exists>u \<in> set (db_users d'). usr_role u = Superadmin \<and> usr_active u \<and> may_run_the_instance cfg u) \<and>
    0 < count_active_privileged_admins d' \<and> distinct (map usr_id (db_users d')) \<and>
    (\<forall>name. length (filter (\<lambda>u. lower (usr_username u) = lower name) (db_users d')) \<le> 1)"
proof -
  have inv: "users_inv d'" using accounts.inv_run [OF assms(2,1)] .
  then obtain u where u: "u \<in> set (db_users d')" "usr_role u = Superadmin" "usr_active u"
    by (auto simp: users_inv_def has_superadmin_def)
  then have "filter (\<lambda>u. privileged u \<and> usr_active u) (db_users d') \<noteq> []"
    by (auto simp: filter_empty_conv privileged_def)
  moreover have "length (filter (\<lambda>u. k u = x) rows) \<le> 1" if "distinct (map k rows)" for k :: "user \<Rightarrow> string" and x rows
    using that
  proof (induction rows)
    case (Cons y ys)
    have "filter (\<lambda>u. k u = k y) ys = []" using Cons.prems by (auto simp: filter_empty_conv image_iff)
    with Cons show ?case by (cases "k y = x") auto
  qed simp
  ultimately show ?thesis
    using inv u by (auto simp: users_inv_def count_active_privileged_admins_def may_run_the_instance_def)
qed

definition two_superadmins :: db where
  "two_superadmins = empty_db\<lparr>db_users := [sample_user 1 Superadmin None, sample_user 2 Superadmin None]\<rparr>"

theorem superadmin_remains_witness:
  "\<exists>x rd d'. deactivate_user toy_env [] two_superadmins (sample_user 1 Superadmin None) 2 = Inr (x, rd, d') \<and>
     0 < count_active_privileged_admins d'"
proof -
  define res where "res = deactivate_user toy_env [] two_superadmins (sample_user 1 Superadmin None) 2"
  have "\<not> isl res" unfolding res_def by code_simp
  then obtain x rd d' where s: "res = Inr (x, rd, d')" by (cases res) auto
  have inv: "users_inv two_superadmins" by code_simp
  have "user_of two_superadmins (usr_id (sample_user 1 Superadmin None)) = Some (sample_user 1 Superadmin None)"
    "usr_active (sample_user 1 Superadmin None)" by code_simp+
  then have "user_step (env_cfg toy_env) two_superadmins d'"
    using s unfolding res_def by (intro deactivated) simp_all
  then have run: "(user_step (env_cfg toy_env))\<^sup>*\<^sup>* two_superadmins d'" by blast
  from superadmin_remains [OF inv run] have "0 < count_active_privileged_admins d'" by (elim conjE)
  with s show ?thesis unfolding res_def by (intro exI conjI)
qed

text \<open>
  Two requests at once can break it: each superadmin's request to deactivate the other reads two active
  privileged accounts, both pass the check, both write, and no active account is left that could run
  the instance.
\<close>

theorem superadmins_can_lock_each_other_out:
  "let a = sample_user 1 Superadmin None; b = sample_user 2 Superadmin None; d = two_superadmins in
   deactivation_allowed sample_settings d a 2 = Inr b \<and> deactivation_allowed sample_settings d b 1 = Inr a \<and>
   count_active_privileged_admins (snd (apply_deactivation toy_env b a (snd (apply_deactivation toy_env a b d)))) = 0"
  by code_simp

text \<open>
  A new account has the maker's organisation, or an active one a superadmin chose, at most the rank
  its maker may give, and can do nothing before its holder has enrolled an authenticator and replaced
  the password; its maker is on record, and the entry is in its organisation's log.
\<close>

theorem new_account_confined:
  assumes "create_user_route e d u name pw role chosen = Inr (Redirect p, d')" "env_id e 0 \<notin> usr_id ` set (db_users d)"
  shows "\<exists>new org. user_of d' (env_id e 0) = Some new \<and>
    (\<exists>o'. row org_id org (db_orgs d) = Some o' \<and> org_active o') \<and> usr_org new = Some org \<and>
    (usr_role u \<noteq> Superadmin \<or> \<not> cfg_multi_tenancy (env_cfg e) \<longrightarrow>
       Some org = (case usr_org u of Some i \<Rightarrow> Some i | None \<Rightarrow> default_org_id (env_cfg e) d)) \<and>
    (usr_role new = Superadmin \<longrightarrow> usr_role u = Superadmin) \<and> usr_created_by new = Some (usr_id u) \<and>
    usr_must_change new \<and> (\<forall>rd t. get_current_admin e rd d' t \<noteq> Inr new) \<and>
    aud_action (last (db_audit d')) = ''admin.created'' \<and> aud_org (last (db_audit d')) = Some org \<and>
    (\<forall>i. i \<noteq> env_id e 0 \<longrightarrow> user_of d' i = user_of d i)"
proof -
  define f where "f = (\<lambda>org x. x\<lparr>usr_org := Some org, usr_created_by := Some (usr_id u)\<rparr> :: user)"
  from create_user_route_Inr [OF assms(1)] obtain new r org where c: "r = Superadmin \<longrightarrow> usr_role u = Superadmin"
    "new_account_org (env_cfg e) d u chosen = Inr org"
    "create_user e d (strip name) pw r = Some (new, d\<lparr>db_users := db_users d @ [new]\<rparr>)"
    "d' = audit_log e 1 u ''admin.created'' None [(''username'', usr_username new), (''role'', role_name r)] (Some (Some org))
           (set_user (usr_id new) (f org) (d\<lparr>db_users := db_users d @ [new]\<rparr>))"
    unfolding f_def by (elim disjE exE conjE) simp_all
  note n = create_user_new [OF c(3)]
  have none: "row usr_id (usr_id new) (db_users d) = None" using assms(2) n by (simp add: row_None)
  have users: "user_of d' i = (if i = usr_id new then Some (f org new) else user_of d i)" for i
    using none by (simp add: c(4) audit_simps user_of_def set_user_def row_update row_append f_def split: option.split)
  have org: "\<exists>o'. row org_id org (db_orgs d) = Some o' \<and> org_active o'"
    "usr_role u \<noteq> Superadmin \<or> \<not> cfg_multi_tenancy (env_cfg e) \<longrightarrow>
       Some org = (case usr_org u of Some i \<Rightarrow> Some i | None \<Rightarrow> default_org_id (env_cfg e) d)"
    using c(2) by (auto simp: new_account_org_def Let_def split: option.split_asm if_split_asm dest: row_Some dest!: bind_eq_Some_conv [THEN iffD1])
  show ?thesis
    by (intro exI [of _ "f org new"] exI [of _ org] conjI org)
      (use c n users in \<open>auto simp: f_def audit_log_def audit_org_def elim!: get_current_admin_Inr\<close>)
qed

theorem new_account_confined_witness:
  "\<exists>d' new. create_user_route toy_env (one_org\<lparr>db_users := [sample_user 1 Admin None]\<rparr>) (sample_user 1 Admin None) '' Ann Lee ''
       (replicate 12 (CHR ''x'')) ''case_manager'' [] = Inr (Redirect ''/admin/users'', d') \<and>
     user_of d' 100 = Some new \<and> usr_org new = Some 1 \<and> usr_created_by new = Some 1"
proof -
  define d where "d = one_org\<lparr>db_users := [sample_user 1 Admin None]\<rparr>"
  define pw where "pw = replicate 12 (CHR ''x'')"
  define res where "res = create_user_route toy_env d (sample_user 1 Admin None) '' Ann Lee '' pw ''case_manager'' []"
  have "\<not> isl res \<and> fst (projr res) = Redirect ''/admin/users''" unfolding res_def d_def pw_def by code_simp
  then obtain d' where s: "res = Inr (Redirect ''/admin/users'', d')" by (cases res) auto
  have id: "env_id toy_env 0 = 100" by code_simp
  have "env_id toy_env 0 \<notin> usr_id ` set (db_users d)" by (simp add: id d_def sample_user_def)
  from new_account_confined [OF s [unfolded res_def] this] obtain new org where
    n: "user_of d' 100 = Some new" "usr_org new = Some org" "usr_created_by new = Some (usr_id (sample_user 1 Admin None))"
    "usr_role (sample_user 1 Admin None) \<noteq> Superadmin \<or> \<not> cfg_multi_tenancy (env_cfg toy_env) \<longrightarrow>
       Some org = (case usr_org (sample_user 1 Admin None) of Some i \<Rightarrow> Some i | None \<Rightarrow> default_org_id (env_cfg toy_env) d)"
    unfolding id by (elim exE conjE)
  have "default_org_id (env_cfg toy_env) d = Some 1" unfolding d_def by code_simp
  with n have "org = 1" "usr_created_by new = Some 1" by (simp_all add: sample_user_def)
  with n s show ?thesis unfolding res_def d_def pw_def by (intro exI conjI) simp_all
qed

end
