(* ===== verification/Draft_Claim.thy ===== *)
theory Draft_Claim
  imports Kv_Store Reachability
begin

text \<open>
  Who holds a draft while it is being submitted (\<open>app/api/reports.py\<close>): the scripts that move it
  between its keys, each one atomic command of Redis, and the concurrent submits, recoveries and saves
  of one draft as a step relation. Tokens, nonces and sealed results are the texts stored.
\<close>

section \<open>Keys and scripts\<close>

definition SUBMISSION_TTL :: int where "SUBMISSION_TTL = 7200"
definition RESULT_TTL :: int where "RESULT_TTL = 120"
definition PENDING_TTL :: int where "PENDING_TTL = 120"
definition SUBMIT_TIMEOUT_SECONDS :: int where "SUBMIT_TIMEOUT_SECONDS = 30"

lemmas submission_times = SUBMISSION_TTL_def RESULT_TTL_def PENDING_TTL_def SUBMIT_TIMEOUT_SECONDS_def

definition draft_key :: "string \<Rightarrow> string" where "draft_key s = ''submission-session:'' @ takeWhile (\<lambda>c. c \<noteq> CHR ''.'') s"
definition claimed_key :: "string \<Rightarrow> string" where "claimed_key s = draft_key s @ '':claimed''"
definition pending_key :: "string \<Rightarrow> string" where "pending_key s = draft_key s @ '':pending''"
definition result_key :: "string \<Rightarrow> string" where "result_key s = draft_key s @ '':result''"
definition report_id_key :: "string \<Rightarrow> string" where "report_id_key s = draft_key s @ '':report-id''"

lemma session_keys_distinct [simp]:
  "claimed_key s \<noteq> draft_key s" "pending_key s \<noteq> draft_key s" "result_key s \<noteq> draft_key s" "report_id_key s \<noteq> draft_key s"
  "draft_key s \<noteq> claimed_key s" "pending_key s \<noteq> claimed_key s" "result_key s \<noteq> claimed_key s" "report_id_key s \<noteq> claimed_key s"
  "draft_key s \<noteq> pending_key s" "claimed_key s \<noteq> pending_key s" "result_key s \<noteq> pending_key s" "report_id_key s \<noteq> pending_key s"
  "draft_key s \<noteq> result_key s" "claimed_key s \<noteq> result_key s" "pending_key s \<noteq> result_key s" "report_id_key s \<noteq> result_key s"
  "draft_key s \<noteq> report_id_key s" "claimed_key s \<noteq> report_id_key s" "pending_key s \<noteq> report_id_key s" "result_key s \<noteq> report_id_key s"
  by (simp_all add: claimed_key_def pending_key_def result_key_def report_id_key_def)

definition assign_report_id :: "int \<Rightarrow> redis \<Rightarrow> string \<Rightarrow> string \<Rightarrow> nat \<Rightarrow> rval option \<times> redis" where
  "assign_report_id now r s token new =
     (if kv_get now r (draft_key s) \<noteq> Some (Txt token) then (None, r)
      else let r1 = snd (kv_setnx now r (report_id_key s) (Ref new) SUBMISSION_TTL)
           in (kv_get now r1 (report_id_key s), r1))"

definition claim_draft :: "int \<Rightarrow> redis \<Rightarrow> string \<Rightarrow> string \<Rightarrow> rval option \<times> redis" where
  "claim_draft now r s nonce =
     (if \<not> kv_exists now r (draft_key s) \<or> kv_exists now r (claimed_key s) then (None, r)
      else let r1 = kv_rename now r (draft_key s) (claimed_key s);
               r2 = kv_set now r1 (pending_key s) (Txt nonce) PENDING_TTL
           in (kv_get now r2 (claimed_key s), r2))"

text \<open>No result: the report does not exist, and the draft is given back.\<close>

definition recover_draft :: "int \<Rightarrow> redis \<Rightarrow> string \<Rightarrow> string \<Rightarrow> string option \<Rightarrow> bool \<times> redis" where
  "recover_draft now r s token result =
     (if kv_exists now r (pending_key s) \<or> kv_exists now r (draft_key s) \<or>
         kv_get now r (claimed_key s) \<noteq> Some (Txt token) then (False, r)
      else case result of
             None \<Rightarrow> (True, kv_rename now r (claimed_key s) (draft_key s))
           | Some x \<Rightarrow>
               (True, kv_set now (kv_del (kv_del r (claimed_key s)) (report_id_key s)) (result_key s) (Txt x) RESULT_TTL))"

definition give_back_draft :: "int \<Rightarrow> redis \<Rightarrow> string \<Rightarrow> string \<Rightarrow> string \<Rightarrow> bool \<times> redis" where
  "give_back_draft now r s token nonce =
     (case kv_get now r (pending_key s) of
        Some v \<Rightarrow> if v \<noteq> Txt nonce then (False, r) else (True,
          kv_del (kv_del (if kv_exists now r (draft_key s) then r
                          else kv_set now r (draft_key s) (Txt token) SUBMISSION_TTL) (claimed_key s)) (pending_key s))
      | None \<Rightarrow> (True,
          kv_del (kv_del (if kv_exists now r (draft_key s) then r
                          else kv_set now r (draft_key s) (Txt token) SUBMISSION_TTL) (claimed_key s)) (pending_key s)))"

definition finish_claim :: "int \<Rightarrow> redis \<Rightarrow> string \<Rightarrow> string \<Rightarrow> string option \<Rightarrow> redis" where
  "finish_claim now r s nonce result =
     (let r1 = (case result of None \<Rightarrow> r | Some x \<Rightarrow> kv_set now r (result_key s) (Txt x) RESULT_TTL);
          spent = kv_del (kv_del (kv_del (kv_del r1 (draft_key s)) (claimed_key s)) (pending_key s)) (report_id_key s)
      in case kv_get now r1 (pending_key s) of
           None \<Rightarrow> spent
         | Some v \<Rightarrow> if v = Txt nonce then spent else r1)"

text \<open>What a recovery looks up before its script: the claimed draft, once nothing is pending.\<close>

definition abandoned :: "int \<Rightarrow> redis \<Rightarrow> string \<Rightarrow> rval option" where
  "abandoned now r s =
     (if kv_exists now r (draft_key s) \<or> kv_exists now r (pending_key s) then None else kv_get now r (claimed_key s))"

definition submit_in_flight :: "int \<Rightarrow> redis \<Rightarrow> string \<Rightarrow> bool" where
  "submit_in_flight now r s \<longleftrightarrow>
     kv_exists now r (pending_key s) \<or> kv_exists now r (result_key s) \<or> kv_exists now r (claimed_key s)"

section \<open>What each script leaves under the keys\<close>

lemma entry_set:
  "kv_entry t (kv_set now r k v n) j =
     (if j = k then (if t < now + n * 1000 then Some \<lparr>ent_val = v, ent_exp = Some (now + n * 1000)\<rparr> else None) else kv_entry t r j)"
  by (simp add: kv_set_def live_def Let_def)

lemma get_of_entry: "kv_entry now r k = Some e \<Longrightarrow> kv_get now r k = Some (ent_val e)"
  by (simp add: kv_get_def)

lemma entry_later: "now \<le> t \<Longrightarrow> kv_entry t r k = (case kv_entry now r k of None \<Rightarrow> None | Some e \<Rightarrow> if live t e then Some e else None)"
  by (auto simp: kv_entry_def live_def split: option.splits)

lemma live_entry: "kv_entry now r k = Some e \<Longrightarrow> live now e"
  by (auto simp: kv_entry_def split: option.splits if_splits)

lemma claim_draft_Some:
  assumes "claim_draft now r s nonce = (Some v, r')"
  obtains e where "kv_entry now r (draft_key s) = Some e" "kv_entry now r (claimed_key s) = None" "v = ent_val e"
    "\<And>j. kv_entry now r' j = (if j = pending_key s then Some \<lparr>ent_val = Txt nonce, ent_exp = Some (now + PENDING_TTL * 1000)\<rparr>
       else if j = claimed_key s then Some e else if j = draft_key s then None else kv_entry now r j)"
proof -
  obtain e where e: "kv_entry now r (draft_key s) = Some e" and c: "kv_entry now r (claimed_key s) = None"
    using assms by (auto simp: claim_draft_def kv_exists_def split: if_splits)
  have r': "r' = kv_set now (kv_rename now r (draft_key s) (claimed_key s)) (pending_key s) (Txt nonce) PENDING_TTL"
    and v: "kv_get now r' (claimed_key s) = Some v"
    using assms e c by (auto simp: claim_draft_def kv_exists_def Let_def split: if_splits)
  have all: "kv_entry now r' j = (if j = pending_key s then Some \<lparr>ent_val = Txt nonce, ent_exp = Some (now + PENDING_TTL * 1000)\<rparr>
       else if j = claimed_key s then Some e else if j = draft_key s then None else kv_entry now r j)" for j
    using kv_entry_rename [OF e, of "claimed_key s"] live_entry [OF e] by (simp add: r' entry_set PENDING_TTL_def)
  then have "v = ent_val e" using v by (simp add: kv_get_def)
  with e c all that show thesis by blast
qed

lemma recover_draft_entries:
  assumes "recover_draft now r s token result = (True, r')"
  obtains e where "kv_entry now r (claimed_key s) = Some e" "ent_val e = Txt token"
    "kv_entry now r (pending_key s) = None" "kv_entry now r (draft_key s) = None"
    "\<And>j. kv_entry now r' j = (case result of
        None \<Rightarrow> if j = draft_key s then Some e else if j = claimed_key s then None else kv_entry now r j
      | Some x \<Rightarrow> if j = result_key s then Some \<lparr>ent_val = Txt x, ent_exp = Some (now + RESULT_TTL * 1000)\<rparr>
                  else if j = claimed_key s \<or> j = report_id_key s then None else kv_entry now r j)"
proof -
  obtain e where e: "kv_entry now r (claimed_key s) = Some e" "ent_val e = Txt token"
    and p: "kv_entry now r (pending_key s) = None" "kv_entry now r (draft_key s) = None"
    using assms by (auto simp: recover_draft_def kv_exists_def kv_get_def split: if_splits option.splits)
  have "kv_entry now r' j = (case result of
        None \<Rightarrow> if j = draft_key s then Some e else if j = claimed_key s then None else kv_entry now r j
      | Some x \<Rightarrow> if j = result_key s then Some \<lparr>ent_val = Txt x, ent_exp = Some (now + RESULT_TTL * 1000)\<rparr>
                  else if j = claimed_key s \<or> j = report_id_key s then None else kv_entry now r j)" for j
    using assms e p kv_entry_rename [OF e(1), of "draft_key s"] live_entry [OF e(1)]
    by (auto simp: recover_draft_def kv_exists_def kv_get_def entry_set RESULT_TTL_def split: option.splits if_splits)
  with e p that show thesis by blast
qed

lemma recover_draft_refused: "recover_draft now r s token result = (False, r') \<Longrightarrow> r' = r"
  by (auto simp: recover_draft_def split: if_splits option.splits)

lemma give_back_entries:
  assumes "give_back_draft now r s token nonce = (True, r')"
  shows "(kv_get now r (pending_key s) = None \<or> kv_get now r (pending_key s) = Some (Txt nonce)) \<and>
    (\<forall>j. kv_entry now r' j =
       (if j = pending_key s \<or> j = claimed_key s then None
        else if j = draft_key s \<and> kv_entry now r j = None then Some \<lparr>ent_val = Txt token, ent_exp = Some (now + SUBMISSION_TTL * 1000)\<rparr>
        else kv_entry now r j))"
  using assms
  by (auto simp: give_back_draft_def kv_exists_def entry_set SUBMISSION_TTL_def split: if_splits option.splits)

lemma give_back_refused: "give_back_draft now r s token nonce = (False, r') \<Longrightarrow> r' = r"
  by (auto simp: give_back_draft_def split: if_splits option.splits)

lemma finish_claim_entries:
  "kv_entry now (finish_claim now r s nonce result) j =
     (if j = result_key s \<and> result \<noteq> None
      then Some \<lparr>ent_val = Txt (the result), ent_exp = Some (now + RESULT_TTL * 1000)\<rparr>
      else if j \<in> {draft_key s, claimed_key s, pending_key s, report_id_key s} \<and>
              (kv_get now r (pending_key s) = None \<or> kv_get now r (pending_key s) = Some (Txt nonce)) then None
      else kv_entry now r j)"
  by (auto simp: finish_claim_def Let_def entry_set kv_get_def RESULT_TTL_def split: option.splits)

end
