(* ===== verification/Draft_Protocol.thy ===== *)
theory Draft_Protocol
  imports Draft_Claim
begin

text \<open>
  The submits of one draft over time. Several requests act on the same session: final submits (claim,
  then a commit, a rejected draft given back at once, or a failure before any COMMIT was issued and the
  draft given back after a look-up), recoveries (a look-up of
  the report, later their script), and requests that save a copy of the draft they loaded. Any of them
  can vanish at any moment. What is assumed of time: a commit lands within the submit's time limit after
  its claim, a failed submit gives its draft back before its own \<open>pending\<close> mark expires, a recovery's
  script follows its look-up within 60 s, and a draft is claimed while it has at least the mark's
  lifetime left.
\<close>

section \<open>Steps\<close>

datatype phase = Working | Failed | Committed

record flight =
  fl_nonce :: string
  fl_token :: string
  fl_since :: int
  fl_phase :: phase

record look_up =
  lk_token :: string
  lk_at :: int
  lk_case :: "string option"

record world =
  wd_now :: int
  wd_redis :: redis
  wd_case :: "string option"
  wd_flights :: "flight list"
  wd_lookups :: "look_up list"
  wd_used :: "string list"
  wd_discarded :: bool

definition own_keys :: "string \<Rightarrow> string list" where
  "own_keys s = [draft_key s, claimed_key s, pending_key s, result_key s, report_id_key s]"

text \<open>\<open>tells x\<close> is the case number a sealed result \<open>x\<close> holds.\<close>

inductive claim_step :: "string \<Rightarrow> (string \<Rightarrow> string option) \<Rightarrow> world \<Rightarrow> world \<Rightarrow> bool" for s tells where
  tick: "wd_now w \<le> t \<Longrightarrow> claim_step s tells w (w\<lparr>wd_now := t\<rparr>)"
| elsewhere: "(\<And>k. k \<in> set (own_keys s) \<Longrightarrow> kv_entry (wd_now w) r k = kv_entry (wd_now w) (wd_redis w) k) \<Longrightarrow>
    claim_step s tells w (w\<lparr>wd_redis := r\<rparr>)"
| save: "token \<notin> set (wd_used w) \<Longrightarrow>
    claim_step s tells w (w\<lparr>wd_redis := kv_set (wd_now w) (wd_redis w) (draft_key s) (Txt token) SUBMISSION_TTL,
                            wd_used := token # wd_used w\<rparr>)"
| discard: "claim_step s tells w
    (w\<lparr>wd_redis := kv_del (kv_del (wd_redis w) (draft_key s)) (report_id_key s), wd_discarded := True\<rparr>)"
| claim: "claim_draft (wd_now w) (wd_redis w) s nonce = (Some (Txt token), r) \<Longrightarrow> nonce \<notin> set (wd_used w) \<Longrightarrow>
    kv_get (wd_now w + PENDING_TTL * 1000) (wd_redis w) (draft_key s) \<noteq> None \<Longrightarrow>
    claim_step s tells w (w\<lparr>wd_redis := r, wd_used := nonce # wd_used w,
      wd_flights := \<lparr>fl_nonce = nonce, fl_token = token, fl_since = wd_now w, fl_phase = Working\<rparr> # wd_flights w\<rparr>)"
| commit: "f \<in> set (wd_flights w) \<Longrightarrow> fl_phase f = Working \<Longrightarrow> wd_case w = None \<Longrightarrow>
    wd_now w \<le> fl_since f + SUBMIT_TIMEOUT_SECONDS * 1000 \<Longrightarrow>
    claim_step s tells w (w\<lparr>wd_case := Some n, wd_flights := f\<lparr>fl_phase := Committed\<rparr> # remove1 f (wd_flights w)\<rparr>)"
| reject: "f \<in> set (wd_flights w) \<Longrightarrow> fl_phase f = Working \<Longrightarrow> wd_now w \<le> fl_since f + SUBMIT_TIMEOUT_SECONDS * 1000 \<Longrightarrow>
    claim_step s tells w (w\<lparr>wd_redis := snd (give_back_draft (wd_now w) (wd_redis w) s (fl_token f) (fl_nonce f)),
      wd_flights := remove1 f (wd_flights w)\<rparr>)"
| fail: "f \<in> set (wd_flights w) \<Longrightarrow> fl_phase f = Working \<Longrightarrow> wd_case w = None \<Longrightarrow>
    claim_step s tells w (w\<lparr>wd_flights := f\<lparr>fl_phase := Failed\<rparr> # remove1 f (wd_flights w)\<rparr>)"
| give_back: "f \<in> set (wd_flights w) \<Longrightarrow> fl_phase f = Failed \<Longrightarrow> wd_now w < fl_since f + PENDING_TTL * 1000 \<Longrightarrow>
    claim_step s tells w (w\<lparr>wd_redis := snd (give_back_draft (wd_now w) (wd_redis w) s (fl_token f) (fl_nonce f)),
      wd_flights := remove1 f (wd_flights w)\<rparr>)"
| finish: "f \<in> set (wd_flights w) \<Longrightarrow> wd_case w = Some n \<Longrightarrow> (\<And>x. result = Some x \<Longrightarrow> tells x = Some n) \<Longrightarrow>
    claim_step s tells w (w\<lparr>wd_redis := finish_claim (wd_now w) (wd_redis w) s (fl_nonce f) result,
      wd_flights := remove1 f (wd_flights w)\<rparr>)"
| vanish: "claim_step s tells w (w\<lparr>wd_flights := remove1 f (wd_flights w)\<rparr>)"
| forget: "claim_step s tells w (w\<lparr>wd_lookups := remove1 l (wd_lookups w)\<rparr>)"
| look: "abandoned (wd_now w) (wd_redis w) s = Some (Txt token) \<Longrightarrow>
    claim_step s tells w (w\<lparr>wd_lookups := \<lparr>lk_token = token, lk_at = wd_now w, lk_case = wd_case w\<rparr> # wd_lookups w\<rparr>)"
| recover: "l \<in> set (wd_lookups w) \<Longrightarrow> wd_now w \<le> lk_at l + 60000 \<Longrightarrow>
    (lk_case l = None \<and> result = None \<or> (\<exists>x n. lk_case l = Some n \<and> result = Some x \<and> tells x = Some n)) \<Longrightarrow>
    claim_step s tells w (w\<lparr>wd_redis := snd (recover_draft (wd_now w) (wd_redis w) s (lk_token l) result),
      wd_lookups := remove1 l (wd_lookups w)\<rparr>)"
| read_result: "claim_step s tells w (w\<lparr>wd_redis := snd (kv_getdel (wd_now w) (wd_redis w) (result_key s))\<rparr>)"

text \<open>Initially: one saved draft.\<close>

definition new_draft :: "string \<Rightarrow> int \<Rightarrow> string \<Rightarrow> world" where
  "new_draft s born token =
     \<lparr>wd_now = born, wd_redis = kv_set born [] (draft_key s) (Txt token) SUBMISSION_TTL, wd_case = None,
      wd_flights = [], wd_lookups = [], wd_used = [token], wd_discarded = False\<rparr>"

section \<open>The abstract machine\<close>

text \<open>
  What the scripts promise, without Redis: four places, each empty or holding a value with its expiry,
  and who may do what with them.
\<close>

record hold =
  hd_now :: int
  hd_draft :: "entry option"
  hd_claimed :: "entry option"
  hd_pending :: "entry option"
  hd_result :: "entry option"
  hd_case :: "string option"
  hd_flights :: "flight list"
  hd_lookups :: "look_up list"
  hd_used :: "string list"
  hd_discarded :: bool

definition hold_of :: "string \<Rightarrow> world \<Rightarrow> hold" where
  "hold_of s w =
     \<lparr>hd_now = wd_now w, hd_draft = kv_entry (wd_now w) (wd_redis w) (draft_key s),
      hd_claimed = kv_entry (wd_now w) (wd_redis w) (claimed_key s),
      hd_pending = kv_entry (wd_now w) (wd_redis w) (pending_key s),
      hd_result = kv_entry (wd_now w) (wd_redis w) (result_key s), hd_case = wd_case w, hd_flights = wd_flights w,
      hd_lookups = wd_lookups w, hd_used = wd_used w, hd_discarded = wd_discarded w\<rparr>"

definition alive :: "int \<Rightarrow> entry option \<Rightarrow> entry option" where
  "alive t x = (case x of None \<Rightarrow> None | Some e \<Rightarrow> if live t e then Some e else None)"

definition timed :: "string \<Rightarrow> int \<Rightarrow> entry" where
  "timed v t = \<lparr>ent_val = Txt v, ent_exp = Some t\<rparr>"

definition has :: "entry option \<Rightarrow> string \<Rightarrow> bool" where
  "has x v \<longleftrightarrow> map_option ent_val x = Some (Txt v)"

definition end_of :: "flight \<Rightarrow> int" where "end_of f = fl_since f + PENDING_TTL * 1000"

definition returned :: "flight \<Rightarrow> hold \<Rightarrow> hold" where
  "returned f h =
     (if hd_pending h = None \<or> has (hd_pending h) (fl_nonce f)
      then h\<lparr>hd_draft := (if hd_draft h = None then Some (timed (fl_token f) (hd_now h + SUBMISSION_TTL * 1000)) else hd_draft h),
             hd_claimed := None, hd_pending := None\<rparr>
      else h)\<lparr>hd_flights := remove1 f (hd_flights h)\<rparr>"

definition spent :: "flight \<Rightarrow> hold \<Rightarrow> hold" where
  "spent f h =
     (if hd_pending h = None \<or> has (hd_pending h) (fl_nonce f)
      then h\<lparr>hd_draft := None, hd_claimed := None, hd_pending := None\<rparr> else h)\<lparr>hd_flights := remove1 f (hd_flights h)\<rparr>"

inductive hold_step :: "(string \<Rightarrow> string option) \<Rightarrow> hold \<Rightarrow> hold \<Rightarrow> bool" for tells where
  time: "hd_now h \<le> t \<Longrightarrow> hold_step tells h (h\<lparr>hd_now := t, hd_draft := alive t (hd_draft h),
    hd_claimed := alive t (hd_claimed h), hd_pending := alive t (hd_pending h), hd_result := alive t (hd_result h)\<rparr>)"
| stay: "hold_step tells h h"
| saved: "v \<notin> set (hd_used h) \<Longrightarrow>
    hold_step tells h (h\<lparr>hd_draft := Some (timed v (hd_now h + SUBMISSION_TTL * 1000)), hd_used := v # hd_used h\<rparr>)"
| discarded: "hold_step tells h (h\<lparr>hd_draft := None, hd_discarded := True\<rparr>)"
| claimed: "hd_draft h = Some e \<Longrightarrow> ent_val e = Txt v \<Longrightarrow> live (hd_now h + PENDING_TTL * 1000) e \<Longrightarrow> hd_claimed h = None \<Longrightarrow>
    n \<notin> set (hd_used h) \<Longrightarrow>
    hold_step tells h (h\<lparr>hd_draft := None, hd_claimed := Some e, hd_pending := Some (timed n (hd_now h + PENDING_TTL * 1000)),
      hd_used := n # hd_used h,
      hd_flights := \<lparr>fl_nonce = n, fl_token = v, fl_since = hd_now h, fl_phase = Working\<rparr> # hd_flights h\<rparr>)"
| committed: "f \<in> set (hd_flights h) \<Longrightarrow> fl_phase f = Working \<Longrightarrow> hd_case h = None \<Longrightarrow>
    hd_now h \<le> fl_since f + SUBMIT_TIMEOUT_SECONDS * 1000 \<Longrightarrow>
    hold_step tells h (h\<lparr>hd_case := Some n, hd_flights := f\<lparr>fl_phase := Committed\<rparr> # remove1 f (hd_flights h)\<rparr>)"
| rejected: "f \<in> set (hd_flights h) \<Longrightarrow> fl_phase f = Working \<Longrightarrow> hd_now h \<le> fl_since f + SUBMIT_TIMEOUT_SECONDS * 1000 \<Longrightarrow>
    hold_step tells h (returned f h)"
| failed: "f \<in> set (hd_flights h) \<Longrightarrow> fl_phase f = Working \<Longrightarrow> hd_case h = None \<Longrightarrow>
    hold_step tells h (h\<lparr>hd_flights := f\<lparr>fl_phase := Failed\<rparr> # remove1 f (hd_flights h)\<rparr>)"
| given_back: "f \<in> set (hd_flights h) \<Longrightarrow> fl_phase f = Failed \<Longrightarrow> hd_now h < end_of f \<Longrightarrow> hold_step tells h (returned f h)"
| finished: "f \<in> set (hd_flights h) \<Longrightarrow> hd_case h = Some n \<Longrightarrow>
    r = hd_result h \<or> (\<exists>x. r = Some (timed x (hd_now h + RESULT_TTL * 1000)) \<and> tells x = Some n) \<Longrightarrow>
    hold_step tells h ((spent f h)\<lparr>hd_result := r\<rparr>)"
| vanished: "hold_step tells h (h\<lparr>hd_flights := remove1 f (hd_flights h)\<rparr>)"
| forgotten: "hold_step tells h (h\<lparr>hd_lookups := remove1 l (hd_lookups h)\<rparr>)"
| looked: "hd_draft h = None \<Longrightarrow> hd_pending h = None \<Longrightarrow> has (hd_claimed h) v \<Longrightarrow>
    hold_step tells h (h\<lparr>hd_lookups := \<lparr>lk_token = v, lk_at = hd_now h, lk_case = hd_case h\<rparr> # hd_lookups h\<rparr>)"
| put_back: "l \<in> set (hd_lookups h) \<Longrightarrow> hd_now h \<le> lk_at l + 60000 \<Longrightarrow> lk_case l = None \<Longrightarrow> hd_draft h = None \<Longrightarrow>
    hd_pending h = None \<Longrightarrow> has (hd_claimed h) (lk_token l) \<Longrightarrow>
    hold_step tells h (h\<lparr>hd_draft := hd_claimed h, hd_claimed := None, hd_lookups := remove1 l (hd_lookups h)\<rparr>)"
| told: "l \<in> set (hd_lookups h) \<Longrightarrow> lk_case l = Some n \<Longrightarrow> tells x = Some n \<Longrightarrow> hd_pending h = None \<Longrightarrow>
    hold_step tells h (h\<lparr>hd_claimed := None, hd_result := Some (timed x (hd_now h + RESULT_TTL * 1000)),
      hd_lookups := remove1 l (hd_lookups h)\<rparr>)"
| read: "hold_step tells h (h\<lparr>hd_result := None\<rparr>)"

lemma hold_of_simps [simp]:
  "hd_now (hold_of s w) = wd_now w" "hd_case (hold_of s w) = wd_case w" "hd_flights (hold_of s w) = wd_flights w"
  "hd_lookups (hold_of s w) = wd_lookups w" "hd_used (hold_of s w) = wd_used w" "hd_discarded (hold_of s w) = wd_discarded w"
  "hd_draft (hold_of s w) = kv_entry (wd_now w) (wd_redis w) (draft_key s)"
  "hd_claimed (hold_of s w) = kv_entry (wd_now w) (wd_redis w) (claimed_key s)"
  "hd_pending (hold_of s w) = kv_entry (wd_now w) (wd_redis w) (pending_key s)"
  "hd_result (hold_of s w) = kv_entry (wd_now w) (wd_redis w) (result_key s)"
  by (simp_all add: hold_of_def)

lemma has_get: "has (kv_entry now r k) v \<longleftrightarrow> kv_get now r k = Some (Txt v)"
  by (simp add: has_def kv_get_def)

lemma get_None: "kv_get now r k = None \<longleftrightarrow> kv_entry now r k = None"
  by (simp add: kv_get_def)

lemma hold_of_give_back:
  "hold_of s (w\<lparr>wd_redis := snd (give_back_draft (wd_now w) (wd_redis w) s (fl_token f) (fl_nonce f)),
      wd_flights := remove1 f (wd_flights w)\<rparr>) = returned f (hold_of s w)"
proof -
  obtain ok r where p: "give_back_draft (wd_now w) (wd_redis w) s (fl_token f) (fl_nonce f) = (ok, r)" by (metis surj_pair)
  show ?thesis
  proof (cases ok)
    case True
    then have "give_back_draft (wd_now w) (wd_redis w) s (fl_token f) (fl_nonce f) = (True, r)" using p by simp
    from give_back_entries [OF this] show ?thesis
      by (simp add: p hold_of_def returned_def has_get get_None timed_def)
  next
    case False
    then have q: "give_back_draft (wd_now w) (wd_redis w) s (fl_token f) (fl_nonce f) = (False, r)" using p by simp
    then have "\<not> (kv_get (wd_now w) (wd_redis w) (pending_key s) = None \<or>
        kv_get (wd_now w) (wd_redis w) (pending_key s) = Some (Txt (fl_nonce f)))"
      by (auto simp: give_back_draft_def split: option.splits if_splits)
    then show ?thesis using give_back_refused [OF q]
      by (auto simp: p hold_of_def returned_def has_get get_None)
  qed
qed

lemma hold_of_finish:
  "hold_of s (w\<lparr>wd_redis := finish_claim (wd_now w) (wd_redis w) s (fl_nonce f) result, wd_flights := remove1 f (wd_flights w)\<rparr>)
   = (spent f (hold_of s w))\<lparr>hd_result := (case result of None \<Rightarrow> hd_result (hold_of s w)
        | Some x \<Rightarrow> Some (timed x (wd_now w + RESULT_TTL * 1000)))\<rparr>"
  by (auto simp: hold_of_def spent_def finish_claim_entries has_get get_None timed_def split: option.split)

text \<open>
  C6. The scripts and the requests around them implement the abstract machine: every step of the world
  is one of its steps, on the live entries under the session's keys.
\<close>

theorem scripts_implement_hold:
  assumes "claim_step s tells w w'"
  shows "hold_step tells (hold_of s w) (hold_of s w')"
  using assms
proof cases
  case (tick t)
  have "hold_of s w' = (hold_of s w)\<lparr>hd_now := t, hd_draft := alive t (hd_draft (hold_of s w)),
    hd_claimed := alive t (hd_claimed (hold_of s w)), hd_pending := alive t (hd_pending (hold_of s w)),
    hd_result := alive t (hd_result (hold_of s w))\<rparr>"
    using tick by (simp add: hold_of_def alive_def entry_later)
  then show ?thesis using tick hold_step.time [of "hold_of s w" t tells] by simp
next
  case (elsewhere r)
  then have "hold_of s w' = hold_of s w" by (simp add: hold_of_def own_keys_def)
  then show ?thesis using hold_step.stay by simp
next
  case (save token)
  then have "hold_of s w' = (hold_of s w)\<lparr>hd_draft := Some (timed token (hd_now (hold_of s w) + SUBMISSION_TTL * 1000)),
      hd_used := token # hd_used (hold_of s w)\<rparr>"
    by (simp add: hold_of_def entry_set timed_def SUBMISSION_TTL_def)
  then show ?thesis using save hold_step.saved [of token "hold_of s w" tells] by simp
next
  case discard
  then have "hold_of s w' = (hold_of s w)\<lparr>hd_draft := None, hd_discarded := True\<rparr>" by (simp add: hold_of_def)
  then show ?thesis using hold_step.discarded by simp
next
  case (claim nonce token r)
  obtain e where e: "kv_entry (wd_now w) (wd_redis w) (draft_key s) = Some e"
    "kv_entry (wd_now w) (wd_redis w) (claimed_key s) = None" "Txt token = ent_val e"
    and k: "\<And>j. kv_entry (wd_now w) r j = (if j = pending_key s
       then Some \<lparr>ent_val = Txt nonce, ent_exp = Some (wd_now w + PENDING_TTL * 1000)\<rparr>
       else if j = claimed_key s then Some e else if j = draft_key s then None else kv_entry (wd_now w) (wd_redis w) j)"
    by (rule claim_draft_Some [OF claim(2)], rule that)
  have "live (wd_now w + PENDING_TTL * 1000) e"
    using claim(4) entry_later [of "wd_now w" "wd_now w + PENDING_TTL * 1000" "wd_redis w" "draft_key s"] e(1)
    by (simp add: kv_get_def PENDING_TTL_def split: if_splits)
  then show ?thesis
    using hold_step.claimed [of "hold_of s w" e token nonce tells] claim(3) e k
    by (simp add: claim(1) hold_of_def timed_def)
next
  case (commit f n)
  then show ?thesis using hold_step.committed [of f "hold_of s w" tells n] by (simp add: hold_of_def)
next
  case (reject f)
  then show ?thesis using hold_step.rejected [of f "hold_of s w" tells] by (simp only: hold_of_give_back hold_of_simps)
next
  case (fail f)
  then show ?thesis using hold_step.failed [of f "hold_of s w" tells] by (simp add: hold_of_def)
next
  case (give_back f)
  then show ?thesis using hold_step.given_back [of f "hold_of s w" tells]
    by (simp only: hold_of_give_back hold_of_simps end_of_def)
next
  case (finish f n result)
  then show ?thesis
    using hold_step.finished [of f "hold_of s w" n
        "case result of None \<Rightarrow> hd_result (hold_of s w) | Some x \<Rightarrow> Some (timed x (wd_now w + RESULT_TTL * 1000))" tells]
    by (simp only: hold_of_finish hold_of_simps) (cases result; auto)
next
  case (vanish f)
  then show ?thesis using hold_step.vanished [of tells "hold_of s w" f] by (simp add: hold_of_def)
next
  case (forget l)
  then show ?thesis using hold_step.forgotten [of tells "hold_of s w" l] by (simp add: hold_of_def)
next
  case (look token)
  then have "kv_entry (wd_now w) (wd_redis w) (draft_key s) = None" "kv_entry (wd_now w) (wd_redis w) (pending_key s) = None"
    "has (kv_entry (wd_now w) (wd_redis w) (claimed_key s)) token"
    by (auto simp: abandoned_def kv_exists_def has_get split: if_splits)
  then show ?thesis using look(1) hold_step.looked [of "hold_of s w" token tells] by (simp add: hold_of_def)
next
  case (recover l result)
  obtain ok r where p: "recover_draft (wd_now w) (wd_redis w) s (lk_token l) result = (ok, r)" by (metis surj_pair)
  show ?thesis
  proof (cases ok)
    case True
    then have "recover_draft (wd_now w) (wd_redis w) s (lk_token l) result = (True, r)" using p by simp
    then obtain e where e: "kv_entry (wd_now w) (wd_redis w) (claimed_key s) = Some e" "ent_val e = Txt (lk_token l)"
      "kv_entry (wd_now w) (wd_redis w) (pending_key s) = None" "kv_entry (wd_now w) (wd_redis w) (draft_key s) = None"
      and k: "\<And>j. kv_entry (wd_now w) r j = (case result of
          None \<Rightarrow> if j = draft_key s then Some e else if j = claimed_key s then None else kv_entry (wd_now w) (wd_redis w) j
        | Some x \<Rightarrow> if j = result_key s then Some \<lparr>ent_val = Txt x, ent_exp = Some (wd_now w + RESULT_TTL * 1000)\<rparr>
                    else if j = claimed_key s \<or> j = report_id_key s then None else kv_entry (wd_now w) (wd_redis w) j)"
      by (rule recover_draft_entries) blast
    have c: "has (hd_claimed (hold_of s w)) (lk_token l)" using e by (simp add: has_def)
    have w': "w' = w\<lparr>wd_redis := r, wd_lookups := remove1 l (wd_lookups w)\<rparr>" using recover(1) p by simp
    show ?thesis
    proof (cases result)
      case None
      then have "lk_case l = None" using recover(4) by auto
      then show ?thesis using None recover(2,3) c e k hold_step.put_back [of l "hold_of s w" tells]
        by (simp add: hold_of_def w')
    next
      case (Some x)
      then obtain n where n: "lk_case l = Some n" "tells x = Some n" using recover by auto
      show ?thesis using Some recover(2,3) n e k hold_step.told [of l "hold_of s w" n tells x]
        by (simp add: hold_of_def w' timed_def)
    qed
  next
    case False
    then have "r = wd_redis w" using p recover_draft_refused by simp
    then have "hold_of s w' = (hold_of s w)\<lparr>hd_lookups := remove1 l (wd_lookups w)\<rparr>" using recover p by (simp add: hold_of_def)
    then show ?thesis using hold_step.forgotten [of tells "hold_of s w" l] by simp
  qed
next
  case read_result
  then show ?thesis using hold_step.read [of tells "hold_of s w"] by (simp add: hold_of_def kv_getdel_def)
qed

section \<open>The invariant\<close>

definition until :: "int \<Rightarrow> entry option \<Rightarrow> bool" where
  "until b x \<longleftrightarrow> (\<forall>e. x = Some e \<longrightarrow> (\<exists>v t. e = timed v t \<and> b \<le> t))"

definition backed :: "hold \<Rightarrow> bool" where
  "backed h \<longleftrightarrow>
     (\<forall>e. hd_pending h = Some e \<longrightarrow>
        (\<exists>n x v y. e = timed n x \<and> x \<le> hd_now h + PENDING_TTL * 1000 \<and> hd_claimed h = Some (timed v y) \<and> x \<le> y))"

definition mark :: "flight \<Rightarrow> entry" where "mark f = timed (fl_nonce f) (end_of f)"

definition flights_ok :: "hold \<Rightarrow> bool" where
  "flights_ok h \<longleftrightarrow>
     distinct (map fl_nonce (hd_flights h)) \<and>
     (\<forall>f \<in> set (hd_flights h). fl_nonce f \<in> set (hd_used h) \<and>
        (hd_now h < end_of f \<longrightarrow> hd_pending h = Some (mark f) \<and> (fl_phase f = Failed \<longrightarrow> hd_case h = None)))"

definition gone :: "hold \<Rightarrow> string \<Rightarrow> bool" where
  "gone h v \<longleftrightarrow> v \<in> set (hd_used h) \<and> \<not> has (hd_draft h) v \<and> \<not> has (hd_claimed h) v \<and>
     (\<forall>f \<in> set (hd_flights h). hd_now h < end_of f \<longrightarrow> fl_token f \<noteq> v)"

definition guarded :: "hold \<Rightarrow> int \<Rightarrow> bool" where
  "guarded h t \<longleftrightarrow> (\<exists>n x. hd_pending h = Some (timed n x) \<and> t < x) \<and>
     (\<forall>f \<in> set (hd_flights h). hd_now h < end_of f \<longrightarrow> fl_phase f = Committed)"

definition lookup_ok :: "hold \<Rightarrow> look_up \<Rightarrow> bool" where
  "lookup_ok h l \<longleftrightarrow>
     lk_token l \<in> set (hd_used h) \<and> lk_at l \<le> hd_now h \<and> (\<forall>n. lk_case l = Some n \<longrightarrow> hd_case h = Some n) \<and>
     (lk_case l = None \<and> hd_now h \<le> lk_at l + 60000 \<and> hd_case h \<noteq> None \<longrightarrow>
        guarded h (lk_at l + 60000) \<or> gone h (lk_token l))"

definition tokens_ok :: "hold \<Rightarrow> bool" where
  "tokens_ok h \<longleftrightarrow>
     (\<forall>v. has (hd_draft h) v \<or> has (hd_claimed h) v \<longrightarrow> v \<in> set (hd_used h)) \<and>
     (\<forall>f \<in> set (hd_flights h). fl_token f \<in> set (hd_used h))"

definition result_ok :: "(string \<Rightarrow> string option) \<Rightarrow> hold \<Rightarrow> bool" where
  "result_ok tells h \<longleftrightarrow> (\<forall>e. hd_result h = Some e \<longrightarrow> (\<exists>x t n. e = timed x t \<and> tells x = Some n \<and> hd_case h = Some n))"

definition kept :: "int \<Rightarrow> hold \<Rightarrow> bool" where
  "kept b h \<longleftrightarrow> hd_case h \<noteq> None \<or> hd_discarded h \<or> b \<le> hd_now h \<or> hd_draft h \<noteq> None \<or> hd_claimed h \<noteq> None"

definition hold_inv :: "(string \<Rightarrow> string option) \<Rightarrow> int \<Rightarrow> hold \<Rightarrow> bool" where
  "hold_inv tells born h \<longleftrightarrow>
     born \<le> hd_now h \<and> until (born + SUBMISSION_TTL * 1000) (hd_draft h) \<and> until (born + SUBMISSION_TTL * 1000) (hd_claimed h) \<and>
     backed h \<and> flights_ok h \<and> (\<forall>l \<in> set (hd_lookups h). lookup_ok h l) \<and> tokens_ok h \<and> result_ok tells h \<and>
     kept (born + SUBMISSION_TTL * 1000) h"

lemmas hold_defs = until_def backed_def flights_ok_def gone_def guarded_def lookup_ok_def tokens_ok_def result_ok_def kept_def

lemma timed_simps [simp]:
  "timed v t = timed w u \<longleftrightarrow> v = w \<and> t = u" "has (Some (timed v t)) w \<longleftrightarrow> v = w" "\<not> has None v"
  "live now (timed v t) \<longleftrightarrow> now < t" "ent_val (timed v t) = Txt v"
  by (auto simp: timed_def has_def live_def)

lemma alive_simps [simp]:
  "alive t None = None" "alive t (Some (timed v x)) = (if t < x then Some (timed v x) else None)"
  "alive t o' = Some e \<longleftrightarrow> o' = Some e \<and> live t e"
  by (auto simp: alive_def split: option.splits)

lemma has_alive: "has (alive t x) v \<Longrightarrow> has x v"
  by (cases x) (auto simp: alive_def split: if_splits)

lemma flights_unique:
  assumes "flights_ok h" "f \<in> set (hd_flights h)" "g \<in> set (hd_flights h)" "hd_now h < end_of f" "hd_now h < end_of g"
  shows "f = g"
proof -
  have "mark f = mark g" using assms unfolding flights_ok_def by (metis option.inject)
  then have "fl_nonce f = fl_nonce g" by (simp add: mark_def)
  then show ?thesis using assms(1-3) by (auto simp: flights_ok_def distinct_map dest: inj_onD)
qed

lemma remove_flight:
  "flights_ok h \<Longrightarrow> g \<in> set (remove1 f (hd_flights h)) \<longleftrightarrow> g \<in> set (hd_flights h) \<and> g \<noteq> f"
  by (auto simp: flights_ok_def distinct_map)

lemma distinct_remove1_map: "distinct (map k xs) \<Longrightarrow> distinct (map k (remove1 f xs))"
  by (metis distinct_map distinct_remove1 inj_on_subset set_remove1_subset)

lemma distinct_replace:
  "distinct (map k xs) \<Longrightarrow> f \<in> set xs \<Longrightarrow> k g = k f \<Longrightarrow> distinct (map k (g # remove1 f xs))"
  by (auto simp: distinct_map inj_on_def)

lemma hold_inv_time:
  assumes i: "hold_inv tells born h" and t: "hd_now h \<le> t"
  shows "hold_inv tells born (h\<lparr>hd_now := t, hd_draft := alive t (hd_draft h), hd_claimed := alive t (hd_claimed h),
    hd_pending := alive t (hd_pending h), hd_result := alive t (hd_result h)\<rparr>)" (is "hold_inv _ _ ?h")
  unfolding hold_inv_def
proof (intro conjI ballI)
  show "born \<le> hd_now ?h" using i t by (simp add: hold_inv_def)
  show "until (born + SUBMISSION_TTL * 1000) (hd_draft ?h)" "until (born + SUBMISSION_TTL * 1000) (hd_claimed ?h)"
    using i by (simp_all add: hold_inv_def until_def)
  show "backed ?h"
    using i t by (auto simp: hold_inv_def backed_def)
  show f: "flights_ok ?h" using i t by (auto simp: hold_inv_def flights_ok_def mark_def)
  show "tokens_ok ?h" using i by (auto simp: hold_inv_def tokens_ok_def dest: has_alive)
  show "result_ok tells ?h" using i by (auto simp: hold_inv_def result_ok_def)
  show "kept (born + SUBMISSION_TTL * 1000) ?h"
    using i t by (auto simp: hold_inv_def kept_def until_def)
  show "lookup_ok ?h l" if "l \<in> set (hd_lookups ?h)" for l
  proof -
    have "lookup_ok h l" using i that by (simp add: hold_inv_def)
    moreover have "guarded h (lk_at l + 60000) \<Longrightarrow> t \<le> lk_at l + 60000 \<Longrightarrow> guarded ?h (lk_at l + 60000)"
      using t by (auto simp: guarded_def)
    moreover have "gone h (lk_token l) \<Longrightarrow> gone ?h (lk_token l)"
      using t by (auto simp: gone_def dest: has_alive)
    ultimately show ?thesis using t by (auto simp: lookup_ok_def)
  qed
qed

text \<open>Each step keeps the invariant.\<close>

lemma lookup_ok_mono:
  assumes "lookup_ok h l" "hd_now h' = hd_now h" "hd_case h' = hd_case h" "set (hd_used h) \<subseteq> set (hd_used h')"
    and "guarded h (lk_at l + 60000) \<Longrightarrow> guarded h' (lk_at l + 60000) \<or> gone h' (lk_token l)"
    and "gone h (lk_token l) \<Longrightarrow> gone h' (lk_token l)"
  shows "lookup_ok h' l"
  using assms by (auto simp: lookup_ok_def)

lemma hold_invD:
  assumes "hold_inv tells born h"
  shows "born \<le> hd_now h" "until (born + SUBMISSION_TTL * 1000) (hd_draft h)" "until (born + SUBMISSION_TTL * 1000) (hd_claimed h)"
    "backed h" "flights_ok h" "\<And>l. l \<in> set (hd_lookups h) \<Longrightarrow> lookup_ok h l" "tokens_ok h" "result_ok tells h"
    "kept (born + SUBMISSION_TTL * 1000) h"
  using assms by (simp_all add: hold_inv_def)

lemma hold_invI:
  assumes "born \<le> hd_now h" "until (born + SUBMISSION_TTL * 1000) (hd_draft h)" "until (born + SUBMISSION_TTL * 1000) (hd_claimed h)"
    "backed h" "flights_ok h" "\<And>l. l \<in> set (hd_lookups h) \<Longrightarrow> lookup_ok h l" "tokens_ok h" "result_ok tells h"
    "kept (born + SUBMISSION_TTL * 1000) h"
  shows "hold_inv tells born h"
  using assms by (simp add: hold_inv_def)

lemma hold_inv_saved:
  assumes i: "hold_inv tells born h" and v: "v \<notin> set (hd_used h)"
  shows "hold_inv tells born (h\<lparr>hd_draft := Some (timed v (hd_now h + SUBMISSION_TTL * 1000)), hd_used := v # hd_used h\<rparr>)"
    (is "hold_inv _ _ ?h")
proof (rule hold_invI)
  show "lookup_ok ?h l" if "l \<in> set (hd_lookups ?h)" for l
  proof (rule lookup_ok_mono)
    show "lookup_ok h l" using hold_invD(6) [OF i] that by simp
    then show "gone h (lk_token l) \<Longrightarrow> gone ?h (lk_token l)" using v by (auto simp: gone_def)
  qed (auto simp: guarded_def)
  show "flights_ok ?h" using hold_invD(5) [OF i] by (simp add: flights_ok_def)
  show "tokens_ok ?h" using hold_invD(7) [OF i] by (simp add: tokens_ok_def)
qed (use hold_invD [OF i] in \<open>simp_all add: until_def backed_def result_ok_def kept_def\<close>)

lemma hold_inv_discarded:
  assumes i: "hold_inv tells born h"
  shows "hold_inv tells born (h\<lparr>hd_draft := None, hd_discarded := True\<rparr>)" (is "hold_inv _ _ ?h")
proof (rule hold_invI)
  show "lookup_ok ?h l" if "l \<in> set (hd_lookups ?h)" for l
  proof (rule lookup_ok_mono)
    show "lookup_ok h l" using hold_invD(6) [OF i] that by simp
  qed (auto simp: guarded_def gone_def)
  show "flights_ok ?h" using hold_invD(5) [OF i] by (simp add: flights_ok_def)
  show "tokens_ok ?h" using hold_invD(7) [OF i] by (simp add: tokens_ok_def)
qed (use hold_invD [OF i] in \<open>simp_all add: until_def backed_def result_ok_def kept_def\<close>)

lemma flights_out: "flights_ok h \<Longrightarrow> hd_pending h = None \<Longrightarrow> f \<in> set (hd_flights h) \<Longrightarrow> \<not> hd_now h < end_of f"
  by (auto simp: flights_ok_def)

lemma backed_pending: "backed h \<Longrightarrow> hd_claimed h = None \<Longrightarrow> hd_pending h = None"
  by (cases "hd_pending h") (auto simp: backed_def)

lemma hold_inv_claimed:
  assumes i: "hold_inv tells born h" and e: "hd_draft h = Some e" "ent_val e = Txt v" "live (hd_now h + PENDING_TTL * 1000) e"
    "hd_claimed h = None" and n: "n \<notin> set (hd_used h)"
  shows "hold_inv tells born (h\<lparr>hd_draft := None, hd_claimed := Some e, hd_pending := Some (timed n (hd_now h + PENDING_TTL * 1000)),
      hd_used := n # hd_used h,
      hd_flights := \<lparr>fl_nonce = n, fl_token = v, fl_since = hd_now h, fl_phase = Working\<rparr> # hd_flights h\<rparr>)"
    (is "hold_inv _ _ ?h")
proof (rule hold_invI)
  obtain x where x: "e = timed v x" "born + SUBMISSION_TTL * 1000 \<le> x" "hd_now h + PENDING_TTL * 1000 < x"
    using hold_invD(2) [OF i] e by (auto simp: until_def)
  have p: "hd_pending h = None" by (rule backed_pending [OF hold_invD(4) [OF i] e(4)])
  note out = flights_out [OF hold_invD(5) [OF i] p]
  have d: "has (hd_draft h) v" using e by (simp add: has_def)
  show "lookup_ok ?h l" if "l \<in> set (hd_lookups ?h)" for l
  proof (rule lookup_ok_mono)
    show "lookup_ok h l" using hold_invD(6) [OF i] that by simp
    show "gone h (lk_token l) \<Longrightarrow> gone ?h (lk_token l)" using d out by (auto simp: gone_def x)
    show "guarded h (lk_at l + 60000) \<Longrightarrow> guarded ?h (lk_at l + 60000) \<or> gone ?h (lk_token l)" using p by (simp add: guarded_def)
  qed auto
  show "flights_ok ?h" using hold_invD(5) [OF i] out n
    by (auto simp: flights_ok_def mark_def end_of_def dest: bspec)
  show "tokens_ok ?h" using hold_invD(7) [OF i] d by (auto simp: tokens_ok_def x)
  show "backed ?h" using x by (simp add: backed_def)
  show "until (born + SUBMISSION_TTL * 1000) (hd_claimed ?h)" using x by (simp add: until_def)
qed (use hold_invD [OF i] in \<open>simp_all add: until_def result_ok_def kept_def\<close>)

lemma hold_inv_committed:
  assumes i: "hold_inv tells born h" and f: "f \<in> set (hd_flights h)" "fl_phase f = Working" and c: "hd_case h = None"
    and t: "hd_now h \<le> fl_since f + SUBMIT_TIMEOUT_SECONDS * 1000"
  shows "hold_inv tells born (h\<lparr>hd_case := Some n, hd_flights := f\<lparr>fl_phase := Committed\<rparr> # remove1 f (hd_flights h)\<rparr>)"
    (is "hold_inv _ _ ?h")
proof (rule hold_invI)
  note fo = hold_invD(5) [OF i]
  have win: "hd_now h < end_of f" using t by (simp add: end_of_def submission_times)
  have only: "\<not> hd_now h < end_of g" if "g \<in> set (remove1 f (hd_flights h))" for g
    using flights_unique [OF fo _ f(1) _ win] that remove_flight [OF fo] by blast
  have p: "hd_pending h = Some (mark f)" using fo f(1) win by (simp add: flights_ok_def)
  have e: "end_of (f\<lparr>fl_phase := Committed\<rparr>) = end_of f" "mark (f\<lparr>fl_phase := Committed\<rparr>) = mark f"
    by (simp_all add: end_of_def mark_def)
  show "lookup_ok ?h l" if "l \<in> set (hd_lookups ?h)" for l
  proof -
    have l: "lookup_ok h l" using hold_invD(6) [OF i] that by simp
    then have "lk_at l + 60000 < end_of f" using t by (simp add: lookup_ok_def end_of_def submission_times)
    then have "guarded ?h (lk_at l + 60000)" using p only by (auto simp: guarded_def mark_def)
    then show ?thesis using l c by (auto simp: lookup_ok_def)
  qed
  show "flights_ok ?h"
    unfolding flights_ok_def
  proof (intro conjI ballI)
    show "distinct (map fl_nonce (hd_flights ?h))"
      using fo f(1) distinct_replace [of fl_nonce "hd_flights h" f "f\<lparr>fl_phase := Committed\<rparr>"] by (simp add: flights_ok_def)
    fix g assume "g \<in> set (hd_flights ?h)"
    then have "g = f\<lparr>fl_phase := Committed\<rparr> \<or> g \<in> set (remove1 f (hd_flights h))" by simp
    then show "fl_nonce g \<in> set (hd_used ?h)" "hd_now ?h < end_of g \<longrightarrow> hd_pending ?h = Some (mark g) \<and>
        (fl_phase g = Failed \<longrightarrow> hd_case ?h = None)"
      using fo f p e only by (auto simp: flights_ok_def remove_flight [OF fo])
  qed
  show "tokens_ok ?h" using hold_invD(7) [OF i] f by (auto simp: tokens_ok_def dest: notin_set_remove1)
  show "result_ok tells ?h" using hold_invD(8) [OF i] c by (auto simp: result_ok_def)
qed (use hold_invD [OF i] in \<open>simp_all add: backed_def kept_def\<close>)

lemma hold_inv_failed:
  assumes i: "hold_inv tells born h" and f: "f \<in> set (hd_flights h)" "fl_phase f = Working" and c: "hd_case h = None"
  shows "hold_inv tells born (h\<lparr>hd_flights := f\<lparr>fl_phase := Failed\<rparr> # remove1 f (hd_flights h)\<rparr>)" (is "hold_inv _ _ ?h")
proof (rule hold_invI)
  note fo = hold_invD(5) [OF i]
  have e: "end_of (f\<lparr>fl_phase := Failed\<rparr>) = end_of f" "mark (f\<lparr>fl_phase := Failed\<rparr>) = mark f"
    by (simp_all add: end_of_def mark_def)
  show "lookup_ok ?h l" if "l \<in> set (hd_lookups ?h)" for l
    using hold_invD(6) [OF i] that c by (auto simp: lookup_ok_def)
  show "flights_ok ?h"
    unfolding flights_ok_def
  proof (intro conjI ballI)
    show "distinct (map fl_nonce (hd_flights ?h))"
      using fo f(1) distinct_replace [of fl_nonce "hd_flights h" f "f\<lparr>fl_phase := Failed\<rparr>"] by (simp add: flights_ok_def)
    fix g assume "g \<in> set (hd_flights ?h)"
    then have "g = f\<lparr>fl_phase := Failed\<rparr> \<or> g \<in> set (hd_flights h)" by (auto dest: notin_set_remove1)
    then show "fl_nonce g \<in> set (hd_used ?h)" "hd_now ?h < end_of g \<longrightarrow> hd_pending ?h = Some (mark g) \<and>
        (fl_phase g = Failed \<longrightarrow> hd_case ?h = None)"
      using fo f c e by (auto simp: flights_ok_def)
  qed
  show "tokens_ok ?h" using hold_invD(7) [OF i] f by (auto simp: tokens_ok_def dest: notin_set_remove1)
qed (use hold_invD [OF i] in \<open>simp_all add: backed_def kept_def result_ok_def\<close>)

lemma hold_inv_returned:
  assumes i: "hold_inv tells born h" and f: "f \<in> set (hd_flights h)"
    and u: "hd_now h < end_of f" "fl_phase f \<noteq> Committed"
  shows "hold_inv tells born (returned f h)" (is "hold_inv _ _ ?h")
proof (rule hold_invI)
  note fo = hold_invD(5) [OF i]
  have p: "hd_pending h = Some (mark f)" using fo f u(1) by (simp add: flights_ok_def)
  have h: "?h = h\<lparr>hd_draft := (if hd_draft h = None then Some (timed (fl_token f) (hd_now h + SUBMISSION_TTL * 1000)) else hd_draft h),
      hd_claimed := None, hd_pending := None, hd_flights := remove1 f (hd_flights h)\<rparr>"
    using p by (simp add: returned_def mark_def)
  have only: "\<not> hd_now h < end_of g" if "g \<in> set (remove1 f (hd_flights h))" for g
    using flights_unique [OF fo _ f _ u(1)] that remove_flight [OF fo] by blast
  show "lookup_ok ?h l" if "l \<in> set (hd_lookups ?h)" for l
  proof (rule lookup_ok_mono)
    show "lookup_ok h l" using hold_invD(6) [OF i] that by (simp add: h)
    show "gone h (lk_token l) \<Longrightarrow> gone ?h (lk_token l)"
      using f u(1) only by (auto simp: gone_def h dest: notin_set_remove1)
    show "guarded h (lk_at l + 60000) \<Longrightarrow> guarded ?h (lk_at l + 60000) \<or> gone ?h (lk_token l)"
      using f u by (auto simp: guarded_def)
  qed (simp_all add: h)
  show "flights_ok ?h" using fo only distinct_remove1_map [of fl_nonce "hd_flights h" f]
    by (auto simp: flights_ok_def h dest: notin_set_remove1)
  show "tokens_ok ?h" using hold_invD(7) [OF i] f by (auto simp: tokens_ok_def h dest: notin_set_remove1)
qed (use hold_invD [OF i] in \<open>auto simp: returned_def backed_def kept_def result_ok_def until_def\<close>)

lemma untouched [simp]:
  "lookup_ok (h\<lparr>hd_result := r\<rparr>) l = lookup_ok h l" "lookup_ok (h\<lparr>hd_lookups := ls\<rparr>) l = lookup_ok h l"
  "flights_ok (h\<lparr>hd_result := r\<rparr>) = flights_ok h" "flights_ok (h\<lparr>hd_lookups := ls\<rparr>) = flights_ok h"
  "tokens_ok (h\<lparr>hd_result := r\<rparr>) = tokens_ok h" "tokens_ok (h\<lparr>hd_lookups := ls\<rparr>) = tokens_ok h"
  by (simp_all add: lookup_ok_def guarded_def gone_def flights_ok_def tokens_ok_def)

lemma hold_inv_result:
  assumes i: "hold_inv tells born h" and r: "\<And>e. r = Some e \<Longrightarrow> \<exists>x t n. e = timed x t \<and> tells x = Some n \<and> hd_case h = Some n"
  shows "hold_inv tells born (h\<lparr>hd_result := r\<rparr>)"
  by (rule hold_invI) (use hold_invD [OF i] r in \<open>simp_all add: backed_def kept_def result_ok_def\<close>)

lemma hold_inv_fewer:
  assumes i: "hold_inv tells born h"
  shows "hold_inv tells born (h\<lparr>hd_flights := remove1 f (hd_flights h)\<rparr>)" "hold_inv tells born (h\<lparr>hd_lookups := remove1 l (hd_lookups h)\<rparr>)"
proof -
  let ?f = "h\<lparr>hd_flights := remove1 f (hd_flights h)\<rparr>"
  show "hold_inv tells born ?f"
  proof (rule hold_invI)
    show "lookup_ok ?f l" if "l \<in> set (hd_lookups ?f)" for l
    proof (rule lookup_ok_mono)
      show "lookup_ok h l" using hold_invD(6) [OF i] that by simp
    qed (auto simp: guarded_def gone_def dest: notin_set_remove1)
    show "flights_ok ?f" using hold_invD(5) [OF i] distinct_remove1_map [of fl_nonce "hd_flights h" f]
      by (auto simp: flights_ok_def dest: notin_set_remove1)
    show "tokens_ok ?f" using hold_invD(7) [OF i] by (auto simp: tokens_ok_def dest: notin_set_remove1)
  qed (use hold_invD [OF i] in \<open>simp_all add: backed_def kept_def result_ok_def\<close>)
  let ?l = "h\<lparr>hd_lookups := remove1 l (hd_lookups h)\<rparr>"
  show "hold_inv tells born ?l"
    by (rule hold_invI) (use hold_invD [OF i] in \<open>auto simp: backed_def kept_def result_ok_def dest: notin_set_remove1\<close>)
qed

lemma hold_inv_spent:
  assumes i: "hold_inv tells born h" and f: "f \<in> set (hd_flights h)" and c: "hd_case h = Some n"
  shows "hold_inv tells born (spent f h)"
proof (cases "hd_pending h = None \<or> has (hd_pending h) (fl_nonce f)")
  case False
  then have "spent f h = h\<lparr>hd_flights := remove1 f (hd_flights h)\<rparr>" unfolding spent_def by (simp only: if_False)
  then show ?thesis using hold_inv_fewer(1) [OF i] by simp
next
  case True
  let ?h = "h\<lparr>hd_draft := None, hd_claimed := None, hd_pending := None, hd_flights := remove1 f (hd_flights h)\<rparr>"
  note fo = hold_invD(5) [OF i]
  have only: "\<not> hd_now h < end_of g" if g: "g \<in> set (remove1 f (hd_flights h))" for g
  proof
    assume win: "hd_now h < end_of g"
    have g': "g \<in> set (hd_flights h)" "g \<noteq> f" using g remove_flight [OF fo] by auto
    then have "hd_pending h = Some (mark g)" using fo win by (simp add: flights_ok_def)
    then have "fl_nonce g = fl_nonce f" using True by (simp add: mark_def)
    then show False using fo g' f by (auto simp: flights_ok_def distinct_map dest: inj_onD)
  qed
  have "hold_inv tells born ?h"
  proof (rule hold_invI)
    show "lookup_ok ?h l" if "l \<in> set (hd_lookups ?h)" for l
    proof (rule lookup_ok_mono)
      show l: "lookup_ok h l" using hold_invD(6) [OF i] that by simp
      show "gone h (lk_token l) \<Longrightarrow> gone ?h (lk_token l)" by (auto simp: gone_def dest: notin_set_remove1)
      show "guarded h (lk_at l + 60000) \<Longrightarrow> guarded ?h (lk_at l + 60000) \<or> gone ?h (lk_token l)"
        using l only by (auto simp: gone_def lookup_ok_def)
    qed auto
    show "flights_ok ?h" using fo only distinct_remove1_map [of fl_nonce "hd_flights h" f]
      by (auto simp: flights_ok_def dest: notin_set_remove1)
    show "tokens_ok ?h" using hold_invD(7) [OF i] by (auto simp: tokens_ok_def dest: notin_set_remove1)
  qed (use hold_invD [OF i] c in \<open>simp_all add: backed_def kept_def result_ok_def until_def\<close>)
  then show ?thesis using True by (simp add: spent_def)
qed

lemma hold_inv_looked:
  assumes i: "hold_inv tells born h" and c: "has (hd_claimed h) v"
  shows "hold_inv tells born (h\<lparr>hd_lookups := \<lparr>lk_token = v, lk_at = hd_now h, lk_case = hd_case h\<rparr> # hd_lookups h\<rparr>)"
    (is "hold_inv _ _ ?h")
proof (rule hold_invI)
  show "lookup_ok ?h l" if "l \<in> set (hd_lookups ?h)" for l
  proof (cases "l \<in> set (hd_lookups h)")
    case True
    then show ?thesis using hold_invD(6) [OF i] by simp
  next
    case False
    then have "l = \<lparr>lk_token = v, lk_at = hd_now h, lk_case = hd_case h\<rparr>" using that by simp
    then show ?thesis using hold_invD(7) [OF i] c by (auto simp: lookup_ok_def tokens_ok_def)
  qed
qed (use hold_invD [OF i] in \<open>simp_all add: backed_def kept_def result_ok_def\<close>)

lemma hold_inv_put_back:
  assumes i: "hold_inv tells born h" and e: "hd_draft h = None" "hd_pending h = None" "has (hd_claimed h) v"
  shows "hold_inv tells born (h\<lparr>hd_draft := hd_claimed h, hd_claimed := None\<rparr>)" (is "hold_inv _ _ ?h")
proof (rule hold_invI)
  show "lookup_ok ?h l" if "l \<in> set (hd_lookups ?h)" for l
  proof (rule lookup_ok_mono)
    show "lookup_ok h l" using hold_invD(6) [OF i] that by simp
  qed (use e in \<open>auto simp: guarded_def gone_def\<close>)
  show "flights_ok ?h" using hold_invD(5) [OF i] by (simp add: flights_ok_def)
  show "tokens_ok ?h" using hold_invD(7) [OF i] by (simp add: tokens_ok_def)
  show "kept (born + SUBMISSION_TTL * 1000) ?h" using e by (auto simp: kept_def has_def)
qed (use hold_invD [OF i] e in \<open>simp_all add: backed_def result_ok_def until_def\<close>)

lemma hold_inv_unclaimed:
  assumes i: "hold_inv tells born h" and e: "hd_pending h = None" "hd_case h \<noteq> None"
  shows "hold_inv tells born (h\<lparr>hd_claimed := None\<rparr>)" (is "hold_inv _ _ ?h")
proof (rule hold_invI)
  show "lookup_ok ?h l" if "l \<in> set (hd_lookups ?h)" for l
  proof (rule lookup_ok_mono)
    show "lookup_ok h l" using hold_invD(6) [OF i] that by simp
  qed (use e in \<open>auto simp: guarded_def gone_def\<close>)
  show "flights_ok ?h" using hold_invD(5) [OF i] by (simp add: flights_ok_def)
  show "tokens_ok ?h" using hold_invD(7) [OF i] by (simp add: tokens_ok_def)
qed (use hold_invD [OF i] e in \<open>simp_all add: backed_def result_ok_def until_def kept_def\<close>)

lemma hold_inv_step:
  assumes "hold_step tells h h'" "hold_inv tells born h"
  shows "hold_inv tells born h'"
  using assms
proof (induction rule: hold_step.induct)
  case (time h t)
  then show ?case by (simp add: hold_inv_time)
next
  case (claimed h e v n)
  then show ?case by (rule hold_inv_claimed [rotated])
next
  case (committed f h n)
  then show ?case by (rule hold_inv_committed [rotated])
next
  case (rejected f h)
  then have "hd_now h < end_of f" by (simp add: end_of_def submission_times)
  then show ?case using rejected by (simp add: hold_inv_returned)
next
  case (failed f h)
  then show ?case by (simp add: hold_inv_failed)
next
  case (given_back f h)
  then show ?case by (simp add: hold_inv_returned)
next
  case (finished f h n r)
  have s: "hold_inv tells born (spent f h)" by (rule hold_inv_spent [OF finished(4,1,2)])
  have "hd_result (spent f h) = hd_result h" "hd_case (spent f h) = hd_case h" by (simp_all add: spent_def)
  then have "\<exists>x t k. e = timed x t \<and> tells x = Some k \<and> hd_case (spent f h) = Some k" if "r = Some e" for e
    using that finished(2,3) hold_invD(8) [OF s] by (auto simp: result_ok_def)
  then show ?case by (rule hold_inv_result [OF s])
next
  case (looked h v)
  then show ?case by (simp add: hold_inv_looked)
next
  case (put_back l h)
  then show ?case using hold_inv_fewer(2) [OF hold_inv_put_back] by simp
next
  case (told l h n x)
  have c: "hd_case h = Some n" using hold_invD(6) [OF told(5,1)] told(2) by (simp add: lookup_ok_def)
  then have u: "hold_inv tells born (h\<lparr>hd_claimed := None\<rparr>)" using hold_inv_unclaimed told by simp
  have "hold_inv tells born (h\<lparr>hd_claimed := None, hd_result := Some (timed x (hd_now h + RESULT_TTL * 1000))\<rparr>)"
    by (rule hold_inv_result [OF u]) (use c told(3) in auto)
  then show ?case using hold_inv_fewer(2) by fastforce
next
  case (read h)
  then show ?case by (rule hold_inv_result) simp
qed (simp_all add: hold_inv_saved hold_inv_discarded hold_inv_fewer)

section \<open>What holds of every reachable world\<close>

definition world_inv :: "string \<Rightarrow> (string \<Rightarrow> string option) \<Rightarrow> int \<Rightarrow> world \<Rightarrow> bool" where
  "world_inv s tells born w \<longleftrightarrow> hold_inv tells born (hold_of s w)"

interpretation drafts: invariant_system "\<lambda>w. w = new_draft s born token" "claim_step s tells" "world_inv s tells born"
proof
  show "world_inv s tells born w" if "w = new_draft s born token" for w
    using that
    by (simp add: world_inv_def hold_inv_def hold_defs new_draft_def hold_of_def entry_set timed_def [symmetric] submission_times)
      (simp add: kv_entry_def)
  show "world_inv s tells born w'" if "world_inv s tells born w" "claim_step s tells w w'" for w w'
    using hold_inv_step [OF scripts_implement_hold [OF that(2)]] that(1) by (simp add: world_inv_def)
qed

abbreviation draft_world :: "string \<Rightarrow> (string \<Rightarrow> string option) \<Rightarrow> int \<Rightarrow> string \<Rightarrow> world \<Rightarrow> bool" where
  "draft_world s tells born token \<equiv> reachable (\<lambda>w. w = new_draft s born token) (claim_step s tells)"

lemma draft_world_inv: "draft_world s tells born token w \<Longrightarrow> hold_inv tells born (hold_of s w)"
  using drafts.inv_reachable by (simp add: world_inv_def)

lemma draft_world_step: "draft_world s tells born token w \<Longrightarrow> claim_step s tells w w' \<Longrightarrow> draft_world s tells born token w'"
  by (rule reachable.step)

lemma put_back_unsent:
  assumes i: "hold_inv tells born h" and l: "l \<in> set (hd_lookups h)" "lk_case l = None" "hd_now h \<le> lk_at l + 60000"
    and e: "hd_pending h = None" "has (hd_claimed h) (lk_token l)"
  shows "hd_case h = None"
  using hold_invD(6) [OF i l(1)] l(2,3) e by (auto simp: lookup_ok_def guarded_def gone_def)

text \<open>
  A draft is given back, by a recovery that found no report or by a submit whose look-up found
  none, only while its report does not exist; and two submits never hold the draft at once.
\<close>

theorem given_back_only_unsent:
  assumes "draft_world s tells born token w"
  shows "(\<forall>l \<in> set (wd_lookups w). \<forall>r. lk_case l = None \<and> wd_now w \<le> lk_at l + 60000 \<and>
      recover_draft (wd_now w) (wd_redis w) s (lk_token l) None = (True, r) \<longrightarrow> wd_case w = None) \<and>
    (\<forall>f \<in> set (wd_flights w). \<forall>g \<in> set (wd_flights w). wd_now w < end_of f \<and> wd_now w < end_of g \<longrightarrow>
      f = g \<and> (fl_phase f = Failed \<longrightarrow> wd_case w = None))"
proof (rule conjI)
  note i = draft_world_inv [OF assms]
  show "\<forall>l \<in> set (wd_lookups w). \<forall>r. lk_case l = None \<and> wd_now w \<le> lk_at l + 60000 \<and>
      recover_draft (wd_now w) (wd_redis w) s (lk_token l) None = (True, r) \<longrightarrow> wd_case w = None"
  proof (intro ballI allI impI, elim conjE)
    fix l r assume l: "l \<in> set (wd_lookups w)" "lk_case l = None" "wd_now w \<le> lk_at l + 60000"
      and r: "recover_draft (wd_now w) (wd_redis w) s (lk_token l) None = (True, r)"
    obtain e where "kv_entry (wd_now w) (wd_redis w) (claimed_key s) = Some e" "ent_val e = Txt (lk_token l)"
      "kv_entry (wd_now w) (wd_redis w) (pending_key s) = None"
      by (rule recover_draft_entries [OF r]) blast
    then show "wd_case w = None" using put_back_unsent [OF i, of l] l by (simp add: has_def)
  qed
  show "\<forall>f \<in> set (wd_flights w). \<forall>g \<in> set (wd_flights w). wd_now w < end_of f \<and> wd_now w < end_of g \<longrightarrow>
      f = g \<and> (fl_phase f = Failed \<longrightarrow> wd_case w = None)"
    using flights_unique [OF hold_invD(5) [OF i]] hold_invD(5) [OF i] by (auto simp: flights_ok_def)
qed

text \<open>
  C5. A draft is never lost: until two hours after its first save, unless the reporter discarded it or
  its report was committed, it is under its own or its claimed key, whatever the submits, recoveries and
  crashes before; and what a stored result tells is the committed case number.
\<close>

theorem draft_never_lost:
  assumes "draft_world s tells born token w"
  shows "(\<forall>v. kv_get (wd_now w) (wd_redis w) (result_key s) = Some v \<longrightarrow>
           (\<exists>x n. v = Txt x \<and> tells x = Some n \<and> wd_case w = Some n)) \<and>
    (wd_case w = None \<and> \<not> wd_discarded w \<and> wd_now w < born + SUBMISSION_TTL * 1000 \<longrightarrow>
       kv_exists (wd_now w) (wd_redis w) (draft_key s) \<or> kv_exists (wd_now w) (wd_redis w) (claimed_key s))"
proof -
  note i = draft_world_inv [OF assms]
  show ?thesis
    using hold_invD(8,9) [OF i] by (auto simp: result_ok_def kept_def kv_get_def kv_exists_def timed_def)
qed

text \<open>
  A submit that ends without cleanup does not keep the draft: from any reachable world whose report
  does not exist, within the lifetime of the \<open>pending\<close> mark and by a recovery alone, the draft is
  back under its own key.
\<close>

theorem abandoned_draft_returns:
  assumes "draft_world s tells born token w" "wd_case w = None" "\<not> wd_discarded w"
    and "wd_now w + PENDING_TTL * 1000 < born + SUBMISSION_TTL * 1000"
  shows "\<exists>w'. (claim_step s tells)\<^sup>*\<^sup>* w w' \<and> wd_now w' \<le> wd_now w + PENDING_TTL * 1000 \<and> wd_case w' = None \<and>
    kv_exists (wd_now w') (wd_redis w') (draft_key s)"
proof (cases "kv_entry (wd_now w) (wd_redis w) (draft_key s)")
  case (Some e)
  then show ?thesis using assms(2) by (intro exI [of _ w]) (simp add: kv_exists_def PENDING_TTL_def)
next
  case None
  note i = draft_world_inv [OF assms(1)]
  obtain v t where c: "kv_entry (wd_now w) (wd_redis w) (claimed_key s) = Some (timed v t)" "born + SUBMISSION_TTL * 1000 \<le> t"
    using hold_invD(3,9) [OF i] assms(2-4) None by (auto simp: until_def kept_def PENDING_TTL_def)
  define u where "u = (case kv_entry (wd_now w) (wd_redis w) (pending_key s) of
      None \<Rightarrow> wd_now w | Some e \<Rightarrow> max (wd_now w) (the (ent_exp e)))"
  have u: "wd_now w \<le> u" "u \<le> wd_now w + PENDING_TTL * 1000" and p: "kv_entry u (wd_redis w) (pending_key s) = None"
    using hold_invD(4) [OF i] entry_later [of "wd_now w" u "wd_redis w" "pending_key s"]
    by (auto simp: u_def backed_def timed_def live_def PENDING_TTL_def split: option.splits)
  have d: "kv_entry u (wd_redis w) (draft_key s) = None" using entry_later [OF u(1)] None by simp
  have cu: "kv_entry u (wd_redis w) (claimed_key s) = Some (timed v t)"
    using entry_later [OF u(1)] c u(2) assms(4) by simp
  let ?w1 = "w\<lparr>wd_now := u\<rparr>"
  let ?l = "\<lparr>lk_token = v, lk_at = u, lk_case = None\<rparr>"
  let ?w2 = "?w1\<lparr>wd_lookups := ?l # wd_lookups w\<rparr>"
  let ?r = "snd (recover_draft u (wd_redis w) s v None)"
  let ?w3 = "?w2\<lparr>wd_redis := ?r, wd_lookups := remove1 ?l (wd_lookups ?w2)\<rparr>"
  have "claim_step s tells w ?w1" by (rule claim_step.tick [OF u(1)])
  moreover have "claim_step s tells ?w1 ?w2"
    using claim_step.look [of ?w1 s v tells] p d cu assms(2) by (simp add: abandoned_def kv_exists_def kv_get_def)
  moreover have "claim_step s tells ?w2 ?w3"
    using claim_step.recover [of ?l ?w2 None tells s] by simp
  ultimately have run: "(claim_step s tells)\<^sup>*\<^sup>* w ?w3" by (meson converse_rtranclp_into_rtranclp rtranclp.rtrancl_refl)
  have rec: "recover_draft u (wd_redis w) s v None = (True, kv_rename u (wd_redis w) (claimed_key s) (draft_key s))"
    using p d cu by (simp add: recover_draft_def kv_exists_def kv_get_def)
  have "kv_exists u ?r (draft_key s)"
    unfolding rec using kv_entry_rename [OF cu, of "draft_key s" u "draft_key s"] live_entry [OF cu] by (simp add: kv_exists_def)
  with run u(2) assms(2) show ?thesis by (intro exI [of _ ?w3]) simp
qed

section \<open>A submit that crashed\<close>

definition claimed_world :: world where
  "claimed_world = (let w = new_draft ''S'' 0 ''T'' in
     w\<lparr>wd_redis := snd (claim_draft 0 (wd_redis w) ''S'' ''N''), wd_used := ''N'' # wd_used w,
       wd_flights := [\<lparr>fl_nonce = ''N'', fl_token = ''T'', fl_since = 0, fl_phase = Working\<rparr>]\<rparr>)"

definition looked_up_world :: world where
  "looked_up_world = claimed_world\<lparr>wd_now := 120000, wd_lookups := [\<lparr>lk_token = ''T'', lk_at = 120000, lk_case = None\<rparr>]\<rparr>"

lemma claimed_world_reached: "draft_world ''S'' tells 0 ''T'' claimed_world"
proof -
  let ?w = "new_draft ''S'' 0 ''T''"
  have "fst (claim_draft 0 (wd_redis ?w) ''S'' ''N'') = Some (Txt ''T'')" by code_simp
  then have c: "claim_draft (wd_now ?w) (wd_redis ?w) ''S'' ''N'' = (Some (Txt ''T''), snd (claim_draft 0 (wd_redis ?w) ''S'' ''N''))"
    by (simp add: new_draft_def prod_eq_iff)
  have d: "kv_get (wd_now ?w + PENDING_TTL * 1000) (wd_redis ?w) (draft_key ''S'') \<noteq> None" by code_simp
  have "draft_world ''S'' tells 0 ''T'' ?w" by (rule reachable.start) simp
  moreover have "''N'' \<notin> set (wd_used ?w)" by (simp add: new_draft_def)
  note claim_step.claim [OF c this d, of tells]
  ultimately show ?thesis
    using draft_world_step by (simp add: claimed_world_def new_draft_def Let_def)
qed

lemma looked_up_world_reached: "draft_world ''S'' tells 0 ''T'' looked_up_world"
proof -
  let ?w = "claimed_world\<lparr>wd_now := 120000\<rparr>"
  have "wd_now claimed_world = 0" by (simp add: claimed_world_def new_draft_def Let_def)
  then have "draft_world ''S'' tells 0 ''T'' ?w"
    using draft_world_step [OF claimed_world_reached claim_step.tick] by simp
  moreover have "abandoned (wd_now ?w) (wd_redis ?w) ''S'' = Some (Txt ''T'')" by code_simp
  ultimately have "draft_world ''S'' tells 0 ''T'' (?w\<lparr>wd_lookups := \<lparr>lk_token = ''T'', lk_at = wd_now ?w, lk_case = wd_case ?w\<rparr> # wd_lookups ?w\<rparr>)"
    by (rule draft_world_step [OF _ claim_step.look])
  then show ?thesis by (simp add: looked_up_world_def claimed_world_def new_draft_def Let_def)
qed

theorem given_back_only_unsent_witness:
  "\<exists>r. recover_draft 120000 (wd_redis looked_up_world) ''S'' ''T'' None = (True, r) \<and> wd_case looked_up_world = None"
proof -
  have "fst (recover_draft 120000 (wd_redis looked_up_world) ''S'' ''T'' None)" by code_simp
  then obtain r where r: "recover_draft 120000 (wd_redis looked_up_world) ''S'' ''T'' None = (True, r)" by (metis eq_fst_iff)
  have "wd_now looked_up_world = 120000" "wd_lookups looked_up_world = [\<lparr>lk_token = ''T'', lk_at = 120000, lk_case = None\<rparr>]"
    by (simp_all add: looked_up_world_def)
  with given_back_only_unsent [OF looked_up_world_reached [of "\<lambda>_. None"]] r have "wd_case looked_up_world = None" by simp
  with r show ?thesis by blast
qed

theorem draft_never_lost_witness:
  "kv_exists 120000 (wd_redis looked_up_world) (draft_key ''S'') \<or> kv_exists 120000 (wd_redis looked_up_world) (claimed_key ''S'')"
  using draft_never_lost [OF looked_up_world_reached [of "\<lambda>_. None"]]
  by (simp add: looked_up_world_def claimed_world_def new_draft_def Let_def SUBMISSION_TTL_def)

theorem abandoned_draft_returns_witness:
  "\<exists>w'. (claim_step ''S'' (\<lambda>_. None))\<^sup>*\<^sup>* claimed_world w' \<and> kv_exists (wd_now w') (wd_redis w') (draft_key ''S'')"
proof -
  have "wd_case claimed_world = None" "\<not> wd_discarded claimed_world" "wd_now claimed_world + PENDING_TTL * 1000 < 0 + SUBMISSION_TTL * 1000"
    by (simp_all add: claimed_world_def new_draft_def Let_def submission_times)
  from abandoned_draft_returns [OF claimed_world_reached this] show ?thesis by blast
qed

theorem scripts_implement_hold_witness:
  "hold_step (\<lambda>_. None) (hold_of ''S'' claimed_world) (hold_of ''S'' (claimed_world\<lparr>wd_now := 5\<rparr>))"
proof -
  have "wd_now claimed_world \<le> 5" by (simp add: claimed_world_def new_draft_def Let_def)
  then show ?thesis by (rule scripts_implement_hold [OF claim_step.tick])
qed

end
