(* ===== verification/Wizard.thy ===== *)
theory Wizard
  imports Catalog Upload
begin

text \<open>
  The reporting wizard (\<open>app/api/reports.py\<close>, first half): whose wizard a request is on, the draft,
  the check of each step, and the steps themselves as functions on the draft. The JSON text of a
  draft and the base64 of its files are the values themselves; \<open>Submission\<close> stores them.
\<close>

section \<open>Whose wizard\<close>

record tenant =
  ten_scoped :: bool
  ten_org :: "uuid option"
  ten_path :: string

definition tenant_scope :: "tenant \<Rightarrow> bool \<times> uuid option" where
  "tenant_scope t = (ten_scoped t, ten_org t)"

datatype tenant_answer = On_wizard tenant | Moved string | Not_configured

definition tenant_of :: "settings \<Rightarrow> db \<Rightarrow> string option \<Rightarrow> refusal + tenant_answer" where
  "tenant_of cfg d slug =
     (if \<not> cfg_multi_tenancy cfg then
        (case slug of
           None \<Rightarrow> Inr (On_wizard \<lparr>ten_scoped = False, ten_org = None, ten_path = ''/submit''\<rparr>)
         | Some s \<Rightarrow> if s = cfg_default_org_slug cfg then Inr (Moved ''/submit'') else Inl (Status 404))
      else
        (case slug of
           None \<Rightarrow>
             (case active_default_org_id cfg d of
                None \<Rightarrow> Inr Not_configured
              | Some i \<Rightarrow> Inr (On_wizard \<lparr>ten_scoped = True, ten_org = Some i, ten_path = ''/submit''\<rparr>))
         | Some s \<Rightarrow>
             (case find (\<lambda>x. org_slug x = s \<and> org_active x) (db_orgs d) of
                None \<Rightarrow> Inl (Status 404)
              | Some x \<Rightarrow> Inr (On_wizard \<lparr>ten_scoped = True, ten_org = Some (org_id x), ten_path = ''/submit/'' @ s\<rparr>))))"

section \<open>The draft\<close>

text \<open>A key of the dictionary that is not there is \<open>None\<close>; \<open>org_id\<close> and \<open>location_id\<close> can also hold null.\<close>

record draft =
  dr_step :: "int option"
  dr_report_id :: "uuid option"
  dr_org :: "uuid option option"
  dr_mode :: "string option"
  dr_name :: "string option"
  dr_contact :: "string option"
  dr_email :: "string option"
  dr_location :: "uuid option option"
  dr_category :: "string option"
  dr_description :: "string option"
  dr_files :: "stored_file list option"
  dr_flash :: "string option"
  dr_flash_fields :: "(string \<times> string) list option"

definition empty_draft :: draft where
  "empty_draft = \<lparr>dr_step = None, dr_report_id = None, dr_org = None, dr_mode = None, dr_name = None,
     dr_contact = None, dr_email = None, dr_location = None, dr_category = None, dr_description = None,
     dr_files = None, dr_flash = None, dr_flash_fields = None\<rparr>"

definition STEP_MODE :: int where "STEP_MODE = 1"
definition STEP_LOCATION :: int where "STEP_LOCATION = 2"
definition STEP_CATEGORY :: int where "STEP_CATEGORY = 3"
definition STEP_DESCRIPTION :: int where "STEP_DESCRIPTION = 4"
definition STEP_ATTACHMENTS :: int where "STEP_ATTACHMENTS = 5"
definition STEP_REVIEW :: int where "STEP_REVIEW = 6"

lemmas step_defs = STEP_MODE_def STEP_LOCATION_def STEP_CATEGORY_def STEP_DESCRIPTION_def STEP_ATTACHMENTS_def STEP_REVIEW_def

definition step_of :: "draft \<Rightarrow> int" where
  "step_of s = (case dr_step s of None \<Rightarrow> STEP_MODE | Some n \<Rightarrow> n)"

text \<open>A draft of another organisation is not loaded.\<close>

definition own_draft :: "tenant \<Rightarrow> draft \<Rightarrow> draft" where
  "own_draft t s =
     (if ten_scoped t \<and> (case dr_org s of None \<Rightarrow> ten_org t | Some x \<Rightarrow> x) \<noteq> ten_org t then empty_draft else s)"

section \<open>The checks\<close>

definition mode_error :: "settings \<Rightarrow> string option \<Rightarrow> string option" where
  "mode_error cfg mode =
     (if mode = Some ''anonymous'' \<or> cfg_submission_mode_enabled cfg \<and> mode = Some ''confidential''
      then None else Some ''mode_required'')"

definition location_error :: "db \<Rightarrow> tenant \<Rightarrow> uuid option \<Rightarrow> string option" where
  "location_error d t i =
     (case i of
        None \<Rightarrow> None
      | Some i \<Rightarrow>
          (case get_location_by_id d i of
             None \<Rightarrow> Some ''invalid_location''
           | Some l \<Rightarrow>
               (if \<not> loc_active l \<or> ten_scoped t \<and> loc_org l \<noteq> ten_org t then Some ''invalid_location'' else None)))"

definition location_field :: "db \<Rightarrow> tenant \<Rightarrow> string \<Rightarrow> string + uuid option" where
  "location_field d t raw =
     (if raw = [] then Inr None
      else (case parse_uuid raw of
              None \<Rightarrow> Inl ''invalid_location''
            | Some i \<Rightarrow> (case location_error d t (Some i) of Some x \<Rightarrow> Inl x | None \<Rightarrow> Inr (Some i))))"

definition category_error :: "string list \<Rightarrow> string option \<Rightarrow> string option" where
  "category_error slugs category =
     (case category of
        Some c \<Rightarrow> if c \<in> set slugs then None else Some ''category_required''
      | None \<Rightarrow> Some ''category_required'')"

definition description_error :: "string option \<Rightarrow> string option" where
  "description_error description =
     (let n = (case description of None \<Rightarrow> 0 | Some t \<Rightarrow> length (strip t)) in
      if n < 10 then Some ''description_too_short''
      else if n > 10000 then Some ''description_too_long'' else None)"

text \<open>What the wizard of a request offers: the active categories and locations of its organisation.\<close>

definition offered_slugs :: "db \<Rightarrow> tenant \<Rightarrow> string list" where
  "offered_slugs d t = map cat_slug (get_active_categories (tenant_scope t) (db_categories d))"

definition has_locations :: "db \<Rightarrow> tenant \<Rightarrow> bool" where
  "has_locations d t \<longleftrightarrow> get_active_locations (tenant_scope t) (db_locations d) \<noteq> []"

definition draft_error :: "settings \<Rightarrow> db \<Rightarrow> tenant \<Rightarrow> draft \<Rightarrow> (int \<times> string) option" where
  "draft_error cfg d t s =
     (let checks = [(STEP_MODE, mode_error cfg (dr_mode s)),
                    (STEP_LOCATION, if has_locations d t then location_error d t (Option.bind (dr_location s) id) else None),
                    (STEP_CATEGORY, category_error (offered_slugs d t) (dr_category s)),
                    (STEP_DESCRIPTION, description_error (dr_description s))]
      in map_option (\<lambda>(n, x). (n, the x)) (find (\<lambda>(n, x). x \<noteq> None) checks))"

definition email_local_char :: "char \<Rightarrow> bool" where
  "email_local_char c \<longleftrightarrow>
     (let n = of_char c :: nat in 65 \<le> n \<and> n \<le> 90 \<or> 97 \<le> n \<and> n \<le> 122 \<or> 48 \<le> n \<and> n \<le> 57 \<or>
        c \<in> set ''.!#$%&*+/=?^_{|}~-'' \<or> n = 39 \<or> n = 96)"

definition email_alnum :: "char \<Rightarrow> bool" where
  "email_alnum c \<longleftrightarrow> (let n = of_char c :: nat in 65 \<le> n \<and> n \<le> 90 \<or> 97 \<le> n \<and> n \<le> 122 \<or> 48 \<le> n \<and> n \<le> 57)"

definition email_label :: "string \<Rightarrow> bool" where
  "email_label s \<longleftrightarrow>
     s \<noteq> [] \<and> length s \<le> 63 \<and> email_alnum (hd s) \<and> email_alnum (last s) \<and>
     list_all (\<lambda>c. email_alnum c \<or> c = CHR ''-'') s"

definition valid_email :: "string \<Rightarrow> bool" where
  "valid_email address \<longleftrightarrow>
     (let local = takeWhile (\<lambda>c. c \<noteq> CHR ''@'') address;
          labels = split_at (CHR ''.'') (drop (Suc (length local)) address)
      in CHR ''@'' \<in> set address \<and> local \<noteq> [] \<and> list_all email_local_char local \<and>
         2 \<le> length labels \<and> list_all email_label labels)"

section \<open>The steps\<close>

record wizard_form =
  fm_action :: string
  fm_step :: int
  fm_mode :: string
  fm_name :: string
  fm_contact :: string
  fm_email :: string
  fm_location :: string
  fm_category :: string
  fm_description :: string

text \<open>A failed step shows its error once, on the page it names.\<close>

definition fail_step :: "int \<Rightarrow> string \<Rightarrow> (string \<times> string) list option \<Rightarrow> draft \<Rightarrow> draft" where
  "fail_step n error errs s =
     (let s1 = s\<lparr>dr_step := Some n, dr_flash := Some error\<rparr> in
      case errs of None \<Rightarrow> s1 | Some fs \<Rightarrow> if fs = [] then s1 else s1\<lparr>dr_flash_fields := Some fs\<rparr>)"

definition back_step :: "bool \<Rightarrow> draft \<Rightarrow> draft" where
  "back_step has_locs s =
     (let prev = step_of s - 1;
          prev = (if \<not> has_locs \<and> prev = STEP_LOCATION then STEP_MODE else prev)
      in s\<lparr>dr_step := Some (max STEP_MODE prev)\<rparr>)"

definition mode_step :: "settings \<Rightarrow> bool \<Rightarrow> wizard_form \<Rightarrow> draft \<Rightarrow> draft" where
  "mode_step cfg has_locs f s =
     (let mode = (if \<not> cfg_submission_mode_enabled cfg then ''anonymous'' else fm_mode f) in
      case mode_error cfg (Some mode) of
        Some x \<Rightarrow> fail_step STEP_MODE x None s
      | None \<Rightarrow>
          (let s1 = s\<lparr>dr_mode := Some mode\<rparr>;
               next_step = (if has_locs then STEP_LOCATION else STEP_CATEGORY);
               email = (if cfg_notify_email cfg then strip (fm_email f) else [])
           in if mode = ''confidential'' then
                (let s2 = s1\<lparr>dr_name := Some (strip (fm_name f)), dr_contact := Some (strip (fm_contact f)),
                             dr_email := Some email\<rparr>
                 in if email \<noteq> [] \<and> \<not> valid_email email then fail_step STEP_MODE ''email_invalid'' None s2
                    else s2\<lparr>dr_step := Some next_step\<rparr>)
              else s1\<lparr>dr_name := None, dr_contact := None, dr_email := None, dr_step := Some next_step\<rparr>))"

definition location_step :: "db \<Rightarrow> tenant \<Rightarrow> wizard_form \<Rightarrow> draft \<Rightarrow> draft" where
  "location_step d t f s =
     (if has_locations d t
      then (case location_field d t (strip (fm_location f)) of
              Inl x \<Rightarrow> fail_step STEP_LOCATION x None s
            | Inr i \<Rightarrow> s\<lparr>dr_location := Some i, dr_step := Some STEP_CATEGORY\<rparr>)
      else s\<lparr>dr_step := Some STEP_CATEGORY\<rparr>)"

definition category_step :: "string list \<Rightarrow> wizard_form \<Rightarrow> draft \<Rightarrow> draft" where
  "category_step slugs f s =
     (case category_error slugs (Some (fm_category f)) of
        Some x \<Rightarrow> fail_step STEP_CATEGORY x None s
      | None \<Rightarrow> s\<lparr>dr_category := Some (fm_category f), dr_step := Some STEP_DESCRIPTION\<rparr>)"

definition description_step :: "wizard_form \<Rightarrow> draft \<Rightarrow> draft" where
  "description_step f s =
     (let t = strip (fm_description f); s1 = s\<lparr>dr_description := Some (take 10000 t)\<rparr> in
      case description_error (Some t) of
        Some x \<Rightarrow> fail_step STEP_DESCRIPTION x None s1
      | None \<Rightarrow> s1\<lparr>dr_step := Some STEP_ATTACHMENTS\<rparr>)"

definition draft_bytes :: "nat \<Rightarrow> nat" where "draft_bytes raw = raw * 16 div 9"

text \<open>\<open>info\<close> is Redis's maxmemory and used bytes, or nothing when it cannot be read.\<close>

definition redis_has_room :: "settings \<Rightarrow> (int \<times> int) option \<Rightarrow> int \<Rightarrow> bool" where
  "redis_has_room cfg info incoming \<longleftrightarrow>
     (case info of
        None \<Rightarrow> True
      | Some (limit, used) \<Rightarrow> limit = 0 \<or> 100 * (used + incoming) < limit * cfg_draft_memory_percent cfg)"

definition attachments_step ::
  "settings \<Rightarrow> (upload_error \<Rightarrow> string) \<Rightarrow> (int \<times> int) option \<Rightarrow> bool \<Rightarrow> upload_error + stored_file list \<Rightarrow> draft \<Rightarrow> draft" where
  "attachments_step cfg say info locked uploads s =
     (case uploads of
        Inl x \<Rightarrow> fail_step STEP_ATTACHMENTS ''attachments_rejected'' (Some [(''files'', say x)]) s
      | Inr files \<Rightarrow>
          (if files = [] then s\<lparr>dr_step := Some STEP_REVIEW\<rparr>
           else (let incoming = draft_bytes (sum_list (map (\<lambda>(_, _, c). length c) files)) in
                 if \<not> locked \<or> \<not> redis_has_room cfg info (int incoming)
                 then fail_step STEP_ATTACHMENTS ''attachments_no_room'' None s
                 else s\<lparr>dr_files := Some files, dr_step := Some STEP_REVIEW\<rparr>)))"

text \<open>
  A POST up to the review: \<open>None\<close> is the final submit, which \<open>Submission\<close> has; otherwise the draft
  to save.
\<close>

record surroundings =
  sur_say :: "upload_error \<Rightarrow> string"
  sur_info :: "(int \<times> int) option"
  sur_locked :: bool
  sur_uploads :: "upload_error + stored_file list"

definition wizard_post :: "settings \<Rightarrow> db \<Rightarrow> tenant \<Rightarrow> surroundings \<Rightarrow> wizard_form \<Rightarrow> draft \<Rightarrow> draft option" where
  "wizard_post cfg d t sur f s =
     (if fm_action f \<notin> {''next'', ''back''} \<or> fm_action f = ''next'' \<and> fm_step f \<noteq> step_of s then
        (let s1 = (if s = empty_draft then s\<lparr>dr_flash := Some ''session_incomplete''\<rparr> else s)
         in Some (s1\<lparr>dr_step := Some (step_of s1)\<rparr>))
      else
        (let s1 = (if ten_scoped t \<and> dr_org s = None then s\<lparr>dr_org := Some (ten_org t)\<rparr> else s);
             locs = has_locations d t
         in if fm_action f = ''back'' then Some (back_step locs s1)
            else if fm_step f = STEP_MODE then Some (mode_step cfg locs f s1)
            else if fm_step f = STEP_LOCATION then Some (location_step d t f s1)
            else if fm_step f = STEP_CATEGORY then Some (category_step (offered_slugs d t) f s1)
            else if fm_step f = STEP_DESCRIPTION then Some (description_step f s1)
            else if fm_step f = STEP_ATTACHMENTS then
              Some (attachments_step cfg (sur_say sur) (sur_info sur) (sur_locked sur) (sur_uploads sur) s1)
            else if fm_step f = STEP_REVIEW then None
            else Some (s1\<lparr>dr_step := Some STEP_MODE\<rparr>)))"

text \<open>Removing one file, on the attachments step only; the meta list follows the files.\<close>

definition remove_attachment :: "int \<Rightarrow> draft \<Rightarrow> draft option" where
  "remove_attachment i s =
     (let files = (case dr_files s of None \<Rightarrow> [] | Some fs \<Rightarrow> fs) in
      if dr_step s = Some STEP_ATTACHMENTS \<and> 0 \<le> i \<and> i < int (length files)
      then Some (s\<lparr>dr_files := Some (take (nat i) files @ drop (Suc (nat i)) files)\<rparr>) else None)"

text \<open>The page: the step shown, and the draft as the visit leaves it (the flash is shown once).\<close>

definition wizard_get :: "bool \<Rightarrow> draft \<Rightarrow> int \<times> string option \<times> draft" where
  "wizard_get has_locs s =
     (let current = step_of s;
          moved = \<not> has_locs \<and> current = STEP_LOCATION;
          s1 = (if moved then s\<lparr>dr_step := Some STEP_CATEGORY\<rparr> else s)
      in (if moved then STEP_CATEGORY else current, dr_flash s1, s1\<lparr>dr_flash := None, dr_flash_fields := None\<rparr>))"

definition compute_total_steps :: "bool \<Rightarrow> int" where
  "compute_total_steps has_locs = (if has_locs then 6 else 5)"

definition compute_step_label :: "int \<Rightarrow> bool \<Rightarrow> int" where
  "compute_step_label step has_locs = (if has_locs then step else if step \<ge> STEP_CATEGORY then step - 1 else step)"

text \<open>What the final submit files: a draft whose checks passed, its identity encrypted when it is confidential.\<close>

definition final_report :: "env \<Rightarrow> bool \<Rightarrow> tenant \<Rightarrow> draft \<Rightarrow> new_report" where
  "final_report e has_locs t s =
     (let confidential = (dr_mode s = Some ''confidential'');
          given = (\<lambda>x. case x of None \<Rightarrow> [] | Some v \<Rightarrow> strip v);
          sealed = (\<lambda>v. if v = [] then None else Some (encrypt (env_crypto e) (env_cfg e) v))
      in \<lparr>nr_category = (case dr_category s of None \<Rightarrow> [] | Some c \<Rightarrow> c),
          nr_description = given (dr_description s),
          nr_mode = (if confidential then Confidential else Anonymous),
          nr_location = (if has_locs then Option.bind (dr_location s) id else None),
          nr_name = (if confidential then sealed (given (dr_name s)) else None),
          nr_contact = (if confidential then sealed (given (dr_contact s)) else None),
          nr_email = (if confidential \<and> cfg_notify_email (env_cfg e) then sealed (given (dr_email s)) else None),
          nr_id = dr_report_id s,
          nr_org = ten_org t\<rparr>)"

section \<open>Reaching the review\<close>

lemma step_of_set [simp]: "step_of (s\<lparr>dr_step := Some n\<rparr>) = n"
  by (simp add: step_of_def)

lemma step_of_fail [simp]: "step_of (fail_step n x errs s) = n"
  by (simp add: fail_step_def step_of_def Let_def split: option.split)

lemma fail_step_keeps [simp]:
  "dr_mode (fail_step n x errs s) = dr_mode s" "dr_location (fail_step n x errs s) = dr_location s"
  "dr_category (fail_step n x errs s) = dr_category s" "dr_description (fail_step n x errs s) = dr_description s"
  "dr_name (fail_step n x errs s) = dr_name s" "dr_contact (fail_step n x errs s) = dr_contact s"
  "dr_email (fail_step n x errs s) = dr_email s" "dr_org (fail_step n x errs s) = dr_org s"
  "dr_files (fail_step n x errs s) = dr_files s" "dr_report_id (fail_step n x errs s) = dr_report_id s"
  by (simp_all add: fail_step_def Let_def split: option.split)

definition progress :: "settings \<Rightarrow> db \<Rightarrow> tenant \<Rightarrow> draft \<Rightarrow> bool" where
  "progress cfg d t s \<longleftrightarrow>
     STEP_MODE \<le> step_of s \<and> step_of s \<le> STEP_REVIEW \<and>
     (STEP_LOCATION \<le> step_of s \<longrightarrow> mode_error cfg (dr_mode s) = None) \<and>
     (STEP_CATEGORY \<le> step_of s \<and> has_locations d t \<longrightarrow>
        location_error d t (Option.bind (dr_location s) id) = None) \<and>
     (STEP_DESCRIPTION \<le> step_of s \<longrightarrow> category_error (offered_slugs d t) (dr_category s) = None) \<and>
     (STEP_ATTACHMENTS \<le> step_of s \<longrightarrow> description_error (dr_description s) = None)"

inductive wizard_step :: "settings \<Rightarrow> db \<Rightarrow> tenant \<Rightarrow> draft \<Rightarrow> draft \<Rightarrow> bool" for cfg d t where
  post: "wizard_post cfg d t sur f s = Some s' \<Longrightarrow> wizard_step cfg d t s s'"
| visit: "wizard_step cfg d t s (snd (snd (wizard_get (has_locations d t) s)))"
| remove: "remove_attachment i s = Some s' \<Longrightarrow> wizard_step cfg d t s s'"
| elsewhere: "wizard_step cfg d t s (own_draft t s)"
| forget: "wizard_step cfg d t s empty_draft"

lemma progress_empty: "progress cfg d t empty_draft"
  by (simp add: progress_def empty_draft_def step_of_def step_defs)

lemma progress_later: "progress cfg d t s \<Longrightarrow> STEP_MODE \<le> n \<Longrightarrow> n \<le> step_of s \<Longrightarrow> progress cfg d t (s\<lparr>dr_step := Some n\<rparr>)"
  by (auto simp: progress_def)

lemma progress_fail: "progress cfg d t s \<Longrightarrow> n = step_of s \<Longrightarrow> progress cfg d t (fail_step n x errs s)"
  by (auto simp: progress_def)

lemma progress_back:
  assumes "progress cfg d t s"
  shows "progress cfg d t (back_step has_locs s)"
proof -
  have "1 \<le> step_of s" using assms by (simp add: progress_def step_defs)
  then show ?thesis using assms
    by (auto simp: back_step_def Let_def step_defs intro!: progress_later)
qed

lemma progress_mode:
  assumes "progress cfg d t s" "step_of s = STEP_MODE"
  shows "progress cfg d t (mode_step cfg (has_locations d t) f s)"
  using assms
  by (auto simp: mode_step_def Let_def progress_def step_defs split: option.split)

lemma progress_location:
  assumes "progress cfg d t s" "step_of s = STEP_LOCATION"
  shows "progress cfg d t (location_step d t f s)"
proof -
  have no: "location_error d t i = None" if "location_field d t raw = Inr i" for raw i
    using that by (auto simp: location_field_def location_error_def split: if_splits option.splits)
  show ?thesis using assms
    by (auto simp: location_step_def progress_def step_defs no split: sum.split)
qed

lemma progress_category:
  assumes "progress cfg d t s" "step_of s = STEP_CATEGORY"
  shows "progress cfg d t (category_step (offered_slugs d t) f s)"
  using assms by (auto simp: category_step_def progress_def step_defs split: option.split)

lemma progress_description:
  assumes "progress cfg d t s" "step_of s = STEP_DESCRIPTION"
  shows "progress cfg d t (description_step f s)"
proof -
  have short: "take 10000 x = x" if "description_error (Some x) = None" "strip x = x" for x
    using that by (simp add: description_error_def Let_def split: if_splits)
  show ?thesis using assms
    by (auto simp: description_step_def Let_def progress_def step_defs short split: option.split)
qed

lemma progress_attachments:
  assumes "progress cfg d t s" "step_of s = STEP_ATTACHMENTS"
  shows "progress cfg d t (attachments_step cfg say info locked ups s)"
  using assms
  by (auto simp: attachments_step_def progress_def step_defs Let_def split: sum.split)

lemma progress_irrelevant [simp]:
  "progress cfg d t (s\<lparr>dr_org := x\<rparr>) = progress cfg d t s" "progress cfg d t (s\<lparr>dr_flash := y\<rparr>) = progress cfg d t s"
  "progress cfg d t (s\<lparr>dr_flash_fields := z\<rparr>) = progress cfg d t s" "progress cfg d t (s\<lparr>dr_files := w\<rparr>) = progress cfg d t s"
  "step_of (s\<lparr>dr_org := x\<rparr>) = step_of s" "step_of (s\<lparr>dr_flash := y\<rparr>) = step_of s"
  "step_of (s\<lparr>dr_flash_fields := z\<rparr>) = step_of s" "step_of (s\<lparr>dr_files := w\<rparr>) = step_of s"
  by (simp_all add: progress_def step_of_def)

lemma wizard_post_cases:
  assumes "wizard_post cfg d t sur f s = Some s'"
  obtains (stale) "s' = (if s = empty_draft then s\<lparr>dr_flash := Some ''session_incomplete''\<rparr> else s)\<lparr>dr_step := Some (step_of s)\<rparr>"
  | (backwards) x where "s' = back_step (has_locations d t) (s\<lparr>dr_org := x\<rparr>)"
  | (mode) x where "step_of s = STEP_MODE" "s' = mode_step cfg (has_locations d t) f (s\<lparr>dr_org := x\<rparr>)"
  | (location) x where "step_of s = STEP_LOCATION" "s' = location_step d t f (s\<lparr>dr_org := x\<rparr>)"
  | (category) x where "step_of s = STEP_CATEGORY" "s' = category_step (offered_slugs d t) f (s\<lparr>dr_org := x\<rparr>)"
  | (description) x where "step_of s = STEP_DESCRIPTION" "s' = description_step f (s\<lparr>dr_org := x\<rparr>)"
  | (attachments) x where "step_of s = STEP_ATTACHMENTS"
      "s' = attachments_step cfg (sur_say sur) (sur_info sur) (sur_locked sur) (sur_uploads sur) (s\<lparr>dr_org := x\<rparr>)"
  | (unknown) x where "s' = s\<lparr>dr_org := x, dr_step := Some STEP_MODE\<rparr>"
proof -
  define s1 where "s1 = (if ten_scoped t \<and> dr_org s = None then s\<lparr>dr_org := Some (ten_org t)\<rparr> else s)"
  obtain x where x: "s1 = s\<lparr>dr_org := x\<rparr>" unfolding s1_def by (metis draft.surjective draft.update_convs(3))
  show ?thesis
  proof (cases "fm_action f \<notin> {''next'', ''back''} \<or> fm_action f = ''next'' \<and> fm_step f \<noteq> step_of s")
    case True
    then show ?thesis using assms stale by (simp add: wizard_post_def Let_def step_of_def split: if_splits)
  next
    case False
    then have "fm_action f = ''back'' \<or> fm_step f = step_of s" by blast
    then show ?thesis
      using assms False x backwards mode location category description attachments unknown
      by (elim disjE; simp add: wizard_post_def Let_def s1_def [symmetric] split: if_splits) blast+
  qed
qed

lemma progress_post:
  assumes "progress cfg d t s" "wizard_post cfg d t sur f s = Some s'"
  shows "progress cfg d t s'"
  using assms(2)
proof (cases rule: wizard_post_cases)
  case stale
  moreover have "step_of s \<le> step_of s" "STEP_MODE \<le> step_of s" using assms(1) by (simp_all add: progress_def)
  ultimately show ?thesis using assms(1) by (auto intro!: progress_later)
next
  case (backwards x)
  then show ?thesis using assms(1) progress_back by simp
next
  case (mode x)
  then show ?thesis using assms(1) progress_mode by simp
next
  case (location x)
  then show ?thesis using assms(1) progress_location by simp
next
  case (category x)
  then show ?thesis using assms(1) progress_category by simp
next
  case (description x)
  then show ?thesis using assms(1) progress_description by simp
next
  case (attachments x)
  then show ?thesis using assms(1) progress_attachments by simp
next
  case (unknown x)
  then show ?thesis by (simp add: progress_def step_defs)
qed

lemma progress_get: "progress cfg d t s \<Longrightarrow> progress cfg d t (snd (snd (wizard_get (has_locations d t) s)))"
  by (auto simp: wizard_get_def Let_def) (auto simp: progress_def step_defs)

lemma progress_remove: "progress cfg d t s \<Longrightarrow> remove_attachment i s = Some s' \<Longrightarrow> progress cfg d t s'"
  by (auto simp: remove_attachment_def Let_def split: if_splits)

interpretation wizard: invariant_system "\<lambda>s. s = empty_draft" "wizard_step cfg d t" "progress cfg d t"
proof
  show "progress cfg d t s" if "s = empty_draft" for s using that progress_empty by simp
  show "progress cfg d t s'" if "progress cfg d t s" "wizard_step cfg d t s s'" for s s'
    using that(2,1)
    by cases (auto intro: progress_post progress_get progress_remove simp: progress_empty own_draft_def)
qed

lemma progress_review: "progress cfg d t s \<Longrightarrow> step_of s = STEP_REVIEW \<Longrightarrow> draft_error cfg d t s = None"
  by (auto simp: progress_def step_defs draft_error_def Let_def)

lemma wizard_post_None: "wizard_post cfg d t sur f s = None \<Longrightarrow> step_of s = STEP_REVIEW"
  by (auto simp: wizard_post_def Let_def step_defs split: if_splits)

text \<open>
  Whatever sequence of posts, visits, removed files and changes of wizard a browser produces, stale
  and skipped steps included: while the configuration stands, only a draft that passes every check
  reaches the final submit.
\<close>

theorem submit_only_complete:
  assumes "reachable (\<lambda>s. s = empty_draft) (wizard_step cfg d t) s" "wizard_post cfg d t sur f s = None"
  shows "draft_error cfg d t s = None"
  using wizard.inv_reachable [OF assms(1)] wizard_post_None [OF assms(2)] by (rule progress_review)

section \<open>Identities\<close>

text \<open>A draft that is not confidential holds no identity.\<close>

definition no_identity :: "draft \<Rightarrow> bool" where
  "no_identity s \<longleftrightarrow> (dr_mode s \<noteq> Some ''confidential'' \<longrightarrow> dr_name s = None \<and> dr_contact s = None \<and> dr_email s = None)"

inductive any_wizard_step :: "draft \<Rightarrow> draft \<Rightarrow> bool" where
  any: "wizard_step cfg d t s s' \<Longrightarrow> any_wizard_step s s'"

lemma no_identity_post:
  assumes "no_identity s" "wizard_post cfg d t sur f s = Some s'"
  shows "no_identity s'"
  using assms(2)
proof (cases rule: wizard_post_cases)
  case (mode x)
  then show ?thesis using assms(1)
    by (auto simp: mode_step_def mode_error_def no_identity_def Let_def split: if_splits option.splits)
qed (use assms(1) in \<open>auto simp: no_identity_def back_step_def location_step_def category_step_def
       description_step_def attachments_step_def Let_def split: if_splits option.splits sum.splits\<close>)

interpretation anonymity: invariant_system "\<lambda>s. s = empty_draft" any_wizard_step no_identity
proof
  show "no_identity s" if "s = empty_draft" for s using that by (simp add: no_identity_def empty_draft_def)
  show "no_identity s'" if i: "no_identity s" and "any_wizard_step s s'" for s s'
  proof -
    obtain cfg d t where "wizard_step cfg d t s s'" using \<open>any_wizard_step s s'\<close> by cases
    then show ?thesis
    proof cases
      case (post sur f)
      then show ?thesis using i no_identity_post by blast
    next
      case visit
      then show ?thesis using i by (simp add: wizard_get_def no_identity_def Let_def)
    next
      case (remove j)
      then show ?thesis using i by (auto simp: remove_attachment_def no_identity_def Let_def split: if_splits)
    qed (use i in \<open>simp_all add: own_draft_def no_identity_def empty_draft_def\<close>)
  qed
qed


section \<open>A run\<close>

definition sample_form :: "int \<Rightarrow> wizard_form" where
  "sample_form n = \<lparr>fm_action = ''next'', fm_step = n, fm_mode = ''anonymous'', fm_name = [], fm_contact = [],
     fm_email = [], fm_location = [], fm_category = ''fraud'', fm_description = ''it happened today''\<rparr>"

definition sample_surroundings :: surroundings where
  "sample_surroundings = \<lparr>sur_say = (\<lambda>_. []), sur_info = None, sur_locked = True, sur_uploads = Inr []\<rparr>"

definition fraud_only :: db where
  "fraud_only = empty_db\<lparr>db_categories := [\<lparr>cat_id = 1, cat_slug = ''fraud'', cat_label_en = ''Fraud'',
     cat_label_de = ''Betrug'', cat_is_default = True, cat_active = True, cat_sort = 1, cat_org = None\<rparr>]\<rparr>"

definition instance_wizard :: tenant where
  "instance_wizard = \<lparr>ten_scoped = False, ten_org = None, ten_path = ''/submit''\<rparr>"

fun fill_in :: "settings \<Rightarrow> db \<Rightarrow> tenant \<Rightarrow> int list \<Rightarrow> draft \<Rightarrow> draft option" where
  "fill_in cfg d t [] s = Some s"
| "fill_in cfg d t (n # ns) s =
     Option.bind (wizard_post cfg d t sample_surroundings (sample_form n) s) (fill_in cfg d t ns)"

lemma fill_in_run:
  "fill_in cfg d t ns s = Some s' \<Longrightarrow> reachable I (wizard_step cfg d t) s \<Longrightarrow> reachable I (wizard_step cfg d t) s'"
proof (induction ns arbitrary: s)
  case (Cons n ns)
  then obtain s1 where s1: "wizard_post cfg d t sample_surroundings (sample_form n) s = Some s1" "fill_in cfg d t ns s1 = Some s'"
    by (auto simp: bind_eq_Some_conv)
  show ?case by (rule Cons.IH [OF s1(2)]) (rule reachable.step [OF Cons.prems(2) wizard_step.post [OF s1(1)]])
qed simp

lemma any_reachable: "reachable I (wizard_step cfg d t) s \<Longrightarrow> reachable I any_wizard_step s"
  by (induction rule: reachable.induct) (auto intro: reachable.intros any_wizard_step.intros)

lemma filled_in:
  "\<exists>s. fill_in sample_settings fraud_only instance_wizard [1, 3, 4, 5] empty_draft = Some s \<and>
     dr_mode s = Some ''anonymous'' \<and> wizard_post sample_settings fraud_only instance_wizard sample_surroundings (sample_form 6) s = None"
proof -
  define res where "res = fill_in sample_settings fraud_only instance_wizard [1, 3, 4, 5] empty_draft"
  have "(case res of None \<Rightarrow> False | Some s \<Rightarrow> dr_mode s = Some ''anonymous'' \<and>
     wizard_post sample_settings fraud_only instance_wizard sample_surroundings (sample_form 6) s = None)"
    unfolding res_def by code_simp
  then show ?thesis unfolding res_def [symmetric] by (cases res) auto
qed

theorem submit_only_complete_witness:
  "\<exists>s. dr_mode s = Some ''anonymous'' \<and> draft_error sample_settings fraud_only instance_wizard s = None"
proof -
  obtain s where s: "fill_in sample_settings fraud_only instance_wizard [1, 3, 4, 5] empty_draft = Some s"
    "dr_mode s = Some ''anonymous''"
    "wizard_post sample_settings fraud_only instance_wizard sample_surroundings (sample_form 6) s = None"
    using filled_in by blast
  have "reachable (\<lambda>s. s = empty_draft) (wizard_step sample_settings fraud_only instance_wizard) s"
    by (rule fill_in_run [OF s(1)]) (rule reachable.start, simp)
  from submit_only_complete [OF this s(3)] s(2) show ?thesis by blast
qed


end
