(* ===== verification/Attachment_Store.thy ===== *)
theory Attachment_Store
  imports Case_Lifecycle Upload
begin

text \<open>
  Where attachments are kept (\<open>app/services/attachment.py\<close>, last part, and
  \<open>app/services/storage.py\<close>): sealed with the report's key in the row, or in an object store under a
  key of its own. Every call to the object store can fail, with or without having taken effect.
\<close>

section \<open>The object store\<close>

text \<open>A call answered, refused, or carried out although its answer was lost.\<close>

datatype call = Worked | Lost | Refused

type_synonym bucket = "string \<Rightarrow> string option"

definition full_key :: "string \<Rightarrow> string \<Rightarrow> string" where
  "full_key p k = rev (dropWhile (\<lambda>c. c = CHR ''/'') (rev p)) @ ''/'' @ k"

lemma full_key_inject [simp]: "full_key p j = full_key p k \<longleftrightarrow> j = k"
  by (simp add: full_key_def)

definition s3_get :: "string \<Rightarrow> bucket \<Rightarrow> string \<Rightarrow> string option" where
  "s3_get p b k = b (full_key p k)"

definition s3_put :: "string \<Rightarrow> call \<Rightarrow> string \<Rightarrow> string \<Rightarrow> bucket \<Rightarrow> bucket" where
  "s3_put p c k data b = (if c = Refused then b else b(full_key p k \<mapsto> data))"

definition s3_delete :: "string \<Rightarrow> call \<Rightarrow> string \<Rightarrow> bucket \<Rightarrow> bucket" where
  "s3_delete p c k b = (if c = Refused then b else b(full_key p k := None))"

definition s3_copy :: "string \<Rightarrow> call \<Rightarrow> string \<Rightarrow> string \<Rightarrow> bucket \<Rightarrow> bucket" where
  "s3_copy p c j k b = (case s3_get p b j of None \<Rightarrow> b | Some data \<Rightarrow> s3_put p c k data b)"

lemma s3_get_put: "s3_get p (s3_put p c k data b) j = (if c \<noteq> Refused \<and> j = k then Some data else s3_get p b j)"
  by (simp add: s3_get_def s3_put_def)

lemma s3_get_delete: "s3_get p (s3_delete p c k b) j = (if c \<noteq> Refused \<and> j = k then None else s3_get p b j)"
  by (simp add: s3_get_def s3_delete_def)

text \<open>\<open>str\<close> of a UUID: 32 hexadecimal digits in five groups.\<close>

definition hex_char :: "nat \<Rightarrow> char" where
  "hex_char n = (if n < 10 then char_of (48 + n) else char_of (87 + n))"

definition hex_text :: "nat \<Rightarrow> nat \<Rightarrow> string" where
  "hex_text w n = map (\<lambda>k. hex_char (n div 16 ^ (w - 1 - k) mod 16)) [0..<w]"

definition uuid_text :: "uuid \<Rightarrow> string" where
  "uuid_text i =
     hex_text 8 (i div 16 ^ 24) @ ''-'' @ hex_text 4 (i div 16 ^ 20) @ ''-'' @ hex_text 4 (i div 16 ^ 16) @ ''-'' @
     hex_text 4 (i div 16 ^ 12) @ ''-'' @ hex_text 12 i"

definition lower_hex :: "char \<Rightarrow> bool" where
  "lower_hex c \<longleftrightarrow> (let n = of_char c :: nat in 48 \<le> n \<and> n \<le> 57 \<or> 97 \<le> n \<and> n \<le> 102)"

definition uuid_key :: "string \<Rightarrow> bool" where
  "uuid_key s \<longleftrightarrow>
     length s = 36 \<and> list_all lower_hex (take 8 s) \<and> s ! 8 = CHR ''-'' \<and>
     list_all lower_hex (pyslice s 9 13) \<and> s ! 13 = CHR ''-'' \<and>
     list_all lower_hex (pyslice s 14 18) \<and> s ! 18 = CHR ''-'' \<and>
     list_all lower_hex (pyslice s 19 23) \<and> s ! 23 = CHR ''-'' \<and> list_all lower_hex (drop 24 s)"

definition generate_storage_key :: "env \<Rightarrow> nat \<Rightarrow> string" where
  "generate_storage_key e n = uuid_text (env_id e n)"

lemma length_hex_text [simp]: "length (hex_text w n) = w"
  by (simp add: hex_text_def)

lemma lower_hex_char: "n < 16 \<Longrightarrow> lower_hex (hex_char n)"
  by (simp add: lower_hex_def hex_char_def Let_def)

lemma lower_hex_text [simp]: "list_all lower_hex (hex_text w n)"
  by (simp add: hex_text_def list_all_iff lower_hex_char)

definition hex_value :: "string \<Rightarrow> nat" where
  "hex_value s = foldl (\<lambda>a c. 16 * a + the (hex_digit c)) 0 s"

lemma hex_digit_char: "n < 16 \<Longrightarrow> hex_digit (hex_char n) = Some n"
  by (auto simp: hex_digit_def hex_char_def lower_char_def Let_def)

lemma hex_text_Suc: "hex_text (Suc w) n = hex_text w (n div 16) @ [hex_char (n mod 16)]"
proof -
  have "hex_char (n div 16 ^ (w - k) mod 16) = hex_char (n div 16 div 16 ^ (w - 1 - k) mod 16)" if "k < w" for k
  proof -
    have "w - k = Suc (w - 1 - k)" using that by simp
    then show ?thesis by (simp add: div_mult2_eq)
  qed
  then show ?thesis by (simp add: hex_text_def)
qed

lemma hex_text_append: "hex_text a (n div 16 ^ b) @ hex_text b n = hex_text (a + b) n"
proof (induction b arbitrary: n)
  case (Suc b)
  then show ?case by (simp add: hex_text_Suc div_mult2_eq flip: append_assoc)
qed (simp add: hex_text_def)

lemma hex_value_text: "hex_value (hex_text w n) = n mod 16 ^ w"
proof (induction w arbitrary: n)
  case (Suc w)
  then show ?case by (simp add: hex_text_Suc hex_value_def hex_digit_char mod_mult2_eq)
qed (simp add: hex_text_def hex_value_def)

lemma not_hyphen_lower_hex: "lower_hex c \<Longrightarrow> c \<noteq> CHR ''-'' \<and> c \<noteq> CHR '':'' \<and> \<not> brace c"
  by (auto simp: lower_hex_def brace_def Let_def)

lemma uuid_text_digits: "filter (\<lambda>c. c \<noteq> CHR ''-'') (uuid_text i) = hex_text 32 i"
proof -
  have f: "filter (\<lambda>c. c \<noteq> CHR ''-'') (hex_text w n) = hex_text w n" for w n
    using lower_hex_text [of w n] not_hyphen_lower_hex by (auto simp: list_all_iff intro!: filter_True)
  have "hex_text 32 i = hex_text 20 (i div 16 ^ 12) @ hex_text 12 i" using hex_text_append [of 20 i 12] by simp
  also have "hex_text 20 (i div 16 ^ 12) = hex_text 16 (i div 16 ^ 12 div 16 ^ 4) @ hex_text 4 (i div 16 ^ 12)"
    using hex_text_append [of 16 "i div 16 ^ 12" 4] by simp
  also have "i div 16 ^ 12 div 16 ^ 4 = i div 16 ^ 16" by (simp flip: div_mult2_eq)
  also have "hex_text 16 (i div 16 ^ 16) = hex_text 12 (i div 16 ^ 16 div 16 ^ 4) @ hex_text 4 (i div 16 ^ 16)"
    using hex_text_append [of 12 "i div 16 ^ 16" 4] by simp
  also have "i div 16 ^ 16 div 16 ^ 4 = i div 16 ^ 20" by (simp flip: div_mult2_eq)
  also have "hex_text 12 (i div 16 ^ 20) = hex_text 8 (i div 16 ^ 20 div 16 ^ 4) @ hex_text 4 (i div 16 ^ 20)"
    using hex_text_append [of 8 "i div 16 ^ 20" 4] by simp
  also have "i div 16 ^ 20 div 16 ^ 4 = i div 16 ^ 24" by (simp flip: div_mult2_eq)
  finally show ?thesis by (simp add: uuid_text_def f)
qed

lemma uuid_text_no_colon: "CHR '':'' \<notin> set (uuid_text i)" "\<not> list_ex brace (uuid_text i)"
proof -
  have h: "c \<noteq> CHR '':'' \<and> \<not> brace c" if "c \<in> set (hex_text w n)" for c w n
    using lower_hex_text [of w n] that not_hyphen_lower_hex by (auto simp: list_all_iff)
  have "c \<noteq> CHR '':'' \<and> \<not> brace c" if "c \<in> set (uuid_text i)" for c
    using that h unfolding uuid_text_def by (auto simp: brace_def)
  then show "CHR '':'' \<notin> set (uuid_text i)" "\<not> list_ex brace (uuid_text i)" by (auto simp: list_ex_iff)
qed

lemma without_absent: "c \<in> set p \<Longrightarrow> c \<notin> set s \<Longrightarrow> without p s = s"
proof (induction p s rule: without.induct)
  case (1 p s)
  show ?case
  proof (cases "s = [] \<or> p = []")
    case False
    have "\<not> starts_with p s" using 1(3,4) by (metis starts_with_def in_set_takeD)
    moreover have "without p (tl s) = tl s" using 1(2) False calculation 1(3,4) by (metis list.set_sel(2))
    ultimately show ?thesis using False by (subst without.simps) simp
  qed (simp add: without.simps)
qed

lemma parse_uuid_text:
  assumes "i < 16 ^ 32"
  shows "parse_uuid (uuid_text i) = Some i"
proof -
  have w: "without ''uuid:'' (without ''urn:'' (uuid_text i)) = uuid_text i"
    using uuid_text_no_colon(1) by (simp add: without_absent [of "CHR '':''"])
  have b: "dropWhile brace s = s" if "\<not> list_ex brace s" for s
    using that by (cases s) auto
  have e: "rev (dropWhile brace (rev (dropWhile brace (uuid_text i)))) = uuid_text i"
    using uuid_text_no_colon(2) by (simp add: b list_ex_rev)
  have d: "list_all (\<lambda>c. hex_digit c \<noteq> None) (hex_text 32 i)"
    by (auto simp: hex_text_def list_all_iff hex_digit_char)
  have v: "foldl (\<lambda>a c. 16 * a + the (hex_digit c)) 0 (hex_text 32 i) = i"
    using hex_value_text [of 32 i] assms by (simp add: hex_value_def)
  show ?thesis unfolding parse_uuid_def w Let_def e uuid_text_digits using d v by simp
qed

lemma uuid_text_inject: "i < 16 ^ 32 \<Longrightarrow> j < 16 ^ 32 \<Longrightarrow> uuid_text i = uuid_text j \<longleftrightarrow> i = j"
  using parse_uuid_text by (metis option.inject)

lemma uuid_key_text [simp]: "uuid_key (uuid_text i)"
  by (simp add: uuid_key_def uuid_text_def pyslice_def nth_append)

lemma uuid_text_nonempty [simp]: "uuid_text i \<noteq> []"
  by (simp add: uuid_text_def)

section \<open>Attaching\<close>

definition content_text :: "bytes \<Rightarrow> string" where
  "content_text bs = map (\<lambda>b. char_of (unat b)) bs"

lemma bytes_of_content_text [simp]: "bytes_of (content_text bs) = bs"
proof -
  have "(of_char (char_of (unat b) :: char) :: nat) = unat b" for b :: byte
  proof -
    have "unat b < 256" using unsigned_less [of b] by simp
    then show ?thesis by (rule char_of_small)
  qed
  then show ?thesis by (induction bs) (simp_all add: bytes_of_def content_text_def)
qed

text \<open>
  The files of one report: \<open>calls\<close> says how the put of the \<open>n\<close>-th object went. A failed put is raised
  to the caller, who has the keys of the objects put before it.
\<close>

fun attach_files ::
  "env \<Rightarrow> string \<Rightarrow> string \<Rightarrow> uuid \<Rightarrow> (nat \<Rightarrow> call) \<Rightarrow> nat \<Rightarrow> stored_file list \<Rightarrow> bucket
     \<Rightarrow> attachment list option \<times> bucket \<times> string list" where
  "attach_files e p fernet i calls n [] b = (Some [], b, [])"
| "attach_files e p fernet i calls n ((name, kind, content) # files) b =
     (let ciphertext = cr_seal (env_crypto e) fernet (content_text content);
          key = generate_storage_key e (2 * n + 3);
          s3 = cfg_storage_s3 (env_cfg e);
          att = \<lparr>att_id = env_id e (2 * n + 2), att_report = i,
                 att_filename = encrypt_field (env_crypto e) fernet name, att_type = kind,
                 att_size = length content, att_data = (if s3 then None else Some ciphertext),
                 att_key = (if s3 then Some key else None), att_encrypted = True,
                 att_at = day_floor (env_now e)\<rparr>
      in if \<not> s3
         then (case attach_files e p fernet i calls (Suc n) files b of
                 (rows, b', keys) \<Rightarrow> (map_option ((#) att) rows, b', keys))
         else (let b1 = s3_put p (calls n) key ciphertext b in
               if calls n = Worked
               then (case attach_files e p fernet i calls (Suc n) files b1 of
                       (rows, b', keys) \<Rightarrow> (map_option ((#) att) rows, b', key # keys))
               else (None, b1, [])))"

definition create_attachments ::
  "env \<Rightarrow> string \<Rightarrow> (nat \<Rightarrow> call) \<Rightarrow> report \<Rightarrow> stored_file list \<Rightarrow> bucket \<Rightarrow> db \<Rightarrow> db option \<times> bucket \<times> string list" where
  "create_attachments e p calls r files b d =
     (case make_report_fernet (env_crypto e) (env_cfg e) (rep_dek r) of
        None \<Rightarrow> (None, b, [])
      | Some fernet \<Rightarrow>
          (case attach_files e p fernet (rep_id r) calls 0 files b of
             (rows, b', keys) \<Rightarrow>
               (map_option (\<lambda>rows. d\<lparr>db_attachments := db_attachments d @ rows\<rparr>) rows, b', keys)))"

definition attachment_filename :: "env \<Rightarrow> db \<Rightarrow> attachment \<Rightarrow> string option" where
  "attachment_filename e d a =
     (case report_of d (att_report a) of
        None \<Rightarrow> Some (att_filename a)
      | Some r \<Rightarrow>
          map_option (\<lambda>fernet. case decrypt_field_safe (env_crypto e) fernet (Some (att_filename a)) of
                                 None \<Rightarrow> att_filename a
                               | Some x \<Rightarrow> if x = [] then att_filename a else x)
            (make_report_fernet (env_crypto e) (env_cfg e) (rep_dek r)))"

text \<open>Each key on its own: a refused deletion does not stop the others.\<close>

fun delete_stored_objects :: "settings \<Rightarrow> string \<Rightarrow> (nat \<Rightarrow> call) \<Rightarrow> nat \<Rightarrow> string list \<Rightarrow> bucket \<Rightarrow> bucket" where
  "delete_stored_objects cfg p calls n [] b = b"
| "delete_stored_objects cfg p calls n (k # ks) b =
     delete_stored_objects cfg p calls (Suc n) ks (if cfg_storage_s3 cfg then s3_delete p (calls n) k b else b)"

text \<open>\<open>f"{x:.1f}"\<close> of an exact quotient: rounded to nearest, ties to even.\<close>

definition round_quotient :: "nat \<Rightarrow> nat \<Rightarrow> nat" where
  "round_quotient n k =
     (let q = n div k; r = n mod k in if 2 * r < k \<or> 2 * r = k \<and> even q then q else q + 1)"

definition format_size :: "nat \<Rightarrow> string" where
  "format_size n =
     (if n \<ge> 1024 * 1024
      then (let t = round_quotient (10 * n) (1024 * 1024) in digits (t div 10) @ ''.'' @ digits (t mod 10) @ '' MB'')
      else if n \<ge> 1024 then digits (round_quotient n 1024) @ '' KB'' else digits n @ '' B'')"

section \<open>The header of a download\<close>

definition quoted_char :: "char \<Rightarrow> string" where
  "quoted_char c =
     (let n = of_char c :: nat;
          hex = (\<lambda>k. CHR ''%'' # map (\<lambda>h. if h < 10 then char_of (48 + h) else char_of (55 + h)) [k div 16, k mod 16])
      in if 65 \<le> n \<and> n \<le> 90 \<or> 97 \<le> n \<and> n \<le> 122 \<or> 48 \<le> n \<and> n \<le> 57 \<or> c \<in> set ''_.-~'' then [c]
         else if n < 128 then hex n else hex (192 + n div 64) @ hex (128 + n mod 64))"

definition content_disposition_attachment :: "string \<Rightarrow> string" where
  "content_disposition_attachment filename =
     (let ascii_name = strip (filter (\<lambda>c. c \<noteq> CHR 0x22) (filter (\<lambda>c. (of_char c :: nat) < 128) filename));
          ascii_name = (if ascii_name = [] then ''attachment'' else ascii_name)
      in ''attachment; filename='' @ [CHR 0x22] @ ascii_name @ [CHR 0x22] @ ''; filename*=UTF-8'' @
         [CHR 0x27, CHR 0x27] @ concat (map quoted_char filename))"

section \<open>Moving objects of earlier releases\<close>

text \<open>
  One row of \<open>rekey_legacy_objects\<close>; \<open>calls\<close>: the copy or put, the commit, the deletion. A failed
  commit ends the run (\<open>False\<close>).
\<close>

definition rekey_one ::
  "env \<Rightarrow> string \<Rightarrow> call \<times> call \<times> call \<Rightarrow> uuid \<Rightarrow> attachment \<Rightarrow> bucket \<times> db \<Rightarrow> bool \<times> nat \<times> bucket \<times> db" where
  "rekey_one e p calls i a st =
     (let (move, save, remove) = calls; (b, d) = st;
          old = (case att_key a of None \<Rightarrow> [] | Some k \<Rightarrow> k);
          new = uuid_text i;
          moved = (if att_encrypted a then s3_get p b old
                   else Option.bind (Option.bind (report_of d (att_report a))
                          (\<lambda>r. make_report_fernet (env_crypto e) (env_cfg e) (rep_dek r)))
                          (\<lambda>fernet. map_option (cr_seal (env_crypto e) fernet) (s3_get p b old)));
          d1 = d\<lparr>db_attachments := update_row att_id (att_id a)
                   (\<lambda>x. x\<lparr>att_key := Some new, att_encrypted := True\<rparr>) (db_attachments d)\<rparr>
      in if uuid_key old \<and> att_encrypted a then (True, 0, b, d)
         else (case moved of
                 None \<Rightarrow> (True, 0, b, d)
               | Some data \<Rightarrow>
                   (let b1 = s3_put p move new data b in
                    if move \<noteq> Worked then (True, 0, b1, d)
                    else if save \<noteq> Worked then (False, 0, b1, if save = Refused then d else d1)
                    else (True, 1, s3_delete p remove old b1, d1))))"

fun rekey_rows ::
  "env \<Rightarrow> string \<Rightarrow> (nat \<Rightarrow> call \<times> call \<times> call) \<Rightarrow> nat \<Rightarrow> attachment list \<Rightarrow> bucket \<times> db \<Rightarrow> nat \<times> bucket \<times> db" where
  "rekey_rows e p calls n [] st = (0, st)"
| "rekey_rows e p calls n (a # rows) st =
     (case rekey_one e p (calls n) (env_id e n) a st of
        (go_on, k, st') \<Rightarrow>
          if go_on then (case rekey_rows e p calls (Suc n) rows st' of (m, st'') \<Rightarrow> (k + m, st'')) else (k, st'))"

definition rekey_legacy_objects ::
  "env \<Rightarrow> string \<Rightarrow> (nat \<Rightarrow> call \<times> call \<times> call) \<Rightarrow> bucket \<times> db \<Rightarrow> nat \<times> bucket \<times> db" where
  "rekey_legacy_objects e p calls st =
     rekey_rows e p calls 0 (filter (\<lambda>a. att_key a \<noteq> None) (db_attachments (snd st))) st"

section \<open>What was attached is what is downloaded\<close>

abbreviation download :: "env \<Rightarrow> string \<Rightarrow> bucket \<Rightarrow> db \<Rightarrow> attachment \<Rightarrow> refusal + string" where
  "download e p b d a \<equiv> read_attachment e (s3_get p b) d a"

text \<open>The first random identifiers of a request are different UUIDs.\<close>

definition fresh_ids :: "env \<Rightarrow> nat \<Rightarrow> bool" where
  "fresh_ids e m \<longleftrightarrow> inj_on (env_id e) {..<m} \<and> (\<forall>k < m. env_id e k < 16 ^ 32)"

lemma fresh_ids_text:
  "fresh_ids e m \<Longrightarrow> j < m \<Longrightarrow> k < m \<Longrightarrow> uuid_text (env_id e j) = uuid_text (env_id e k) \<longleftrightarrow> j = k"
  by (auto simp: fresh_ids_def uuid_text_inject dest: inj_onD)

definition new_keys :: "env \<Rightarrow> nat \<Rightarrow> nat \<Rightarrow> string set" where
  "new_keys e n m = {generate_storage_key e (2 * k + 3) |k. n \<le> k \<and> k < m}"

lemma attach_files_other_keys:
  "attach_files e p f i calls n files b = (rows, b', keys) \<Longrightarrow> k \<notin> new_keys e n (n + length files) \<Longrightarrow> s3_get p b' k = s3_get p b k"
proof (induction files arbitrary: n b rows b' keys)
  case (Cons x files)
  obtain name kind content where x: "x = (name, kind, content)" by (cases x)
  have new: "k \<noteq> generate_storage_key e (2 * n + 3)" "k \<notin> new_keys e (Suc n) (Suc n + length files)"
    using Cons.prems(2) by (force simp: new_keys_def)+
  show ?case using Cons.prems(1) Cons.IH [OF _ new(2)] new(1)
    by (auto simp: x Let_def s3_get_put split: if_splits prod.splits)
qed simp

definition stores :: "env \<Rightarrow> string \<Rightarrow> bucket \<Rightarrow> string \<Rightarrow> uuid \<Rightarrow> attachment \<Rightarrow> stored_file \<Rightarrow> bool" where
  "stores e p b fernet i a f \<longleftrightarrow>
     (case f of (name, kind, content) \<Rightarrow>
        att_report a = i \<and> att_type a = kind \<and> att_size a = length content \<and> att_encrypted a \<and>
        att_filename a = encrypt_field (env_crypto e) fernet name \<and>
        (if att_key a \<noteq> None \<and> att_key a \<noteq> Some [] then s3_get p b (the (att_key a)) else att_data a)
          = Some (cr_seal (env_crypto e) fernet (content_text content)))"

lemma attach_files_stores:
  assumes "attach_files e p f i calls n files b = (Some rows, b', keys)" "fresh_ids e (2 * (n + length files) + 3)"
  shows "list_all2 (stores e p b' f i) rows files"
  using assms
proof (induction files arbitrary: n b rows keys)
  case (Cons x files)
  obtain name kind content where x: "x = (name, kind, content)" by (cases x)
  let ?key = "generate_storage_key e (2 * n + 3)"
  define b1 where "b1 = (if cfg_storage_s3 (env_cfg e)
     then s3_put p (calls n) ?key (cr_seal (env_crypto e) f (content_text content)) b else b)"
  obtain a rows' keys' where a: "rows = a # rows'" "attach_files e p f i calls (Suc n) files b1 = (Some rows', b', keys')"
    and cols: "att_report a = i" "att_type a = kind" "att_size a = length content" "att_encrypted a"
      "att_filename a = encrypt_field (env_crypto e) f name"
      "att_key a = (if cfg_storage_s3 (env_cfg e) then Some ?key else None)"
      "att_data a = (if cfg_storage_s3 (env_cfg e) then None else Some (cr_seal (env_crypto e) f (content_text content)))"
      "cfg_storage_s3 (env_cfg e) \<longrightarrow> calls n = Worked"
    using Cons.prems(1) by (auto simp: x Let_def b1_def split: if_splits prod.splits)
  have "?key \<notin> new_keys e (Suc n) (Suc n + length files)"
    using Cons.prems(2) by (auto simp: new_keys_def generate_storage_key_def fresh_ids_text)
  then have "s3_get p b' ?key = s3_get p b1 ?key" by (rule attach_files_other_keys [OF a(2)])
  then have "stores e p b' f i a x"
    using cols by (auto simp: x stores_def b1_def s3_get_put generate_storage_key_def)
  with Cons.IH [OF a(2)] Cons.prems(2) show ?case by (simp add: a(1))
qed simp

lemma stores_download:
  assumes "stores e p b f i a (name, kind, content)" "report_of d i = Some r"
    "make_report_fernet (env_crypto e) (env_cfg e) (rep_dek r) = Some f" "fernet_ok (env_crypto e) [f]"
  shows "download e p b d a = Inr (content_text content)" "attachment_filename e d a = Some (if name = [] then att_filename a else name)"
  using assms(1-3) decrypt_field_safe_seal [OF assms(4), of name] assms(4)
  by (auto simp: stores_def read_attachment_def attachment_filename_def fernet_ok_def)

text \<open>
  The files of a report are downloaded as they were attached: in the same order, the same bytes, name,
  type and size, whichever backend keeps them.
\<close>

lemma attached_is_downloaded:
  assumes "create_attachments e p calls r files b d = (Some d', b', keys)"
    and "report_of d (rep_id r) = Some r" "attachments_of d (rep_id r) = []"
    and "fresh_ids e (2 * length files + 3)" "\<forall>k. fernet_ok (env_crypto e) [k]" "\<forall>f \<in> set files. fst f \<noteq> []"
  shows "map (\<lambda>a. (attachment_filename e d' a, att_type a, att_size a, download e p b' d' a)) (attachments_of d' (rep_id r))
       = map (\<lambda>(name, kind, content). (Some name, kind, length content, Inr (content_text content))) files"
proof -
  obtain f rows where f: "make_report_fernet (env_crypto e) (env_cfg e) (rep_dek r) = Some f"
    and rows: "attach_files e p f (rep_id r) calls 0 files b = (Some rows, b', keys)"
    and d': "d' = d\<lparr>db_attachments := db_attachments d @ rows\<rparr>"
    using assms(1) by (auto simp: create_attachments_def split: option.splits prod.splits)
  have st: "list_all2 (stores e p b' f (rep_id r)) rows files" using attach_files_stores [OF rows] assms(4) by simp
  have r: "report_of d' (rep_id r) = Some r" using assms(2) by (simp add: d' report_of_def)
  have "\<forall>a \<in> set rows. att_report a = rep_id r"
    using st by (induction rule: list_all2_induct) (auto simp: stores_def split: prod.splits)
  then have "attachments_of d' (rep_id r) = rows" using assms(3) by (simp add: d' attachments_of_def)
  moreover have "map (\<lambda>a. (attachment_filename e d' a, att_type a, att_size a, download e p b' d' a)) rows =
      map (\<lambda>(name, kind, content). (Some name, kind, length content, Inr (content_text content))) files"
    using st assms(6)
  proof (induction rows files rule: list_all2_induct)
    case (Cons a rows x files)
    obtain name kind content where x: "x = (name, kind, content)" by (cases x)
    show ?case
      using Cons stores_download [OF Cons(1) [unfolded x] r f] assms(5) by (simp add: x stores_def)
  qed simp
  ultimately show ?thesis by simp
qed

text \<open>
  Removing the objects reported back undoes a failed submit: apart from a put whose answer was lost,
  the store is as before.
\<close>

lemma delete_stored_other:
  "k \<notin> set ks \<Longrightarrow> s3_get p (delete_stored_objects cfg p calls n ks b) k = s3_get p b k"
  by (induction ks arbitrary: n b) (simp_all add: s3_get_delete)

lemma delete_stored_gone:
  assumes "cfg_storage_s3 cfg" "\<forall>n. calls n \<noteq> Refused" "k \<in> set ks \<or> s3_get p b k = None"
  shows "s3_get p (delete_stored_objects cfg p calls n ks b) k = None"
  using assms(3) by (induction ks arbitrary: n b) (use assms(1,2) in \<open>auto simp: s3_get_delete\<close>)

lemma attach_files_keys:
  assumes "attach_files e p f i calls n files b = (rows, b', keys)" "\<forall>n. calls n \<noteq> Lost" "k \<notin> set keys"
  shows "s3_get p b' k = s3_get p b k"
  using assms(1,3)
proof (induction files arbitrary: n b rows keys)
  case (Cons x files)
  obtain name kind content where x: "x = (name, kind, content)" by (cases x)
  show ?case using Cons.prems Cons.IH assms(2)
    by (auto simp: x Let_def s3_get_put split: if_splits prod.splits) (metis call.exhaust)+
qed simp

section \<open>No file is lost by moving it\<close>

definition keys_apart :: "db \<Rightarrow> bool" where
  "keys_apart d \<longleftrightarrow>
     distinct (map att_id (db_attachments d)) \<and>
     (\<forall>a \<in> set (db_attachments d). \<forall>x \<in> set (db_attachments d). att_key a \<noteq> None \<and> att_key x = att_key a \<longrightarrow> x = a) \<and>
     (\<forall>a \<in> set (db_attachments d). att_key a \<noteq> Some [])"

definition keys_free :: "env \<Rightarrow> nat \<Rightarrow> nat \<Rightarrow> db \<Rightarrow> bool" where
  "keys_free e n m d \<longleftrightarrow> (\<forall>a \<in> set (db_attachments d). \<forall>k. n \<le> k \<and> k < m \<longrightarrow> att_key a \<noteq> Some (uuid_text (env_id e k)))"

lemma keys_apart_id:
  "keys_apart d \<Longrightarrow> a \<in> set (db_attachments d) \<Longrightarrow> x \<in> set (db_attachments d) \<Longrightarrow> att_id x = att_id a \<Longrightarrow> x = a"
  by (auto simp: keys_apart_def distinct_map dest: inj_onD)

lemma keys_apart_key:
  "keys_apart d \<Longrightarrow> a \<in> set (db_attachments d) \<Longrightarrow> x \<in> set (db_attachments d) \<Longrightarrow> att_key a = Some k
     \<Longrightarrow> att_key x = Some k \<Longrightarrow> x = a"
  by (auto simp: keys_apart_def)

lemma download_same_object:
  assumes "\<And>k. att_key x = Some k \<Longrightarrow> s3_get p b' k = s3_get p b k" "db_reports d' = db_reports d"
  shows "download e p b' d' x = download e p b d x"
proof -
  have r: "report_of d' i = report_of d i" for i using assms(2) by (simp add: report_of_def)
  show ?thesis
  proof (cases "att_key x")
    case (Some k)
    then show ?thesis unfolding read_attachment_def r using assms(1) by simp
  next
    case None
    then show ?thesis unfolding read_attachment_def r by simp
  qed
qed

definition moved_row :: "string \<Rightarrow> attachment \<Rightarrow> attachment" where
  "moved_row new x = x\<lparr>att_key := Some new, att_encrypted := True\<rparr>"

definition moved_db :: "string \<Rightarrow> attachment \<Rightarrow> db \<Rightarrow> db" where
  "moved_db new a d = d\<lparr>db_attachments := update_row att_id (att_id a) (moved_row new) (db_attachments d)\<rparr>"

lemma moved_row_simps [simp]:
  "att_id (moved_row k x) = att_id x" "att_key (moved_row k x) = Some k" "att_report (moved_row k x) = att_report x"
  "att_data (moved_row k x) = att_data x" "att_encrypted (moved_row k x)"
  by (simp_all add: moved_row_def)

lemma moved_db_simps [simp]: "db_reports (moved_db k a d) = db_reports d"
  by (simp add: moved_db_def)

text \<open>What one row's step does: nothing, or an object more, or the row moved.\<close>

lemma rekey_one_cases:
  assumes "rekey_one e p calls i a (b, d) = (go_on, k, b', d')" "att_key a = Some old" "old \<noteq> []" "old \<noteq> uuid_text i"
    and "\<And>f. fernet_ok (env_crypto e) [f]"
  obtains (kept) "d' = d" "\<forall>j. j \<noteq> uuid_text i \<longrightarrow> s3_get p b' j = s3_get p b j"
  | (moved) "d' = moved_db (uuid_text i) a d" "\<forall>j. j \<noteq> uuid_text i \<and> j \<noteq> old \<longrightarrow> s3_get p b' j = s3_get p b j"
      "download e p b' d' (moved_row (uuid_text i) a) = download e p b d a"
proof -
  obtain move save remove where c: "calls = (move, save, remove)" by (cases calls)
  let ?new = "uuid_text i"
  define moved where "moved = (if att_encrypted a then s3_get p b old
     else Option.bind (Option.bind (report_of d (att_report a))
            (\<lambda>r. make_report_fernet (env_crypto e) (env_cfg e) (rep_dek r)))
            (\<lambda>fernet. map_option (cr_seal (env_crypto e) fernet) (s3_get p b old)))"
  have step: "rekey_one e p calls i a (b, d) =
     (if uuid_key old \<and> att_encrypted a then (True, 0, b, d)
      else case moved of None \<Rightarrow> (True, 0, b, d)
           | Some data \<Rightarrow>
               (let b1 = s3_put p move ?new data b in
                if move \<noteq> Worked then (True, 0, b1, d)
                else if save \<noteq> Worked then (False, 0, b1, if save = Refused then d else moved_db ?new a d)
                else (True, 1, s3_delete p remove old b1, moved_db ?new a d)))"
    unfolding rekey_one_def c assms(2) moved_def moved_db_def moved_row_def Let_def by (simp split: option.split)
  show ?thesis
  proof (cases "uuid_key old \<and> att_encrypted a \<or> moved = None")
    case True
    then show ?thesis using assms(1) kept by (auto simp: step split: option.splits)
  next
    case False
    then obtain data where m: "moved = Some data" by blast
    let ?b1 = "s3_put p move ?new data b"
    have new: "download e p b' (moved_db ?new a d) (moved_row ?new a) = download e p b d a"
      if "s3_get p b' ?new = Some data" for b'
    proof -
      have ok: "cr_open (env_crypto e) f (cr_seal (env_crypto e) f m) = Some m" for f m
        using assms(5) [of f] by (simp add: fernet_ok_def)
      show ?thesis using that m assms(2,3) ok
        by (auto simp: moved_def read_attachment_def report_of_def bind_eq_Some_conv split: if_splits)
    qed
    show ?thesis
    proof (cases "move = Worked \<and> save \<noteq> Refused")
      case True
      then have "d' = moved_db ?new a d" "b' = ?b1 \<or> b' = s3_delete p remove old ?b1"
        using assms(1) False by (auto simp: step m Let_def split: if_splits)
      then show ?thesis
        using True assms(4) by (intro moved) (auto simp: s3_get_put s3_get_delete intro!: new)
    next
      case False2: False
      then have "d' = d" "b' = ?b1" using assms(1) False by (auto simp: step m Let_def split: if_splits)
      then show ?thesis by (intro kept) (simp_all add: s3_get_put)
    qed
  qed
qed

text \<open>The rows after a run beside the rows before it.\<close>

definition same_file :: "env \<Rightarrow> string \<Rightarrow> bucket \<times> db \<Rightarrow> bucket \<times> db \<Rightarrow> attachment \<Rightarrow> attachment \<Rightarrow> bool" where
  "same_file e p st' st x' x \<longleftrightarrow>
     att_id x' = att_id x \<and> att_report x' = att_report x \<and>
     download e p (fst st') (snd st') x' = download e p (fst st) (snd st) x"

abbreviation same_files :: "env \<Rightarrow> string \<Rightarrow> bucket \<times> db \<Rightarrow> bucket \<times> db \<Rightarrow> bool" where
  "same_files e p st' st \<equiv>
     list_all2 (same_file e p st' st) (db_attachments (snd st')) (db_attachments (snd st))"

lemma same_files_trans: "same_files e p st'' st' \<Longrightarrow> same_files e p st' st \<Longrightarrow> same_files e p st'' st"
  by (erule list_all2_trans [rotated], assumption) (auto simp: same_file_def)

lemma rekey_one_keeps:
  assumes "rekey_one e p calls (env_id e n) a (b, d) = (go_on, k, b', d')" "a \<in> set (db_attachments d)" "att_key a \<noteq> None"
    and "keys_apart d" "keys_free e n m d" "fresh_ids e m" "n < m"
    and "\<And>f. fernet_ok (env_crypto e) [f]"
  shows "same_files e p (b', d') (b, d) \<and> keys_apart d' \<and> keys_free e (Suc n) m d' \<and>
    (\<forall>x \<in> set (db_attachments d). x \<noteq> a \<longrightarrow> x \<in> set (db_attachments d'))"
proof -
  obtain old where old: "att_key a = Some old" using assms(3) by blast
  have ne: "old \<noteq> []" "old \<noteq> uuid_text (env_id e n)"
    using assms(2,4,5,7) old by (auto simp: keys_apart_def keys_free_def)
  let ?new = "uuid_text (env_id e n)"
  have key: "att_key x \<noteq> Some ?new" if "x \<in> set (db_attachments d)" for x
    using assms(5,7) that by (auto simp: keys_free_def)
  have other: "x = a" if "x \<in> set (db_attachments d)" "att_key x = Some old \<or> att_id x = att_id a" for x
    using that keys_apart_key [OF assms(4,2) that(1) old] keys_apart_id [OF assms(4,2) that(1)] by blast
  show ?thesis
  proof (cases rule: rekey_one_cases [OF assms(1) old ne assms(8)])
    case 1
    then have "same_file e p (b', d) (b, d) x x" if "x \<in> set (db_attachments d)" for x
      using key [OF that] by (auto simp: same_file_def intro!: download_same_object)
    then have "same_files e p (b', d') (b, d)" by (simp add: 1 list.rel_refl_strong)
    then show ?thesis using 1 assms(4,5) by (auto simp: keys_free_def)
  next
    case 2
    have rows: "db_attachments d' = map (\<lambda>x. if x = a then moved_row ?new x else x) (db_attachments d)"
    proof -
      have "(if att_id x = att_id a then moved_row ?new x else x) = (if x = a then moved_row ?new x else x)"
        if "x \<in> set (db_attachments d)" for x
        using other [OF that] by (cases "x = a") auto
      then show ?thesis by (simp add: 2(1) moved_db_def update_row_def)
    qed
    have "same_file e p (b', d') (b, d) (if x = a then moved_row ?new x else x) x" if x: "x \<in> set (db_attachments d)" for x
    proof (cases "x = a")
      case False
      have "s3_get p b' k = s3_get p b k" if k: "att_key x = Some k" for k
      proof -
        have "k \<noteq> ?new" "k \<noteq> old" using key [OF x] other [OF x] k False by auto
        then show ?thesis using 2(2) by simp
      qed
      then have "download e p b' d' x = download e p b d x" by (rule download_same_object) (simp_all add: 2(1))
      with False show ?thesis by (simp add: same_file_def)
    qed (use 2(3) in \<open>simp add: same_file_def\<close>)
    then have "same_files e p (b', d') (b, d)" by (simp add: rows list_all2_map1 list.rel_refl_strong)
    moreover have "keys_apart d'"
      unfolding keys_apart_def
    proof (intro conjI ballI impI)
      show "distinct (map att_id (db_attachments d'))"
      proof -
        have "map att_id (db_attachments d') = map att_id (db_attachments d)" by (simp add: rows)
        then show ?thesis using assms(4) by (simp add: keys_apart_def)
      qed
      show "att_key x \<noteq> Some []" if "x \<in> set (db_attachments d')" for x
        using that assms(4) by (auto simp: rows keys_apart_def)
      show "x = y" if y: "y \<in> set (db_attachments d')" and x: "x \<in> set (db_attachments d')" and same: "att_key y \<noteq> None \<and> att_key x = att_key y" for x y
      proof -
        obtain x0 where x0: "x0 \<in> set (db_attachments d)" "x = (if x0 = a then moved_row ?new x0 else x0)"
          using x by (auto simp: rows)
        obtain y0 where y0: "y0 \<in> set (db_attachments d)" "y = (if y0 = a then moved_row ?new y0 else y0)"
          using y by (auto simp: rows)
        have "x0 = y0 \<or> x0 \<noteq> a \<and> y0 \<noteq> a"
          using same x0 y0 key [OF x0(1)] key [OF y0(1)] by (cases "x0 = a"; cases "y0 = a") auto
        then show ?thesis using same x0 y0 assms(4) by (auto simp: keys_apart_def)
      qed
    qed
    moreover have "keys_free e (Suc n) m d'"
      using assms(5-7) by (auto simp: keys_free_def rows fresh_ids_text split: if_splits)
    moreover have "\<forall>x \<in> set (db_attachments d). x \<noteq> a \<longrightarrow> x \<in> set (db_attachments d')" by (force simp: rows)
    ultimately show ?thesis by blast
  qed
qed

lemma rekey_rows_keep:
  assumes "rekey_rows e p calls n rows (b, d) = (k, b', d')"
    and "set rows \<subseteq> {a \<in> set (db_attachments d). att_key a \<noteq> None}" "distinct rows"
    and "keys_apart d" "keys_free e n m d" "n + length rows \<le> m" "fresh_ids e m"
    and "\<And>f. fernet_ok (env_crypto e) [f]"
  shows "same_files e p (b', d') (b, d)"
  using assms(1-6)
proof (induction rows arbitrary: n b d k)
  case Nil
  then show ?case by (simp add: list.rel_refl_strong same_file_def)
next
  case (Cons a rows)
  obtain go_on j b1 d1 where one: "rekey_one e p (calls n) (env_id e n) a (b, d) = (go_on, j, b1, d1)"
    by (metis prod_cases4)
  have a: "a \<in> set (db_attachments d)" "att_key a \<noteq> None" using Cons.prems(2) by auto
  have "n < m" using Cons.prems(6) by simp
  note keep = rekey_one_keeps [OF one a Cons.prems(4,5) assms(7) this assms(8)]
  show ?case
  proof (cases go_on)
    case True
    then obtain i where rest: "rekey_rows e p calls (Suc n) rows (b1, d1) = (i, b', d')"
      using Cons.prems(1) one by (auto split: prod.splits)
    have "set rows \<subseteq> {a \<in> set (db_attachments d1). att_key a \<noteq> None}"
      using keep Cons.prems(2,3) by auto
    then have "same_files e p (b', d') (b1, d1)"
      using Cons.IH [OF rest] keep Cons.prems(3,6) by simp
    with keep show ?thesis using same_files_trans by blast
  next
    case False
    then show ?thesis using Cons.prems(1) one keep by simp
  qed
qed

text \<open>
  C28. Moving the objects of earlier releases to new keys, and encrypting those that were not, loses no
  file: whichever calls to the store or commits fail, with or without taking effect, and however far
  the run gets, every attachment still reads as before.
\<close>

theorem rekey_loses_no_file:
  assumes "rekey_legacy_objects e p calls (b, d) = (moved, b', d')" "keys_apart d"
    and "keys_free e 0 (length (db_attachments d)) d" "fresh_ids e (length (db_attachments d))"
    and "\<forall>f. fernet_ok (env_crypto e) [f]"
  shows "list_all2 (\<lambda>x' x. att_id x' = att_id x \<and> download e p b' d' x' = download e p b d x)
    (db_attachments d') (db_attachments d)"
proof -
  have "distinct (filter (\<lambda>a. att_key a \<noteq> None) (db_attachments d))"
    using assms(2) by (simp add: keys_apart_def distinct_map)
  then have "same_files e p (b', d') (b, d)"
    using assms by (intro rekey_rows_keep [of e p calls 0]) (auto simp: rekey_legacy_objects_def length_filter_le)
  then show ?thesis by (auto simp: same_file_def elim!: list_all2_mono)
qed

section \<open>Instances\<close>

definition s3_env :: env where
  "s3_env = toy_env\<lparr>env_cfg := sample_settings\<lparr>cfg_storage_s3 := True\<rparr>, env_id := (\<lambda>n. 20 + n)\<rparr>"

definition keyed_report :: report where
  "keyed_report = (sample_report 10 None None)\<lparr>rep_dek := cr_seal toy_crypto (''m'' @ replicate 32 (CHR ''k'')) ''D''\<rparr>"

definition keyed_case :: db where
  "keyed_case = empty_db\<lparr>db_reports := [keyed_report]\<rparr>"

definition two_files :: "stored_file list" where
  "two_files = [(''a.txt'', ''text/plain'', [1, 2]), (''b.csv'', ''text/csv'', [])]"

definition legacy_case :: db where
  "legacy_case = keyed_case\<lparr>db_attachments :=
     [\<lparr>att_id = 1, att_report = 10, att_filename = ''Max.pdf'', att_type = ''application/pdf'', att_size = 5,
       att_data = None, att_key = Some ''old/Max.pdf'', att_encrypted = False, att_at = 0\<rparr>]\<rparr>"

definition legacy_objects :: bucket where
  "legacy_objects = (\<lambda>k. if k = ''p/old/Max.pdf'' then Some ''plain'' else None)"

lemma s3_env_simps:
  "env_crypto s3_env = toy_crypto" "cfg_storage_s3 (env_cfg s3_env)" "env_id s3_env n = 20 + n"
  "\<forall>f. fernet_ok (env_crypto s3_env) [f]" "m < 100 \<Longrightarrow> fresh_ids s3_env m"
  by (auto simp: s3_env_def toy_env_def toy_fernet_ok_one fresh_ids_def inj_on_def)

lemma keyed_report_opens: "make_report_fernet (env_crypto s3_env) (env_cfg s3_env) (rep_dek keyed_report) = Some ''D''"
proof -
  have "make_mek_fernet toy_crypto (sample_settings\<lparr>cfg_storage_s3 := True\<rparr>) = [''m'' @ replicate 32 (CHR ''k'')]"
    by (simp add: make_mek_fernet_def encryption_keys_def sample_settings_def toy_crypto_def)
  moreover have "env_cfg s3_env = sample_settings\<lparr>cfg_storage_s3 := True\<rparr>" "rep_dek keyed_report =
      cr_seal toy_crypto (''m'' @ replicate 32 (CHR ''k'')) ''D''"
    by (simp_all add: s3_env_def keyed_report_def)
  ultimately show ?thesis unfolding make_report_fernet_def decrypt_dek_def s3_env_simps
    by (simp only:) (rule multi_open_seal [OF toy_fernet_ok_one], simp)
qed

theorem rekey_loses_no_file_witness:
  "\<exists>b' d' a. rekey_legacy_objects s3_env ''p'' (\<lambda>_. (Worked, Worked, Worked)) (legacy_objects, legacy_case) = (1, b', d') \<and>
     db_attachments d' = [a] \<and> att_encrypted a \<and> att_key a = Some (uuid_text 20) \<and>
     download s3_env ''p'' b' d' a = Inr ''plain''"
proof -
  have old: "s3_get ''p'' legacy_objects ''old/Max.pdf'' = Some ''plain''" "\<not> uuid_key ''old/Max.pdf''" by code_simp+
  have rep: "report_of legacy_case 10 = Some keyed_report"
    by (simp add: legacy_case_def keyed_case_def report_of_def row_def keyed_report_def sample_report_def)
  define a where "a = (hd (db_attachments legacy_case))\<lparr>att_key := Some (uuid_text 20), att_encrypted := True\<rparr>"
  obtain b' d' where h:
    "rekey_legacy_objects s3_env ''p'' (\<lambda>_. (Worked, Worked, Worked)) (legacy_objects, legacy_case) = (1, b', d')"
    and d': "db_attachments d' = [a]"
    using old rep keyed_report_opens
    by (simp add: rekey_legacy_objects_def rekey_one_def legacy_case_def Let_def update_row_def a_def s3_env_simps(3))
  have ok: "keys_apart legacy_case" "keys_free s3_env 0 (length (db_attachments legacy_case)) legacy_case"
    "fresh_ids s3_env (length (db_attachments legacy_case))"
  proof -
    have "''old/Max.pdf'' \<noteq> uuid_text i" for i using old(2) by (metis uuid_key_text)
    then show "keys_apart legacy_case" "keys_free s3_env 0 (length (db_attachments legacy_case)) legacy_case"
      "fresh_ids s3_env (length (db_attachments legacy_case))"
      by (simp_all add: keys_apart_def keys_free_def legacy_case_def s3_env_simps)
  qed
  have "download s3_env ''p'' legacy_objects legacy_case (hd (db_attachments legacy_case)) = Inr ''plain''"
    using old(1) by (simp add: legacy_case_def read_attachment_def)
  then have "download s3_env ''p'' b' d' a = Inr ''plain''"
    using rekey_loses_no_file [OF h ok s3_env_simps(4)] by (simp add: d' legacy_case_def)
  then show ?thesis using h d' by (auto simp: a_def)
qed

end
