(* ===== verification/Submission.thy ===== *)
theory Submission
  imports Wizard Attachment_Store Draft_Claim
begin

text \<open>
  Submitting a report (\<open>app/api/reports.py\<close>): the stored draft, the final submit with every way its
  database and object store can fail, and what a second request of the same draft is told. The text
  \<open>json\<close> makes of a draft or a result is an argument, \<open>codec\<close>; cancellation of a request by the server
  is not modelled.
\<close>

section \<open>The stored draft\<close>

type_synonym submit_result = "string \<times> string option \<times> (string \<times> string) list"

record codec =
  jc_draft :: "draft \<Rightarrow> string"
  jc_draft_of :: "string \<Rightarrow> draft"
  jc_result :: "submit_result \<Rightarrow> string"
  jc_result_of :: "string \<Rightarrow> submit_result"

definition draft_fernet :: "string \<Rightarrow> string" where
  "draft_fernet sid = (let rest = drop (Suc (length (takeWhile (\<lambda>c. c \<noteq> CHR ''.'') sid))) sid
                       in takeWhile (\<lambda>c. c \<noteq> CHR ''.'') rest @ ''='')"

definition cookie_char :: "char \<Rightarrow> bool" where
  "cookie_char c \<longleftrightarrow> email_alnum c \<or> c = CHR ''_'' \<or> c = CHR ''-''"

definition draft_cookie :: "string option \<Rightarrow> string option" where
  "draft_cookie raw =
     (case raw of
        None \<Rightarrow> None
      | Some c \<Rightarrow> if length c = 87 \<and> list_all cookie_char (take 43 c) \<and> c ! 43 = CHR ''.'' \<and> list_all cookie_char (drop 44 c)
                 then Some c else None)"

definition new_draft_id :: "env \<Rightarrow> string" where
  "new_draft_id e = env_token e 0 @ ''.'' @ env_token e 1"

definition open_draft :: "env \<Rightarrow> codec \<Rightarrow> string \<Rightarrow> string \<Rightarrow> draft option" where
  "open_draft e cdc sid token = map_option (jc_draft_of cdc) (cr_open (env_crypto e) (draft_fernet sid) token)"

fun load_attempts :: "env \<Rightarrow> codec \<Rightarrow> string \<Rightarrow> nat \<Rightarrow> redis \<Rightarrow> draft \<times> redis" where
  "load_attempts e cdc sid 0 r = (empty_draft, r)"
| "load_attempts e cdc sid (Suc n) r =
     (case kv_get (millis e) r (draft_key sid) of
        Some (Txt raw) \<Rightarrow>
          (case open_draft e cdc sid raw of
             None \<Rightarrow> (empty_draft, r)
           | Some s \<Rightarrow>
               (if s \<noteq> empty_draft \<and> dr_report_id s = None
                then (case assign_report_id (millis e) r sid raw (env_id e 0) of
                        (Some (Ref i), r1) \<Rightarrow> (s\<lparr>dr_report_id := Some i\<rparr>, r1)
                      | (_, r1) \<Rightarrow> load_attempts e cdc sid n r1)
                else (s, r)))
      | _ \<Rightarrow> (empty_draft, r))"

definition load_submission :: "env \<Rightarrow> codec \<Rightarrow> string \<Rightarrow> redis \<Rightarrow> draft \<times> redis" where
  "load_submission e cdc sid r = load_attempts e cdc sid 3 r"

definition load_draft :: "env \<Rightarrow> codec \<Rightarrow> tenant \<Rightarrow> string \<Rightarrow> redis \<Rightarrow> draft \<times> redis" where
  "load_draft e cdc t sid r = (case load_submission e cdc sid r of (s, r1) \<Rightarrow> (own_draft t s, r1))"

definition with_report_id :: "env \<Rightarrow> draft \<Rightarrow> draft" where
  "with_report_id e s =
     (if s \<noteq> empty_draft \<and> dr_report_id s = None then s\<lparr>dr_report_id := Some (env_id e 0)\<rparr> else s)"

definition save_submission :: "env \<Rightarrow> codec \<Rightarrow> string \<Rightarrow> draft \<Rightarrow> redis \<Rightarrow> redis" where
  "save_submission e cdc sid s r =
     kv_set (millis e) r (draft_key sid)
       (Txt (cr_seal (env_crypto e) (draft_fernet sid) (jc_draft cdc (with_report_id e s)))) SUBMISSION_TTL"

definition get_or_create_submission_session ::
  "env \<Rightarrow> codec \<Rightarrow> tenant \<Rightarrow> string option \<Rightarrow> redis \<Rightarrow> string \<times> draft \<times> redis" where
  "get_or_create_submission_session e cdc t raw r =
     (case draft_cookie raw of
        None \<Rightarrow> (new_draft_id e, empty_draft, r)
      | Some sid \<Rightarrow>
          (case load_draft e cdc t sid r of
             (s, r1) \<Rightarrow> if s = empty_draft then (new_draft_id e, empty_draft, r1) else (sid, s, r1)))"

section \<open>The outcome of a submit\<close>

text \<open>The redirect to the wizard, the success page, or "still processing" (are the answers kept?).\<close>

datatype wizard_page = Wizard_again | Success submit_result | Processing bool

definition encrypt_result :: "env \<Rightarrow> codec \<Rightarrow> string \<Rightarrow> submit_result \<Rightarrow> string" where
  "encrypt_result e cdc sid x = cr_seal (env_crypto e) (draft_fernet sid) (jc_result cdc x)"

definition open_result :: "env \<Rightarrow> codec \<Rightarrow> string \<Rightarrow> rval \<Rightarrow> submit_result option" where
  "open_result e cdc sid v =
     (case v of Txt raw \<Rightarrow> map_option (jc_result_of cdc) (cr_open (env_crypto e) (draft_fernet sid) raw) | _ \<Rightarrow> None)"

definition received :: "string \<Rightarrow> submit_result" where
  "received case_number = (case_number, None, [])"

definition committed_case_number :: "db \<Rightarrow> uuid \<Rightarrow> string option" where
  "committed_case_number d i = map_option rep_case_number (report_of d i)"

definition recover_claim :: "env \<Rightarrow> codec \<Rightarrow> string \<Rightarrow> db \<Rightarrow> int \<Rightarrow> redis \<Rightarrow> redis" where
  "recover_claim e cdc sid d now r =
     (case abandoned now r sid of
        Some (Txt token) \<Rightarrow>
          (case open_draft e cdc sid token of
             None \<Rightarrow> r
           | Some s \<Rightarrow>
               (let number = Option.bind (dr_report_id s) (committed_case_number d)
                in snd (recover_draft now r sid token (map_option (\<lambda>n. encrypt_result e cdc sid (received n)) number))))
      | _ \<Rightarrow> r)"

text \<open>
  Waiting for another request's submit: what the store held at each look before the deadline, and after
  it. \<open>Some\<close>: its result, taken.
\<close>

fun poll :: "string \<Rightarrow> (int \<times> redis) list \<Rightarrow> int \<times> redis \<Rightarrow> rval option \<times> int \<times> redis" where
  "poll sid [] end = (None, end)"
| "poll sid ((now, r) # looks) end =
     (if \<not> kv_exists now r (pending_key sid) then (None, now, r)
      else (case kv_getdel now r (result_key sid) of
              (Some v, r1) \<Rightarrow> (Some v, now, r1)
            | (None, r1) \<Rightarrow> poll sid looks end))"

definition submit_outcome ::
  "env \<Rightarrow> codec \<Rightarrow> string \<Rightarrow> db \<Rightarrow> (int \<times> redis) list \<Rightarrow> int \<times> redis \<Rightarrow> wizard_page option \<times> redis" where
  "submit_outcome e cdc sid d looks end =
     (case poll sid looks end of
        (found, now, r) \<Rightarrow>
          (let (raw, r1) = (case found of
                 Some v \<Rightarrow> (Some v, r)
               | None \<Rightarrow> kv_getdel now (recover_claim e cdc sid d now r) (result_key sid))
           in case Option.bind raw (open_result e cdc sid) of
                Some x \<Rightarrow> (Some (Success x), r1)
              | None \<Rightarrow>
                  (case load_submission e cdc sid r1 of
                     (s, r2) \<Rightarrow> if s \<noteq> empty_draft then (None, r2)
                                else (Some (Processing (kv_exists now r2 (claimed_key sid))), r2))))"

definition await_other_submit ::
  "env \<Rightarrow> codec \<Rightarrow> string \<Rightarrow> db \<Rightarrow> (int \<times> redis) list \<Rightarrow> int \<times> redis \<Rightarrow> wizard_page \<times> redis" where
  "await_other_submit e cdc sid d looks end =
     (case submit_outcome e cdc sid d looks end of
        (Some page, r) \<Rightarrow> (page, r) | (None, r) \<Rightarrow> (Wizard_again, r))"

definition stored_result_page :: "env \<Rightarrow> codec \<Rightarrow> string \<Rightarrow> string \<Rightarrow> redis \<Rightarrow> wizard_page" where
  "stored_result_page e cdc sid case_number r =
     (case Option.bind (kv_get (millis e) r (result_key sid)) (open_result e cdc sid) of
        Some x \<Rightarrow> if fst x = case_number then Success x else Success (received case_number)
      | None \<Rightarrow> Success (received case_number))"

section \<open>The final submit\<close>

text \<open>
  What can go wrong in one submit: an exception before the commit, the commit refused or its reply
  lost, the look-up afterwards, a put or deletion in the object store, the write of the result.
\<close>

record mishaps =
  mis_early :: bool
  mis_commit :: call
  mis_lookup :: bool
  mis_puts :: "nat \<Rightarrow> call"
  mis_deletes :: "nat \<Rightarrow> call"
  mis_finish :: bool

text \<open>The transaction up to the commit: the new database when it gets there, and the objects put.\<close>

definition file_report ::
  "env \<Rightarrow> string \<Rightarrow> mishaps \<Rightarrow> draws \<Rightarrow> string \<Rightarrow> tenant \<Rightarrow> draft \<Rightarrow> db \<Rightarrow> bucket
     \<Rightarrow> (report \<times> string \<times> db) option \<times> bucket \<times> string list" where
  "file_report e p mis drw receipt t s d b =
     (case create_report e drw receipt (final_report e (has_locations d t) t s) d of
        Inl _ \<Rightarrow> (None, b, [])
      | Inr (rep, pin, d1) \<Rightarrow>
          (case create_attachments e p (mis_puts mis) rep (case dr_files s of None \<Rightarrow> [] | Some fs \<Rightarrow> fs) b d1 of
             (d2, b1, keys) \<Rightarrow>
               ((if mis_early mis then None else map_option (\<lambda>d2. (rep, pin, d2)) d2), b1, keys)))"

definition submit_result_of :: "report \<Rightarrow> string \<Rightarrow> draft \<Rightarrow> submit_result" where
  "submit_result_of rep pin s =
     (rep_case_number rep, Some pin,
      map (\<lambda>(name, _, content). (name, format_size (length content))) (case dr_files s of None \<Rightarrow> [] | Some fs \<Rightarrow> fs))"

datatype review_answer = Answer wizard_page | Wait_for_other | Server_error

definition fail_before_commit ::
  "env \<Rightarrow> codec \<Rightarrow> string \<Rightarrow> mishaps \<Rightarrow> string \<Rightarrow> string \<Rightarrow> string \<Rightarrow> draft \<Rightarrow> uuid \<Rightarrow> string list
     \<Rightarrow> redis \<times> db \<times> bucket \<Rightarrow> review_answer \<times> redis \<times> db \<times> bucket" where
  "fail_before_commit e cdc p mis sid token nonce s i keys st =
     (let (r, d, b) = st; clean = delete_stored_objects (env_cfg e) p (mis_deletes mis) 0 keys b in
      if mis_lookup mis then (Answer (Processing True), r, d, b)
      else (case committed_case_number d i of
              None \<Rightarrow>
                (case give_back_draft (millis e) r sid token nonce of
                   (False, r1) \<Rightarrow> (Wait_for_other, r1, d, clean)
                 | (True, r1) \<Rightarrow>
                     (Answer Wizard_again,
                      save_submission e cdc sid (fail_step STEP_REVIEW ''submit_failed'' None s) r1, d, clean))
            | Some n \<Rightarrow>
                (let r1 = finish_claim (millis e) r sid nonce None
                 in (Answer (stored_result_page e cdc sid n r1), r1, d, clean))))"

definition submit_review ::
  "env \<Rightarrow> codec \<Rightarrow> string \<Rightarrow> mishaps \<Rightarrow> draws \<Rightarrow> string \<Rightarrow> tenant \<Rightarrow> string \<Rightarrow> string
     \<Rightarrow> redis \<times> db \<times> bucket \<Rightarrow> review_answer \<times> redis \<times> db \<times> bucket" where
  "submit_review e cdc p mis drw receipt t sid nonce st =
     (let (r, d, b) = st in
      case claim_draft (millis e) r sid nonce of
        (Some (Txt token), r1) \<Rightarrow>
          (case open_draft e cdc sid token of None \<Rightarrow> (Server_error, r1, d, b) | Some s \<Rightarrow>
           case dr_report_id s of
             None \<Rightarrow> (Answer Wizard_again, snd (give_back_draft (millis e) r1 sid token nonce), d, b)
           | Some i \<Rightarrow>
               (case draft_error (env_cfg e) d t s of
                  Some (n, x) \<Rightarrow>
                    (Answer Wizard_again,
                     save_submission e cdc sid (fail_step n x None s) (snd (give_back_draft (millis e) r1 sid token nonce)), d, b)
                | None \<Rightarrow>
                    (case file_report e p mis drw receipt t s d b of
                       (None, b1, keys) \<Rightarrow> fail_before_commit e cdc p mis sid token nonce s i keys (r1, d, b1)
                     | (Some (rep, pin, d2), b1, keys) \<Rightarrow>
                         (let answer = submit_result_of rep pin s;
                              r2 = (if mis_finish mis then r1
                                    else finish_claim (millis e) r1 sid nonce (Some (encrypt_result e cdc sid answer)))
                          in if mis_commit mis = Worked \<or> mis_commit mis = Lost \<and> \<not> mis_lookup mis
                             then (Answer (Success answer), r2, d2, b1)
                             else (Answer (Processing True), r1, if mis_commit mis = Lost then d2 else d, b1)))))
      | (_, r1) \<Rightarrow> (Wait_for_other, r1, d, b))"

section \<open>An honest answer\<close>

lemma entry_save:
  "kv_exists (millis e) (save_submission e cdc sid s r) k \<longleftrightarrow> k = draft_key sid \<or> kv_exists (millis e) r k"
  by (simp add: save_submission_def kv_exists_def entry_set SUBMISSION_TTL_def)

text \<open>Right after its claim, a submit can always give the draft back.\<close>

lemma give_back_after_claim:
  assumes "claim_draft now r sid nonce = (Some (Txt token), r1)"
  obtains r2 where "give_back_draft now r1 sid token nonce = (True, r2)" "kv_exists now r2 (draft_key sid)"
    "\<not> kv_exists now r2 (claimed_key sid)" "\<not> kv_exists now r2 (pending_key sid)"
proof -
  obtain v where k: "\<And>j. kv_entry now r1 j = (if j = pending_key sid
       then Some \<lparr>ent_val = Txt nonce, ent_exp = Some (now + PENDING_TTL * 1000)\<rparr>
       else if j = claimed_key sid then Some v else if j = draft_key sid then None else kv_entry now r j)"
    by (rule claim_draft_Some [OF assms]) blast
  obtain ok r2 where g: "give_back_draft now r1 sid token nonce = (ok, r2)" by (metis surj_pair)
  have "ok" using g k by (auto simp: give_back_draft_def kv_get_def split: if_splits)
  with g have g: "give_back_draft now r1 sid token nonce = (True, r2)" by simp
  from give_back_entries [OF g] show thesis
    using g by (intro that) (auto simp: kv_exists_def k)
qed

lemma claimed_after_claim:
  assumes "claim_draft now r sid nonce = (Some (Txt token), r1)"
  shows "kv_exists now r1 (claimed_key sid)"
  by (rule claim_draft_Some [OF assms]) (simp add: kv_exists_def)

lemma file_report_Some:
  assumes "file_report e p mis drw receipt t s d b = (Some (rep, pin, d2), b1, keys)"
  obtains d1 where "create_report e drw receipt (final_report e (has_locations d t) t s) d = Inr (rep, pin, d1)"
    "create_attachments e p (mis_puts mis) rep (case dr_files s of None \<Rightarrow> [] | Some fs \<Rightarrow> fs) b d1 = (Some d2, b1, keys)"
  using assms by (auto simp: file_report_def split: sum.splits prod.splits if_splits)

lemma create_attachments_reports: "create_attachments e p calls r files b d = (Some d', b', keys) \<Longrightarrow>
    db_reports d' = db_reports d \<and> db_messages d' = db_messages d"
  by (auto simp: create_attachments_def split: option.splits prod.splits)

lemma file_report_filed:
  assumes "file_report e p mis drw receipt t s d b = (Some (rep, pin, d2), b1, keys)" "dr_report_id s = Some i"
  shows "report_of d2 i = Some rep \<and> report_of d i = None"
proof -
  obtain d1 where c: "create_report e drw receipt (final_report e (has_locations d t) t s) d = Inr (rep, pin, d1)"
    and a: "create_attachments e p (mis_puts mis) rep (case dr_files s of None \<Rightarrow> [] | Some fs \<Rightarrow> fs) b d1 = (Some d2, b1, keys)"
    by (rule file_report_Some [OF assms(1)]) blast
  have "rep_id rep = i" "report_of d i = None" "report_of d1 i = Some rep"
    by (rule create_report_Inr [OF c], use assms(2) in \<open>simp add: final_report_def Let_def report_of_append\<close>)+
  then show ?thesis using create_attachments_reports [OF a] by (simp add: report_of_def)
qed

lemma stored_result_page_tells: "\<exists>x. stored_result_page e cdc sid n r = Success x \<and> fst x = n"
  by (auto simp: stored_result_page_def received_def split: option.split)

lemma claim_token:
  assumes "claim_draft now r sid nonce = (Some v, r1)" "kv_get now r (draft_key sid) = Some x"
  shows "v = x"
  by (rule claim_draft_Some [OF assms(1)]) (use assms(2) in \<open>simp add: kv_get_def\<close>)

lemma submit_review_claim:
  assumes "submit_review e cdc p mis drw receipt t sid nonce (r, d, b) = (Answer page, r', d', b')"
    and "kv_get (millis e) r (draft_key sid) = Some (Txt token)"
  obtains r1 where "claim_draft (millis e) r sid nonce = (Some (Txt token), r1)"
proof -
  obtain v r1 where cl: "claim_draft (millis e) r sid nonce = (v, r1)" by (metis surj_pair)
  show thesis
  proof (cases v)
    case None
    then show thesis using assms(1) by (simp add: submit_review_def cl)
  next
    case (Some x)
    then have "x = Txt token" using claim_token [OF cl [unfolded Some] assms(2)] by simp
    then show thesis using that cl Some by simp
  qed
qed

lemma fail_before_commit_cases:
  assumes "fail_before_commit e cdc p mis sid token nonce s i keys (r1, d, b1) = (Answer page, r', d', b')"
    and "give_back_draft (millis e) r1 sid token nonce = (True, r2)"
  obtains (unknown) "page = Processing True" "r' = r1" "d' = d"
  | (again) s' where "page = Wizard_again" "d' = d" "r' = save_submission e cdc sid s' r2" "b' = delete_stored_objects (env_cfg e) p (mis_deletes mis) 0 keys b1"
  | (other) n where "committed_case_number d i = Some n" "page = stored_result_page e cdc sid n r'" "d' = d"
proof (cases "mis_lookup mis")
  case True
  then show thesis using assms(1) unknown by (simp add: fail_before_commit_def)
next
  case False
  show thesis
  proof (cases "committed_case_number d i")
    case None
    let ?s = "fail_step STEP_REVIEW ''submit_failed'' None s"
    have "Wizard_again = page \<and> save_submission e cdc sid ?s r2 = r' \<and> d = d' \<and>
        delete_stored_objects (env_cfg e) p (mis_deletes mis) 0 keys b1 = b'"
      using assms False None by (simp add: fail_before_commit_def Let_def)
    then show thesis by (intro again [of ?s]) (elim conjE; rule sym; assumption)+
  next
    case (Some n)
    have "stored_result_page e cdc sid n (finish_claim (millis e) r1 sid nonce None) = page \<and>
        finish_claim (millis e) r1 sid nonce None = r' \<and> d = d'"
      using assms(1) False Some by (auto simp: fail_before_commit_def Let_def)
    then show thesis by (intro other [OF Some]) auto
  qed
qed

lemma submit_review_filed:
  assumes "claim_draft (millis e) r sid nonce = (Some (Txt token), r1)" "open_draft e cdc sid token = Some s" "dr_report_id s = Some i"
    and "draft_error (env_cfg e) d t s = None" "file_report e p mis drw receipt t s d b = (Some (rep, pin, d2), b1, keys)"
    and "submit_review e cdc p mis drw receipt t sid nonce (r, d, b) = (Answer page, r', d', b')"
  shows "b' = b1 \<and> (page = Success (submit_result_of rep pin s) \<and> d' = d2 \<and>
      r' = (if mis_finish mis then r1 else finish_claim (millis e) r1 sid nonce (Some (encrypt_result e cdc sid (submit_result_of rep pin s)))) \<or>
    page = Processing True \<and> r' = r1)"
  using assms(6) by (auto simp: submit_review_def assms(1-5) Let_def split: if_splits)

text \<open>
  C4. Whatever fails in a final submit, its answer is true: a success page carries the case number of
  the report that is there under the draft's identifier; sent back to the wizard, the reporter has the
  draft and nothing was filed; and "still processing, your answers are kept" is said only while the
  claimed draft exists.
\<close>

theorem submit_answers_truly:
  assumes "submit_review e cdc p mis drw receipt t sid nonce (r, d, b) = (Answer page, r', d', b')"
    and "kv_get (millis e) r (draft_key sid) = Some (Txt token)" "open_draft e cdc sid token = Some s" "dr_report_id s = Some i"
  shows "case page of
      Success (n, pin, files) \<Rightarrow> committed_case_number d' i = Some n
    | Wizard_again \<Rightarrow> d' = d \<and> kv_exists (millis e) r' (draft_key sid)
    | Processing kept \<Rightarrow> kept \<and> kv_exists (millis e) r' (claimed_key sid)"
proof -
  obtain r1 where claim: "claim_draft (millis e) r sid nonce = (Some (Txt token), r1)"
    by (rule submit_review_claim [OF assms(1,2)])
  obtain r2 where g: "give_back_draft (millis e) r1 sid token nonce = (True, r2)" "kv_exists (millis e) r2 (draft_key sid)"
    by (rule give_back_after_claim [OF claim]) blast
  note c1 = claimed_after_claim [OF claim]
  show ?thesis
  proof (cases "draft_error (env_cfg e) d t s")
    case (Some err)
    then have "page = Wizard_again \<and> d' = d \<and> (\<exists>s'. r' = save_submission e cdc sid s' r2)"
      using assms(1) by (cases err) (auto simp: submit_review_def claim assms(3,4) g(1))
    then show ?thesis by (auto simp: entry_save)
  next
    case None
    obtain filed b1 keys where f: "file_report e p mis drw receipt t s d b = (filed, b1, keys)" by (metis prod_cases3)
    show ?thesis
    proof (cases filed)
      case None2: None
      then have "fail_before_commit e cdc p mis sid token nonce s i keys (r1, d, b1) = (Answer page, r', d', b')"
        using assms(1) by (simp add: submit_review_def claim assms(3,4) None f)
      from this g(1) show ?thesis
      proof (cases rule: fail_before_commit_cases)
        case (other n)
        moreover obtain x where "stored_result_page e cdc sid n r' = Success x" "fst x = n"
          using stored_result_page_tells by blast
        ultimately show ?thesis by (cases x) simp
      qed (use c1 in \<open>simp_all add: entry_save\<close>)
    next
      case (Some x)
      obtain rep pin d2 where x: "x = (rep, pin, d2)" by (cases x)
      have "report_of d2 i = Some rep" using file_report_filed f Some x assms(4) by blast
      then show ?thesis
        using submit_review_filed [OF claim assms(3,4) None _ assms(1)] f Some x c1
        by (auto simp: submit_result_of_def committed_case_number_def)
    qed
  qed
qed

section \<open>What was typed is what is read\<close>

lemma create_report_columns:
  "create_report e drw receipt a d = Inr (r, pin, d') \<Longrightarrow>
     rep_category r = nr_category a \<and> rep_mode r = nr_mode a \<and> rep_location r = nr_location a \<and>
     rep_conf_name r = nr_name a \<and> rep_conf_contact r = nr_contact a \<and> rep_secure_email r = nr_email a"
  by (auto simp: create_report_def Let_def split: option.splits sum.splits dest!: insert_report_Inr)

lemma decrypt_text_seal: "fernet_ok cr [k] \<Longrightarrow> decrypt_text cr k (encrypt_field cr k m) = m"
  by (simp add: decrypt_text_def decrypt_field_safe_seal)

lemma filed_report_reads:
  assumes "create_report e drw receipt a d = Inr (r, pin, d')" "messages_of d (rep_id r) = []"
    and "fernet_ok (env_crypto e) (make_mek_fernet (env_crypto e) (env_cfg e))" "fernet_ok (env_crypto e) [drw_dek drw]"
    and "db_messages d2 = db_messages d'"
  shows "make_report_fernet (env_crypto e) (env_cfg e) (rep_dek r) = Some (drw_dek drw) \<and>
    decrypt_report_fields (env_crypto e) (env_cfg e) f langs d2 r None = Some (nr_description a, [receipt])"
proof (rule create_report_Inr [OF assms(1)])
  fix n fernet m
  assume f: "make_report_fernet (env_crypto e) (env_cfg e) (encrypt_dek (env_crypto e) (env_cfg e) (drw_dek drw)) = Some fernet"
    "rep_dek r = encrypt_dek (env_crypto e) (env_cfg e) (drw_dek drw)"
    "rep_description r = encrypt_field (env_crypto e) fernet (nr_description a)"
    "m = \<lparr>msg_id = env_id e 1, msg_report = rep_id r, msg_sender = From_admin,
          msg_content = encrypt_field (env_crypto e) fernet receipt, msg_sent_at = day_floor (env_now e)\<rparr>"
    "d' = d\<lparr>db_reports := db_reports d @ [r], db_messages := db_messages d @ [m]\<rparr>"
  have dek: "fernet = drw_dek drw"
    using f(1) assms(3) by (simp add: make_report_fernet_def decrypt_dek_def encrypt_dek_def multi_open_multi_seal)
  have "set (filter (\<lambda>m. msg_report m = rep_id r) (db_messages d)) = set (messages_of d (rep_id r))" by (simp add: messages_of_def)
  then have "filter (\<lambda>m. msg_report m = rep_id r) (db_messages d) = []" using assms(2) by (metis set_empty2)
  then have ms: "messages_of d2 (rep_id r) = [m]" by (simp add: messages_of_def assms(5) f(4,5))
  have ne: "rep_dek r \<noteq> []"
  proof -
    let ?keys = "make_mek_fernet (env_crypto e) (env_cfg e)"
    have "hd ?keys \<in> set ?keys" by simp
    then have "starts_with FERNET_PREFIX (rep_dek r)"
      using assms(3) unfolding f(2) fernet_ok_def encrypt_dek_def multi_seal_def by blast
    then show ?thesis by (auto simp: starts_with_def FERNET_PREFIX_def)
  qed
  show ?thesis
    using ms f(1-4) ne by (simp add: decrypt_report_fields_def Let_def dek decrypt_text_seal [OF assms(4)])
qed

definition given :: "string option \<Rightarrow> string option" where
  "given x = (case x of None \<Rightarrow> None | Some v \<Rightarrow> if strip v = [] then None else Some (strip v))"

text \<open>
  A report submitted with its PIN shown is read by the staff as it was typed: the description, the
  receipt as the first message, every attached file's name and bytes, and the identity exactly when the
  reporter chose to give one.
\<close>

theorem submitted_is_read:
  assumes "submit_review e cdc p mis drw receipt t sid nonce (r, d, b) = (Answer (Success (n, Some pin, files)), r', d', b')"
    and "kv_get (millis e) r (draft_key sid) = Some (Txt token)" "open_draft e cdc sid token = Some s" "dr_report_id s = Some i"
    and "report_of d i = None" "messages_of d i = []" "attachments_of d i = []"
    and "fernet_ok (env_crypto e) (make_mek_fernet (env_crypto e) (env_cfg e))"
    and "fernet_ok (env_crypto e) (make_fernet (env_crypto e) (env_cfg e))" "\<forall>k. fernet_ok (env_crypto e) [k]"
    and "fresh_ids e (2 * length (case dr_files s of None \<Rightarrow> [] | Some fs \<Rightarrow> fs) + 3)"
    and "\<forall>f \<in> set (case dr_files s of None \<Rightarrow> [] | Some fs \<Rightarrow> fs). fst f \<noteq> []"
  shows "\<exists>rep. report_of d' i = Some rep \<and> rep_case_number rep = n \<and>
    decrypt_report_fields (env_crypto e) (env_cfg e) (\<lambda>_. receipt) [] d' rep None
      = Some (case dr_description s of None \<Rightarrow> [] | Some v \<Rightarrow> strip v, [receipt]) \<and>
    decrypt_or_none (env_crypto e) (env_cfg e) (rep_conf_name rep)
      = (if dr_mode s = Some ''confidential'' then given (dr_name s) else None) \<and>
    map (\<lambda>a. (attachment_filename e d' a, download e p b' d' a)) (attachments_of d' i)
      = map (\<lambda>(name, _, content). (Some name, Inr (content_text content))) (case dr_files s of None \<Rightarrow> [] | Some fs \<Rightarrow> fs)"
proof -
  let ?fs = "case dr_files s of None \<Rightarrow> [] | Some fs \<Rightarrow> fs"
  obtain r1 where claim: "claim_draft (millis e) r sid nonce = (Some (Txt token), r1)"
    by (rule submit_review_claim [OF assms(1,2)])
  obtain r2 where g: "give_back_draft (millis e) r1 sid token nonce = (True, r2)"
    by (rule give_back_after_claim [OF claim]) blast
  have none: "draft_error (env_cfg e) d t s = None"
    using assms(1) by (rule_tac ccontr) (auto simp: submit_review_def claim assms(3,4) split: option.splits)
  obtain filed b1 keys where f: "file_report e p mis drw receipt t s d b = (filed, b1, keys)" by (metis prod_cases3)
  obtain rep pin' d2 where filed: "filed = Some (rep, pin', d2)"
  proof (cases filed)
    case None
    then have "fail_before_commit e cdc p mis sid token nonce s i keys (r1, d, b1) = (Answer (Success (n, Some pin, files)), r', d', b')"
      using assms(1) by (simp add: submit_review_def claim assms(3,4) none f)
    from this g show thesis
      by (cases rule: fail_before_commit_cases) (use assms(5) in \<open>simp_all add: committed_case_number_def\<close>)
  qed (metis prod_cases3)
  have out: "b' = b1" "d' = d2" "n = rep_case_number rep"
    using submit_review_filed [OF claim assms(3,4) none f [unfolded filed] assms(1)] by (auto simp: submit_result_of_def)
  obtain d1 where c: "create_report e drw receipt (final_report e (has_locations d t) t s) d = Inr (rep, pin', d1)"
    and a: "create_attachments e p (mis_puts mis) rep ?fs b d1 = (Some d2, b1, keys)"
    by (rule file_report_Some [OF f [unfolded filed]]) blast
  have rep: "report_of d2 i = Some rep" using file_report_filed [OF f [unfolded filed] assms(4)] by blast
  then have i: "rep_id rep = i" by (auto simp: report_of_def dest: row_Some)
  have reads: "make_report_fernet (env_crypto e) (env_cfg e) (rep_dek rep) = Some (drw_dek drw)"
    "decrypt_report_fields (env_crypto e) (env_cfg e) (\<lambda>_. receipt) [] d2 rep None
      = Some (case dr_description s of None \<Rightarrow> [] | Some v \<Rightarrow> strip v, [receipt])"
    using filed_report_reads [OF c _ assms(8) _ conjunct2 [OF create_attachments_reports [OF a]]] assms(6,10) i
    by (simp_all add: final_report_def Let_def)
  have name: "decrypt_or_none (env_crypto e) (env_cfg e) (rep_conf_name rep)
      = (if dr_mode s = Some ''confidential'' then given (dr_name s) else None)"
    using create_report_columns [OF c] decrypt_or_none_encrypt [OF assms(9)]
    by (auto simp: final_report_def Let_def given_def decrypt_or_none_def split: option.split)
  have files: "map (\<lambda>a. (attachment_filename e d2 a, download e p b1 d2 a)) (attachments_of d2 i)
      = map (\<lambda>(name, _, content). (Some name, Inr (content_text content))) ?fs"
  proof -
    have d1: "report_of d1 (rep_id rep) = Some rep" "attachments_of d1 (rep_id rep) = []"
      by (rule create_report_Inr [OF c], use assms(7) i in \<open>simp add: report_of_append attachments_of_def\<close>)+
    note attached_is_downloaded [OF a d1 assms(11,10,12), unfolded i]
    then have "map (\<lambda>(x, _, _, y). (x, y)) (map (\<lambda>a. (attachment_filename e d2 a, att_type a, att_size a, download e p b1 d2 a)) (attachments_of d2 i))
      = map (\<lambda>(x, _, _, y). (x, y)) (map (\<lambda>(name, kind, content). (Some name, kind, length content, Inr (content_text content))) ?fs)"
      by (rule arg_cong)
    then show ?thesis by (simp add: comp_def case_prod_unfold)
  qed
  show ?thesis unfolding out using rep reads(2) name files by blast
qed

section \<open>Nothing is left behind\<close>

lemma attach_files_new_keys:
  "attach_files e p f i calls n files b = (rows, b', keys) \<Longrightarrow> set keys \<subseteq> new_keys e n (n + length files)"
proof (induction files arbitrary: n b rows b' keys)
  case (Cons x files)
  obtain name kind content where x: "x = (name, kind, content)" by (cases x)
  have "new_keys e (Suc n) (Suc n + length files) \<subseteq> new_keys e n (n + length (x # files))"
    "generate_storage_key e (2 * n + 3) \<in> new_keys e n (n + length (x # files))"
    by (auto simp: new_keys_def)
  then show ?case using Cons.prems Cons.IH by (fastforce simp: x Let_def split: if_splits prod.splits)
qed simp

text \<open>
  A submit sent back to the wizard leaves no object in the store: apart from puts whose answer was
  lost and deletions refused, what it had put is gone and every other object is as it was.
\<close>

theorem failed_submit_leaves_no_object:
  assumes "submit_review e cdc p mis drw receipt t sid nonce (r, d, b) = (Answer Wizard_again, r', d', b')"
    and "kv_get (millis e) r (draft_key sid) = Some (Txt token)" "open_draft e cdc sid token = Some s"
    and "cfg_storage_s3 (env_cfg e)" "\<forall>n. mis_puts mis n \<noteq> Lost" "\<forall>n. mis_deletes mis n \<noteq> Refused"
    and "\<forall>k \<in> new_keys e 0 (length (case dr_files s of None \<Rightarrow> [] | Some fs \<Rightarrow> fs)). s3_get p b k = None"
  shows "s3_get p b' k = s3_get p b k"
proof -
  let ?fs = "case dr_files s of None \<Rightarrow> [] | Some fs \<Rightarrow> fs"
  obtain r1 where claim: "claim_draft (millis e) r sid nonce = (Some (Txt token), r1)"
    by (rule submit_review_claim [OF assms(1,2)])
  obtain r2 where g: "give_back_draft (millis e) r1 sid token nonce = (True, r2)"
    by (rule give_back_after_claim [OF claim]) blast
  show ?thesis
  proof (cases "dr_report_id s = None \<or> draft_error (env_cfg e) d t s \<noteq> None")
    case True
    then have "b' = b" using assms(1) by (auto simp: submit_review_def claim assms(3) split: option.splits)
    then show ?thesis by simp
  next
    case False
    then obtain i where i: "dr_report_id s = Some i" and ok: "draft_error (env_cfg e) d t s = None"
      by (cases "dr_report_id s"; cases "draft_error (env_cfg e) d t s"; simp)
    obtain filed b1 keys where f: "file_report e p mis drw receipt t s d b = (filed, b1, keys)" by (metis prod_cases3)
    have "filed = None"
      using submit_review_filed [OF claim assms(3) i ok _ assms(1)] f by (cases filed) auto
    then have "fail_before_commit e cdc p mis sid token nonce s i keys (r1, d, b1) = (Answer Wizard_again, r', d', b')"
      using assms(1) by (simp add: submit_review_def claim assms(3) i ok f)
    then have b': "b' = delete_stored_objects (env_cfg e) p (mis_deletes mis) 0 keys b1"
      using g by (cases rule: fail_before_commit_cases) (auto simp: stored_result_page_def split: option.splits if_splits)
    obtain rows fernet j where "b1 = b \<and> keys = [] \<or> attach_files e p fernet j (mis_puts mis) 0 ?fs b = (rows, b1, keys)"
      using f by (auto simp: file_report_def create_attachments_def split: sum.splits prod.splits option.splits)
    then have same: "k \<notin> set keys \<Longrightarrow> s3_get p b1 k = s3_get p b k" and new: "set keys \<subseteq> new_keys e 0 (length ?fs)"
      using attach_files_keys [OF _ assms(5)] attach_files_new_keys [of e p fernet j "mis_puts mis" 0 ?fs b rows b1 keys] by auto
    show ?thesis
    proof (cases "k \<in> set keys")
      case True
      then have "s3_get p b' k = None" unfolding b' by (intro delete_stored_gone [OF assms(4,6)]) simp
      then show ?thesis using True new assms(7) by auto
    next
      case False
      then show ?thesis unfolding b' using same by (simp add: delete_stored_other)
    qed
  qed
qed

section \<open>Instances\<close>

definition toy_draft :: draft where
  "toy_draft = empty_draft\<lparr>dr_step := Some 6, dr_report_id := Some 77, dr_mode := Some ''anonymous'',
     dr_category := Some ''fraud'', dr_description := Some ''it happened today''\<rparr>"

definition toy_codec :: codec where
  "toy_codec = \<lparr>jc_draft = (\<lambda>_. ''{}''), jc_draft_of = (\<lambda>_. toy_draft), jc_result = (\<lambda>_. []), jc_result_of = (\<lambda>_. received [])\<rparr>"

definition toy_token :: string where "toy_token = cr_seal toy_crypto ''k='' ''{}''"

definition toy_redis :: redis where
  "toy_redis = kv_set (millis toy_env) [] (draft_key ''s.k'') (Txt toy_token) SUBMISSION_TTL"

definition all_well :: mishaps where
  "all_well = \<lparr>mis_early = False, mis_commit = Worked, mis_lookup = False, mis_puts = (\<lambda>_. Worked),
     mis_deletes = (\<lambda>_. Worked), mis_finish = False\<rparr>"

lemma all_well_simps [simp]:
  "mis_early all_well = False" "mis_commit all_well = Worked" "mis_lookup all_well = False" "mis_puts all_well n = Worked"
  "mis_deletes all_well n = Worked" "mis_finish all_well = False"
  by (simp_all add: all_well_def)

lemma toy_env_simps: "env_crypto toy_env = toy_crypto" "env_cfg toy_env = sample_settings"
  by (simp_all add: toy_env_def sample_env_def)

lemma toy_held: "kv_get (millis toy_env) toy_redis (draft_key ''s.k'') = Some (Txt toy_token)"
  by (simp add: toy_redis_def kv_get_def entry_set SUBMISSION_TTL_def)

lemma toy_opens: "open_draft toy_env toy_codec ''s.k'' toy_token = Some toy_draft"
proof -
  have "draft_fernet ''s.k'' = ''k=''" by code_simp
  then show ?thesis
    using toy_fernet_ok_one [of "''k=''"] by (simp add: open_draft_def toy_env_simps toy_token_def fernet_ok_def toy_codec_def)
qed

lemma toy_wrapped: "make_report_fernet toy_crypto sample_settings (encrypt_dek toy_crypto sample_settings ''D'') = Some ''D''"
  unfolding make_report_fernet_def decrypt_dek_def encrypt_dek_def toy_mek
  by (rule multi_open_multi_seal [OF toy_fernet_ok_one]) simp

lemma toy_created:
  assumes "db_reports d = []"
  obtains rep d1 where "create_report toy_env toy_draws rc a d = Inr (rep, ''p'', d1)"
    "rep_dek rep = encrypt_dek toy_crypto sample_settings ''D''"
proof -
  have "day_floor (env_now toy_env) = 0" by code_simp
  moreover have "due_at 0 None = Some (98 * day_us - 1)" by code_simp
  moreover have "drw_dek toy_draws = ''D''" "drw_pin toy_draws = ''p''" "take 5 (drw_numbers toy_draws) = [42]"
    by (simp_all add: toy_draws_def)
  ultimately show thesis
    using that toy_wrapped assms
    by (simp add: create_report_def Let_def report_of_def row_def toy_env_simps)
qed

lemma toy_filed:
  "\<exists>rep d2. file_report toy_env ''p'' all_well toy_draws ''receipt'' instance_wizard toy_draft fraud_only b
     = (Some (rep, ''p'', d2), b, [])"
proof -
  obtain rep d1 where c: "create_report toy_env toy_draws ''receipt''
      (final_report toy_env (has_locations fraud_only instance_wizard) instance_wizard toy_draft) fraud_only = Inr (rep, ''p'', d1)"
    and k: "rep_dek rep = encrypt_dek toy_crypto sample_settings ''D''"
    by (rule toy_created [of fraud_only]) (simp add: fraud_only_def empty_db_def)
  have "dr_files toy_draft = None" by (simp add: toy_draft_def empty_draft_def)
  then show ?thesis
    using toy_wrapped by (simp add: file_report_def c k create_attachments_def toy_env_simps)
qed

lemma toy_claimed:
  obtains r1 where "claim_draft (millis toy_env) toy_redis ''s.k'' ''N'' = (Some (Txt toy_token), r1)"
proof -
  obtain v r1 where c: "claim_draft (millis toy_env) toy_redis ''s.k'' ''N'' = (v, r1)" by (metis surj_pair)
  have "kv_exists (millis toy_env) toy_redis (draft_key ''s.k'')" "\<not> kv_exists (millis toy_env) toy_redis (claimed_key ''s.k'')"
    by (simp_all add: toy_redis_def kv_exists_def entry_set SUBMISSION_TTL_def) (simp add: kv_entry_def)
  moreover obtain en where "kv_entry (millis toy_env) toy_redis (draft_key ''s.k'') = Some en"
    using toy_held by (auto simp: kv_get_def)
  note kv_entry_rename [OF this, of "claimed_key ''s.k''"] live_entry [OF this]
  ultimately have "v \<noteq> None" using c by (auto simp: claim_draft_def Let_def kv_get_def entry_set)
  then obtain x where "v = Some x" by blast
  then show thesis using that c claim_token [OF _ toy_held] by blast
qed

lemma toy_submitted:
  "\<exists>n d2 r'. submit_review toy_env toy_codec ''p'' all_well toy_draws ''receipt'' instance_wizard ''s.k'' ''N'' (toy_redis, fraud_only, b)
     = (Answer (Success (n, Some ''p'', [])), r', d2, b)"
proof -
  obtain r1 where c: "claim_draft (millis toy_env) toy_redis ''s.k'' ''N'' = (Some (Txt toy_token), r1)" by (rule toy_claimed)
  obtain rep d2 where f: "file_report toy_env ''p'' all_well toy_draws ''receipt'' instance_wizard toy_draft fraud_only b
     = (Some (rep, ''p'', d2), b, [])"
    using toy_filed by blast
  have "draft_error (env_cfg toy_env) fraud_only instance_wizard toy_draft = None" unfolding toy_env_simps by code_simp
  moreover have "dr_report_id toy_draft = Some 77" "dr_files toy_draft = None" by (simp_all add: toy_draft_def empty_draft_def)
  ultimately show ?thesis
    by (auto simp: submit_review_def c toy_opens f submit_result_of_def Let_def)
qed

lemma toy_id: "dr_report_id toy_draft = Some 77"
  by (simp add: toy_draft_def)

theorem submit_answers_truly_witness:
  "\<exists>n r' d' b'. submit_review toy_env toy_codec ''p'' all_well toy_draws ''receipt'' instance_wizard ''s.k'' ''N''
      (toy_redis, fraud_only, \<lambda>_. None) = (Answer (Success (n, Some ''p'', [])), r', d', b') \<and> committed_case_number d' 77 = Some n"
proof -
  obtain n r' d' b' where h: "submit_review toy_env toy_codec ''p'' all_well toy_draws ''receipt'' instance_wizard ''s.k'' ''N''
      (toy_redis, fraud_only, \<lambda>_. None) = (Answer (Success (n, Some ''p'', [])), r', d', b')"
    using toy_submitted by blast
  from submit_answers_truly [OF h toy_held toy_opens toy_id] h show ?thesis by simp
qed

theorem submitted_is_read_witness:
  "\<exists>rep d'. report_of d' 77 = Some rep \<and>
     decrypt_report_fields toy_crypto sample_settings (\<lambda>_. ''receipt'') [] d' rep None = Some (''it happened today'', [''receipt''])"
proof -
  obtain n r' d' b' where h: "submit_review toy_env toy_codec ''p'' all_well toy_draws ''receipt'' instance_wizard ''s.k'' ''N''
      (toy_redis, fraud_only, \<lambda>_. None) = (Answer (Success (n, Some ''p'', [])), r', d', b')"
    using toy_submitted by blast
  have n: "report_of fraud_only 77 = None" "messages_of fraud_only 77 = []" "attachments_of fraud_only 77 = []"
    by (simp_all add: fraud_only_def empty_db_def report_of_def row_def messages_of_def attachments_of_def)
  have k: "fernet_ok (env_crypto toy_env) (make_mek_fernet (env_crypto toy_env) (env_cfg toy_env))"
    "fernet_ok (env_crypto toy_env) (make_fernet (env_crypto toy_env) (env_cfg toy_env))" "\<forall>k. fernet_ok (env_crypto toy_env) [k]"
    by (simp_all add: toy_env_simps toy_mek toy_fernet_ok_one make_fernet_def encryption_keys_def)
      (simp add: sample_settings_def toy_fernet_ok_one)
  have nf: "dr_files toy_draft = None" by (simp add: toy_draft_def empty_draft_def)
  have fr: "fresh_ids toy_env (2 * length (case dr_files toy_draft of None \<Rightarrow> [] | Some fs \<Rightarrow> fs) + 3)"
    "\<forall>f \<in> set (case dr_files toy_draft of None \<Rightarrow> [] | Some fs \<Rightarrow> fs). fst f \<noteq> []"
    by (simp_all add: nf fresh_ids_def toy_env_def sample_env_def inj_on_def)
  have "strip ''it happened today'' = ''it happened today''" by code_simp
  then have "(case dr_description toy_draft of None \<Rightarrow> [] | Some v \<Rightarrow> strip v) = ''it happened today''" by (simp add: toy_draft_def)
  with submitted_is_read [OF h toy_held toy_opens toy_id n k fr] show ?thesis
    unfolding toy_env_simps by (elim exE conjE) (intro exI conjI; simp)
qed

definition toy_s3_env :: env where
  "toy_s3_env = toy_env\<lparr>env_cfg := sample_settings\<lparr>cfg_storage_s3 := True\<rparr>\<rparr>"

theorem failed_submit_leaves_no_object_witness:
  "\<exists>r' d' b'. submit_review toy_s3_env toy_codec ''p'' (all_well\<lparr>mis_early := True\<rparr>) toy_draws ''receipt'' instance_wizard ''s.k'' ''N''
      (toy_redis, fraud_only, \<lambda>_. None) = (Answer Wizard_again, r', d', b') \<and> s3_get ''p'' b' ''k'' = None"
proof -
  let ?mis = "all_well\<lparr>mis_early := True\<rparr>"
  have same: "millis toy_s3_env = millis toy_env" "open_draft toy_s3_env cdc sid token = open_draft toy_env cdc sid token"
    "cfg_storage_s3 (env_cfg toy_s3_env)" for cdc sid token
    by (simp_all add: toy_s3_env_def toy_env_def sample_env_def millis_def open_draft_def)
  obtain r1 where c: "claim_draft (millis toy_env) toy_redis ''s.k'' ''N'' = (Some (Txt toy_token), r1)" by (rule toy_claimed)
  obtain r2 where g: "give_back_draft (millis toy_env) r1 ''s.k'' toy_token ''N'' = (True, r2)"
    by (rule give_back_after_claim [OF c]) blast
  have ok: "draft_error (env_cfg toy_s3_env) fraud_only instance_wizard toy_draft = None" by code_simp
  obtain filed b1 keys where f: "file_report toy_s3_env ''p'' ?mis toy_draws ''receipt'' instance_wizard toy_draft fraud_only (\<lambda>_. None) = (filed, b1, keys)"
    by (metis prod_cases3)
  then have "filed = None" by (auto simp: file_report_def split: sum.splits prod.splits)
  moreover have "committed_case_number fraud_only 77 = None"
    by (simp add: committed_case_number_def fraud_only_def empty_db_def report_of_def row_def)
  ultimately obtain r' d' b' where h: "submit_review toy_s3_env toy_codec ''p'' ?mis toy_draws ''receipt'' instance_wizard ''s.k'' ''N''
      (toy_redis, fraud_only, \<lambda>_. None) = (Answer Wizard_again, r', d', b')"
    using f by (simp add: submit_review_def same c g toy_opens toy_id ok fail_before_commit_def Let_def)
  have "s3_get ''p'' b' ''k'' = s3_get ''p'' (\<lambda>_. None) ''k''"
    by (rule failed_submit_leaves_no_object [OF h, of toy_token toy_draft]) (simp_all add: same toy_held toy_opens s3_get_def)
  with h show ?thesis by (simp add: s3_get_def)
qed

end
