(* ===== verification/Reporter_Pages.thy ===== *)
theory Reporter_Pages
  imports Submission
begin

text \<open>
  The reporter's pages as requests (\<open>app/api/reports.py\<close>): the wizard's GET and POST, removing a file,
  starting again, and the status page with its session, reply, download and sign-out. A request is a
  function of the cookie it carries; every page it renders is what the reporter gets to see.
\<close>

section \<open>The wizard\<close>

text \<open>\<open>Shown\<close>: step, total, label, whether modes and e-mail are offered, flash and its fields, the draft.\<close>

datatype wizard_view =
  Shown int int int bool bool "string option" "(string \<times> string) list" draft
| Outcome wizard_page
| Elsewhere string
| No_organisation

definition ERROR_FIELD :: "(string \<times> string) list" where
  "ERROR_FIELD =
     [(''mode_required'', ''submission_mode''), (''invalid_location'', ''location_id''), (''category_required'', ''category''),
      (''description_too_short'', ''description''), (''description_too_long'', ''description''),
      (''email_invalid'', ''secure_email''), (''attachments_no_room'', ''files'')]"

definition field_errors_of :: "draft \<Rightarrow> (string \<times> string) list" where
  "field_errors_of s =
     (case dr_flash s of
        None \<Rightarrow> []
      | Some x \<Rightarrow>
          (case dr_flash_fields s of
             Some fs \<Rightarrow> fs
           | None \<Rightarrow> (case map_of ERROR_FIELD x of None \<Rightarrow> [] | Some f \<Rightarrow> [(f, ''submit.error.'' @ x)])))"

definition submit_get ::
  "env \<Rightarrow> codec \<Rightarrow> string option \<Rightarrow> string option \<Rightarrow> redis \<Rightarrow> db \<Rightarrow> refusal + (wizard_view \<times> string option \<times> redis)" where
  "submit_get e cdc slug raw r d =
     on_ok (tenant_of (env_cfg e) d slug) (\<lambda>ten. case ten of
         Moved u \<Rightarrow> Inr (Elsewhere u, None, r)
       | Not_configured \<Rightarrow> Inr (No_organisation, None, r)
       | On_wizard t \<Rightarrow>
           (let (early, r1) = (case draft_cookie raw of
                  None \<Rightarrow> (None, r)
                | Some c \<Rightarrow>
                    (case load_submission e cdc c r of
                       (s, r1) \<Rightarrow>
                         if s = empty_draft \<and> submit_in_flight (millis e) r1 c
                         then submit_outcome e cdc c d [] (millis e, r1) else (None, r1)))
            in case early of
                 Some page \<Rightarrow> Inr (Outcome page, None, r1)
               | None \<Rightarrow>
                   (let (sid, s, r2) = get_or_create_submission_session e cdc t raw r1;
                        other = (raw \<noteq> Some sid \<and>
                                 (case draft_cookie raw of None \<Rightarrow> False | Some c \<Rightarrow> fst (load_submission e cdc c r2) \<noteq> empty_draft));
                        locs = has_locations d t; (step, flash, s1) = wizard_get locs s;
                        view = Shown step (compute_total_steps locs) (compute_step_label step locs)
                                 (cfg_submission_mode_enabled (env_cfg e)) (cfg_notify_email (env_cfg e))
                                 flash (field_errors_of s) s1
                    in if \<not> other \<and> s1 \<noteq> empty_draft
                       then Inr (view, Some sid, save_submission e cdc sid s1 r2) else Inr (view, None, r2))))"

definition submit_remove_attachment ::
  "env \<Rightarrow> codec \<Rightarrow> string option \<Rightarrow> string option \<Rightarrow> int \<Rightarrow> redis \<Rightarrow> db \<Rightarrow> refusal + redis" where
  "submit_remove_attachment e cdc slug raw i r d =
     on_ok (tenant_of (env_cfg e) d slug) (\<lambda>ten. case ten of
         On_wizard t \<Rightarrow>
           (case draft_cookie raw of
              None \<Rightarrow> Inr r
            | Some c \<Rightarrow>
                (case load_draft e cdc t c r of
                   (s, r1) \<Rightarrow> (case remove_attachment i s of None \<Rightarrow> Inr r1 | Some s' \<Rightarrow> Inr (save_submission e cdc c s' r1))))
       | _ \<Rightarrow> Inr r)"

definition submit_restart :: "env \<Rightarrow> string option \<Rightarrow> string option \<Rightarrow> redis \<Rightarrow> db \<Rightarrow> refusal + redis" where
  "submit_restart e slug raw r d =
     on_ok (tenant_of (env_cfg e) d slug) (\<lambda>ten. case ten of
         On_wizard t \<Rightarrow>
           (case draft_cookie raw of None \<Rightarrow> Inr r | Some c \<Rightarrow> Inr (kv_del (kv_del r (draft_key c)) (report_id_key c)))
       | _ \<Rightarrow> Inr r)"

text \<open>
  The POST: \<open>later\<close> is what the store holds at each look while another submit of the draft runs, and at
  the deadline; the draft's files and the room in Redis are in \<open>sur\<close>.
\<close>

record submit_request =
  sr_slug :: "string option"
  sr_cookie :: "string option"
  sr_form :: wizard_form
  sr_sur :: surroundings
  sr_mis :: mishaps
  sr_draws :: draws
  sr_receipt :: string
  sr_nonce :: string
  sr_looks :: "(int \<times> redis) list"
  sr_end :: "int \<times> redis"

definition waited :: "env \<Rightarrow> codec \<Rightarrow> submit_request \<Rightarrow> string \<Rightarrow> db \<Rightarrow> bucket \<Rightarrow> review_answer \<times> redis \<times> db \<times> bucket" where
  "waited e cdc q sid d b =
     (case await_other_submit e cdc sid d (sr_looks q) (sr_end q) of (page, r) \<Rightarrow> (Answer page, r, d, b))"

definition submit_post ::
  "env \<Rightarrow> codec \<Rightarrow> string \<Rightarrow> submit_request \<Rightarrow> redis \<times> db \<times> bucket
     \<Rightarrow> refusal + (string \<times> review_answer \<times> redis \<times> db \<times> bucket)" where
  "submit_post e cdc p q st =
     (let (r, d, b) = st in
      on_ok (tenant_of (env_cfg e) d (sr_slug q)) (\<lambda>ten. case ten of
          On_wizard t \<Rightarrow>
            (let raw = sr_cookie q;
                 sid = (case draft_cookie raw of None \<Rightarrow> new_draft_id e | Some c \<Rightarrow> c);
                 (s, r1) = load_draft e cdc t sid r;
                 own = (s = empty_draft \<and> raw = Some sid);
                 (s2, r2) = (if own then load_draft e cdc t sid (recover_claim e cdc sid d (millis e) r1) else (s, r1))
             in if own \<and> s2 = empty_draft \<and> submit_in_flight (millis e) r2 sid
                then Inr (sid, waited e cdc q sid d b)
                else (let sid = (if s2 = empty_draft \<and> raw \<noteq> None then new_draft_id e else sid) in
                      case wizard_post (env_cfg e) d t (sr_sur q) (sr_form q) s2 of
                        Some s' \<Rightarrow> Inr (sid, Answer Wizard_again, save_submission e cdc sid s' r2, d, b)
                      | None \<Rightarrow>
                          (case submit_review e cdc p (sr_mis q) (sr_draws q) (sr_receipt q) t sid (sr_nonce q) (r2, d, b) of
                             (Wait_for_other, _) \<Rightarrow> Inr (sid, waited e cdc q sid d b)
                           | (answer, st') \<Rightarrow> Inr (sid, answer, st'))))
        | _ \<Rightarrow> Inr ([], Answer Wizard_again, r, d, b)))"

section \<open>The status page\<close>

definition session_cookie :: "string option \<Rightarrow> string option" where
  "session_cookie raw =
     (case raw of
        None \<Rightarrow> None
      | Some c \<Rightarrow> if 1 \<le> length c \<and> length c \<le> 86 \<and> list_all cookie_char c then Some c else None)"

definition status_report :: "env \<Rightarrow> redis \<Rightarrow> db \<Rightarrow> string option \<Rightarrow> report option" where
  "status_report e r d cookie =
     (case cookie of
        None \<Rightarrow> None
      | Some c \<Rightarrow>
          (case kv_get (millis e) r (status_session_key e c) of
             Some (Ref i) \<Rightarrow> get_report_by_id d i
           | _ \<Rightarrow> None))"

text \<open>What the page shows of the case; \<open>None\<close>: the sign-in form.\<close>

definition status_get ::
  "env \<Rightarrow> (string \<Rightarrow> string) \<Rightarrow> string list \<Rightarrow> string \<Rightarrow> redis \<Rightarrow> db \<Rightarrow> string option
     \<Rightarrow> (report \<times> (string \<times> string list) option \<times> string list option) option" where
  "status_get e receipt langs lang r d raw =
     map_option (\<lambda>rep. (rep, decrypt_report_fields (env_crypto e) (env_cfg e) receipt langs d rep (Some lang),
                        decrypt_attachment_names (env_crypto e) (env_cfg e) d rep))
       (status_report e r d (session_cookie raw))"

definition STATUS_TTL :: int where "STATUS_TTL = 7200"

definition open_status_session :: "env \<Rightarrow> string \<Rightarrow> uuid \<Rightarrow> int \<Rightarrow> redis \<Rightarrow> redis" where
  "open_status_session e token i ttl r = kv_set (millis e) r (status_session_key e token) (Ref i) ttl"

datatype status_answer = Signed_in string | Wrong int

definition status_post :: "env \<Rightarrow> redis \<Rightarrow> db \<Rightarrow> string \<Rightarrow> string \<Rightarrow> status_answer \<times> redis" where
  "status_post e r d case_number pin =
     (case authenticate_whistleblower e r d case_number pin of
        ((None, ttl), r1) \<Rightarrow> (Wrong ttl, r1)
      | ((Some rep, ttl), r1) \<Rightarrow>
          (Signed_in (env_token e 0), open_status_session e (env_token e 0) (rep_id rep) STATUS_TTL r1))"

datatype reply_answer = Replied bool string | Unsent

text \<open>The case the reply is for, with the session it came on or a new one.\<close>

definition reply_session ::
  "env \<Rightarrow> redis \<Rightarrow> db \<Rightarrow> string option \<Rightarrow> string \<Rightarrow> string
     \<Rightarrow> (refusal + (report \<times> string) option) \<times> redis" where
  "reply_session e r d raw case_number pin =
     (case (status_report e r d (session_cookie raw), session_cookie raw) of
        (Some rep, Some c) \<Rightarrow> (Inr (Some (rep, c)), r)
      | _ \<Rightarrow>
          (if case_number = [] \<or> pin = [] then (Inr None, r)
           else (case authenticate_whistleblower e r d case_number pin of
                   ((None, ttl), r1) \<Rightarrow> (Inl (Status (if ttl \<noteq> 0 then 429 else 401)), r1)
                 | ((Some rep, _), r1) \<Rightarrow>
                     (Inr (Some (rep, env_token e 0)), open_status_session e (env_token e 0) (rep_id rep) STATUS_TTL r1))))"

definition MAX_REPLY :: nat where "MAX_REPLY = 5000"

definition reply_post ::
  "env \<Rightarrow> redis \<Rightarrow> db \<Rightarrow> string option \<Rightarrow> string \<Rightarrow> string \<Rightarrow> string \<Rightarrow> (refusal + reply_answer) \<times> redis \<times> db" where
  "reply_post e r d raw content case_number pin =
     (case reply_session e r d raw case_number pin of
        (Inl x, r1) \<Rightarrow> (Inl x, r1, d)
      | (Inr None, r1) \<Rightarrow> (Inr Unsent, r1, d)
      | (Inr (Some (rep, old)), r1) \<Rightarrow>
          (let stripped = strip content in
           if stripped = [] \<or> length stripped > MAX_REPLY then (Inl (Status 422), r1, d)
           else (let closed = (rep_status rep = Closed);
                     remaining = max 1 (kv_ttl (millis e) r1 (status_session_key e old));
                     r2 = open_status_session e (env_token e 1) (rep_id rep) remaining r1;
                     r3 = kv_del r2 (status_session_key e old)
                 in if closed then (Inr (Replied False (env_token e 1)), r3, d)
                    else (case add_whistleblower_message e d rep stripped of
                            None \<Rightarrow> (Inl (Status 500), r1, d)
                          | Some (_, d') \<Rightarrow> (Inr (Replied True (env_token e 1)), r3, d')))))"

definition status_logout :: "env \<Rightarrow> redis \<Rightarrow> string option \<Rightarrow> redis" where
  "status_logout e r raw = (case session_cookie raw of None \<Rightarrow> r | Some c \<Rightarrow> kv_del r (status_session_key e c))"

definition whistleblower_download_attachment ::
  "env \<Rightarrow> string \<Rightarrow> bucket \<Rightarrow> redis \<Rightarrow> db \<Rightarrow> string option \<Rightarrow> uuid \<Rightarrow> refusal + (string \<times> string)" where
  "whistleblower_download_attachment e p b r d raw aid =
     (case raw of
        None \<Rightarrow> Inl (Status 401)
      | Some c \<Rightarrow>
          (if c = [] then Inl (Status 401)
           else (case kv_get (millis e) r (status_session_key e c) of
              Some (Ref i) \<Rightarrow>
                (case row att_id aid (db_attachments d) of
                   None \<Rightarrow> Inl (Status 404)
                 | Some a \<Rightarrow>
                     (if att_report a \<noteq> i then Inl (Status 404)
                      else on_ok (download e p b d a) (\<lambda>bytes.
                        case attachment_filename e d a of
                          None \<Rightarrow> Inl (Status 500)
                        | Some name \<Rightarrow> Inr (bytes, content_disposition_attachment name))))
            | _ \<Rightarrow> Inl (Status 401))))"

section \<open>The session of the status page\<close>

text \<open>
  A reply never carries a reporter's session on: the session it came on is over, the fresh one ends
  when that one would have ended (to the second), every other session is as it was, and a closed case
  takes no message.
\<close>

theorem reply_keeps_session_end:
  assumes "reply_post e r d (Some c) content case_number pin = (Inr (Replied taken fresh), r', d')"
    and "kv_entry (millis e) r (status_session_key e c) = Some \<lparr>ent_val = Ref i, ent_exp = Some t\<rparr>"
    and "session_cookie (Some c) = Some c" "get_report_by_id d i = Some rep"
    and "status_session_key e fresh \<noteq> status_session_key e c"
  shows "kv_get (millis e) r' (status_session_key e c) = None \<and>
    (\<exists>t'. kv_entry (millis e) r' (status_session_key e fresh) = Some \<lparr>ent_val = Ref (rep_id rep), ent_exp = Some t'\<rparr> \<and>
       t' \<le> max (t + 500) (millis e + 1000)) \<and>
    (\<forall>k. k \<noteq> status_session_key e c \<and> k \<noteq> status_session_key e fresh \<longrightarrow> kv_entry (millis e) r' k = kv_entry (millis e) r k) \<and>
    (taken \<longleftrightarrow> rep_status rep \<noteq> Closed) \<and>
    (\<not> taken \<longrightarrow> d' = d) \<and> (taken \<longrightarrow> (\<exists>m. d' = d\<lparr>db_messages := db_messages d @ [m]\<rparr> \<and> msg_report m = rep_id rep))"
proof -
  let ?k = "status_session_key e"
  let ?left = "max 1 ((t - millis e + 500) div 1000)"
  have s: "reply_session e r d (Some c) case_number pin = (Inr (Some (rep, c)), r)"
    using assms(2-4) by (simp add: reply_session_def status_report_def kv_get_def)
  have ttl: "kv_ttl (millis e) r (?k c) = (t - millis e + 500) div 1000"
    using assms(2) by (simp add: kv_ttl_def)
  have r': "r' = kv_del (open_status_session e fresh (rep_id rep) ?left r) (?k c)" and fresh: "fresh = env_token e 1"
    and taken: "taken \<longleftrightarrow> rep_status rep \<noteq> Closed"
    and d': "\<not> taken \<longrightarrow> d' = d" "taken \<longrightarrow> (\<exists>m. add_whistleblower_message e d rep (strip content) = Some (m, d'))"
    using assms(1) by (auto simp: reply_post_def s ttl Let_def split: if_splits option.splits)
  have left: "millis e + ?left * 1000 \<le> max (t + 500) (millis e + 1000)" by (simp add: max_def) linarith
  have e: "kv_entry (millis e) r' j = (if j = ?k c then None else if j = ?k fresh
      then Some \<lparr>ent_val = Ref (rep_id rep), ent_exp = Some (millis e + ?left * 1000)\<rparr> else kv_entry (millis e) r j)" for j
    by (simp add: r' open_status_session_def entry_set)
  have "taken \<longrightarrow> (\<exists>m. d' = d\<lparr>db_messages := db_messages d @ [m]\<rparr> \<and> msg_report m = rep_id rep)"
    using d'(2) by (auto simp: add_whistleblower_message_def Let_def split: option.splits)
  then show ?thesis
    using left taken d'(1) assms(5) by (auto simp: e kv_get_def)
qed

definition reply_env :: env where
  "reply_env = toy_env\<lparr>env_token := (\<lambda>n. if n = 0 then ''t'' else ''u'')\<rparr>"

definition open_session :: redis where
  "open_session = kv_put [] (status_session_key reply_env ''c'') (Ref 10) (Some 5400)"

theorem reply_keeps_session_end_witness:
  "\<exists>r' d' t'. reply_post reply_env open_session one_case (Some ''c'') ''thank you'' [] [] = (Inr (Replied True ''u''), r', d') \<and>
     kv_entry (millis reply_env) r' (status_session_key reply_env ''u'') = Some \<lparr>ent_val = Ref 10, ent_exp = Some t'\<rparr> \<and> t' \<le> 6000"
proof -
  define res where "res = reply_post reply_env open_session one_case (Some ''c'') ''thank you'' [] []"
  have "case fst res of Inr (Replied taken f) \<Rightarrow> taken \<and> f = ''u'' | _ \<Rightarrow> False" unfolding res_def by code_simp
  then obtain r' d' where h: "reply_post reply_env open_session one_case (Some ''c'') ''thank you'' [] [] = (Inr (Replied True ''u''), r', d')"
    unfolding res_def [symmetric] by (cases res; cases "fst res") (auto split: reply_answer.splits)
  have k: "kv_entry (millis reply_env) open_session (status_session_key reply_env ''c'') = Some \<lparr>ent_val = Ref 10, ent_exp = Some 5400\<rparr>"
    "session_cookie (Some ''c'') = Some ''c''" "get_report_by_id one_case 10 = Some (sample_report 10 None None)"
    "status_session_key reply_env ''u'' \<noteq> status_session_key reply_env ''c''" "millis reply_env = 5000" "rep_id (sample_report 10 None None) = 10"
    by code_simp+
  from reply_keeps_session_end [OF h k(1-4)] h show ?thesis unfolding k(5,6) by (elim conjE exE) (intro exI conjI; simp)
qed

end
