(* ===== verification/Single_Sign_On.thy ===== *)
theory Single_Sign_On
  imports Access
begin

text \<open>
  Identities from elsewhere: OpenID Connect (\<open>app/services/oidc.py\<close>) and a directory
  (\<open>app/services/ldap_auth.py\<close>). The provider's token endpoint, the signature check of PyJWT, the text
  \<open>json\<close> makes of a stored state, SHA-256 and the directory's answers are arguments.
\<close>

section \<open>OpenID Connect\<close>

definition STATE_PREFIX :: string where "STATE_PREFIX = ''openwhistle:oidc_state:''"
definition STATE_TTL :: int where "STATE_TTL = 300"
definition PURPOSE_LOGIN :: string where "PURPOSE_LOGIN = ''login''"
definition PURPOSE_LINK :: string where "PURPOSE_LINK = ''link''"
definition LINK_STATE_PREFIX :: string where "LINK_STATE_PREFIX = ''link.''"

record oidc_state =
  os_nonce :: string
  os_verifier :: string
  os_purpose :: "string option"
  os_binding :: "string option"

record id_claims =
  ic_sub :: string
  ic_iss :: string
  ic_nonce :: string
  ic_aud :: "string list"
  ic_azp :: "string option"

text \<open>
  \<open>pv_metadata\<close>, \<open>pv_tokens\<close>: \<open>None\<close> is an error of the connection; the code and the PKCE verifier give
  an ID token, when there is one. \<open>pv_decode\<close>: signature, issuer, audience, times, required claims.
\<close>

record provider =
  pv_metadata :: bool
  pv_tokens :: "string \<Rightarrow> string \<Rightarrow> string option option"
  pv_decode :: "string \<Rightarrow> id_claims option"
  pv_client_id :: string
  pv_sha256 :: "string \<Rightarrow> string"
  pv_pack :: "oidc_state \<Rightarrow> string"
  pv_unpack :: "string \<Rightarrow> oidc_state"

definition session_binding :: "provider \<Rightarrow> uuid \<Rightarrow> string \<Rightarrow> string" where
  "session_binding pv uid session_token = pv_sha256 pv (string_of_int (int uid) @ '':'' @ session_token)"

definition browser_binding :: "provider \<Rightarrow> string \<Rightarrow> string" where
  "browser_binding pv cookie = pv_sha256 pv (''login:'' @ cookie)"

definition state_key :: "string \<Rightarrow> string" where "state_key state = STATE_PREFIX @ state"

text \<open>
  The parameters of the authorization URL that depend on the request: state, nonce, PKCE challenge. The
  state, the nonce and the verifier are drawn from the request's tokens 0, 1 and 2.
\<close>

definition create_authorization_url ::
  "env \<Rightarrow> provider \<Rightarrow> string \<Rightarrow> string \<Rightarrow> redis \<Rightarrow> (string \<times> string \<times> string) option \<times> redis" where
  "create_authorization_url e pv purpose binding r =
     (if \<not> pv_metadata pv then (None, r)
      else (let state = (if purpose = PURPOSE_LINK then LINK_STATE_PREFIX @ env_token e 0 else env_token e 0);
                stored = \<lparr>os_nonce = env_token e 1, os_verifier = env_token e 2, os_purpose = Some purpose,
                          os_binding = Some binding\<rparr>
            in (Some (state, env_token e 1, pv_sha256 pv (env_token e 2)),
                kv_set (millis e) r (state_key state) (Txt (pv_pack pv stored)) STATE_TTL)))"

definition verify_id_token :: "provider \<Rightarrow> string \<Rightarrow> string \<Rightarrow> id_claims option" where
  "verify_id_token pv id_token nonce =
     (case pv_decode pv id_token of
        None \<Rightarrow> None
      | Some c \<Rightarrow>
          (if ic_nonce c \<noteq> nonce then None
           else if length (ic_aud c) > 1 \<and> ic_azp c \<noteq> Some (pv_client_id pv) then None
           else Some c))"

datatype exchange = Broken | Refused | Identified id_claims

definition exchange_code ::
  "env \<Rightarrow> provider \<Rightarrow> string \<Rightarrow> string \<Rightarrow> string \<Rightarrow> string \<Rightarrow> redis \<Rightarrow> exchange \<times> redis" where
  "exchange_code e pv code state purpose binding r =
     (case kv_getdel (millis e) r (state_key state) of
        (Some (Txt raw), r1) \<Rightarrow>
          (let stored = pv_unpack pv raw in
           (if (case os_purpose stored of None \<Rightarrow> PURPOSE_LOGIN | Some x \<Rightarrow> x) \<noteq> purpose then Refused
            else if (case os_binding stored of None \<Rightarrow> [] | Some x \<Rightarrow> x) \<noteq> binding then Refused
            else if \<not> pv_metadata pv then Broken
            else (case pv_tokens pv code (os_verifier stored) of
                    None \<Rightarrow> Broken
                  | Some None \<Rightarrow> Refused
                  | Some (Some id_token) \<Rightarrow>
                      (case verify_id_token pv id_token (os_nonce stored) of
                         None \<Rightarrow> Refused | Some c \<Rightarrow> Identified c)), r1))
      | (_, r1) \<Rightarrow> (Refused, r1))"

section \<open>A directory\<close>

text \<open>
  \<open>dy_search\<close>: the service account's search for a name, entries with their DN (none for a referral) and
  the values of the name attribute; \<open>None\<close> is any LDAP error. \<open>dy_bind\<close>: a bind with a DN and a password.
\<close>

record directory =
  dy_search :: "string \<Rightarrow> (string option \<times> string list) list option"
  dy_bind :: "string \<Rightarrow> string \<Rightarrow> bool"

fun first_entry :: "(string option \<times> string list) list \<Rightarrow> (string \<times> string list) option" where
  "first_entry [] = None"
| "first_entry ((dn, attrs) # rest) =
     (case dn of None \<Rightarrow> first_entry rest | Some n \<Rightarrow> if n = [] then first_entry rest else Some (n, attrs))"

definition first_value :: "string list \<Rightarrow> string option" where
  "first_value attrs = (case attrs of [] \<Rightarrow> None | v # _ \<Rightarrow> Some v)"

text \<open>\<open>None\<close>: the error the caller catches.\<close>

definition authenticate_ldap :: "settings \<Rightarrow> directory \<Rightarrow> string \<Rightarrow> string \<Rightarrow> string option" where
  "authenticate_ldap cfg dy username password =
     (if \<not> cfg_ldap_enabled cfg then None
      else if password = [] then None
      else (case Option.bind (dy_search dy username) first_entry of
              None \<Rightarrow> None
            | Some (user_dn, attrs) \<Rightarrow>
                (if \<not> dy_bind dy user_dn password then None
                 else (case first_value attrs of None \<Rightarrow> None | Some name \<Rightarrow> if name = [] then None else Some name))))"

section \<open>What they guarantee\<close>

text \<open>
  A state is good for one exchange, within five minutes, for the purpose and by the browser or
  session it was made for: redeemed with any other purpose or binding, late, or a second time, it
  identifies nobody, and nobody is identified whose token lacks the nonce of this very request.
\<close>

theorem state_good_for_one_exchange:
  assumes "create_authorization_url e pv purpose binding r = (Some (state, nonce, challenge), r1)"
    and "pv_unpack pv (pv_pack pv \<lparr>os_nonce = nonce, os_verifier = env_token e 2, os_purpose = Some purpose,
           os_binding = Some binding\<rparr>)
         = \<lparr>os_nonce = nonce, os_verifier = env_token e 2, os_purpose = Some purpose, os_binding = Some binding\<rparr>"
    and "millis e \<le> millis e'" "exchange_code e' pv code state purpose' binding' r1 = (Identified c, r2)"
  shows "purpose' = purpose \<and> binding' = binding \<and> millis e' < millis e + STATE_TTL * 1000 \<and> ic_nonce c = nonce \<and>
    (\<exists>id_token. pv_tokens pv code (env_token e 2) = Some (Some id_token) \<and> pv_decode pv id_token = Some c) \<and>
    (\<forall>e'' code' purpose'' binding''. exchange_code e'' pv code' state purpose'' binding'' r2 = (Refused, r2))"
proof -
  let ?stored = "\<lparr>os_nonce = nonce, os_verifier = env_token e 2, os_purpose = Some purpose, os_binding = Some binding\<rparr>"
  have nonce: "nonce = env_token e 1"
    and r1: "r1 = kv_set (millis e) r (state_key state) (Txt (pv_pack pv ?stored)) STATE_TTL"
    using assms(1) by (auto simp: create_authorization_url_def Let_def split: if_splits)
  have get: "kv_get (millis e') r1 (state_key state) =
      (if millis e' < millis e + STATE_TTL * 1000 then Some (Txt (pv_pack pv ?stored)) else None)"
    by (simp add: r1 kv_set_def kv_get_put)
  have in_time: "millis e' < millis e + STATE_TTL * 1000"
    using assms(4) get by (auto simp: exchange_code_def kv_getdel_def split: if_splits)
  have r2: "r2 = kv_del r1 (state_key state)"
    and x: "purpose' = purpose" "binding' = binding" "pv_metadata pv"
    and "\<exists>id_token. pv_tokens pv code (env_token e 2) = Some (Some id_token) \<and> verify_id_token pv id_token nonce = Some c"
    using assms(2,4) get in_time
    by (auto simp: exchange_code_def kv_getdel_def Let_def split: if_splits option.splits)
  then obtain id_token where t: "pv_tokens pv code (env_token e 2) = Some (Some id_token)"
    "verify_id_token pv id_token nonce = Some c" by blast
  have "kv_getdel (millis e'') r2 (state_key state) = (None, r2)" for e''
    by (simp add: r2 kv_getdel_def kv_get_del) (simp add: kv_del_def)
  then have "exchange_code e'' pv code' state purpose'' binding'' r2 = (Refused, r2)" for e'' code' purpose'' binding''
    by (simp add: exchange_code_def)
  with x in_time t show ?thesis by (auto simp: verify_id_token_def split: option.splits if_splits)
qed

text \<open>
  A directory name is given only for a password the directory accepted for the entry it found, never for
  an empty one (which would bind anonymously), and it is the directory's own spelling.
\<close>

lemma authenticate_ldap_bound:
  assumes "authenticate_ldap cfg dy username password = Some name"
  obtains dn attrs where "password \<noteq> []" "cfg_ldap_enabled cfg" "dy_bind dy dn password" "name \<noteq> []"
    "Option.bind (dy_search dy username) first_entry = Some (dn, name # attrs)"
proof -
  from assms obtain dn attrs where f: "Option.bind (dy_search dy username) first_entry = Some (dn, attrs)"
    and b: "dy_bind dy dn password" "first_value attrs = Some name" "name \<noteq> []" "password \<noteq> []" "cfg_ldap_enabled cfg"
    by (auto simp: authenticate_ldap_def split: if_splits option.splits prod.splits)
  from b(2) obtain rest where "attrs = name # rest" by (cases attrs) (simp_all add: first_value_def)
  with f b that show thesis by blast
qed

section \<open>An example\<close>

definition toy_claims :: id_claims where
  "toy_claims = \<lparr>ic_sub = ''sub'', ic_iss = ''iss'', ic_nonce = ''tok'', ic_aud = [''ow''], ic_azp = None\<rparr>"

definition toy_state :: oidc_state where
  "toy_state = \<lparr>os_nonce = ''tok'', os_verifier = ''tok'', os_purpose = Some ''login'', os_binding = Some ''b''\<rparr>"

definition toy_provider :: provider where
  "toy_provider = \<lparr>pv_metadata = True, pv_tokens = (\<lambda>code verifier. Some (Some code)),
     pv_decode = (\<lambda>t. if t = ''good'' then Some toy_claims else None), pv_client_id = ''ow'', pv_sha256 = (\<lambda>s. s),
     pv_pack = (\<lambda>_. ''x''), pv_unpack = (\<lambda>_. toy_state)\<rparr>"

theorem state_good_for_one_exchange_witness:
  "\<exists>r1 r2. fst (exchange_code sample_env toy_provider ''good'' ''tok'' ''login'' ''b'' r1) = Identified toy_claims \<and>
     exchange_code sample_env toy_provider ''good'' ''tok'' ''login'' ''b'' r2 = (Refused, r2)"
proof -
  define r1 where "r1 = snd (create_authorization_url sample_env toy_provider ''login'' ''b'' [])"
  define r2 where "r2 = snd (exchange_code sample_env toy_provider ''good'' ''tok'' ''login'' ''b'' r1)"
  have "fst (create_authorization_url sample_env toy_provider ''login'' ''b'' []) = Some (''tok'', ''tok'', ''tok'')" by code_simp
  then have c: "create_authorization_url sample_env toy_provider ''login'' ''b'' [] = (Some (''tok'', ''tok'', ''tok''), r1)"
    by (simp add: r1_def prod_eq_iff)
  have "fst (exchange_code sample_env toy_provider ''good'' ''tok'' ''login'' ''b''
      (snd (create_authorization_url sample_env toy_provider ''login'' ''b'' []))) = Identified toy_claims" by code_simp
  then have x: "exchange_code sample_env toy_provider ''good'' ''tok'' ''login'' ''b'' r1 = (Identified toy_claims, r2)"
    by (simp add: r1_def [symmetric] r2_def prod_eq_iff)
  have p: "pv_unpack toy_provider (pv_pack toy_provider \<lparr>os_nonce = ''tok'', os_verifier = env_token sample_env 2,
      os_purpose = Some ''login'', os_binding = Some ''b''\<rparr>)
    = \<lparr>os_nonce = ''tok'', os_verifier = env_token sample_env 2, os_purpose = Some ''login'', os_binding = Some ''b''\<rparr>"
    by (simp add: toy_provider_def toy_state_def sample_env_def)
  from state_good_for_one_exchange [OF c p _ x] x show ?thesis by (intro exI [of _ r1] exI [of _ r2]) auto
qed

end
