(* ===== verification/Middleware.thy ===== *)
theory Middleware
  imports Access Reachability
begin

text \<open>
  What every request and every answer passes (\<open>app/middleware.py\<close>, \<open>app/csrf.py\<close>, the order of the three
  in \<open>app/main.py\<close>): addresses dropped before anything sees the request, the security headers on
  every answer, the CSRF cookie, the budget of the upload spool. The application below is an argument,
  and so are Starlette's cookie parser and the page of a refused upload. Request headers are a list, as
  ASGI has them; an answer's headers are a map from their lower-case names, its cookies a list.
\<close>

section \<open>Requests and answers\<close>

datatype scope_type = Http | Websocket | Lifespan

record scope =
  sc_type :: scope_type
  sc_headers :: "(string \<times> string) list"
  sc_client :: "string option"
  sc_path :: string
  sc_nonce :: "string option"
  sc_onion :: bool
  sc_ip_seen :: bool
  sc_csrf :: string

record answer =
  an_status :: nat
  an_headers :: "string \<Rightarrow> string option"
  an_cookies :: "string list"
  an_body :: string

text \<open>An application answers, or raises before its answer began, or after.\<close>

datatype outcome = Answered answer | Raised | Cut_off answer

fun sent :: "(answer \<Rightarrow> answer) \<Rightarrow> outcome \<Rightarrow> outcome" where
  "sent f (Answered a) = Answered (f a)"
| "sent f Raised = Raised"
| "sent f (Cut_off a) = Cut_off (f a)"

section \<open>Addresses\<close>

definition IP_REVEAL_HEADERS :: "string list" where
  "IP_REVEAL_HEADERS =
     [''x-forwarded-for'', ''x-real-ip'', ''forwarded'', ''x-client-ip'', ''x-cluster-client-ip'', ''true-client-ip'',
      ''cf-connecting-ip'', ''cf-connecting-ipv6'', ''x-original-forwarded-for'', ''fastly-client-ip'',
      ''x-envoy-external-address'', ''x-azure-clientip'', ''x-azure-socketip'', ''x-appengine-user-ip'',
      ''cf-pseudo-ipv4'', ''fly-client-ip'', ''x-nf-client-connection-ip'', ''incap-client-ip'',
      ''x-vercel-forwarded-for'', ''x-proxyuser-ip'', ''x-originating-ip'', ''x-forwarded'', ''client-ip'',
      ''cloudfront-viewer-address'', ''cloudfront-viewer-asn'', ''cloudfront-viewer-city'',
      ''cloudfront-viewer-country'', ''cloudfront-viewer-country-name'', ''cloudfront-viewer-country-region'',
      ''cloudfront-viewer-country-region-name'', ''cloudfront-viewer-latitude'', ''cloudfront-viewer-longitude'',
      ''cloudfront-viewer-metro-code'', ''cloudfront-viewer-postal-code'', ''cloudfront-viewer-time-zone'',
      ''cf-ipcountry'', ''cf-ipcity'', ''cf-ipcontinent'', ''cf-iplatitude'', ''cf-iplongitude'',
      ''cf-postal-code'', ''cf-metro-code'', ''cf-region'', ''cf-region-code'', ''cf-timezone'',
      ''x-appengine-country'', ''x-appengine-region'', ''x-appengine-city'', ''x-appengine-citylatlong'',
      ''x-client-geo-location'', ''x-akamai-edgescape'', ''x-vercel-ip-city'', ''x-vercel-ip-country'',
      ''x-vercel-ip-country-region'', ''x-vercel-ip-latitude'', ''x-vercel-ip-longitude'',
      ''x-vercel-ip-postal-code'', ''x-vercel-ip-timezone'', ''x-nf-geo'']"

definition IP_WARNING_KEY :: string where "IP_WARNING_KEY = ''openwhistle:ip_headers_detected''"

definition reveals :: "string \<times> string \<Rightarrow> bool" where
  "reveals h \<longleftrightarrow> lower (fst h) \<in> set IP_REVEAL_HEADERS"

definition without_address :: "(string \<times> string) list \<Rightarrow> (string \<times> string) list" where
  "without_address headers = filter (\<lambda>h. \<not> reveals h) headers"

section \<open>The headers of an answer\<close>

definition STATIC_SECURITY_HEADERS :: "(string \<times> string) list" where
  "STATIC_SECURITY_HEADERS =
     [(''x-content-type-options'', ''nosniff''), (''x-frame-options'', ''DENY''), (''x-xss-protection'', ''0''),
      (''referrer-policy'', ''no-referrer''),
      (''permissions-policy'', ''camera=(), microphone=(), geolocation=(), payment=()'')]"

definition HSTS :: string where "HSTS = ''max-age=31536000; includeSubDomains; preload''"

definition build_csp :: "string \<Rightarrow> string" where
  "build_csp nonce =
     (let sources = '' 'self' 'nonce-'' @ nonce @ [CHR 0x27] @ ''; ''
      in ''default-src 'self'; '' @ ''script-src'' @ sources @ ''style-src'' @ sources @
         ''font-src 'self'; img-src 'self' data:; connect-src 'self'; base-uri 'self'; form-action 'self'; '' @
         ''object-src 'none'; frame-ancestors 'none';'')"

fun put_headers :: "(string \<times> string) list \<Rightarrow> (string \<Rightarrow> string option) \<Rightarrow> string \<Rightarrow> string option" where
  "put_headers [] h = h"
| "put_headers ((k, v) # kvs) h = put_headers kvs (h(k \<mapsto> v))"

fun rstrip_slash :: "string \<Rightarrow> string" where
  "rstrip_slash s = rev (dropWhile (\<lambda>c. c = CHR ''/'') (rev s))"

definition secure_headers ::
  "settings \<Rightarrow> string \<Rightarrow> bool \<Rightarrow> string \<Rightarrow> nat \<Rightarrow> (string \<Rightarrow> string option) \<Rightarrow> string \<Rightarrow> string option" where
  "secure_headers cfg nonce is_onion path status h0 =
     (let h1 = (put_headers STATIC_SECURITY_HEADERS h0)(''content-security-policy'' \<mapsto> build_csp nonce);
          h2 = (if \<not> is_onion \<and> cfg_secure_cookies cfg then h1(''strict-transport-security'' \<mapsto> HSTS) else h1);
          content_type = (case h2 ''content-type'' of None \<Rightarrow> [] | Some v \<Rightarrow> v);
          h3 = (if cfg_onion_location cfg \<noteq> [] \<and> \<not> is_onion \<and> starts_with ''text/html'' (lower content_type)
                then h2(''onion-location'' \<mapsto> rstrip_slash (cfg_onion_location cfg) @ path) else h2);
          h4 = (if starts_with ''/static/'' path then h3(''cache-control'' \<mapsto> ''no-cache'')
                else if \<not> (starts_with ''/branding/'' path \<and> status = 200 \<and> h3 ''cache-control'' \<noteq> None)
                then h3(''cache-control'' \<mapsto> ''no-store'') else h3)
      in h4(''server'' := None, ''x-powered-by'' := None))"

definition secure_answer :: "settings \<Rightarrow> string \<Rightarrow> bool \<Rightarrow> string \<Rightarrow> answer \<Rightarrow> answer" where
  "secure_answer cfg nonce is_onion path a =
     a\<lparr>an_headers := secure_headers cfg nonce is_onion path (an_status a) (an_headers a)\<rparr>"

definition server_error :: answer where
  "server_error = \<lparr>an_status = 500, an_headers = [''content-type'' \<mapsto> ''text/plain; charset=utf-8''], an_cookies = [],
     an_body = ''Internal Server Error''\<rparr>"

section \<open>The three middlewares\<close>

text \<open>The warning is best effort: \<open>up\<close> says whether Redis answers.\<close>

definition passed_on :: "settings \<Rightarrow> string \<Rightarrow> scope \<Rightarrow> scope" where
  "passed_on cfg nonce s =
     s\<lparr>sc_nonce := Some nonce, sc_onion := is_onion_request cfg (sc_headers s),
       sc_ip_seen := list_ex reveals (sc_headers s), sc_client := None,
       sc_headers := if list_ex reveals (sc_headers s) then without_address (sc_headers s) else sc_headers s\<rparr>"

definition security_middleware ::
  "settings \<Rightarrow> bool \<Rightarrow> string \<Rightarrow> (scope \<Rightarrow> outcome) \<Rightarrow> redis \<Rightarrow> scope \<Rightarrow> outcome \<times> redis" where
  "security_middleware cfg up nonce app r s =
     (case sc_type s of
        Lifespan \<Rightarrow> (app s, r)
      | Websocket \<Rightarrow> (app (s\<lparr>sc_headers := without_address (sc_headers s), sc_client := None\<rparr>), r)
      | Http \<Rightarrow>
          (let r' = (if list_ex reveals (sc_headers s) \<and> up then kv_put r IP_WARNING_KEY (Txt ''1'') None else r);
               secured = secure_answer cfg nonce (is_onion_request cfg (sc_headers s)) (sc_path s)
           in case app (passed_on cfg nonce s) of
                Raised \<Rightarrow> (Cut_off (secured server_error), r')
              | other \<Rightarrow> (sent secured other, r')))"

definition check_ip_warning :: "bool \<Rightarrow> int \<Rightarrow> redis \<Rightarrow> bool" where
  "check_ip_warning up now r \<longleftrightarrow> up \<and> kv_exists now r IP_WARNING_KEY"

definition clear_ip_warning :: "bool \<Rightarrow> redis \<Rightarrow> redis" where
  "clear_ip_warning up r = (if up then kv_del r IP_WARNING_KEY else r)"

definition csrf_cookie :: "settings \<Rightarrow> bool \<Rightarrow> string \<Rightarrow> string" where
  "csrf_cookie cfg is_onion token =
     ''ow_csrf='' @ token @ ''; Path=/; SameSite=Lax; HttpOnly'' @
     (if cfg_secure_cookies cfg \<and> \<not> is_onion then ''; Secure'' else [])"

text \<open>\<open>cookie_of\<close>: the value of \<open>ow_csrf\<close> in a Cookie header.\<close>

definition csrf_middleware ::
  "settings \<Rightarrow> (string \<Rightarrow> string option) \<Rightarrow> string \<Rightarrow> (scope \<Rightarrow> outcome) \<Rightarrow> scope \<Rightarrow> outcome" where
  "csrf_middleware cfg cookie_of fresh app s =
     (if sc_type s \<noteq> Http then app s
      else (let token = (case cookie_of (raw_header ''cookie'' (sc_headers s)) of
                           None \<Rightarrow> fresh | Some t \<Rightarrow> if t = [] then fresh else t);
                cookie = csrf_cookie cfg (is_onion_request cfg (sc_headers s)) token
            in sent (\<lambda>a. a\<lparr>an_cookies := an_cookies a @ [cookie]\<rparr>) (app (s\<lparr>sc_csrf := token\<rparr>))))"

definition MAX_BODY :: int where "MAX_BODY = 55 * 1024 * 1024"

definition spool_capacity :: "int \<Rightarrow> int" where "spool_capacity disk = disk * 9 div 10"

definition multipart :: "scope \<Rightarrow> bool" where
  "multipart s \<longleftrightarrow> sc_type s = Http \<and>
     starts_with ''multipart/form-data''
       (lower (case map_of (rev (sc_headers s)) ''content-type'' of None \<Rightarrow> [] | Some v \<Rightarrow> v))"

text \<open>\<open>int\<close> of the Content-Length header; \<open>None\<close>: not a number, or no such header.\<close>

definition body_size :: "int option \<Rightarrow> int" where
  "body_size content_length = (case content_length of None \<Rightarrow> MAX_BODY | Some n \<Rightarrow> min n MAX_BODY)"

definition admitted :: "int \<Rightarrow> int \<Rightarrow> int option \<Rightarrow> bool" where
  "admitted disk reserved content_length \<longleftrightarrow> reserved + body_size content_length \<le> spool_capacity disk"

definition budget_middleware ::
  "int \<Rightarrow> (scope \<Rightarrow> outcome) \<Rightarrow> (scope \<Rightarrow> outcome) \<Rightarrow> int \<Rightarrow> int option \<Rightarrow> scope \<Rightarrow> outcome" where
  "budget_middleware disk busy_page app reserved content_length s =
     (if multipart s \<and> \<not> admitted disk reserved content_length then busy_page s else app s)"

text \<open>The order of \<open>create_app\<close>: the addresses go first, then the token, then the budget.\<close>

definition served ::
  "settings \<Rightarrow> bool \<Rightarrow> string \<Rightarrow> (string \<Rightarrow> string option) \<Rightarrow> string \<Rightarrow> int \<Rightarrow> (scope \<Rightarrow> outcome) \<Rightarrow> (scope \<Rightarrow> outcome)
     \<Rightarrow> int \<Rightarrow> int option \<Rightarrow> redis \<Rightarrow> scope \<Rightarrow> outcome \<times> redis" where
  "served cfg up nonce cookie_of fresh disk busy_page app reserved content_length r s =
     security_middleware cfg up nonce
       (csrf_middleware cfg cookie_of fresh (budget_middleware disk busy_page app reserved content_length)) r s"

text \<open>
  Uploads in flight: each holds its share of the spool from its admission to its end, however it ends.
\<close>

record spool =
  sp_reserved :: int
  sp_running :: "int list"

inductive spool_step :: "int \<Rightarrow> spool \<Rightarrow> spool \<Rightarrow> bool" for disk where
  upload: "admitted disk (sp_reserved p) n \<Longrightarrow> (case n of None \<Rightarrow> True | Some k \<Rightarrow> 0 \<le> k) \<Longrightarrow>
    spool_step disk p (p\<lparr>sp_reserved := sp_reserved p + body_size n, sp_running := body_size n # sp_running p\<rparr>)"
| finished: "k \<in> set (sp_running p) \<Longrightarrow>
    spool_step disk p (p\<lparr>sp_reserved := sp_reserved p - k, sp_running := remove1 k (sp_running p)\<rparr>)"

section \<open>What they guarantee\<close>

lemma without_address_no_reveals: "h \<in> set (without_address hs) \<Longrightarrow> \<not> reveals h"
  by (simp add: without_address_def)

lemma without_address_id: "\<not> list_ex reveals hs \<Longrightarrow> without_address hs = hs"
  by (simp add: without_address_def list_ex_iff)

lemma raw_header_without:
  assumes "lower name \<notin> set IP_REVEAL_HEADERS"
  shows "raw_header name (without_address hs) = raw_header name hs"
proof -
  have "find (\<lambda>h. lower (fst h) = lower name) (filter (\<lambda>h. \<not> reveals h) hs) = find (\<lambda>h. lower (fst h) = lower name) hs"
    using assms by (induction hs) (auto simp: reveals_def)
  then show ?thesis by (simp add: raw_header_def without_address_def)
qed

lemma onion_header_kept: "is_onion_request cfg (without_address hs) = is_onion_request cfg hs"
proof -
  have "lower ''x-ow-onion'' \<notin> set IP_REVEAL_HEADERS" by code_simp
  then show ?thesis by (simp add: is_onion_request_def raw_header_without)
qed

lemma headers_passed: "(if list_ex reveals hs then without_address hs else hs) = without_address hs"
  by (simp add: without_address_id)

text \<open>A scope as the program below the first middleware sees it.\<close>

definition addressless :: "scope \<Rightarrow> bool" where
  "addressless s \<longleftrightarrow> sc_client s = None \<and> \<not> list_ex reveals (sc_headers s)"

lemma sent_cong_app:
  assumes "\<And>s. addressless s \<Longrightarrow> app' s = app s" "\<And>s. addressless s \<Longrightarrow> page' s = page s" "addressless s"
  shows "csrf_middleware cfg cookie_of fresh (budget_middleware disk page' app' reserved n) s =
    csrf_middleware cfg cookie_of fresh (budget_middleware disk page app reserved n) s"
  using assms(3) assms(1,2) [of s] assms(1,2) [of "s\<lparr>sc_csrf := t\<rparr>" for t]
  by (simp add: csrf_middleware_def budget_middleware_def addressless_def Let_def)


text \<open>What a browser and the visitor's privacy rely on, whatever the handler set.\<close>

definition protected :: "settings \<Rightarrow> string \<Rightarrow> scope \<Rightarrow> answer \<Rightarrow> bool" where
  "protected cfg nonce s a \<longleftrightarrow>
     (let h = an_headers a; onion = is_onion_request cfg (sc_headers s) in
      h ''content-security-policy'' = Some (build_csp nonce) \<and> h ''x-content-type-options'' = Some ''nosniff'' \<and>
      h ''x-frame-options'' = Some ''DENY'' \<and> h ''referrer-policy'' = Some ''no-referrer'' \<and>
      h ''server'' = None \<and> h ''x-powered-by'' = None \<and>
      (\<not> onion \<and> cfg_secure_cookies cfg \<longrightarrow> h ''strict-transport-security'' = Some HSTS) \<and>
      (if starts_with ''/static/'' (sc_path s) then h ''cache-control'' = Some ''no-cache''
       else if starts_with ''/branding/'' (sc_path s) \<and> an_status a = 200 then h ''cache-control'' \<noteq> None
       else h ''cache-control'' = Some ''no-store''))"

lemma protectedI:
  assumes "h1 = (put_headers STATIC_SECURITY_HEADERS h0)(''content-security-policy'' \<mapsto> build_csp nonce)"
    and "h2 = (if \<not> onion \<and> cfg_secure_cookies cfg then h1(''strict-transport-security'' \<mapsto> HSTS) else h1)"
    and "h3 = (if c then h2(''onion-location'' \<mapsto> l) else h2)"
    and "h4 = (if x then h3(''cache-control'' \<mapsto> ''no-cache'') else if \<not> y then h3(''cache-control'' \<mapsto> ''no-store'') else h3)"
    and "h = h4(''server'' := None, ''x-powered-by'' := None)"
  shows "h ''content-security-policy'' = Some (build_csp nonce)" "h ''x-content-type-options'' = Some ''nosniff''"
    "h ''x-frame-options'' = Some ''DENY''" "h ''referrer-policy'' = Some ''no-referrer''"
    "h ''server'' = None" "h ''x-powered-by'' = None"
    "\<not> onion \<and> cfg_secure_cookies cfg \<Longrightarrow> h ''strict-transport-security'' = Some HSTS"
    "h ''cache-control'' = (if x then Some ''no-cache'' else if \<not> y then Some ''no-store'' else h3 ''cache-control'')"
  by (simp_all add: assms STATIC_SECURITY_HEADERS_def)

lemma secure_answer_headers:
  "an_headers (secure_answer cfg nonce onion path a) = secure_headers cfg nonce onion path (an_status a) (an_headers a)"
  by (simp add: secure_answer_def)

lemma secure_answer_protected:
  "protected cfg nonce s (secure_answer cfg nonce (is_onion_request cfg (sc_headers s)) (sc_path s) a)"
proof -
  let ?onion = "is_onion_request cfg (sc_headers s)" and ?p = "sc_path s"
  define h1 where "h1 = (put_headers STATIC_SECURITY_HEADERS (an_headers a))(''content-security-policy'' \<mapsto> build_csp nonce)"
  define h2 where "h2 = (if \<not> ?onion \<and> cfg_secure_cookies cfg then h1(''strict-transport-security'' \<mapsto> HSTS) else h1)"
  define c where "c \<longleftrightarrow> cfg_onion_location cfg \<noteq> [] \<and> \<not> ?onion \<and>
    starts_with ''text/html'' (lower (case h2 ''content-type'' of None \<Rightarrow> [] | Some v \<Rightarrow> v))"
  define h3 where "h3 = (if c then h2(''onion-location'' \<mapsto> rstrip_slash (cfg_onion_location cfg) @ ?p) else h2)"
  define y where "y \<longleftrightarrow> starts_with ''/branding/'' ?p \<and> an_status a = 200 \<and> h3 ''cache-control'' \<noteq> None"
  define h4 where "h4 = (if starts_with ''/static/'' ?p then h3(''cache-control'' \<mapsto> ''no-cache'')
    else if \<not> y then h3(''cache-control'' \<mapsto> ''no-store'') else h3)"
  have h: "an_headers (secure_answer cfg nonce ?onion ?p a) = h4(''server'' := None, ''x-powered-by'' := None)"
    unfolding secure_answer_headers secure_headers_def Let_def h4_def y_def h3_def c_def h2_def h1_def by (rule refl)
  note at = protectedI [OF h1_def h2_def h3_def h4_def h]
  show ?thesis
    unfolding protected_def Let_def at(8) by (intro conjI impI at(1-7)) (auto simp: y_def secure_answer_def)
qed

text \<open>
  Every answer to an HTTP request carries the security headers, also the one to an unhandled error
  (which the program answers itself, so that no answer goes out bare), and none names the server.
\<close>

theorem every_answer_protected:
  assumes "sc_type s = Http"
    and "served cfg up nonce cookie_of fresh disk page app reserved n r s = (x, r')"
  shows "\<exists>a. (x = Answered a \<or> x = Cut_off a) \<and> protected cfg nonce s a"
  using assms
  by (auto simp: served_def security_middleware_def Let_def secure_answer_protected split: outcome.splits)

section \<open>The spool\<close>

definition spool_inv :: "int \<Rightarrow> spool \<Rightarrow> bool" where
  "spool_inv disk p \<longleftrightarrow>
     sp_reserved p = sum_list (sp_running p) \<and> sp_reserved p \<le> max 0 (spool_capacity disk) \<and>
     list_all (\<lambda>k. 0 \<le> k \<and> k \<le> MAX_BODY) (sp_running p)"

lemma sum_list_remove1: "k \<in> set ks \<Longrightarrow> sum_list (remove1 k ks) = sum_list ks - (k :: int)"
  by (induction ks) auto

interpretation spool: invariant_system "\<lambda>p. p = \<lparr>sp_reserved = 0, sp_running = []\<rparr>" "spool_step disk" "spool_inv disk" for disk
proof
  show "spool_inv disk p" if "p = \<lparr>sp_reserved = 0, sp_running = []\<rparr>" for p
    using that by (simp add: spool_inv_def)
  show "spool_inv disk q" if "spool_inv disk p" "spool_step disk p q" for p q
    using that(2)
  proof cases
    case (upload n)
    have "0 \<le> body_size n \<and> body_size n \<le> MAX_BODY"
      using upload(3) by (simp add: body_size_def MAX_BODY_def split: option.splits)
    with upload that(1) show ?thesis by (auto simp: spool_inv_def admitted_def)
  next
    case (finished k)
    have "0 \<le> k" using finished(2) that(1) by (auto simp: spool_inv_def list_all_iff)
    moreover have "list_all P (remove1 k ks)" if "list_all P ks" for P :: "int \<Rightarrow> bool" and ks
      using that notin_set_remove1 by (fastforce simp: list_all_iff)
    ultimately show ?thesis
      using finished that(1) by (simp add: spool_inv_def sum_list_remove1)
  qed
qed

text \<open>
  However uploads arrive and end, the sizes of those in flight never exceed nine tenths of the disk
  behind \<open>/tmp\<close>, and the count of what is reserved is exactly their sum: once all have ended,
  however they ended, the whole budget is free again.
\<close>

theorem spool_never_overcommitted:
  assumes "reachable (\<lambda>p. p = \<lparr>sp_reserved = 0, sp_running = []\<rparr>) (spool_step disk) p" "0 \<le> disk"
  shows "sum_list (sp_running p) \<le> spool_capacity disk \<and> sp_reserved p = sum_list (sp_running p) \<and>
    (\<forall>k \<in> set (sp_running p). k \<le> 55 * 1024 * 1024) \<and>
    (sp_running p = [] \<longrightarrow> sp_reserved p = 0)"
proof -
  have "0 \<le> spool_capacity disk" using assms(2) by (simp add: spool_capacity_def)
  then show ?thesis
    using spool.inv_reachable [OF assms(1)] by (auto simp: spool_inv_def list_all_iff MAX_BODY_def)
qed

section \<open>Examples\<close>

definition visit :: "string \<Rightarrow> scope" where
  "visit address = \<lparr>sc_type = Http, sc_headers = [(''X-Forwarded-For'', address), (''host'', ''h'')], sc_client = Some address,
     sc_path = ''/submit'', sc_nonce = None, sc_onion = False, sc_ip_seen = False, sc_csrf = []\<rparr>"

definition telltale :: "scope \<Rightarrow> outcome" where
  "telltale s = (if addressless s then Answered (server_error\<lparr>an_status := 200\<rparr>)
                 else Answered (server_error\<lparr>an_body := sc_path s\<rparr>))"


theorem every_answer_protected_witness:
  "\<exists>a. fst (served sample_settings True ''n'' (\<lambda>_. None) ''t'' 1000 (\<lambda>_. Raised) (\<lambda>_. Raised) 0 None [] (visit ''1''))
       = Cut_off a \<and> protected sample_settings ''n'' (visit ''1'') a"
proof -
  have t: "sc_type (visit ''1'') = Http" by (simp add: visit_def)
  obtain x r where x: "served sample_settings True ''n'' (\<lambda>_. None) ''t'' 1000 (\<lambda>_. Raised) (\<lambda>_. Raised) 0 None [] (visit ''1'') = (x, r)"
    by (metis surj_pair)
  have "x \<noteq> Answered a" for a
    using x by (auto simp: served_def security_middleware_def csrf_middleware_def budget_middleware_def visit_def passed_on_def Let_def)
  then show ?thesis using every_answer_protected [OF t x] x by auto
qed

theorem spool_never_overcommitted_witness:
  "reachable (\<lambda>p. p = \<lparr>sp_reserved = 0, sp_running = []\<rparr>) (spool_step 1000) \<lparr>sp_reserved = 600, sp_running = [600]\<rparr> \<and>
   sum_list (sp_running \<lparr>sp_reserved = 600, sp_running = [600]\<rparr>) \<le> spool_capacity 1000 \<and>
   \<not> admitted 1000 600 (Some 301)"
proof -
  let ?init = "\<lparr>sp_reserved = 0, sp_running = []\<rparr>"
  have "spool_step 1000 ?init (?init\<lparr>sp_reserved := sp_reserved ?init + body_size (Some 600),
      sp_running := body_size (Some 600) # sp_running ?init\<rparr>)"
    by (rule spool_step.upload) (simp_all add: admitted_def body_size_def MAX_BODY_def spool_capacity_def)
  then have "spool_step 1000 ?init \<lparr>sp_reserved = 600, sp_running = [600]\<rparr>"
    by (simp add: body_size_def MAX_BODY_def)
  then have r: "reachable (\<lambda>p. p = \<lparr>sp_reserved = 0, sp_running = []\<rparr>) (spool_step 1000) \<lparr>sp_reserved = 600, sp_running = [600]\<rparr>"
    by (intro reachable.step [OF reachable.start]) simp_all
  then show ?thesis using spool_never_overcommitted [OF r] by (simp add: admitted_def body_size_def MAX_BODY_def spool_capacity_def)
qed

end
