(* ===== verification/Sign_In.thy ===== *)
theory Sign_In
  imports Single_Sign_On Middleware Report_Service
begin

text \<open>
  Signing in (\<open>app/api/auth.py\<close>): the first factor (password, directory, identity provider), the second
  (a code, or enrolling an authenticator), sessions and their refresh, linking an identity, the own
  password. A handler takes the request's scope where it reads it, the store and the database, and
  returns the page with both; the QR code is not modelled, nor the mail of the spraying alarm. A token
  and the audit entries of a request are its draws 0 and 1, 2.
\<close>

section \<open>Pages\<close>

text \<open>What the sign-in form offers: the identity provider, the directory's hint, the review button.\<close>

type_synonym offers = "bool \<times> bool \<times> bool"

datatype sign_in_page =
    Login_form nat "string option" "(string \<times> string) list" offers
  | Code_form nat "string option" "string option"
  | To_enrol string
  | Enrol_form string string string "string option"
  | To_login
  | Landed string string

type_synonym gate = "redis \<times> db"

definition PROXY_HEADERS :: "string list" where
  "PROXY_HEADERS = IP_REVEAL_HEADERS @ [''x-forwarded-proto'', ''via'']"

definition LOOPBACK_HOSTNAMES :: "string list" where
  "LOOPBACK_HOSTNAMES = [''localhost'', ''127.0.0.1'', ''::1'']"

text \<open>\<open>hostname\<close>: the host of a URL without a scheme, \<open>None\<close> where there is none or it does not parse.\<close>

definition local_review_reachable :: "(string \<Rightarrow> string option) \<Rightarrow> scope \<Rightarrow> bool" where
  "local_review_reachable hostname s \<longleftrightarrow>
     (if sc_ip_seen s then False
      else if list_ex (\<lambda>h. lower (fst h) \<in> set PROXY_HEADERS) (sc_headers s) then False
      else (case hostname (''//'' @ raw_header ''host'' (sc_headers s)) of
              None \<Rightarrow> False | Some h \<Rightarrow> lower h \<in> set LOOPBACK_HOSTNAMES))"

definition login_ctx :: "settings \<Rightarrow> (string \<Rightarrow> string option) \<Rightarrow> scope \<Rightarrow> offers" where
  "login_ctx cfg hostname s =
     (cfg_oidc_enabled cfg, cfg_ldap_enabled cfg, cfg_local_review_login cfg \<and> local_review_reachable hostname s)"

definition login_get :: "settings \<Rightarrow> (string \<Rightarrow> string option) \<Rightarrow> scope \<Rightarrow> sign_in_page" where
  "login_get cfg hostname s = Login_form 200 None [] (login_ctx cfg hostname s)"

section \<open>From the first factor to a session\<close>

definition second_factor :: "env \<Rightarrow> (string \<Rightarrow> string option) \<Rightarrow> scope \<Rightarrow> user \<Rightarrow> redis \<Rightarrow> sign_in_page \<times> redis" where
  "second_factor e hostname s u r =
     (if \<not> usr_active u
      then (Login_form 401 (Some ''login.error.deactivated'') [] (login_ctx (env_cfg e) hostname s), r)
      else if \<not> usr_totp_enabled u
      then (To_enrol (env_token e 0), store_totp_setup_pending e r (env_token e 0) (usr_id u))
      else (Code_form 200 (Some (env_token e 0)) None, store_totp_pending e r (env_token e 0) (usr_id u)))"

definition password_failed :: "env \<Rightarrow> gate \<Rightarrow> gate" where
  "password_failed e g =
     (let (alarm, r) = record_instance_login_failure (env_cfg e) (millis e) (fst g)
      in (r, if \<not> alarm then snd g
             else log_system e 1 ''auth.password_spraying_suspected''
                    [(''failed_attempts_at_least'', string_of_int (cfg_spray_threshold (env_cfg e))),
                     (''window_minutes'', string_of_int (cfg_spray_window_minutes (env_cfg e)))] None (snd g)))"

text \<open>The only place a sign-in becomes a session.\<close>

definition start_session :: "env \<Rightarrow> nat \<Rightarrow> string \<Rightarrow> user \<Rightarrow> gate \<Rightarrow> sign_in_page \<times> gate" where
  "start_session e n action u g =
     (if \<not> usr_active u then (To_login, g)
      else (let token = create_access_token e 0 (usr_id u) (usr_role u) None;
                d' = audit_log e n u action None [] None
                       (set_user (usr_id u) (\<lambda>x. x\<lparr>usr_last_login_at := Some (env_now e)\<rparr>) (snd g));
                landing = (if usr_must_change u then ''/admin/account'' else ''/admin/dashboard'')
            in (Landed landing token, store_session e (fst g) (usr_id u) token, d')))"

definition invalid_login :: "env \<Rightarrow> (string \<Rightarrow> string option) \<Rightarrow> scope \<Rightarrow> gate \<Rightarrow> sign_in_page \<times> gate" where
  "invalid_login e hostname s g =
     (Login_form 401 (Some ''login.error.invalid'') [] (login_ctx (env_cfg e) hostname s), password_failed e g)"

section \<open>The password form\<close>

definition ldap_user :: "env \<Rightarrow> string \<Rightarrow> db \<Rightarrow> user" where
  "ldap_user e name d =
     \<lparr>usr_id = env_id e 0, usr_username = name, usr_password_hash = None, usr_totp_secret = env_token e 1,
      usr_totp_enabled = False, usr_role = Case_manager, usr_active = True, usr_must_change = False,
      usr_oidc_sub = None, usr_oidc_issuer = None, usr_ldap = Some name, usr_org = default_org_id (env_cfg e) d,
      usr_created_by = None, usr_created_at = env_now e, usr_last_login_at = None, usr_asked_version = None\<rparr>"

text \<open>The account of a directory name, made on its first sign-in; never a local account of the same name.\<close>

definition provision :: "env \<Rightarrow> string \<Rightarrow> db \<Rightarrow> (user \<times> db) option" where
  "provision e name d =
     (case find (\<lambda>u. usr_ldap u = Some name) (db_users d) of
        Some u \<Rightarrow> Some (u, d)
      | None \<Rightarrow>
          (if list_ex (\<lambda>u. lower (usr_username u) = lower name) (db_users d) then None
           else (let u = ldap_user e name d
                 in Some (u, log_system e 1 ''admin.created''
                          [(''username'', name), (''role'', ''case_manager''), (''via'', ''ldap'')] (usr_org u)
                          (d\<lparr>db_users := db_users d @ [u]\<rparr>)))))"

definition local_password :: "env \<Rightarrow> string \<Rightarrow> string \<Rightarrow> db \<Rightarrow> user option" where
  "local_password e username password d =
     (case get_user_by_username d username of
        None \<Rightarrow> None
      | Some u \<Rightarrow>
          (case usr_password_hash u of
             None \<Rightarrow> None
           | Some h \<Rightarrow> if h \<noteq> [] \<and> verify_password (env_crypto e) password h then Some u else None))"

definition missing_fields :: "string \<Rightarrow> string \<Rightarrow> (string \<times> string) list" where
  "missing_fields username password =
     (if strip username = [] then [(''username'', ''login.error.username_required'')] else []) @
     (if password = [] then [(''password'', ''login.error.password_required'')] else [])"

definition login_post ::
  "env \<Rightarrow> (string \<Rightarrow> string option) \<Rightarrow> scope \<Rightarrow> directory \<Rightarrow> string \<Rightarrow> string \<Rightarrow> gate \<Rightarrow> sign_in_page \<times> gate" where
  "login_post e hostname s dy username password g =
     (let ctx = login_ctx (env_cfg e) hostname s; (r, d) = g in
      if missing_fields username password \<noteq> []
      then (Login_form 400 (Some ''login.error.required'') (missing_fields username password) ctx, g)
      else (case claim_admin_attempt (env_cfg e) (millis e) r username of
              (False, r1) \<Rightarrow> (Login_form 429 (Some ''login.error.locked'') [] ctx, r1, d)
            | (True, r1) \<Rightarrow>
                (case (if cfg_ldap_enabled (env_cfg e) then authenticate_ldap (env_cfg e) dy username password else None) of
                   Some name \<Rightarrow>
                     (case provision e name d of
                        None \<Rightarrow> invalid_login e hostname s (r1, d)
                      | Some (u, d1) \<Rightarrow>
                          (let (page, r2) = second_factor e hostname s u (release_admin_attempt (millis e) r1 username)
                           in (page, r2, d1)))
                 | None \<Rightarrow>
                     (case local_password e username password d of
                        None \<Rightarrow> invalid_login e hostname s (r1, d)
                      | Some u \<Rightarrow>
                          (let (page, r2) = second_factor e hostname s u (release_admin_attempt (millis e) r1 username)
                           in (page, r2, d))))))"

section \<open>The review button\<close>

definition local_review_login ::
  "env \<Rightarrow> (string \<Rightarrow> string option) \<Rightarrow> scope \<Rightarrow> string \<Rightarrow> string option \<Rightarrow> string option \<Rightarrow> gate \<Rightarrow> refusal + sign_in_page \<times> gate" where
  "local_review_login e hostname s meth csrf cookie g =
     (if meth \<noteq> ''POST'' \<or> \<not> cfg_local_review_login (env_cfg e) \<or> \<not> local_review_reachable hostname s
      then Inl (Status 404)
      else on_ok (validate_csrf csrf cookie) (\<lambda>_.
             case get_user_by_username (snd g) ''demo'' of
               None \<Rightarrow> Inl (Status 404)
             | Some u \<Rightarrow> Inr (start_session e 1 ''auth.local_review_login'' u g)))"

section \<open>The second factor\<close>

text \<open>A code opens one session, save the demo accounts' static one.\<close>

definition accept_code :: "env \<Rightarrow> redis \<Rightarrow> user \<Rightarrow> string \<Rightarrow> bool \<times> redis" where
  "accept_code e r u code =
     (if cfg_demo_mode (env_cfg e) \<and> verify_demo_totp code (usr_username u) (usr_totp_secret u) then (True, r)
      else consume_totp e r (usr_id u) (usr_totp_secret u) code)"

definition login_mfa_post :: "env \<Rightarrow> string \<Rightarrow> string \<Rightarrow> gate \<Rightarrow> sign_in_page \<times> gate" where
  "login_mfa_post e totp_code temp_token g =
     (let (r, d) = g in
      case consume_totp_pending e r temp_token of
        (None, r1) \<Rightarrow> (To_login, r1, d)
      | (Some uid, r1) \<Rightarrow>
          (case get_user_by_id d uid of
             None \<Rightarrow> (To_login, r1, d)
           | Some u \<Rightarrow>
               (case claim_admin_attempt (env_cfg e) (millis e) r1 (usr_username u) of
                  (False, r2) \<Rightarrow> (Code_form 429 None (Some ''login.error.locked''), r2, d)
                | (True, r2) \<Rightarrow>
                    (case accept_code e r2 u totp_code of
                       (False, r3) \<Rightarrow>
                         (Code_form 200 (Some (env_token e 0)) (Some ''mfa.error.invalid''),
                          store_totp_pending e r3 (env_token e 0) uid, d)
                     | (True, r3) \<Rightarrow>
                         start_session e 1 ''auth.login'' u (reset_admin_login_attempts r3 (usr_username u), d)))))"

definition enrolling :: "db \<Rightarrow> uuid option \<Rightarrow> user option" where
  "enrolling d uid =
     (case Option.bind uid (get_user_by_id d) of
        None \<Rightarrow> None | Some u \<Rightarrow> if \<not> usr_active u \<or> usr_totp_enabled u then None else Some u)"

definition mfa_setup_get :: "env \<Rightarrow> string option \<Rightarrow> gate \<Rightarrow> sign_in_page" where
  "mfa_setup_get e cookie g =
     (case cookie of
        None \<Rightarrow> To_login
      | Some token \<Rightarrow>
          (if token = [] then To_login
           else (case enrolling (snd g) (peek_totp_setup_pending e (fst g) token) of
                   None \<Rightarrow> To_login
                 | Some u \<Rightarrow> Enrol_form token (usr_totp_secret u) (usr_username u) None)))"

definition mfa_setup_post :: "env \<Rightarrow> string \<Rightarrow> string \<Rightarrow> gate \<Rightarrow> sign_in_page \<times> gate" where
  "mfa_setup_post e totp_code temp_token g =
     (let (r, d) = g; (uid, r1) = consume_totp_setup_pending e r temp_token in
      case enrolling d uid of
        None \<Rightarrow> (To_login, r1, d)
      | Some u \<Rightarrow>
          (case consume_totp e r1 (usr_id u) (usr_totp_secret u) totp_code of
             (False, r2) \<Rightarrow>
               (Enrol_form (env_token e 0) (usr_totp_secret u) (usr_username u) (Some ''mfa.setup.error.invalid''),
                store_totp_setup_pending e r2 (env_token e 0) (usr_id u), d)
           | (True, r2) \<Rightarrow>
               start_session e 2 ''auth.login'' (u\<lparr>usr_totp_enabled := True\<rparr>)
                 (r2, audit_log e 1 u ''auth.totp_setup'' None [] None
                        (set_user (usr_id u) (\<lambda>x. x\<lparr>usr_totp_enabled := True\<rparr>) d))))"

section \<open>Sessions\<close>

definition logout :: "env \<Rightarrow> string option \<Rightarrow> redis \<Rightarrow> redis" where
  "logout e session_token r =
     (case session_token of None \<Rightarrow> r | Some t \<Rightarrow> if t = [] then r else snd (revoke_session e r t))"

definition session_ttl :: "env \<Rightarrow> gate \<Rightarrow> string option \<Rightarrow> refusal + int \<times> int" where
  "session_ttl e g session_token =
     on_ok (get_signed_in_admin e (fst g) (snd g) session_token)
       (\<lambda>(_, claims). Inr (if clm_exp claims \<noteq> 0 then max 0 (clm_exp claims - seconds e) else 0, clm_exp claims))"

text \<open>The new session first, then the old one: if that one is gone, it was revoked meanwhile.\<close>

definition session_refresh ::
  "env \<Rightarrow> gate \<Rightarrow> string option \<Rightarrow> string option \<Rightarrow> string option \<Rightarrow> (refusal + string) \<times> redis" where
  "session_refresh e g session_token csrf cookie =
     (let r = fst g in
      case get_signed_in_admin e r (snd g) session_token of
        Inl x \<Rightarrow> (Inl x, r)
      | Inr (u, claims) \<Rightarrow>
          (if \<not> same_token csrf cookie then (Inl (Status 403), r)
           else (let started = session_started_at claims in
                 if started = 0 then (Inl (Status 401), r)
                 else (let token = create_access_token e 0 (usr_id u) (usr_role u) (Some started);
                           r1 = store_session e r (usr_id u) token
                       in case session_token of
                            None \<Rightarrow> (Inl (Status 401), snd (revoke_session e r1 token))
                          | Some old \<Rightarrow>
                              (case revoke_session e r1 old of
                                 (True, r2) \<Rightarrow> (Inr token, r2)
                               | (False, r2) \<Rightarrow> (Inl (Status 401), snd (revoke_session e r2 token)))))))"

section \<open>An identity provider\<close>

text \<open>The start of a sign-in there: the address, and the cookie that binds the state to the browser.\<close>

definition oidc_authorize ::
  "env \<Rightarrow> provider \<Rightarrow> redis \<Rightarrow> (refusal + (string \<times> string \<times> string) \<times> string) \<times> redis" where
  "oidc_authorize e pv r =
     (if \<not> cfg_oidc_enabled (env_cfg e) then (Inl (Status 404), r)
      else (case create_authorization_url e pv PURPOSE_LOGIN (browser_binding pv (env_token e 3)) r of
              (None, r1) \<Rightarrow> (Inl (Status 500), r1)
            | (Some url, r1) \<Rightarrow> (Inr (url, env_token e 3), r1)))"

definition sso_failed :: "string \<Rightarrow> sign_in_page" where
  "sso_failed x = Login_form 200 (Some (''login.error.'' @ x)) [] (True, False, False)"

definition sso_result :: "string \<Rightarrow> string" where
  "sso_result x = ''/admin/account?sso='' @ x"

datatype callback = Sign_in_page sign_in_page | To_account string

definition given_text :: "string option \<Rightarrow> string" where
  "given_text x = (case x of None \<Rightarrow> [] | Some v \<Rightarrow> v)"

text \<open>Linking: the identity goes to the account of the live session, unless another account has it.\<close>

definition oidc_link_callback ::
  "env \<Rightarrow> (string \<Rightarrow> string option) \<Rightarrow> scope \<Rightarrow> provider \<Rightarrow> string option \<Rightarrow> string \<Rightarrow> string option \<Rightarrow> string option \<Rightarrow> gate
     \<Rightarrow> (refusal + callback) \<times> gate" where
  "oidc_link_callback e hostname s pv code state failure session_token g =
     (let (r, d) = g in
      case get_current_admin e r d session_token of
        Inl Change_password \<Rightarrow> (Inl Change_password, g)
      | Inl _ \<Rightarrow>
          (Inr (Sign_in_page (Login_form 401 (Some ''login.error.sso_link_session'') [] (login_ctx (env_cfg e) hostname s))), g)
      | Inr u \<Rightarrow>
          (if given_text failure \<noteq> [] \<or> given_text code = [] then (Inr (To_account (sso_result ''failed'')), g)
           else (case exchange_code e pv (given_text code) state PURPOSE_LINK
                        (session_binding pv (usr_id u) (given_text session_token)) r of
                   (Identified c, r1) \<Rightarrow>
                     (if ic_sub c = [] \<or> ic_iss c = [] then (Inr (To_account (sso_result ''failed'')), r1, d)
                      else if list_ex (\<lambda>x. usr_id x \<noteq> usr_id u \<and> usr_oidc_sub x = Some (ic_sub c)) (db_users d)
                      then (Inr (To_account (sso_result ''taken'')), r1, d)
                      else (Inr (To_account (sso_result ''linked'')), r1,
                            audit_log e 1 u ''auth.sso_linked'' None [(''issuer'', ic_iss c)] None
                              (set_user (usr_id u)
                                (\<lambda>x. x\<lparr>usr_oidc_sub := Some (ic_sub c), usr_oidc_issuer := Some (ic_iss c)\<rparr>) d)))
                 | (_, r1) \<Rightarrow> (Inr (To_account (sso_result ''failed'')), r1, d))))"

definition oidc_callback ::
  "env \<Rightarrow> (string \<Rightarrow> string option) \<Rightarrow> scope \<Rightarrow> provider \<Rightarrow> string option \<Rightarrow> string option \<Rightarrow> string option
     \<Rightarrow> string option \<Rightarrow> string option \<Rightarrow> gate \<Rightarrow> (refusal + callback) \<times> gate" where
  "oidc_callback e hostname s pv code state failure browser session_token g =
     (if \<not> cfg_oidc_enabled (env_cfg e) then (Inl (Status 404), g)
      else if starts_with LINK_STATE_PREFIX (given_text state)
      then oidc_link_callback e hostname s pv code (given_text state) failure session_token g
      else if given_text failure \<noteq> [] \<or> given_text code = [] \<or> given_text state = []
      then (Inr (Sign_in_page (sso_failed ''sso_failed'')), g)
      else (let binding = (if given_text browser = [] then [] else browser_binding pv (given_text browser));
                (r, d) = g
            in case exchange_code e pv (given_text code) (given_text state) PURPOSE_LOGIN binding r of
                 (Broken, r1) \<Rightarrow> (Inr (Sign_in_page (sso_failed ''sso_failed'')), r1, d)
               | (Refused, r1) \<Rightarrow> (Inr (Sign_in_page (sso_failed ''sso_expired'')), r1, d)
               | (Identified c, r1) \<Rightarrow>
                   (if ic_sub c = [] \<or> ic_iss c = []
                    then (Inr (Sign_in_page (sso_failed ''sso_identity'')), r1, d)
                    else (case get_user_by_oidc_sub d (ic_sub c) (ic_iss c) of
                            None \<Rightarrow> (Inr (Sign_in_page (sso_failed ''sso_unlinked'')), r1, d)
                          | Some u \<Rightarrow>
                              (let (page, r2) = second_factor e hostname s u r1 in (Inr (Sign_in_page page), r2, d))))))"

definition oidc_link ::
  "env \<Rightarrow> provider \<Rightarrow> string option \<Rightarrow> string option \<Rightarrow> string option \<Rightarrow> gate
     \<Rightarrow> (refusal + (string \<times> string \<times> string)) \<times> redis" where
  "oidc_link e pv session_token csrf cookie g =
     (let r = fst g in
      case on_ok (get_current_admin e r (snd g) session_token) (\<lambda>u. on_ok (validate_csrf csrf cookie) (\<lambda>_. Inr u)) of
        Inl x \<Rightarrow> (Inl x, r)
      | Inr u \<Rightarrow>
          (if \<not> cfg_oidc_enabled (env_cfg e) then (Inl (Status 404), r)
           else (case create_authorization_url e pv PURPOSE_LINK
                        (session_binding pv (usr_id u) (given_text session_token)) r of
                   (None, r1) \<Rightarrow> (Inl (Status 500), r1)
                 | (Some url, r1) \<Rightarrow> (Inr url, r1))))"

definition oidc_unlink :: "env \<Rightarrow> string option \<Rightarrow> string option \<Rightarrow> string option \<Rightarrow> gate \<Rightarrow> refusal + string \<times> db" where
  "oidc_unlink e session_token csrf cookie g =
     on_ok (get_current_admin e (fst g) (snd g) session_token) (\<lambda>u.
     on_ok (validate_csrf csrf cookie) (\<lambda>_.
       if \<not> cfg_oidc_enabled (env_cfg e) then Inl (Status 404)
       else if given_text (usr_oidc_sub u) = [] then Inr (sso_result ''unlinked'', snd g)
       else if given_text (usr_password_hash u) = [] \<and>
               \<not> (given_text (usr_ldap u) \<noteq> [] \<and> cfg_ldap_enabled (env_cfg e))
       then Inr (sso_result ''only_way_in'', snd g)
       else Inr (sso_result ''unlinked'',
              audit_log e 1 u ''auth.sso_unlinked'' None [(''issuer'', given_text (usr_oidc_issuer u))] None
                (set_user (usr_id u) (\<lambda>x. x\<lparr>usr_oidc_sub := None, usr_oidc_issuer := None\<rparr>) (snd g)))))"

section \<open>The own password\<close>

definition demo_account :: "settings \<Rightarrow> user \<Rightarrow> bool" where
  "demo_account cfg u \<longleftrightarrow> cfg_demo_mode cfg \<and> usr_username u \<in> set DEMO_USERNAMES"

definition new_password_error :: "string \<Rightarrow> string \<Rightarrow> string \<Rightarrow> (string \<times> string) option" where
  "new_password_error current new confirm =
     (if current = [] then Some (''current_password'', ''account.password.error.current_required'')
      else if new \<noteq> confirm then Some (''confirm_password'', ''account.password.error.mismatch'')
      else (case validate_password new of
              Inl _ \<Rightarrow> Some (''new_password'', ''account.password.error.policy'')
            | Inr _ \<Rightarrow> (if new = current then Some (''new_password'', ''account.password.error.unchanged'') else None)))"

datatype account_answer = Password_refused nat "string \<times> string" | Password_changed

definition account_password ::
  "env \<Rightarrow> string option \<Rightarrow> string option \<Rightarrow> string option \<Rightarrow> string \<Rightarrow> string \<Rightarrow> string \<Rightarrow> string \<Rightarrow> gate
     \<Rightarrow> (refusal + account_answer) \<times> gate" where
  "account_password e session_token csrf cookie current new confirm totp_code g =
     (let (r, d) = g in
      case on_ok (get_signed_in_admin e r d session_token) (\<lambda>u. on_ok (validate_csrf csrf cookie) (\<lambda>_. Inr (fst u))) of
        Inl x \<Rightarrow> (Inl x, g)
      | Inr u \<Rightarrow>
          (if given_text (usr_password_hash u) = [] then (Inl (Status 404), g)
           else if demo_account (env_cfg e) u then (Inl (Status 403), g)
           else (case new_password_error current new confirm of
                   Some x \<Rightarrow> (Inr (Password_refused 400 x), g)
                 | None \<Rightarrow>
                     (case claim_admin_attempt (env_cfg e) (millis e) r (usr_username u) of
                        (False, r1) \<Rightarrow> (Inr (Password_refused 429 (''current_password'', ''login.error.locked'')), r1, d)
                      | (True, r1) \<Rightarrow>
                          (if \<not> verify_password (env_crypto e) current (given_text (usr_password_hash u))
                           then (Inr (Password_refused 401 (''current_password'', ''account.password.error.current'')), r1, d)
                           else (case consume_totp e r1 (usr_id u) (usr_totp_secret u) totp_code of
                                   (False, r2) \<Rightarrow> (Inr (Password_refused 401 (''totp_code'', ''mfa.error.invalid'')), r2, d)
                                 | (True, r2) \<Rightarrow>
                                     (Inr Password_changed,
                                      snd (revoke_user_sessions e (reset_admin_login_attempts r2 (usr_username u)) (usr_id u) session_token),
                                      audit_log e 1 u ''auth.password_changed'' None
                                        [(''required'', if usr_must_change u then ''true'' else ''false'')] None
                                        (set_user (usr_id u) (\<lambda>x. x\<lparr>usr_password_hash := Some (hash_password (env_crypto e) new),
                                                                     usr_must_change := False\<rparr>) d))))))))"

end
