(* ===== verification/Two_Factors.thy ===== *)
theory Two_Factors
  imports Sign_In
begin

text \<open>
  What signing in guarantees (\<open>app/api/auth.py\<close>, \<open>app/services/auth.py\<close>). The requests of the whole
  instance are a step relation on the store and the database; beside them stands the list of what was
  really proved so far: a first factor, a second factor, a click on the review button. Sessions and the
  tokens of waiting sign-ins are counted against it.
\<close>

section \<open>Tokens in the store\<close>

text \<open>The entries under keys of a kind that name an account.\<close>

definition refs :: "(string \<Rightarrow> bool) \<Rightarrow> uuid \<Rightarrow> redis \<Rightarrow> nat" where
  "refs P uid r = length (filter (\<lambda>(k, x). P k \<and> ent_val x = Ref uid) r)"

definition under :: "string \<Rightarrow> string \<Rightarrow> bool" where "under pre k \<longleftrightarrow> take (length pre) k = pre"

text \<open>Sessions of an account; all its tokens, those of waiting sign-ins included.\<close>

definition sessions :: "uuid \<Rightarrow> redis \<Rightarrow> nat" where "sessions uid r = refs (under SESSION_PREFIX) uid r"

definition tokens :: "uuid \<Rightarrow> redis \<Rightarrow> nat" where
  "tokens uid r = refs (under SESSION_PREFIX) uid r + refs (under TOTP_PENDING_PREFIX) uid r +
     refs (under TOTP_SETUP_PREFIX) uid r"

lemma filter_length_le: "length (filter P (filter Q xs)) \<le> length (filter P xs)"
  by (induction xs) auto

lemma refs_del: "refs P uid (kv_del r k) \<le> refs P uid r"
  by (simp only: refs_def kv_del_def filter_length_le)

lemma refs_del_all: "refs P uid (kv_del_all r ks) \<le> refs P uid r"
  by (simp only: refs_def kv_del_all_def filter_length_le)

lemma refs_put:
  "refs P uid (kv_put r k v t) \<le> refs P uid r + (if P k \<and> v = Ref uid then 1 else 0)"
  using refs_del [of P uid r k] by (simp add: refs_def kv_put_def kv_del_def)

lemma refs_del_found:
  assumes "kv_get now r k = Some (Ref uid)" "P k"
  shows "refs P uid (kv_del r k) + 1 \<le> refs P uid r"
proof -
  from assms(1) obtain x where "map_of r k = Some x" "ent_val x = Ref uid"
    by (auto simp: kv_get_def kv_entry_def split: option.splits if_splits)
  then have "(k, x) \<in> set r" by (simp add: map_of_SomeD)
  then show ?thesis
    using assms(2) \<open>ent_val x = Ref uid\<close>
  proof (induction r)
    case (Cons p r)
    then show ?case using refs_del [of P uid r k] by (cases "p = (k, x)") (auto simp: refs_def kv_del_def)
  qed simp
qed

lemma refs_put_same:
  assumes "kv_get now r k = Some v"
  shows "refs P uid (kv_put r k v t) \<le> refs P uid r"
proof (cases "P k \<and> v = Ref uid")
  case True
  then show ?thesis
    using refs_del_found [of now r k uid P] assms by (simp add: refs_def kv_put_def kv_del_def)
next
  case False
  then show ?thesis using refs_put [of P uid r k v t] by (simp split: if_splits)
qed

named_theorems quiet "store operations that add no token"

lemma refs_add [quiet]: "refs P uid (snd (kv_add now r k n)) \<le> refs P uid r"
  using refs_put [of P uid r k "Num m" t for m t] by (auto simp: kv_add_def Let_def)

lemma refs_expire [quiet]: "refs P uid (kv_expire now r k s) \<le> refs P uid r"
  using refs_put_same by (auto simp: kv_expire_def kv_set_def split: option.splits)

lemma refs_set_text [quiet]: "refs P uid (kv_set now r k (Txt x) s) \<le> refs P uid r"
  using refs_put [of P uid r k "Txt x"] by (simp add: kv_set_def)

lemma refs_setnx_text [quiet]: "refs P uid (snd (kv_setnx now r k (Txt x) s)) \<le> refs P uid r"
  using refs_set_text by (simp add: kv_setnx_def)

lemma refs_getdel [quiet]: "refs P uid (snd (kv_getdel now r k)) \<le> refs P uid r"
  by (simp add: kv_getdel_def refs_del)

lemma refs_count_failure [quiet]: "refs P uid (snd (count_failure now r k s)) \<le> refs P uid r"
  using refs_add [of P uid now r k 1] refs_expire [of P uid now "snd (kv_add now r k 1)" k s]
  by (simp add: count_failure_def case_prod_beta Let_def)

lemma refs_claim_attempt [quiet]: "refs P uid (snd (claim_admin_attempt cfg now r username)) \<le> refs P uid r"
proof -
  let ?k = "admin_key username"
  obtain n r1 where a: "kv_add now r ?k 1 = (n, r1)" by fastforce
  have "refs P uid r1 \<le> refs P uid r" using refs_add [of P uid now r ?k 1] a by simp
  then show ?thesis
    using refs_add [of P uid now r1 ?k "-1"] refs_expire [of P uid now r1 ?k "cfg_login_lockout_minutes cfg * 60"]
    by (simp add: claim_admin_attempt_def claim_def a)
qed

lemma refs_release [quiet]: "refs P uid (release_admin_attempt now r username) \<le> refs P uid r"
  by (simp add: release_admin_attempt_def refs_add)

lemma refs_reset [quiet]: "refs P uid (reset_admin_login_attempts r username) \<le> refs P uid r"
  by (simp add: reset_admin_login_attempts_def refs_del)

lemma refs_failure [quiet]: "refs P uid (snd (record_instance_login_failure cfg now r)) \<le> refs P uid r"
proof -
  let ?r1 = "snd (count_failure now r (spray_key (now div 60000)) ((cfg_spray_window_minutes cfg + 1) * 60))"
  have "refs P uid ?r1 \<le> refs P uid r" by (rule refs_count_failure)
  moreover have "refs P uid (snd (kv_setnx now ?r1 SPRAY_ALERTED (Txt ''1'') s)) \<le> refs P uid ?r1" for s
    by (rule refs_setnx_text)
  ultimately show ?thesis by (auto simp: record_instance_login_failure_def Let_def intro: order_trans)
qed

lemma refs_totp [quiet]: "refs P uid (snd (consume_totp e r i secret code)) \<le> refs P uid r"
  by (simp add: consume_totp_def refs_setnx_text)

lemma refs_accept [quiet]: "refs P uid (snd (accept_code e r u code)) \<le> refs P uid r"
  by (simp add: accept_code_def refs_totp)

lemma refs_revoke [quiet]: "refs P uid (snd (revoke_session e r t)) \<le> refs P uid r"
  by (simp add: revoke_session_def refs_del)

lemma refs_sweep [quiet]: "refs P uid (snd (revoke_user_sessions e r i keep)) \<le> refs P uid r"
  by (simp add: revoke_user_sessions_def Let_def refs_del_all)

lemma refs_password_failed [quiet]: "refs P uid (fst (password_failed e g)) \<le> refs P uid (fst g)"
  using refs_failure by (simp add: password_failed_def case_prod_beta Let_def)

lemma refs_authorization [quiet]: "refs P uid (snd (create_authorization_url e pv purpose binding r)) \<le> refs P uid r"
  by (simp add: create_authorization_url_def Let_def refs_set_text)

lemma refs_exchange [quiet]: "refs P uid (snd (exchange_code e pv code state purpose binding r)) \<le> refs P uid r"
  using refs_del [of P uid r "state_key state"]
  by (simp add: exchange_code_def kv_getdel_def Let_def split: option.split rval.split)

section \<open>Tokens issued and taken back\<close>

lemma under_token_key:
  assumes "p \<in> set SWEEP_PREFIXES" "q \<in> set SWEEP_PREFIXES"
  shows "under p (token_key e q t) \<longleftrightarrow> p = q"
proof -
  have long: "list_all (\<lambda>x. 18 \<le> length x) SWEEP_PREFIXES" by code_simp
  have apart: "distinct (map (take 18) SWEEP_PREFIXES)" by code_simp
  have "take 18 (q @ y) = take 18 q" for y using long assms(2) by (simp add: list_all_iff)
  moreover have "take 18 k = take 18 p" if "take (length p) k = p" for k
  proof -
    have "18 \<le> length p" using long assms(1) by (simp add: list_all_iff)
    then show ?thesis using that by (metis take_take min.absorb1)
  qed
  ultimately have "under p (token_key e q t) \<Longrightarrow> take 18 p = take 18 q"
    unfolding under_def token_key_def by metis
  moreover have "take 18 p = take 18 q \<Longrightarrow> p = q"
    using apart assms by (auto simp: distinct_map inj_on_def)
  ultimately show ?thesis by (auto simp: under_def token_key_def)
qed

lemma sweep_prefixes: "SESSION_PREFIX \<in> set SWEEP_PREFIXES" "TOTP_PENDING_PREFIX \<in> set SWEEP_PREFIXES"
    "TOTP_SETUP_PREFIX \<in> set SWEEP_PREFIXES"
  by (simp_all add: SWEEP_PREFIXES_def)

lemma prefixes_apart: "SESSION_PREFIX \<noteq> TOTP_PENDING_PREFIX" "SESSION_PREFIX \<noteq> TOTP_SETUP_PREFIX"
    "TOTP_PENDING_PREFIX \<noteq> TOTP_SETUP_PREFIX"
  by code_simp+

text \<open>Session entries come from the store before, with their value.\<close>

definition keeps :: "redis \<Rightarrow> redis \<Rightarrow> bool" where
  "keeps r r' \<longleftrightarrow> (\<forall>(k, x) \<in> set r'. under SESSION_PREFIX k \<longrightarrow> (\<exists>y. (k, y) \<in> set r \<and> ent_val y = ent_val x))"

lemma keeps_refl [simp]: "keeps r r"
  by (auto simp: keeps_def)

lemma keeps_trans: "keeps r r1 \<Longrightarrow> keeps r1 r2 \<Longrightarrow> keeps r r2"
  unfolding keeps_def by (auto split: prod.splits) metis

lemma keeps_del [simp]: "keeps r (kv_del r k)" "keeps r (kv_del_all r ks)"
  by (auto simp: keeps_def kv_del_def kv_del_all_def)

lemma keeps_put: "\<not> under SESSION_PREFIX k \<Longrightarrow> keeps r (kv_put r k v t)"
  by (auto simp: keeps_def kv_put_def)

definition foreign :: "string \<Rightarrow> bool" where "foreign k \<longleftrightarrow> take 13 k \<noteq> ''openwhistle:s''"

lemma foreign_not_session: "foreign k \<Longrightarrow> \<not> under SESSION_PREFIX k"
proof -
  have "take 13 SESSION_PREFIX = ''openwhistle:s''" "13 \<le> length SESSION_PREFIX" by code_simp+
  then have "take 13 k = ''openwhistle:s''" if "under SESSION_PREFIX k"
    using that unfolding under_def by (metis take_take min.absorb1)
  then show "foreign k \<Longrightarrow> \<not> under SESSION_PREFIX k" by (auto simp: foreign_def)
qed

lemma foreign_keys: "foreign (admin_key u)" "foreign (spray_key m)" "foreign SPRAY_ALERTED" "foreign (totp_used_key i code)"
    "foreign (state_key x)" "foreign (TOTP_PENDING_PREFIX @ y)" "foreign (TOTP_SETUP_PREFIX @ y)"
  by (simp_all add: foreign_def admin_key_def ADMIN_PREFIX_def spray_key_def SPRAY_PREFIX_def SPRAY_ALERTED_def
      totp_used_key_def state_key_def STATE_PREFIX_def TOTP_PENDING_PREFIX_def TOTP_SETUP_PREFIX_def)

lemma keeps_write:
  assumes "foreign k" "keeps r r1"
  shows "keeps r (kv_set now r1 k v s)" "keeps r (snd (kv_setnx now r1 k v s))" "keeps r (snd (kv_add now r1 k n))"
    "keeps r (kv_expire now r1 k s)" "keeps r (snd (count_failure now r1 k s))"
proof -
  have w: "keeps r (kv_put r2 k x t)" if "keeps r r2" for r2 x t
    using keeps_trans [OF that keeps_put [OF foreign_not_session [OF assms(1)]]] .
  then show set: "keeps r (kv_set now r1 k v s)" "keeps r (snd (kv_setnx now r1 k v s))"
    using assms(2) by (simp_all add: kv_set_def kv_setnx_def)
  show add: "keeps r (snd (kv_add now r1 k n))" for n using w [OF assms(2)] by (simp add: kv_add_def Let_def)
  have expire: "keeps r (kv_expire now r2 k s)" if "keeps r r2" for r2
    using w that by (simp add: kv_expire_def kv_set_def split: option.split)
  then show "keeps r (kv_expire now r1 k s)" "keeps r (snd (count_failure now r1 k s))"
    using assms(2) add by (simp_all add: count_failure_def case_prod_beta Let_def)
qed

lemma keeps_ops:
  "keeps r (snd (claim_admin_attempt cfg now r username))"
  "keeps r (release_admin_attempt now r username)"
  "keeps r (snd (record_instance_login_failure cfg now r))"
  "keeps r (snd (accept_code e r u code))" "keeps r (snd (consume_totp e r i secret code))"
  "keeps r (snd (create_authorization_url e pv purpose binding r))"
  "keeps r (snd (exchange_code e pv code state purpose binding r))"
  by (auto simp: claim_admin_attempt_def claim_def release_admin_attempt_def record_instance_login_failure_def
      accept_code_def consume_totp_def create_authorization_url_def exchange_code_def kv_getdel_def
      case_prod_beta Let_def foreign_keys split: option.splits rval.splits intro!: keeps_write)

text \<open>What most operations do: take tokens away, and leave the sessions that stay as they are.\<close>

definition calmer :: "redis \<Rightarrow> redis \<Rightarrow> bool" where
  "calmer r r' \<longleftrightarrow> (\<forall>P uid. refs P uid r' \<le> refs P uid r) \<and> keeps r r'"

lemma calmer_refl [simp]: "calmer r r"
  by (simp add: calmer_def)

lemma calmer_trans: "calmer r r1 \<Longrightarrow> calmer r1 r2 \<Longrightarrow> calmer r r2"
  unfolding calmer_def by (meson order_trans keeps_trans)

lemma calmer_ops:
  "calmer r (snd (claim_admin_attempt cfg now r username))" "calmer r (release_admin_attempt now r username)"
  "calmer r (reset_admin_login_attempts r username)" "calmer r (snd (record_instance_login_failure cfg now r))"
  "calmer r (snd (accept_code e r u code))" "calmer r (snd (consume_totp e r i secret code))"
  "calmer r (snd (create_authorization_url e pv purpose binding r))"
  "calmer r (snd (exchange_code e pv code state purpose binding r))"
  "calmer r (snd (revoke_session e r t))" "calmer r (snd (revoke_user_sessions e r i keep))" "calmer r (kv_del r k)"
  by (simp_all add: calmer_def quiet keeps_ops refs_del)
    (simp_all add: reset_admin_login_attempts_def revoke_session_def revoke_user_sessions_def Let_def)

lemma calmer_password_failed: "calmer (fst g) (fst (password_failed e g))"
  using calmer_ops(4) by (simp add: password_failed_def case_prod_beta Let_def)

lemma calmer_counts:
  assumes "calmer r r'"
  shows "sessions uid r' \<le> sessions uid r" "tokens uid r' \<le> tokens uid r"
  using assms unfolding calmer_def sessions_def tokens_def by (simp_all add: add_mono)

lemma issue:
  assumes "q \<in> set SWEEP_PREFIXES" "r' = kv_set (millis e) r (token_key e q t) (Ref i) s"
  shows "tokens uid r' \<le> tokens uid r + (if uid = i then 1 else 0)"
    and "sessions uid r' \<le> sessions uid r + (if uid = i \<and> q = SESSION_PREFIX then 1 else 0)"
proof -
  have one: "refs (under p) uid r' \<le> refs (under p) uid r + (if p = q \<and> uid = i then 1 else 0)" if "p \<in> set SWEEP_PREFIXES" for p
    using refs_put [of "under p" uid r "token_key e q t" "Ref i" "Some (millis e + s * 1000)"]
    by (simp add: assms(2) kv_set_def under_token_key [OF that assms(1)] eq_commute [of uid] split: if_splits)
  note three = sweep_prefixes [THEN one]
  show "sessions uid r' \<le> sessions uid r + (if uid = i \<and> q = SESSION_PREFIX then 1 else 0)"
    using three(1) by (auto simp: sessions_def split: if_splits)
  show "tokens uid r' \<le> tokens uid r + (if uid = i then 1 else 0)"
    using three prefixes_apart assms(1) by (auto simp: tokens_def SWEEP_PREFIXES_def split: if_splits)
qed

lemma take_back:
  assumes "q \<in> set SWEEP_PREFIXES" "kv_get now r (token_key e q t) = Some (Ref i)" "r' = kv_del r (token_key e q t)"
  shows "tokens i r' + 1 \<le> tokens i r" and "q = SESSION_PREFIX \<Longrightarrow> sessions i r' + 1 \<le> sessions i r"
proof -
  have q: "refs (under q) i r' + 1 \<le> refs (under q) i r"
    using refs_del_found [OF assms(2), of "under q"] assms(3) under_token_key [OF assms(1,1)] by simp
  have le: "refs (under p) i r' \<le> refs (under p) i r" for p using refs_del by (simp add: assms(3))
  show "tokens i r' + 1 \<le> tokens i r"
    using assms(1) q le [of SESSION_PREFIX] le [of TOTP_PENDING_PREFIX] le [of TOTP_SETUP_PREFIX]
    by (auto simp: tokens_def SWEEP_PREFIXES_def)
  show "sessions i r' + 1 \<le> sessions i r" if "q = SESSION_PREFIX" using q that by (simp add: sessions_def)
qed

section \<open>The requests\<close>

datatype proof_made = First uuid | Second uuid | Reviewed uuid

record doorway =
  dw_redis :: redis
  dw_db :: db
  dw_proofs :: "proof_made list"

text \<open>
  What a request proves, read off what it brings and not off what the handler does with it: the account
  whose password it is (or that the directory vouches for), the account the provider identified, the
  account whose code it is, the demo account where the review button may be used.
\<close>

definition proved_by_password :: "env \<Rightarrow> directory \<Rightarrow> string \<Rightarrow> string \<Rightarrow> db \<Rightarrow> proof_made list" where
  "proved_by_password e dy username password d =
     (case (if cfg_ldap_enabled (env_cfg e) then authenticate_ldap (env_cfg e) dy username password else None) of
        Some name \<Rightarrow> (case find (\<lambda>u. usr_ldap u = Some name) (db_users d) of None \<Rightarrow> [] | Some u \<Rightarrow> [First (usr_id u)])
      | None \<Rightarrow> (case local_password e username password d of None \<Rightarrow> [] | Some u \<Rightarrow> [First (usr_id u)]))"

definition proved_by_provider ::
  "env \<Rightarrow> provider \<Rightarrow> string option \<Rightarrow> string option \<Rightarrow> string option \<Rightarrow> gate \<Rightarrow> proof_made list" where
  "proved_by_provider e pv code state browser g =
     (case fst (exchange_code e pv (given_text code) (given_text state) PURPOSE_LOGIN
                  (if given_text browser = [] then [] else browser_binding pv (given_text browser)) (fst g)) of
        Identified c \<Rightarrow>
          (case get_user_by_oidc_sub (snd g) (ic_sub c) (ic_iss c) of None \<Rightarrow> [] | Some u \<Rightarrow> [First (usr_id u)])
      | _ \<Rightarrow> [])"

definition proved_by_code :: "env \<Rightarrow> uuid option \<Rightarrow> string \<Rightarrow> db \<Rightarrow> proof_made list" where
  "proved_by_code e uid code d =
     (case Option.bind uid (get_user_by_id d) of
        None \<Rightarrow> []
      | Some u \<Rightarrow>
          (if verify_totp e (usr_totp_secret u) code \<or>
              cfg_demo_mode (env_cfg e) \<and> verify_demo_totp code (usr_username u) (usr_totp_secret u)
           then [Second (usr_id u)] else []))"

definition reviewed :: "env \<Rightarrow> (string \<Rightarrow> string option) \<Rightarrow> scope \<Rightarrow> db \<Rightarrow> proof_made list" where
  "reviewed e hostname s d =
     (if cfg_local_review_login (env_cfg e) \<and> local_review_reachable hostname s
      then (case get_user_by_username d ''demo'' of None \<Rightarrow> [] | Some u \<Rightarrow> [Reviewed (usr_id u)]) else [])"

definition to :: "doorway \<Rightarrow> proof_made list \<Rightarrow> gate \<Rightarrow> doorway" where
  "to w new g = w\<lparr>dw_redis := fst g, dw_db := snd g, dw_proofs := new @ dw_proofs w\<rparr>"

definition at_door :: "doorway \<Rightarrow> gate" where "at_door w = (dw_redis w, dw_db w)"

text \<open>
  Every request has its own clock, draws and surroundings; settings and keys are those of the instance.
  \<open>elsewhere\<close> is the rest of the program, which writes no session or sign-in token and may end some.
\<close>

inductive door_step :: "settings \<Rightarrow> crypto \<Rightarrow> doorway \<Rightarrow> doorway \<Rightarrow> bool" for cfg cr where
  password: "env_cfg e = cfg \<Longrightarrow> env_crypto e = cr \<Longrightarrow>
    login_post e hostname s dy username password (at_door w) = (page, g) \<Longrightarrow>
    door_step cfg cr w (to w (proved_by_password e dy username password (snd g)) g)"
| provider: "env_cfg e = cfg \<Longrightarrow> env_crypto e = cr \<Longrightarrow>
    oidc_callback e hostname s pv code state failure browser session_token (at_door w) = (x, g) \<Longrightarrow>
    door_step cfg cr w (to w (proved_by_provider e pv code state browser (at_door w)) g)"
| code: "env_cfg e = cfg \<Longrightarrow> env_crypto e = cr \<Longrightarrow>
    login_mfa_post e totp_code temp_token (at_door w) = (page, g) \<Longrightarrow>
    door_step cfg cr w
      (to w (proved_by_code e (fst (consume_totp_pending e (dw_redis w) temp_token)) totp_code (dw_db w)) g)"
| enrolment: "env_cfg e = cfg \<Longrightarrow> env_crypto e = cr \<Longrightarrow>
    mfa_setup_post e totp_code temp_token (at_door w) = (page, g) \<Longrightarrow>
    door_step cfg cr w
      (to w (proved_by_code e (fst (consume_totp_setup_pending e (dw_redis w) temp_token)) totp_code (dw_db w)) g)"
| review: "env_cfg e = cfg \<Longrightarrow> env_crypto e = cr \<Longrightarrow>
    local_review_login e hostname s meth csrf cookie (at_door w) = Inr (page, g) \<Longrightarrow>
    door_step cfg cr w (to w (reviewed e hostname s (dw_db w)) g)"
| refresh: "env_cfg e = cfg \<Longrightarrow> env_crypto e = cr \<Longrightarrow>
    session_refresh e (at_door w) session_token csrf cookie = (x, r) \<Longrightarrow>
    door_step cfg cr w (to w [] (r, dw_db w))"
| authorize: "env_cfg e = cfg \<Longrightarrow> env_crypto e = cr \<Longrightarrow>
    oidc_authorize e pv (dw_redis w) = (x, r) \<Longrightarrow> door_step cfg cr w (to w [] (r, dw_db w))"
| link: "env_cfg e = cfg \<Longrightarrow> env_crypto e = cr \<Longrightarrow>
    oidc_link e pv session_token csrf cookie (at_door w) = (y, r) \<Longrightarrow> door_step cfg cr w (to w [] (r, dw_db w))"
| new_password: "env_cfg e = cfg \<Longrightarrow> env_crypto e = cr \<Longrightarrow>
    account_password e session_token csrf cookie current new confirm totp_code (at_door w) = (z, g) \<Longrightarrow>
    door_step cfg cr w (to w [] g)"
| logged_out: "env_cfg e = cfg \<Longrightarrow> env_crypto e = cr \<Longrightarrow>
    door_step cfg cr w (to w [] (logout e session_token (dw_redis w), dw_db w))"
| elsewhere: "calmer (dw_redis w) r \<Longrightarrow> door_step cfg cr w (to w [] (r, d))"

section \<open>The invariant\<close>

definition genuine :: "crypto \<Rightarrow> redis \<Rightarrow> bool" where
  "genuine cr r \<longleftrightarrow> (\<forall>(k, x) \<in> set r. under SESSION_PREFIX k \<longrightarrow>
     (\<exists>t c. k = SESSION_PREFIX @ cr_hmac cr t \<and> cr_jwt_claims cr t = Some c \<and> ent_val x = Ref (clm_sub c)))"

definition paid :: "proof_made list \<Rightarrow> redis \<Rightarrow> bool" where
  "paid ps r \<longleftrightarrow> (\<forall>uid. tokens uid r \<le> count_list ps (First uid) + count_list ps (Reviewed uid) \<and>
     sessions uid r \<le> count_list ps (Second uid) + count_list ps (Reviewed uid))"

definition door_inv :: "settings \<Rightarrow> crypto \<Rightarrow> doorway \<Rightarrow> bool" where
  "door_inv cfg cr w \<longleftrightarrow> genuine cr (dw_redis w) \<and> paid (dw_proofs w) (dw_redis w) \<and>
     (\<forall>i. Reviewed i \<in> set (dw_proofs w) \<longrightarrow> cfg_local_review_login cfg)"

text \<open>
  What the crypto is relied on for: a token says whose it is, and tokens of different accounts have
  different keys.
\<close>

definition tokens_tell :: "crypto \<Rightarrow> bool" where
  "tokens_tell cr \<longleftrightarrow> (\<forall>c. cr_jwt_claims cr (cr_jwt cr c) = Some c) \<and>
     (\<forall>s t c c'. cr_jwt_claims cr s = Some c \<and> cr_jwt_claims cr t = Some c' \<and> cr_hmac cr s = cr_hmac cr t
        \<longrightarrow> clm_sub c = clm_sub c')"

lemma genuine_calmer: "genuine cr r \<Longrightarrow> calmer r r' \<Longrightarrow> genuine cr r'"
  unfolding genuine_def calmer_def keeps_def by (auto split: prod.splits) metis

lemma paid_by:
  assumes "paid ps r"
    and "\<And>uid. tokens uid r' \<le> tokens uid r + count_list new (First uid) + count_list new (Reviewed uid)"
    and "\<And>uid. sessions uid r' \<le> sessions uid r + count_list new (Second uid) + count_list new (Reviewed uid)"
  shows "paid (new @ ps) r'"
  unfolding paid_def
proof (intro allI conjI)
  fix uid
  show "tokens uid r' \<le> count_list (new @ ps) (First uid) + count_list (new @ ps) (Reviewed uid)"
    and "sessions uid r' \<le> count_list (new @ ps) (Second uid) + count_list (new @ ps) (Reviewed uid)"
    using assms(1) [unfolded paid_def, rule_format, of uid] assms(2,3) [of uid] by simp_all
qed

lemma paid_calmer: "paid ps r \<Longrightarrow> calmer r r' \<Longrightarrow> paid (new @ ps) r'"
  using calmer_counts [of r r'] by (intro paid_by) (auto intro: trans_le_add1)

lemma genuine_wait:
  assumes "genuine cr r" "q \<in> {TOTP_PENDING_PREFIX, TOTP_SETUP_PREFIX}"
  shows "genuine cr (kv_set now r (token_key e q t) v s)"
proof -
  have "foreign (token_key e q t)" using assms(2) foreign_keys(6,7) by (auto simp: token_key_def)
  then have "keeps r (kv_set now r (token_key e q t) v s)" by (intro keeps_write) simp_all
  then show ?thesis using assms(1) unfolding genuine_def keeps_def by (auto split: prod.splits) metis
qed

lemma genuine_session:
  assumes "genuine cr r" "cr_jwt_claims cr t = Some c" "env_crypto e = cr"
  shows "genuine cr (store_session e r (clm_sub c) t)"
  using assms by (auto simp: genuine_def store_session_def kv_set_def kv_put_def token_key_def)

lemma store_session_issue:
  assumes "r' = store_session e r i t"
  shows "tokens uid r' \<le> tokens uid r + (if uid = i then 1 else 0)" "sessions uid r' \<le> sessions uid r + (if uid = i then 1 else 0)"
  using issue [OF sweep_prefixes(1), of r' e r t i "max 1 (seconds_left e t)"] assms by (simp_all add: store_session_def)

lemma genuine_new_session:
  assumes "tokens_tell cr" "genuine cr r" "env_crypto e = cr"
  shows "genuine cr (store_session e r i (create_access_token e n i role auth_time))"
proof -
  have "cr_jwt_claims cr (create_access_token e n i role auth_time) = Some (new_claims e n i role auth_time)"
    using assms(1,3) by (simp add: create_access_token_def tokens_tell_def)
  moreover have "clm_sub (new_claims e n i role auth_time) = i" by (simp add: new_claims_def Let_def)
  ultimately show ?thesis using genuine_session assms(2,3) by metis
qed

lemma second_factor_effect:
  assumes "second_factor e hostname s u r1 = (page, r')" "calmer r r1" "genuine cr r" "paid ps r"
  shows "genuine cr r' \<and> paid ([First (usr_id u)] @ ps) r'"
proof (cases "usr_active u")
  case True
  then obtain q t n where q: "q \<in> {TOTP_PENDING_PREFIX, TOTP_SETUP_PREFIX}"
    and r': "r' = kv_set (millis e) r1 (token_key e q t) (Ref (usr_id u)) n"
    using assms(1) by (auto simp: second_factor_def store_totp_pending_def store_totp_setup_pending_def split: if_splits)
  have 1: "genuine cr r1" "paid ps r1"
    using genuine_calmer [OF assms(3,2)] paid_calmer [OF assms(4,2), of "[]"] by simp_all
  have "q \<in> set SWEEP_PREFIXES" "q \<noteq> SESSION_PREFIX" using q sweep_prefixes prefixes_apart by auto
  note i = issue [OF this(1) r']
  have "paid ([First (usr_id u)] @ ps) r'"
  proof (rule paid_by [OF 1(2)])
    fix uid
    show "tokens uid r' \<le> tokens uid r1 + count_list [First (usr_id u)] (First uid) + count_list [First (usr_id u)] (Reviewed uid)"
      using i(1) [of uid] by (simp split: if_splits)
    show "sessions uid r' \<le> sessions uid r1 + count_list [First (usr_id u)] (Second uid) + count_list [First (usr_id u)] (Reviewed uid)"
      using i(2) [of uid] \<open>q \<noteq> SESSION_PREFIX\<close> by simp
  qed
  then show ?thesis using genuine_wait [OF 1(1) q] by (simp add: r')
next
  case False
  then have "r' = r1" using assms(1) by (auto simp: second_factor_def)
  then show ?thesis using genuine_calmer [OF assms(3,2)] paid_calmer [OF assms(4,2), of "[First (usr_id u)]"] by simp
qed

text \<open>A token of a waiting sign-in is spent: what follows may issue one token, and one session for a code.\<close>

lemma spent:
  assumes "q \<in> {TOTP_PENDING_PREFIX, TOTP_SETUP_PREFIX}" "kv_get (millis e) r (token_key e q t) = Some (Ref i)"
    and "calmer (kv_del r (token_key e q t)) r1"
  shows "calmer r r1" "tokens i r1 + 1 \<le> tokens i r"
proof -
  have q: "q \<in> set SWEEP_PREFIXES" using assms(1) sweep_prefixes by auto
  show "calmer r r1" by (rule calmer_trans [OF calmer_ops(11) assms(3)])
  show "tokens i r1 + 1 \<le> tokens i r"
    using take_back(1) [OF q assms(2) refl] calmer_counts(2) [OF assms(3), of i] by linarith
qed

lemma spent_wait:
  assumes "calmer r r1" "tokens i r1 + 1 \<le> tokens i r" "genuine cr r" "paid ps r"
    and "q \<in> {TOTP_PENDING_PREFIX, TOTP_SETUP_PREFIX}" "r' = kv_set (millis e) r1 (token_key e q t) (Ref i) n"
  shows "genuine cr r' \<and> paid (new @ ps) r'"
proof
  show "genuine cr r'" using genuine_wait [OF genuine_calmer [OF assms(3,1)] assms(5)] by (simp add: assms(6))
  have q: "q \<in> set SWEEP_PREFIXES" "q \<noteq> SESSION_PREFIX" using assms(5) sweep_prefixes prefixes_apart by auto
  show "paid (new @ ps) r'"
  proof (rule paid_by [OF assms(4)])
    fix uid
    note c = calmer_counts [OF assms(1), of uid]
    show "tokens uid r' \<le> tokens uid r + count_list new (First uid) + count_list new (Reviewed uid)"
      using issue(1) [OF q(1) assms(6), of uid] c(2) assms(2) by (auto split: if_splits)
    show "sessions uid r' \<le> sessions uid r + count_list new (Second uid) + count_list new (Reviewed uid)"
      using issue(2) [OF q(1) assms(6), of uid] c(1) q(2) by auto
  qed
qed

lemma spent_session:
  assumes "tokens_tell cr" "env_crypto e = cr" "start_session e n action u (r1, d) = (page, r', d')"
    and "calmer r r1" "tokens (usr_id u) r1 + 1 \<le> tokens (usr_id u) r" "genuine cr r" "paid ps r"
  shows "genuine cr r' \<and> paid ([Second (usr_id u)] @ ps) r'"
proof (cases "usr_active u")
  case True
  define t where "t = create_access_token e 0 (usr_id u) (usr_role u) None"
  have r': "r' = store_session e r1 (usr_id u) t"
    using assms(3) True by (auto simp: start_session_def t_def Let_def)
  have "genuine cr r'"
    using genuine_new_session [OF assms(1) genuine_calmer [OF assms(6,4)] assms(2)] by (simp add: r' t_def)
  moreover have "paid ([Second (usr_id u)] @ ps) r'"
  proof (rule paid_by [OF assms(7)])
    fix uid
    note c = calmer_counts [OF assms(4), of uid]
    show "tokens uid r' \<le> tokens uid r + count_list [Second (usr_id u)] (First uid) + count_list [Second (usr_id u)] (Reviewed uid)"
      using store_session_issue(1) [OF r', of uid] c(2) assms(5) by (auto split: if_splits)
    show "sessions uid r' \<le> sessions uid r + count_list [Second (usr_id u)] (Second uid) + count_list [Second (usr_id u)] (Reviewed uid)"
      using store_session_issue(2) [OF r', of uid] c(1) by (auto split: if_splits)
  qed
  ultimately show ?thesis ..
next
  case False
  then have "r' = r1" using assms(3) by (simp add: start_session_def)
  then show ?thesis using genuine_calmer [OF assms(6,4)] paid_calmer [OF assms(7,4), of "[Second (usr_id u)]"] by simp
qed

lemma provision_found:
  assumes "provision e name d = Some (u, d1)"
  shows "find (\<lambda>u. usr_ldap u = Some name) (db_users d1) = Some u"
proof (cases "find (\<lambda>u. usr_ldap u = Some name) (db_users d)")
  case None
  then have u: "u = ldap_user e name d" "db_users d1 = db_users d @ [u]"
    using assms by (auto simp: provision_def log_system_def Let_def split: if_splits)
  have "find P (xs @ [x]) = (case find P xs of None \<Rightarrow> if P x then Some x else None | Some y \<Rightarrow> Some y)" for P xs and x :: user
    by (induction xs) auto
  then show ?thesis using None u by (simp add: ldap_user_def)
next
  case (Some v)
  then show ?thesis using assms by (auto simp: provision_def)
qed

lemma login_cases:
  assumes "login_post e hostname s dy username password (r, d) = (page, r', d')"
  obtains (refused) "calmer r r'"
    | (known) u r1 where "calmer r r1" "second_factor e hostname s u r1 = (page, r')"
        "proved_by_password e dy username password d' = [First (usr_id u)]"
proof -
  obtain ok r1 where c: "claim_admin_attempt (env_cfg e) (millis e) r username = (ok, r1)" by fastforce
  have 1: "calmer r r1" using calmer_ops(1) c by (metis snd_conv)
  have bad: "calmer r (fst (password_failed e (r1, d)))"
    using calmer_trans [OF 1] calmer_password_failed [of "(r1, d)" e] by simp
  have 2: "calmer r (release_admin_attempt (millis e) r1 username)"
    using calmer_trans [OF 1 calmer_ops(2)] .
  let ?name = "if cfg_ldap_enabled (env_cfg e) then authenticate_ldap (env_cfg e) dy username password else None"
  show thesis
  proof (cases "missing_fields username password \<noteq> [] \<or> \<not> ok")
    case True
    then have "r' = r \<or> r' = r1" using assms c by (auto simp: login_post_def Let_def split: if_splits)
    with 1 refused show thesis by auto
  next
    case False
    then have ok: "missing_fields username password = []" "claim_admin_attempt (env_cfg e) (millis e) r username = (True, r1)"
      using c by simp_all
    show thesis
    proof (cases ?name)
      case (Some name)
      show thesis
      proof (cases "provision e name d")
        case None
        then have "(r', d') = password_failed e (r1, d)"
          using assms ok Some by (simp add: login_post_def invalid_login_def Let_def)
        with bad refused show thesis by (metis fst_conv)
      next
        case (Some p)
        then obtain u d1 where p: "provision e name d = Some (u, d1)" by (cases p) simp
        have "second_factor e hostname s u (release_admin_attempt (millis e) r1 username) = (page, r')" "d' = d1"
          using assms ok \<open>?name = Some name\<close> p by (auto simp: login_post_def case_prod_beta Let_def)
        moreover have "proved_by_password e dy username password d1 = [First (usr_id u)]"
          unfolding proved_by_password_def \<open>?name = Some name\<close> using provision_found [OF p] by simp
        ultimately show thesis using known [OF 2] by simp
      qed
    next
      case None
      show thesis
      proof (cases "local_password e username password d")
        case N: None
        then have "(r', d') = password_failed e (r1, d)"
          using assms ok None by (simp add: login_post_def invalid_login_def Let_def)
        with bad refused show thesis by (metis fst_conv)
      next
        case (Some u)
        then have "second_factor e hostname s u (release_admin_attempt (millis e) r1 username) = (page, r')" "d' = d"
          using assms ok None by (auto simp: login_post_def case_prod_beta Let_def)
        moreover have "proved_by_password e dy username password d = [First (usr_id u)]"
          unfolding proved_by_password_def None using Some by simp
        ultimately show thesis using known [OF 2] by simp
      qed
    qed
  qed
qed

lemma provider_cases:
  assumes "oidc_callback e hostname s pv code state failure browser session_token (r, d) = (x, r', d')"
  obtains (refused) "calmer r r'"
    | (known) u r1 page where "calmer r r1" "second_factor e hostname s u r1 = (page, r')"
        "proved_by_provider e pv code state browser (r, d) = [First (usr_id u)]"
proof -
  let ?binding = "if given_text browser = [] then [] else browser_binding pv (given_text browser)"
  let ?x = "exchange_code e pv (given_text code) (given_text state)"
  note swap = calmer_ops(8) [of r e pv "given_text code" "given_text state"]
  consider (away) "r' = r \<or> (\<exists>q b. r' = snd (?x q b r))"
    | (here) u r1 c page where "?x PURPOSE_LOGIN ?binding r = (Identified c, r1)"
        "get_user_by_oidc_sub d (ic_sub c) (ic_iss c) = Some u" "second_factor e hostname s u r1 = (page, r')"
  proof (cases "starts_with LINK_STATE_PREFIX (given_text state)")
    case True
    have "r' = r \<or> (\<exists>q b. r' = snd (?x q b r))"
      using assms True
      by (simp add: oidc_callback_def oidc_link_callback_def Let_def split: if_splits sum.splits refusal.splits prod.splits exchange.splits)
        (metis snd_conv)+
    then show thesis by (rule away)
  next
    case False
    obtain y r1 where y: "?x PURPOSE_LOGIN ?binding r = (y, r1)" by fastforce
    show thesis
    proof (cases "r' = r \<or> r' = r1")
      case True
      then show thesis using away y by (metis snd_conv)
    next
      case other: False
      then obtain c u page where "y = Identified c" "get_user_by_oidc_sub d (ic_sub c) (ic_iss c) = Some u"
        "second_factor e hostname s u r1 = (page, r')"
        using assms False y
        by (auto simp: oidc_callback_def Let_def split: if_splits exchange.splits option.splits prod.splits)
      then show thesis using here y by simp
    qed
  qed
  then show thesis
  proof cases
    case away
    then show thesis using refused swap by auto
  next
    case (here u r1 c page)
    then have "proved_by_provider e pv code state browser (r, d) = [First (usr_id u)]"
      by (simp add: proved_by_provider_def)
    moreover have "calmer r r1" using swap here(1) by (metis snd_conv)
    ultimately show thesis using known here(3) by blast
  qed
qed

lemma ref_of_Some: "ref_of v = Some i \<longleftrightarrow> v = Some (Ref i)"
  by (cases v) (auto simp: ref_of_def split: rval.splits)

lemma user_of_id: "get_user_by_id d uid = Some u \<Longrightarrow> usr_id u = uid"
  using row_Some [of usr_id uid "db_users d" u] by (simp add: get_user_by_id_def user_of_def)

lemma accept_code_proves:
  assumes "accept_code e r u code = (True, r')" "get_user_by_id d uid = Some u"
  shows "proved_by_code e (Some uid) code d = [Second (usr_id u)]"
  using assms by (auto simp: accept_code_def consume_totp_def proved_by_code_def split: if_splits)

lemma code_effect:
  assumes "login_mfa_post e totp_code temp_token (r, d) = (page, r', d')"
    and "tokens_tell cr" "env_crypto e = cr" "genuine cr r" "paid ps r"
  shows "genuine cr r' \<and> paid (proved_by_code e (fst (consume_totp_pending e r temp_token)) totp_code d @ ps) r'"
proof -
  let ?k = "token_key e TOTP_PENDING_PREFIX temp_token"
  obtain uid where f: "consume_totp_pending e r temp_token = (uid, kv_del r ?k)"
    by (simp add: consume_totp_pending_def kv_getdel_def)
  have calm: "genuine cr r1 \<and> paid (new @ ps) r1" if "calmer r r1" for r1 new
    using genuine_calmer [OF assms(4) that] paid_calmer [OF assms(5) that] by simp
  show ?thesis
  proof (cases "Option.bind uid (get_user_by_id d)")
    case None
    then have "r' = kv_del r ?k"
      using assms(1) f by (auto simp: login_mfa_post_def Let_def split: option.splits)
    then show ?thesis using calm calmer_ops(11) by simp
  next
    case (Some u)
    then obtain i where i: "uid = Some i" "get_user_by_id d i = Some u" by (cases uid) auto
    have get: "kv_get (millis e) r ?k = Some (Ref i)"
      using f i(1) by (simp add: consume_totp_pending_def kv_getdel_def ref_of_Some)
    obtain ok2 r2 where 2: "claim_admin_attempt (env_cfg e) (millis e) (kv_del r ?k) (usr_username u) = (ok2, r2)" by fastforce
    obtain ok3 r3 where 3: "accept_code e r2 u totp_code = (ok3, r3)" by fastforce
    have c2: "calmer (kv_del r ?k) r2" and c3: "calmer (kv_del r ?k) r3"
      using calmer_ops(1) 2 calmer_ops(5) 3 calmer_trans by (metis snd_conv)+
    have q: "TOTP_PENDING_PREFIX \<in> {TOTP_PENDING_PREFIX, TOTP_SETUP_PREFIX}" by simp
    note s2 = spent [OF q get c2] and s3 = spent [OF q get c3]
    show ?thesis
    proof (cases ok2)
      case False
      then have "r' = r2" using assms(1) f i 2 by (simp add: login_mfa_post_def)
      then show ?thesis using calm s2(1) by simp
    next
      case True
      show ?thesis
      proof (cases ok3)
        case False
        then have "r' = kv_set (millis e) r3 (token_key e TOTP_PENDING_PREFIX (env_token e 0)) (Ref i) 300"
          using assms(1) f i 2 3 True by (simp add: login_mfa_post_def store_totp_pending_def)
        then show ?thesis using spent_wait [OF s3 assms(4,5) q] by simp
      next
        case ok3: True
        let ?r4 = "reset_admin_login_attempts r3 (usr_username u)"
        have c4: "calmer (kv_del r ?k) ?r4" by (rule calmer_trans [OF c3 calmer_ops(3)])
        have "start_session e 1 ''auth.login'' u (?r4, d) = (page, r', d')"
          using assms(1) f i 2 3 True ok3 by (simp add: login_mfa_post_def)
        moreover have "usr_id u = i" by (rule user_of_id [OF i(2)])
        ultimately have "genuine cr r' \<and> paid ([Second (usr_id u)] @ ps) r'"
          using spent_session [OF assms(2,3) _ _ _ assms(4,5)] spent [OF q get c4] by blast
        then show ?thesis using accept_code_proves i(2) 3 ok3 f i(1) by simp
      qed
    qed
  qed
qed

lemma enrolment_effect:
  assumes "mfa_setup_post e totp_code temp_token (r, d) = (page, r', d')"
    and "tokens_tell cr" "env_crypto e = cr" "genuine cr r" "paid ps r"
  shows "genuine cr r' \<and> paid (proved_by_code e (fst (consume_totp_setup_pending e r temp_token)) totp_code d @ ps) r'"
proof -
  let ?k = "token_key e TOTP_SETUP_PREFIX temp_token"
  obtain uid where f: "consume_totp_setup_pending e r temp_token = (uid, kv_del r ?k)"
    by (simp add: consume_totp_setup_pending_def kv_getdel_def)
  have calm: "genuine cr r1 \<and> paid (new @ ps) r1" if "calmer r r1" for r1 new
    using genuine_calmer [OF assms(4) that] paid_calmer [OF assms(5) that] by simp
  show ?thesis
  proof (cases "enrolling d uid")
    case None
    then have "r' = kv_del r ?k" using assms(1) f by (simp add: mfa_setup_post_def)
    then show ?thesis using calm calmer_ops(11) by simp
  next
    case (Some u)
    then obtain i where i: "uid = Some i" "get_user_by_id d i = Some u"
      by (cases uid) (auto simp: enrolling_def split: option.splits if_splits)
    have get: "kv_get (millis e) r ?k = Some (Ref i)"
      using f i(1) by (simp add: consume_totp_setup_pending_def kv_getdel_def ref_of_Some)
    have id: "usr_id u = i" by (rule user_of_id [OF i(2)])
    obtain ok r2 where 2: "consume_totp e (kv_del r ?k) (usr_id u) (usr_totp_secret u) totp_code = (ok, r2)" by fastforce
    have c2: "calmer (kv_del r ?k) r2" using calmer_ops(6) 2 by (metis snd_conv)
    have q: "TOTP_SETUP_PREFIX \<in> {TOTP_PENDING_PREFIX, TOTP_SETUP_PREFIX}" by simp
    note s2 = spent [OF q get c2]
    show ?thesis
    proof (cases ok)
      case False
      then have "r' = kv_set (millis e) r2 (token_key e TOTP_SETUP_PREFIX (env_token e 0)) (Ref i) 600"
        using assms(1) f Some 2 id by (simp add: mfa_setup_post_def store_totp_setup_pending_def)
      then show ?thesis using spent_wait [OF s2 assms(4,5) q] by simp
    next
      case True
      define v where "v = u\<lparr>usr_totp_enabled := True\<rparr>"
      obtain d2 where "start_session e 2 ''auth.login'' v (r2, d2) = (page, r', d')"
        using assms(1) f Some 2 True by (simp add: mfa_setup_post_def v_def)
      moreover have "usr_id v = i" using id by (simp add: v_def)
      ultimately have "genuine cr r' \<and> paid ([Second (usr_id v)] @ ps) r'"
        using spent_session [OF assms(2,3) _ _ _ assms(4,5)] s2 by blast
      moreover have "proved_by_code e (Some i) totp_code d = [Second i]"
        using 2 True i(2) id by (auto simp: proved_by_code_def consume_totp_def split: if_splits)
      ultimately show ?thesis using f i(1) \<open>usr_id v = i\<close> by simp
    qed
  qed
qed

lemma review_effect:
  assumes "local_review_login e hostname s meth csrf cookie (r, d) = Inr (page, r', d')"
    and "tokens_tell cr" "env_crypto e = cr" "genuine cr r" "paid ps r"
  shows "genuine cr r' \<and> paid (reviewed e hostname s d @ ps) r'"
proof -
  obtain u where u: "reviewed e hostname s d = [Reviewed (usr_id u)]"
    and st: "start_session e 1 ''auth.local_review_login'' u (r, d) = (page, r', d')"
    using assms(1) by (auto simp: local_review_login_def reviewed_def on_ok_Inr split: if_splits option.splits)
  show ?thesis
  proof (cases "usr_active u")
    case True
    define t where "t = create_access_token e 0 (usr_id u) (usr_role u) None"
    have r': "r' = store_session e r (usr_id u) t" using st True by (auto simp: start_session_def t_def Let_def)
    have "genuine cr r'" using genuine_new_session [OF assms(2,4,3)] by (simp add: r' t_def)
    moreover have "paid ([Reviewed (usr_id u)] @ ps) r'"
    proof (rule paid_by [OF assms(5)])
      fix uid
      note i = store_session_issue [OF r', of uid]
      show "tokens uid r' \<le> tokens uid r + count_list [Reviewed (usr_id u)] (First uid) + count_list [Reviewed (usr_id u)] (Reviewed uid)"
        using i(1) by (simp split: if_splits)
      show "sessions uid r' \<le> sessions uid r + count_list [Reviewed (usr_id u)] (Second uid) + count_list [Reviewed (usr_id u)] (Reviewed uid)"
        using i(2) by (simp split: if_splits)
    qed
    ultimately show ?thesis by (simp only: u)
  next
    case False
    then have "r' = r" using st by (simp add: start_session_def)
    then show ?thesis using assms(4) paid_calmer [OF assms(5) calmer_refl] by simp
  qed
qed

lemma session_entry:
  assumes "tokens_tell cr" "env_crypto e = cr" "genuine cr r" "kv_get (millis e) r (token_key e SESSION_PREFIX old) = Some v"
    and "cr_jwt_claims cr old = Some c"
  shows "v = Ref (clm_sub c)"
proof -
  let ?k = "token_key e SESSION_PREFIX old"
  obtain x where x: "(?k, x) \<in> set r" "ent_val x = v"
    using assms(4) by (auto simp: kv_get_def kv_entry_def dest: map_of_SomeD split: option.splits if_splits)
  have "under SESSION_PREFIX ?k" using under_token_key [OF sweep_prefixes(1,1)] by simp
  then obtain t c' where "?k = SESSION_PREFIX @ cr_hmac cr t" "cr_jwt_claims cr t = Some c'" "v = Ref (clm_sub c')"
    using assms(3) x by (auto simp: genuine_def)
  then show ?thesis using assms(1,2,5) unfolding tokens_tell_def token_key_def by (metis append_eq_append_conv)
qed

lemma refresh_effect:
  assumes "session_refresh e (r, d) session_token csrf cookie = (x, r')"
    and "tokens_tell cr" "env_crypto e = cr" "genuine cr r" "paid ps r"
  shows "genuine cr r' \<and> paid ps r'"
proof (cases "r' = r")
  case other: False
  obtain u claims where g: "get_signed_in_admin e r d session_token = Inr (u, claims)"
    using assms(1) other by (cases "get_signed_in_admin e r d session_token") (auto simp: session_refresh_def)
  from get_signed_in_admin_Inr [OF g] obtain old where o: "session_token = Some old" "validate_session e r old"
    "decode_access_token_claims e old = Some claims" "get_user_by_id d (clm_sub claims) = Some u" by blast
  define t where "t = create_access_token e 0 (usr_id u) (usr_role u) (Some (session_started_at claims))"
  define r1 where "r1 = store_session e r (usr_id u) t"
  let ?k = "token_key e SESSION_PREFIX"
  have id: "clm_sub claims = usr_id u" using user_of_id [OF o(4)] by simp
  have 1: "genuine cr r1" using genuine_new_session [OF assms(2,4,3)] by (simp add: r1_def t_def)
  have r': "r' = (if validate_session e r1 old then kv_del r1 (?k old) else kv_del (kv_del r1 (?k old)) (?k t))"
    using assms(1) g o(1) other
    by (auto simp: session_refresh_def revoke_session_def r1_def t_def Let_def split: if_splits)
  have "kv_get (millis e) r1 (?k old) = Some (Ref (usr_id u))"
  proof (cases "?k old = ?k t")
    case True
    then show ?thesis by (simp add: r1_def store_session_def kv_set_def kv_get_put)
  next
    case False
    obtain v where "kv_get (millis e) r (?k old) = Some v"
      using o(2) by (auto simp: validate_session_def kv_exists_get)
    moreover have "cr_jwt_claims cr old = Some claims"
      using o(3) assms(3) by (auto simp: decode_access_token_claims_def split: option.splits if_splits)
    ultimately have "kv_get (millis e) r (?k old) = Some (Ref (usr_id u))"
      using session_entry [OF assms(2,3,4)] id by auto
    then show ?thesis using False by (simp add: r1_def store_session_def kv_set_def kv_get_put)
  qed
  note got = this
  then have r': "r' = kv_del r1 (?k old)" using r' by (simp add: validate_session_def kv_exists_get)
  have "paid ([] @ ps) r'"
  proof (rule paid_by [OF assms(5)])
    fix uid
    note tb = take_back [OF sweep_prefixes(1) got r']
    note i = store_session_issue [OF r1_def, of uid] calmer_counts [OF calmer_ops(11), of uid r1 "?k old"]
    show "tokens uid r' \<le> tokens uid r + count_list [] (First uid) + count_list [] (Reviewed uid)"
      using tb(1) i(1,4) by (cases "uid = usr_id u") (simp_all add: r')
    show "sessions uid r' \<le> sessions uid r + count_list [] (Second uid) + count_list [] (Reviewed uid)"
      using tb(2) i(2,3) by (cases "uid = usr_id u") (simp_all add: r')
  qed
  then show ?thesis using genuine_calmer [OF 1 calmer_ops(11)] by (simp add: r')
qed (use assms(4,5) in simp)

lemma calm_requests:
  "oidc_authorize e pv r = (x, r') \<Longrightarrow> calmer r r'"
  "oidc_link e pv session_token csrf cookie (r, d) = (y, r') \<Longrightarrow> calmer r r'"
  "account_password e session_token csrf cookie current new confirm totp_code (r, d) = (z, r', d') \<Longrightarrow> calmer r r'"
  "calmer r (logout e session_token r)"
proof -
  show "oidc_authorize e pv r = (x, r') \<Longrightarrow> calmer r r'"
    using calmer_ops(7) by (auto simp: oidc_authorize_def split: if_splits prod.splits option.splits) (metis snd_conv)+
  show "oidc_link e pv session_token csrf cookie (r, d) = (y, r') \<Longrightarrow> calmer r r'"
    using calmer_ops(7) by (auto simp: oidc_link_def split: if_splits prod.splits option.splits sum.splits) (metis snd_conv)+
  show "calmer r (logout e session_token r)"
    using calmer_ops(9) by (simp add: logout_def split: option.split)
  assume a: "account_password e session_token csrf cookie current new confirm totp_code (r, d) = (z, r', d')"
  show "calmer r r'"
  proof (cases "r' = r")
    case False
    then obtain u where g: "on_ok (get_signed_in_admin e r d session_token) (\<lambda>u. on_ok (validate_csrf csrf cookie) (\<lambda>_. Inr (fst u))) = Inr u"
      using a by (auto simp: account_password_def split: sum.splits)
    obtain ok1 r1 where 1: "claim_admin_attempt (env_cfg e) (millis e) r (usr_username u) = (ok1, r1)" by fastforce
    obtain ok2 r2 where 2: "consume_totp e r1 (usr_id u) (usr_totp_secret u) totp_code = (ok2, r2)" by fastforce
    let ?r3 = "reset_admin_login_attempts r2 (usr_username u)"
    have "r' \<in> {r1, r2, snd (revoke_user_sessions e ?r3 (usr_id u) session_token)}"
      using a g 1 2 False by (auto simp: account_password_def split: if_splits option.splits bool.splits)
    moreover have "calmer r r1" using calmer_ops(1) 1 by (metis snd_conv)
    moreover have "calmer r1 r2" using calmer_ops(6) 2 by (metis snd_conv)
    moreover have "calmer r2 (snd (revoke_user_sessions e ?r3 (usr_id u) session_token))"
      by (rule calmer_trans [OF calmer_ops(3) calmer_ops(10)])
    ultimately show ?thesis using calmer_trans by blast
  qed simp
qed

lemma nothing_reviewed:
  "Reviewed i \<notin> set (proved_by_password e dy username password d)"
  "Reviewed i \<notin> set (proved_by_provider e pv code state browser g)" "Reviewed i \<notin> set (proved_by_code e uid typed d)"
proof -
  show "Reviewed i \<notin> set (proved_by_password e dy username password d)"
    unfolding proved_by_password_def by (simp split: option.split)
  show "Reviewed i \<notin> set (proved_by_provider e pv code state browser g)"
    unfolding proved_by_provider_def
    by (cases "fst (exchange_code e pv (given_text code) (given_text state) PURPOSE_LOGIN
          (if given_text browser = [] then [] else browser_binding pv (given_text browser)) (fst g))")
      (simp_all split: option.split)
  show "Reviewed i \<notin> set (proved_by_code e uid typed d)"
    by (cases "Option.bind uid (get_user_by_id d)") (simp_all add: proved_by_code_def)
qed

lemma reviewed_only_there:
  assumes "Reviewed i \<in> set (reviewed e hostname s d)"
  shows "cfg_local_review_login (env_cfg e)"
proof (rule ccontr)
  assume "\<not> cfg_local_review_login (env_cfg e)"
  then have "reviewed e hostname s d = []" unfolding reviewed_def by (simp only: simp_thms if_False)
  with assms show False by simp
qed

lemma door_inv_to:
  assumes "door_inv cfg cr w" "genuine cr (fst g) \<and> paid (new @ dw_proofs w) (fst g)"
    and "\<And>i. Reviewed i \<in> set new \<Longrightarrow> cfg_local_review_login cfg"
  shows "door_inv cfg cr (to w new g)"
  using assms by (auto simp: door_inv_def to_def)

lemma door_inv_calmer: "door_inv cfg cr w \<Longrightarrow> calmer (dw_redis w) r \<Longrightarrow> door_inv cfg cr (to w [] (r, d))"
  by (rule door_inv_to) (auto simp: door_inv_def intro: genuine_calmer dest: paid_calmer [where new = "[]"])

lemma first_effect:
  assumes "second_factor e hostname s u r1 = (page, r')" "calmer (dw_redis w) r1" "door_inv cfg cr w" "new = [First (usr_id u)]"
  shows "genuine cr r' \<and> paid (new @ dw_proofs w) r'"
  unfolding assms(4) using assms(3) by (intro second_factor_effect [OF assms(1,2)]) (simp_all add: door_inv_def)

lemma door_inv_step:
  assumes "door_step cfg cr w w'" "tokens_tell cr" and inv: "door_inv cfg cr w"
  shows "door_inv cfg cr w'"
proof -
  have gp: "genuine cr (dw_redis w)" "paid (dw_proofs w) (dw_redis w)" using inv by (simp_all add: door_inv_def)
  from assms(1) show ?thesis
  proof cases
    case (password e hostname s dy username password page g)
    obtain r' d' where g: "g = (r', d')" by (cases g)
    from password(4) [unfolded at_door_def g] have "genuine cr r' \<and> paid (proved_by_password e dy username password d' @ dw_proofs w) r'"
    proof (cases rule: login_cases)
      case refused
      then show ?thesis using inv genuine_calmer paid_calmer by (auto simp: door_inv_def)
    next
      case (known u r1)
      then show ?thesis using first_effect [OF known(2,1) inv] by simp
    qed
    then show ?thesis unfolding password(1) g by (intro door_inv_to [OF inv]) (simp_all add: nothing_reviewed)
  next
    case (provider e hostname s pv code state failure browser session_token x g)
    obtain r' d' where g: "g = (r', d')" by (cases g)
    from provider(4) [unfolded at_door_def g]
    have "genuine cr r' \<and> paid (proved_by_provider e pv code state browser (at_door w) @ dw_proofs w) r'"
    proof (cases rule: provider_cases)
      case refused
      then show ?thesis using inv genuine_calmer paid_calmer by (auto simp: door_inv_def)
    next
      case (known u r1 page)
      then show ?thesis using first_effect [OF known(2,1) inv] by (simp add: at_door_def)
    qed
    then show ?thesis unfolding provider(1) g by (intro door_inv_to [OF inv]) (simp_all add: nothing_reviewed)
  next
    case (code e totp_code temp_token page g)
    obtain r' d' where g: "g = (r', d')" by (cases g)
    show ?thesis
      using code_effect [OF code(4) [unfolded at_door_def g] assms(2) code(3) gp] unfolding code(1) g
      by (intro door_inv_to [OF inv]) (simp_all add: nothing_reviewed)
  next
    case (enrolment e totp_code temp_token page g)
    obtain r' d' where g: "g = (r', d')" by (cases g)
    show ?thesis
      using enrolment_effect [OF enrolment(4) [unfolded at_door_def g] assms(2) enrolment(3) gp] unfolding enrolment(1) g
      by (intro door_inv_to [OF inv]) (simp_all add: nothing_reviewed)
  next
    case (review e hostname s meth csrf cookie page g)
    obtain r' d' where g: "g = (r', d')" by (cases g)
    show ?thesis
      using review_effect [OF review(4) [unfolded at_door_def g] assms(2) review(3) gp] reviewed_only_there review(2)
      unfolding review(1) g by (intro door_inv_to [OF inv]) auto
  next
    case (refresh e session_token csrf cookie x r)
    show ?thesis
      using refresh_effect [OF refresh(4) [unfolded at_door_def] assms(2) refresh(3) gp] unfolding refresh(1)
      by (intro door_inv_to [OF inv]) simp_all
  next
    case (authorize e pv x r)
    then show ?thesis using door_inv_calmer [OF inv calm_requests(1)] by blast
  next
    case (link e pv session_token csrf cookie y r)
    then show ?thesis using door_inv_calmer [OF inv calm_requests(2)] unfolding at_door_def by blast
  next
    case (new_password e session_token csrf cookie current new confirm totp_code z g)
    then show ?thesis using door_inv_calmer [OF inv calm_requests(3)] unfolding at_door_def by (metis surj_pair)
  next
    case (logged_out e session_token)
    then show ?thesis using door_inv_calmer [OF inv calm_requests(4)] by simp
  next
    case (elsewhere r d)
    then show ?thesis using door_inv_calmer [OF inv] by simp
  qed
qed

abbreviation closed_door :: "doorway \<Rightarrow> bool" where
  "closed_door w \<equiv> dw_redis w = [] \<and> dw_proofs w = []"

interpretation door: invariant_system closed_door "door_step cfg cr" "\<lambda>w. tokens_tell cr \<longrightarrow> door_inv cfg cr w" for cfg cr
proof
  show "tokens_tell cr \<longrightarrow> door_inv cfg cr w" if "closed_door w" for w
    using that by (simp add: door_inv_def genuine_def paid_def tokens_def sessions_def refs_def)
  show "tokens_tell cr \<longrightarrow> door_inv cfg cr w'" if "tokens_tell cr \<longrightarrow> door_inv cfg cr w" "door_step cfg cr w w'" for w w'
    using door_inv_step [OF that(2)] that(1) by blast
qed

lemma session_counted:
  assumes "tokens_tell cr" "env_crypto e = cr" "genuine cr r" "get_signed_in_admin e r d session_token = Inr (u, c)"
  shows "0 < sessions (usr_id u) r"
proof -
  obtain t where t: "validate_session e r t" "decode_access_token_claims e t = Some c" "get_user_by_id d (clm_sub c) = Some u"
    using get_signed_in_admin_Inr [OF assms(4)] by blast
  then obtain v where v: "kv_get (millis e) r (token_key e SESSION_PREFIX t) = Some v"
    by (auto simp: validate_session_def kv_exists_get)
  moreover have "cr_jwt_claims cr t = Some c"
    using t(2) assms(2) by (auto simp: decode_access_token_claims_def split: option.splits if_splits)
  ultimately have "kv_get (millis e) r (token_key e SESSION_PREFIX t) = Some (Ref (usr_id u))"
    using session_entry [OF assms(1-3)] user_of_id [OF t(3)] by auto
  from take_back(2) [OF sweep_prefixes(1) this refl] show ?thesis by simp
qed


section \<open>A run\<close>

text \<open>Tokens as text: numbers in unary, each with an end mark.\<close>

definition int_code :: "int \<Rightarrow> nat" where "int_code i = (if 0 \<le> i then nat (2 * i) else nat (- 2 * i - 1))"
definition code_int :: "nat \<Rightarrow> int" where "code_int n = (if even n then int (n div 2) else - int ((n + 1) div 2))"

lemma code_int_code [simp]: "code_int (int_code i) = i"
proof (cases "0 \<le> i")
  case True
  then show ?thesis by (simp add: int_code_def code_int_def nat_mult_distrib)
next
  case False
  define k where "k = nat (- i - 1)"
  have "i = - int k - 1" using False by (simp add: k_def)
  then have "int_code i = 2 * k + 1" using False by (simp add: int_code_def)
  then show ?thesis using \<open>i = - int k - 1\<close> by (simp add: code_int_def)
qed

fun unary :: "nat list \<Rightarrow> string" where
  "unary [] = []"
| "unary (n # ns) = replicate n (CHR ''a'') @ CHR ''b'' # unary ns"

fun unary_of :: "nat \<Rightarrow> string \<Rightarrow> nat list" where
  "unary_of n [] = []"
| "unary_of n (c # cs) = (if c = CHR ''b'' then n # unary_of 0 cs else unary_of (Suc n) cs)"

lemma unary_of_unary: "unary_of 0 (unary ns) = ns"
proof (induction ns)
  case (Cons n ns)
  have "unary_of m (replicate k (CHR ''a'') @ CHR ''b'' # cs) = (m + k) # unary_of 0 cs" for m k cs
    by (induction k arbitrary: m) simp_all
  then show ?case using Cons by simp
qed simp

definition role_code :: "role \<Rightarrow> nat" where
  "role_code x = (case x of Case_manager \<Rightarrow> 0 | Admin \<Rightarrow> 1 | Superadmin \<Rightarrow> 2)"

definition code_role :: "nat \<Rightarrow> role" where
  "code_role n = (if n = 0 then Case_manager else if n = 1 then Admin else Superadmin)"

definition plain_jwt :: "claims \<Rightarrow> string" where
  "plain_jwt c = unary [clm_sub c, role_code (clm_role c), int_code (clm_exp c), int_code (clm_iat c),
     (case clm_auth_time c of None \<Rightarrow> 0 | Some t \<Rightarrow> Suc (int_code t)), clm_jti c]"

definition read_jwt :: "string \<Rightarrow> claims option" where
  "read_jwt t =
     (case unary_of 0 t of
        [sub, r, ex, iat, auth, jti] \<Rightarrow>
          Some \<lparr>clm_sub = sub, clm_role = code_role r, clm_exp = code_int ex, clm_iat = code_int iat,
                clm_auth_time = (if auth = 0 then None else Some (code_int (auth - 1))), clm_jti = jti\<rparr>
      | _ \<Rightarrow> None)"

lemma read_plain_jwt: "read_jwt (plain_jwt c) = Some c"
  unfolding read_jwt_def plain_jwt_def unary_of_unary
  by (cases "clm_role c"; cases "clm_auth_time c") (simp_all add: role_code_def code_role_def)

definition door_env :: env where
  "door_env = sample_env\<lparr>env_cfg := sample_settings\<lparr>cfg_access_token_expire_minutes := 1\<rparr>,
     env_crypto := (env_crypto sample_env)\<lparr>cr_jwt := plain_jwt, cr_jwt_claims := read_jwt\<rparr>\<rparr>"

lemma door_tokens: "tokens_tell (env_crypto door_env)"
  using read_plain_jwt by (auto simp: tokens_tell_def door_env_def sample_env_def)

definition door_db :: db where "door_db = empty_db\<lparr>db_users := [gate_user\<lparr>usr_password_hash := Some ''bpw''\<rparr>]\<rparr>"
definition no_directory :: directory where "no_directory = \<lparr>dy_search = (\<lambda>_. None), dy_bind = (\<lambda>_ _. False)\<rparr>"
definition after_password :: gate where
  "after_password = snd (login_post door_env (\<lambda>_. None) (visit []) no_directory ''u'' ''pw'' ([], door_db))"
definition after_code :: gate where "after_code = snd (login_mfa_post door_env ''123456'' ''tok'' after_password)"

lemma door_evaluated:
  "proved_by_password door_env no_directory ''u'' ''pw'' (snd after_password) = [First 1]"
  "fst (consume_totp_pending door_env (fst after_password) ''tok'') = Some 1"
  "proved_by_code door_env (Some 1) ''123456'' (snd after_password) = [Second 1]"
  "(case get_signed_in_admin door_env (fst after_code) (snd after_code)
      (Some (create_access_token door_env 0 1 Admin None)) of Inl _ \<Rightarrow> False | Inr (u, c) \<Rightarrow> usr_id u = 1)"
  by code_simp+


end
