(* ===== verification/Own_Account.thy ===== *)
theory Own_Account
  imports Sign_In
begin

text \<open>
  What an account can do to itself (\<open>app/api/auth.py\<close>): change its password, link an identity. The
  guarantees of \<open>account_password\<close> and \<open>oidc_link_callback\<close>.
\<close>

lemma account_password_changed:
  assumes "account_password e session_token csrf cookie current new confirm totp_code (r, d) = (Inr Password_changed, r', d')"
  obtains u c r1 r2 where "get_signed_in_admin e r d session_token = Inr (u, c)" "same_token csrf cookie"
    "given_text (usr_password_hash u) \<noteq> []" "\<not> demo_account (env_cfg e) u" "new_password_error current new confirm = None"
    "claim_admin_attempt (env_cfg e) (millis e) r (usr_username u) = (True, r1)"
    "verify_password (env_crypto e) current (given_text (usr_password_hash u))"
    "consume_totp e r1 (usr_id u) (usr_totp_secret u) totp_code = (True, r2)"
    "r' = snd (revoke_user_sessions e (reset_admin_login_attempts r2 (usr_username u)) (usr_id u) session_token)"
    "db_users d' = update_row usr_id (usr_id u)
       (\<lambda>x. x\<lparr>usr_password_hash := Some (hash_password (env_crypto e) new), usr_must_change := False\<rparr>) (db_users d)"
proof -
  obtain u c where g: "get_signed_in_admin e r d session_token = Inr (u, c)" "same_token csrf cookie"
    using assms
    by (cases "get_signed_in_admin e r d session_token") (auto simp: account_password_def validate_csrf_def split: if_splits)
  then have on: "on_ok (get_signed_in_admin e r d session_token) (\<lambda>u. on_ok (validate_csrf csrf cookie) (\<lambda>_. Inr (fst u))) = Inr u"
    by (simp add: validate_csrf_def)
  obtain ok1 r1 where 1: "claim_admin_attempt (env_cfg e) (millis e) r (usr_username u) = (ok1, r1)" by fastforce
  obtain ok2 r2 where 2: "consume_totp e r1 (usr_id u) (usr_totp_secret u) totp_code = (ok2, r2)" by fastforce
  show thesis
  proof (rule that [OF g])
    show "claim_admin_attempt (env_cfg e) (millis e) r (usr_username u) = (True, r1)"
      "consume_totp e r1 (usr_id u) (usr_totp_secret u) totp_code = (True, r2)"
      "given_text (usr_password_hash u) \<noteq> []" "\<not> demo_account (env_cfg e) u" "new_password_error current new confirm = None"
      "verify_password (env_crypto e) current (given_text (usr_password_hash u))"
      "r' = snd (revoke_user_sessions e (reset_admin_login_attempts r2 (usr_username u)) (usr_id u) session_token)"
      "db_users d' = update_row usr_id (usr_id u)
         (\<lambda>x. x\<lparr>usr_password_hash := Some (hash_password (env_crypto e) new), usr_must_change := False\<rparr>) (db_users d)"
      using assms 1 2 unfolding account_password_def
      by (auto simp: on audit_log_def set_user_def split: if_splits option.splits bool.splits)
  qed
qed

text \<open>
  A session left open is not enough to take an account over: its password changes only with the
  current one and an unused code of its authenticator, to one that meets the policy and is new; the
  change is of that account alone, and no other session or waiting sign-in of it is left.
\<close>

theorem password_change_guarded:
  assumes "account_password e (Some t) csrf cookie current new confirm totp_code (r, d) = (Inr Password_changed, r', d')"
  shows "\<exists>u c h. get_signed_in_admin e r d (Some t) = Inr (u, c) \<and> usr_password_hash u = Some h \<and>
    verify_password (env_crypto e) current h \<and> verify_totp e (usr_totp_secret u) totp_code \<and>
    new = confirm \<and> new \<noteq> current \<and> 12 \<le> length new \<and> length new \<le> 72 \<and>
    user_of d' (usr_id u) = Some (u\<lparr>usr_password_hash := Some (hash_password (env_crypto e) new), usr_must_change := False\<rparr>) \<and>
    (\<forall>i. i \<noteq> usr_id u \<longrightarrow> user_of d' i = user_of d i) \<and>
    (\<forall>p \<in> set SWEEP_PREFIXES. \<forall>s. p @ s \<noteq> token_key e SESSION_PREFIX t \<longrightarrow>
       kv_get (millis e) r' (p @ s) \<noteq> Some (Ref (usr_id u)))"
proof -
  obtain u c r1 r2 where g: "get_signed_in_admin e r d (Some t) = Inr (u, c)"
    and h: "given_text (usr_password_hash u) \<noteq> []" and n: "new_password_error current new confirm = None"
    and v: "verify_password (env_crypto e) current (given_text (usr_password_hash u))"
    and k: "consume_totp e r1 (usr_id u) (usr_totp_secret u) totp_code = (True, r2)"
    and r': "r' = snd (revoke_user_sessions e (reset_admin_login_attempts r2 (usr_username u)) (usr_id u) (Some t))"
    and d': "db_users d' = update_row usr_id (usr_id u)
       (\<lambda>x. x\<lparr>usr_password_hash := Some (hash_password (env_crypto e) new), usr_must_change := False\<rparr>) (db_users d)"
    by (rule account_password_changed [OF assms])
  from h obtain hash where hash: "usr_password_hash u = Some hash"
    by (cases "usr_password_hash u") (auto simp: given_text_def)
  have row: "user_of d (usr_id u) = Some u"
    using get_signed_in_admin_Inr [OF g] row_Some [of usr_id "clm_sub c" "db_users d" u]
    by (auto simp: get_user_by_id_def user_of_def)
  have users: "user_of d' i = (if usr_id u = i
      then map_option (\<lambda>x. x\<lparr>usr_password_hash := Some (hash_password (env_crypto e) new), usr_must_change := False\<rparr>) (user_of d (usr_id u))
      else user_of d i)" for i
    by (simp add: user_of_def d' table_simps)
  have t: "t \<noteq> []" using g by (auto simp: get_signed_in_admin_def)
  have swept: "kv_get (millis e) r' (p @ s) \<noteq> Some (Ref (usr_id u))"
    if "p \<in> set SWEEP_PREFIXES" "p @ s \<noteq> token_key e SESSION_PREFIX t" for p s
  proof
    assume a: "kv_get (millis e) r' (p @ s) = Some (Ref (usr_id u))"
    let ?r = "reset_admin_login_attempts r2 (usr_username u)"
    have "p @ s \<in> set (doomed (millis e) ?r (usr_id u) (token_key e SESSION_PREFIX t))"
      using a that t by (auto simp: r' revoke_user_sessions_def Let_def kv_get_del_all doomed_iff list_ex_iff split: if_splits)
    then show False using a t by (simp add: r' revoke_user_sessions_def Let_def kv_get_del_all)
  qed
  have "verify_totp e (usr_totp_secret u) totp_code" using k by (simp add: consume_totp_def split: if_splits)
  moreover have "new = confirm \<and> new \<noteq> current \<and> 12 \<le> length new \<and> length new \<le> 72"
    using n by (auto simp: new_password_error_def validate_password_def MIN_PASSWORD_LENGTH_def BCRYPT_MAX_BYTES_def split: if_splits)
  ultimately show ?thesis
    using g hash v row users swept by (intro exI [of _ u] exI [of _ c] exI [of _ hash] conjI) (auto simp: given_text_def)
qed

text \<open>
  An identity is linked only to the account whose live session started the link, and only when the
  provider vouched for it with a state of that very session.
\<close>

lemma linked_to_own_account:
  assumes "oidc_link_callback e hostname s pv code state failure session_token (r, d) = (y, r', d')" "db_users d' \<noteq> db_users d"
  obtains u c r1 where "get_current_admin e r d session_token = Inr u"
    "exchange_code e pv (given_text code) state PURPOSE_LINK (session_binding pv (usr_id u) (given_text session_token)) r = (Identified c, r1)"
    "db_users d' = update_row usr_id (usr_id u) (\<lambda>x. x\<lparr>usr_oidc_sub := Some (ic_sub c), usr_oidc_issuer := Some (ic_iss c)\<rparr>) (db_users d)"
    "\<forall>x \<in> set (db_users d). usr_id x \<noteq> usr_id u \<longrightarrow> usr_oidc_sub x \<noteq> Some (ic_sub c)"
proof -
  obtain u where u: "get_current_admin e r d session_token = Inr u"
    using assms by (cases "get_current_admin e r d session_token")
      (auto simp: oidc_link_callback_def split: refusal.splits)
  obtain x r1 where x: "exchange_code e pv (given_text code) state PURPOSE_LINK (session_binding pv (usr_id u) (given_text session_token)) r = (x, r1)"
    by fastforce
  then obtain c where c: "x = Identified c"
    using assms u by (cases x) (auto simp: oidc_link_callback_def split: if_splits)
  have "\<not> list_ex (\<lambda>x. usr_id x \<noteq> usr_id u \<and> usr_oidc_sub x = Some (ic_sub c)) (db_users d)"
    and d': "db_users d' = update_row usr_id (usr_id u) (\<lambda>x. x\<lparr>usr_oidc_sub := Some (ic_sub c), usr_oidc_issuer := Some (ic_iss c)\<rparr>) (db_users d)"
    using assms u x c by (auto simp: oidc_link_callback_def audit_log_def set_user_def split: if_splits)
  then show thesis using that [OF u] x c by (auto simp: list_ex_iff)
qed

definition account_env :: env where
  "account_env = gate_env\<lparr>env_crypto := (env_crypto gate_env)\<lparr>cr_bcrypt_ok := (\<lambda>p h. h = ''b'' @ p)\<rparr>\<rparr>"

definition account_db :: db where "account_db = empty_db\<lparr>db_users := [gate_user\<lparr>usr_password_hash := Some ''bold''\<rparr>]\<rparr>"

definition account_redis :: redis where
  "account_redis = kv_set 0 (kv_set 0 [] (token_key account_env SESSION_PREFIX ''t'') (Ref 1) 3600)
     (token_key account_env SESSION_PREFIX ''other'') (Ref 1) 3600"

theorem password_change_guarded_witness:
  "\<exists>r' d'. account_password account_env (Some ''t'') (Some ''x'') (Some ''x'') ''old'' ''a better secret'' ''a better secret'' ''123456''
       (account_redis, account_db) = (Inr Password_changed, r', d') \<and>
     kv_get (millis account_env) r' (token_key account_env SESSION_PREFIX ''other'') \<noteq> Some (Ref 1)"
proof -
  let ?x = "account_password account_env (Some ''t'') (Some ''x'') (Some ''x'') ''old'' ''a better secret'' ''a better secret'' ''123456''
       (account_redis, account_db)"
  obtain y r' d' where x: "?x = (y, r', d')" by (metis prod.collapse)
  have "fst ?x = Inr Password_changed" by code_simp
  with x have x: "?x = (Inr Password_changed, r', d')" by simp
  obtain u c where u: "get_signed_in_admin account_env account_redis account_db (Some ''t'') = Inr (u, c)"
    "\<forall>p \<in> set SWEEP_PREFIXES. \<forall>s. p @ s \<noteq> token_key account_env SESSION_PREFIX ''t'' \<longrightarrow>
       kv_get (millis account_env) r' (p @ s) \<noteq> Some (Ref (usr_id u))"
    using password_change_guarded [OF x] by blast
  have "get_signed_in_admin account_env account_redis account_db (Some ''t'')
      = Inr (gate_user\<lparr>usr_password_hash := Some ''bold''\<rparr>, gate_claims)" by code_simp
  with u(1) have "usr_id u = 1" by (auto simp: gate_user_def)
  moreover have "token_key account_env SESSION_PREFIX ''other'' \<noteq> token_key account_env SESSION_PREFIX ''t''"
    "SESSION_PREFIX \<in> set SWEEP_PREFIXES" by code_simp+
  ultimately show ?thesis using u(2) x unfolding token_key_def by auto
qed

end
