(* ===== verification/Json.thy ===== *)
theory Json
  imports Prelude "HOL-Library.AList"
begin

text \<open>
  JSON values as \<open>json.loads\<close> returns them and \<open>json.dumps\<close> takes them: the feed of the update check
  and the payloads of the webhooks. Numbers are integers; the keys of an object are distinct, in the
  order they were written. The text form of a value is left to the functions that write and read it.
\<close>

datatype json =
    JNull
  | JBool bool
  | JInt int
  | JStr string
  | JList "json list"
  | JObj "(string \<times> json) list"

definition dict_get :: "(string \<times> json) list \<Rightarrow> string \<Rightarrow> json" where
  "dict_get kvs k = (case map_of kvs k of None \<Rightarrow> JNull | Some v \<Rightarrow> v)"

definition dict_put :: "(string \<times> json) list \<Rightarrow> string \<Rightarrow> json \<Rightarrow> (string \<times> json) list" where
  "dict_put kvs k v = AList.update k v kvs"

text \<open>Python's truth of a value, and \<open>isinstance(v, str)\<close>.\<close>

fun truthy :: "json \<Rightarrow> bool" where
  "truthy JNull = False"
| "truthy (JBool b) = b"
| "truthy (JInt n) = (n \<noteq> 0)"
| "truthy (JStr s) = (s \<noteq> [])"
| "truthy (JList xs) = (xs \<noteq> [])"
| "truthy (JObj kvs) = (kvs \<noteq> [])"

fun as_str :: "json \<Rightarrow> string option" where
  "as_str (JStr s) = Some s"
| "as_str _ = None"

text \<open>The strings a value is made of, keys left out: what its reader gets to see.\<close>

fun strings_in :: "json \<Rightarrow> string list" where
  "strings_in (JStr s) = [s]"
| "strings_in (JList xs) = concat (map strings_in xs)"
| "strings_in (JObj kvs) = concat (map (\<lambda>p. strings_in (snd p)) kvs)"
| "strings_in _ = []"

lemma as_str_Some [simp]: "as_str v = Some s \<longleftrightarrow> v = JStr s"
  by (cases v) auto

lemma dict_get_put [simp]: "dict_get (dict_put kvs k v) j = (if j = k then v else dict_get kvs j)"
  by (simp add: dict_get_def dict_put_def update_conv)

text \<open>The text \<open>dumps\<close> writes and \<open>loads\<close> reads: \<open>None\<close> where \<open>loads\<close> raises.\<close>

record json_text =
  js_dumps :: "json \<Rightarrow> string"
  js_loads :: "string \<Rightarrow> json option"

definition reads_back :: "json_text \<Rightarrow> json \<Rightarrow> bool" where
  "reads_back js v \<longleftrightarrow> js_dumps js v \<noteq> [] \<and> js_loads js (js_dumps js v) = Some v"

end
