(* ===== verification/Version_Check.thy ===== *)
theory Version_Check
  imports Kv_Store Config Json
begin

text \<open>
  The update check (\<open>app/services/version_check.py\<close>): versions and the ranges of advisories, the feed
  as untrusted input, its cache in Redis and the daily refresh. What the far end answers, the text
  form of JSON and the current time in ISO form are arguments. \<open>int\<close> and \<open>str.isdigit\<close> are those of
  characters below 256.
\<close>

section \<open>Versions\<close>

datatype py_error = Type_error | Value_error | Attribute_error

definition code_of :: "char \<Rightarrow> nat" where "code_of c = of_char c"

definition decimal_char :: "char \<Rightarrow> bool" where
  "decimal_char c \<longleftrightarrow> 48 \<le> code_of c \<and> code_of c \<le> 57"

text \<open>The superscripts 2, 3 and 1 are digits to \<open>isdigit\<close> and no numbers to \<open>int\<close>.\<close>

definition py_isdigit :: "string \<Rightarrow> bool" where
  "py_isdigit p \<longleftrightarrow> p \<noteq> [] \<and> list_all (\<lambda>c. decimal_char c \<or> code_of c \<in> {178, 179, 185}) p"

definition py_int :: "string \<Rightarrow> nat option" where
  "py_int p = (if p \<noteq> [] \<and> list_all decimal_char p \<and> length p \<le> 4300
               then Some (foldl (\<lambda>n c. 10 * n + (code_of c - 48)) 0 p) else None)"

fun leading_numbers :: "string list \<Rightarrow> nat list option" where
  "leading_numbers [] = Some []"
| "leading_numbers (p # ps) =
     (if \<not> py_isdigit p then Some []
      else (case py_int p of None \<Rightarrow> None | Some n \<Rightarrow> map_option ((#) n) (leading_numbers ps)))"

definition is_v :: "char \<Rightarrow> bool" where "is_v c \<longleftrightarrow> c = CHR ''v'' \<or> c = CHR ''V''"

definition parse_version :: "string \<Rightarrow> nat list option" where
  "parse_version v =
     (let core = hd (split_at (CHR ''+'') (hd (split_at (CHR ''-'') (dropWhile is_v (strip v))))) in
      map_option (\<lambda>parts. if parts = [] then [0] else parts) (leading_numbers (split_at (CHR ''.'') core)))"

definition compare_versions :: "string \<Rightarrow> string \<Rightarrow> string option" where
  "compare_versions current latest =
     (case (parse_version current, parse_version latest) of
        (Some cur, Some lat) \<Rightarrow>
          Some (if cur < lat then ''update_available'' else if lat < cur then ''ahead'' else ''up_to_date'')
      | _ \<Rightarrow> None)"

definition is_version :: "string \<Rightarrow> bool" where
  "is_version s \<longleftrightarrow>
     (let ps = split_at (CHR ''.'') (case s of [] \<Rightarrow> [] | c # cs \<Rightarrow> if is_v c then cs else s) in
      length ps \<le> 4 \<and> list_all (\<lambda>p. 1 \<le> length p \<and> length p \<le> 6 \<and> list_all decimal_char p) ps)"

section \<open>Ranges\<close>

datatype relation = Rel_le | Rel_ge | Rel_less | Rel_greater | Rel_eq

fun rel_text :: "relation \<Rightarrow> string" where
  "rel_text Rel_le = ''<=''"
| "rel_text Rel_ge = ''>=''"
| "rel_text Rel_less = ''<''"
| "rel_text Rel_greater = ''>''"
| "rel_text Rel_eq = ''=''"

fun rel_holds :: "relation \<Rightarrow> nat list \<Rightarrow> nat list \<Rightarrow> bool" where
  "rel_holds Rel_le a b = (a \<le> b)"
| "rel_holds Rel_ge a b = (b \<le> a)"
| "rel_holds Rel_less a b = (a < b)"
| "rel_holds Rel_greater a b = (b < a)"
| "rel_holds Rel_eq a b = (a = b)"

definition MAX_RANGE :: nat where "MAX_RANGE = 200"

definition constraint_of :: "string \<Rightarrow> (relation \<times> string) option" where
  "constraint_of raw =
     (let rest = strip raw;
          rel = (case find (\<lambda>x. starts_with (rel_text x) rest) [Rel_le, Rel_ge, Rel_less, Rel_greater, Rel_eq] of
                   None \<Rightarrow> Rel_eq | Some x \<Rightarrow> x);
          rest = (if starts_with (rel_text rel) rest then dropWhile is_space (drop (length (rel_text rel)) rest)
                  else rest)
      in if is_version rest then Some (rel, rest) else None)"

fun all_or_none :: "'a option list \<Rightarrow> 'a list option" where
  "all_or_none [] = Some []"
| "all_or_none (None # xs) = None"
| "all_or_none (Some x # xs) = map_option ((#) x) (all_or_none xs)"

definition constraints :: "string \<Rightarrow> (relation \<times> string) list option" where
  "constraints vulnerable_range =
     (if MAX_RANGE < length vulnerable_range then None
      else all_or_none (map constraint_of (split_at (CHR '','') vulnerable_range)))"

definition pad :: "nat \<Rightarrow> nat list \<Rightarrow> nat list" where
  "pad width xs = xs @ replicate (width - length xs) 0"

fun meets_all :: "nat list \<Rightarrow> (relation \<times> string) list \<Rightarrow> bool option" where
  "meets_all current [] = Some True"
| "meets_all current ((rel, raw_bound) # cs) =
     (case parse_version raw_bound of
        None \<Rightarrow> None
      | Some bound \<Rightarrow>
          (let width = max (length current) (length bound) in
           if rel_holds rel (pad width current) (pad width bound) then meets_all current cs else Some False))"

definition version_in_range :: "string \<Rightarrow> string \<Rightarrow> bool option" where
  "version_in_range version vulnerable_range =
     (case constraints vulnerable_range of
        None \<Rightarrow> Some False
      | Some cs \<Rightarrow> (case parse_version version of None \<Rightarrow> None | Some current \<Rightarrow> meets_all current cs))"

section \<open>The feed\<close>

definition SEVERITIES :: "string list" where "SEVERITIES = [''low'', ''medium'', ''high'', ''critical'']"
definition MAX_ADVISORIES :: nat where "MAX_ADVISORIES = 100"
definition MAX_SUMMARY :: nat where "MAX_SUMMARY = 300"
definition MAX_CVES :: nat where "MAX_CVES = 10"

definition https_link :: "json \<Rightarrow> string" where
  "https_link url =
     (case as_str url of
        Some u \<Rightarrow> if starts_with ''https://'' u \<and> length u \<le> 500 then u else []
      | None \<Rightarrow> [])"

definition text_up_to :: "json \<Rightarrow> nat \<Rightarrow> string" where
  "text_up_to value limit = (case as_str value of Some s \<Rightarrow> take limit (strip s) | None \<Rightarrow> [])"

definition latest_of :: "json \<Rightarrow> (string \<times> json) list option" where
  "latest_of raw =
     (case raw of
        JObj kvs \<Rightarrow>
          (case as_str (dict_get kvs ''version'') of
             Some version \<Rightarrow>
               if is_version version
               then Some [(''tag_name'', JStr version), (''html_url'', JStr (https_link (dict_get kvs ''url''))),
                          (''published_at'', JStr (text_up_to (dict_get kvs ''published_at'') 40))]
               else None
           | None \<Rightarrow> None)
      | _ \<Rightarrow> None)"

definition advisory_id_char :: "char \<Rightarrow> bool" where
  "advisory_id_char c \<longleftrightarrow> (let n = code_of c in
     65 \<le> n \<and> n \<le> 90 \<or> 97 \<le> n \<and> n \<le> 122 \<or> 48 \<le> n \<and> n \<le> 57 \<or> c = CHR ''-'')"

definition is_advisory_id :: "string \<Rightarrow> bool" where
  "is_advisory_id s \<longleftrightarrow> 1 \<le> length s \<and> length s \<le> 64 \<and> list_all advisory_id_char s"

definition is_cve_id :: "string \<Rightarrow> bool" where
  "is_cve_id s \<longleftrightarrow>
     starts_with ''CVE-'' s \<and> 13 \<le> length s \<and> length s \<le> 16 \<and>
     list_all decimal_char (take 4 (drop 4 s)) \<and> s ! 8 = CHR ''-'' \<and> list_all decimal_char (drop 9 s)"

definition cves_of :: "json \<Rightarrow> json list" where
  "cves_of v =
     (case v of
        JList cves \<Rightarrow> take MAX_CVES (filter (\<lambda>c. case as_str c of Some s \<Rightarrow> is_cve_id s | None \<Rightarrow> False) cves)
      | _ \<Rightarrow> [])"

text \<open>Looking a list or an object up in a set raises: they have no hash.\<close>

definition severity_of :: "json \<Rightarrow> py_error + string" where
  "severity_of v =
     (case v of
        JStr s \<Rightarrow> Inr (if s \<in> set SEVERITIES then s else [])
      | JList _ \<Rightarrow> Inl Type_error
      | JObj _ \<Rightarrow> Inl Type_error
      | _ \<Rightarrow> Inr [])"

definition fixed_of :: "(string \<times> json) list \<Rightarrow> json" where
  "fixed_of kvs = (case map_of kvs ''fixed'' of None \<Rightarrow> JStr [] | Some v \<Rightarrow> v)"

definition required_fields_ok :: "(string \<times> json) list \<Rightarrow> bool" where
  "required_fields_ok kvs \<longleftrightarrow>
     (case (as_str (dict_get kvs ''id''), as_str (dict_get kvs ''affected''), as_str (fixed_of kvs)) of
        (Some adv_id, Some affected, Some fixed) \<Rightarrow>
          is_advisory_id adv_id \<and> text_up_to (dict_get kvs ''summary'') MAX_SUMMARY \<noteq> [] \<and>
          constraints affected \<noteq> None \<and> (fixed = [] \<or> is_version fixed)
      | _ \<Rightarrow> False)"

definition advisory :: "json \<Rightarrow> py_error + json option" where
  "advisory raw =
     (case raw of
        JObj kvs \<Rightarrow>
          (if \<not> required_fields_ok kvs then Inr None
           else (case severity_of (dict_get kvs ''severity'') of
                   Inl x \<Rightarrow> Inl x
                 | Inr severity \<Rightarrow>
                     Inr (Some (JObj [(''id'', dict_get kvs ''id''),
                       (''cve_ids'', JList (cves_of (dict_get kvs ''cve_ids''))),
                       (''summary'', JStr (text_up_to (dict_get kvs ''summary'') MAX_SUMMARY)),
                       (''severity'', JStr severity), (''affected'', dict_get kvs ''affected''),
                       (''fixed'', fixed_of kvs), (''url'', JStr (https_link (dict_get kvs ''url'')))]))))
      | _ \<Rightarrow> Inr None)"

fun kept_advisories :: "json list \<Rightarrow> py_error + json list" where
  "kept_advisories [] = Inr []"
| "kept_advisories (raw # rest) =
     (case advisory raw of
        Inl x \<Rightarrow> Inl x
      | Inr a \<Rightarrow> (case kept_advisories rest of
                   Inl x \<Rightarrow> Inl x
                 | Inr kept \<Rightarrow> Inr (case a of None \<Rightarrow> kept | Some v \<Rightarrow> v # kept)))"

section \<open>The cache\<close>

definition CACHE_KEY :: string where "CACHE_KEY = ''openwhistle:update_check''"
definition ADVISORIES_KEY :: string where "ADVISORIES_KEY = ''openwhistle:update_check_advisories''"
definition ETAG_KEY :: string where "ETAG_KEY = ''openwhistle:update_check_etag''"
definition UPDATE_LOCK_KEY :: string where "UPDATE_LOCK_KEY = ''openwhistle:job_lock:update_check''"
definition CACHE_TTL :: int where "CACHE_TTL = 7 * 24 * 3600"

definition read_json :: "json_text \<Rightarrow> int \<Rightarrow> redis \<Rightarrow> string \<Rightarrow> json option" where
  "read_json js now r k =
     (case kv_get now r k of
        Some (Txt raw) \<Rightarrow> if raw = [] then None else js_loads js raw
      | _ \<Rightarrow> None)"

definition read_cache :: "json_text \<Rightarrow> int \<Rightarrow> redis \<Rightarrow> (string \<times> json) list option" where
  "read_cache js now r = (case read_json js now r CACHE_KEY of Some (JObj kvs) \<Rightarrow> Some kvs | _ \<Rightarrow> None)"

definition read_advisories :: "json_text \<Rightarrow> int \<Rightarrow> redis \<Rightarrow> json list" where
  "read_advisories js now r = (case read_json js now r ADVISORIES_KEY of Some (JList xs) \<Rightarrow> xs | _ \<Rightarrow> [])"

definition write_json :: "json_text \<Rightarrow> int \<Rightarrow> redis \<Rightarrow> string \<Rightarrow> json \<Rightarrow> redis" where
  "write_json js now r k v = kv_set now r k (Txt (js_dumps js v)) CACHE_TTL"

text \<open>What the far end answers: a failed request, or a status with its body (if JSON) and \<open>ETag\<close>.\<close>

datatype feed_answer = No_answer | Answer int "json option" "string option"

definition feed_headers :: "int \<Rightarrow> redis \<Rightarrow> (string \<times> string) list" where
  "feed_headers now r =
     [(''Accept'', ''application/json''), (''User-Agent'', ''OpenWhistle'')] @
     (case kv_get now r ETAG_KEY of Some (Txt etag) \<Rightarrow> if etag = [] then [] else [(''If-None-Match'', etag)] | _ \<Rightarrow> [])"

definition is_one :: "json \<Rightarrow> bool" where "is_one v \<longleftrightarrow> v = JInt 1 \<or> v = JBool True"

definition store_release ::
  "json_text \<Rightarrow> int \<Rightarrow> string \<Rightarrow> (string \<times> json) list \<Rightarrow> string option \<Rightarrow> redis
   \<Rightarrow> (string \<times> json) list option \<times> redis" where
  "store_release js now now_iso latest etag r =
     (let payload = dict_put latest ''checked_at'' (JStr now_iso);
          r1 = write_json js now r CACHE_KEY (JObj payload)
      in (Some payload,
          case etag of Some t \<Rightarrow> if t = [] then r1 else kv_set now r1 ETAG_KEY (Txt t) CACHE_TTL | None \<Rightarrow> r1))"

definition take_feed ::
  "json_text \<Rightarrow> int \<Rightarrow> string \<Rightarrow> (string \<times> json) list \<Rightarrow> string option \<Rightarrow> redis
   \<Rightarrow> (py_error + (string \<times> json) list option) \<times> redis" where
  "take_feed js now now_iso data etag r =
     (case (case dict_get data ''advisories'' of
              JList advisories \<Rightarrow>
                map_sum id (\<lambda>kept. write_json js now r ADVISORIES_KEY (JList kept))
                  (kept_advisories (take MAX_ADVISORIES advisories))
            | _ \<Rightarrow> Inr r) of
        Inl x \<Rightarrow> (Inl x, r)
      | Inr r1 \<Rightarrow>
          (case latest_of (dict_get data ''latest'') of
             None \<Rightarrow> (Inr (read_cache js now r1), r1)
           | Some latest \<Rightarrow> map_prod Inr id (store_release js now now_iso latest etag r1)))"

definition fetch_feed ::
  "json_text \<Rightarrow> int \<Rightarrow> string \<Rightarrow> feed_answer \<Rightarrow> redis
   \<Rightarrow> (py_error + (string \<times> json) list option) \<times> redis" where
  "fetch_feed js now now_iso answer r =
     (case answer of
        No_answer \<Rightarrow> (Inr (read_cache js now r), r)
      | Answer status body etag \<Rightarrow>
          (if status = 304
           then (case read_cache js now r of
                   None \<Rightarrow> (Inr None, r)
                 | Some cached \<Rightarrow>
                     (let cached = dict_put cached ''checked_at'' (JStr now_iso) in
                      (Inr (Some cached), write_json js now r CACHE_KEY (JObj cached))))
           else if status \<noteq> 200 then (Inr (read_cache js now r), r)
           else (case body of
                   Some (JObj data) \<Rightarrow>
                     (if is_one (dict_get data ''schema'') then take_feed js now now_iso data etag r
                      else (Inr (read_cache js now r), r))
                 | _ \<Rightarrow> (Inr (read_cache js now r), r))))"

text \<open>
  The daily job. \<open>lock_up\<close> says whether Redis answers the lock command; the answer and the later
  clock are those of the request.
\<close>

definition refresh_update_check ::
  "settings \<Rightarrow> json_text \<Rightarrow> bool \<Rightarrow> int \<Rightarrow> int \<Rightarrow> string \<Rightarrow> feed_answer \<Rightarrow> redis \<Rightarrow> py_error option \<times> redis" where
  "refresh_update_check cfg js lock_up now later now_iso answer r =
     (if \<not> cfg_update_check cfg then (None, r)
      else (let (acquired, r1) = (if lock_up then kv_setnx now r UPDATE_LOCK_KEY (Txt ''1'') 300 else (False, r)) in
            if lock_up \<and> \<not> acquired then (None, r1)
            else (let (result, r2) = fetch_feed js later now_iso answer r1 in
                  ((case result of Inl x \<Rightarrow> Some x | Inr _ \<Rightarrow> None),
                   if acquired then kv_del r2 UPDATE_LOCK_KEY else r2))))"

section \<open>What the admin pages show\<close>

text \<open>\<open>str\<close> of a value that is not text is the argument \<open>repr_of\<close>.\<close>

definition py_str :: "(json \<Rightarrow> string) \<Rightarrow> json \<Rightarrow> string" where
  "py_str repr_of v = (case v of JStr s \<Rightarrow> s | _ \<Rightarrow> repr_of v)"

fun affecting :: "(json \<Rightarrow> string) \<Rightarrow> json list \<Rightarrow> string \<Rightarrow> py_error + json list" where
  "affecting repr_of [] version = Inr []"
| "affecting repr_of (a # advisories) version =
     (case a of
        JObj kvs \<Rightarrow>
          (case version_in_range version
                  (py_str repr_of (case map_of kvs ''affected'' of None \<Rightarrow> JStr [] | Some v \<Rightarrow> v)) of
             None \<Rightarrow> Inl Value_error
           | Some inside \<Rightarrow> map_sum id (\<lambda>xs. if inside then a # xs else xs) (affecting repr_of advisories version))
      | _ \<Rightarrow> Inl Attribute_error)"

definition fixes_of :: "(json \<Rightarrow> string) \<Rightarrow> json list \<Rightarrow> string list" where
  "fixes_of repr_of advisories =
     concat (map (\<lambda>a. case a of JObj kvs \<Rightarrow> if truthy (dict_get kvs ''fixed'') then [py_str repr_of (dict_get kvs ''fixed'')] else []
                           | _ \<Rightarrow> []) advisories)"

text \<open>\<open>max\<close> with a key keeps the first of equal ones.\<close>

definition highest :: "string list \<Rightarrow> string" where
  "highest fixes =
     (case fixes of
        [] \<Rightarrow> []
      | f # fs \<Rightarrow> foldl (\<lambda>best x. if the (parse_version best) < the (parse_version x) then x else best) f fs)"

definition fixed_in :: "(json \<Rightarrow> string) \<Rightarrow> json list \<Rightarrow> py_error + string" where
  "fixed_in repr_of advisories =
     (let fixes = fixes_of repr_of advisories in
      if list_all (\<lambda>f. parse_version f \<noteq> None) fixes then Inr (highest fixes) else Inl Value_error)"

record update_status =
  us_enabled :: bool
  us_current :: string
  us_latest :: "string option"
  us_status :: string
  us_html_url :: json
  us_checked_at :: json
  us_advisories :: "json list"
  us_fixed_in :: string

definition unknown_status :: "settings \<Rightarrow> string \<Rightarrow> update_status" where
  "unknown_status cfg current =
     \<lparr>us_enabled = cfg_update_check cfg, us_current = current, us_latest = None, us_status = ''unknown'',
      us_html_url = JStr [], us_checked_at = JNull, us_advisories = [], us_fixed_in = []\<rparr>"

definition get_update_status ::
  "settings \<Rightarrow> json_text \<Rightarrow> (json \<Rightarrow> string) \<Rightarrow> int \<Rightarrow> redis \<Rightarrow> string \<Rightarrow> py_error + update_status" where
  "get_update_status cfg js repr_of now r current =
     (let cached = read_cache js now r;
          status = (if \<not> cfg_update_check cfg then Inr (unknown_status cfg current)
                    else (case affecting repr_of (read_advisories js now r) current of
                            Inl x \<Rightarrow> Inl x
                          | Inr hit \<Rightarrow> map_sum id (\<lambda>f. (unknown_status cfg current)\<lparr>us_advisories := hit, us_fixed_in := f\<rparr>)
                                        (fixed_in repr_of hit)))
      in case status of
           Inl x \<Rightarrow> Inl x
         | Inr s \<Rightarrow>
             (case cached of
                None \<Rightarrow> Inr s
              | Some kvs \<Rightarrow>
                  (if \<not> truthy (dict_get kvs ''tag_name'') then Inr s
                   else (case as_str (dict_get kvs ''tag_name'') of
                           None \<Rightarrow> Inl Attribute_error
                         | Some latest \<Rightarrow>
                             (case compare_versions current latest of
                                None \<Rightarrow> Inl Value_error
                              | Some v \<Rightarrow>
                                  Inr (s\<lparr>us_latest := Some latest, us_status := v,
                                         us_html_url := (case map_of kvs ''html_url'' of None \<Rightarrow> JStr [] | Some u \<Rightarrow> u),
                                         us_checked_at := dict_get kvs ''checked_at''\<rparr>))))))"

section \<open>The order of versions\<close>

text \<open>A version without the zeros it ends in: what is left is compared from left to right.\<close>

fun significant :: "nat list \<Rightarrow> nat list" where
  "significant [] = []"
| "significant (x # xs) = (let s = significant xs in if x = 0 \<and> s = [] then [] else x # s)"

lemma significant_zeros [simp]: "significant (replicate n 0) = []"
  by (induction n) simp_all

lemma significant_pad [simp]: "significant (pad w xs) = significant xs"
proof (induction xs arbitrary: w)
  case (Cons x xs)
  have "pad w (x # xs) = x # pad (w - 1) xs" by (cases w) (simp_all add: pad_def)
  then show ?case by (simp add: Cons)
qed (simp add: pad_def)

lemma Nil_less_iff [simp]: "[] < (ys :: nat list) \<longleftrightarrow> ys \<noteq> []"
  by (cases ys) auto

lemma same_width_order:
  assumes "length a = length b"
  shows "(a < b \<longleftrightarrow> significant a < significant b) \<and> (a = b \<longleftrightarrow> significant a = significant b)"
  using assms by (induction rule: list_induct2) (auto simp: Let_def)

lemma length_pad: "length xs \<le> w \<Longrightarrow> length (pad w xs) = w"
  by (simp add: pad_def)

lemma rel_holds_pad:
  assumes "length a \<le> w" "length b \<le> w"
  shows "rel_holds rel (pad w a) (pad w b) \<longleftrightarrow> rel_holds rel (significant a) (significant b)"
proof -
  have l: "length (pad w a) = length (pad w b)" using assms by (simp add: length_pad)
  show ?thesis using same_width_order [OF l] same_width_order [OF l [symmetric]]
    by (cases rel) (auto simp: order.order_iff_strict)
qed

lemma split_at_absent: "c \<notin> set s \<Longrightarrow> split_at c s = [s]"
  by (induction s) auto

lemma split_at_not_Nil [simp]: "split_at c s \<noteq> []"
  by (induction s) (auto split: list.split)

lemma split_at_chars: "x \<in> set s \<Longrightarrow> x = c \<or> (\<exists>p \<in> set (split_at c s). x \<in> set p)"
  by (induction s) (auto split: list.split)

lemma strip_no_space:
  assumes "\<forall>c \<in> set s. \<not> is_space c" shows "strip s = s"
proof -
  have d: "dropWhile is_space t = t" if "set t \<subseteq> set s" for t
    using that assms by (cases t) auto
  show ?thesis by (simp add: strip_def d)
qed

lemma leading_numbers_decimal:
  "list_all (\<lambda>p. 1 \<le> length p \<and> length p \<le> 6 \<and> list_all decimal_char p) ps \<Longrightarrow>
   \<exists>ns. leading_numbers ps = Some ns"
  by (induction ps) (auto simp: py_isdigit_def py_int_def list_all_iff)

lemma version_parses:
  assumes "is_version s" shows "\<exists>ns. parse_version s = Some ns"
proof -
  define t where "t = (case s of [] \<Rightarrow> [] | c # cs \<Rightarrow> if is_v c then cs else s)"
  have ps: "list_all (\<lambda>p. 1 \<le> length p \<and> length p \<le> 6 \<and> list_all decimal_char p) (split_at (CHR ''.'') t)"
    using assms by (simp add: is_version_def t_def Let_def)
  have chars: "decimal_char c \<or> c = CHR ''.''" if "c \<in> set t" for c
    using split_at_chars [OF that, of "CHR ''.''"] ps by (auto simp: list_all_iff)
  have t: "t \<noteq> []" using ps by auto
  have hd: "decimal_char (hd t)"
    using ps t by (cases t) (auto split: list.splits if_splits)
  have st: "s = t \<or> (\<exists>c. is_v c \<and> s = c # t)" using t by (auto simp: t_def split: list.splits if_splits)
  have other: "\<not> is_space c" "c \<noteq> CHR ''-''" "c \<noteq> CHR ''+''" if "c \<in> set t" for c
    using chars [OF that] by (auto simp: decimal_char_def code_of_def is_space_def Let_def)
  have "\<not> is_space c" if "is_v c" for c using that by (auto simp: is_v_def is_space_def)
  then have "strip s = s" using st other by (intro strip_no_space) auto
  moreover have "\<not> is_v (hd t)" using hd by (auto simp: is_v_def decimal_char_def code_of_def)
  then have "dropWhile is_v s = t" using st t by (cases t) auto
  moreover have "split_at (CHR ''-'') t = [t]" "split_at (CHR ''+'') t = [t]"
    using other by (auto intro!: split_at_absent)
  ultimately show ?thesis using leading_numbers_decimal [OF ps] by (auto simp: parse_version_def)
qed

lemma all_or_none_Some: "all_or_none xs = Some ys \<Longrightarrow> xs = map Some ys"
  by (induction xs arbitrary: ys rule: all_or_none.induct) auto

lemma constraints_versions:
  assumes "constraints r = Some cs" "(rel, b) \<in> set cs" shows "is_version b"
proof -
  have "map constraint_of (split_at (CHR '','') r) = map Some cs"
    using assms(1) by (intro all_or_none_Some) (auto simp: constraints_def split: if_splits)
  with assms(2) obtain raw where "constraint_of raw = Some (rel, b)"
    by (metis (no_types) image_eqI image_iff list.set_map)
  then show ?thesis by (auto simp: constraint_of_def Let_def split: if_splits)
qed

lemma meets_all_order:
  assumes "\<forall>(rel, b) \<in> set cs. is_version b"
  shows "meets_all current cs =
    Some (\<forall>(rel, b) \<in> set cs. rel_holds rel (significant current) (significant (the (parse_version b))))"
  using assms
proof (induction current cs rule: meets_all.induct)
  case (2 current rel raw cs)
  then obtain bound where b: "parse_version raw = Some bound" using version_parses by fastforce
  with 2 show ?case by (auto simp: Let_def rel_holds_pad)
qed simp

text \<open>
  A version lies in an advisory's range exactly when every constraint of the range parses and
  the version stands in the named relation to its bound, in the order that compares the numbers from
  the left and counts missing ones as zero: 2.4 and 2.4.0 are one version.
\<close>

theorem version_in_range_order:
  assumes "parse_version version = Some current"
  shows "version_in_range version r =
    Some (case constraints r of
            None \<Rightarrow> False
          | Some cs \<Rightarrow> list_all (\<lambda>(rel, b).
              rel_holds rel (significant current) (significant (the (parse_version b)))) cs)"
proof (cases "constraints r")
  case (Some cs)
  then have "\<forall>(rel, b) \<in> set cs. is_version b" using constraints_versions by blast
  from meets_all_order [OF this, of current] show ?thesis
    by (simp add: version_in_range_def assms Some list_all_iff case_prod_beta)
qed (simp add: version_in_range_def)

theorem version_in_range_order_witness:
  "parse_version ''v2.4'' = Some [2, 4] \<and> version_in_range ''v2.4'' ''>= 2.4.0, < 2.4.2'' = Some True"
proof -
  have h: "parse_version ''v2.4'' = Some [2, 4]" by code_simp
  have "(case constraints ''>= 2.4.0, < 2.4.2'' of
            None \<Rightarrow> False
          | Some cs \<Rightarrow> list_all (\<lambda>(rel, b).
              rel_holds rel (significant [2, 4]) (significant (the (parse_version b)))) cs)" by code_simp
  with version_in_range_order [OF h, of "''>= 2.4.0, < 2.4.2''"] h show ?thesis by simp
qed
section \<open>The feed is untrusted: what the cache holds\<close>

definition text_field :: "(string \<times> json) list \<Rightarrow> string \<Rightarrow> (string \<Rightarrow> bool) \<Rightarrow> bool" where
  "text_field kvs k P \<longleftrightarrow> (case as_str (dict_get kvs k) of Some s \<Rightarrow> P s | None \<Rightarrow> False)"

definition wf_link :: "string \<Rightarrow> bool" where
  "wf_link u \<longleftrightarrow> u = [] \<or> starts_with ''https://'' u \<and> length u \<le> 500"

definition wf_cves :: "json \<Rightarrow> bool" where
  "wf_cves v \<longleftrightarrow>
     (case v of
        JList cs \<Rightarrow> length cs \<le> MAX_CVES \<and> list_all (\<lambda>c. case as_str c of Some s \<Rightarrow> is_cve_id s | None \<Rightarrow> False) cs
      | _ \<Rightarrow> False)"

definition wf_advisory :: "json \<Rightarrow> bool" where
  "wf_advisory v \<longleftrightarrow>
     (case v of
        JObj kvs \<Rightarrow>
          text_field kvs ''id'' is_advisory_id \<and>
          text_field kvs ''summary'' (\<lambda>s. 1 \<le> length s \<and> length s \<le> MAX_SUMMARY) \<and>
          text_field kvs ''severity'' (\<lambda>s. s \<in> set ([] # SEVERITIES)) \<and>
          text_field kvs ''affected'' (\<lambda>s. constraints s \<noteq> None) \<and>
          text_field kvs ''fixed'' (\<lambda>s. s = [] \<or> is_version s) \<and>
          text_field kvs ''url'' wf_link \<and> wf_cves (dict_get kvs ''cve_ids'')
      | _ \<Rightarrow> False)"

definition wf_release :: "(string \<times> json) list \<Rightarrow> bool" where
  "wf_release kvs \<longleftrightarrow>
     text_field kvs ''tag_name'' is_version \<and> text_field kvs ''html_url'' wf_link \<and>
     text_field kvs ''published_at'' (\<lambda>s. length s \<le> 40)"

definition cache_ok :: "json_text \<Rightarrow> redis \<Rightarrow> bool" where
  "cache_ok js r \<longleftrightarrow>
     (\<forall>now. (case read_cache js now r of Some kvs \<Rightarrow> wf_release kvs | None \<Rightarrow> True) \<and>
        list_all wf_advisory (read_advisories js now r) \<and> length (read_advisories js now r) \<le> MAX_ADVISORIES)"

lemma update_keys_distinct [simp]:
  "CACHE_KEY \<noteq> ADVISORIES_KEY" "ADVISORIES_KEY \<noteq> CACHE_KEY" "ETAG_KEY \<noteq> CACHE_KEY" "CACHE_KEY \<noteq> ETAG_KEY"
  "ETAG_KEY \<noteq> ADVISORIES_KEY" "ADVISORIES_KEY \<noteq> ETAG_KEY" "UPDATE_LOCK_KEY \<noteq> CACHE_KEY"
  "UPDATE_LOCK_KEY \<noteq> ADVISORIES_KEY"
  by (simp_all add: CACHE_KEY_def ADVISORIES_KEY_def ETAG_KEY_def UPDATE_LOCK_KEY_def)

lemma https_link_wf: "wf_link (https_link v)"
  by (cases "as_str v") (auto simp: https_link_def wf_link_def)

lemma text_up_to_length: "length (text_up_to v n) \<le> n"
  by (cases "as_str v") (auto simp: text_up_to_def)

lemma cves_of_wf: "wf_cves (JList (cves_of v))"
  by (cases v) (auto simp: wf_cves_def cves_of_def list_all_iff dest: in_set_takeD)

lemma severity_of_wf: "severity_of v = Inr s \<Longrightarrow> s \<in> set ([] # SEVERITIES)"
  by (cases v) (auto simp: severity_of_def split: if_splits)

lemma advisory_wf:
  assumes "advisory raw = Inr (Some v)" shows "wf_advisory v"
proof -
  from assms obtain kvs severity where raw: "raw = JObj kvs" and req: "required_fields_ok kvs"
    and sev: "severity_of (dict_get kvs ''severity'') = Inr severity"
    and v: "v = JObj [(''id'', dict_get kvs ''id''),
                       (''cve_ids'', JList (cves_of (dict_get kvs ''cve_ids''))),
                       (''summary'', JStr (text_up_to (dict_get kvs ''summary'') MAX_SUMMARY)),
                       (''severity'', JStr severity), (''affected'', dict_get kvs ''affected''),
                       (''fixed'', fixed_of kvs), (''url'', JStr (https_link (dict_get kvs ''url'')))]"
    by (auto simp: advisory_def split: json.splits if_splits sum.splits)
  from req have "text_up_to (dict_get kvs ''summary'') MAX_SUMMARY \<noteq> []"
    "\<exists>i. as_str (dict_get kvs ''id'') = Some i \<and> is_advisory_id i"
    "\<exists>a. as_str (dict_get kvs ''affected'') = Some a \<and> constraints a \<noteq> None"
    "\<exists>f. as_str (fixed_of kvs) = Some f \<and> (f = [] \<or> is_version f)"
    by (auto simp: required_fields_ok_def split: option.splits)
  moreover have "1 \<le> length (text_up_to (dict_get kvs ''summary'') MAX_SUMMARY)"
    using calculation(1) by (simp add: Suc_le_eq)
  ultimately show ?thesis
    using severity_of_wf [OF sev] https_link_wf cves_of_wf text_up_to_length
    unfolding v wf_advisory_def text_field_def by (auto simp: dict_get_def [of "_ # _"])
qed

lemma kept_advisories_wf:
  "kept_advisories raws = Inr kept \<Longrightarrow> list_all wf_advisory kept \<and> length kept \<le> length raws"
proof (induction raws arbitrary: kept)
  case (Cons raw rest)
  from Cons.prems obtain a more where a: "advisory raw = Inr a" and m: "kept_advisories rest = Inr more"
    and k: "kept = (case a of None \<Rightarrow> more | Some v \<Rightarrow> v # more)"
    by (auto split: sum.splits)
  from Cons.IH [OF m] k a advisory_wf show ?case by (cases a) auto
qed simp

lemma latest_of_wf: "latest_of raw = Some kvs \<Longrightarrow> wf_release kvs"
  using https_link_wf text_up_to_length
  by (auto simp: latest_of_def wf_release_def text_field_def dict_get_def [of "_ # _"]
      split: json.splits option.splits if_splits)

lemma wf_release_checked [simp]: "wf_release (dict_put kvs ''checked_at'' v) = wf_release kvs"
  by (simp add: wf_release_def text_field_def)

lemma read_json_set:
  "read_json js t (kv_set now r k (Txt x) s) j =
     (if j = k then (if t < now + s * 1000 \<and> x \<noteq> [] then js_loads js x else None) else read_json js t r j)"
  by (simp add: read_json_def kv_set_def kv_get_put)

definition honest_text :: "json_text \<Rightarrow> bool" where
  "honest_text js \<longleftrightarrow> (\<forall>v w. js_loads js (js_dumps js v) = Some w \<longrightarrow> w = v)"

lemma cache_ok_release:
  assumes "cache_ok js r" "honest_text js" "wf_release kvs"
  shows "cache_ok js (write_json js now r CACHE_KEY (JObj kvs))"
proof -
  have "w = JObj kvs" if "js_loads js (js_dumps js (JObj kvs)) = Some w" for w
    using assms(2) that by (auto simp: honest_text_def)
  then show ?thesis
    using assms(1,3)
    by (auto simp: cache_ok_def read_cache_def read_advisories_def write_json_def read_json_set
        split: option.splits json.splits)
qed

lemma cache_ok_advisories:
  assumes "cache_ok js r" "honest_text js" "list_all wf_advisory kept" "length kept \<le> MAX_ADVISORIES"
  shows "cache_ok js (write_json js now r ADVISORIES_KEY (JList kept))"
proof -
  have "w = JList kept" if "js_loads js (js_dumps js (JList kept)) = Some w" for w
    using assms(2) that by (auto simp: honest_text_def)
  then show ?thesis
    using assms(1,3,4)
    by (auto simp: cache_ok_def read_cache_def read_advisories_def write_json_def read_json_set
        split: option.splits json.splits)
qed

lemma cache_ok_etag: "cache_ok js r \<Longrightarrow> cache_ok js (kv_set now r ETAG_KEY (Txt t) s)"
  by (simp add: cache_ok_def read_cache_def read_advisories_def read_json_set)

lemma cache_ok_take_feed:
  assumes "cache_ok js r" "honest_text js"
  shows "cache_ok js (snd (take_feed js now now_iso data etag r))"
proof -
  define stored where "stored = (case dict_get data ''advisories'' of
      JList advisories \<Rightarrow> map_sum id (\<lambda>kept. write_json js now r ADVISORIES_KEY (JList kept))
                  (kept_advisories (take MAX_ADVISORIES advisories))
    | _ \<Rightarrow> Inr r)"
  have ok: "cache_ok js r1" if "stored = Inr r1" for r1
    using that assms kept_advisories_wf
    by (fastforce simp: stored_def map_sum_def intro: cache_ok_advisories split: json.splits sum.splits)
  show ?thesis
  proof (cases stored)
    case (Inr r1)
    then show ?thesis
      using ok [OF Inr] assms(2) latest_of_wf
      by (auto simp: take_feed_def stored_def [symmetric] store_release_def Let_def
          intro!: cache_ok_release cache_ok_etag split: option.splits)
  qed (simp add: take_feed_def stored_def [symmetric] assms)
qed

lemma cache_ok_fetch:
  assumes "cache_ok js r" "honest_text js"
  shows "cache_ok js (snd (fetch_feed js now now_iso answer r))"
proof -
  have "wf_release kvs" if "read_cache js now r = Some kvs" for kvs
    using assms(1) that by (auto simp: cache_ok_def split: option.splits)
  then show ?thesis
    using assms cache_ok_take_feed
    by (auto simp: fetch_feed_def Let_def intro!: cache_ok_release split: feed_answer.split option.split json.split)
qed

lemma text_fieldE:
  assumes "text_field kvs k P"
  obtains s where "map_of kvs k = Some (JStr s)" "dict_get kvs k = JStr s" "P s"
  using assms by (auto simp: text_field_def dict_get_def split: option.splits)

lemma version_in_range_total:
  assumes "parse_version version \<noteq> None" shows "\<exists>b. version_in_range version r = Some b"
proof (cases "constraints r")
  case (Some cs)
  then have "\<forall>(rel, b) \<in> set cs. is_version b" using constraints_versions by blast
  then show ?thesis using assms meets_all_order by (auto simp: version_in_range_def Some)
qed (auto simp: version_in_range_def)

lemma affecting_total:
  assumes "list_all wf_advisory advisories" "parse_version version \<noteq> None"
  shows "\<exists>hit. affecting repr_of advisories version = Inr hit \<and> list_all wf_advisory hit"
  using assms(1)
proof (induction advisories)
  case (Cons a advisories)
  then obtain kvs where a: "a = JObj kvs" by (auto simp: wf_advisory_def split: json.splits)
  have "wf_advisory a" using Cons by simp
  then have "text_field kvs ''affected'' (\<lambda>s. constraints s \<noteq> None)" by (simp add: a wf_advisory_def)
  then obtain s where s: "map_of kvs ''affected'' = Some (JStr s)" by (rule text_fieldE)
  obtain b where "version_in_range version s = Some b" using version_in_range_total [OF assms(2)] by blast
  with Cons s show ?case by (auto simp: a py_str_def)
qed simp

lemma fixed_in_total:
  assumes "list_all wf_advisory advisories" shows "\<exists>f. fixed_in repr_of advisories = Inr f"
proof -
  have "parse_version f \<noteq> None" if "a \<in> set advisories" "a = JObj kvs" "truthy (dict_get kvs ''fixed'')"
    "f = py_str repr_of (dict_get kvs ''fixed'')" for a kvs f
  proof -
    have "wf_advisory a" using assms that(1) by (simp add: list_all_iff)
    then have "text_field kvs ''fixed'' (\<lambda>s. s = [] \<or> is_version s)" by (simp add: that wf_advisory_def)
    then obtain s where "dict_get kvs ''fixed'' = JStr s" "s = [] \<or> is_version s" by (rule text_fieldE)
    with that(3,4) version_parses [of s] show ?thesis by (auto simp: py_str_def)
  qed
  then show ?thesis
    by (auto simp: fixed_in_def fixes_of_def list_all_iff Let_def split: json.splits if_splits)
qed

lemma status_total:
  assumes "cache_ok js r" "parse_version current \<noteq> None"
  shows "\<exists>s. get_update_status cfg js repr_of now r current = Inr s"
proof -
  obtain hit where hit: "affecting repr_of (read_advisories js now r) current = Inr hit" "list_all wf_advisory hit"
    using affecting_total assms by (metis cache_ok_def)
  obtain f where f: "fixed_in repr_of hit = Inr f" using fixed_in_total [OF hit(2)] by blast
  have release: "\<exists>t v. dict_get kvs ''tag_name'' = JStr t \<and> compare_versions current t = Some v"
    if "read_cache js now r = Some kvs" for kvs
  proof -
    have "text_field kvs ''tag_name'' is_version"
      using assms(1) that by (auto simp: cache_ok_def wf_release_def split: option.splits)
    then obtain t where "dict_get kvs ''tag_name'' = JStr t" "is_version t" by (rule text_fieldE)
    with version_parses [of t] assms(2) show ?thesis by (auto simp: compare_versions_def)
  qed
  show ?thesis
  proof (cases "read_cache js now r")
    case None
    then show ?thesis by (simp add: get_update_status_def Let_def hit(1) f)
  next
    case (Some kvs)
    with release obtain t v where "dict_get kvs ''tag_name'' = JStr t" "compare_versions current t = Some v" by blast
    then show ?thesis by (simp add: get_update_status_def Let_def hit(1) f Some)
  qed
qed

text \<open>
  C33. Whatever the far end answers, the cache holds only a release and at most a hundred advisories of
  the types the pages render (versions, ranges that parse, identifiers, links that are https or
  empty), and the status of a running version that parses is then worked out without an exception.
\<close>

theorem feed_cache_well_typed:
  assumes "cache_ok js r" "honest_text js"
  shows "cache_ok js (snd (fetch_feed js now now_iso answer r)) \<and>
    (parse_version current \<noteq> None \<longrightarrow>
       (\<exists>s. get_update_status cfg js repr_of later (snd (fetch_feed js now now_iso answer r)) current = Inr s))"
  using cache_ok_fetch [OF assms] status_total by blast

text \<open>A feed, and a text form that knows the values stored from it.\<close>

definition sample_advisory :: "json \<Rightarrow> json" where
  "sample_advisory severity = JObj [(''id'', JStr ''GHSA-1''), (''summary'', JStr ''s''), (''severity'', severity),
     (''affected'', JStr ''< 2.5.2''), (''fixed'', JStr ''2.5.2''), (''url'', JStr ''javascript:x'')]"

definition sample_feed :: "json \<Rightarrow> json" where
  "sample_feed severity = JObj [(''schema'', JInt 1), (''latest'', JObj [(''version'', JStr ''2.5.2'')]),
     (''advisories'', JList [sample_advisory severity])]"

definition sample_kept :: json where
  "sample_kept = JList [JObj [(''id'', JStr ''GHSA-1''), (''cve_ids'', JList []), (''summary'', JStr ''s''),
     (''severity'', JStr ''high''), (''affected'', JStr ''< 2.5.2''), (''fixed'', JStr ''2.5.2''), (''url'', JStr [])]]"

definition sample_release :: "string \<Rightarrow> json" where
  "sample_release checked = JObj [(''tag_name'', JStr ''2.5.2''), (''html_url'', JStr []), (''published_at'', JStr []),
     (''checked_at'', JStr checked)]"

definition sample_text :: json_text where
  "sample_text = \<lparr>js_dumps = (\<lambda>v. if v = sample_kept then ''K'' else if v = sample_release ''t0'' then ''R''
       else if v = sample_release ''t1'' then ''S'' else ''?''),
     js_loads = (\<lambda>s. if s = ''K'' then Some sample_kept else if s = ''R'' then Some (sample_release ''t0'')
       else if s = ''S'' then Some (sample_release ''t1'') else None)\<rparr>"

lemma sample_text_honest: "honest_text sample_text"
  by (simp add: honest_text_def sample_text_def)

lemma cache_ok_empty: "cache_ok js []"
  by (simp add: cache_ok_def read_cache_def read_advisories_def read_json_def kv_get_def kv_entry_def)

theorem feed_cache_well_typed_witness:
  "cache_ok sample_text [] \<and> honest_text sample_text \<and> parse_version ''2.5.1'' \<noteq> None \<and>
   (let r = snd (fetch_feed sample_text 0 ''t0'' (Answer 200 (Some (sample_feed (JStr ''high''))) None) []) in
    cache_ok sample_text r \<and> (\<exists>s. get_update_status sample_settings sample_text (\<lambda>_. []) 1 r ''2.5.1'' = Inr s))"
proof -
  have v: "parse_version ''2.5.1'' \<noteq> None" by code_simp
  show ?thesis
    unfolding Let_def
    using v sample_text_honest cache_ok_empty
      feed_cache_well_typed [OF cache_ok_empty sample_text_honest, of 0 "''t0''"
        "Answer 200 (Some (sample_feed (JStr ''high''))) None" "''2.5.1''" sample_settings "\<lambda>_. []" 1] by blast
qed

section \<open>Where the refresh falls short\<close>

lemma kept_advisories_raises:
  assumes "raw \<in> set raws" "advisory raw = Inl Type_error" "\<forall>a \<in> set raws. \<forall>x. advisory a = Inl x \<longrightarrow> x = Type_error"
  shows "kept_advisories raws = Inl Type_error"
  using assms(1,3)
proof (induction raws)
  case (Cons a rest)
  show ?case
  proof (cases "advisory a")
    case (Inr w)
    then have "raw \<in> set rest" using Cons.prems(1) assms(2) by auto
    with Cons Inr show ?thesis by simp
  qed (use Cons.prems(2) in simp)
qed simp

lemma advisory_only_type_error: "advisory a = Inl x \<Longrightarrow> x = Type_error"
  by (auto simp: advisory_def severity_of_def split: json.splits if_splits)

text \<open>
  One advisory whose severity is a list or an object, the rest of it in order, makes the refresh
  raise: nothing of the feed is stored, neither the other advisories nor the latest release, where the
  feed's rules say that such an advisory is shown without a severity.
\<close>

theorem garbled_severity_loses_the_feed:
  assumes "dict_get data ''schema'' = JInt 1" "dict_get data ''advisories'' = JList advisories"
    "JObj kvs \<in> set (take MAX_ADVISORIES advisories)" "required_fields_ok kvs"
    "dict_get kvs ''severity'' = JList xs"
  shows "fetch_feed js now now_iso (Answer 200 (Some (JObj data)) etag) r = (Inl Type_error, r)"
proof -
  have "advisory (JObj kvs) = Inl Type_error"
    using assms(4,5) by (simp add: advisory_def severity_of_def)
  from kept_advisories_raises [OF assms(3) this] advisory_only_type_error
  have "kept_advisories (take MAX_ADVISORIES advisories) = Inl Type_error" by blast
  then show ?thesis using assms(1,2) by (simp add: fetch_feed_def take_feed_def is_one_def)
qed

theorem garbled_severity_loses_the_feed_witness:
  "fetch_feed sample_text 0 ''t0'' (Answer 200 (Some (sample_feed (JList []))) None) [] = (Inl Type_error, [])"
proof -
  let ?data = "[(''schema'', JInt 1), (''latest'', JObj [(''version'', JStr ''2.5.2'')]),
     (''advisories'', JList [sample_advisory (JList [])])]"
  let ?kvs = "[(''id'', JStr ''GHSA-1''), (''summary'', JStr ''s''), (''severity'', JList []),
     (''affected'', JStr ''< 2.5.2''), (''fixed'', JStr ''2.5.2''), (''url'', JStr ''javascript:x'')]"
  have h: "dict_get ?data ''schema'' = JInt 1" "dict_get ?data ''advisories'' = JList [sample_advisory (JList [])]"
    "JObj ?kvs \<in> set (take MAX_ADVISORIES [sample_advisory (JList [])])" "required_fields_ok ?kvs"
    "dict_get ?kvs ''severity'' = JList []" by code_simp+
  show ?thesis using garbled_severity_loses_the_feed [OF h] by (simp add: sample_feed_def)
qed

text \<open>
  While the feed stays unchanged the daily refresh renews the release and its own time, not the
  advisories: seven days after they were stored they are gone, with the release still there, and the
  pages say that no advisory affects the running version until the next fetch of the whole file.
\<close>

theorem advisories_lapse_while_unchanged:
  assumes "dict_get data ''schema'' = JInt 1" "dict_get data ''advisories'' = JList advisories"
    "kept_advisories (take MAX_ADVISORIES advisories) = Inr kept" "latest_of (dict_get data ''latest'') = Some latest"
    "reads_back js (JObj (dict_put latest ''checked_at'' (JStr iso0)))"
    "reads_back js (JObj (dict_put (dict_put latest ''checked_at'' (JStr iso0)) ''checked_at'' (JStr iso1)))"
    "t0 \<le> t1" "t1 < t0 + CACHE_TTL * 1000" "t0 + CACHE_TTL * 1000 \<le> t" "t < t1 + CACHE_TTL * 1000"
  shows "let r1 = snd (fetch_feed js t0 iso0 (Answer 200 (Some (JObj data)) etag) r);
             r2 = snd (fetch_feed js t1 iso1 (Answer 304 None etag) r1)
         in read_cache js t r2 \<noteq> None \<and> read_advisories js t r2 = []"
proof -
  define p0 where "p0 = dict_put latest ''checked_at'' (JStr iso0)"
  define r1 where "r1 = snd (fetch_feed js t0 iso0 (Answer 200 (Some (JObj data)) etag) r)"
  have r1: "read_json js s r1 CACHE_KEY = (if s < t0 + CACHE_TTL * 1000 then Some (JObj p0) else None)"
    "t0 + CACHE_TTL * 1000 \<le> s \<Longrightarrow> read_json js s r1 ADVISORIES_KEY = None" for s
    using assms(1-5)
    by (auto simp: r1_def p0_def fetch_feed_def take_feed_def is_one_def store_release_def Let_def write_json_def
        read_json_set reads_back_def split: option.split)
  have c: "read_cache js t1 r1 = Some p0" using r1(1) [of t1] assms(8) by (simp add: read_cache_def)
  have "snd (fetch_feed js t1 iso1 (Answer 304 None etag) r1) =
      write_json js t1 r1 CACHE_KEY (JObj (dict_put p0 ''checked_at'' (JStr iso1)))"
    by (simp add: fetch_feed_def c Let_def)
  then show ?thesis
    using assms(6,9,10) r1(2) [OF assms(9)]
    by (simp add: Let_def r1_def [symmetric] write_json_def read_cache_def read_advisories_def read_json_set
        reads_back_def p0_def)
qed

theorem advisories_lapse_while_unchanged_witness:
  "let r1 = snd (fetch_feed sample_text 0 ''t0'' (Answer 200 (Some (sample_feed (JStr ''high''))) None) []);
       r2 = snd (fetch_feed sample_text (6 * 86400000) ''t1'' (Answer 304 None None) r1)
   in read_cache sample_text (7 * 86400000) r2 \<noteq> None \<and> read_advisories sample_text (7 * 86400000) r2 = []"
proof -
  let ?data = "[(''schema'', JInt 1), (''latest'', JObj [(''version'', JStr ''2.5.2'')]),
     (''advisories'', JList [sample_advisory (JStr ''high'')])]"
  let ?latest = "[(''tag_name'', JStr ''2.5.2''), (''html_url'', JStr []), (''published_at'', JStr [])]"
  have p: "JObj (dict_put ?latest ''checked_at'' (JStr i)) = sample_release i" for i
    by (simp add: dict_put_def sample_release_def)
  have q: "JObj (dict_put (dict_put ?latest ''checked_at'' (JStr ''t0'')) ''checked_at'' (JStr ''t1'')) = sample_release ''t1''"
    by code_simp
  have h: "dict_get ?data ''schema'' = JInt 1" "dict_get ?data ''advisories'' = JList [sample_advisory (JStr ''high'')]"
    "kept_advisories (take MAX_ADVISORIES [sample_advisory (JStr ''high'')]) = Inr (case sample_kept of JList k \<Rightarrow> k)"
    "latest_of (dict_get ?data ''latest'') = Some ?latest"
    "reads_back sample_text (JObj (dict_put ?latest ''checked_at'' (JStr ''t0'')))"
    "reads_back sample_text (JObj (dict_put (dict_put ?latest ''checked_at'' (JStr ''t0'')) ''checked_at'' (JStr ''t1'')))"
    "(0::int) \<le> 6 * 86400000" "6 * 86400000 < 0 + CACHE_TTL * 1000" "0 + CACHE_TTL * 1000 \<le> 7 * 86400000"
    "7 * 86400000 < 6 * 86400000 + CACHE_TTL * 1000" by code_simp+
  show ?thesis
    using advisories_lapse_while_unchanged [OF h, of None "[]"] by (simp only: sample_feed_def)
qed

end
