(* ===== verification/Notifications.thy ===== *)
theory Notifications
  imports Domain Json Reachability
begin

text \<open>
  The notices to the organisation's admins (\<open>app/services/notifications.py\<close>): what each channel is
  sent, the queue of the digest, its delivery and the forgetting of an erased case; then the queue as
  a state machine shared by the replicas. Whether the mail server and the webhook take a message, the
  text form of JSON and HMAC are arguments. Text is UTF-8; the queue's two Redis sets, which nothing
  else touches, are two lists without duplicates.
\<close>

section \<open>What leaves the server\<close>

record mail =
  ml_subject :: string
  ml_from :: string
  ml_to :: string
  ml_body :: string
  ml_recipients :: "string list"
  ml_host :: string
  ml_port :: int
  ml_use_tls :: bool
  ml_start_tls :: bool
  ml_username :: string
  ml_password :: string

record post =
  po_url :: string
  po_payload :: json
  po_signature :: "string option"

datatype outgoing = Mail mail | Post post

text \<open>The far ends, and \<open>json.dumps\<close> with HMAC-SHA256 under the webhook's secret.\<close>

record channels =
  ch_smtp :: "mail \<Rightarrow> bool"
  ch_webhook :: "post \<Rightarrow> bool"
  ch_sign :: "string \<Rightarrow> json \<Rightarrow> string"

definition utf8 :: "nat list \<Rightarrow> string" where "utf8 bs = map char_of bs"
definition warning_sign :: string where "warning_sign = utf8 [226, 154, 160]"
definition bell :: string where "bell = utf8 [240, 159, 148, 148]"
definition dash :: string where "dash = utf8 [226, 128, 148]"
definition arrow :: string where "arrow = utf8 [226, 134, 146]"
definition newline :: string where "newline = [CHR 0x0A]"

definition rstrip_slash :: "string \<Rightarrow> string" where
  "rstrip_slash s = rev (dropWhile (\<lambda>c. c = CHR ''/'') (rev s))"

definition dashboard_url :: "settings \<Rightarrow> string" where
  "dashboard_url cfg = rstrip_slash (cfg_app_public_url cfg) @ ''/admin/dashboard''"

fun join_with :: "string \<Rightarrow> string list \<Rightarrow> string" where
  "join_with sep [] = []"
| "join_with sep [x] = x"
| "join_with sep (x # xs) = x @ sep @ join_with sep xs"

definition recipients_of :: "settings \<Rightarrow> string list" where
  "recipients_of cfg = filter (\<lambda>r. r \<noteq> []) (map strip (split_at (CHR '','') (cfg_notify_email_to cfg)))"

definition mail_to :: "settings \<Rightarrow> string list \<Rightarrow> string \<Rightarrow> string \<Rightarrow> mail" where
  "mail_to cfg recipients subject body =
     \<lparr>ml_subject = subject, ml_from = cfg_notify_email_from cfg, ml_to = join_with '', '' recipients,
      ml_body = body, ml_recipients = recipients, ml_host = cfg_notify_smtp_host cfg,
      ml_port = cfg_notify_smtp_port cfg, ml_use_tls = cfg_notify_smtp_ssl cfg,
      ml_start_tls = cfg_notify_smtp_tls cfg \<and> \<not> cfg_notify_smtp_ssl cfg,
      ml_username = cfg_notify_smtp_user cfg, ml_password = cfg_notify_smtp_password cfg\<rparr>"

definition post_of :: "settings \<Rightarrow> channels \<Rightarrow> json \<Rightarrow> post" where
  "post_of cfg ch payload =
     \<lparr>po_url = cfg_notify_webhook_url cfg, po_payload = payload,
      po_signature = (if cfg_notify_webhook_secret cfg = [] then None
                      else Some (''sha256='' @ ch_sign ch (cfg_notify_webhook_secret cfg) payload))\<rparr>"

definition email_on :: "settings \<Rightarrow> bool" where
  "email_on cfg \<longleftrightarrow> cfg_notify_email cfg \<and> strip (cfg_notify_email_to cfg) \<noteq> []"

definition webhook_on :: "settings \<Rightarrow> bool" where
  "webhook_on cfg \<longleftrightarrow> cfg_notify_webhook cfg \<and> strip (cfg_notify_webhook_url cfg) \<noteq> []"

definition channels_enabled :: "settings \<Rightarrow> bool" where
  "channels_enabled cfg \<longleftrightarrow> email_on cfg \<or> webhook_on cfg"

definition batching_enabled :: "settings \<Rightarrow> bool" where
  "batching_enabled cfg \<longleftrightarrow> 0 < cfg_notification_batch_minutes cfg \<and> channels_enabled cfg"

section \<open>Mails\<close>

definition reply_mail :: "settings \<Rightarrow> string \<Rightarrow> mail" where
  "reply_mail cfg secure_email =
     (mail_to cfg [secure_email] (''New reply on your report '' @ dash @ '' '' @ cfg_app_name cfg)
        (''You have a new reply on your report submitted to '' @ cfg_app_name cfg @ ''.'' @ newline @ newline @
         ''Log in at '' @ rstrip_slash (cfg_app_public_url cfg) @ ''/status using your case number and PIN to read it.'' @
         newline @ newline @ ''This notification does not contain any report content to protect your privacy.''))
       \<lparr>ml_to := secure_email\<rparr>"

definition notify_reply_to_whistleblower :: "settings \<Rightarrow> string \<Rightarrow> outgoing list" where
  "notify_reply_to_whistleblower cfg secure_email =
     (if \<not> cfg_notify_email cfg then [] else [Mail (reply_mail cfg secure_email)])"

definition send_reminder_email ::
  "settings \<Rightarrow> channels \<Rightarrow> string \<Rightarrow> string \<Rightarrow> int \<Rightarrow> outgoing list \<times> bool" where
  "send_reminder_email cfg ch case_number deadline_label days_left =
     (let recipients = recipients_of cfg;
          m = mail_to cfg recipients
                (warning_sign @ '' SLA reminder: '' @ deadline_label @ '' '' @ dash @ '' '' @ cfg_app_name cfg)
                (''SLA reminder for '' @ cfg_app_name cfg @ ''.'' @ newline @ newline @
                 ''Case number : '' @ case_number @ newline @ ''Deadline    : '' @ deadline_label @ newline @
                 ''Days left   : '' @ string_of_int days_left @ newline @ newline @
                 ''Review the case: '' @ dashboard_url cfg @ newline)
      in if recipients = [] then ([], False) else ([Mail m], ch_smtp ch m))"

definition summary :: "string list \<Rightarrow> string" where
  "summary cases = (if cases \<noteq> [] then string_of_int (int (length cases)) @ '' ('' @ join_with '', '' cases @ '')'' else ''0'')"

definition send_email :: "settings \<Rightarrow> channels \<Rightarrow> string list \<Rightarrow> string list \<Rightarrow> outgoing list \<times> bool" where
  "send_email cfg ch new_reports new_messages =
     (let recipients = recipients_of cfg;
          m = mail_to cfg recipients (''New activity '' @ dash @ '' '' @ cfg_app_name cfg)
                (''New activity on '' @ cfg_app_name cfg @ ''.'' @ newline @ newline @
                 ''New reports                  : '' @ summary new_reports @ newline @
                 ''New whistleblower messages on: '' @ summary new_messages @ newline @ newline @
                 ''Review them in the admin dashboard:'' @ newline @ dashboard_url cfg @ newline @ newline @
                 ''-- '' @ newline @ ''No report content is included in this notification'' @
                 (if 0 < cfg_notification_batch_minutes cfg
                  then '', and notifications'' @ newline @
                       ''are batched, so their timing does not reveal when a report was sent.''
                  else ''.''))
      in if recipients = [] then ([], False) else ([Mail m], ch_smtp ch m))"

section \<open>Webhook payloads\<close>

definition plural :: "int \<Rightarrow> string \<Rightarrow> string \<Rightarrow> string" where
  "plural n one many = string_of_int n @ '' '' @ (if n = 1 then one else many)"

definition reminder_text :: "int \<Rightarrow> int \<Rightarrow> int \<Rightarrow> int \<Rightarrow> string" where
  "reminder_text ack_due feedback_due ack_days feedback_days =
     join_with ''; ''
       ((if ack_due \<noteq> 0 then [plural ack_due ''case'' ''cases'' @ '': acknowledgement due within '' @ string_of_int ack_days @ '' days''] else []) @
        (if feedback_due \<noteq> 0 then [plural feedback_due ''case'' ''cases'' @ '': feedback due within '' @ string_of_int feedback_days @ '' days''] else []))"

definition activity_text :: "int \<Rightarrow> int \<Rightarrow> string" where
  "activity_text new_reports new_messages =
     plural new_reports ''new report'' ''new reports'' @ '', '' @
     plural new_messages ''case with new messages'' ''cases with new messages''"

definition slack_card :: "string \<Rightarrow> string \<Rightarrow> string \<Rightarrow> string \<Rightarrow> json" where
  "slack_card header txt url style =
     JObj [(''blocks'', JList
       [JObj [(''type'', JStr ''header''),
              (''text'', JObj [(''type'', JStr ''plain_text''), (''text'', JStr header)])],
        JObj [(''type'', JStr ''section''),
              (''text'', JObj [(''type'', JStr ''mrkdwn''), (''text'', JStr txt)])],
        JObj [(''type'', JStr ''actions''),
              (''elements'', JList
                [JObj [(''type'', JStr ''button''),
                       (''text'', JObj [(''type'', JStr ''plain_text''), (''text'', JStr (''Open dashboard '' @ arrow))]),
                       (''url'', JStr url), (''style'', JStr style)]])]])]"

definition teams_card :: "json list \<Rightarrow> (string \<times> json) list \<Rightarrow> json" where
  "teams_card body actions =
     JObj [(''type'', JStr ''message''),
           (''attachments'', JList
             [JObj [(''contentType'', JStr ''application/vnd.microsoft.card.adaptive''),
                    (''content'', JObj
                      ([(''$schema'', JStr ''http://adaptivecards.io/schemas/adaptive-card.json''),
                        (''type'', JStr ''AdaptiveCard''), (''version'', JStr ''1.4''),
                        (''body'', JList body)] @ actions))]])]"

definition open_dashboard :: "string \<Rightarrow> (string \<times> json) list" where
  "open_dashboard url =
     [(''actions'', JList [JObj [(''type'', JStr ''Action.OpenUrl''), (''title'', JStr ''Open dashboard''),
                                 (''url'', JStr url)]])]"

definition build_reminder_payload :: "int \<Rightarrow> int \<Rightarrow> settings \<Rightarrow> json" where
  "build_reminder_payload ack_due feedback_due cfg =
     (let txt = reminder_text ack_due feedback_due (cfg_reminder_ack_warn_days cfg) (cfg_reminder_feedback_warn_days cfg) in
      if cfg_notify_webhook_type cfg = ''slack''
      then slack_card (warning_sign @ '' SLA reminder '' @ dash @ '' '' @ cfg_app_name cfg) txt (dashboard_url cfg) ''danger''
      else if cfg_notify_webhook_type cfg = ''teams''
      then teams_card
             [JObj [(''type'', JStr ''TextBlock''), (''size'', JStr ''Medium''), (''weight'', JStr ''Bolder''),
                    (''text'', JStr (''SLA reminder '' @ dash @ '' '' @ cfg_app_name cfg)), (''color'', JStr ''Warning'')],
              JObj [(''type'', JStr ''TextBlock''), (''wrap'', JBool True), (''text'', JStr txt)]]
             (open_dashboard (dashboard_url cfg))
      else JObj [(''event'', JStr ''sla_reminder''), (''ack_due'', JInt ack_due),
                 (''feedback_due'', JInt feedback_due), (''message'', JStr txt)])"

definition build_webhook_payload :: "int \<Rightarrow> int \<Rightarrow> settings \<Rightarrow> json" where
  "build_webhook_payload new_reports new_messages cfg =
     (let txt = activity_text new_reports new_messages in
      if cfg_notify_webhook_type cfg = ''slack''
      then slack_card (bell @ '' New activity '' @ dash @ '' '' @ cfg_app_name cfg) txt (dashboard_url cfg) ''primary''
      else if cfg_notify_webhook_type cfg = ''teams''
      then teams_card
             [JObj [(''type'', JStr ''TextBlock''), (''size'', JStr ''Medium''), (''weight'', JStr ''Bolder''),
                    (''text'', JStr (''New activity '' @ dash @ '' '' @ cfg_app_name cfg))],
              JObj [(''type'', JStr ''FactSet''),
                    (''facts'', JList [JObj [(''title'', JStr ''Activity''), (''value'', JStr txt)]])]]
             (open_dashboard (dashboard_url cfg))
      else JObj [(''event'', JStr ''new_activity''), (''new_reports'', JInt new_reports),
                 (''new_messages'', JInt new_messages), (''message'', JStr txt)])"

definition build_security_alert_payload :: "string \<Rightarrow> string \<Rightarrow> settings \<Rightarrow> json" where
  "build_security_alert_payload subject txt cfg =
     (if cfg_notify_webhook_type cfg = ''slack''
      then JObj [(''text'', JStr (''*'' @ subject @ ''*'' @ newline @ txt))]
      else if cfg_notify_webhook_type cfg = ''teams''
      then teams_card
             [JObj [(''type'', JStr ''TextBlock''), (''weight'', JStr ''Bolder''), (''color'', JStr ''Attention''),
                    (''text'', JStr subject)],
              JObj [(''type'', JStr ''TextBlock''), (''wrap'', JBool True), (''text'', JStr txt)]] []
      else JObj [(''event'', JStr ''security_alert''), (''subject'', JStr subject), (''message'', JStr txt)])"

section \<open>Sending\<close>

definition send_reminder_webhook :: "settings \<Rightarrow> channels \<Rightarrow> int \<Rightarrow> int \<Rightarrow> outgoing list" where
  "send_reminder_webhook cfg ch ack_due feedback_due =
     [Post (post_of cfg ch (build_reminder_payload ack_due feedback_due cfg))]"

definition send_webhook :: "settings \<Rightarrow> channels \<Rightarrow> string list \<Rightarrow> string list \<Rightarrow> outgoing list \<times> bool" where
  "send_webhook cfg ch new_reports new_messages =
     (let p = post_of cfg ch (build_webhook_payload (int (length new_reports)) (int (length new_messages)) cfg)
      in ([Post p], ch_webhook ch p))"

text \<open>True when no channel is on, or when one of them delivered.\<close>

definition deliver :: "settings \<Rightarrow> channels \<Rightarrow> string list \<Rightarrow> string list \<Rightarrow> outgoing list \<times> bool" where
  "deliver cfg ch reports messages =
     (let tasks = (if email_on cfg then [send_email cfg ch reports messages] else []) @
                  (if webhook_on cfg then [send_webhook cfg ch reports messages] else [])
      in (concat (map fst tasks), tasks = [] \<or> list_ex snd tasks))"

definition notify_security_alert :: "settings \<Rightarrow> channels \<Rightarrow> string \<Rightarrow> string \<Rightarrow> outgoing list" where
  "notify_security_alert cfg ch subject txt =
     (if \<not> channels_enabled cfg then []
      else (if email_on cfg
            then [Mail (mail_to cfg (recipients_of cfg) (subject @ '' '' @ dash @ '' '' @ cfg_app_name cfg) txt)] else []) @
           (if webhook_on cfg then [Post (post_of cfg ch (build_security_alert_payload subject txt cfg))] else []))"

section \<open>The queue\<close>

datatype notice_kind = New_reports | New_messages

type_synonym queue = "notice_kind \<Rightarrow> string list"

definition q_add :: "notice_kind \<Rightarrow> string list \<Rightarrow> queue \<Rightarrow> queue" where
  "q_add kind cases q = q(kind := remdups (q kind @ cases))"

definition queue_or_send ::
  "settings \<Rightarrow> channels \<Rightarrow> notice_kind \<Rightarrow> string \<Rightarrow> queue \<Rightarrow> outgoing list \<times> queue" where
  "queue_or_send cfg ch kind case_number q =
     (if \<not> channels_enabled cfg then ([], q)
      else if cfg_notification_batch_minutes cfg \<le> 0
      then (fst (case kind of New_reports \<Rightarrow> deliver cfg ch [case_number] []
                            | New_messages \<Rightarrow> deliver cfg ch [] [case_number]), q)
      else ([], q_add kind [case_number] q))"

definition ack_dedup_key :: "string \<Rightarrow> string" where "ack_dedup_key c = ''reminder:ack:'' @ c"
definition feedback_dedup_key :: "string \<Rightarrow> string" where "feedback_dedup_key c = ''reminder:feedback:'' @ c"

definition q_forget :: "string \<Rightarrow> queue \<Rightarrow> queue" where
  "q_forget c q = (\<lambda>kind. filter (\<lambda>x. x \<noteq> c) (q kind))"

definition forget_case :: "string \<Rightarrow> redis \<times> queue \<Rightarrow> redis \<times> queue" where
  "forget_case c = (\<lambda>(r, q). (kv_del_all r [ack_dedup_key c, feedback_dedup_key c], q_forget c q))"

text \<open>The three commands of the digest: take everything in one transaction, deliver, put back.\<close>

definition take_queue :: "queue \<Rightarrow> queue \<times> queue" where
  "take_queue q = (q, \<lambda>_. [])"

definition requeue :: "queue \<Rightarrow> queue \<Rightarrow> queue" where
  "requeue taken q =
     (let q1 = (if taken New_reports \<noteq> [] then q_add New_reports (taken New_reports) q else q)
      in if taken New_messages \<noteq> [] then q_add New_messages (taken New_messages) q1 else q1)"

definition deliver_taken :: "settings \<Rightarrow> channels \<Rightarrow> queue \<Rightarrow> outgoing list \<times> bool" where
  "deliver_taken cfg ch taken =
     (if taken New_reports = [] \<and> taken New_messages = [] then ([], True)
      else deliver cfg ch (sort (taken New_reports)) (sort (taken New_messages)))"

definition deliver_notification_digest :: "settings \<Rightarrow> channels \<Rightarrow> queue \<Rightarrow> outgoing list \<times> queue" where
  "deliver_notification_digest cfg ch q =
     (let (taken, q1) = take_queue q; (out, sent) = deliver_taken cfg ch taken
      in (out, if sent then q1 else requeue taken q1))"

section \<open>The digest job\<close>

definition posts :: "outgoing list \<Rightarrow> post list" where
  "posts out = concat (map (\<lambda>x. case x of Post p \<Rightarrow> [p] | Mail m \<Rightarrow> []) out)"

lemma posts_append [simp]: "posts (a @ b) = posts a @ posts b"
  by (simp add: posts_def)

lemma posts_simps [simp]: "posts [] = []" "posts (Mail m # xs) = posts xs" "posts (Post p # xs) = p # posts xs"
  by (simp_all add: posts_def)

lemma posts_send_email [simp]: "posts (fst (send_email cfg ch a b)) = []"
  by (simp add: send_email_def Let_def)

lemma posts_deliver:
  "posts (fst (deliver cfg ch a b)) =
     (if webhook_on cfg
      then [post_of cfg ch (build_webhook_payload (int (length a)) (int (length b)) cfg)] else [])"
  by (simp add: deliver_def send_webhook_def Let_def)

lemma posts_digest:
  "posts (fst (deliver_notification_digest cfg ch q)) =
     (if webhook_on cfg \<and> \<not> (q New_reports = [] \<and> q New_messages = [])
      then [post_of cfg ch (build_webhook_payload (int (length (q New_reports))) (int (length (q New_messages))) cfg)]
      else [])"
  by (simp add: deliver_notification_digest_def take_queue_def deliver_taken_def case_prod_beta posts_deliver)

lemma deliver_fails:
  assumes "channels_enabled cfg" "ch_smtp ch = (\<lambda>_. False)" "ch_webhook ch = (\<lambda>_. False)"
  shows "\<not> snd (deliver cfg ch a b)"
  using assms by (auto simp: deliver_def channels_enabled_def send_email_def send_webhook_def Let_def)

lemma set_q_add: "set (q_add kind cases q k) = (if k = kind then set (q k) \<union> set cases else set (q k))"
  by (simp add: q_add_def)

lemma set_requeue: "set (requeue taken q k) = set (q k) \<union> set (taken k)"
  by (cases k) (auto simp: requeue_def Let_def set_q_add)

section \<open>One queue, several replicas\<close>

text \<open>
  Every replica runs the job at the same moment; between the transaction and the delivery what it took
  is in its hands only. A stopped process, and Redis refusing the put back, lose what was taken.
\<close>

record notice_world =
  nw_queue :: queue
  nw_hands :: "queue list"
  nw_sent :: "queue list"
  nw_lost :: "queue list"
  nw_noticed :: "(notice_kind \<times> string) list"
  nw_erased :: "string list"

inductive notice_step :: "settings \<Rightarrow> notice_world \<Rightarrow> notice_world \<Rightarrow> bool" for cfg where
  notice: "batching_enabled cfg \<Longrightarrow> c \<notin> set (nw_erased w) \<Longrightarrow> queue_or_send cfg ch k c (nw_queue w) = (out, q) \<Longrightarrow>
     notice_step cfg w (w\<lparr>nw_queue := q, nw_noticed := (k, c) # nw_noticed w\<rparr>)"
| taking: "take_queue (nw_queue w) = (taken, q) \<Longrightarrow>
     notice_step cfg w (w\<lparr>nw_queue := q, nw_hands := taken # nw_hands w\<rparr>)"
| sending: "nw_hands w = hs @ h # hs' \<Longrightarrow> deliver_taken cfg ch h = (out, True) \<Longrightarrow>
     notice_step cfg w (w\<lparr>nw_hands := hs @ hs', nw_sent := h # nw_sent w\<rparr>)"
| putting_back: "nw_hands w = hs @ h # hs' \<Longrightarrow> deliver_taken cfg ch h = (out, False) \<Longrightarrow>
     notice_step cfg w (w\<lparr>nw_hands := hs @ hs', nw_queue := requeue h (nw_queue w)\<rparr>)"
| stopping: "nw_hands w = hs @ h # hs' \<Longrightarrow>
     notice_step cfg w (w\<lparr>nw_hands := hs @ hs', nw_lost := h # nw_lost w\<rparr>)"
| erasing: "forget_case c (r, nw_queue w) = (r', q) \<Longrightarrow>
     notice_step cfg w (w\<lparr>nw_queue := q, nw_erased := c # nw_erased w\<rparr>)"

definition quiet :: notice_world where
  "quiet = \<lparr>nw_queue = (\<lambda>_. []), nw_hands = [], nw_sent = [], nw_lost = [], nw_noticed = [], nw_erased = []\<rparr>"

abbreviation noticing :: "settings \<Rightarrow> notice_world \<Rightarrow> bool" where
  "noticing cfg \<equiv> reachable (\<lambda>w. w = quiet) (notice_step cfg)"

definition mentions :: "notice_kind \<Rightarrow> string \<Rightarrow> queue list \<Rightarrow> nat" where
  "mentions k c hs = length (filter (\<lambda>h. c \<in> set (h k)) hs)"

lemma mentions_simps [simp]:
  "mentions k c [] = 0" "mentions k c (h # hs) = (if c \<in> set (h k) then Suc (mentions k c hs) else mentions k c hs)"
  "mentions k c (hs @ hs') = mentions k c hs + mentions k c hs'"
  by (simp_all add: mentions_def)

definition notice_copies :: "notice_world \<Rightarrow> notice_kind \<Rightarrow> string \<Rightarrow> nat" where
  "notice_copies w k c =
     (if c \<in> set (nw_queue w k) then 1 else 0) + mentions k c (nw_hands w) + mentions k c (nw_sent w)
     + mentions k c (nw_lost w)"

definition notice_inv :: "notice_world \<Rightarrow> bool" where
  "notice_inv w \<longleftrightarrow>
     (\<forall>k c. notice_copies w k c \<le> count_list (nw_noticed w) (k, c) \<and>
        ((k, c) \<in> set (nw_noticed w) \<longrightarrow> 0 < notice_copies w k c \<or> c \<in> set (nw_erased w)))"

lemma notice_inv_same:
  assumes "notice_inv w" "nw_noticed w' = nw_noticed w" "set (nw_erased w) \<subseteq> set (nw_erased w')"
    "\<And>k c. notice_copies w' k c \<le> notice_copies w k c"
    "\<And>k c. 0 < notice_copies w k c \<Longrightarrow> 0 < notice_copies w' k c \<or> c \<in> set (nw_erased w')"
  shows "notice_inv w'"
  unfolding notice_inv_def
proof (intro allI)
  fix k c
  have "notice_copies w k c \<le> count_list (nw_noticed w) (k, c)"
    "(k, c) \<in> set (nw_noticed w) \<longrightarrow> 0 < notice_copies w k c \<or> c \<in> set (nw_erased w)"
    using assms(1) unfolding notice_inv_def by blast+
  then show "notice_copies w' k c \<le> count_list (nw_noticed w') (k, c) \<and>
      ((k, c) \<in> set (nw_noticed w') \<longrightarrow> 0 < notice_copies w' k c \<or> c \<in> set (nw_erased w'))"
    using assms(3) assms(4) [of k c] assms(5) [of k c] unfolding assms(2) by auto
qed

lemma notice_inv_step:
  assumes "notice_inv w" "notice_step cfg w w'" shows "notice_inv w'"
  using assms(2)
proof cases
  case (notice c ch k out q)
  then have q: "q = q_add k [c] (nw_queue w)" by (auto simp: batching_enabled_def queue_or_send_def)
  have copies: "notice_copies w' j x =
      (if j = k \<and> x = c \<and> c \<notin> set (nw_queue w k) then Suc (notice_copies w j x) else notice_copies w j x)" for j x
    by (simp add: notice_copies_def notice(1) q set_q_add)
  have here: "0 < notice_copies w' k c" by (simp add: notice_copies_def notice(1) q set_q_add)
  have noticed: "nw_noticed w' = (k, c) # nw_noticed w" "nw_erased w' = nw_erased w" by (simp_all add: notice(1))
  show ?thesis
    unfolding notice_inv_def
  proof (intro allI)
    fix j x
    have "notice_copies w j x \<le> count_list (nw_noticed w) (j, x)"
      "(j, x) \<in> set (nw_noticed w) \<longrightarrow> 0 < notice_copies w j x \<or> x \<in> set (nw_erased w)"
      using assms(1) unfolding notice_inv_def by blast+
    then show "notice_copies w' j x \<le> count_list (nw_noticed w') (j, x) \<and>
        ((j, x) \<in> set (nw_noticed w') \<longrightarrow> 0 < notice_copies w' j x \<or> x \<in> set (nw_erased w'))"
      using here unfolding noticed by (auto simp: copies)
  qed
next
  case (taking taken q)
  have "notice_copies w' k c = notice_copies w k c" for k c
    using taking(2) by (auto simp: notice_copies_def taking(1) take_queue_def)
  then show ?thesis by (intro notice_inv_same [OF assms(1)]) (simp_all add: taking(1))
next
  case (sending hs h hs' ch out)
  have "notice_copies w' k c = notice_copies w k c" for k c
    by (simp add: notice_copies_def sending(1,2))
  then show ?thesis by (intro notice_inv_same [OF assms(1)]) (simp_all add: sending(1))
next
  case (putting_back hs h hs' ch out)
  have "notice_copies w' k c \<le> notice_copies w k c" "0 < notice_copies w k c \<Longrightarrow> 0 < notice_copies w' k c" for k c
    by (auto simp: notice_copies_def putting_back(1,2) set_requeue split: if_splits)
  then show ?thesis by (intro notice_inv_same [OF assms(1)]) (simp_all add: putting_back(1))
next
  case (stopping hs h hs')
  have "notice_copies w' k c = notice_copies w k c" for k c
    by (simp add: notice_copies_def stopping(1,2))
  then show ?thesis by (intro notice_inv_same [OF assms(1)]) (simp_all add: stopping(1))
next
  case (erasing c r r' q)
  have "notice_copies w' k x \<le> notice_copies w k x" "x \<noteq> c \<Longrightarrow> notice_copies w' k x = notice_copies w k x" for k x
    using erasing(2) by (auto simp: notice_copies_def erasing(1) forget_case_def q_forget_def)
  moreover have "c \<in> set (nw_erased w')" "set (nw_erased w) \<subseteq> set (nw_erased w')" by (auto simp: erasing(1))
  ultimately show ?thesis
    by (intro notice_inv_same [OF assms(1)]) (simp add: erasing(1), blast, blast, metis)
qed

interpretation notices: invariant_system "\<lambda>w. w = quiet" "notice_step cfg" notice_inv for cfg
  by unfold_locales (simp add: notice_inv_def quiet_def notice_copies_def, rule notice_inv_step)

text \<open>
  C16. However the replicas' jobs interleave, a notice that was queued is in the queue, in one
  replica's hands, sent, or lost with a stopped process, unless its case was erased; and over all of
  these a case is mentioned no more often than it was queued: no two replicas send the same notice.
\<close>

theorem notices_sent_once:
  assumes "noticing cfg w"
  shows "((k, c) \<in> set (nw_noticed w) \<longrightarrow> c \<in> set (nw_erased w) \<or> c \<in> set (nw_queue w k) \<or>
      0 < mentions k c (nw_hands w @ nw_sent w @ nw_lost w)) \<and>
    mentions k c (nw_hands w @ nw_sent w @ nw_lost w) \<le> count_list (nw_noticed w) (k, c)"
proof -
  have copies: "notice_copies w k c \<le> count_list (nw_noticed w) (k, c)"
    "(k, c) \<in> set (nw_noticed w) \<longrightarrow> 0 < notice_copies w k c \<or> c \<in> set (nw_erased w)"
    using notices.inv_reachable [OF assms] by (auto simp: notice_inv_def)
  then show ?thesis by (auto simp: notice_copies_def split: if_splits)
qed

definition mail_settings :: settings where
  "mail_settings = sample_settings\<lparr>cfg_notify_email := True, cfg_notify_email_to := ''a@b''\<rparr>"

definition deaf :: channels where
  "deaf = \<lparr>ch_smtp = (\<lambda>_. False), ch_webhook = (\<lambda>_. False), ch_sign = (\<lambda>_ _. [])\<rparr>"

lemma mail_settings_on: "batching_enabled mail_settings" "channels_enabled mail_settings"
  by code_simp+

lemma noticing_one:
  assumes "batching_enabled cfg"
  shows "noticing cfg (quiet\<lparr>nw_queue := q_add k [c] (\<lambda>_. []), nw_noticed := [(k, c)]\<rparr>)"
proof -
  have "queue_or_send cfg deaf k c (nw_queue quiet) = ([], q_add k [c] (\<lambda>_. []))"
    using assms by (simp add: batching_enabled_def queue_or_send_def quiet_def)
  then have "notice_step cfg quiet (quiet\<lparr>nw_queue := q_add k [c] (\<lambda>_. []), nw_noticed := [(k, c)]\<rparr>)"
    using notice_step.notice [OF assms, of c quiet deaf k "[]" "q_add k [c] (\<lambda>_. [])"] by (simp add: quiet_def)
  moreover have "noticing cfg quiet" by (rule reachable.start) simp
  ultimately show ?thesis by (rule reachable.step [rotated])
qed

theorem notices_sent_once_witness:
  "let w = quiet\<lparr>nw_queue := q_add New_reports [''c''] (\<lambda>_. []), nw_noticed := [(New_reports, ''c'')]\<rparr> in
   noticing mail_settings w \<and> mentions New_reports ''c'' (nw_hands w @ nw_sent w @ nw_lost w) \<le> 1"
  using noticing_one [OF mail_settings_on(1), of New_reports "''c''"]
    notices_sent_once [OF noticing_one [OF mail_settings_on(1), of New_reports "''c''"], of New_reports "''c''"]
  by (simp add: Let_def)

text \<open>
  Erasing a case takes it out of the queue, not out of the hands of a replica that is delivering:
  when that delivery fails the erased case's number is put back, and the next digest mails it.
\<close>

theorem erased_case_comes_back:
  assumes "batching_enabled cfg"
  shows "\<exists>w. noticing cfg w \<and> c \<in> set (nw_erased w) \<and> c \<in> set (nw_queue w k)"
proof -
  define held where "held = q_add k [c] (\<lambda>_. [])"
  define w1 where "w1 = quiet\<lparr>nw_queue := held, nw_noticed := [(k, c)]\<rparr>"
  define w2 where "w2 = w1\<lparr>nw_queue := \<lambda>_. [], nw_hands := [held]\<rparr>"
  define w3 where "w3 = w2\<lparr>nw_erased := [c]\<rparr>"
  define w4 where "w4 = w3\<lparr>nw_hands := [], nw_queue := requeue held (\<lambda>_. [])\<rparr>"
  have "noticing cfg w1" using noticing_one [OF assms] by (simp add: w1_def held_def)
  moreover have "notice_step cfg w1 w2"
    using notice_step.taking [of w1 held "\<lambda>_. []" cfg]
    by (simp add: take_queue_def w2_def w1_def quiet_def)
  moreover have "notice_step cfg w2 w3"
    using notice_step.erasing [of c "[]" w2 "[]" "\<lambda>_. []" cfg]
    by (simp add: w3_def w2_def w1_def quiet_def forget_case_def q_forget_def kv_del_all_def)
  moreover have "\<not> snd (deliver_taken cfg deaf held)"
  proof -
    have "held k \<noteq> []" by (simp add: held_def q_add_def)
    then have "\<not> (held New_reports = [] \<and> held New_messages = [])" by (cases k) auto
    then show ?thesis
      unfolding deliver_taken_def
      using deliver_fails [of cfg deaf] assms by (simp add: batching_enabled_def deaf_def)
  qed
  then have "deliver_taken cfg deaf held = (fst (deliver_taken cfg deaf held), False)" by (simp add: prod_eq_iff)
  from notice_step.putting_back [OF _ this, of w3 "[]" "[]"] have "notice_step cfg w3 w4"
    by (simp add: w4_def w3_def w2_def w1_def quiet_def)
  ultimately have "noticing cfg w4" by (meson reachable.step)
  moreover have "c \<in> set (nw_erased w4)" "c \<in> set (nw_queue w4 k)"
    by (simp_all add: w4_def w3_def set_requeue held_def set_q_add)
  ultimately show ?thesis by blast
qed

theorem erased_case_comes_back_witness:
  "\<exists>w. noticing mail_settings w \<and> ''OW-1'' \<in> set (nw_erased w) \<and> ''OW-1'' \<in> set (nw_queue w New_reports)"
  by (rule erased_case_comes_back [OF mail_settings_on(1)])

end
