(* ===== verification/Reminders.thy ===== *)
theory Reminders
  imports Notifications Report_Service
begin

text \<open>
  The reminders before the statutory deadlines (\<open>app/services/reminders.py\<close>): the check of one report,
  the run over all open ones under its lock, and what a sequence of runs sends. The clock is read once
  per run, as the source does; an exception on one report is the value \<open>None\<close>.
\<close>

section \<open>One report\<close>

datatype reminder_kind = Ack_reminder | Feedback_reminder

definition dedup_ttl_seconds :: "int \<Rightarrow> int" where
  "dedup_ttl_seconds days_left = max days_left 0 * 86400 + 86400"

definition dispatch_reminder ::
  "settings \<Rightarrow> channels \<Rightarrow> string \<Rightarrow> string \<Rightarrow> int \<Rightarrow> outgoing list \<times> bool" where
  "dispatch_reminder cfg ch case_number deadline_label days_left =
     (if email_on cfg then send_reminder_email cfg ch case_number deadline_label days_left else ([], True))"

definition remind ::
  "env \<Rightarrow> channels \<Rightarrow> string \<Rightarrow> string \<Rightarrow> string \<Rightarrow> int \<Rightarrow> redis \<Rightarrow> (outgoing list \<times> bool) \<times> redis" where
  "remind e ch case_number deadline_label key days_left rd =
     (if kv_exists (millis e) rd key then (([], False), rd)
      else (let (out, sent) = dispatch_reminder (env_cfg e) ch case_number deadline_label days_left
            in ((out, sent), if sent then kv_set (millis e) rd key (Txt ''1'') (dedup_ttl_seconds days_left) else rd)))"

definition ack_days_left :: "env \<Rightarrow> report \<Rightarrow> int option" where
  "ack_days_left e r = map_option (\<lambda>due. days_between due (utc (env_now e))) (ack_due (utc (rep_submitted_at r)))"

definition check_ack_reminder ::
  "env \<Rightarrow> channels \<Rightarrow> report \<Rightarrow> redis \<Rightarrow> (outgoing list \<times> bool) option \<times> redis" where
  "check_ack_reminder e ch r rd =
     (if rep_acknowledged_at r \<noteq> None then (Some ([], False), rd)
      else (case ack_days_left e r of
              None \<Rightarrow> (None, rd)
            | Some days_left \<Rightarrow>
                (if days_left > cfg_reminder_ack_warn_days (env_cfg e) then (Some ([], False), rd)
                 else map_prod Some id (remind e ch (rep_case_number r) ''7-day acknowledgement''
                        (ack_dedup_key (rep_case_number r)) days_left rd))))"

definition check_feedback_reminder ::
  "env \<Rightarrow> channels \<Rightarrow> report \<Rightarrow> redis \<Rightarrow> (outgoing list \<times> bool) option \<times> redis" where
  "check_feedback_reminder e ch r rd =
     (case rep_feedback_due_at r of
        None \<Rightarrow> (Some ([], False), rd)
      | Some due \<Rightarrow>
          (if rep_feedback_sent_at r \<noteq> None then (Some ([], False), rd)
           else (let days_left = days_between (utc due) (utc (env_now e)) in
                 if days_left > cfg_reminder_feedback_warn_days (env_cfg e) then (Some ([], False), rd)
                 else map_prod Some id (remind e ch (rep_case_number r) ''3-month feedback''
                        (feedback_dedup_key (rep_case_number r)) days_left rd))))"

section \<open>One run\<close>

record run_state =
  rs_redis :: redis
  rs_out :: "outgoing list"
  rs_done :: "(reminder_kind \<times> string) list"

text \<open>An exception on the first check leaves the second one of that report out.\<close>

definition check_report :: "env \<Rightarrow> channels \<Rightarrow> report \<Rightarrow> run_state \<Rightarrow> run_state" where
  "check_report e ch r s =
     (case check_ack_reminder e ch r (rs_redis s) of
        (None, rd) \<Rightarrow> s\<lparr>rs_redis := rd\<rparr>
      | (Some (out, sent), rd) \<Rightarrow>
          (let s1 = \<lparr>rs_redis = rd, rs_out = rs_out s @ out,
                     rs_done = rs_done s @ (if sent then [(Ack_reminder, rep_case_number r)] else [])\<rparr> in
           case check_feedback_reminder e ch r (rs_redis s1) of
             (None, rd) \<Rightarrow> s1\<lparr>rs_redis := rd\<rparr>
           | (Some (out, sent), rd) \<Rightarrow>
               \<lparr>rs_redis = rd, rs_out = rs_out s1 @ out,
                rs_done = rs_done s1 @ (if sent then [(Feedback_reminder, rep_case_number r)] else [])\<rparr>))"

definition done_count :: "reminder_kind \<Rightarrow> (reminder_kind \<times> string) list \<Rightarrow> int" where
  "done_count k dones = int (length (filter (\<lambda>x. fst x = k) dones))"

definition SLA_LOCK_KEY :: string where "SLA_LOCK_KEY = ''openwhistle:job_lock:sla_reminders''"

definition send_sla_reminders :: "env \<Rightarrow> channels \<Rightarrow> db \<Rightarrow> redis \<Rightarrow> run_state" where
  "send_sla_reminders e ch d rd =
     (if \<not> cfg_reminder_enabled (env_cfg e) then \<lparr>rs_redis = rd, rs_out = [], rs_done = []\<rparr>
      else (let (acquired, rd1) = kv_setnx (millis e) rd SLA_LOCK_KEY (Txt ''1'') 300 in
            if \<not> acquired then \<lparr>rs_redis = rd1, rs_out = [], rs_done = []\<rparr>
            else (let s = fold (check_report e ch) (filter (\<lambda>r. rep_status r \<noteq> Closed) (db_reports d))
                            \<lparr>rs_redis = rd1, rs_out = [], rs_done = []\<rparr>;
                      ack_due = done_count Ack_reminder (rs_done s);
                      feedback_due = done_count Feedback_reminder (rs_done s);
                      out = (if (ack_due \<noteq> 0 \<or> feedback_due \<noteq> 0) \<and> webhook_on (env_cfg e)
                             then send_reminder_webhook (env_cfg e) ch ack_due feedback_due else [])
                  in s\<lparr>rs_redis := kv_del (rs_redis s) SLA_LOCK_KEY, rs_out := rs_out s @ out\<rparr>)))"

section \<open>Marks\<close>

definition key_of :: "reminder_kind \<Rightarrow> string \<Rightarrow> string" where
  "key_of k c = (case k of Ack_reminder \<Rightarrow> ack_dedup_key c | Feedback_reminder \<Rightarrow> feedback_dedup_key c)"

definition due_at :: "reminder_kind \<Rightarrow> report \<Rightarrow> moment option" where
  "due_at k r = (case k of Ack_reminder \<Rightarrow> map_option instant (ack_due (utc (rep_submitted_at r)))
                        | Feedback_reminder \<Rightarrow> rep_feedback_due_at r)"

definition outstanding :: "reminder_kind \<Rightarrow> report \<Rightarrow> bool" where
  "outstanding k r \<longleftrightarrow> (case k of Ack_reminder \<Rightarrow> rep_acknowledged_at r = None | Feedback_reminder \<Rightarrow> rep_feedback_sent_at r = None)"

definition warn_days :: "settings \<Rightarrow> reminder_kind \<Rightarrow> int" where
  "warn_days cfg k = (case k of Ack_reminder \<Rightarrow> cfg_reminder_ack_warn_days cfg
                             | Feedback_reminder \<Rightarrow> cfg_reminder_feedback_warn_days cfg)"

definition days_left_of :: "env \<Rightarrow> moment \<Rightarrow> int" where
  "days_left_of e due = (due - env_now e) div day_us"

definition check :: "reminder_kind \<Rightarrow> env \<Rightarrow> channels \<Rightarrow> report \<Rightarrow> redis \<Rightarrow> (outgoing list \<times> bool) option \<times> redis" where
  "check k = (case k of Ack_reminder \<Rightarrow> check_ack_reminder | Feedback_reminder \<Rightarrow> check_feedback_reminder)"

definition marked_until :: "redis \<Rightarrow> string \<Rightarrow> int \<Rightarrow> bool" where
  "marked_until rd key T \<longleftrightarrow> (\<forall>now. now < T \<longrightarrow> kv_exists now rd key)"

definition mark_end :: "env \<Rightarrow> moment \<Rightarrow> int" where
  "mark_end e due = millis e + dedup_ttl_seconds (days_left_of e due) * 1000"

lemma key_of_inj [simp]: "key_of k c = key_of j b \<longleftrightarrow> k = j \<and> c = b"
  by (cases k; cases j) (simp_all add: key_of_def ack_dedup_key_def feedback_dedup_key_def)

lemma lock_not_mark [simp]: "SLA_LOCK_KEY \<noteq> key_of k c" "key_of k c \<noteq> SLA_LOCK_KEY"
  by (cases k; simp add: SLA_LOCK_KEY_def key_of_def ack_dedup_key_def feedback_dedup_key_def)+

lemma kv_exists_set:
  "kv_exists t (kv_set now r k v s) j = (if j = k then t < now + s * 1000 else kv_exists t r j)"
  by (simp add: kv_exists_def kv_set_def live_def Let_def)

lemma kv_exists_del: "kv_exists t (kv_del r k) j = (j \<noteq> k \<and> kv_exists t r j)"
  by (simp add: kv_exists_def)

lemma check_pair:
  "check Ack_reminder = check_ack_reminder" "check Feedback_reminder = check_feedback_reminder"
  by (simp_all add: check_def)

text \<open>What one check can do: send and mark, or leave the store as it is.\<close>

lemma remind_cases:
  assumes "remind e ch c label key dl rd = ((out, sent), rd')"
  shows "if sent then \<not> kv_exists (millis e) rd key \<and> rd' = kv_set (millis e) rd key (Txt ''1'') (dedup_ttl_seconds dl)
         else rd' = rd"
  using assms by (auto simp: remind_def Let_def case_prod_beta split: if_splits)

lemma check_sent:
  assumes "check k e ch r rd = (Some (out, sent), rd')"
  shows "if sent then \<exists>due. due_at k r = Some due \<and> \<not> kv_exists (millis e) rd (key_of k (rep_case_number r)) \<and>
           rd' = kv_set (millis e) rd (key_of k (rep_case_number r)) (Txt ''1'') (dedup_ttl_seconds (days_left_of e due))
         else rd' = rd"
proof (cases k)
  case Ack_reminder
  show ?thesis
  proof (cases "rep_acknowledged_at r \<noteq> None \<or> ack_days_left e r = None \<or>
      the (ack_days_left e r) > cfg_reminder_ack_warn_days (env_cfg e)")
    case True
    then show ?thesis
      using assms by (auto simp: Ack_reminder check_pair check_ack_reminder_def split: option.splits if_splits)
  next
    case False
    then obtain dl due where dl: "ack_days_left e r = Some dl" "ack_due (utc (rep_submitted_at r)) = Some due"
        "dl = days_left_of e (instant due)"
      by (auto simp: ack_days_left_def days_left_of_def days_between_def)
    with False assms have "remind e ch (rep_case_number r) ''7-day acknowledgement''
        (ack_dedup_key (rep_case_number r)) dl rd = ((out, sent), rd')"
      by (auto simp: Ack_reminder check_pair check_ack_reminder_def map_prod_def split: prod.splits)
    from remind_cases [OF this] dl show ?thesis by (simp add: Ack_reminder due_at_def key_of_def)
  qed
next
  case Feedback_reminder
  show ?thesis
  proof (cases "rep_feedback_due_at r = None \<or> rep_feedback_sent_at r \<noteq> None \<or>
      days_left_of e (the (rep_feedback_due_at r)) > cfg_reminder_feedback_warn_days (env_cfg e)")
    case True
    then show ?thesis
      using assms by (auto simp: Feedback_reminder check_pair check_feedback_reminder_def days_left_of_def
          days_between_def split: option.splits if_splits)
  next
    case False
    then obtain due where due: "rep_feedback_due_at r = Some due" by auto
    with False assms have "remind e ch (rep_case_number r) ''3-month feedback''
        (feedback_dedup_key (rep_case_number r)) (days_left_of e due) rd = ((out, sent), rd')"
      by (auto simp: Feedback_reminder check_pair check_feedback_reminder_def map_prod_def Let_def
          days_left_of_def days_between_def split: prod.splits)
    from remind_cases [OF this] due show ?thesis by (simp add: Feedback_reminder due_at_def key_of_def)
  qed
qed

lemma check_raised: "check k e ch r rd = (None, rd') \<Longrightarrow> rd' = rd"
  by (cases k) (auto simp: check_pair check_ack_reminder_def check_feedback_reminder_def map_prod_def Let_def
      split: option.splits if_splits prod.splits)

text \<open>A report's checks as at most two rounds of one check each.\<close>

definition round :: "reminder_kind \<Rightarrow> env \<Rightarrow> channels \<Rightarrow> report \<Rightarrow> run_state \<Rightarrow> run_state" where
  "round k e ch r s =
     (case check k e ch r (rs_redis s) of
        (None, rd) \<Rightarrow> s\<lparr>rs_redis := rd\<rparr>
      | (Some (out, sent), rd) \<Rightarrow>
          \<lparr>rs_redis = rd, rs_out = rs_out s @ out,
           rs_done = rs_done s @ (if sent then [(k, rep_case_number r)] else [])\<rparr>)"

lemma check_report_rounds:
  "check_report e ch r s =
     (if fst (check Ack_reminder e ch r (rs_redis s)) = None then round Ack_reminder e ch r s
      else round Feedback_reminder e ch r (round Ack_reminder e ch r s))"
  by (auto simp: check_report_def round_def check_pair Let_def split: option.split prod.split)

lemma check_report_invariant:
  assumes "\<And>k s. P s \<Longrightarrow> P (round k e ch r s)" "P s"
  shows "P (check_report e ch r s)"
  using assms by (simp add: check_report_rounds)

lemma fold_invariant_set:
  assumes "\<And>x s. x \<in> set xs \<Longrightarrow> P s \<Longrightarrow> P (f x s)" "P s"
  shows "P (fold f xs s)"
  using assms by (induction xs arbitrary: s) auto

lemma round_marked:
  assumes "marked_until (rs_redis s) (key_of k c) T" "(k, c) \<notin> set (rs_done s)" "millis e < T"
  shows "marked_until (rs_redis (round j e ch r s)) (key_of k c) T \<and> (k, c) \<notin> set (rs_done (round j e ch r s))"
proof (cases "check j e ch r (rs_redis s)")
  case (Pair x rd)
  have here: "kv_exists (millis e) (rs_redis s) (key_of k c)" using assms(1,3) by (simp add: marked_until_def)
  show ?thesis
  proof (cases x)
    case None
    with Pair check_raised have "rd = rs_redis s" by blast
    with assms Pair None show ?thesis by (simp add: round_def)
  next
    case (Some y)
    obtain out sent where y: "y = (out, sent)" by fastforce
    from check_sent [OF Pair [unfolded Some y]] here assms show ?thesis
      by (auto simp: round_def Pair Some y marked_until_def kv_exists_set split: if_splits)
  qed
qed

lemma round_done_marked:
  assumes "(k, c) \<in> set (rs_done s) \<longrightarrow> marked_until (rs_redis s) (key_of k c) (mark_end e due)"
    "rep_case_number r = c \<longrightarrow> due_at k r = Some due"
  shows "(k, c) \<in> set (rs_done (round j e ch r s)) \<longrightarrow>
    marked_until (rs_redis (round j e ch r s)) (key_of k c) (mark_end e due)"
proof (cases "check j e ch r (rs_redis s)")
  case (Pair x rd)
  have later: "millis e < mark_end e due" by (simp add: mark_end_def dedup_ttl_seconds_def)
  show ?thesis
  proof (cases x)
    case None
    with Pair check_raised have "rd = rs_redis s" by blast
    with assms Pair None show ?thesis by (simp add: round_def)
  next
    case (Some y)
    obtain out sent where y: "y = (out, sent)" by fastforce
    from check_sent [OF Pair [unfolded Some y]] assms later show ?thesis
      by (auto simp: round_def Pair Some y marked_until_def kv_exists_set mark_end_def split: if_splits)
  qed
qed

section \<open>Runs\<close>

lemma send_cases:
  assumes "cfg_reminder_enabled (env_cfg e)" "\<not> kv_exists (millis e) rd SLA_LOCK_KEY"
  shows "rs_redis (send_sla_reminders e ch d rd) =
      kv_del (rs_redis (fold (check_report e ch) (filter (\<lambda>r. rep_status r \<noteq> Closed) (db_reports d))
        \<lparr>rs_redis = kv_set (millis e) rd SLA_LOCK_KEY (Txt ''1'') 300, rs_out = [], rs_done = []\<rparr>)) SLA_LOCK_KEY"
    "rs_done (send_sla_reminders e ch d rd) =
      rs_done (fold (check_report e ch) (filter (\<lambda>r. rep_status r \<noteq> Closed) (db_reports d))
        \<lparr>rs_redis = kv_set (millis e) rd SLA_LOCK_KEY (Txt ''1'') 300, rs_out = [], rs_done = []\<rparr>)"
  using assms by (simp_all add: send_sla_reminders_def kv_setnx_def Let_def)

lemma send_idle:
  assumes "\<not> (cfg_reminder_enabled (env_cfg e) \<and> \<not> kv_exists (millis e) rd SLA_LOCK_KEY)"
  shows "send_sla_reminders e ch d rd = \<lparr>rs_redis = rd, rs_out = [], rs_done = []\<rparr>"
  using assms by (auto simp: send_sla_reminders_def kv_setnx_def Let_def)

lemma run_keeps_mark:
  assumes "marked_until rd (key_of k c) T" "millis e < T"
  shows "marked_until (rs_redis (send_sla_reminders e ch d rd)) (key_of k c) T \<and>
    (k, c) \<notin> set (rs_done (send_sla_reminders e ch d rd))"
proof (cases "cfg_reminder_enabled (env_cfg e) \<and> \<not> kv_exists (millis e) rd SLA_LOCK_KEY")
  case True
  let ?P = "\<lambda>s :: run_state. marked_until (rs_redis s) (key_of k c) T \<and> (k, c) \<notin> set (rs_done s)"
  have "?P (fold (check_report e ch) xs \<lparr>rs_redis = kv_set (millis e) rd SLA_LOCK_KEY (Txt ''1'') 300, rs_out = [], rs_done = []\<rparr>)"
    for xs
  proof (rule fold_invariant_set [where P = ?P])
    fix r s
    assume "?P s"
    then show "?P (check_report e ch r s)"
      by (rule check_report_invariant [where P = ?P, rotated]) (use round_marked assms(2) in blast)
  qed (use assms(1) in \<open>simp add: marked_until_def kv_exists_set\<close>)
  with True show ?thesis by (simp add: send_cases marked_until_def kv_exists_del)
next
  case False
  show ?thesis using assms by (simp add: send_idle [OF False])
qed

lemma run_marks_done:
  assumes "(k, c) \<in> set (rs_done (send_sla_reminders e ch d rd))"
    "\<forall>r \<in> set (db_reports d). rep_case_number r = c \<longrightarrow> due_at k r = Some due"
  shows "marked_until (rs_redis (send_sla_reminders e ch d rd)) (key_of k c) (mark_end e due)"
proof (cases "cfg_reminder_enabled (env_cfg e) \<and> \<not> kv_exists (millis e) rd SLA_LOCK_KEY")
  case True
  let ?P = "\<lambda>s :: run_state. (k, c) \<in> set (rs_done s) \<longrightarrow> marked_until (rs_redis s) (key_of k c) (mark_end e due)"
  have "?P (fold (check_report e ch) (filter (\<lambda>r. rep_status r \<noteq> Closed) (db_reports d))
      \<lparr>rs_redis = kv_set (millis e) rd SLA_LOCK_KEY (Txt ''1'') 300, rs_out = [], rs_done = []\<rparr>)"
  proof (rule fold_invariant_set [where P = ?P])
    fix r s
    assume "r \<in> set (filter (\<lambda>r. rep_status r \<noteq> Closed) (db_reports d))" and p: "?P s"
    then have "rep_case_number r = c \<longrightarrow> due_at k r = Some due" using assms(2) by auto
    then have "?P (round j e ch r s')" if "?P s'" for j s' by (rule round_done_marked [OF that])
    then show "?P (check_report e ch r s)" by (rule check_report_invariant [where P = ?P, OF _ p])
  qed simp
  with True assms(1) show ?thesis by (simp add: send_cases marked_until_def kv_exists_del)
next
  case False
  from assms(1) show ?thesis by (simp add: send_idle [OF False])
qed

text \<open>Later runs, each with its own clock, far ends and database; what each of them reminded of.\<close>

fun later_runs :: "(env \<times> channels \<times> db) list \<Rightarrow> redis \<Rightarrow> (reminder_kind \<times> string) list list" where
  "later_runs [] rd = []"
| "later_runs ((e, ch, d) # rest) rd =
     (let s = send_sla_reminders e ch d rd in rs_done s # later_runs rest (rs_redis s))"

lemma later_runs_marked:
  assumes "marked_until rd (key_of k c) T" "\<forall>x \<in> set runs. millis (fst x) < T" "dones \<in> set (later_runs runs rd)"
  shows "(k, c) \<notin> set dones"
  using assms
proof (induction runs rd rule: later_runs.induct)
  case (2 e ch d rest rd)
  have m: "marked_until (rs_redis (send_sla_reminders e ch d rd)) (key_of k c) T"
    "(k, c) \<notin> set (rs_done (send_sla_reminders e ch d rd))"
    using run_keeps_mark [OF 2(2)] 2(3) by auto
  from 2(4) consider "dones = rs_done (send_sla_reminders e ch d rd)"
    | "dones \<in> set (later_runs rest (rs_redis (send_sla_reminders e ch d rd)))"
    by (auto simp: Let_def)
  then show ?case
  proof cases
    case 2
    show ?thesis by (rule "2.IH" [OF refl m(1) _ 2]) (use "2.prems" in auto)
  qed (simp add: m)
qed simp

lemma mark_outlasts_deadline:
  assumes "t < due div 1000" shows "t < mark_end e due"
proof (cases "0 \<le> days_left_of e due")
  case True
  have "due < env_now e + day_us * (days_left_of e due + 1)"
    unfolding days_left_of_def using le_div_day [of "(due - env_now e) div day_us + 1" "due - env_now e"]
    by (simp add: algebra_simps)
  then have "due div 1000 \<le> (env_now e + 1000 * (86400000 * (days_left_of e due + 1))) div 1000"
    by (intro zdiv_mono1) (simp_all add: day_us_def)
  also have "\<dots> = millis e + 86400000 * (days_left_of e due + 1)" by (simp add: millis_def)
  finally show ?thesis using assms True by (simp add: mark_end_def dedup_ttl_seconds_def)
next
  case False
  then have "due - env_now e < 0" by (simp add: days_left_of_def day_us_def)
  then have "due div 1000 \<le> millis e" unfolding millis_def by (intro zdiv_mono1) simp_all
  with assms False show ?thesis by (simp add: mark_end_def dedup_ttl_seconds_def)
qed

text \<open>
  C17. Once a run has reminded of a case's deadline, no run before that deadline reminds of it again,
  whichever replica it is on and however often runs happen.
\<close>

theorem one_reminder_before_deadline:
  assumes "(k, c) \<in> set (rs_done (send_sla_reminders e ch d rd))"
    "\<forall>r \<in> set (db_reports d). rep_case_number r = c \<longrightarrow> due_at k r = Some due"
    "\<forall>x \<in> set runs. millis (fst x) < due div 1000"
  shows "\<forall>dones \<in> set (later_runs runs (rs_redis (send_sla_reminders e ch d rd))). (k, c) \<notin> set dones"
  using later_runs_marked [OF run_marks_done [OF assms(1,2)]] mark_outlasts_deadline assms(3) by blast

text \<open>An open report of day one, seen on day six at noon; mail and webhook take everything.\<close>

definition open_ears :: channels where
  "open_ears = \<lparr>ch_smtp = (\<lambda>_. True), ch_webhook = (\<lambda>_. True), ch_sign = (\<lambda>_ _. ''00'')\<rparr>"

definition reminder_settings :: settings where
  "reminder_settings = mail_settings\<lparr>cfg_reminder_enabled := True, cfg_notify_webhook := True,
     cfg_notify_webhook_url := ''https://hook''\<rparr>"

definition reminder_env :: "int \<Rightarrow> env" where
  "reminder_env now = sample_env\<lparr>env_now := now, env_cfg := reminder_settings\<rparr>"

definition one_open :: db where
  "one_open = empty_db\<lparr>db_reports := [sample_report 10 None None]\<rparr>"

lemma one_open_due: "due_at Ack_reminder (sample_report 10 None None) = Some (8 * day_us - 1)"
  by code_simp

lemma one_open_dones:
  "rs_done (send_sla_reminders (reminder_env (11 * day_us div 2)) open_ears one_open []) = [(Ack_reminder, ''OW-10'')]"
  by code_simp

lemma one_open_reminded:
  "(Ack_reminder, ''OW-10'') \<in> set (rs_done (send_sla_reminders (reminder_env (11 * day_us div 2)) open_ears one_open []))"
  by (simp add: one_open_dones)

theorem one_reminder_before_deadline_witness:
  "(Ack_reminder, ''OW-10'') \<in> set (rs_done (send_sla_reminders (reminder_env (11 * day_us div 2)) open_ears one_open [])) \<and>
   (Ack_reminder, ''OW-10'') \<notin> \<Union> (set ` set
      (later_runs [(reminder_env (7 * day_us), open_ears, one_open), (reminder_env (8 * day_us - 2000), open_ears, one_open)]
        (rs_redis (send_sla_reminders (reminder_env (11 * day_us div 2)) open_ears one_open []))))"
proof -
  have d: "\<forall>r \<in> set (db_reports one_open). rep_case_number r = ''OW-10'' \<longrightarrow>
      due_at Ack_reminder r = Some (8 * day_us - 1)"
    by (simp add: one_open_def one_open_due)
  have t: "\<forall>x \<in> set [(reminder_env (7 * day_us), open_ears, one_open), (reminder_env (8 * day_us - 2000), open_ears, one_open)].
      millis (fst x) < (8 * day_us - 1) div 1000"
    by (simp add: millis_def reminder_env_def day_us_def)
  show ?thesis using one_reminder_before_deadline [OF one_open_reminded d t] one_open_reminded by blast
qed

section \<open>Nobody is left out\<close>

lemma deliverable_reminder:
  assumes "email_on cfg \<longrightarrow> recipients_of cfg \<noteq> []" "ch_smtp ch = (\<lambda>_. True)"
  shows "snd (dispatch_reminder cfg ch c label dl)"
  using assms by (simp add: dispatch_reminder_def send_reminder_email_def Let_def)

lemma remind_marks:
  assumes "email_on (env_cfg e) \<longrightarrow> recipients_of (env_cfg e) \<noteq> []" "ch_smtp ch = (\<lambda>_. True)"
  shows "kv_exists (millis e) (snd (remind e ch c label key dl rd)) key \<and>
    (kv_exists (millis e) rd key \<or> snd (fst (remind e ch c label key dl rd)))"
  using deliverable_reminder [OF assms, of c label dl]
  by (auto simp: remind_def Let_def case_prod_beta kv_exists_set dedup_ttl_seconds_def)

lemma remind_result:
  assumes "email_on (env_cfg e) \<longrightarrow> recipients_of (env_cfg e) \<noteq> []" "ch_smtp ch = (\<lambda>_. True)"
  shows "\<exists>out sent rd'. map_prod Some id (remind e ch c label key dl rd) = (Some (out, sent), rd') \<and>
      kv_exists (millis e) rd' key \<and> (kv_exists (millis e) rd key \<or> sent)"
proof -
  obtain out sent rd' where q: "remind e ch c label key dl rd = ((out, sent), rd')" by (metis prod.exhaust)
  from remind_marks [OF assms, of c label key dl rd] show ?thesis by (simp add: q)
qed

lemma check_marks:
  assumes "email_on (env_cfg e) \<longrightarrow> recipients_of (env_cfg e) \<noteq> []" "ch_smtp ch = (\<lambda>_. True)"
    "outstanding k r" "due_at k r = Some due" "days_left_of e due \<le> warn_days (env_cfg e) k"
  shows "\<exists>out sent rd'. check k e ch r rd = (Some (out, sent), rd') \<and>
      kv_exists (millis e) rd' (key_of k (rep_case_number r)) \<and>
      (kv_exists (millis e) rd (key_of k (rep_case_number r)) \<or> sent)"
proof (cases k)
  case Ack_reminder
  then have "check k e ch r rd = map_prod Some id (remind e ch (rep_case_number r) ''7-day acknowledgement''
      (key_of k (rep_case_number r)) (days_left_of e due) rd)"
    using assms(3-5)
    by (auto simp: check_pair check_ack_reminder_def outstanding_def due_at_def warn_days_def ack_days_left_def
        days_left_of_def days_between_def key_of_def)
  with remind_result [OF assms(1,2)] show ?thesis by simp
next
  case Feedback_reminder
  then have "check k e ch r rd = map_prod Some id (remind e ch (rep_case_number r) ''3-month feedback''
      (key_of k (rep_case_number r)) (days_left_of e due) rd)"
    using assms(3-5)
    by (auto simp: check_pair check_feedback_reminder_def outstanding_def due_at_def warn_days_def
        days_left_of_def days_between_def Let_def key_of_def)
  with remind_result [OF assms(1,2)] show ?thesis by simp
qed

lemma round_keeps:
  assumes "kv_exists (millis e) (rs_redis s) key"
  shows "kv_exists (millis e) (rs_redis (round k e ch r s)) key \<and> set (rs_done s) \<subseteq> set (rs_done (round k e ch r s))"
proof (cases "check k e ch r (rs_redis s)")
  case (Pair x rd)
  show ?thesis
  proof (cases x)
    case None
    with Pair check_raised have "rd = rs_redis s" by blast
    with assms Pair None show ?thesis by (simp add: round_def)
  next
    case (Some y)
    obtain out sent where y: "y = (out, sent)" by fastforce
    from check_sent [OF Pair [unfolded Some y]] assms show ?thesis
      by (auto simp: round_def Pair Some y kv_exists_set dedup_ttl_seconds_def split: if_splits)
  qed
qed

lemma round_mark_done:
  assumes "kv_exists (millis e) (rs_redis s) (key_of k c) \<longrightarrow> old \<or> (k, c) \<in> set (rs_done s)"
  shows "kv_exists (millis e) (rs_redis (round j e ch r s)) (key_of k c) \<longrightarrow>
    old \<or> (k, c) \<in> set (rs_done (round j e ch r s))"
proof (cases "check j e ch r (rs_redis s)")
  case (Pair x rd)
  show ?thesis
  proof (cases x)
    case None
    with Pair check_raised have "rd = rs_redis s" by blast
    with assms Pair None show ?thesis by (simp add: round_def)
  next
    case (Some y)
    obtain out sent where y: "y = (out, sent)" by fastforce
    from check_sent [OF Pair [unfolded Some y]] assms show ?thesis
      by (auto simp: round_def Pair Some y kv_exists_set split: if_splits)
  qed
qed

definition dates_in_range :: "report \<Rightarrow> bool" where
  "dates_in_range r \<longleftrightarrow> rep_acknowledged_at r \<noteq> None \<or> ack_due (utc (rep_submitted_at r)) \<noteq> None"

lemma round_marks:
  assumes "email_on (env_cfg e) \<longrightarrow> recipients_of (env_cfg e) \<noteq> []" "ch_smtp ch = (\<lambda>_. True)"
    "outstanding k r" "due_at k r = Some due" "days_left_of e due \<le> warn_days (env_cfg e) k"
  shows "kv_exists (millis e) (rs_redis (round k e ch r s)) (key_of k (rep_case_number r))"
proof -
  obtain out sent rd' where "check k e ch r (rs_redis s) = (Some (out, sent), rd')"
      "kv_exists (millis e) rd' (key_of k (rep_case_number r))"
    using check_marks [OF assms] by blast
  then show ?thesis by (simp add: round_def)
qed

lemma check_report_marks:
  assumes "email_on (env_cfg e) \<longrightarrow> recipients_of (env_cfg e) \<noteq> []" "ch_smtp ch = (\<lambda>_. True)"
    "outstanding k r" "due_at k r = Some due" "days_left_of e due \<le> warn_days (env_cfg e) k" "dates_in_range r"
  shows "kv_exists (millis e) (rs_redis (check_report e ch r s)) (key_of k (rep_case_number r))"
proof (cases k)
  case Ack_reminder
  then show ?thesis
    using round_marks [OF assms(1-5)] round_keeps by (simp add: check_report_rounds)
next
  case Feedback_reminder
  have "fst (check Ack_reminder e ch r (rs_redis s)) \<noteq> None"
    using assms(6) by (auto simp: dates_in_range_def check_pair check_ack_reminder_def ack_days_left_def)
  then show ?thesis
    using Feedback_reminder round_marks [OF assms(1-5)] by (simp add: check_report_rounds del: not_None_eq)
qed



section \<open>Webhooks\<close>

lemma posts_remind [simp]: "posts (fst (fst (remind e ch c label key dl rd))) = []"
  by (simp add: remind_def dispatch_reminder_def send_reminder_email_def Let_def case_prod_beta)

lemma check_posts: "check k e ch r rd = (Some (out, sent), rd') \<Longrightarrow> posts out = []"
  using posts_remind
  by (cases k) (auto simp: check_pair check_ack_reminder_def check_feedback_reminder_def map_prod_def Let_def
      split: option.splits if_splits prod.splits dest: arg_cong [where f = "\<lambda>x. posts (fst (fst x))"])

lemma round_posts: "posts (rs_out s) = [] \<Longrightarrow> posts (rs_out (round k e ch r s)) = []"
  using check_posts by (fastforce simp: round_def split: option.split prod.split)

lemma posts_run:
  "posts (rs_out (send_sla_reminders e ch d rd)) =
     (let s = send_sla_reminders e ch d rd; a = done_count Ack_reminder (rs_done s); f = done_count Feedback_reminder (rs_done s)
      in if (a \<noteq> 0 \<or> f \<noteq> 0) \<and> webhook_on (env_cfg e)
         then [post_of (env_cfg e) ch (build_reminder_payload a f (env_cfg e))] else [])"
proof (cases "cfg_reminder_enabled (env_cfg e) \<and> \<not> kv_exists (millis e) rd SLA_LOCK_KEY")
  case True
  let ?P = "\<lambda>s :: run_state. posts (rs_out s) = []"
  have "?P (fold (check_report e ch) (filter (\<lambda>r. rep_status r \<noteq> Closed) (db_reports d))
      \<lparr>rs_redis = kv_set (millis e) rd SLA_LOCK_KEY (Txt ''1'') 300, rs_out = [], rs_done = []\<rparr>)"
  proof (rule fold_invariant_set [where P = ?P])
    fix q s
    assume "?P s"
    then show "?P (check_report e ch q s)"
      by (rule check_report_invariant [where P = ?P, rotated]) (rule round_posts)
  qed simp
  with True show ?thesis
    by (simp add: send_sla_reminders_def kv_setnx_def Let_def send_reminder_webhook_def)
next
  case False
  show ?thesis by (simp add: send_idle [OF False] done_count_def)
qed

text \<open>
  C19. What a webhook is sent depends on counts alone: two digests of as many new reports and cases
  with messages post the same, whatever the case numbers, and so do two reminder runs that remind of
  as many acknowledgements and feedbacks, whatever the cases and their deadlines.
\<close>

theorem webhooks_carry_counts_only:
  assumes "\<forall>k. length (q k) = length (q' k)"
    "\<forall>k. done_count k (rs_done (send_sla_reminders e ch d rd)) = done_count k (rs_done (send_sla_reminders e ch d' rd'))"
  shows "posts (fst (deliver_notification_digest (env_cfg e) ch q)) = posts (fst (deliver_notification_digest (env_cfg e) ch q')) \<and>
    posts (rs_out (send_sla_reminders e ch d rd)) = posts (rs_out (send_sla_reminders e ch d' rd'))"
proof -
  have "q k = [] \<longleftrightarrow> q' k = []" for k using assms(1) by (metis length_0_conv)
  then show ?thesis using assms unfolding posts_digest posts_run Let_def by simp
qed

theorem webhooks_carry_counts_only_witness:
  "let e = reminder_env (11 * day_us div 2); other = empty_db\<lparr>db_reports := [sample_report 77 None None]\<rparr> in
   posts (fst (deliver_notification_digest (env_cfg e) open_ears (q_add New_reports [''OW-1''] (\<lambda>_. [])))) =
     posts (fst (deliver_notification_digest (env_cfg e) open_ears (q_add New_reports [''OW-2''] (\<lambda>_. [])))) \<and>
   posts (rs_out (send_sla_reminders e open_ears one_open [])) = posts (rs_out (send_sla_reminders e open_ears other [])) \<and>
   length (posts (rs_out (send_sla_reminders e open_ears one_open []))) = 1"
proof -
  let ?e = "reminder_env (11 * day_us div 2)" and ?other = "empty_db\<lparr>db_reports := [sample_report 77 None None]\<rparr>"
  have l: "\<forall>k. length (q_add New_reports [''OW-1''] (\<lambda>_. []) k) = length (q_add New_reports [''OW-2''] (\<lambda>_. []) k)"
    by (simp add: q_add_def)
  have "rs_done (send_sla_reminders ?e open_ears ?other []) = [(Ack_reminder, ''OW-77'')]" by code_simp
  note dones = one_open_dones this
  have "webhook_on (env_cfg ?e)" by code_simp
  then have c: "length (posts (rs_out (send_sla_reminders ?e open_ears one_open []))) = 1"
    unfolding posts_run Let_def dones by (simp add: done_count_def)
  have "done_count k (rs_done (send_sla_reminders ?e open_ears one_open [])) =
      done_count k (rs_done (send_sla_reminders ?e open_ears ?other []))" for k
    by (cases k) (simp_all add: dones done_count_def)
  then show ?thesis using webhooks_carry_counts_only [OF l, of ?e open_ears one_open "[]" ?other "[]"] c
    unfolding Let_def by blast
qed

end
