(* ===== verification/Retention.thy ===== *)
theory Retention
  imports Reminders Four_Eyes Attachment_Store
begin

text \<open>
  The daily retention run (\<open>app/services/retention.py\<close>): closed cases past the retention period are
  deleted with an entry each in the audit log, their stored files, reporter sessions, queued notices and
  reminder marks with them. \<open>seen\<close> is the database as the run read it, which other requests may have
  changed before it deletes; whether Redis and the commit work, and every call to the object store, are
  arguments.
\<close>

section \<open>Time as text\<close>

definition padded :: "nat \<Rightarrow> int \<Rightarrow> string" where
  "padded n k = (let ds = digits (nat k) in replicate (n - length ds) (CHR ''0'') @ ds)"

text \<open>\<open>datetime.isoformat\<close> of an instant in UTC.\<close>

definition isoformat :: "moment \<Rightarrow> string" where
  "isoformat t =
     (let (y, m, d) = day_ymd (t div day_us); us = t mod day_us; s = us div 1000000; frac = us mod 1000000 in
      padded 4 y @ ''-'' @ padded 2 m @ ''-'' @ padded 2 d @ ''T'' @
      padded 2 (s div 3600) @ '':'' @ padded 2 (s div 60 mod 60) @ '':'' @ padded 2 (s mod 60) @
      (if frac = 0 then [] else ''.'' @ padded 6 frac) @ ''+00:00'')"

section \<open>The run\<close>

definition RETENTION_LOCK_KEY :: string where "RETENTION_LOCK_KEY = ''openwhistle:job_lock:retention''"

definition past :: "pydt \<Rightarrow> report \<Rightarrow> bool" where
  "past closed_before r \<longleftrightarrow>
     rep_status r = Closed \<and> (case rep_closed_at r of None \<Rightarrow> False | Some t \<Rightarrow> t < instant closed_before)"

definition retention_detail :: "env \<Rightarrow> report \<Rightarrow> detail" where
  "retention_detail e r =
     [(''case_number'', rep_case_number r),
      (''closed_at'', case rep_closed_at r of None \<Rightarrow> ''null'' | Some t \<Rightarrow> isoformat t),
      (''retention_days'', string_of_int (cfg_retention_days (env_cfg e))),
      (''reason'', ''GDPR Art. 5(1)(e) / HinSchG '' @ utf8 [194, 167] @ ''11 '' @ dash @ '' retention period exceeded'')]"

definition auto_delete :: "env \<Rightarrow> nat \<Rightarrow> report \<Rightarrow> db \<Rightarrow> db" where
  "auto_delete e n r d =
     purge_reports [rep_id r] (log_system e n ''report.auto_deleted'' (retention_detail e r) (rep_org r) d)"

fun auto_delete_all :: "env \<Rightarrow> nat \<Rightarrow> report list \<Rightarrow> db \<Rightarrow> db" where
  "auto_delete_all e n [] d = d"
| "auto_delete_all e n (r # rs) d = auto_delete_all e (Suc n) rs (auto_delete e n r d)"

definition forget_cases :: "env \<Rightarrow> report list \<Rightarrow> redis \<times> queue \<Rightarrow> redis \<times> queue" where
  "forget_cases e rs rq =
     fold (\<lambda>r. forget_case (rep_case_number r)) rs
       (end_status_sessions (millis e) (fst rq) (map rep_id rs), snd rq)"

definition run_retention_cleanup ::
  "env \<Rightarrow> string \<Rightarrow> (nat \<Rightarrow> call) \<Rightarrow> bool \<Rightarrow> bool \<Rightarrow> db \<Rightarrow> (redis \<times> queue) \<times> bucket \<times> db
   \<Rightarrow> (redis \<times> queue) \<times> bucket \<times> db" where
  "run_retention_cleanup e p calls lock_up commits seen = (\<lambda>((rd, q), b, d).
     (if \<not> cfg_retention_enabled (env_cfg e) then ((rd, q), b, d)
      else (let (acquired, rd1) = (if lock_up then kv_setnx (millis e) rd RETENTION_LOCK_KEY (Txt ''1'') 600 else (False, rd)) in
            if lock_up \<and> \<not> acquired then ((rd1, q), b, d)
            else (let release = (\<lambda>(rd, q). (if acquired then kv_del rd RETENTION_LOCK_KEY else rd, q)) in
                  case cutoff (utc (env_now e)) (cfg_retention_days (env_cfg e)) of
                    None \<Rightarrow> (release (rd1, q), b, d)
                  | Some closed_before \<Rightarrow>
                      (let reports = filter (past closed_before) (db_reports seen);
                           stored_keys = stored_object_keys seen (map rep_id reports) in
                       if \<not> commits then (release (rd1, q), b, d)
                       else (release (if reports \<noteq> [] \<and> lock_up then forget_cases e reports (rd1, q) else (rd1, q)),
                             delete_stored_objects (env_cfg e) p calls 0 stored_keys b,
                             auto_delete_all e 1 reports d))))))"

section \<open>What is deleted\<close>

definition deleted_entry :: "env \<Rightarrow> nat \<Rightarrow> report \<Rightarrow> audit_entry" where
  "deleted_entry e n r =
     \<lparr>aud_id = env_id e n, aud_at = env_now e, aud_admin = None, aud_username = ''system'',
      aud_action = ''report.auto_deleted'', aud_report = None, aud_detail = Some (retention_detail e r),
      aud_org = rep_org r\<rparr>"

lemma retention_detail_nonempty [simp]: "retention_detail e r \<noteq> []"
  by (simp add: retention_detail_def)

lemma purge_append:
  "purge_reports js (purge_reports is d) = purge_reports (is @ js) d"
  by (simp add: purge_reports_def option.case_eq_if conj_ac)

lemma purge_Nil [simp]: "purge_reports [] d = d"
  by (simp add: purge_reports_def option.case_eq_if)

lemma auto_delete_eq:
  "auto_delete e n r d = (purge_reports [rep_id r] d)\<lparr>db_audit := db_audit (purge_reports [rep_id r] d) @ [deleted_entry e n r]\<rparr>"
  by (simp add: auto_delete_def log_system_def purge_reports_def deleted_entry_def)

fun deleted_entries :: "env \<Rightarrow> nat \<Rightarrow> report list \<Rightarrow> audit_entry list" where
  "deleted_entries e n [] = []"
| "deleted_entries e n (r # rs) = deleted_entry e n r # deleted_entries e (Suc n) rs"

lemma deleted_entries_no_report: "x \<in> set (deleted_entries e n rs) \<Longrightarrow> aud_report x = None"
  by (induction rs arbitrary: n) (auto simp: deleted_entry_def)

lemma purge_keeps_entries:
  assumes "\<forall>x \<in> set es. aud_report x = None"
  shows "purge_reports is (d\<lparr>db_audit := db_audit d @ es\<rparr>) =
    (purge_reports is d)\<lparr>db_audit := db_audit (purge_reports is d) @ es\<rparr>"
  using assms by (simp add: purge_reports_def)

lemma auto_delete_all_eq:
  "auto_delete_all e n rs d =
    (purge_reports (map rep_id rs) d)\<lparr>db_audit := db_audit (purge_reports (map rep_id rs) d) @ deleted_entries e n rs\<rparr>"
proof (induction rs arbitrary: n d)
  case (Cons r rs)
  let ?d = "purge_reports [rep_id r] d"
  have "auto_delete_all e n (r # rs) d = auto_delete_all e (Suc n) rs (?d\<lparr>db_audit := db_audit ?d @ [deleted_entry e n r]\<rparr>)"
    by (simp add: auto_delete_eq)
  also have "\<dots> = (purge_reports (map rep_id rs) ?d)\<lparr>db_audit :=
      db_audit (purge_reports (map rep_id rs) ?d) @ [deleted_entry e n r] @ deleted_entries e (Suc n) rs\<rparr>"
    unfolding Cons.IH by (subst (1 2) purge_keeps_entries) (simp_all add: deleted_entry_def)
  finally show ?case by (simp add: purge_append)
qed simp

lemma run_commits:
  assumes "cfg_retention_enabled (env_cfg e)" "cutoff (utc (env_now e)) (cfg_retention_days (env_cfg e)) = Some c"
    "lock_up \<longrightarrow> \<not> kv_exists (millis e) rd RETENTION_LOCK_KEY"
    "run_retention_cleanup e p calls lock_up True seen ((rd, q), b, d) = ((rd', q'), b', d')"
  shows "d' = auto_delete_all e 1 (filter (past c) (db_reports seen)) d"
    "b' = delete_stored_objects (env_cfg e) p calls 0 (stored_object_keys seen (map rep_id (filter (past c) (db_reports seen)))) b"
    "lock_up \<Longrightarrow> filter (past c) (db_reports seen) \<noteq> [] \<Longrightarrow>
       (let rq = forget_cases e (filter (past c) (db_reports seen))
                   (kv_set (millis e) rd RETENTION_LOCK_KEY (Txt ''1'') 600, q)
        in rd' = kv_del (fst rq) RETENTION_LOCK_KEY \<and> q' = snd rq)"
  using assms by (auto simp: run_retention_cleanup_def kv_setnx_def Let_def case_prod_beta split: if_splits)

lemma cutoff_utc:
  assumes "cutoff (utc now) n = Some c" shows "instant c = wall c"
proof -
  obtain t where "add_months (utc now) (- 12 * (n div 365)) = Some t" "dt_add t (- (n mod 365) * day_us) = Some c"
    using assms by (auto simp: cutoff_def split: option.splits)
  moreover from this have "t = utc (wall t)" by (intro add_months_utc)
  ultimately have "tz c = Some 0" by (metis (no_types, lifting) dt_add_def option.distinct(1) option.inject
      pydt.select_convs(2) pydt.surjective pydt.update_convs(1) utc_def)
  then show ?thesis by (simp add: instant_def)
qed

lemma deleted_entry_of:
  "r \<in> set rs \<Longrightarrow> \<exists>x \<in> set (deleted_entries e n rs). aud_action x = ''report.auto_deleted'' \<and> aud_org x = rep_org r \<and>
     aud_detail x = Some (retention_detail e r)"
  by (induction rs arbitrary: n) (auto simp: deleted_entry_def)

lemma thread_purge: "i \<notin> set is \<Longrightarrow> thread (purge_reports is d) i = thread d i"
  by (auto simp: thread_def purge_reports_def intro!: filter_cong)

lemma row_distinct: "distinct (map key rows) \<Longrightarrow> x \<in> set rows \<Longrightarrow> row key (key x) rows = Some x"
  unfolding row_def by (induction rows) (auto simp: rev_image_eqI)

lemma report_of_distinct:
  assumes "distinct (map rep_id (db_reports d))" "r \<in> set (db_reports d)"
  shows "report_of d (rep_id r) = Some r"
  using row_distinct [OF assms] by (simp add: report_of_def)



definition closed_case :: "uuid \<Rightarrow> moment \<Rightarrow> report" where
  "closed_case i closed = (sample_report i (Some 1) None)\<lparr>rep_status := Closed, rep_closed_at := Some closed\<rparr>"

definition two_closed :: db where
  "two_closed = empty_db\<lparr>db_reports := [closed_case 10 0, closed_case 11 (1000 * day_us)]\<rparr>"

definition late_env :: env where "late_env = sample_env\<lparr>env_now := 2000 * day_us\<rparr>"

lemma late_cutoff: "cutoff (utc (env_now late_env)) (cfg_retention_days (env_cfg late_env)) = Some (utc (904 * day_us))"
  by code_simp

lemma two_closed_past: "past (utc (904 * day_us)) (closed_case 10 0)" "\<not> past (utc (904 * day_us)) (closed_case 11 (1000 * day_us))"
  by code_simp+


section \<open>What is left of a deleted case\<close>

lemma forget_fold:
  "snd (fold (\<lambda>r. forget_case (rep_case_number r)) rs rq) k = filter (\<lambda>c. c \<notin> rep_case_number ` set rs) (snd rq k) \<and>
   kv_entry t (fst (fold (\<lambda>r. forget_case (rep_case_number r)) rs rq)) key =
     (if \<exists>r \<in> set rs. key \<in> {ack_dedup_key (rep_case_number r), feedback_dedup_key (rep_case_number r)} then None
      else kv_entry t (fst rq) key)"
proof (induction rs arbitrary: rq)
  case (Cons r rs)
  obtain rd q where rq: "rq = (rd, q)" by fastforce
  show ?case by (simp add: Cons.IH) (auto simp: rq forget_case_def q_forget_def intro!: filter_cong)
qed simp

lemma purged_rows:
  "i \<in> set is \<Longrightarrow> i \<notin> msg_report ` set (db_messages (purge_reports is d)) \<union> note_report ` set (db_notes (purge_reports is d))
     \<union> att_report ` set (db_attachments (purge_reports is d)) \<union> del_report ` set (db_deletions (purge_reports is d))
     \<union> lnk_a ` set (db_links (purge_reports is d)) \<union> lnk_b ` set (db_links (purge_reports is d))"
  by (auto simp: purge_reports_def)

lemma stored_object_key_of:
  "a \<in> set (db_attachments d) \<Longrightarrow> att_report a \<in> set is \<Longrightarrow> att_key a = Some k \<Longrightarrow> k \<noteq> [] \<Longrightarrow>
   k \<in> set (stored_object_keys d is)"
  by (force simp: stored_object_keys_def List.map_filter_def image_iff)

text \<open>
  After the run nothing of a deleted case is left outside the log either: no reporter's session
  opens it, its number is in no queued notice and no reminder mark, no row of any table refers to it
  and, where the object store carried out the deletions, its files are gone.
\<close>

theorem retention_leaves_no_trace:
  assumes "cfg_retention_enabled (env_cfg e)" "cutoff (utc (env_now e)) (cfg_retention_days (env_cfg e)) = Some c"
    "\<not> kv_exists (millis e) rd RETENTION_LOCK_KEY"
    "run_retention_cleanup e p calls True True d ((rd, q), b, d) = ((rd', q'), b', d')"
    "r \<in> set (db_reports d)" "past c r"
  shows "(\<forall>key. starts_with STATUS_SESSION_PREFIX key \<longrightarrow> kv_get (millis e) rd' key \<noteq> Some (Ref (rep_id r))) \<and>
    (\<forall>k. rep_case_number r \<notin> set (q' k) \<and> \<not> kv_exists (millis e) rd' (key_of k' (rep_case_number r))) \<and>
    rep_id r \<notin> msg_report ` set (db_messages d') \<union> note_report ` set (db_notes d') \<union> att_report ` set (db_attachments d')
        \<union> del_report ` set (db_deletions d') \<union> lnk_a ` set (db_links d') \<union> lnk_b ` set (db_links d') \<and>
    (\<forall>x \<in> set (db_audit d'). aud_report x \<noteq> Some (rep_id r)) \<and>
    (cfg_storage_s3 (env_cfg e) \<and> (\<forall>n. calls n \<noteq> Refused) \<longrightarrow>
       (\<forall>a \<in> set (db_attachments d). \<forall>k. att_report a = rep_id r \<and> att_key a = Some k \<and> k \<noteq> [] \<longrightarrow> s3_get p b' k = None))"
proof -
  let ?gone = "filter (past c) (db_reports d)"
  let ?rd = "kv_set (millis e) rd RETENTION_LOCK_KEY (Txt ''1'') 600"
  let ?ended = "end_status_sessions (millis e) ?rd (map rep_id ?gone)"
  have free: "True \<longrightarrow> \<not> kv_exists (millis e) rd RETENTION_LOCK_KEY" using assms(3) by simp
  note run = run_commits [OF assms(1,2) free assms(4)]
  have r: "r \<in> set ?gone" and ne: "?gone \<noteq> []" using assms(5,6) by (auto simp: filter_empty_conv)
  let ?rq = "fold (\<lambda>r. forget_case (rep_case_number r)) ?gone (?ended, q)"
  have rq: "rd' = kv_del (fst ?rq) RETENTION_LOCK_KEY" "q' = snd ?rq"
    using run(3) [OF TrueI ne] by (simp_all add: forget_cases_def Let_def)
  have d': "d' = (purge_reports (map rep_id ?gone) d)\<lparr>db_audit :=
      db_audit (purge_reports (map rep_id ?gone) d) @ deleted_entries e 1 ?gone\<rparr>"
    using run(1) by (simp only: auto_delete_all_eq)
  have sessions: "kv_get (millis e) rd' key \<noteq> Some (Ref (rep_id r))" if "starts_with STATUS_SESSION_PREFIX key" for key
  proof -
    have "rep_id r \<in> set (map rep_id ?gone)" using r by simp
    from end_status_sessions_done [OF this that, of "millis e" ?rd]
    have "kv_get (millis e) ?ended key \<noteq> Some (Ref (rep_id r))" .
    then show ?thesis
      unfolding rq(1) kv_get_def using forget_fold [of ?gone "(?ended, q)" New_reports "millis e" key]
      by (auto split: if_splits)
  qed
  have notices: "rep_case_number r \<notin> set (q' k)" for k
    unfolding rq(2) using forget_fold [of ?gone "(?ended, q)" k] r by auto
  have marks: "\<not> kv_exists (millis e) rd' (key_of k (rep_case_number r))" for k
    unfolding rq(1) kv_exists_def using forget_fold [of ?gone "(?ended, q)" New_reports "millis e" "key_of k (rep_case_number r)"] r
    by (cases k) (auto simp: key_of_def)
  have rows: "rep_id r \<notin> msg_report ` set (db_messages d') \<union> note_report ` set (db_notes d') \<union> att_report ` set (db_attachments d')
        \<union> del_report ` set (db_deletions d') \<union> lnk_a ` set (db_links d') \<union> lnk_b ` set (db_links d')"
    using purged_rows [of "rep_id r" "map rep_id ?gone" d] r by (simp add: d')
  have log: "aud_report x \<noteq> Some (rep_id r)" if "x \<in> set (db_audit d')" for x
    using that r deleted_entries_no_report unfolding d' by (fastforce simp: purge_reports_def)
  have files: "s3_get p b' k = None"
    if "cfg_storage_s3 (env_cfg e)" "\<forall>n. calls n \<noteq> Refused" "a \<in> set (db_attachments d)" "att_report a = rep_id r"
      "att_key a = Some k" "k \<noteq> []" for a k
    unfolding run(2) using stored_object_key_of [OF that(3) _ that(5,6), of "map rep_id ?gone"] r that(4)
    by (intro delete_stored_gone [OF that(1,2)]) auto
  show ?thesis using sessions notices marks rows log files by blast
qed


theorem retention_leaves_no_trace_witness:
  "let rd = kv_set 0 [] (STATUS_SESSION_PREFIX @ ''t'') (Ref 10) 1000000000;
       ((rd', q'), b', d') = run_retention_cleanup late_env ''p'' (\<lambda>_. Worked) True True two_closed
          ((rd, q_add New_reports [''OW-10''] (\<lambda>_. [])), Map.empty, two_closed)
   in kv_get (millis late_env) rd (STATUS_SESSION_PREFIX @ ''t'') = Some (Ref 10) \<and>
      kv_get (millis late_env) rd' (STATUS_SESSION_PREFIX @ ''t'') \<noteq> Some (Ref 10) \<and> ''OW-10'' \<notin> set (q' New_reports)"
proof -
  let ?rd = "kv_set 0 [] (STATUS_SESSION_PREFIX @ ''t'') (Ref 10) 1000000000"
  obtain rd' q' b' d' where run: "run_retention_cleanup late_env ''p'' (\<lambda>_. Worked) True True two_closed
      ((?rd, q_add New_reports [''OW-10''] (\<lambda>_. [])), Map.empty, two_closed) = ((rd', q'), b', d')" by (metis prod.exhaust)
  have h: "cfg_retention_enabled (env_cfg late_env)" "\<not> kv_exists (millis late_env) ?rd RETENTION_LOCK_KEY"
    "kv_get (millis late_env) ?rd (STATUS_SESSION_PREFIX @ ''t'') = Some (Ref 10)"
    "starts_with STATUS_SESSION_PREFIX (STATUS_SESSION_PREFIX @ ''t'')"
    "rep_case_number (closed_case 10 0) = ''OW-10''" "rep_id (closed_case 10 0) = 10" by code_simp+
  have m: "closed_case 10 0 \<in> set (db_reports two_closed)" by (simp add: two_closed_def)
  from retention_leaves_no_trace [OF h(1) late_cutoff h(2) run m two_closed_past(1), of Ack_reminder]
  have "kv_get (millis late_env) rd' (STATUS_SESSION_PREFIX @ ''t'') \<noteq> Some (Ref 10)" "''OW-10'' \<notin> set (q' New_reports)"
    using h(4) unfolding h(5,6) by blast+
  with h(3) run show ?thesis by simp
qed

text \<open>A case reopened after the run has read it is deleted all the same: the deletion asks for the row alone.\<close>

lemma reopened_case_is_deleted:
  assumes "cfg_retention_enabled (env_cfg e)" "cutoff (utc (env_now e)) (cfg_retention_days (env_cfg e)) = Some c"
    "lock_up \<longrightarrow> \<not> kv_exists (millis e) rd RETENTION_LOCK_KEY"
    "run_retention_cleanup e p calls lock_up True seen ((rd, q), b, d) = ((rd', q'), b', d')"
    "r \<in> set (db_reports seen)" "past c r"
  shows "report_of d' (rep_id r) = None"
proof -
  have "rep_id r \<in> set (map rep_id (filter (past c) (db_reports seen)))" using assms(5,6) by simp
  then show ?thesis
    unfolding run_commits(1) [OF assms(1-4)] auto_delete_all_eq
    using purge_reports_of [of "map rep_id (filter (past c) (db_reports seen))" d "rep_id r"]
    by (simp add: report_of_def)
qed

end
