(* ===== verification/Telemetry.thy ===== *)
theory Telemetry
  imports Sessions
begin

text \<open>
  The voluntary installation count (\<open>app/services/telemetry.py\<close>): who decides whether it is on, the
  single row of its state, one attempt, and the attempts of all replicas over time. The far end's
  answer and whether Redis answers are arguments; \<open>seen\<close> is the row as the attempt read it, which
  another replica may have changed since. The random identifier is the request's first token.
\<close>

section \<open>Consent\<close>

definition locked_by :: "settings \<Rightarrow> string option" where
  "locked_by cfg =
     (if cfg_demo_mode cfg \<or> cfg_local_review_login cfg then Some ''demo''
      else if cfg_telemetry cfg = Some False then Some ''env_off''
      else if cfg_telemetry cfg = Some True then Some ''env_on''
      else None)"

definition hard_off :: "settings \<Rightarrow> bool" where
  "hard_off cfg \<longleftrightarrow> locked_by cfg \<in> {Some ''demo'', Some ''env_off''}"

definition is_enabled :: "settings \<Rightarrow> telemetry_state option \<Rightarrow> bool" where
  "is_enabled cfg state =
     (case locked_by cfg of
        Some lock \<Rightarrow> lock = ''env_on''
      | None \<Rightarrow> (case state of None \<Rightarrow> False | Some s \<Rightarrow> tel_enabled s))"

section \<open>The state\<close>

definition new_installation_id :: "env \<Rightarrow> string" where "new_installation_id e = env_token e 0"

definition ensure_state :: "env \<Rightarrow> db \<Rightarrow> telemetry_state \<times> db" where
  "ensure_state e d =
     (case db_telemetry d of
        Some s \<Rightarrow> (s, d)
      | None \<Rightarrow> (let s = \<lparr>tel_enabled = False, tel_installation_id = new_installation_id e, tel_last_sent_at = None\<rparr>
                in (s, d\<lparr>db_telemetry := Some s\<rparr>)))"

section \<open>One attempt\<close>

definition TELEMETRY_ENDPOINT :: string where
  "TELEMETRY_ENDPOINT = ''https://telemetry.wdkro.de/v1/openwhistle/count''"

definition INTERVAL :: int where "INTERVAL = 24 * 3600 * 1000000"
definition TELEMETRY_LOCK_KEY :: string where "TELEMETRY_LOCK_KEY = ''openwhistle:job_lock:telemetry''"
definition LOCK_TTL_SECONDS :: int where "LOCK_TTL_SECONDS = INTERVAL div 1000000 - 5 * 60"

definition report_url :: "settings \<Rightarrow> string \<Rightarrow> string" where
  "report_url cfg installation_id =
     TELEMETRY_ENDPOINT @ ''?id='' @ installation_id @ ''&v='' @ cfg_app_version cfg"

record request =
  rq_url :: string
  rq_params :: "(string \<times> string) list"
  rq_agent :: string
  rq_redirects :: bool

definition count_request :: "settings \<Rightarrow> string \<Rightarrow> request" where
  "count_request cfg installation_id =
     \<lparr>rq_url = TELEMETRY_ENDPOINT, rq_params = [(''id'', installation_id), (''v'', cfg_app_version cfg)],
      rq_agent = ''openwhistle/'' @ cfg_app_version cfg, rq_redirects = False\<rparr>"

text \<open>The answer: none in time, or a status; only a 2xx one is a success.\<close>

definition send_report :: "settings \<Rightarrow> int option \<Rightarrow> string \<Rightarrow> request \<times> bool" where
  "send_report cfg answer installation_id =
     (count_request cfg installation_id,
      case answer of None \<Rightarrow> False | Some status \<Rightarrow> 200 \<le> status \<and> status \<le> 299)"

definition count_due :: "env \<Rightarrow> telemetry_state \<Rightarrow> bool" where
  "count_due e s \<longleftrightarrow> (case tel_last_sent_at s of None \<Rightarrow> True | Some t \<Rightarrow> INTERVAL \<le> env_now e - t)"

definition set_sent :: "env \<Rightarrow> db \<Rightarrow> db" where
  "set_sent e d = d\<lparr>db_telemetry := map_option (\<lambda>s. s\<lparr>tel_last_sent_at := Some (env_now e)\<rparr>) (db_telemetry d)\<rparr>"

definition report_if_due ::
  "env \<Rightarrow> bool \<Rightarrow> int option \<Rightarrow> telemetry_state option \<Rightarrow> redis \<times> db \<Rightarrow> (request option \<times> bool) \<times> redis \<times> db" where
  "report_if_due e lock_up answer seen = (\<lambda>(rd, d).
     (let cfg = env_cfg e in
      if hard_off cfg then ((None, False), rd, d)
      else if \<not> is_enabled cfg seen \<or> (case seen of None \<Rightarrow> False | Some s \<Rightarrow> \<not> count_due e s) then ((None, False), rd, d)
      else if \<not> lock_up then ((None, False), rd, d)
      else (let (taken, rd1) = kv_setnx (millis e) rd TELEMETRY_LOCK_KEY (Txt ''1'') LOCK_TTL_SECONDS in
            if \<not> taken then ((None, False), rd1, d)
            else (let (s, d1) = (case seen of None \<Rightarrow> ensure_state e d | Some s \<Rightarrow> (s, d));
                      (request, accepted) = send_report cfg answer (tel_installation_id s)
                  in ((Some request, accepted), rd1, if accepted then set_sent e d1 else d1)))))"

text \<open>The hourly job is registered unless nothing could ever be sent.\<close>

definition schedule :: "settings \<Rightarrow> bool" where "schedule cfg \<longleftrightarrow> \<not> hard_off cfg"

section \<open>All replicas, over time\<close>

text \<open>Attempts in the order of their lock commands: what each read, and the time of each request.\<close>

record attempt =
  at_env :: env
  at_lock_up :: bool
  at_answer :: "int option"
  at_seen :: "telemetry_state option"

fun requests :: "attempt list \<Rightarrow> redis \<times> db \<Rightarrow> (int \<times> attempt \<times> request) list" where
  "requests [] w = []"
| "requests (a # as) w =
     (let ((req, sent), w') = report_if_due (at_env a) (at_lock_up a) (at_answer a) (at_seen a) w
      in (case req of None \<Rightarrow> [] | Some q \<Rightarrow> [(millis (at_env a), a, q)]) @ requests as w')"

lemma report_if_due_cases:
  obtains (quiet) "report_if_due e lock_up answer seen (rd, d) = ((None, False), rd, d)"
  | (sent) s d' where "fst (report_if_due e lock_up answer seen (rd, d)) =
        (Some (count_request (env_cfg e) (tel_installation_id s)), snd (send_report (env_cfg e) answer (tel_installation_id s)))"
      "snd (report_if_due e lock_up answer seen (rd, d)) = (kv_set (millis e) rd TELEMETRY_LOCK_KEY (Txt ''1'') LOCK_TTL_SECONDS, d')"
      "\<not> kv_exists (millis e) rd TELEMETRY_LOCK_KEY" "\<not> hard_off (env_cfg e)" "is_enabled (env_cfg e) seen"
      "s = (case seen of None \<Rightarrow> fst (ensure_state e d) | Some s \<Rightarrow> s)"
proof (cases "hard_off (env_cfg e) \<or> \<not> is_enabled (env_cfg e) seen \<or> (case seen of None \<Rightarrow> False | Some s \<Rightarrow> \<not> count_due e s) \<or>
      \<not> lock_up \<or> kv_exists (millis e) rd TELEMETRY_LOCK_KEY")
  case True
  then have "report_if_due e lock_up answer seen (rd, d) = ((None, False), rd, d)"
    by (auto simp: report_if_due_def kv_setnx_def Let_def split: option.splits)
  then show ?thesis by (rule quiet)
next
  case False
  then show ?thesis
    by (intro sent [where d' = "snd (snd (report_if_due e lock_up answer seen (rd, d)))", OF _ _ _ _ _ refl])
      (auto simp: report_if_due_def kv_setnx_def send_report_def Let_def split: option.splits prod.splits)
qed

lemma requests_after:
  assumes "\<forall>now < T. kv_exists now rd TELEMETRY_LOCK_KEY"
  shows "\<forall>x \<in> set (requests as (rd, d)). T \<le> fst x"
  using assms
proof (induction as arbitrary: rd d)
  case (Cons a as)
  show ?case
  proof (cases rule: report_if_due_cases [of "at_env a" "at_lock_up a" "at_answer a" "at_seen a" rd d])
    case quiet
    then show ?thesis using Cons by simp
  next
    case (sent s d')
    let ?m = "millis (at_env a)"
    have m: "T \<le> ?m" using sent(3) Cons.prems by (meson not_less)
    have "0 < LOCK_TTL_SECONDS" by code_simp
    then have "\<forall>now < T. kv_exists now (kv_set ?m rd TELEMETRY_LOCK_KEY (Txt ''1'') LOCK_TTL_SECONDS) TELEMETRY_LOCK_KEY"
      using m by (simp add: kv_exists_def kv_set_def live_def Let_def)
    from Cons.IH [OF this, of d'] m sent(1,2) show ?thesis by (simp add: case_prod_beta)
  qed
qed simp

lemma lock_held: "now < m + LOCK_TTL_SECONDS * 1000 \<Longrightarrow>
    kv_exists now (kv_set m rd TELEMETRY_LOCK_KEY v LOCK_TTL_SECONDS) TELEMETRY_LOCK_KEY"
  by (simp add: kv_exists_def kv_set_def live_def Let_def)

text \<open>
  However many replicas try and whatever each of them last read, two requests lie a day less five
  minutes apart; each was sent on an instance that is neither a demo nor switched off, with the consent
  of the environment or of the row the attempt read, and says nothing but an identifier and the version.
\<close>

theorem counted_once_a_day_with_consent:
  "sorted_wrt (\<lambda>x y. fst x + (24 * 3600 - 300) * 1000 \<le> fst y) (requests as (rd, d)) \<and>
   (\<forall>(t, a, q) \<in> set (requests as (rd, d)). \<not> hard_off (env_cfg (at_env a)) \<and>
      is_enabled (env_cfg (at_env a)) (at_seen a) \<and>
      (\<exists>i. q = \<lparr>rq_url = TELEMETRY_ENDPOINT, rq_params = [(''id'', i), (''v'', cfg_app_version (env_cfg (at_env a)))],
                rq_agent = ''openwhistle/'' @ cfg_app_version (env_cfg (at_env a)), rq_redirects = False\<rparr>))"
proof (induction as arbitrary: rd d)
  case (Cons a as)
  show ?case
  proof (cases rule: report_if_due_cases [of "at_env a" "at_lock_up a" "at_answer a" "at_seen a" rd d])
    case quiet
    then show ?thesis using Cons by simp
  next
    case (sent s d')
    let ?rd = "kv_set (millis (at_env a)) rd TELEMETRY_LOCK_KEY (Txt ''1'') LOCK_TTL_SECONDS"
    have "LOCK_TTL_SECONDS = 24 * 3600 - 300" by code_simp
    with requests_after [of "millis (at_env a) + LOCK_TTL_SECONDS * 1000" ?rd as d'] lock_held
    have "\<forall>x \<in> set (requests as (?rd, d')). millis (at_env a) + (24 * 3600 - 300) * 1000 \<le> fst x" by simp
    then show ?thesis
      using Cons [of ?rd d'] sent by (auto simp: case_prod_beta count_request_def)
  qed
qed simp


definition agreed :: telemetry_state where
  "agreed = \<lparr>tel_enabled = True, tel_installation_id = ''ab'', tel_last_sent_at = None\<rparr>"

definition attempt_at :: "int \<Rightarrow> attempt" where
  "attempt_at hours = \<lparr>at_env = sample_env\<lparr>env_now := hours * 3600000000\<rparr>, at_lock_up = True,
     at_answer = Some 204, at_seen = Some agreed\<rparr>"

theorem counted_once_a_day_with_consent_witness:
  "let r = requests [attempt_at 0, attempt_at 1, attempt_at 24] ([], empty_db\<lparr>db_telemetry := Some agreed\<rparr>) in
   map fst r = [0, 24 * 3600000] \<and>
   (\<forall>(t, a, q) \<in> set r. \<exists>i. rq_params q = [(''id'', i), (''v'', cfg_app_version (env_cfg (at_env a)))])"
proof -
  let ?r = "requests [attempt_at 0, attempt_at 1, attempt_at 24] ([], empty_db\<lparr>db_telemetry := Some agreed\<rparr>)"
  have "map fst ?r = [0, 24 * 3600000]" by code_simp
  moreover have "\<forall>(t, a, q) \<in> set ?r. \<exists>i. rq_params q = [(''id'', i), (''v'', cfg_app_version (env_cfg (at_env a)))]"
    using counted_once_a_day_with_consent
      [of "[attempt_at 0, attempt_at 1, attempt_at 24]" "[]" "empty_db\<lparr>db_telemetry := Some agreed\<rparr>"] by fastforce
  ultimately show ?thesis by simp
qed

end
