(* ===== verification/First_Run.thy ===== *)
theory First_Run
  imports User_Admin Telemetry
begin

text \<open>
  The first-run setup (\<open>app/api/wizard.py\<close>): the form behind the one-time token, the creation of the
  first account under a database lock, and submissions that race. A submission is checked against one
  state and creates the account on a later one, so the two parts are separate; the lock makes the
  second atomic. The QR code is not modelled. A request draws the identifiers of organisation, account
  and log entry and, as tokens, the installation identifier and a fresh authenticator secret.
\<close>

section \<open>Creating the first account\<close>

definition is_setup_complete :: "db \<Rightarrow> bool" where
  "is_setup_complete d \<longleftrightarrow> (case db_setup d of None \<Rightarrow> False | Some s \<Rightarrow> set_completed s)"

definition default_organisation :: "env \<Rightarrow> db \<Rightarrow> organisation \<times> db" where
  "default_organisation e d =
     (let slug = cfg_default_org_slug (env_cfg e) in
      case find (\<lambda>x. org_slug x = slug) (db_orgs d) of
        Some x \<Rightarrow> (x, d)
      | None \<Rightarrow> (let x = \<lparr>org_id = env_id e 0, org_name = ''Default Organisation'', org_slug = slug,
                          org_active = True, org_created_at = env_now e\<rparr>
                in (x, d\<lparr>db_orgs := db_orgs d @ [x]\<rparr>)))"

definition first_admin :: "env \<Rightarrow> string \<Rightarrow> string \<Rightarrow> string \<Rightarrow> uuid \<Rightarrow> user" where
  "first_admin e username password totp_secret org =
     \<lparr>usr_id = env_id e 1, usr_username = username, usr_password_hash = Some (hash_password (env_crypto e) password),
      usr_totp_secret = totp_secret, usr_totp_enabled = True, usr_role = Superadmin, usr_active = True,
      usr_must_change = False, usr_oidc_sub = None, usr_oidc_issuer = None, usr_ldap = None, usr_org = Some org,
      usr_created_by = None, usr_created_at = env_now e, usr_last_login_at = None,
      usr_asked_version = Some (cfg_app_version (env_cfg e))\<rparr>"

text \<open>\<open>None\<close> is the refusal of the unique user name by the database, which rolls everything back.\<close>

definition create_initial_admin :: "env \<Rightarrow> string \<Rightarrow> string \<Rightarrow> string \<Rightarrow> bool \<Rightarrow> db \<Rightarrow> (bool \<times> db) option" where
  "create_initial_admin e username password totp_secret telemetry d =
     (if is_setup_complete d then Some (False, d)
      else if get_user_by_username d username \<noteq> None then None
      else (let (org, d1) = default_organisation e d;
                admin = first_admin e username password totp_secret (org_id org);
                d2 = audit_log e 2 admin ''admin.created'' None
                       [(''username'', username), (''role'', role_name (usr_role admin))] (Some (Some (org_id org)))
                       (d1\<lparr>db_users := db_users d1 @ [admin]\<rparr>);
                d3 = d2\<lparr>db_setup := Some \<lparr>set_completed = True, set_completed_at = Some (env_now e)\<rparr>\<rparr>;
                d4 = (if telemetry
                      then (let (s, d') = ensure_state e d3 in d'\<lparr>db_telemetry := Some (s\<lparr>tel_enabled := True\<rparr>)\<rparr>)
                      else d3)
            in Some (True, d4)))"

section \<open>The form\<close>

record setup_form =
  sf_username :: string
  sf_password :: string
  sf_confirm :: string
  sf_secret :: string
  sf_code :: string
  sf_token :: string
  sf_telemetry :: string

datatype setup_page =
    To_login_page
  | Setup_form nat string "(string \<times> string) list" string bool
  | Server_error

definition base32_upper :: "char \<Rightarrow> bool" where
  "base32_upper c \<longleftrightarrow> (let n = of_char c :: nat in 65 \<le> n \<and> n \<le> 90 \<or> 50 \<le> n \<and> n \<le> 55)"

definition totp_secret_ok :: "string \<Rightarrow> bool" where
  "totp_secret_ok s \<longleftrightarrow> length s = 32 \<and> list_all base32_upper s"

definition setup_get :: "env \<Rightarrow> string \<Rightarrow> redis \<times> db \<Rightarrow> setup_page \<times> redis" where
  "setup_get e fresh = (\<lambda>(r, d).
     if is_setup_complete d then (To_login_page, r)
     else (Setup_form 200 (env_token e 1) [] [] False, snd (ensure_setup_token e r fresh)))"

definition setup_errors :: "env \<Rightarrow> setup_form \<Rightarrow> bool \<Rightarrow> string \<Rightarrow> (string \<times> string) list" where
  "setup_errors e f secret_ok secret =
     (if validate_username (sf_username f) = None then [(''username'', ''wizard.error.username'')] else []) @
     (case validate_password (sf_password f) of Inl _ \<Rightarrow> [(''password'', ''wizard.error.password'')] | Inr _ \<Rightarrow> []) @
     (if sf_password f \<noteq> sf_confirm f then [(''password_confirm'', ''wizard.error.password_confirm'')] else []) @
     (if \<not> secret_ok \<or> \<not> verify_totp e secret (sf_code f) then [(''totp_code'', ''wizard.error.totp_code'')] else [])"

text \<open>Up to the creation: the page that refuses, or nothing.\<close>

definition setup_check :: "env \<Rightarrow> setup_form \<Rightarrow> redis \<times> db \<Rightarrow> setup_page option \<times> redis" where
  "setup_check e f = (\<lambda>(r, d).
     if is_setup_complete d then (Some To_login_page, r)
     else (let secret_ok = totp_secret_ok (sf_secret f);
               secret = (if secret_ok then sf_secret f else env_token e 1);
               (claimed, r1) = claim_setup_token_attempt (env_cfg e) (millis e) r in
           if \<not> claimed \<or> \<not> check_setup_token e r1 (strip (sf_token f))
           then (Some (Setup_form (if claimed then 403 else 429) secret
                   [(''setup_token'', if claimed then ''wizard.error.setup_token'' else ''wizard.error.setup_token_locked'')]
                   (sf_username f) (sf_telemetry f = ''1'')), r1)
           else (let r2 = reset_setup_token_failures r1; errors = setup_errors e f secret_ok secret in
                 if errors \<noteq> []
                 then (Some (Setup_form 422 secret errors
                         (case validate_username (sf_username f) of None \<Rightarrow> sf_username f | Some n \<Rightarrow> n)
                         (sf_telemetry f = ''1'')), r2)
                 else (None, r2))))"

definition setup_create :: "env \<Rightarrow> setup_form \<Rightarrow> redis \<times> db \<Rightarrow> (setup_page \<times> bool) \<times> redis \<times> db" where
  "setup_create e f = (\<lambda>(r, d).
     (let name = the (validate_username (sf_username f)) in
      case create_initial_admin e name (sf_password f) (sf_secret f) (sf_telemetry f = ''1'') d of
        None \<Rightarrow> ((Server_error, False), r, d)
      | Some (made, d') \<Rightarrow>
          if \<not> made then ((To_login_page, False), r, d')
          else (let r1 = delete_setup_token r in
                case get_user_by_username d' name of
                  None \<Rightarrow> ((To_login_page, True), r1, d')
                | Some u \<Rightarrow> ((To_login_page, True), snd (consume_totp e r1 (usr_id u) (sf_secret f) (sf_code f)), d'))))"

definition setup_post :: "env \<Rightarrow> setup_form \<Rightarrow> redis \<times> db \<Rightarrow> setup_page \<times> redis \<times> db" where
  "setup_post e f w =
     (case setup_check e f w of
        (Some page, r) \<Rightarrow> (page, r, snd w)
      | (None, r) \<Rightarrow> (let ((page, _), r', d') = setup_create e f (r, snd w) in (page, r', d')))"

section \<open>Racing submissions\<close>

record setup_world =
  sw_redis :: redis
  sw_db :: db
  sw_issued :: "string list"
  sw_waiting :: "setup_form list"
  sw_made :: "setup_form list"

text \<open>\<open>elsewhere\<close> is any request that leaves setup and its token alone.\<close>

inductive setup_step :: "setup_world \<Rightarrow> setup_world \<Rightarrow> bool" where
  visit: "setup_get e fresh (sw_redis w, sw_db w) = (page, r) \<Longrightarrow>
     setup_step w (w\<lparr>sw_redis := r, sw_issued := fresh # cfg_setup_token (env_cfg e) # sw_issued w\<rparr>)"
| refuse: "setup_check e f (sw_redis w, sw_db w) = (Some page, r) \<Longrightarrow> setup_step w (w\<lparr>sw_redis := r\<rparr>)"
| accept: "setup_check e f (sw_redis w, sw_db w) = (None, r) \<Longrightarrow>
     setup_step w (w\<lparr>sw_redis := r, sw_waiting := f # sw_waiting w\<rparr>)"
| create: "sw_waiting w = fs @ f # fs' \<Longrightarrow> setup_create e f (sw_redis w, sw_db w) = ((page, made), r, d) \<Longrightarrow>
     setup_step w (w\<lparr>sw_redis := r, sw_db := d, sw_waiting := fs @ fs',
                     sw_made := (if made then [f] else []) @ sw_made w\<rparr>)"
| elsewhere: "db_setup d = db_setup (sw_db w) \<Longrightarrow> (\<And>now. kv_get now r SETUP_TOKEN_KEY = kv_get now (sw_redis w) SETUP_TOKEN_KEY) \<Longrightarrow>
     setup_step w (w\<lparr>sw_redis := r, sw_db := d\<rparr>)"

definition unset :: "setup_world \<Rightarrow> bool" where
  "unset w \<longleftrightarrow> \<not> is_setup_complete (sw_db w) \<and> sw_waiting w = [] \<and> sw_made w = [] \<and>
     (\<forall>now. kv_get now (sw_redis w) SETUP_TOKEN_KEY = None)"

definition well_checked :: "string list \<Rightarrow> setup_form \<Rightarrow> bool" where
  "well_checked issued f \<longleftrightarrow>
     strip (sf_token f) \<noteq> [] \<and> strip (sf_token f) \<in> set issued \<and> totp_secret_ok (sf_secret f) \<and>
     validate_username (sf_username f) \<noteq> None \<and> sf_password f = sf_confirm f \<and>
     MIN_PASSWORD_LENGTH \<le> length (sf_password f) \<and> (\<exists>e. verify_totp e (sf_secret f) (sf_code f))"

definition setup_inv :: "setup_world \<Rightarrow> bool" where
  "setup_inv w \<longleftrightarrow>
     (\<forall>now t. kv_get now (sw_redis w) SETUP_TOKEN_KEY = Some (Txt t) \<longrightarrow> t \<in> set (sw_issued w)) \<and>
     (\<forall>f \<in> set (sw_waiting w @ sw_made w). well_checked (sw_issued w) f) \<and>
     (sw_made w \<noteq> [] \<longrightarrow> is_setup_complete (sw_db w)) \<and> length (sw_made w) \<le> 1"

lemma setup_failures_not_token [simp]: "SETUP_TOKEN_KEY \<noteq> SETUP_TOKEN_FAILURES"
  by (simp add: SETUP_TOKEN_KEY_def SETUP_TOKEN_FAILURES_def)

lemma claim_keeps_token: "kv_get now (snd (claim_setup_token_attempt cfg t r)) SETUP_TOKEN_KEY = kv_get now r SETUP_TOKEN_KEY"
  by (auto simp: claim_setup_token_attempt_def claim_def Let_def kv_add_def kv_expire_def kv_set_def kv_get_put
      case_prod_beta split: option.split)

lemma check_keeps_token:
  "kv_get now (snd (setup_check e f (r, d))) SETUP_TOKEN_KEY = kv_get now r SETUP_TOKEN_KEY"
  using claim_keeps_token [of now "env_cfg e" "millis e" r]
  by (auto simp: setup_check_def Let_def case_prod_beta reset_setup_token_failures_def kv_get_del)

lemma validate_password_long: "validate_password p = Inr q \<Longrightarrow> MIN_PASSWORD_LENGTH \<le> length p"
  by (auto simp: validate_password_def split: if_splits)

lemma setup_check_passed:
  assumes "setup_check e f (r, d) = (None, r')"
    "\<forall>now t. kv_get now r SETUP_TOKEN_KEY = Some (Txt t) \<longrightarrow> t \<in> set issued"
  shows "well_checked issued f"
proof -
  let ?r1 = "snd (claim_setup_token_attempt (env_cfg e) (millis e) r)"
  from assms(1) have c: "check_setup_token e ?r1 (strip (sf_token f))"
    and errs: "setup_errors e f (totp_secret_ok (sf_secret f))
        (if totp_secret_ok (sf_secret f) then sf_secret f else env_token e 1) = []"
    by (auto simp: setup_check_def Let_def case_prod_beta split: if_splits)
  from c obtain t where "kv_get (millis e) r SETUP_TOKEN_KEY = Some (Txt t)" "t = strip (sf_token f)" "t \<noteq> []"
    by (auto simp: check_setup_token_def claim_keeps_token split: option.splits rval.splits)
  moreover have "totp_secret_ok (sf_secret f)" "validate_username (sf_username f) \<noteq> None" "sf_password f = sf_confirm f"
    "\<exists>q. validate_password (sf_password f) = Inr q" "verify_totp e (sf_secret f) (sf_code f)"
    using errs by (auto simp: setup_errors_def split: if_splits sum.splits)
  ultimately show ?thesis using assms(2) validate_password_long by (auto simp: well_checked_def)
qed

lemma create_initial_admin_setup:
  assumes "create_initial_admin e n p s t d = Some (made, d')"
  shows "if made then \<not> is_setup_complete d \<and> is_setup_complete d' else is_setup_complete d \<and> d' = d"
  using assms
  by (auto simp: create_initial_admin_def ensure_state_def default_organisation_def Let_def is_setup_complete_def
      audit_log_def split: if_splits option.splits)

lemma consume_keeps_token:
  "kv_get now (snd (consume_totp e r uid s c)) SETUP_TOKEN_KEY = kv_get now r SETUP_TOKEN_KEY"
  by (simp add: consume_totp_def kv_setnx_def kv_set_def kv_get_put totp_used_key_def SETUP_TOKEN_KEY_def)

lemma setup_create_facts:
  assumes "setup_create e f (r, d) = ((page, made), r', d')"
  shows "if made then \<not> is_setup_complete d \<and> is_setup_complete d' else d' = d"
    "kv_get now r' SETUP_TOKEN_KEY = Some v \<Longrightarrow> kv_get now r SETUP_TOKEN_KEY = Some v"
  using assms create_initial_admin_setup
  by (fastforce simp: setup_create_def Let_def consume_keeps_token delete_setup_token_def kv_get_del split: option.splits if_splits prod.splits)+

lemma well_checked_mono: "well_checked issued f \<Longrightarrow> set issued \<subseteq> set issued' \<Longrightarrow> well_checked issued' f"
  by (auto simp: well_checked_def)

lemma setup_inv_step:
  assumes "setup_inv w" "setup_step w w'" shows "setup_inv w'"
  using assms(2)
proof cases
  case (visit e fresh page r)
  have "r = sw_redis w \<or> r = snd (ensure_setup_token e (sw_redis w) fresh)"
    using visit(2) by (auto simp: setup_get_def split: if_splits)
  then have "kv_get now r SETUP_TOKEN_KEY = kv_get now (sw_redis w) SETUP_TOKEN_KEY \<or>
      kv_get now r SETUP_TOKEN_KEY \<in> {Some (Txt fresh), Some (Txt (cfg_setup_token (env_cfg e)))}" for now
    by (auto simp: ensure_setup_token_def Let_def kv_get_put)
  then have "\<forall>now t. kv_get now r SETUP_TOKEN_KEY = Some (Txt t) \<longrightarrow> t \<in> set (fresh # cfg_setup_token (env_cfg e) # sw_issued w)"
    using assms(1) unfolding setup_inv_def by (metis (no_types) insert_iff list.simps(15) option.inject rval.inject(1) empty_iff)
  then show ?thesis
    using assms(1) by (auto simp: setup_inv_def visit(1) intro: well_checked_mono)
next
  case (refuse e f page r)
  have "kv_get now r SETUP_TOKEN_KEY = kv_get now (sw_redis w) SETUP_TOKEN_KEY" for now
    using check_keeps_token [of now e f "sw_redis w" "sw_db w"] refuse(2) by simp
  then show ?thesis using assms(1) by (simp add: setup_inv_def refuse(1))
next
  case (accept e f r)
  have "kv_get now r SETUP_TOKEN_KEY = kv_get now (sw_redis w) SETUP_TOKEN_KEY" for now
    using check_keeps_token [of now e f "sw_redis w" "sw_db w"] accept(2) by simp
  moreover have "well_checked (sw_issued w) f"
    using setup_check_passed [OF accept(2)] assms(1) by (simp add: setup_inv_def)
  ultimately show ?thesis using assms(1) by (simp add: setup_inv_def accept(1))
next
  case (create fs f fs' e page made r d)
  note facts = setup_create_facts [OF create(3)]
  have "sw_made w = []" if made using facts(1) that assms(1) by (auto simp: setup_inv_def)
  moreover have "sw_made w \<noteq> [] \<longrightarrow> is_setup_complete d" using facts(1) assms(1) by (auto simp: setup_inv_def split: if_splits)
  moreover have "\<forall>now t. kv_get now r SETUP_TOKEN_KEY = Some (Txt t) \<longrightarrow> t \<in> set (sw_issued w)"
    using facts(2) assms(1) unfolding setup_inv_def by blast
  ultimately show ?thesis using facts(1) assms(1) create(2) by (auto simp: setup_inv_def create(1))
next
  case (elsewhere d r)
  then show ?thesis using assms(1) by (simp add: setup_inv_def is_setup_complete_def)
qed

interpretation setups: invariant_system unset setup_step setup_inv
  by unfold_locales (simp add: unset_def setup_inv_def, rule setup_inv_step)

text \<open>
  C30. However submissions of the setup form race, on however many replicas, the first account is made
  at most once, by a submission that named an issued setup token, a password of the required length and
  a code of an authenticator secret of the form the page issues; and setup is complete from then on.
\<close>

theorem first_account_made_once:
  assumes "reachable unset setup_step w"
  shows "length (sw_made w) \<le> 1 \<and> (\<forall>f \<in> set (sw_made w). well_checked (sw_issued w) f) \<and>
    (sw_made w \<noteq> [] \<longrightarrow> is_setup_complete (sw_db w) \<and>
       (\<forall>e f. fst (setup_check e f (sw_redis w, sw_db w)) = Some To_login_page))"
  using setups.inv_reachable [OF assms] by (auto simp: setup_inv_def setup_check_def)

definition first_form :: setup_form where
  "first_form = \<lparr>sf_username = '' owner'', sf_password = ''correct horse'', sf_confirm = ''correct horse'',
     sf_secret = replicate 32 (CHR ''A''), sf_code = ''123456'', sf_token = ''tok '', sf_telemetry = []\<rparr>"

definition setup_redis :: redis where "setup_redis = snd (setup_get toy_env ''tok'' ([], empty_db))"

lemma first_form_accepted: "fst (setup_check toy_env first_form (setup_redis, empty_db)) = None"
  by code_simp

lemma first_form_creates:
  "snd (fst (setup_create toy_env first_form (snd (setup_check toy_env first_form (setup_redis, empty_db)), empty_db)))"
  by code_simp

theorem first_account_made_once_witness:
  "\<exists>w. reachable unset setup_step w \<and> sw_made w = [first_form] \<and> is_setup_complete (sw_db w)"
proof -
  define w0 where "w0 = \<lparr>sw_redis = [], sw_db = empty_db, sw_issued = [], sw_waiting = [], sw_made = []\<rparr>"
  define w1 where "w1 = w0\<lparr>sw_redis := setup_redis, sw_issued := [''tok'', cfg_setup_token (env_cfg toy_env)]\<rparr>"
  define w2 where "w2 = w1\<lparr>sw_redis := snd (setup_check toy_env first_form (setup_redis, empty_db)), sw_waiting := [first_form]\<rparr>"
  have w2: "sw_redis w2 = snd (setup_check toy_env first_form (setup_redis, empty_db))" "sw_db w2 = empty_db"
    by (simp_all add: w2_def w1_def w0_def)
  obtain page made r d where c: "setup_create toy_env first_form (sw_redis w2, sw_db w2) = ((page, made), r, d)"
    by (metis prod.exhaust)
  then have made: "made" using first_form_creates by (simp add: w2)
  define w3 where "w3 = w2\<lparr>sw_redis := r, sw_db := d, sw_waiting := [], sw_made := [first_form]\<rparr>"
  have "unset w0" by (simp add: unset_def w0_def is_setup_complete_def empty_db_def kv_get_def kv_entry_def)
  moreover have "setup_step w0 w1"
    using setup_step.visit [of toy_env "''tok''" w0 "fst (setup_get toy_env ''tok'' ([], empty_db))" setup_redis]
    by (simp add: w1_def w0_def setup_redis_def)
  moreover have "setup_step w1 w2"
  proof -
    have "setup_check toy_env first_form (sw_redis w1, sw_db w1) = (None, snd (setup_check toy_env first_form (setup_redis, empty_db)))"
      using first_form_accepted by (simp add: w1_def w0_def prod_eq_iff)
    from setup_step.accept [OF this] show ?thesis by (simp add: w2_def w1_def w0_def)
  qed
  moreover have "setup_step w2 w3"
    using setup_step.create [OF _ c, of "[]" "[]"] by (simp add: w3_def w2_def w1_def w0_def made)
  ultimately have "reachable unset setup_step w3" by (meson reachable.start reachable.step)
  moreover have "sw_made w3 = [first_form]" by (simp add: w3_def)
  ultimately show ?thesis using first_account_made_once [of w3] by auto
qed

section \<open>What the first account is\<close>

lemma find_snoc: "find P (xs @ [y]) = (case find P xs of Some x \<Rightarrow> Some x | None \<Rightarrow> if P y then Some y else None)"
  by (induction xs) auto

lemma create_initial_admin_made:
  assumes "create_initial_admin e name p s t d = Some (True, d')"
  obtains org where "get_user_by_username d name = None"
    "db_users d' = db_users d @ [first_admin e name p s (org_id org)]"
    "org \<in> set (db_orgs d')" "org_slug org = cfg_default_org_slug (env_cfg e)"
    "aud_action (last (db_audit d')) = ''admin.created''" "aud_admin (last (db_audit d')) = Some (env_id e 1)"
    "aud_org (last (db_audit d')) = Some (org_id org)"
    "if t then \<exists>x. db_telemetry d' = Some x \<and> tel_enabled x else db_telemetry d' = db_telemetry d"
proof -
  obtain org d1 where o: "default_organisation e d = (org, d1)" by fastforce
  then have "org \<in> set (db_orgs d1)" "org_slug org = cfg_default_org_slug (env_cfg e)" "db_users d1 = db_users d"
    "db_telemetry d1 = db_telemetry d" "db_reports d1 = db_reports d"
    by (auto simp: default_organisation_def Let_def find_Some_iff split: option.splits)
  moreover have "get_user_by_username d name = None" using assms by (auto simp: create_initial_admin_def split: if_splits)
  ultimately show ?thesis
    using assms o
    by (intro that) (auto simp: create_initial_admin_def Let_def audit_log_def audit_org_def first_admin_def
        ensure_state_def split: if_splits option.splits)
qed

text \<open>
  The submission that completes setup makes one account: an active superadmin of the default
  organisation, with the confirmed authenticator, named in the audit log. The setup token is gone, the
  code it used opens no session, and the installation count is on only when the form said so.
\<close>

theorem first_account_owns_instance:
  assumes "setup_create e f (r, d) = ((page, True), r', d')"
    "\<not> kv_exists (millis e) r (totp_used_key (env_id e 1) (sf_code f))"
  shows "(\<exists>u. db_users d' = db_users d @ [u] \<and> usr_role u = Superadmin \<and> usr_active u \<and> usr_totp_enabled u \<and>
      usr_totp_secret u = sf_secret f \<and> usr_username u = the (validate_username (sf_username f)) \<and>
      (\<exists>x \<in> set (db_orgs d'). org_slug x = cfg_default_org_slug (env_cfg e) \<and> usr_org u = Some (org_id x) \<and>
         aud_org (last (db_audit d')) = Some (org_id x)) \<and>
      aud_action (last (db_audit d')) = ''admin.created'' \<and> aud_admin (last (db_audit d')) = Some (usr_id u) \<and>
      (\<forall>e'. millis e \<le> millis e' \<and> millis e' < millis e + 90000 \<and> verify_totp e (sf_secret f) (sf_code f) \<longrightarrow>
         \<not> fst (consume_totp e' r' (usr_id u) (sf_secret f) (sf_code f)))) \<and>
    kv_get now r' SETUP_TOKEN_KEY = None \<and>
    (if sf_telemetry f = ''1'' then \<exists>x. db_telemetry d' = Some x \<and> tel_enabled x else db_telemetry d' = db_telemetry d)"
proof -
  let ?name = "the (validate_username (sf_username f))"
  from assms(1) have made: "create_initial_admin e ?name (sf_password f) (sf_secret f) (sf_telemetry f = ''1'') d = Some (True, d')"
    by (auto simp: setup_create_def Let_def split: option.splits if_splits prod.splits)
  then obtain org where fresh: "get_user_by_username d ?name = None"
    and users: "db_users d' = db_users d @ [first_admin e ?name (sf_password f) (sf_secret f) (org_id org)]"
    and org: "org \<in> set (db_orgs d')" "org_slug org = cfg_default_org_slug (env_cfg e)"
    and log: "aud_action (last (db_audit d')) = ''admin.created''" "aud_admin (last (db_audit d')) = Some (env_id e 1)"
      "aud_org (last (db_audit d')) = Some (org_id org)"
    and tel: "if sf_telemetry f = ''1'' then \<exists>x. db_telemetry d' = Some x \<and> tel_enabled x else db_telemetry d' = db_telemetry d"
    by (rule create_initial_admin_made)
  let ?u = "first_admin e ?name (sf_password f) (sf_secret f) (org_id org)"
  have found: "get_user_by_username d' ?name = Some ?u"
    using fresh by (simp add: get_user_by_username_def users find_snoc first_admin_def)
  then have r': "r' = snd (consume_totp e (delete_setup_token r) (usr_id ?u) (sf_secret f) (sf_code f))"
    using assms(1) made by (simp add: setup_create_def Let_def)
  have token: "kv_get now r' SETUP_TOKEN_KEY = None"
    by (simp add: r' consume_keeps_token delete_setup_token_def kv_get_del)
  have used: "\<not> fst (consume_totp e' r' (usr_id ?u) (sf_secret f) (sf_code f))"
    if "millis e \<le> millis e'" "millis e' < millis e + 90000" "verify_totp e (sf_secret f) (sf_code f)" for e'
  proof -
    let ?k = "totp_used_key (usr_id ?u) (sf_code f)"
    have "kv_exists (millis e') r' ?k"
      using that assms(2)
      by (simp add: r' consume_totp_def kv_setnx_def kv_exists_def kv_set_def live_def Let_def first_admin_def
          delete_setup_token_def)
    then show ?thesis by (simp add: consume_totp_def kv_setnx_def)
  qed
  have "usr_role ?u = Superadmin" "usr_active ?u" "usr_totp_enabled ?u" "usr_totp_secret ?u = sf_secret f"
    "usr_username ?u = ?name" "usr_org ?u = Some (org_id org)" "usr_id ?u = env_id e 1"
    by (simp_all add: first_admin_def)
  then show ?thesis using users org log tel token used by metis
qed


theorem first_account_owns_instance_witness:
  "\<exists>r d u. setup_create toy_env first_form (setup_redis, empty_db) = ((To_login_page, True), r, d) \<and>
     db_users d = [u] \<and> usr_role u = Superadmin \<and> usr_totp_enabled u \<and> db_telemetry d = None"
proof -
  obtain page made r d where c: "setup_create toy_env first_form (setup_redis, empty_db) = ((page, made), r, d)"
    by (metis prod.exhaust)
  have "fst (setup_create toy_env first_form (setup_redis, empty_db)) = (To_login_page, True)" by code_simp
  with c have m: "page = To_login_page" "made" by simp_all
  have h: "\<not> kv_exists (millis toy_env) setup_redis (totp_used_key (env_id toy_env 1) (sf_code first_form))" by code_simp
  have "sf_telemetry first_form \<noteq> ''1''" by (simp add: first_form_def)
  then show ?thesis
    using first_account_owns_instance [OF c [unfolded m(1) eqTrueI [OF m(2)]] h] c m by (auto simp: empty_db_def)
qed

end
