(* ===== verification/Maker_Walk.thy ===== *)
theory Maker_Walk
  imports Four_Eyes
begin

text \<open>
  The walk over the makers of an account as the loop the source runs (\<open>_one_made_the_other\<close> in
  \<open>app/api/admin.py\<close>): one query per round, with a bound on the rounds, and the proof that the loop
  ends and finds exactly the accounts behind the first one.
\<close>

fun makers_loop :: "nat \<Rightarrow> db \<Rightarrow> uuid option \<Rightarrow> uuid list \<Rightarrow> uuid list option" where
  "makers_loop 0 d current seen = None"
| "makers_loop (Suc n) d current seen =
     (case current of
        None \<Rightarrow> Some seen
      | Some i \<Rightarrow>
          (if i \<in> set seen then Some seen
           else makers_loop n d (Option.bind (user_of d i) usr_created_by) (i # seen)))"

definition unseen :: "db \<Rightarrow> uuid list \<Rightarrow> nat" where
  "unseen d seen = card (usr_id ` set (db_users d) - set seen)"

lemma unseen_less:
  assumes "user_of d i = Some u" "i \<notin> set seen"
  shows "unseen d (i # seen) < unseen d seen"
proof -
  have "i \<in> usr_id ` set (db_users d) - set seen" using assms by (auto simp: user_of_def dest!: row_Some)
  then have "card (usr_id ` set (db_users d) - set seen - {i}) < card (usr_id ` set (db_users d) - set seen)"
    by (intro card_Diff1_less) auto
  moreover have "usr_id ` set (db_users d) - set (i # seen) = usr_id ` set (db_users d) - set seen - {i}" by auto
  ultimately show ?thesis by (simp only: unseen_def)
qed

lemma makers_loop_enough:
  "unseen d seen + 2 \<le> n \<Longrightarrow> makers_loop n d current seen = Some (makers d current seen)"
proof (induction n arbitrary: current seen)
  case (Suc n)
  show ?case
  proof (cases current)
    case (Some i)
    show ?thesis
    proof (cases "i \<in> set seen")
      case False
      show ?thesis
      proof (cases "user_of d i")
        case None
        with Some False Suc.prems show ?thesis by (cases n) simp_all
      next
        case u: (Some u)
        with unseen_less [OF u False] Suc.prems have "unseen d (i # seen) + 2 \<le> n" by simp
        from Suc.IH [OF this] Some False u show ?thesis by simp
      qed
    qed (simp add: Some)
  qed simp
qed simp

lemma makers_distinct_short:
  "distinct seen \<Longrightarrow> distinct (makers d current seen) \<and> length (makers d current seen) \<le> length seen + unseen d seen + 1"
proof (induction d current seen rule: makers.induct)
  case (2 d i seen)
  show ?case
  proof (cases "i \<in> set seen \<or> user_of d i = None")
    case True
    with 2(2) show ?thesis by auto
  next
    case False
    then obtain u where u: "user_of d i = Some u" "i \<notin> set seen" by auto
    from 2(1) [OF u(2,1)] 2(2) u(2) unseen_less [OF u] u show ?thesis by simp
  qed
qed simp

text \<open>
  C31. The walk behind the four-eyes check ends whatever cycles the table of accounts has: after at most
  two rounds more than there are accounts it returns, without duplicates, exactly the accounts that made
  the first one, directly or through others, and that account itself.
\<close>

theorem maker_walk_ends:
  "\<exists>found. makers_loop (length (db_users d) + 2 + k) d (Some i) [] = Some found \<and> distinct found \<and>
     length found \<le> length (db_users d) + 1 \<and> set found = {x. (i, x) \<in> (made_by d)\<^sup>*}"
proof -
  have u: "unseen d [] \<le> length (db_users d)"
    by (simp add: unseen_def) (metis card_length length_map list.set_map)
  then have "unseen d [] + 2 \<le> length (db_users d) + 2 + k" by simp
  from makers_loop_enough [OF this, of "Some i"] makers_distinct_short [of "[]" d "Some i"] u
  show ?thesis
    by (intro exI [of _ "makers d (Some i) []"]) (simp add: makers_eq del: makers.simps makers_loop.simps)
qed

end
