(* ===== verification/Key_Rotation.thy ===== *)
theory Key_Rotation
  imports Encryption Json
begin

text \<open>
  The key rotation script (\<open>scripts/rotate_encryption_key.py\<close>). The encrypted columns are one table
  of texts, addressed by column and row; an audit entry's detail is the text of a JSON object, under
  the column that says which action it belongs to. The second transaction of the script runs on the
  table as it then is: what the program wrote between the two is part of it.
\<close>

section \<open>What is stored\<close>

datatype column =
    Encrypted_dek
  | Conf_name
  | Conf_contact
  | Secure_mail
  | Totp_column
  | Reveal_detail
  | Search_detail

type_synonym cell = "column \<times> uuid"
type_synonym cells = "(cell \<times> string) list"

section \<open>The transforms\<close>

datatype trouble = Invalid_token | Uncaught

text \<open>A token that opens under none of the keys is the one error the script expects.\<close>

definition rotated :: "string option \<Rightarrow> trouble + string" where
  "rotated x = (case x of None \<Rightarrow> Inl Invalid_token | Some t \<Rightarrow> Inr t)"

definition detail_rotator :: "crypto \<Rightarrow> settings \<Rightarrow> json_text \<Rightarrow> string \<Rightarrow> string \<Rightarrow> trouble + string" where
  "detail_rotator cr cfg js key detail =
     (case js_loads js detail of
        Some (JObj kvs) \<Rightarrow>
          (case dict_get kvs key of
             JStr token \<Rightarrow>
               (case rotated (rotate_token cr cfg token) of
                  Inl x \<Rightarrow> Inl x
                | Inr t \<Rightarrow> Inr (js_dumps js (JObj (dict_put kvs key (JStr t)))))
           | _ \<Rightarrow> Inl Uncaught)
      | _ \<Rightarrow> Inl Uncaught)"

text \<open>
  The sources in their order: the wrapped data keys, the directly encrypted fields, and the details
  of the two actions that carry an encrypted value.
\<close>

definition detail_key :: "column \<Rightarrow> string" where
  "detail_key c = (if c = Reveal_detail then ''reason'' else ''term'')"

definition transform :: "crypto \<Rightarrow> settings \<Rightarrow> json_text \<Rightarrow> column \<Rightarrow> string \<Rightarrow> trouble + string" where
  "transform cr cfg js c v =
     (case c of
        Encrypted_dek \<Rightarrow> rotated (rotate_dek cr cfg v)
      | Reveal_detail \<Rightarrow> detail_rotator cr cfg js (detail_key c) v
      | Search_detail \<Rightarrow> detail_rotator cr cfg js (detail_key c) v
      | _ \<Rightarrow> rotated (rotate_token cr cfg v))"

text \<open>\<open>detail LIKE '%"key"%'\<close>.\<close>

definition contains :: "string \<Rightarrow> string \<Rightarrow> bool" where "contains p s \<longleftrightarrow> sublist p s"

definition quoted :: "string \<Rightarrow> string" where "quoted s = [CHR 0x22] @ s @ [CHR 0x22]"

definition selected :: "cell \<times> string \<Rightarrow> bool" where
  "selected x \<longleftrightarrow>
     (case fst (fst x) of
        Reveal_detail \<Rightarrow> contains (quoted (detail_key Reveal_detail)) (snd x)
      | Search_detail \<Rightarrow> contains (quoted (detail_key Search_detail)) (snd x)
      | _ \<Rightarrow> True)"

definition COLUMNS :: "column list" where
  "COLUMNS = [Encrypted_dek, Conf_name, Conf_contact, Secure_mail, Totp_column, Reveal_detail, Search_detail]"

definition sources :: "cells \<Rightarrow> cells" where
  "sources cs = concat (map (\<lambda>c. filter (\<lambda>x. fst (fst x) = c \<and> selected x) cs) COLUMNS)"

section \<open>The run\<close>

text \<open>First everything in memory: the writes with the old value, and the rows that open under no key.\<close>

fun prepare :: "crypto \<Rightarrow> settings \<Rightarrow> json_text \<Rightarrow> cells \<Rightarrow> ((cell \<times> string \<times> string) list \<times> cell list) option" where
  "prepare cr cfg js [] = Some ([], [])"
| "prepare cr cfg js ((c, v) # rest) =
     (case transform cr cfg js (fst c) v of
        Inl Uncaught \<Rightarrow> None
      | Inl Invalid_token \<Rightarrow> map_option (\<lambda>(ws, fs). (ws, c # fs)) (prepare cr cfg js rest)
      | Inr w \<Rightarrow> map_option (\<lambda>(ws, fs). ((c, v, w) # ws, fs)) (prepare cr cfg js rest))"

text \<open>\<open>UPDATE \<dots> SET col = new WHERE id = i AND col = old\<close>, with the number of rows it changed.\<close>

definition guarded_update :: "cell \<times> string \<times> string \<Rightarrow> cells \<Rightarrow> cells \<times> nat" where
  "guarded_update w cs =
     (case w of (c, old, new) \<Rightarrow>
        (map (\<lambda>x. if x = (c, old) then (c, new) else x) cs, if (c, old) \<in> set cs then 1 else 0))"

fun write_all :: "(cell \<times> string \<times> string) list \<Rightarrow> cells \<Rightarrow> cells \<times> nat" where
  "write_all [] cs = (cs, 0)"
| "write_all (w # ws) cs =
     (let (cs1, n) = guarded_update w cs; (cs2, skipped) = write_all ws cs1 in (cs2, 1 - n + skipped))"

datatype ending = Nothing_to_rotate | Unreadable "cell list" | Crashed | Rotated nat nat

definition rotate_main :: "crypto \<Rightarrow> settings \<Rightarrow> json_text \<Rightarrow> cells \<Rightarrow> cells \<Rightarrow> ending \<times> cells" where
  "rotate_main cr cfg js seen cs =
     (if cfg_encryption_key cfg = [] \<or> tl (encryption_keys cfg) = [] then (Nothing_to_rotate, cs)
      else (case prepare cr cfg js (sources seen) of
              None \<Rightarrow> (Crashed, cs)
            | Some (writes, failed) \<Rightarrow>
                (if failed \<noteq> [] then (Unreadable failed, cs)
                 else (let (cs1, skipped) = write_all writes cs
                       in (Rotated (length writes - skipped) skipped, cs1)))))"

definition exit_code :: "ending \<Rightarrow> int" where
  "exit_code x = (case x of Rotated _ _ \<Rightarrow> 0 | _ \<Rightarrow> 1)"


section \<open>What a cell says\<close>

definition says :: "crypto \<Rightarrow> settings \<Rightarrow> json_text \<Rightarrow> column \<Rightarrow> string \<Rightarrow> string option" where
  "says cr cfg js c v =
     (if c = Encrypted_dek then decrypt_dek cr cfg v
      else if c = Reveal_detail \<or> c = Search_detail
      then (case js_loads js v of
              Some (JObj kvs) \<Rightarrow> (case dict_get kvs (detail_key c) of JStr t \<Rightarrow> decrypt cr cfg t | _ \<Rightarrow> None)
            | _ \<Rightarrow> None)
      else decrypt cr cfg v)"

text \<open>A detail with its one value replaced can be written and read back.\<close>

definition details_read_back :: "json_text \<Rightarrow> cells \<Rightarrow> bool" where
  "details_read_back js cs \<longleftrightarrow>
     (\<forall>x \<in> set cs. \<forall>kvs t. fst (fst x) \<in> {Reveal_detail, Search_detail} \<longrightarrow> js_loads js (snd x) = Some (JObj kvs) \<longrightarrow>
        reads_back js (JObj (dict_put kvs (detail_key (fst (fst x))) (JStr t))))"

lemma multi_seal_current:
  assumes "fernet_ok cr ks" "ks \<noteq> []"
  shows "multi_open cr [hd ks] (multi_seal cr ks m) = Some m"
  using assms by (simp add: multi_seal_def fernet_ok_def)

lemma current_keys:
  "make_mek_fernet cr (current_key_only cfg) = [hd (make_mek_fernet cr cfg)]"
  "make_fernet cr (current_key_only cfg) = [hd (make_fernet cr cfg)]"
  by (simp_all add: make_mek_fernet_def make_fernet_def encryption_keys_current hd_map)

lemma rotated_Inr [simp]: "rotated x = Inr t \<longleftrightarrow> x = Some t"
  by (simp add: rotated_def split: option.splits)

lemma rotate_token_says:
  assumes "rotate_token cr cfg t = Some w" "fernet_ok cr (make_fernet cr cfg)"
  shows "decrypt cr (current_key_only cfg) w = decrypt cr cfg t \<and> decrypt cr cfg w = decrypt cr cfg t \<and> decrypt cr cfg t \<noteq> None"
proof -
  obtain m where "decrypt cr cfg t = Some m" "w = multi_seal cr (make_fernet cr cfg) m"
    using assms(1) by (auto simp: rotate_token_def)
  then show ?thesis
    using assms(2) by (simp add: decrypt_def current_keys multi_seal_current multi_open_multi_seal del: multi_open.simps)
qed

lemma rotate_dek_says:
  assumes "rotate_dek cr cfg t = Some w" "fernet_ok cr (make_mek_fernet cr cfg)"
  shows "decrypt_dek cr (current_key_only cfg) w = decrypt_dek cr cfg t \<and> decrypt_dek cr cfg w = decrypt_dek cr cfg t \<and>
    decrypt_dek cr cfg t \<noteq> None"
proof -
  obtain m where "decrypt_dek cr cfg t = Some m" "w = multi_seal cr (make_mek_fernet cr cfg) m"
    using assms(1) by (auto simp: rotate_dek_def)
  then show ?thesis
    using assms(2) by (simp add: decrypt_dek_def current_keys multi_seal_current multi_open_multi_seal del: multi_open.simps)
qed

lemma detail_rotator_says:
  assumes "detail_rotator cr cfg js (detail_key c) v = Inr w" "fernet_ok cr (make_fernet cr cfg)"
    "c \<in> {Reveal_detail, Search_detail}" "details_read_back js cs" "((c, i), v) \<in> set cs"
  shows "says cr (current_key_only cfg) js c w = says cr cfg js c v \<and> says cr cfg js c w = says cr cfg js c v \<and>
    says cr cfg js c v \<noteq> None"
proof -
  obtain kvs t t' where kvs: "js_loads js v = Some (JObj kvs)" "dict_get kvs (detail_key c) = JStr t"
    and t': "rotate_token cr cfg t = Some t'" and w: "w = js_dumps js (JObj (dict_put kvs (detail_key c) (JStr t')))"
    using assms(1) by (auto simp: detail_rotator_def split: option.splits json.splits sum.splits)
  have "reads_back js (JObj (dict_put kvs (detail_key c) (JStr t')))"
    using assms(3-5) kvs(1) unfolding details_read_back_def by fastforce
  then have "js_loads js w = Some (JObj (dict_put kvs (detail_key c) (JStr t')))" by (simp add: w reads_back_def)
  then show ?thesis using rotate_token_says [OF t' assms(2)] kvs assms(3) by (auto simp: says_def)
qed

lemma transform_says:
  assumes "transform cr cfg js c v = Inr w" "fernet_ok cr (make_mek_fernet cr cfg)" "fernet_ok cr (make_fernet cr cfg)"
    "details_read_back js cs" "((c, i), v) \<in> set cs"
  shows "says cr (current_key_only cfg) js c w = says cr cfg js c v \<and> says cr cfg js c w = says cr cfg js c v \<and>
    says cr cfg js c v \<noteq> None"
proof (cases "c \<in> {Reveal_detail, Search_detail}")
  case True
  with assms(1) have "detail_rotator cr cfg js (detail_key c) v = Inr w" by (auto simp: transform_def)
  from detail_rotator_says [OF this assms(3) True assms(4,5)] show ?thesis .
next
  case False
  with assms(1-3) show ?thesis
    using rotate_token_says [of cr cfg v w] rotate_dek_says [of cr cfg v w]
    by (cases c) (simp_all add: transform_def says_def)
qed

section \<open>The two passes\<close>

lemma prepare_Some:
  assumes "prepare cr cfg js cs = Some (ws, fs)"
  shows "set ws = {(c, v, w). (c, v) \<in> set cs \<and> transform cr cfg js (fst c) v = Inr w} \<and>
    fs = map fst (filter (\<lambda>x. transform cr cfg js (fst (fst x)) (snd x) = Inl Invalid_token) cs) \<and>
    (distinct (map fst cs) \<longrightarrow> distinct (map fst ws)) \<and> length ws + length fs = length cs \<and>
    (\<forall>(c, v) \<in> set cs. transform cr cfg js (fst c) v \<noteq> Inl Uncaught)"
  using assms
proof (induction cs arbitrary: ws fs)
  case (Cons x cs)
  obtain c v where x: "x = (c, v)" by fastforce
  show ?case
  proof (cases "transform cr cfg js (fst c) v")
    case (Inl t)
    with Cons.prems x obtain fs' where "t = Invalid_token" "fs = c # fs'" "prepare cr cfg js cs = Some (ws, fs')"
      by (cases t) auto
    with Cons.IH [OF this(3)] Inl x show ?thesis by auto
  next
    case (Inr w)
    with Cons.prems x obtain ws' where "ws = (c, v, w) # ws'" "prepare cr cfg js cs = Some (ws', fs)" by auto
    note ih = Cons.IH [OF this(2)] and ws = this(1)
    have e: "set ws' = {(c, v, w). (c, v) \<in> set cs \<and> transform cr cfg js (fst c) v = Inr w}" using ih by blast
    have "fst ` set ws' \<subseteq> fst ` set cs" unfolding e by force
    then have "distinct (map fst (x # cs)) \<longrightarrow> distinct (map fst ws)" using ih by (auto simp: ws x)
    moreover have "set ws = {(c, v, w). (c, v) \<in> set (x # cs) \<and> transform cr cfg js (fst c) v = Inr w}"
      unfolding ws using ih Inr by (auto simp: x)
    moreover have "fs = map fst (filter (\<lambda>x. transform cr cfg js (fst (fst x)) (snd x) = Inl Invalid_token) (x # cs))"
      using ih Inr by (simp add: x)
    moreover have "length ws' + length fs = length cs" using ih by blast
    then have "length ws + length fs = length (x # cs)" by (simp add: ws)
    moreover have "\<forall>(c, v) \<in> set (x # cs). transform cr cfg js (fst c) v \<noteq> Inl Uncaught" using ih Inr by (simp add: x)
    ultimately show ?thesis by blast
  qed
qed simp

lemma write_all_eq:
  assumes "distinct (map fst ws)"
  shows "fst (write_all ws cs) =
      map (\<lambda>x. case map_of ws (fst x) of
                 Some (old, new) \<Rightarrow> if snd x = old then (fst x, new) else x | None \<Rightarrow> x) cs \<and>
    snd (write_all ws cs) = length (filter (\<lambda>w. (fst w, fst (snd w)) \<notin> set cs) ws)"
  using assms
proof (induction ws arbitrary: cs)
  case (Cons w ws)
  obtain c old new where w: "w = (c, old, new)" using prod_cases3 by blast
  define cs1 where "cs1 = map (\<lambda>x. if x = (c, old) then (c, new) else x) cs"
  have c: "c \<notin> fst ` set ws" using Cons.prems w by simp
  then have none: "map_of ws c = None" by (simp add: map_of_eq_None_iff)
  have "(fst y, fst (snd y)) \<in> set cs1 \<longleftrightarrow> (fst y, fst (snd y)) \<in> set cs" if "y \<in> set ws" for y
    using that c by (force simp: cs1_def image_iff)
  then have same: "filter (\<lambda>y. (fst y, fst (snd y)) \<notin> set cs1) ws = filter (\<lambda>y. (fst y, fst (snd y)) \<notin> set cs) ws"
    by (intro filter_cong) auto
  have g: "guarded_update (c, old, new) cs = (cs1, if (c, old) \<in> set cs then 1 else 0)"
    by (simp add: guarded_update_def cs1_def)
  have step: "write_all (w # ws) cs =
      (fst (write_all ws cs1), 1 - (if (c, old) \<in> set cs then 1 else 0) + snd (write_all ws cs1))"
    using g by (simp add: w split_beta Let_def)
  have ih: "fst (write_all ws cs1) =
      map (\<lambda>x. case map_of ws (fst x) of
                 Some (old, new) \<Rightarrow> if snd x = old then (fst x, new) else x | None \<Rightarrow> x) cs1"
    "snd (write_all ws cs1) = length (filter (\<lambda>y. (fst y, fst (snd y)) \<notin> set cs) ws)"
    using Cons.IH [of cs1] Cons.prems same by simp_all
  have "snd (write_all (w # ws) cs) = length (filter (\<lambda>y. (fst y, fst (snd y)) \<notin> set cs) (w # ws))"
    unfolding step by (simp add: ih(2) w)
  moreover have "fst (write_all (w # ws) cs) =
      map (\<lambda>x. case map_of (w # ws) (fst x) of
                 Some (old, new) \<Rightarrow> if snd x = old then (fst x, new) else x | None \<Rightarrow> x) cs"
    unfolding step fst_conv ih(1) unfolding cs1_def map_map by (rule map_cong [OF refl]) (auto simp: w none)
  ultimately show ?case by blast
qed simp

lemma sources_set: "set (sources cs) = {x \<in> set cs. selected x}"
proof -
  have "fst (fst x) \<in> set COLUMNS" for x :: "cell \<times> string" by (cases "fst (fst x)") (simp_all add: COLUMNS_def)
  then show ?thesis by (auto simp: sources_def)
qed

lemma sources_distinct:
  assumes "distinct (map fst cs)"
  shows "distinct (map fst (sources cs))"
proof -
  have "distinct (map fst (concat (map (\<lambda>c. filter (\<lambda>x. fst (fst x) = c \<and> selected x) cs) ks)))" if "distinct ks" for ks
    using that
  proof (induction ks)
    case (Cons k ks)
    have "distinct (map fst (filter (\<lambda>x. fst (fst x) = k \<and> selected x) cs))"
      using assms by (simp add: distinct_map_filter)
    with Cons show ?case by auto
  qed simp
  moreover have "distinct COLUMNS" by (simp add: COLUMNS_def)
  ultimately show ?thesis by (simp add: sources_def)
qed


text \<open>
  C21. All or nothing. Unless every value opens under one of the keys the script writes nothing and says
  which do not. When it succeeds, every value it read and nobody changed meanwhile says the same under
  the current key alone; every other value is as it was, also one the program wrote in between; and
  when none was skipped, all it read were still there.
\<close>

theorem rotation_all_or_nothing:
  assumes "fernet_ok cr (make_mek_fernet cr cfg)" "fernet_ok cr (make_fernet cr cfg)" "details_read_back js seen"
    "distinct (map fst seen)" "distinct (map fst cs)" "rotate_main cr cfg js seen cs = (x, cs')"
  shows "(exit_code x \<noteq> 0 \<longrightarrow> cs' = cs) \<and>
    (\<forall>fs. x = Unreadable fs \<longrightarrow>
       set fs = {c. \<exists>v. (c, v) \<in> set (sources seen) \<and> transform cr cfg js (fst c) v = Inl Invalid_token}) \<and>
    (\<forall>n k. x = Rotated n k \<longrightarrow>
       (\<forall>(c, v) \<in> set cs. \<exists>v'. (c, v') \<in> set cs' \<and>
          says cr cfg js (fst c) v' = says cr cfg js (fst c) v \<and>
          (if (c, v) \<in> set (sources seen)
           then says cr (current_key_only cfg) js (fst c) v' = says cr cfg js (fst c) v \<and> says cr cfg js (fst c) v \<noteq> None
           else v' = v)) \<and>
       map fst cs' = map fst cs \<and> n + k = length (sources seen) \<and> (k = 0 \<longrightarrow> set (sources seen) \<subseteq> set cs))"
proof (cases x)
  case (Rotated n k)
  obtain ws where prep: "prepare cr cfg js (sources seen) = Some (ws, [])"
    and out: "n = length ws - snd (write_all ws cs)" "k = snd (write_all ws cs)" "cs' = fst (write_all ws cs)"
    using assms(6) Rotated
    by (auto simp: rotate_main_def split_beta Let_def split: if_splits option.splits)
  note p = prepare_Some [OF prep]
  have ws: "set ws = {(c, v, w). (c, v) \<in> set (sources seen) \<and> transform cr cfg js (fst c) v = Inr w}"
    and len: "length ws = length (sources seen)" using p by auto
  have dist: "distinct (map fst ws)" using p sources_distinct [OF assms(4)] by blast
  note w = write_all_eq [OF dist, of cs]
  have all: "\<exists>w. transform cr cfg js (fst c) v = Inr w" if "(c, v) \<in> set (sources seen)" for c v
  proof (cases "transform cr cfg js (fst c) v")
    case (Inl t)
    then show ?thesis using p that by (cases t) (fastforce simp: filter_empty_conv)+
  qed blast
  define g where "g x = (case map_of ws (fst x) of Some (old, new) \<Rightarrow> if snd x = old then (fst x, new) else x | None \<Rightarrow> x)"
    for x :: "cell \<times> string"
  have cs': "cs' = map g cs" using w unfolding out(3) g_def by blast
  have "\<exists>v'. (c, v') \<in> set cs' \<and> says cr cfg js (fst c) v' = says cr cfg js (fst c) v \<and>
      (if (c, v) \<in> set (sources seen)
       then says cr (current_key_only cfg) js (fst c) v' = says cr cfg js (fst c) v \<and> says cr cfg js (fst c) v \<noteq> None
       else v' = v)" if "(c, v) \<in> set cs" for c v
  proof (cases "(c, v) \<in> set (sources seen)")
    case True
    then obtain w where t: "transform cr cfg js (fst c) v = Inr w" using all by blast
    with True have "(c, v, w) \<in> set ws" by (simp add: ws)
    then have "g (c, v) = (c, w)" using dist by (simp add: g_def)
    then have "(c, w) \<in> set cs'" using that unfolding cs' by force
    moreover have "((fst c, snd c), v) \<in> set seen" using True by (simp add: sources_set)
    note transform_says [OF t assms(1-3) this]
    ultimately show ?thesis using True by (intro exI [of _ w]) simp
  next
    case False
    have "g (c, v) = (c, v)"
      using False by (auto simp: g_def ws dest!: map_of_SomeD split: option.splits)
    then have "(c, v) \<in> set cs'" using that unfolding cs' by force
    then show ?thesis using False by auto
  qed
  moreover have "map fst cs' = map fst cs" by (auto simp: cs' g_def split: option.splits)
  moreover have "k \<le> length ws" using w out(2) by simp
  then have "n + k = length (sources seen)" using out len by simp
  moreover have "set (sources seen) \<subseteq> set cs" if "k = 0"
  proof -
    have "\<forall>y \<in> set ws. (fst y, fst (snd y)) \<in> set cs"
      using that w out(2) by (simp add: filter_empty_conv)
    then show ?thesis using all by (force simp: ws)
  qed
  ultimately show ?thesis using Rotated by (simp add: exit_code_def split_paired_Ball_Sigma Ball_def split del: if_split)
next
  case (Unreadable fs)
  then obtain ws where prep: "prepare cr cfg js (sources seen) = Some (ws, fs)" and "cs' = cs"
    using assms(6) by (auto simp: rotate_main_def split_beta Let_def split: if_splits option.splits)
  have "set fs = {c. \<exists>v. (c, v) \<in> set (sources seen) \<and> transform cr cfg js (fst c) v = Inl Invalid_token}"
    using conjunct1 [OF conjunct2 [OF prepare_Some [OF prep]]] by force
  with Unreadable \<open>cs' = cs\<close> show ?thesis by simp
qed (use assms(6) in \<open>simp_all add: rotate_main_def split_beta Let_def split: if_splits option.splits\<close>)


section \<open>An example\<close>

definition two_keys :: settings where
  "two_keys = sample_settings\<lparr>cfg_encryption_key := ''new'', cfg_encryption_key_previous := ''old''\<rparr>"

definition mute :: json_text where "mute = \<lparr>js_dumps = (\<lambda>_. ''x''), js_loads = (\<lambda>_. None)\<rparr>"

definition old_cells :: cells where
  "old_cells = [((Encrypted_dek, 1), cr_seal toy_crypto ''mold'' ''K''), ((Totp_column, 2), cr_seal toy_crypto ''sold'' ''S'')]"

lemma two_key_sets:
  "make_mek_fernet toy_crypto two_keys = [''mnew'', ''mold'']" "make_fernet toy_crypto two_keys = [''snew'', ''sold'']"
  by (simp_all add: make_mek_fernet_def make_fernet_def encryption_keys_def two_keys_def toy_crypto_def)

lemma toy_fernet_ok_fields: "fernet_ok toy_crypto [''snew'', ''sold'']"
proof -
  have "\<not> starts_with (FERNET_PREFIX @ string_of_int 4 @ '':'' @ ''snew'') (FERNET_PREFIX @ string_of_int 4 @ '':'' @ ''sold'' @ m)"
    "\<not> starts_with (FERNET_PREFIX @ string_of_int 4 @ '':'' @ ''sold'') (FERNET_PREFIX @ string_of_int 4 @ '':'' @ ''snew'' @ m)" for m
    by (simp_all add: starts_with_def)
  then show ?thesis by (auto simp: fernet_ok_def toy_crypto_def Let_def starts_with_def)
qed

lemma old_cells_rotated: "fst (rotate_main toy_crypto two_keys mute old_cells old_cells) = Rotated 2 0"
  by code_simp

theorem rotation_all_or_nothing_witness:
  "\<exists>v'. ((Totp_column, 2), v') \<in> set (snd (rotate_main toy_crypto two_keys mute old_cells old_cells)) \<and>
     says toy_crypto (current_key_only two_keys) mute Totp_column v' = Some ''S''"
proof -
  obtain cs' where run: "rotate_main toy_crypto two_keys mute old_cells old_cells = (Rotated 2 0, cs')"
    using old_cells_rotated by (metis prod.collapse)
  have h: "fernet_ok toy_crypto (make_mek_fernet toy_crypto two_keys)" "fernet_ok toy_crypto (make_fernet toy_crypto two_keys)"
    using toy_fernet_ok toy_fernet_ok_fields by (simp_all add: two_key_sets)
  have d: "details_read_back mute old_cells" "distinct (map fst old_cells)"
    by (simp_all add: details_read_back_def mute_def old_cells_def)
  have m: "((Totp_column, 2), cr_seal toy_crypto ''sold'' ''S'') \<in> set old_cells"
    "((Totp_column, 2), cr_seal toy_crypto ''sold'' ''S'') \<in> set (sources old_cells)"
    by (simp_all add: sources_set selected_def old_cells_def)
  have "says toy_crypto two_keys mute Totp_column (cr_seal toy_crypto ''sold'' ''S'') = Some ''S''"
    unfolding says_def decrypt_def two_key_sets using toy_fernet_ok_fields by (simp add: multi_open_seal del: multi_open.simps)
  then show ?thesis
    using rotation_all_or_nothing [OF h d d(2) run] m unfolding run by fastforce
qed

end
