(* ===== verification/Branding.thy ===== *)
theory Branding
  imports Case_Handling Attachment_Store Notifications
begin

text \<open>
  Operator branding (\<open>app/models/branding.py\<close>, \<open>app/services/branding.py\<close>, \<open>app/services/brand_image.py\<close>,
  \<open>app/api/branding.py\<close>): one row per organisation and a default one, the images by the hash of
  their bytes, which brand a page wears, and the admin's save and reset. Pillow and SHA-256 are
  arguments (\<open>drawer\<close>, \<open>sha\<close>), so are the contrast tokens of a colour, which are floating-point.
\<close>

section \<open>Rows\<close>

record brand_row =
  brw_org :: "uuid option"
  brw_name :: "string option"
  brw_color :: "string option"
  brw_logo_light :: "string option"
  brw_logo_dark :: "string option"
  brw_favicon_32 :: "string option"
  brw_favicon_180 :: "string option"
  brw_updated_by :: "uuid option"

record brand_db =
  bdb_rows :: "brand_row list"
  bdb_images :: "(string \<times> string) list"

definition blank_row :: "uuid option \<Rightarrow> brand_row" where
  "blank_row org = \<lparr>brw_org = org, brw_name = None, brw_color = None, brw_logo_light = None, brw_logo_dark = None,
     brw_favicon_32 = None, brw_favicon_180 = None, brw_updated_by = None\<rparr>"

definition find_row :: "brand_db \<Rightarrow> uuid option \<Rightarrow> brand_row option" where
  "find_row b org = find (\<lambda>x. brw_org x = org) (bdb_rows b)"

definition row_for :: "brand_db \<Rightarrow> uuid option \<Rightarrow> brand_row \<times> brand_db" where
  "row_for b org =
     (case find_row b org of
        Some x \<Rightarrow> (x, b)
      | None \<Rightarrow> (blank_row org, b\<lparr>bdb_rows := bdb_rows b @ [blank_row org]\<rparr>))"

definition set_row :: "uuid option \<Rightarrow> (brand_row \<Rightarrow> brand_row) \<Rightarrow> brand_db \<Rightarrow> brand_db" where
  "set_row org f b = b\<lparr>bdb_rows := map (\<lambda>x. if brw_org x = org then f x else x) (bdb_rows b)\<rparr>"

section \<open>Colours\<close>

definition brand_default :: string where "brand_default = ''#0c7253''"

definition parse_colour :: "string \<Rightarrow> string option" where
  "parse_colour value =
     (let colour = lower (strip value)
      in if length colour = 7 \<and> hd colour = CHR 0x23 \<and> list_all lower_hex (tl colour) then Some colour else None)"

section \<open>Which brand a page wears\<close>

record brand =
  bra_name :: string
  bra_color :: string
  bra_logo :: string
  bra_logo_dark :: string
  bra_favicon_32 :: string
  bra_favicon_180 :: string

definition image_url :: "string option \<Rightarrow> string" where
  "image_url sha =
     (case sha of None \<Rightarrow> [] | Some s \<Rightarrow> if s = [] then [] else ''/branding/'' @ s @ ''.png'')"

text \<open>The snapshot: the rows by \<open>str(org_id)\<close>, or \<open>default\<close>.\<close>

type_synonym brand_snapshot = "(string \<times> brand_row) list"

definition snapshot_key :: "uuid option \<Rightarrow> string" where
  "snapshot_key org = (case org of None \<Rightarrow> ''default'' | Some i \<Rightarrow> uuid_text i)"

definition fields_of :: "brand_row \<Rightarrow> brand_row" where
  "fields_of x = x\<lparr>brw_org := None, brw_updated_by := None\<rparr>"

definition load_snapshot :: "brand_row list \<Rightarrow> brand_snapshot" where
  "load_snapshot rows = map (\<lambda>x. (snapshot_key (brw_org x), fields_of x)) rows"

fun first_text :: "string option list \<Rightarrow> string \<Rightarrow> string" where
  "first_text [] d = d"
| "first_text (x # xs) d = (case x of Some t \<Rightarrow> if t = [] then first_text xs d else t | None \<Rightarrow> first_text xs d)"

definition has_text :: "string option \<Rightarrow> bool" where
  "has_text x \<longleftrightarrow> (case x of None \<Rightarrow> False | Some t \<Rightarrow> t \<noteq> [])"

definition resolve :: "settings \<Rightarrow> brand_snapshot \<Rightarrow> uuid option \<Rightarrow> brand" where
  "resolve cfg snap org =
     (let row_at = (\<lambda>k. case map_of snap k of None \<Rightarrow> blank_row None | Some x \<Rightarrow> x);
          own = (case org of None \<Rightarrow> blank_row None | Some i \<Rightarrow> row_at (snapshot_key (Some i)));
          base = row_at ''default'';
          images = (if has_text (brw_logo_light own) \<or> has_text (brw_logo_dark own) then own else base);
          colour = (case parse_colour (first_text [brw_color own, brw_color base] (cfg_brand_primary_color cfg)) of
                      Some c \<Rightarrow> c | None \<Rightarrow> brand_default);
          logo = image_url (brw_logo_light images)
      in \<lparr>bra_name = first_text [brw_name own, brw_name base] (cfg_app_name cfg), bra_color = colour,
          bra_logo = (if logo = [] then cfg_brand_logo_url cfg else logo),
          bra_logo_dark = image_url (brw_logo_dark images),
          bra_favicon_32 = image_url (brw_favicon_32 images), bra_favicon_180 = image_url (brw_favicon_180 images)\<rparr>)"

section \<open>Images\<close>

definition MAX_BYTES :: nat where "MAX_BYTES = 1000000"
definition MAX_PIXELS :: int where "MAX_PIXELS = 16000000"

text \<open>
  Pillow: what opening a file as PNG, JPEG or WebP says, the decoded picture, and the PNG files drawn
  from one. Opening reads the header only.
\<close>

datatype opened = Opened int int | Bomb | Broken

record 'p drawer =
  pl_open :: "string \<Rightarrow> opened"
  pl_decode :: "string \<Rightarrow> 'p option"
  pl_logo :: "'p \<Rightarrow> string"
  pl_favicon :: "int \<Rightarrow> 'p \<Rightarrow> string"

definition decode_image :: "'p drawer \<Rightarrow> string \<Rightarrow> string + 'p" where
  "decode_image pl data =
     (if MAX_BYTES < length data then Inl ''admin.branding.error.too_large''
      else (case pl_open pl data of
              Bomb \<Rightarrow> Inl ''admin.branding.error.dimensions''
            | Broken \<Rightarrow> Inl ''admin.branding.error.format''
            | Opened w h \<Rightarrow>
                (if MAX_PIXELS < w * h then Inl ''admin.branding.error.dimensions''
                 else (case pl_decode pl data of
                         None \<Rightarrow> Inl ''admin.branding.error.format'' | Some pic \<Rightarrow> Inr pic))))"

definition light_images :: "'p drawer \<Rightarrow> string \<Rightarrow> string + string \<times> string \<times> string" where
  "light_images pl data =
     on_ok (decode_image pl data) (\<lambda>pic. Inr (pl_logo pl pic, pl_favicon pl 32 pic, pl_favicon pl 180 pic))"

definition dark_image :: "'p drawer \<Rightarrow> string \<Rightarrow> string + string" where
  "dark_image pl data = on_ok (decode_image pl data) (\<lambda>pic. Inr (pl_logo pl pic))"

definition store_image :: "(string \<Rightarrow> string) \<Rightarrow> string \<Rightarrow> brand_db \<Rightarrow> string \<times> brand_db" where
  "store_image sha png b =
     (sha png, if map_of (bdb_images b) (sha png) = None then b\<lparr>bdb_images := bdb_images b @ [(sha png, png)]\<rparr> else b)"

definition image_refs :: "brand_row \<Rightarrow> string list" where
  "image_refs x = List.map_filter id [brw_logo_light x, brw_logo_dark x, brw_favicon_32 x, brw_favicon_180 x]"

definition drop_orphan_images :: "brand_db \<Rightarrow> brand_db" where
  "drop_orphan_images b =
     b\<lparr>bdb_images := filter (\<lambda>(sha, _). sha \<in> set (concat (map image_refs (bdb_rows b)))) (bdb_images b)\<rparr>"

definition serve_brand_image :: "brand_db \<Rightarrow> string \<Rightarrow> refusal + string" where
  "serve_brand_image b sha =
     (if length sha = 64 \<and> list_all lower_hex sha
      then (case map_of (bdb_images b) sha of None \<Rightarrow> Inl (Status 404) | Some png \<Rightarrow> Inr png)
      else Inl (Status 404))"


section \<open>The admin's page\<close>

definition CACHE_KEY :: string where "CACHE_KEY = ''branding:snapshot''"
definition VERSION_KEY :: string where "VERSION_KEY = ''branding:version''"

definition invalidate :: "int \<Rightarrow> redis \<Rightarrow> redis" where
  "invalidate now r = kv_del (snd (kv_add now r VERSION_KEY 1)) CACHE_KEY"

definition brand_target :: "settings \<Rightarrow> db \<Rightarrow> user \<Rightarrow> string \<Rightarrow> refusal + uuid option" where
  "brand_target cfg d u org =
     (if may_run_the_instance cfg u then
        (if org = [] then Inr None
         else if \<not> cfg_multi_tenancy cfg then Inl (Status 404)
         else (case parse_uuid org of
                 None \<Rightarrow> Inl (Status 404)
               | Some i \<Rightarrow> if row org_id i (db_orgs d) = None then Inl (Status 404) else Inr (Some i)))
      else (case usr_org u of
              Some i \<Rightarrow> if cfg_multi_tenancy cfg \<and> (org = [] \<or> org = uuid_text i) then Inr (Some i) else Inl (Status 403)
            | None \<Rightarrow> Inl (Status 403)))"

text \<open>An upload is a file name and the bytes sent; one byte more than allowed is read at most.\<close>

type_synonym upload = "(string \<times> string) option"

definition read_upload :: "upload \<Rightarrow> string option" where
  "read_upload up =
     (case up of
        None \<Rightarrow> None
      | Some (filename, data) \<Rightarrow>
          (if filename = [] \<or> data = [] then None else Some (take (MAX_BYTES + 1) data)))"

definition checked :: "(string \<Rightarrow> string + 'a) \<Rightarrow> upload \<Rightarrow> string + 'a option" where
  "checked f up =
     (case read_upload up of None \<Rightarrow> Inr None | Some data \<Rightarrow> on_ok (f data) (\<lambda>x. Inr (Some x)))"

record brand_form =
  bf_name :: string
  bf_color :: string
  bf_org :: string
  bf_remove_light :: string
  bf_remove_dark :: string
  bf_logo_light :: upload
  bf_logo_dark :: upload

datatype brand_answer = Brand_page string nat | Back_to "uuid option"

text \<open>What the form asks for: the name, the colour and the images, or the key of its first error.\<close>

definition checked_form ::
  "'p drawer \<Rightarrow> brand_form \<Rightarrow> string + string \<times> string option \<times> (string \<times> string \<times> string) option \<times> string option" where
  "checked_form pl f =
     (let name = strip (bf_name f) in
      if 64 < length name then Inl ''admin.branding.error.name''
      else on_ok (if strip (bf_color f) = [] then Inr None
                  else (case parse_colour (bf_color f) of
                          None \<Rightarrow> Inl ''admin.branding.error.colour'' | Some c \<Rightarrow> Inr (Some c))) (\<lambda>colour.
           on_ok (checked (light_images pl) (bf_logo_light f)) (\<lambda>light.
           on_ok (checked (dark_image pl) (bf_logo_dark f)) (\<lambda>dark. Inr (name, colour, light, dark)))))"

text \<open>The changes to the row, each with the names of the fields it changed.\<close>

definition save_texts :: "string \<Rightarrow> string option \<Rightarrow> uuid option \<Rightarrow> brand_row \<Rightarrow> brand_db \<Rightarrow> string list \<times> brand_db" where
  "save_texts name colour org x b =
     (let value = (if name = [] then None else Some name)
      in ((if brw_name x \<noteq> value then [''name''] else []) @ (if brw_color x \<noteq> colour then [''primary_color''] else []),
          set_row org (\<lambda>y. y\<lparr>brw_name := value, brw_color := colour\<rparr>) b))"

definition save_light ::
  "(string \<Rightarrow> string) \<Rightarrow> (string \<times> string \<times> string) option \<Rightarrow> string \<Rightarrow> uuid option \<Rightarrow> brand_row \<Rightarrow> brand_db \<Rightarrow> string list \<times> brand_db" where
  "save_light sha light remove org x b =
     (case light of
        Some (logo, f32, f180) \<Rightarrow>
          (let (h, b1) = store_image sha logo b; (h32, b2) = store_image sha f32 b1; (h180, b3) = store_image sha f180 b2
           in ([''logo_light''],
               set_row org (\<lambda>y. y\<lparr>brw_logo_light := Some h, brw_favicon_32 := Some h32, brw_favicon_180 := Some h180\<rparr>) b3))
      | None \<Rightarrow>
          (if remove = ''1'' \<and> has_text (brw_logo_light x)
           then ([''logo_light''],
                 set_row org (\<lambda>y. y\<lparr>brw_logo_light := None, brw_favicon_32 := None, brw_favicon_180 := None\<rparr>) b)
           else ([], b)))"

definition save_dark ::
  "(string \<Rightarrow> string) \<Rightarrow> string option \<Rightarrow> string \<Rightarrow> uuid option \<Rightarrow> brand_row \<Rightarrow> brand_db \<Rightarrow> string list \<times> brand_db" where
  "save_dark sha dark remove org x b =
     (case dark of
        Some logo \<Rightarrow>
          (let (h, b1) = store_image sha logo b
           in ([''logo_dark''], set_row org (\<lambda>y. y\<lparr>brw_logo_dark := Some h\<rparr>) b1))
      | None \<Rightarrow>
          (if remove = ''1'' \<and> has_text (brw_logo_dark x)
           then ([''logo_dark''], set_row org (\<lambda>y. y\<lparr>brw_logo_dark := None\<rparr>) b)
           else ([], b)))"

text \<open>The end of both routes; a list in a detail is kept as its members joined by commas.\<close>

definition saved_by ::
  "env \<Rightarrow> user \<Rightarrow> string \<Rightarrow> string list \<Rightarrow> uuid option \<Rightarrow> db \<times> brand_db \<Rightarrow> db \<times> brand_db" where
  "saved_by e u action changed org = (\<lambda>(d, b).
     (audit_log e 1 u action None [(''fields'', join_with '','' changed)] (Some org) d,
      drop_orphan_images (set_row org (\<lambda>y. y\<lparr>brw_updated_by := Some (usr_id u)\<rparr>) b)))"

definition branding_post ::
  "env \<Rightarrow> 'p drawer \<Rightarrow> (string \<Rightarrow> string) \<Rightarrow> user \<Rightarrow> brand_form \<Rightarrow> redis \<times> db \<times> brand_db \<Rightarrow>
   refusal + brand_answer \<times> redis \<times> db \<times> brand_db" where
  "branding_post e pl sha u f = (\<lambda>(r, d, b).
     on_ok (require_admin u) (\<lambda>u.
     on_ok (brand_target (env_cfg e) d u (bf_org f)) (\<lambda>org.
       if cfg_demo_mode (env_cfg e) then Inr (Brand_page ''admin.branding.error.demo'' 403, r, d, b)
       else (case checked_form pl f of
               Inl key \<Rightarrow> Inr (Brand_page key 422, r, d, b)
             | Inr (name, colour, light, dark) \<Rightarrow>
                 (let (x, b0) = row_for b org;
                      (c1, b1) = save_texts name colour org x b0;
                      (c2, b2) = save_light sha light (bf_remove_light f) org x b1;
                      (c3, b3) = save_dark sha dark (bf_remove_dark f) org x b2;
                      changed = c1 @ c2 @ c3;
                      (d4, b4) = (if changed \<noteq> [] then saved_by e u ''branding.updated'' changed org (d, b3) else (d, b3))
                  in Inr (Back_to org, invalidate (millis e) r, d4, b4))))))"

definition RESETTABLE :: "string list" where
  "RESETTABLE = [''name'', ''primary_color'', ''logo_light'', ''logo_dark'']"

definition reset_field :: "string \<Rightarrow> brand_row \<Rightarrow> brand_row" where
  "reset_field name y =
     (if name = ''name'' then y\<lparr>brw_name := None\<rparr>
      else if name = ''primary_color'' then y\<lparr>brw_color := None\<rparr>
      else if name = ''logo_light'' then y\<lparr>brw_logo_light := None, brw_favicon_32 := None, brw_favicon_180 := None\<rparr>
      else if name = ''logo_dark'' then y\<lparr>brw_logo_dark := None\<rparr> else y)"

definition branding_reset ::
  "env \<Rightarrow> user \<Rightarrow> string \<Rightarrow> string \<Rightarrow> redis \<times> db \<times> brand_db \<Rightarrow> refusal + brand_answer \<times> redis \<times> db \<times> brand_db" where
  "branding_reset e u field org_text = (\<lambda>(r, d, b).
     on_ok (require_admin u) (\<lambda>u.
     on_ok (brand_target (env_cfg e) d u org_text) (\<lambda>org.
       if cfg_demo_mode (env_cfg e) then Inr (Brand_page ''admin.branding.error.demo'' 403, r, d, b)
       else (let names = (if field = ''all'' then RESETTABLE else [field]) in
             if \<not> set names \<subseteq> set RESETTABLE then Inl (Status 422)
             else (let (_, b0) = row_for b org;
                       b1 = set_row org (fold reset_field names) b0;
                       (d2, b2) = saved_by e u ''branding.reset'' names org (d, b1)
                   in Inr (Back_to org, invalidate (millis e) r, d2, b2))))))"
section \<open>Rows and images stay whole\<close>

inductive brand_step :: "'p drawer \<Rightarrow> (string \<Rightarrow> string) \<Rightarrow> brand_db \<Rightarrow> brand_db \<Rightarrow> bool" for pl sha where
  saving: "branding_post e pl sha u f (r, d, b) = Inr (a, r', d', b') \<Longrightarrow> brand_step pl sha b b'"
| resetting: "branding_reset e u field org (r, d, b) = Inr (a, r', d', b') \<Longrightarrow> brand_step pl sha b b'"

definition no_brands :: brand_db where "no_brands = \<lparr>bdb_rows = [], bdb_images = []\<rparr>"

definition drawn :: "'p drawer \<Rightarrow> string \<Rightarrow> bool" where
  "drawn pl png \<longleftrightarrow> (\<exists>pic. png = pl_logo pl pic \<or> png = pl_favicon pl 32 pic \<or> png = pl_favicon pl 180 pic)"

definition refs :: "brand_db \<Rightarrow> string set" where "refs b = \<Union> (set ` image_refs ` set (bdb_rows b))"

definition images_sound :: "'p drawer \<Rightarrow> (string \<Rightarrow> string) \<Rightarrow> brand_db \<Rightarrow> bool" where
  "images_sound pl sha b \<longleftrightarrow>
     distinct (map brw_org (bdb_rows b)) \<and> distinct (map fst (bdb_images b)) \<and>
     (\<forall>(k, png) \<in> set (bdb_images b). k = sha png \<and> drawn pl png) \<and> refs b \<subseteq> fst ` set (bdb_images b)"

definition brands_whole :: "'p drawer \<Rightarrow> (string \<Rightarrow> string) \<Rightarrow> brand_db \<Rightarrow> bool" where
  "brands_whole pl sha b \<longleftrightarrow> images_sound pl sha b \<and> fst ` set (bdb_images b) \<subseteq> refs b"

lemma image_refs_set: "set (image_refs x) = {k. Some k \<in> {brw_logo_light x, brw_logo_dark x, brw_favicon_32 x, brw_favicon_180 x}}"
  by (auto simp: image_refs_def List.map_filter_def split: option.splits)

lemma set_row_keeps:
  assumes "\<And>x. brw_org (f x) = brw_org x"
  shows "map brw_org (bdb_rows (set_row org f b)) = map brw_org (bdb_rows b)" "bdb_images (set_row org f b) = bdb_images b"
  using assms by (simp_all add: set_row_def)

lemma set_row_sound:
  assumes "images_sound pl sha b" "\<And>x. brw_org (f x) = brw_org x"
    "\<And>x. set (image_refs (f x)) \<subseteq> set (image_refs x) \<union> fst ` set (bdb_images b)"
  shows "images_sound pl sha (set_row org f b)"
proof -
  have "refs (set_row org f b) \<subseteq> refs b \<union> fst ` set (bdb_images b)"
    using assms(3) by (fastforce simp: refs_def set_row_def)
  then show ?thesis using assms(1) set_row_keeps [of f org b] assms(2) by (auto simp: images_sound_def)
qed

lemma store_image_sound:
  assumes "images_sound pl sha b" "drawn pl png" "store_image sha png b = (h, b')"
  shows "images_sound pl sha b' \<and> h \<in> fst ` set (bdb_images b') \<and> fst ` set (bdb_images b) \<subseteq> fst ` set (bdb_images b') \<and>
    bdb_rows b' = bdb_rows b"
  using assms
  by (auto simp: store_image_def images_sound_def refs_def map_of_eq_None_iff split: if_splits)
     (force simp: map_of_eq_None_iff)+

lemma image_refs_blank [simp]: "image_refs (blank_row org) = []"
  by (simp add: image_refs_def blank_row_def List.map_filter_def)

lemma row_for_sound:
  assumes "images_sound pl sha b" "row_for b org = (x, b')"
  shows "images_sound pl sha b' \<and> refs b' = refs b \<and> bdb_images b' = bdb_images b"
proof (cases "find_row b org")
  case None
  then have b': "b' = b\<lparr>bdb_rows := bdb_rows b @ [blank_row org]\<rparr>" using assms(2) by (auto simp: row_for_def)
  have "org \<notin> brw_org ` set (bdb_rows b)" using None by (auto simp: find_row_def find_None_iff)
  then have "distinct (map brw_org (bdb_rows b'))"
    using assms(1) by (simp add: images_sound_def b') (simp add: blank_row_def)
  moreover have "refs b' = refs b" by (simp add: refs_def b')
  ultimately show ?thesis using assms(1) by (simp add: images_sound_def b')
qed (use assms in \<open>simp add: row_for_def\<close>)

lemma drop_orphans_whole:
  assumes "images_sound pl sha b"
  shows "brands_whole pl sha (drop_orphan_images b)"
proof -
  let ?b = "drop_orphan_images b"
  have used: "set (concat (map image_refs (bdb_rows b))) = refs b" by (auto simp: refs_def)
  have im: "set (bdb_images ?b) = {x \<in> set (bdb_images b). fst x \<in> refs b}"
    unfolding drop_orphan_images_def used by auto
  have "refs ?b = refs b" by (simp add: refs_def drop_orphan_images_def)
  moreover have "fst ` set (bdb_images ?b) = fst ` set (bdb_images b) \<inter> refs b" unfolding im by auto
  then have "fst ` set (bdb_images ?b) = refs b" using assms by (auto simp: images_sound_def)
  moreover have "distinct (map fst (bdb_images ?b))" using assms
    by (simp add: images_sound_def drop_orphan_images_def distinct_map_filter)
  moreover have "bdb_rows ?b = bdb_rows b" by (simp add: drop_orphan_images_def)
  moreover have "\<forall>(k, png) \<in> set (bdb_images ?b). k = sha png \<and> drawn pl png"
    using assms im by (simp add: images_sound_def case_prod_beta)
  ultimately show ?thesis using assms by (simp add: brands_whole_def images_sound_def)
qed
lemma checked_form_drawn:
  assumes "checked_form pl f = Inr (name, colour, light, dark)"
  shows "(\<forall>l s a. light = Some (l, s, a) \<longrightarrow> drawn pl l \<and> drawn pl s \<and> drawn pl a) \<and> (\<forall>l. dark = Some l \<longrightarrow> drawn pl l)"
proof -
  have light: "drawn pl l \<and> drawn pl s \<and> drawn pl a" if "checked (light_images pl) up = Inr (Some (l, s, a))" for up l s a
    using that by (auto simp: checked_def light_images_def on_ok_Inr drawn_def split: option.splits)
  have dark: "drawn pl l" if "checked (dark_image pl) up = Inr (Some l)" for up l
    using that by (auto simp: checked_def dark_image_def on_ok_Inr drawn_def split: option.splits)
  show ?thesis
    using assms light dark by (auto simp: checked_form_def on_ok_Inr Let_def split: if_splits)
qed

lemma save_texts_sound:
  assumes "images_sound pl sha b" "save_texts name colour org x b = (c, b')"
  shows "images_sound pl sha b' \<and> refs b' = refs b \<and> bdb_images b' = bdb_images b"
proof -
  have b': "b' = set_row org (\<lambda>y. y\<lparr>brw_name := if name = [] then None else Some name, brw_color := colour\<rparr>) b"
    using assms(2) by (simp add: save_texts_def Let_def)
  have "images_sound pl sha b'" unfolding b' by (rule set_row_sound [OF assms(1)]) (simp_all add: image_refs_set)
  moreover have "refs b' = refs b" by (auto simp: b' refs_def set_row_def image_refs_set split: if_splits)
  ultimately show ?thesis by (simp add: b' set_row_def)
qed

lemma save_light_sound:
  assumes "images_sound pl sha b" "save_light sha light remove org x b = (c, b')"
    "\<forall>l s a. light = Some (l, s, a) \<longrightarrow> drawn pl l \<and> drawn pl s \<and> drawn pl a"
  shows "images_sound pl sha b' \<and> (c = [] \<longrightarrow> b' = b)"
proof (cases light)
  case None
  have "images_sound pl sha (set_row org (\<lambda>y. y\<lparr>brw_logo_light := None, brw_favicon_32 := None, brw_favicon_180 := None\<rparr>) b)"
    by (rule set_row_sound [OF assms(1)]) (auto simp: image_refs_set)
  with None assms show ?thesis by (auto simp: save_light_def split: if_splits)
next
  case (Some y)
  obtain l s a where y: "y = (l, s, a)" using prod_cases3 by blast
  obtain h b1 where 1: "store_image sha l b = (h, b1)" by fastforce
  obtain h32 b2 where 2: "store_image sha s b1 = (h32, b2)" by fastforce
  obtain h180 b3 where 3: "store_image sha a b2 = (h180, b3)" by fastforce
  have d: "drawn pl l" "drawn pl s" "drawn pl a" using assms(3) Some y by auto
  note s1 = store_image_sound [OF assms(1) d(1) 1]
  note s2 = store_image_sound [OF conjunct1 [OF s1] d(2) 2]
  note s3 = store_image_sound [OF conjunct1 [OF s2] d(3) 3]
  have k: "h \<in> fst ` set (bdb_images b3)" "h32 \<in> fst ` set (bdb_images b3)" "h180 \<in> fst ` set (bdb_images b3)"
    using s1 s2 s3 by blast+
  have "images_sound pl sha (set_row org (\<lambda>y. y\<lparr>brw_logo_light := Some h, brw_favicon_32 := Some h32, brw_favicon_180 := Some h180\<rparr>) b3)"
    using k by (intro set_row_sound [OF conjunct1 [OF s3]]) (auto simp: image_refs_set)
  moreover have "c = [''logo_light'']" "b' = set_row org (\<lambda>y. y\<lparr>brw_logo_light := Some h, brw_favicon_32 := Some h32, brw_favicon_180 := Some h180\<rparr>) b3"
    using assms(2) by (auto simp: save_light_def Some y 1 2 3)
  ultimately show ?thesis by simp
qed

lemma save_dark_sound:
  assumes "images_sound pl sha b" "save_dark sha dark remove org x b = (c, b')" "\<forall>l. dark = Some l \<longrightarrow> drawn pl l"
  shows "images_sound pl sha b' \<and> (c = [] \<longrightarrow> b' = b)"
proof (cases dark)
  case None
  have "images_sound pl sha (set_row org (\<lambda>y. y\<lparr>brw_logo_dark := None\<rparr>) b)"
    by (rule set_row_sound [OF assms(1)]) (auto simp: image_refs_set)
  with None assms show ?thesis by (auto simp: save_dark_def split: if_splits)
next
  case (Some l)
  obtain h b1 where 1: "store_image sha l b = (h, b1)" by fastforce
  note s1 = store_image_sound [OF assms(1) _ 1]
  have d: "drawn pl l" using assms(3) Some by simp
  have "images_sound pl sha (set_row org (\<lambda>y. y\<lparr>brw_logo_dark := Some h\<rparr>) b1)"
    using s1 [OF d] by (intro set_row_sound) (auto simp: image_refs_set)
  moreover have "c = [''logo_dark'']" "b' = set_row org (\<lambda>y. y\<lparr>brw_logo_dark := Some h\<rparr>) b1"
    using assms(2) by (auto simp: save_dark_def Some 1)
  ultimately show ?thesis by simp
qed

lemma saved_by_whole:
  assumes "images_sound pl sha b" "saved_by e u action changed org (d, b) = (d', b')"
  shows "brands_whole pl sha b'"
proof -
  have "images_sound pl sha (set_row org (\<lambda>y. y\<lparr>brw_updated_by := Some (usr_id u)\<rparr>) b)"
    by (rule set_row_sound [OF assms(1)]) (simp_all add: image_refs_set)
  then show ?thesis using assms(2) drop_orphans_whole by (auto simp: saved_by_def)
qed
lemma branding_post_cases:
  assumes "branding_post e pl sha u f (r, d, b) = Inr (a, r', d', b')"
  obtains (page) "b' = b" "d' = d" "r' = r" "\<And>org. a \<noteq> Back_to org"
  | (saved) org name colour light dark x b0 c1 b1 c2 b2 c3 b3 where
      "usr_role u \<in> {Admin, Superadmin}" "brand_target (env_cfg e) d u (bf_org f) = Inr org"
      "checked_form pl f = Inr (name, colour, light, dark)" "row_for b org = (x, b0)"
      "save_texts name colour org x b0 = (c1, b1)" "save_light sha light (bf_remove_light f) org x b1 = (c2, b2)"
      "save_dark sha dark (bf_remove_dark f) org x b2 = (c3, b3)" "a = Back_to org" "r' = invalidate (millis e) r"
      "(d', b') = (if c1 @ c2 @ c3 \<noteq> [] then saved_by e u ''branding.updated'' (c1 @ c2 @ c3) org (d, b3) else (d, b3))"
proof -
  obtain org where g: "usr_role u \<in> {Admin, Superadmin}" "brand_target (env_cfg e) d u (bf_org f) = Inr org"
    and k: "(if cfg_demo_mode (env_cfg e) then Inr (Brand_page ''admin.branding.error.demo'' 403, r, d, b)
       else (case checked_form pl f of
               Inl key \<Rightarrow> Inr (Brand_page key 422, r, d, b)
             | Inr (name, colour, light, dark) \<Rightarrow>
                 (let (x, b0) = row_for b org;
                      (c1, b1) = save_texts name colour org x b0;
                      (c2, b2) = save_light sha light (bf_remove_light f) org x b1;
                      (c3, b3) = save_dark sha dark (bf_remove_dark f) org x b2;
                      changed = c1 @ c2 @ c3;
                      (d4, b4) = (if changed \<noteq> [] then saved_by e u ''branding.updated'' changed org (d, b3) else (d, b3))
                  in Inr (Back_to org, invalidate (millis e) r, d4, b4))) :: refusal + _) = Inr (a, r', d', b')"
    using assms by (auto simp: branding_post_def on_ok_Inr require_admin_Inr)
  show thesis
  proof (cases "cfg_demo_mode (env_cfg e) \<or> (\<exists>key. checked_form pl f = Inl key)")
    case True
    then show thesis using k page by (auto split: if_splits)
  next
    case False
    then obtain name colour light dark where c: "checked_form pl f = Inr (name, colour, light, dark)"
      and "\<not> cfg_demo_mode (env_cfg e)" by (metis prod_cases4 sum.exhaust)
    obtain x b0 where 0: "row_for b org = (x, b0)" by fastforce
    obtain c1 b1 where 1: "save_texts name colour org x b0 = (c1, b1)" by fastforce
    obtain c2 b2 where 2: "save_light sha light (bf_remove_light f) org x b1 = (c2, b2)" by fastforce
    obtain c3 b3 where 3: "save_dark sha dark (bf_remove_dark f) org x b2 = (c3, b3)" by fastforce
    obtain d4 b4 where 4: "(if c1 @ c2 @ c3 \<noteq> [] then saved_by e u ''branding.updated'' (c1 @ c2 @ c3) org (d, b3) else (d, b3)) = (d4, b4)"
      by fastforce
    have "a = Back_to org" "r' = invalidate (millis e) r" "(d', b') = (d4, b4)"
      using k \<open>\<not> cfg_demo_mode (env_cfg e)\<close> by (simp_all only: c 0 1 2 3 4 Let_def prod.case sum.case if_False sum.inject prod.inject)
    then show thesis by (intro saved [OF g c 0 1 2 3]) (simp_all only: 4)
  qed
qed

lemma brands_whole_post:
  assumes "brands_whole pl sha b" "branding_post e pl sha u f (r, d, b) = Inr (a, r', d', b')"
  shows "brands_whole pl sha b'"
  using assms(2)
proof (cases rule: branding_post_cases)
  case (saved org name colour light dark x b0 c1 b1 c2 b2 c3 b3)
  have "images_sound pl sha b" using assms(1) by (simp add: brands_whole_def)
  note s0 = row_for_sound [OF this saved(4)]
  note s1 = save_texts_sound [OF conjunct1 [OF s0] saved(5)]
  note dr = checked_form_drawn [OF saved(3)]
  note s2 = save_light_sound [OF conjunct1 [OF s1] saved(6) conjunct1 [OF dr]]
  note s3 = save_dark_sound [OF conjunct1 [OF s2] saved(7) conjunct2 [OF dr]]
  show ?thesis
  proof (cases "c1 @ c2 @ c3 = []")
    case True
    then have "b' = b1" using saved(10) s2 s3 by simp
    then show ?thesis using assms(1) s0 s1 by (simp add: brands_whole_def)
  next
    case False
    then show ?thesis using saved(10) saved_by_whole [OF conjunct1 [OF s3]] by metis
  qed
qed (use assms in simp)

lemma reset_fields_refs: "set (image_refs (fold reset_field names y)) \<subseteq> set (image_refs y) \<and> brw_org (fold reset_field names y) = brw_org y"
proof (induction names arbitrary: y)
  case (Cons n names)
  have "set (image_refs (reset_field n y)) \<subseteq> set (image_refs y)" "brw_org (reset_field n y) = brw_org y"
    by (auto simp: reset_field_def image_refs_set)
  with Cons [of "reset_field n y"] show ?case by auto
qed simp

lemma branding_reset_cases:
  assumes "branding_reset e u field org_text (r, d, b) = Inr (a, r', d', b')"
  obtains (page) "b' = b" "d' = d" "r' = r" "\<And>org. a \<noteq> Back_to org"
  | (reset) org names x b0 where "usr_role u \<in> {Admin, Superadmin}" "brand_target (env_cfg e) d u org_text = Inr org"
      "row_for b org = (x, b0)" "saved_by e u ''branding.reset'' names org (d, set_row org (fold reset_field names) b0) = (d', b')"
      "a = Back_to org" "r' = invalidate (millis e) r"
proof -
  define names where "names = (if field = ''all'' then RESETTABLE else [field])"
  obtain org where g: "usr_role u \<in> {Admin, Superadmin}" "brand_target (env_cfg e) d u org_text = Inr org"
    and k: "(if cfg_demo_mode (env_cfg e) then Inr (Brand_page ''admin.branding.error.demo'' 403, r, d, b)
       else if \<not> set names \<subseteq> set RESETTABLE then Inl (Status 422)
       else (let (_, b0) = row_for b org;
                 b1 = set_row org (fold reset_field names) b0;
                 (d2, b2) = saved_by e u ''branding.reset'' names org (d, b1)
             in Inr (Back_to org, invalidate (millis e) r, d2, b2))) = Inr (a, r', d', b')"
    using assms unfolding names_def Let_def
    by (auto simp: branding_reset_def on_ok_Inr require_admin_Inr Let_def split del: if_split cong: if_cong)
  obtain x b0 where 0: "row_for b org = (x, b0)" by fastforce
  obtain d2 b2 where 1: "saved_by e u ''branding.reset'' names org (d, set_row org (fold reset_field names) b0) = (d2, b2)"
    by fastforce
  show thesis
  proof (cases "cfg_demo_mode (env_cfg e)")
    case True
    then show thesis using k by (intro page) auto
  next
    case False
    then show thesis using k reset [OF g 0, of names] by (simp add: 0 1 if_Inl_Inr)
  qed
qed

lemma brands_whole_reset:
  assumes "brands_whole pl sha b" "branding_reset e u field org_text (r, d, b) = Inr (a, r', d', b')"
  shows "brands_whole pl sha b'"
  using assms(2)
proof (cases rule: branding_reset_cases)
  case (reset org names x b0)
  have "images_sound pl sha b" using assms(1) by (simp add: brands_whole_def)
  note s0 = row_for_sound [OF this reset(3)]
  have "images_sound pl sha (set_row org (fold reset_field names) b0)"
    using reset_fields_refs by (intro set_row_sound [OF conjunct1 [OF s0]]) blast+
  then show ?thesis by (rule saved_by_whole [OF _ reset(4)])
qed (use assms in simp)

interpretation brands: invariant_system "\<lambda>b. b = no_brands" "brand_step pl sha" "brands_whole pl sha" for pl sha
proof
  show "brands_whole pl sha b" if "b = no_brands" for b
    using that by (simp add: brands_whole_def images_sound_def no_brands_def refs_def)
  show "brands_whole pl sha b'" if "brands_whole pl sha b" "brand_step pl sha b b'" for b b'
    using that(2,1) by (cases rule: brand_step.cases) (blast intro: brands_whole_post brands_whole_reset)+
qed
text \<open>
  Whatever is saved and reset, in whatever order, an organisation has at most one brand and the
  default is one; every image a brand refers to is stored, every image stored is one a brand refers to,
  lies under the hash of its own bytes and was drawn by Pillow, never the bytes somebody sent.
\<close>

theorem brand_images_whole:
  assumes "reachable (\<lambda>b. b = no_brands) (brand_step pl sha) b"
  shows "distinct (map brw_org (bdb_rows b)) \<and> fst ` set (bdb_images b) = \<Union> (set ` image_refs ` set (bdb_rows b)) \<and>
    (\<forall>(k, png) \<in> set (bdb_images b). k = sha png \<and>
       (\<exists>pic. png = pl_logo pl pic \<or> png = pl_favicon pl 32 pic \<or> png = pl_favicon pl 180 pic))"
  using brands.inv_reachable [OF assms] by (auto simp: brands_whole_def images_sound_def refs_def drawn_def)

section \<open>Whose brand is saved\<close>

lemma find_map_other:
  "(\<And>x. brw_org (f x) = brw_org x) \<Longrightarrow> i \<noteq> org \<Longrightarrow>
   find (\<lambda>x. brw_org x = i) (map (\<lambda>x. if brw_org x = org then f x else x) xs) = find (\<lambda>x. brw_org x = i) xs"
  by (induction xs) auto

lemma find_row_set [simp]:
  "(\<And>x. brw_org (f x) = brw_org x) \<Longrightarrow> i \<noteq> org \<Longrightarrow> find_row (set_row org f b) i = find_row b i"
  by (simp add: find_row_def set_row_def find_map_other)

lemma find_row_store [simp]: "find_row (snd (store_image sha png b)) i = find_row b i"
  by (simp add: store_image_def find_row_def)

lemma find_row_for: "row_for b org = (x, b') \<Longrightarrow> i \<noteq> org \<Longrightarrow> find_row b' i = find_row b i"
proof (cases "find_row b org")
  assume "row_for b org = (x, b')" "i \<noteq> org"
  moreover have "find P (xs @ [y]) = find P xs" if "\<not> P y" for P xs and y :: brand_row
    using that by (induction xs) auto
  moreover case None
  ultimately show ?thesis by (auto simp: row_for_def find_row_def blank_row_def)
qed (auto simp: row_for_def)

lemma find_row_drop [simp]: "find_row (drop_orphan_images b) i = find_row b i"
  by (simp add: find_row_def drop_orphan_images_def)

lemma find_row_saved:
  "saved_by e u action changed org (d, b) = (d', b') \<Longrightarrow> i \<noteq> org \<Longrightarrow> find_row b' i = find_row b i"
  by (auto simp: saved_by_def)

lemma find_row_saves:
  "i \<noteq> org \<Longrightarrow> save_texts name colour org x b = (c, b') \<Longrightarrow> find_row b' i = find_row b i"
  "i \<noteq> org \<Longrightarrow> save_light sha light rm org x b = (c, b') \<Longrightarrow> find_row b' i = find_row b i"
  "i \<noteq> org \<Longrightarrow> save_dark sha dark rm org x b = (c, b') \<Longrightarrow> find_row b' i = find_row b i"
proof -
  assume i: "i \<noteq> org"
  show "save_texts name colour org x b = (c, b') \<Longrightarrow> find_row b' i = find_row b i"
    using i by (auto simp: save_texts_def Let_def)
  show "save_dark sha dark rm org x b = (c, b') \<Longrightarrow> find_row b' i = find_row b i"
    using i by (auto simp: save_dark_def split_beta Let_def split: option.splits if_splits)
  show "save_light sha light rm org x b = (c, b') \<Longrightarrow> find_row b' i = find_row b i"
    using i by (auto simp: save_light_def split_beta Let_def split: option.splits if_splits)
qed

lemma brand_target_Inr:
  assumes "brand_target cfg d u org_text = Inr org"
  shows "(org = None \<longrightarrow> may_run_the_instance cfg u) \<and>
    (\<forall>i. org = Some i \<longrightarrow> cfg_multi_tenancy cfg \<and> (may_run_the_instance cfg u \<and> row org_id i (db_orgs d) \<noteq> None \<or> usr_org u = Some i))"
  using assms by (auto simp: brand_target_def split: if_splits option.splits dest: sym)

text \<open>
  A save or a reset is of one brand: the default one only by who runs the instance, an
  organisation's only with multi-tenancy, by an admin of it or by who runs the instance. Every other
  row stays as it was, its images stay stored, and the snapshot cached before is gone.
\<close>

theorem branding_scoped:
  assumes "brands_whole pl sha b"
    and "branding_post e pl sha u f (r, d, b) = Inr (Back_to org, r', d', b') \<or>
      branding_reset e u field org_text (r, d, b) = Inr (Back_to org, r', d', b')"
  shows "usr_role u \<in> {Admin, Superadmin} \<and> (org = None \<longrightarrow> may_run_the_instance (env_cfg e) u) \<and>
    (\<forall>i. org = Some i \<longrightarrow> cfg_multi_tenancy (env_cfg e) \<and> (may_run_the_instance (env_cfg e) u \<or> usr_org u = Some i)) \<and>
    (\<forall>i x. i \<noteq> org \<longrightarrow> find_row b' i = find_row b i \<and>
       (find_row b i = Some x \<longrightarrow> set (image_refs x) \<subseteq> fst ` set (bdb_images b'))) \<and>
    kv_get now r' CACHE_KEY = None"
proof -
  have whole: "brands_whole pl sha b'" using assms brands_whole_post brands_whole_reset by metis
  have cache: "kv_get now (invalidate t r) CACHE_KEY = None" for t
    by (simp add: invalidate_def kv_get_def kv_entry_del)
  have main: "usr_role u \<in> {Admin, Superadmin} \<and> (\<exists>text. brand_target (env_cfg e) d u text = Inr org) \<and>
      (\<forall>i. i \<noteq> org \<longrightarrow> find_row b' i = find_row b i) \<and> r' = invalidate (millis e) r"
    using assms(2)
  proof
    assume "branding_post e pl sha u f (r, d, b) = Inr (Back_to org, r', d', b')"
    then show ?thesis
    proof (cases rule: branding_post_cases)
      case (saved i name colour light dark x b0 c1 b1 c2 b2 c3 b3)
      have "find_row b' j = find_row b3 j" if "j \<noteq> org" for j
        using saved(8,10) that by (auto dest!: sym [of "(d', b')"] find_row_saved [of _ _ _ _ _ _ _ _ _ j] split: if_splits)
      then show ?thesis
        using saved find_row_for find_row_saves by (metis brand_answer.inject(2))
    qed blast
  next
    assume "branding_reset e u field org_text (r, d, b) = Inr (Back_to org, r', d', b')"
    then show ?thesis
    proof (cases rule: branding_reset_cases)
      case (reset i names x b0)
      have "find_row b' j = find_row b j" if "j \<noteq> org" for j
      proof -
        have "i = org" using reset(5) by simp
        with that have "j \<noteq> i" by simp
        moreover have "brw_org (fold reset_field names y) = brw_org y" for y using reset_fields_refs by blast
        ultimately show ?thesis using find_row_saved [OF reset(4)] find_row_for [OF reset(3)] by simp
      qed
      then show ?thesis using reset by auto
    qed blast
  qed
  have im: "set (image_refs x) \<subseteq> fst ` set (bdb_images b')" if "find_row b' i = Some x" for i x
  proof -
    have "x \<in> set (bdb_rows b')" using that by (auto simp: find_row_def find_Some_iff)
    then show ?thesis using whole by (auto simp: brands_whole_def images_sound_def refs_def)
  qed
  obtain wanted where t: "brand_target (env_cfg e) d u wanted = Inr org" using main by blast
  have m: "usr_role u \<in> {Admin, Superadmin}" "r' = invalidate (millis e) r" using main by blast+
  have other: "find_row b' i = find_row b i" if "i \<noteq> org" for i using main that by blast
  show ?thesis
  proof (intro conjI)
    show "usr_role u \<in> {Admin, Superadmin}" by (rule m(1))
    show "org = None \<longrightarrow> may_run_the_instance (env_cfg e) u" using brand_target_Inr [OF t] by blast
    show "\<forall>i. org = Some i \<longrightarrow>
        cfg_multi_tenancy (env_cfg e) \<and> (may_run_the_instance (env_cfg e) u \<or> usr_org u = Some i)"
      using brand_target_Inr [OF t] by blast
    show "\<forall>i x. i \<noteq> org \<longrightarrow> find_row b' i = find_row b i \<and>
        (find_row b i = Some x \<longrightarrow> set (image_refs x) \<subseteq> fst ` set (bdb_images b'))"
      using other im by metis
    show "kv_get now r' CACHE_KEY = None" unfolding m(2) by (rule cache)
  qed
qed


section \<open>An example\<close>

definition toy_drawer :: "unit drawer" where
  "toy_drawer = \<lparr>pl_open = (\<lambda>_. Opened 10 10), pl_decode = Some \<circ> (\<lambda>_. ()), pl_logo = (\<lambda>_. ''L''),
     pl_favicon = (\<lambda>n _. if n = 32 then ''F'' else ''G'')\<rparr>"

definition logo_form :: brand_form where
  "logo_form = \<lparr>bf_name = '' Acme '', bf_color = ''#0C7253'', bf_org = [], bf_remove_light = [], bf_remove_dark = [],
     bf_logo_light = Some (''l.png'', ''x''), bf_logo_dark = None\<rparr>"

definition branded :: brand_db where
  "branded = \<lparr>bdb_rows = [\<lparr>brw_org = None, brw_name = Some ''Acme'', brw_color = Some ''#0c7253'', brw_logo_light = Some ''L'',
       brw_logo_dark = None, brw_favicon_32 = Some ''F'', brw_favicon_180 = Some ''G'', brw_updated_by = Some 1\<rparr>],
     bdb_images = [(''L'', ''L''), (''F'', ''F''), (''G'', ''G'')]\<rparr>"

lemma logo_checked: "checked_form toy_drawer logo_form = Inr (''Acme'', Some ''#0c7253'', Some (''L'', ''F'', ''G''), None)"
proof -
  have t: "strip '' Acme '' = ''Acme''" "strip ''#0C7253'' = ''#0C7253''" "parse_colour ''#0C7253'' = Some ''#0c7253''"
    by code_simp+
  have "decode_image toy_drawer ''x'' = Inr ()"
    by (simp add: decode_image_def toy_drawer_def MAX_BYTES_def MAX_PIXELS_def)
  then have "light_images toy_drawer ''x'' = Inr (''L'', ''F'', ''G'')" by (simp add: light_images_def toy_drawer_def)
  then show ?thesis
    by (simp add: checked_form_def logo_form_def t checked_def read_upload_def MAX_BYTES_def take_Cons')
qed

lemma branded_by:
  "\<exists>r d. branding_post sample_env toy_drawer id (sample_user 1 Admin None) logo_form ([], empty_db, no_brands) =
     Inr (Back_to None, r, d, branded)"
proof -
  have g: "require_admin (sample_user 1 Admin None) = Inr (sample_user 1 Admin None)"
    "brand_target (env_cfg sample_env) empty_db (sample_user 1 Admin None) (bf_org logo_form) = Inr None"
    "\<not> cfg_demo_mode (env_cfg sample_env)" by code_simp+
  let ?x = "blank_row None"
  let ?b = "\<lambda>n c l f32 f180 by im. \<lparr>bdb_rows = [\<lparr>brw_org = None, brw_name = n, brw_color = c, brw_logo_light = l,
    brw_logo_dark = None, brw_favicon_32 = f32, brw_favicon_180 = f180, brw_updated_by = by\<rparr>], bdb_images = im\<rparr>"
  let ?b1 = "?b (Some ''Acme'') (Some ''#0c7253'') None None None None []"
  let ?b2 = "?b (Some ''Acme'') (Some ''#0c7253'') (Some ''L'') (Some ''F'') (Some ''G'') None [(''L'', ''L''), (''F'', ''F''), (''G'', ''G'')]"
  have r: "row_for no_brands None = (?x, ?b None None None None None None [])" by code_simp
  have 1: "save_texts ''Acme'' (Some ''#0c7253'') None ?x (?b None None None None None None []) = ([''name'', ''primary_color''], ?b1)"
    by code_simp
  have 2: "save_light id (Some (''L'', ''F'', ''G'')) rm None ?x ?b1 = ([''logo_light''], ?b2)" for rm
    by (simp add: save_light_def store_image_def set_row_def)
  have 3: "save_dark id None (bf_remove_dark logo_form) None ?x ?b2 = ([], ?b2)" by code_simp
  have 4: "drop_orphan_images (set_row None (\<lambda>y. y\<lparr>brw_updated_by := Some (usr_id (sample_user 1 Admin None))\<rparr>) ?b2) = branded"
    by code_simp
  show ?thesis
    unfolding branding_post_def prod.case g(1) on_ok_simps g(2) if_not_P [OF g(3)] logo_checked sum.case r Let_def 1 2 3
    by (simp add: saved_by_def 4 del: One_nat_def)
qed

theorem brand_images_whole_witness:
  "reachable (\<lambda>b. b = no_brands) (brand_step toy_drawer id) branded \<and>
   fst ` set (bdb_images branded) = \<Union> (set ` image_refs ` set (bdb_rows branded))"
proof -
  obtain r d where "branding_post sample_env toy_drawer id (sample_user 1 Admin None) logo_form ([], empty_db, no_brands) =
      Inr (Back_to None, r, d, branded)" using branded_by by blast
  note step = brand_step.saving [OF this]
  have "reachable (\<lambda>b. b = no_brands) (brand_step toy_drawer id) no_brands" by (rule reachable.start) (rule refl)
  then have at: "reachable (\<lambda>b. b = no_brands) (brand_step toy_drawer id) branded" by (rule reachable.step) (rule step)
  then show ?thesis by (rule conjI) (rule conjunct1 [OF conjunct2 [OF brand_images_whole [OF at]]])
qed

theorem branding_scoped_witness:
  "\<exists>r d. branding_post sample_env toy_drawer id (sample_user 1 Admin None) logo_form ([], empty_db, no_brands) =
       Inr (Back_to None, r, d, branded) \<and>
     find_row branded (Some 3) = find_row no_brands (Some 3) \<and> kv_get 0 r CACHE_KEY = None"
proof -
  obtain r d where run: "branding_post sample_env toy_drawer id (sample_user 1 Admin None) logo_form ([], empty_db, no_brands) =
      Inr (Back_to None, r, d, branded)" using branded_by by blast
  have "brands_whole toy_drawer id no_brands"
    by (simp add: brands_whole_def images_sound_def no_brands_def refs_def)
  note s = branding_scoped [OF this disjI1 [OF run], of 0]
  have "kv_get 0 r CACHE_KEY = None" using s by (elim conjE)
  moreover have "find_row branded (Some 3) = find_row no_brands (Some 3)" using s by blast
  ultimately show ?thesis using run by blast
qed

end
