(* ===== verification/Branding_Cache.thy ===== *)
theory Branding_Cache
  imports Branding Reachability
begin

text \<open>
  The cached branding snapshot (\<open>snapshot\<close>, \<open>invalidate\<close> and \<open>load_branding\<close> of
  \<open>app/services/branding.py\<close>): JSON text in Redis under the version the load began with. Page views
  and saves of all processes interleave between any two of their commands: the state machine holds the
  committed rows, the loads under way, and the saves that have yet to bump the version or to clear the
  cache. The text functions are arguments.
\<close>

section \<open>The snapshot as text\<close>

definition CACHE_SECONDS :: int where "CACHE_SECONDS = 3600"

definition json_of :: "string option \<Rightarrow> json" where
  "json_of x = (case x of None \<Rightarrow> JNull | Some s \<Rightarrow> JStr s)"

definition row_json :: "brand_row \<Rightarrow> json" where
  "row_json x =
     JObj [(''name'', json_of (brw_name x)), (''primary_color'', json_of (brw_color x)),
       (''logo_light'', json_of (brw_logo_light x)), (''logo_dark'', json_of (brw_logo_dark x)),
       (''favicon_32'', json_of (brw_favicon_32 x)), (''favicon_180'', json_of (brw_favicon_180 x))]"

definition json_row :: "json \<Rightarrow> brand_row" where
  "json_row v =
     (case v of
        JObj kvs \<Rightarrow>
          (blank_row None)\<lparr>brw_name := as_str (dict_get kvs ''name''), brw_color := as_str (dict_get kvs ''primary_color''),
            brw_logo_light := as_str (dict_get kvs ''logo_light''), brw_logo_dark := as_str (dict_get kvs ''logo_dark''),
            brw_favicon_32 := as_str (dict_get kvs ''favicon_32''), brw_favicon_180 := as_str (dict_get kvs ''favicon_180'')\<rparr>
      | _ \<Rightarrow> blank_row None)"

definition wrapped :: "json \<Rightarrow> brand_snapshot \<Rightarrow> json" where
  "wrapped version snap = JObj [(''version'', version), (''rows'', JObj (map (\<lambda>p. (fst p, row_json (snd p))) snap))]"

section \<open>Commands\<close>

text \<open>The version as the client returns it: the counter's digits, or nothing.\<close>

definition version_of :: "int \<Rightarrow> redis \<Rightarrow> json" where
  "version_of now r = (case kv_get now r VERSION_KEY of Some (Num n) \<Rightarrow> JStr (string_of_int n) | _ \<Rightarrow> JNull)"

definition cached_snapshot :: "json_text \<Rightarrow> int \<Rightarrow> redis \<Rightarrow> brand_snapshot option" where
  "cached_snapshot js now r =
     (case kv_get now r CACHE_KEY of
        Some (Txt cached) \<Rightarrow>
          (if cached = [] then None
           else (case js_loads js cached of
                   Some (JObj data) \<Rightarrow>
                     (if dict_get data ''version'' = version_of now r
                      then (case dict_get data ''rows'' of
                              JObj rows \<Rightarrow> Some (map (\<lambda>p. (fst p, json_row (snd p))) rows)
                            | _ \<Rightarrow> None)
                      else None)
                 | _ \<Rightarrow> None))
      | _ \<Rightarrow> None)"

definition store_snapshot :: "json_text \<Rightarrow> int \<Rightarrow> json \<Rightarrow> brand_snapshot \<Rightarrow> redis \<Rightarrow> redis" where
  "store_snapshot js now version snap r = kv_set now r CACHE_KEY (Txt (js_dumps js (wrapped version snap))) CACHE_SECONDS"

text \<open>One page view with nothing in between, and what it wears when Redis does not answer.\<close>

definition snapshot :: "json_text \<Rightarrow> int \<Rightarrow> brand_row list \<Rightarrow> redis \<Rightarrow> brand_snapshot \<times> redis" where
  "snapshot js now rows r =
     (case cached_snapshot js now r of
        Some snap \<Rightarrow> (snap, r)
      | None \<Rightarrow> (load_snapshot rows, store_snapshot js now (version_of now r) (load_snapshot rows) r))"

definition load_branding :: "json_text \<Rightarrow> int \<Rightarrow> bool \<Rightarrow> brand_row list \<Rightarrow> redis \<Rightarrow> brand_snapshot \<times> redis" where
  "load_branding js now up rows r = (if up then snapshot js now rows r else ([], r))"

section \<open>Page views and saves, interleaved\<close>

record cache_world =
  cw_rows :: "brand_row list"
  cw_redis :: redis
  cw_loads :: "(json \<times> brand_snapshot option) list"
  cw_commits :: nat
  cw_bumped :: nat

inductive cache_step :: "json_text \<Rightarrow> brand_row list set \<Rightarrow> cache_world \<Rightarrow> cache_world \<Rightarrow> bool" for js saves where
  missing: "cached_snapshot js now (cw_redis w) = None \<Longrightarrow>
    cache_step js saves w (w\<lparr>cw_loads := (version_of now (cw_redis w), None) # cw_loads w\<rparr>)"
| reading: "(v, None) \<in> set (cw_loads w) \<Longrightarrow>
    cache_step js saves w (w\<lparr>cw_loads := (v, Some (load_snapshot (cw_rows w))) # remove1 (v, None) (cw_loads w)\<rparr>)"
| storing: "(v, Some snap) \<in> set (cw_loads w) \<Longrightarrow>
    cache_step js saves w (w\<lparr>cw_loads := remove1 (v, Some snap) (cw_loads w),
      cw_redis := store_snapshot js now v snap (cw_redis w)\<rparr>)"
| dying: "cache_step js saves w (w\<lparr>cw_loads := remove1 x (cw_loads w)\<rparr>)"
| committing: "rows \<in> saves \<Longrightarrow> cache_step js saves w (w\<lparr>cw_rows := rows, cw_commits := Suc (cw_commits w)\<rparr>)"
| bumping: "cw_commits w = Suc n \<Longrightarrow>
    cache_step js saves w (w\<lparr>cw_redis := snd (kv_add now (cw_redis w) VERSION_KEY 1), cw_commits := n,
      cw_bumped := Suc (cw_bumped w)\<rparr>)"
| clearing: "cw_bumped w = Suc n \<Longrightarrow>
    cache_step js saves w (w\<lparr>cw_redis := kv_del (cw_redis w) CACHE_KEY, cw_bumped := n\<rparr>)"

definition cold :: "brand_row list set \<Rightarrow> cache_world \<Rightarrow> bool" where
  "cold saves w \<longleftrightarrow> cw_rows w \<in> saves \<and> cw_redis w = [] \<and> cw_loads w = [] \<and> cw_commits w = 0 \<and> cw_bumped w = 0"
section \<open>Nothing stale is served\<close>

lemma digits_value: "foldl (\<lambda>a c. 10 * a + (of_char c - 48)) 0 (digits n) = (n :: nat)"
proof (induction n rule: digits.induct)
  case (1 n)
  show ?case
  proof (cases "n < 10")
    case True
    then show ?thesis by (subst digits.simps) simp
  next
    case False
    have "of_char (char_of (48 + n mod 10) :: char) = (48 + n mod 10 :: nat)" by simp
    with 1 [OF False] False show ?thesis by (subst digits.simps) simp
  qed
qed

lemma string_of_int_inj: "0 \<le> m \<Longrightarrow> 0 \<le> n \<Longrightarrow> string_of_int m = string_of_int n \<Longrightarrow> m = n"
proof -
  assume "0 \<le> m" "0 \<le> n" "string_of_int m = string_of_int n"
  then have "digits (nat m) = digits (nat n)" by (simp add: string_of_int_def)
  then have "nat m = nat n" using digits_value by metis
  with \<open>0 \<le> m\<close> \<open>0 \<le> n\<close> show ?thesis by simp
qed

text \<open>The versions handed out up to a count, and what the version key holds.\<close>

definition version_no :: "int \<Rightarrow> json" where
  "version_no n = (if n = 0 then JNull else JStr (string_of_int n))"

lemma version_no_inj: "0 \<le> m \<Longrightarrow> 0 \<le> n \<Longrightarrow> version_no m = version_no n \<longleftrightarrow> m = n"
  using string_of_int_inj by (auto simp: version_no_def)

definition versioned :: "redis \<Rightarrow> int \<Rightarrow> bool" where
  "versioned r n \<longleftrightarrow> 0 \<le> n \<and>
     (\<forall>t. kv_entry t r VERSION_KEY = (if n = 0 then None else Some \<lparr>ent_val = Num n, ent_exp = None\<rparr>))"

lemma version_of_versioned: "versioned r n \<Longrightarrow> version_of t r = version_no n"
  by (auto simp: versioned_def version_of_def version_no_def kv_get_def)

lemma keys_differ [simp]: "CACHE_KEY \<noteq> VERSION_KEY" "VERSION_KEY \<noteq> CACHE_KEY"
  by (simp_all add: CACHE_KEY_def VERSION_KEY_def)

lemma versioned_store: "versioned r n \<Longrightarrow> versioned (store_snapshot js now v snap r) n"
  by (simp add: versioned_def store_snapshot_def kv_set_def)

lemma versioned_clear: "versioned r n \<Longrightarrow> versioned (kv_del r CACHE_KEY) n"
  by (simp add: versioned_def)

lemma versioned_bump: "versioned r n \<Longrightarrow> versioned (snd (kv_add now r VERSION_KEY 1)) (n + 1)"
  by (auto simp: versioned_def kv_add_def kv_num_def kv_get_def Let_def live_def)

lemma json_row_json: "json_row (row_json x) = fields_of x"
proof -
  have "as_str (json_of y) = y" for y by (cases y) (simp_all add: json_of_def)
  then show ?thesis by (simp add: json_row_def row_json_def dict_get_def blank_row_def fields_of_def)
qed

definition readable :: "json_text \<Rightarrow> brand_row list set \<Rightarrow> bool" where
  "readable js saves \<longleftrightarrow> (\<forall>rows \<in> saves. \<forall>n \<ge> 0. reads_back js (wrapped (version_no n) (load_snapshot rows)))"

lemma cached_stored:
  assumes "kv_get t r CACHE_KEY = Some (Txt (js_dumps js (wrapped v (load_snapshot rows))))"
    "reads_back js (wrapped v (load_snapshot rows))"
  shows "cached_snapshot js t r = (if v = version_of t r then Some (load_snapshot rows) else None)"
proof -
  have "map (\<lambda>p. (fst p, json_row (snd p))) (map (\<lambda>p. (fst p, row_json (snd p))) (load_snapshot rows)) = load_snapshot rows"
    by (simp add: load_snapshot_def json_row_json comp_def) (simp add: fields_of_def)
  with assms show ?thesis by (simp add: cached_snapshot_def reads_back_def wrapped_def dict_get_def)
qed

text \<open>
  A version not yet overtaken belongs to the rows as they are, once no commit waits for its bump.
\<close>

definition fresh :: "cache_world \<Rightarrow> int \<Rightarrow> int \<Rightarrow> brand_row list \<Rightarrow> bool" where
  "fresh w n m rows \<longleftrightarrow> 0 \<le> m \<and> m \<le> n \<and> (m = n \<and> cw_commits w = 0 \<longrightarrow> load_snapshot rows = load_snapshot (cw_rows w))"

definition load_ok :: "brand_row list set \<Rightarrow> cache_world \<Rightarrow> int \<Rightarrow> json \<times> brand_snapshot option \<Rightarrow> bool" where
  "load_ok saves w n l \<longleftrightarrow>
     (\<exists>m. fst l = version_no m \<and> 0 \<le> m \<and> m \<le> n \<and>
        (\<forall>s. snd l = Some s \<longrightarrow> (\<exists>rows \<in> saves. s = load_snapshot rows \<and> fresh w n m rows)))"

definition entry_ok :: "json_text \<Rightarrow> brand_row list set \<Rightarrow> cache_world \<Rightarrow> int \<Rightarrow> rval \<Rightarrow> bool" where
  "entry_ok js saves w n e \<longleftrightarrow>
     (\<exists>m. \<exists>rows \<in> saves. e = Txt (js_dumps js (wrapped (version_no m) (load_snapshot rows))) \<and> fresh w n m rows)"

definition cache_inv :: "json_text \<Rightarrow> brand_row list set \<Rightarrow> cache_world \<Rightarrow> bool" where
  "cache_inv js saves w \<longleftrightarrow> cw_rows w \<in> saves \<and>
     (\<exists>n. versioned (cw_redis w) n \<and> (\<forall>l \<in> set (cw_loads w). load_ok saves w n l) \<and>
       (\<forall>t e. kv_get t (cw_redis w) CACHE_KEY = Some e \<longrightarrow> entry_ok js saves w n e))"

lemma cache_inv_cold: "cold saves w \<Longrightarrow> cache_inv js saves w"
  by (auto simp: cold_def cache_inv_def versioned_def kv_entry_def kv_get_def intro!: exI [of _ 0])

lemma fresh_same [simp]:
  "fresh (w\<lparr>cw_loads := ls\<rparr>) = fresh w" "fresh (w\<lparr>cw_redis := r\<rparr>) = fresh w" "fresh (w\<lparr>cw_bumped := k\<rparr>) = fresh w"
  by (simp_all add: fresh_def fun_eq_iff)

lemma ok_same [simp]:
  "load_ok saves (w\<lparr>cw_loads := ls\<rparr>) = load_ok saves w" "load_ok saves (w\<lparr>cw_redis := r\<rparr>) = load_ok saves w"
  "load_ok saves (w\<lparr>cw_bumped := k\<rparr>) = load_ok saves w"
  "entry_ok js saves (w\<lparr>cw_loads := ls\<rparr>) = entry_ok js saves w" "entry_ok js saves (w\<lparr>cw_redis := r\<rparr>) = entry_ok js saves w"
  "entry_ok js saves (w\<lparr>cw_bumped := k\<rparr>) = entry_ok js saves w"
  by (simp_all add: load_ok_def entry_ok_def fun_eq_iff)

text \<open>Overtaken, or not owed: what was in order stays so.\<close>

lemma ok_mono:
  assumes "\<And>m rows. fresh w n m rows \<Longrightarrow> fresh w' n' m rows" "n \<le> n'"
  shows "load_ok saves w n l \<Longrightarrow> load_ok saves w' n' l" "entry_ok js saves w n e \<Longrightarrow> entry_ok js saves w' n' e"
  using assms unfolding load_ok_def entry_ok_def by (meson order_trans)+

lemma cache_inv_step:
  assumes "cache_inv js saves w" "cache_step js saves w w'"
  shows "cache_inv js saves w'"
proof -
  obtain n where n: "versioned (cw_redis w) n" and ls: "\<forall>l \<in> set (cw_loads w). load_ok saves w n l"
    and c: "\<forall>t e. kv_get t (cw_redis w) CACHE_KEY = Some e \<longrightarrow> entry_ok js saves w n e" and r: "cw_rows w \<in> saves"
    using assms(1) by (auto simp: cache_inv_def)
  have n0: "0 \<le> n" using n by (simp add: versioned_def)
  from assms(2) show ?thesis
  proof cases
    case (missing now)
    have "load_ok saves w n (version_of now (cw_redis w), None)"
      using n0 by (auto simp: load_ok_def version_of_versioned [OF n])
    then show ?thesis using n ls c r by (auto simp: cache_inv_def missing)
  next
    case (reading v)
    have "load_ok saves w n (v, None)" using ls reading(2) by blast
    then have "load_ok saves w n (v, Some (load_snapshot (cw_rows w)))"
      using r by (auto simp: load_ok_def fresh_def)
    then show ?thesis using n ls c r by (auto simp: cache_inv_def reading dest: subsetD [OF set_remove1_subset])
  next
    case (storing v snap now)
    have l: "load_ok saves w n (v, Some snap)" using ls storing(2) by blast
    then have e: "entry_ok js saves w n (Txt (js_dumps js (wrapped v snap)))" by (auto simp: load_ok_def entry_ok_def)
    have "kv_get t (store_snapshot js now v snap (cw_redis w)) CACHE_KEY = Some y \<Longrightarrow> entry_ok js saves w n y" for t y
      using e by (auto simp: store_snapshot_def kv_set_def kv_get_put split: if_splits)
    moreover have "\<forall>l \<in> set (remove1 (v, Some snap) (cw_loads w)). load_ok saves w n l"
      using ls by (meson set_remove1_subset subsetD)
    ultimately show ?thesis
      using versioned_store [OF n, of js now v snap] r
      by (simp add: cache_inv_def storing(1)) (intro exI [of _ n], simp)
  next
    case (dying x)
    then show ?thesis using n ls c r by (auto simp: cache_inv_def dest: subsetD [OF set_remove1_subset])
  next
    case (committing rows)
    have "fresh w n m rs \<Longrightarrow> fresh w' n m rs" for m rs by (simp add: committing fresh_def)
    note mono = ok_mono [OF this order_refl]
    have "cw_loads w' = cw_loads w" "cw_redis w' = cw_redis w" "cw_rows w' = rows" by (simp_all add: committing)
    then show ?thesis using n ls c committing(2) mono by (auto simp: cache_inv_def)
  next
    case (bumping k now)
    have "fresh w n m rs \<Longrightarrow> fresh w' (n + 1) m rs" for m rs by (simp add: bumping fresh_def)
    note mono = ok_mono [OF this]
    have "kv_get t (cw_redis w') CACHE_KEY = kv_get t (cw_redis w) CACHE_KEY" for t
      by (simp add: bumping kv_add_def kv_get_put Let_def)
    moreover have "cw_loads w' = cw_loads w" "cw_rows w' = cw_rows w" "versioned (cw_redis w') (n + 1)"
      using versioned_bump [OF n] by (simp_all add: bumping)
    ultimately show ?thesis using ls c r mono by (auto simp: cache_inv_def intro!: exI [of _ "n + 1"])
  next
    case (clearing k)
    then show ?thesis using versioned_clear [OF n] ls r by (auto simp: cache_inv_def kv_get_del)
  qed
qed

interpretation brand_cache: invariant_system "cold saves" "cache_step js saves" "cache_inv js saves" for js saves
  by unfold_locales (rule cache_inv_cold, assumption, rule cache_inv_step)

text \<open>
  C35. However page views and saves interleave, over all processes: once every commit has bumped the
  version, a snapshot the cache still serves is of the rows last committed. A load that read the rows
  before a save and stored them after it is a miss.
\<close>

theorem served_brand_is_the_saved_one:
  assumes "readable js saves" "reachable (cold saves) (cache_step js saves) w" "cw_commits w = 0"
    and "cached_snapshot js now (cw_redis w) = Some snap"
  shows "snap = load_snapshot (cw_rows w)"
proof -
  obtain n where n: "versioned (cw_redis w) n"
    and c: "\<And>e. kv_get now (cw_redis w) CACHE_KEY = Some e \<Longrightarrow> entry_ok js saves w n e"
    using brand_cache.inv_reachable [OF assms(2)] by (auto simp: cache_inv_def)
  obtain e where e: "kv_get now (cw_redis w) CACHE_KEY = Some e"
    using assms(4) by (auto simp: cached_snapshot_def split: option.splits)
  then obtain m rows where rows: "rows \<in> saves" and
    t: "kv_get now (cw_redis w) CACHE_KEY = Some (Txt (js_dumps js (wrapped (version_no m) (load_snapshot rows))))"
    and f: "fresh w n m rows" using c [OF e] by (auto simp: entry_ok_def)
  have m: "0 \<le> m" "0 \<le> n" using f n by (simp_all add: fresh_def versioned_def)
  have "reads_back js (wrapped (version_no m) (load_snapshot rows))" using assms(1) rows m by (simp add: readable_def)
  from cached_stored [OF t this] assms(4)
  have "version_no m = version_no n" "snap = load_snapshot rows"
    by (simp_all add: version_of_versioned [OF n] split: if_splits)
  moreover from this(1) m have "m = n" by (simp add: version_no_inj)
  ultimately show ?thesis using f assms(3) by (simp add: fresh_def)
qed
section \<open>An example\<close>

definition acme :: brand_row where "acme = (blank_row None)\<lparr>brw_name := Some ''Acme''\<rparr>"

definition acme_text :: json_text where
  "acme_text =
     \<lparr>js_dumps = (\<lambda>j. case j of
          JObj [(_, ver), (_, JObj rows)] \<Rightarrow> (if rows = [] then ''e'' else ''f'') @ (case ver of JStr s \<Rightarrow> ''v'' @ s | _ \<Rightarrow> ''n'')
        | _ \<Rightarrow> []),
      js_loads = (\<lambda>t. case t of
          a # b # s \<Rightarrow> Some (JObj [(''version'', if b = CHR ''v'' then JStr s else JNull),
            (''rows'', JObj (if a = CHR ''e'' then [] else [(''default'', row_json acme)]))])
        | _ \<Rightarrow> None)\<rparr>"

lemma acme_readable: "readable acme_text {[], [acme]}"
proof -
  have "load_snapshot [acme] = [(''default'', acme)]"
    by (simp add: load_snapshot_def acme_def fields_of_def blank_row_def snapshot_key_def)
  then show ?thesis
    by (auto simp: readable_def reads_back_def wrapped_def acme_text_def version_no_def load_snapshot_def)
qed

definition served_acme :: cache_world where
  "served_acme = \<lparr>cw_rows = [acme], cw_redis = store_snapshot acme_text 0 (version_no 1) (load_snapshot [acme])
     (snd (kv_add 0 [] VERSION_KEY 1)), cw_loads = [], cw_commits = 0, cw_bumped = 1\<rparr>"

lemma served_acme_reachable: "reachable (cold {[], [acme]}) (cache_step acme_text {[], [acme]}) served_acme"
proof -
  let ?S = "{[], [acme]}"
  let ?r = "snd (kv_add 0 [] VERSION_KEY 1)"
  define w0 where "w0 = \<lparr>cw_rows = [], cw_redis = [], cw_loads = [], cw_commits = 0, cw_bumped = 0\<rparr>"
  have v: "version_of 0 ?r = version_no 1" "cached_snapshot acme_text 0 ?r = None" by code_simp+
  have 0: "reachable (cold ?S) (cache_step acme_text ?S) w0" by (rule reachable.start) (simp add: cold_def w0_def)
  have 1: "reachable (cold ?S) (cache_step acme_text ?S) (w0\<lparr>cw_rows := [acme], cw_commits := 1\<rparr>)"
    using reachable.step [OF 0 cache_step.committing [of "[acme]" ?S acme_text w0]] by (simp add: w0_def)
  have 2: "reachable (cold ?S) (cache_step acme_text ?S) (w0\<lparr>cw_rows := [acme], cw_redis := ?r, cw_bumped := 1\<rparr>)"
    using reachable.step [OF 1 cache_step.bumping [of _ 0 acme_text ?S 0]] by (simp add: w0_def)
  have 3: "reachable (cold ?S) (cache_step acme_text ?S)
      (w0\<lparr>cw_rows := [acme], cw_redis := ?r, cw_bumped := 1, cw_loads := [(version_no 1, None)]\<rparr>)"
    using reachable.step [OF 2 cache_step.missing [of acme_text 0 _ ?S]] v by (simp add: w0_def)
  have 4: "reachable (cold ?S) (cache_step acme_text ?S)
      (w0\<lparr>cw_rows := [acme], cw_redis := ?r, cw_bumped := 1, cw_loads := [(version_no 1, Some (load_snapshot [acme]))]\<rparr>)"
    using reachable.step [OF 3 cache_step.reading [of "version_no 1" _ acme_text ?S]] by (simp add: w0_def)
  show ?thesis
    using reachable.step [OF 4 cache_step.storing [of "version_no 1" "load_snapshot [acme]" _ acme_text ?S 0]]
    by (simp add: w0_def served_acme_def)
qed

theorem served_brand_is_the_saved_one_witness:
  "cached_snapshot acme_text 1 (cw_redis served_acme) = Some (load_snapshot (cw_rows served_acme)) \<and>
   bra_name (resolve sample_settings (load_snapshot (cw_rows served_acme)) None) = ''Acme''"
proof -
  have "cached_snapshot acme_text 1 (cw_redis served_acme) \<noteq> None" by code_simp
  then obtain snap where hit: "cached_snapshot acme_text 1 (cw_redis served_acme) = Some snap" by blast
  have "cw_commits served_acme = 0" by (simp add: served_acme_def)
  from served_brand_is_the_saved_one [OF acme_readable served_acme_reachable this hit] hit
  have "cached_snapshot acme_text 1 (cw_redis served_acme) = Some (load_snapshot (cw_rows served_acme))" by simp
  moreover have "bra_name (resolve sample_settings (load_snapshot (cw_rows served_acme)) None) = ''Acme''" by code_simp
  ultimately show ?thesis by blast
qed

end
