(* ===== verification/Pdf_Clean.thy ===== *)
theory Pdf_Clean
  imports Image_Strip "HOL-Library.AList"
begin

text \<open>
  The PDF cleaner (\<open>_pdf_clone_cost\<close> and \<open>_strip_pdf\<close> of \<open>app/services/attachment.py\<close>): the budget a
  file has to keep before it is cloned, and what is taken out of the clone's objects. A document is the
  list of its indirect objects, a reference the index into it. Reading, cloning, decoding a stream's
  outer filters and writing are pypdf's and arguments (\<open>pdf_library\<close>), as is the fresh identifier. What
  raises in the source other than its own refusal is \<open>Parser_error\<close>, which \<open>strip_metadata\<close> turns into
  a refusal.
\<close>

section \<open>Objects\<close>

datatype pdf =
    P_null
  | P_num int
  | P_text string
  | P_name string
  | P_array "pdf list"
  | P_dict "(string \<times> pdf) list"
  | P_stream "(string \<times> pdf) list" bytes
  | P_ref nat

text \<open>A stream is a dictionary, too (\<open>isinstance(obj, DictionaryObject)\<close>).\<close>

fun dict_part :: "pdf \<Rightarrow> (string \<times> pdf) list option" where
  "dict_part (P_dict kvs) = Some kvs"
| "dict_part (P_stream kvs _) = Some kvs"
| "dict_part _ = None"

fun with_dict :: "((string \<times> pdf) list \<Rightarrow> (string \<times> pdf) list) \<Rightarrow> pdf \<Rightarrow> pdf" where
  "with_dict f (P_dict kvs) = P_dict (f kvs)"
| "with_dict f (P_stream kvs data) = P_stream (f kvs) data"
| "with_dict f x = x"

definition pop_keys :: "string list \<Rightarrow> (string \<times> pdf) list \<Rightarrow> (string \<times> pdf) list" where
  "pop_keys ks kvs = filter (\<lambda>p. fst p \<notin> set ks) kvs"

definition get_object :: "pdf list \<Rightarrow> pdf \<Rightarrow> pdf" where
  "get_object objs v = (case v of P_ref i \<Rightarrow> if i < length objs then objs ! i else P_null | _ \<Rightarrow> v)"

text \<open>Names are strings to Python: \<open>==\<close> does not tell a name from a text.\<close>

definition reads_as :: "string \<Rightarrow> pdf \<Rightarrow> bool" where
  "reads_as s v \<longleftrightarrow> v = P_name s \<or> v = P_text s"

section \<open>The budget\<close>

definition MAX_PDF_ELEMENTS :: int where "MAX_PDF_ELEMENTS = 20000"

text \<open>The entries of an array or dictionary; everything else is a leaf.\<close>

fun children :: "pdf \<Rightarrow> pdf list option" where
  "children (P_array xs) = Some xs"
| "children (P_dict kvs) = Some (map snd kvs)"
| "children (P_stream kvs _) = Some (map snd kvs)"
| "children _ = None"

fun nodes :: "pdf \<Rightarrow> nat" where
  "nodes (P_array xs) = Suc (sum_list (map nodes xs))"
| "nodes (P_dict kvs) = Suc (sum_list (map (\<lambda>p. nodes (snd p)) kvs))"
| "nodes (P_stream kvs _) = Suc (sum_list (map (\<lambda>p. nodes (snd p)) kvs))"
| "nodes _ = 1"

lemma nodes_children: "children x = Some ys \<Longrightarrow> nodes x = Suc (sum_list (map nodes ys))"
  by (cases x) (auto simp: comp_def)

lemma nodes_pos [simp]: "0 < nodes x"
  by (cases x) simp_all

text \<open>The walk with its stack, the top first; the last child is on top.\<close>

function (sequential) entries_loop :: "pdf list \<Rightarrow> int \<Rightarrow> int \<Rightarrow> int" where
  "entries_loop [] budget seen = seen"
| "entries_loop (node # stack) budget seen =
     (case children node of
        None \<Rightarrow> entries_loop stack budget seen
      | Some ys \<Rightarrow>
          (if seen + int (length ys) > budget then seen + int (length ys)
           else entries_loop (rev ys @ stack) budget (seen + int (length ys))))"
  by pat_completeness auto
termination
  by (relation "measure (\<lambda>(stack, _). sum_list (map nodes stack))")
     (auto simp: nodes_children rev_map [symmetric] split: if_splits dest: nodes_children)

declare entries_loop.simps [simp del]

record pdf_doc =
  pd_xref_count :: nat
  pd_sources :: "pdf option list"
  pd_objects :: "pdf list"
  pd_root :: nat
  pd_pages :: "nat list"

text \<open>\<open>None\<close> among the sources is an object pypdf refuses to parse within the budget.\<close>

fun cost_loop :: "pdf option list \<Rightarrow> int \<Rightarrow> int \<Rightarrow> strip_error + int" where
  "cost_loop [] cap seen = Inr seen"
| "cost_loop (None # rest) cap seen = Inl (Metadata_error ''PDF has too many objects to clean'')"
| "cost_loop (Some obj # rest) cap seen =
     (let seen1 = seen + 1 + entries_loop [obj] (cap - seen) 0
      in if seen1 > cap then Inr seen1 else cost_loop rest cap seen1)"

definition pdf_clone_cost :: "pdf_doc \<Rightarrow> int \<Rightarrow> strip_error + int" where
  "pdf_clone_cost doc cap =
     (if int (pd_xref_count doc) > cap then Inr (cap + 1) else cost_loop (pd_sources doc) cap 0)"

section \<open>What is taken out\<close>

definition and_then :: "'e + 'a \<Rightarrow> ('a \<Rightarrow> 'e + 'b) \<Rightarrow> 'e + 'b" where
  "and_then x k = (case x of Inl e \<Rightarrow> Inl e | Inr a \<Rightarrow> k a)"

definition PRIVATE_KEYS :: "string list" where
  "PRIVATE_KEYS = [''/Metadata'', ''/PieceInfo'', ''/LastModified'', ''/Thumb'']"

definition signature :: "pdf list \<Rightarrow> pdf \<Rightarrow> bool" where
  "signature objs v \<longleftrightarrow>
     (case dict_part (get_object objs v) of None \<Rightarrow> False | Some kvs \<Rightarrow> map_of kvs ''/ByteRange'' \<noteq> None)"

definition carries_file :: "(string \<times> pdf) list \<Rightarrow> bool" where
  "carries_file kvs \<longleftrightarrow>
     map_of kvs ''/EF'' \<noteq> None \<or> (case map_of kvs ''/Type'' of None \<Rightarrow> False | Some v \<Rightarrow> reads_as ''/EmbeddedFile'' v)"

definition clean_object :: "pdf list \<Rightarrow> pdf \<Rightarrow> strip_error + pdf" where
  "clean_object objs obj =
     (case dict_part obj of
        None \<Rightarrow> Inr obj
      | Some kvs \<Rightarrow>
          (if carries_file kvs then Inl (Metadata_error ''PDF carries embedded files'')
           else (let gone = PRIVATE_KEYS @
                       (case map_of kvs ''/V'' of
                          Some v \<Rightarrow> if signature objs v then [''/V''] else [] | None \<Rightarrow> [])
                 in Inr (with_dict (pop_keys gone) obj))))"

fun clean_objects :: "nat list \<Rightarrow> pdf list \<Rightarrow> strip_error + pdf list" where
  "clean_objects [] objs = Inr objs"
| "clean_objects (i # is) objs =
     and_then (clean_object objs (objs ! i)) (\<lambda>x. clean_objects is (objs[i := x]))"

definition drop_root_keys :: "nat \<Rightarrow> pdf list \<Rightarrow> pdf list" where
  "drop_root_keys root objs = objs[root := with_dict (pop_keys [''/Perms'', ''/DSS'']) (objs ! root)]"

definition clean_annot :: "pdf \<Rightarrow> strip_error + pdf" where
  "clean_annot a =
     (case dict_part a of
        None \<Rightarrow> Inl Parser_error
      | Some kvs \<Rightarrow>
          (let kvs1 = (if map_of kvs ''/T'' \<noteq> None then AList.update ''/T'' (P_text ''Author'') kvs else kvs)
           in Inr (with_dict (\<lambda>_. pop_keys [''/M'', ''/CreationDate''] kvs1) a)))"

text \<open>The entries of an annotation array: a direct one is changed in the array, another where it is.\<close>

fun clean_annots :: "pdf list \<Rightarrow> pdf list \<Rightarrow> strip_error + pdf list \<times> pdf list" where
  "clean_annots [] objs = Inr ([], objs)"
| "clean_annots (a # as) objs =
     (case a of
        P_ref i \<Rightarrow>
          (if i < length objs
           then and_then (clean_annot (objs ! i)) (\<lambda>x.
                and_then (clean_annots as (objs[i := x])) (\<lambda>(as', objs'). Inr (P_ref i # as', objs')))
           else Inl Parser_error)
      | _ \<Rightarrow> and_then (clean_annot a) (\<lambda>x.
             and_then (clean_annots as objs) (\<lambda>(as', objs'). Inr (x # as', objs'))))"

text \<open>Python's truth of \<open>page.get("/Annots")\<close>.\<close>

fun falsy :: "pdf \<Rightarrow> bool" where
  "falsy (P_num n) = (n = 0)"
| "falsy (P_text s) = (s = [])"
| "falsy (P_name s) = (s = [])"
| "falsy (P_array xs) = (xs = [])"
| "falsy (P_dict kvs) = (kvs = [])"
| "falsy (P_stream kvs _) = (kvs = [])"
| "falsy _ = False"

definition annots_value :: "pdf list \<Rightarrow> nat \<Rightarrow> pdf option" where
  "annots_value objs p = Option.bind (dict_part (objs ! p)) (\<lambda>kvs. map_of kvs ''/Annots'')"

definition clean_page :: "nat \<Rightarrow> pdf list \<Rightarrow> strip_error + pdf list" where
  "clean_page p objs =
     (case annots_value objs p of
        None \<Rightarrow> Inr objs
      | Some v \<Rightarrow>
          (if falsy v then Inr objs
           else (case v of
                   P_array as \<Rightarrow>
                     and_then (clean_annots as objs) (\<lambda>(as', objs').
                       Inr (objs'[p := with_dict (AList.update ''/Annots'' (P_array as')) (objs' ! p)]))
                 | P_ref i \<Rightarrow>
                     (case get_object objs v of
                        P_array as \<Rightarrow> and_then (clean_annots as objs) (\<lambda>(as', objs'). Inr (objs'[i := P_array as']))
                      | _ \<Rightarrow> Inl Parser_error)
                 | _ \<Rightarrow> Inl Parser_error)))"

fun clean_pages :: "nat list \<Rightarrow> pdf list \<Rightarrow> strip_error + pdf list" where
  "clean_pages [] objs = Inr objs"
| "clean_pages (p # ps) objs = and_then (clean_page p objs) (clean_pages ps)"


section \<open>Pictures\<close>

text \<open>
  \<open>last not in _PDF_IMAGE_STRIPPERS\<close>: a list or dictionary cannot be looked up; a reference can, and
  is never found.
\<close>

definition image_stripper :: "pdf \<Rightarrow> strip_error + (string \<times> (bytes \<Rightarrow> strip_error + bytes)) option" where
  "image_stripper v =
     (if children v \<noteq> None then Inl Parser_error
      else if reads_as ''/DCTDecode'' v then Inr (Some (''/DCTDecode'', Inr \<circ> strip_jpeg_segments))
      else if reads_as ''/JPXDecode'' v then Inr (Some (''/JPXDecode'', strip_jp2))
      else Inr None)"

definition last_filter :: "pdf \<Rightarrow> pdf" where
  "last_filter v = (case v of P_array xs \<Rightarrow> if xs = [] then v else last xs | _ \<Rightarrow> v)"

definition picture_dict :: "string \<Rightarrow> (string \<times> pdf) list \<Rightarrow> strip_error + (string \<times> pdf) list" where
  "picture_dict name kvs =
     (let kvs1 = AList.update ''/Filter'' (P_name name) kvs
      in case map_of kvs ''/DecodeParms'' of
           Some (P_array ps) \<Rightarrow>
             (if ps = [] then Inl Parser_error else Inr (AList.update ''/DecodeParms'' (last ps) kvs1))
         | _ \<Rightarrow> Inr kvs1)"

definition clean_stream :: "(pdf \<Rightarrow> strip_error + bytes) \<Rightarrow> pdf \<Rightarrow> strip_error + pdf" where
  "clean_stream get_data obj =
     (case obj of
        P_stream kvs _ \<Rightarrow>
          (case map_of kvs ''/Filter'' of
             None \<Rightarrow> Inr obj
           | Some v \<Rightarrow>
               and_then (image_stripper (last_filter v)) (\<lambda>found.
                 case found of
                   None \<Rightarrow> Inr obj
                 | Some (name, stripper) \<Rightarrow>
                     and_then (get_data obj) (\<lambda>raw. and_then (stripper raw) (\<lambda>cleaned.
                     and_then (picture_dict name kvs) (\<lambda>kvs1. Inr (P_stream kvs1 cleaned))))))
      | _ \<Rightarrow> Inr obj)"

fun clean_streams :: "(pdf \<Rightarrow> strip_error + bytes) \<Rightarrow> pdf list \<Rightarrow> strip_error + pdf list" where
  "clean_streams get_data [] = Inr []"
| "clean_streams get_data (x # xs) =
     and_then (clean_stream get_data x) (\<lambda>y. and_then (clean_streams get_data xs) (\<lambda>ys. Inr (y # ys)))"

section \<open>The file\<close>

definition clean_pdf_objects :: "(pdf \<Rightarrow> strip_error + bytes) \<Rightarrow> nat \<Rightarrow> nat list \<Rightarrow> pdf list \<Rightarrow> strip_error + pdf list" where
  "clean_pdf_objects get_data root pages objs =
     and_then (clean_objects [0..<length objs] objs) (\<lambda>objs1.
     and_then (clean_pages pages (drop_root_keys root objs1)) (clean_streams get_data))"

record pdf_library =
  pl_read :: "bytes \<Rightarrow> strip_error + pdf_doc"
  pl_data :: "pdf \<Rightarrow> strip_error + bytes"
  pl_write :: "string \<Rightarrow> nat \<Rightarrow> pdf list \<Rightarrow> strip_error + bytes"

definition strip_pdf_file :: "pdf_library \<Rightarrow> string \<Rightarrow> bytes \<Rightarrow> strip_error + bytes" where
  "strip_pdf_file pl fresh_id data =
     and_then (pl_read pl data) (\<lambda>doc.
     and_then (pdf_clone_cost doc MAX_PDF_ELEMENTS) (\<lambda>cost.
       if cost > MAX_PDF_ELEMENTS then Inl (Metadata_error ''PDF has too many objects to clean'')
       else and_then (clean_pdf_objects (pl_data pl) (pd_root doc) (pd_pages doc) (pd_objects doc)) (\<lambda>objs.
            and_then (pl_write pl fresh_id (pd_root doc) objs) (\<lambda>out.
              if sublist (bytes_of ''/ByteRange'') out then Inl (Metadata_error ''PDF signature could not be removed'')
              else Inr out))))"

section \<open>The budget is exact\<close>

lemma and_then_simps [simp]: "and_then (Inl e) k = Inl e" "and_then (Inr a) k = k a"
  by (simp_all add: and_then_def)

lemma and_then_Inr: "and_then x k = Inr b \<longleftrightarrow> (\<exists>a. x = Inr a \<and> k a = Inr b)"
  by (cases x) simp_all

text \<open>What the walk counts: the entries of all arrays and dictionaries reached without a reference.\<close>

definition entries :: "pdf \<Rightarrow> int" where "entries x = int (nodes x) - 1"

lemma entries_children:
  "children x = None \<Longrightarrow> entries x = 0"
  "children x = Some ys \<Longrightarrow> entries x = int (length ys) + sum_list (map entries ys)"
proof -
  show "children x = None \<Longrightarrow> entries x = 0" by (cases x) (simp_all add: entries_def)
  have "int (sum_list (map nodes ys)) = int (length ys) + sum_list (map entries ys)" for ys
    by (induction ys) (simp_all add: entries_def)
  then show "children x = Some ys \<Longrightarrow> entries x = int (length ys) + sum_list (map entries ys)"
    by (simp add: entries_def nodes_children)
qed

lemma entries_nonneg: "0 \<le> entries x"
  using nodes_pos [of x] by (simp add: entries_def)

lemma sum_entries_nonneg: "0 \<le> sum_list (map entries xs)"
  by (induction xs) (simp_all add: entries_nonneg)

lemma entries_loop_exact:
  "seen \<le> budget \<Longrightarrow>
   (if seen + sum_list (map entries stack) \<le> budget then entries_loop stack budget seen = seen + sum_list (map entries stack)
    else budget < entries_loop stack budget seen)"
proof (induction stack budget seen rule: entries_loop.induct)
  case (2 node stack budget seen)
  show ?case
  proof (cases "children node")
    case None
    with 2 show ?thesis by (simp add: entries_loop.simps entries_children)
  next
    case (Some ys)
    show ?thesis
    proof (cases "seen + int (length ys) > budget")
      case True
      then show ?thesis using Some sum_entries_nonneg [of ys] sum_entries_nonneg [of stack]
        by (simp add: entries_loop.simps entries_children(2) [OF Some] not_le)
    next
      case False
      have "sum_list (map entries (rev ys)) = sum_list (map entries ys)" by (simp add: rev_map [symmetric])
      then show ?thesis using 2(2) [OF Some False] False Some
        by (simp add: entries_loop.simps entries_children(2) [OF Some] algebra_simps)
    qed
  qed
qed (simp add: entries_loop.simps)

lemma cost_loop_exact:
  assumes "\<forall>x \<in> set objs. x \<noteq> None" "seen \<le> cap"
  shows "\<exists>n. cost_loop objs cap seen = Inr n \<and>
    (if seen + sum_list (map (\<lambda>x. 1 + entries (the x)) objs) \<le> cap
     then n = seen + sum_list (map (\<lambda>x. 1 + entries (the x)) objs) else cap < n)"
  using assms
proof (induction objs arbitrary: seen)
  case (Cons x objs)
  then obtain obj where x: "x = Some obj" by auto
  define seen1 where "seen1 = seen + 1 + entries_loop [obj] (cap - seen) 0"
  have e: "if entries obj \<le> cap - seen then entries_loop [obj] (cap - seen) 0 = entries obj
      else cap - seen < entries_loop [obj] (cap - seen) 0"
    using entries_loop_exact [of 0 "cap - seen" "[obj]"] Cons.prems(2) by simp
  have step: "cost_loop (x # objs) cap seen = (if seen1 > cap then Inr seen1 else cost_loop objs cap seen1)"
    by (simp add: x seen1_def Let_def)
  have rest: "0 \<le> sum_list (map (\<lambda>x. 1 + entries (the x)) objs)" 
    by (induction objs) (auto intro!: add_nonneg_nonneg entries_nonneg)
  show ?case
  proof (cases "seen1 > cap")
    case True
    then show ?thesis using e rest unfolding step by (auto simp: x seen1_def split: if_splits)
  next
    case False
    then have "seen1 = seen + 1 + entries obj" using e by (auto simp: seen1_def split: if_splits)
    with False Cons.IH [of seen1] Cons.prems(1) show ?thesis
      unfolding step by (auto simp: x algebra_simps split: if_splits)
  qed
qed simp

text \<open>
  The budget is exact: where every object can be parsed, a file is refused before the clone if and
  only if its objects and the entries of all their arrays and dictionaries, nested ones included,
  outnumber it, or its cross-reference table alone does; otherwise the count returned is that number.
\<close>

theorem pdf_budget_exact:
  assumes "\<forall>x \<in> set (pd_sources doc). x \<noteq> None" "0 \<le> cap"
  shows "\<exists>n. pdf_clone_cost doc cap = Inr n \<and>
    (let whole = sum_list (map (\<lambda>x. int (nodes (the x))) (pd_sources doc))
     in (cap < n \<longleftrightarrow> cap < int (pd_xref_count doc) \<or> cap < whole) \<and> (n \<le> cap \<longrightarrow> n = whole))"
proof -
  have "(\<lambda>x. 1 + entries (the x)) = (\<lambda>x. int (nodes (the x)))" by (simp add: entries_def fun_eq_iff)
  with cost_loop_exact [OF assms] show ?thesis
    by (auto simp: pdf_clone_cost_def Let_def split: if_splits)
qed
section \<open>What a clean document is without\<close>

text \<open>
  How an object may still change once it was cleaned: keys go, a name becomes \<open>Author\<close>, filters are
  replaced, and what is nested changes in the same way. No other key goes, and no content but a
  picture's.
\<close>

definition picture :: "pdf \<Rightarrow> bool" where
  "picture v \<longleftrightarrow> reads_as ''/DCTDecode'' (last_filter v) \<or> reads_as ''/JPXDecode'' (last_filter v)"

definition content :: "pdf \<Rightarrow> bytes option" where
  "content x =
     (case x of
        P_stream kvs data \<Rightarrow>
          (case map_of kvs ''/Filter'' of None \<Rightarrow> Some data | Some v \<Rightarrow> if picture v then None else Some data)
      | _ \<Rightarrow> None)"

definition REMOVED :: "string list" where
  "REMOVED = PRIVATE_KEYS @ [''/V'', ''/Perms'', ''/DSS'', ''/M'', ''/CreationDate'']"

inductive below :: "pdf \<Rightarrow> pdf \<Rightarrow> bool" where
  same: "below x x"
| array: "list_all2 below xs ys \<Longrightarrow> below (P_array xs) (P_array ys)"
| dict: "dict_part x = Some kx \<Longrightarrow> dict_part y = Some ky \<Longrightarrow>
    (\<And>k v. map_of ky k = Some v \<Longrightarrow> \<exists>u. map_of kx k = Some u \<and>
       (k \<in> {''/Filter'', ''/DecodeParms''} \<or> k = ''/T'' \<and> v = P_text ''Author'' \<or> below u v)) \<Longrightarrow>
    content y = content x \<Longrightarrow> (\<forall>k. map_of kx k \<noteq> None \<longrightarrow> map_of ky k = None \<longrightarrow> k \<in> set REMOVED) \<Longrightarrow> below x y"

definition all_below :: "pdf list \<Rightarrow> pdf list \<Rightarrow> bool" where
  "all_below objs objs' \<longleftrightarrow> list_all2 below objs objs'"

lemma below_dict:
  assumes "below x y" "dict_part x = Some kx"
  shows "\<exists>ky. dict_part y = Some ky \<and> (\<forall>k v. map_of ky k = Some v \<longrightarrow> (\<exists>u. map_of kx k = Some u \<and>
       (k \<in> {''/Filter'', ''/DecodeParms''} \<or> k = ''/T'' \<and> v = P_text ''Author'' \<or> below u v)))"
  using assms by (cases rule: below.cases) (auto intro: below.same)

lemma below_keeps: "below x y \<Longrightarrow> dict_part x = Some kx \<Longrightarrow> dict_part y = Some ky \<Longrightarrow> map_of kx k \<noteq> None \<Longrightarrow>
    map_of ky k = None \<Longrightarrow> k \<in> set REMOVED"
  by (cases rule: below.cases) auto

lemma below_content: "below x y \<Longrightarrow> content y = content x"
  by (cases rule: below.cases) (auto simp: content_def)

lemma below_leaf: "below x y \<Longrightarrow> dict_part x = None \<Longrightarrow> (\<forall>xs. x \<noteq> P_array xs) \<Longrightarrow> y = x"
  by (cases rule: below.cases) auto

lemma below_array: "below (P_array xs) y \<Longrightarrow> \<exists>ys. y = P_array ys \<and> list_all2 below xs ys"
  by (cases rule: below.cases) (auto intro: list_all2_refl below.same)

lemma below_array_right: "below x (P_array ys) \<Longrightarrow> \<exists>xs. x = P_array xs \<and> list_all2 below xs ys"
  by (cases rule: below.cases) (auto intro: list_all2_refl below.same)

lemma below_not_dict: "below x y \<Longrightarrow> dict_part x = None \<Longrightarrow> dict_part y = None"
  by (cases rule: below.cases) auto

lemma below_trans: "below x y \<Longrightarrow> below y z \<Longrightarrow> below x z"
proof (induction x y arbitrary: z rule: below.induct)
  case (array xs ys)
  obtain zs where z: "z = P_array zs" "list_all2 below ys zs" using below_array [OF array.prems] by blast
  have "list_all2 below xs zs"
    using array.IH z(2) by (rule list_all2_trans [rotated 1]) blast
  then show ?case by (simp add: z(1) below.array)
next
  case (dict x kx y ky)
  obtain kz where z: "dict_part z = Some kz" and kz: "\<And>k v. map_of kz k = Some v \<Longrightarrow> \<exists>u. map_of ky k = Some u \<and>
       (k \<in> {''/Filter'', ''/DecodeParms''} \<or> k = ''/T'' \<and> v = P_text ''Author'' \<or> below u v)"
    using below_dict [OF dict.prems dict.hyps(2)] by blast
  have "content z = content x" using below_content [OF dict.prems] dict.hyps by simp
  moreover have "\<forall>k. map_of kx k \<noteq> None \<longrightarrow> map_of kz k = None \<longrightarrow> k \<in> set REMOVED"
    using below_keeps [OF dict.prems dict.hyps(2) z] dict.hyps by (metis not_None_eq)
  ultimately show ?case
  proof (rule below.dict [OF dict.hyps(1) z, rotated 1])
    fix k v assume "map_of kz k = Some v"
    from kz [OF this] obtain u where u: "map_of ky k = Some u"
      "k \<in> {''/Filter'', ''/DecodeParms''} \<or> k = ''/T'' \<and> v = P_text ''Author'' \<or> below u v" by blast
    from dict.IH [OF u(1)] obtain t where t: "map_of kx k = Some t"
      "k \<in> {''/Filter'', ''/DecodeParms''} \<or> k = ''/T'' \<and> u = P_text ''Author'' \<or> below t u \<and> (\<forall>z. below u z \<longrightarrow> below t z)"
      by blast
    have "below (P_text ''Author'') v \<Longrightarrow> v = P_text ''Author''" using below_leaf by simp
    with t u(2) show "\<exists>u. map_of kx k = Some u \<and>
       (k \<in> {''/Filter'', ''/DecodeParms''} \<or> k = ''/T'' \<and> v = P_text ''Author'' \<or> below u v)" by blast
  qed
qed blast

lemma all_below_refl [simp]: "all_below objs objs"
  by (simp add: all_below_def list_all2_refl below.same)

lemma all_below_trans: "all_below a b \<Longrightarrow> all_below b c \<Longrightarrow> all_below a c"
  unfolding all_below_def by (rule list_all2_trans [of below below below]) (rule below_trans)

lemma all_below_length: "all_below a b \<Longrightarrow> length b = length a"
  by (simp add: all_below_def list_all2_lengthD)

lemma all_below_nth: "all_below a b \<Longrightarrow> i < length a \<Longrightarrow> below (a ! i) (b ! i)"
  by (simp add: all_below_def list_all2_nthD)

lemma all_below_update: "i < length a \<Longrightarrow> below (a ! i) x \<Longrightarrow> all_below a (a[i := x])"
  by (auto simp: all_below_def list_all2_conv_all_nth nth_list_update below.same)

lemma get_object_below:
  assumes "all_below objs objs'" "below v v'"
  shows "below (get_object objs v) (get_object objs' v')"
proof (cases "\<exists>i. v = P_ref i")
  case True
  then obtain i where "v = P_ref i" by blast
  moreover from this have "v' = P_ref i" using below_leaf [OF assms(2)] by simp
  ultimately show ?thesis
    using all_below_nth [OF assms(1), of i] all_below_length [OF assms(1)] by (auto simp: get_object_def below.same)
next
  case False
  then have "get_object objs v = v" by (auto simp: get_object_def split: pdf.splits)
  moreover have "get_object objs' v' = v'"
    using assms(2) False by (cases rule: below.cases) (auto simp: get_object_def split: pdf.splits)
  ultimately show ?thesis using assms(2) by simp
qed

text \<open>Popping keys, and the other changes, go below.\<close>

lemma map_of_pop: "map_of (pop_keys ks kvs) k = (if k \<in> set ks then None else map_of kvs k)"
  by (induction kvs) (auto simp: pop_keys_def)

lemma dict_part_with: "dict_part (with_dict f x) = map_option f (dict_part x)"
  by (cases x) simp_all

lemma below_with_dict:
  assumes "\<And>kvs k v. dict_part x = Some kvs \<Longrightarrow> map_of (f kvs) k = Some v \<Longrightarrow> \<exists>u. map_of kvs k = Some u \<and>
       (k \<in> {''/Filter'', ''/DecodeParms''} \<or> k = ''/T'' \<and> v = P_text ''Author'' \<or> below u v)"
    "\<And>kvs. dict_part x = Some kvs \<Longrightarrow> map_of (f kvs) ''/Filter'' = map_of kvs ''/Filter'' \<and>
       (\<forall>k. map_of kvs k \<noteq> None \<longrightarrow> map_of (f kvs) k = None \<longrightarrow> k \<in> set REMOVED)"
  shows "below x (with_dict f x)"
proof (cases "dict_part x")
  case None
  then have "with_dict f x = x" by (cases x) simp_all
  then show ?thesis by (simp add: below.same)
next
  case (Some kvs)
  have "content (with_dict f x) = content x" using assms(2) [OF Some] Some by (cases x) (simp_all add: content_def)
  then show ?thesis
    using assms(1) [OF Some] assms(2) [OF Some] by (intro below.dict [OF Some]) (auto simp: dict_part_with Some)
qed

lemma not_removed [simp]: "''/Filter'' \<notin> set REMOVED"
  by (simp add: REMOVED_def PRIVATE_KEYS_def)

lemma below_pop: "set ks \<subseteq> set REMOVED \<Longrightarrow> below x (with_dict (pop_keys ks) x)"
  using not_removed by (intro below_with_dict) (auto simp: map_of_pop below.same split: if_splits)
definition pure :: "pdf list \<Rightarrow> pdf \<Rightarrow> bool" where
  "pure objs x \<longleftrightarrow>
     (\<forall>kvs. dict_part x = Some kvs \<longrightarrow>
        (\<forall>k \<in> set PRIVATE_KEYS. map_of kvs k = None) \<and> \<not> carries_file kvs \<and>
        (\<forall>v. map_of kvs ''/V'' = Some v \<longrightarrow> \<not> signature objs v))"

definition nameless :: "pdf \<Rightarrow> bool" where
  "nameless a \<longleftrightarrow>
     (\<forall>kvs. dict_part a = Some kvs \<longrightarrow> map_of kvs ''/T'' \<in> {None, Some (P_text ''Author'')} \<and>
        map_of kvs ''/M'' = None \<and> map_of kvs ''/CreationDate'' = None)"

lemma below_leaf_right:
  assumes "below x y" "dict_part y = None" "\<forall>ys. y \<noteq> P_array ys"
  shows "x = y"
  using assms(1)
proof cases
  case same
  then show ?thesis by simp
qed (use assms(2,3) in simp_all)

lemma below_dict_right:
  assumes "below x y" "dict_part y = Some ky"
  obtains kx where "dict_part x = Some kx"
    "\<And>k v. map_of ky k = Some v \<Longrightarrow> \<exists>u. map_of kx k = Some u \<and>
       (k \<in> {''/Filter'', ''/DecodeParms''} \<or> k = ''/T'' \<and> v = P_text ''Author'' \<or> below u v)"
proof -
  obtain kx where "dict_part x = Some kx" using below_not_dict [OF assms(1)] assms(2) by fastforce
  with below_dict [OF assms(1) this] assms(2) that show thesis by auto
qed

lemma signature_below:
  assumes "all_below objs objs'" "below v v'" "signature objs' v'"
  shows "signature objs v"
proof -
  obtain ky where "dict_part (get_object objs' v') = Some ky" "map_of ky ''/ByteRange'' \<noteq> None"
    using assms(3) by (auto simp: signature_def split: option.splits)
  from below_dict_right [OF get_object_below [OF assms(1,2)] this(1)] this(2) obtain kx where
    "dict_part (get_object objs v) = Some kx" "map_of kx ''/ByteRange'' \<noteq> None"
    by (metis not_None_eq)
  then show ?thesis by (simp add: signature_def)
qed

lemma pure_below:
  assumes "pure objs x" "all_below objs objs'" "below x y"
  shows "pure objs' y"
  unfolding pure_def
proof (intro allI impI)
  fix ky assume ky: "dict_part y = Some ky"
  from below_dict_right [OF assms(3) this] obtain kx where kx: "dict_part x = Some kx"
    and keys: "\<And>k v. map_of ky k = Some v \<Longrightarrow> \<exists>u. map_of kx k = Some u \<and>
       (k \<in> {''/Filter'', ''/DecodeParms''} \<or> k = ''/T'' \<and> v = P_text ''Author'' \<or> below u v)" by blast
  have gone: "map_of kx k = None \<Longrightarrow> map_of ky k = None" for k using keys [of k] by (cases "map_of ky k") auto
  have p: "\<forall>k \<in> set PRIVATE_KEYS. map_of kx k = None" "\<not> carries_file kx"
    "\<And>v. map_of kx ''/V'' = Some v \<Longrightarrow> \<not> signature objs v"
    using assms(1) kx by (auto simp: pure_def)
  have "\<not> carries_file ky"
  proof
    assume "carries_file ky"
    moreover have "map_of ky ''/EF'' = None" using p(2) by (intro gone) (simp add: carries_file_def)
    ultimately obtain v where v: "map_of ky ''/Type'' = Some v" "reads_as ''/EmbeddedFile'' v"
      by (auto simp: carries_file_def split: option.splits)
    from keys [OF v(1)] obtain u where "map_of kx ''/Type'' = Some u" "below u v" by auto
    moreover from this(2) v(2) have "u = v" using below_leaf_right by (auto simp: reads_as_def)
    ultimately show False using p(2) v(2) by (simp add: carries_file_def)
  qed
  moreover have "\<not> signature objs' v" if "map_of ky ''/V'' = Some v" for v
    using keys [OF that] p(3) signature_below [OF assms(2)] by auto
  ultimately show "(\<forall>k \<in> set PRIVATE_KEYS. map_of ky k = None) \<and> \<not> carries_file ky \<and>
      (\<forall>v. map_of ky ''/V'' = Some v \<longrightarrow> \<not> signature objs' v)" using p(1) gone by blast
qed

lemma nameless_below:
  assumes "nameless a" "below a b"
  shows "nameless b"
  unfolding nameless_def
proof (intro allI impI)
  fix ky assume "dict_part b = Some ky"
  from below_dict_right [OF assms(2) this] obtain kx where kx: "dict_part a = Some kx"
    and keys: "\<And>k v. map_of ky k = Some v \<Longrightarrow> \<exists>u. map_of kx k = Some u \<and>
       (k \<in> {''/Filter'', ''/DecodeParms''} \<or> k = ''/T'' \<and> v = P_text ''Author'' \<or> below u v)" by blast
  have gone: "map_of kx k = None \<Longrightarrow> map_of ky k = None" for k using keys [of k] by (cases "map_of ky k") auto
  have "map_of ky ''/T'' \<in> {None, Some (P_text ''Author'')}"
  proof (cases "map_of ky ''/T''")
    case (Some v)
    from keys [OF Some] obtain u where "map_of kx ''/T'' = Some u" "v = P_text ''Author'' \<or> below u v" by auto
    moreover from this(1) have "u = P_text ''Author''" using assms(1) kx by (auto simp: nameless_def)
    ultimately show ?thesis using below_leaf Some by auto
  qed simp
  then show "map_of ky ''/T'' \<in> {None, Some (P_text ''Author'')} \<and> map_of ky ''/M'' = None \<and> map_of ky ''/CreationDate'' = None"
    using assms(1) kx gone by (auto simp: nameless_def)
qed

section \<open>The passes\<close>

lemma clean_object_pure:
  assumes "clean_object objs x = Inr y"
  shows "below x y \<and> (\<forall>kvs. dict_part y = Some kvs \<longrightarrow>
        (\<forall>k \<in> set PRIVATE_KEYS. map_of kvs k = None) \<and> \<not> carries_file kvs \<and>
        (\<forall>v. map_of kvs ''/V'' = Some v \<longrightarrow> \<not> signature objs v))"
proof (cases "dict_part x")
  case None
  with assms show ?thesis by (simp add: clean_object_def below.same)
next
  case (Some kvs)
  define gone where "gone = PRIVATE_KEYS @ (case map_of kvs ''/V'' of Some v \<Rightarrow> if signature objs v then [''/V''] else [] | None \<Rightarrow> [])"
  have y: "y = with_dict (pop_keys gone) x" and c: "\<not> carries_file kvs"
    using assms Some by (simp_all add: clean_object_def gone_def split: if_splits)
  have gone: "set PRIVATE_KEYS \<subseteq> set gone" "set gone \<subseteq> set REMOVED"
    "\<And>v. map_of kvs ''/V'' = Some v \<Longrightarrow> signature objs v \<Longrightarrow> ''/V'' \<in> set gone"
    by (auto simp: gone_def REMOVED_def split: option.splits if_splits)
  have "\<not> carries_file (pop_keys gone kvs)"
    using c by (auto simp: carries_file_def map_of_pop split: option.splits if_splits)
  then show ?thesis using Some gone below_pop by (auto simp: y dict_part_with map_of_pop split: if_splits)
qed

lemma clean_objects_pure:
  assumes "clean_objects is objs = Inr objs'" "\<forall>i \<in> set is. i < length objs"
  shows "all_below objs objs' \<and> (\<forall>i \<in> set is. pure objs' (objs' ! i))"
  using assms
proof (induction "is" arbitrary: objs)
  case (Cons i "is")
  obtain x where x: "clean_object objs (objs ! i) = Inr x" and rest: "clean_objects is (objs[i := x]) = Inr objs'"
    using Cons.prems(1) by (auto simp: and_then_Inr)
  have i: "i < length objs" using Cons.prems(2) by simp
  note c = clean_object_pure [OF x]
  have b: "all_below objs (objs[i := x])" using c i by (intro all_below_update) auto
  have ih: "all_below (objs[i := x]) objs'" "\<forall>j \<in> set is. pure objs' (objs' ! j)"
    using Cons.IH [OF rest] Cons.prems(2) by auto
  have "pure objs x" using c by (simp add: pure_def)
  then have "pure (objs[i := x]) x" using pure_below [OF _ b below.same] by blast
  moreover have "below x (objs' ! i)" using all_below_nth [OF ih(1), of i] i by simp
  ultimately have "pure objs' (objs' ! i)" by (rule pure_below [OF _ ih(1)])
  with ih b show ?case using all_below_trans by auto
qed simp

lemma drop_root_keys_below: "root < length objs \<Longrightarrow> all_below objs (drop_root_keys root objs)"
  by (simp add: drop_root_keys_def all_below_update below_pop REMOVED_def)

lemma update_keys: "map_of (AList.update k v kvs) j = (if j = k then Some v else map_of kvs j)"
  by (simp add: update_conv)

lemma clean_annot_nameless:
  assumes "clean_annot a = Inr x"
  shows "below a x \<and> nameless x"
proof -
  obtain kvs where kvs: "dict_part a = Some kvs" using assms by (auto simp: clean_annot_def split: option.splits)
  define kvs1 where "kvs1 = (if map_of kvs ''/T'' \<noteq> None then AList.update ''/T'' (P_text ''Author'') kvs else kvs)"
  have x: "x = with_dict (\<lambda>_. pop_keys [''/M'', ''/CreationDate''] kvs1) a"
    using assms kvs by (simp add: clean_annot_def kvs1_def Let_def)
  have "below a x" unfolding x
    by (rule below_with_dict) (use kvs in \<open>auto simp: map_of_pop kvs1_def update_keys below.same REMOVED_def split: if_splits\<close>)
  moreover have "nameless x" using kvs by (auto simp: x nameless_def dict_part_with map_of_pop kvs1_def update_keys)
  ultimately show ?thesis by blast
qed
definition annots_of :: "pdf list \<Rightarrow> nat \<Rightarrow> pdf list" where
  "annots_of objs p =
     (case annots_value objs p of
        None \<Rightarrow> [] | Some v \<Rightarrow> (case get_object objs v of P_array as \<Rightarrow> as | _ \<Rightarrow> []))"

definition annots_clean :: "pdf list \<Rightarrow> nat \<Rightarrow> bool" where
  "annots_clean objs p \<longleftrightarrow> (\<forall>a \<in> set (annots_of objs p). nameless (get_object objs a))"

lemma clean_annot_dict: "clean_annot a = Inr x \<Longrightarrow> (\<exists>kvs. dict_part a = Some kvs) \<and>
    Option.bind (dict_part x) (\<lambda>kvs. map_of kvs ''/Annots'') = Option.bind (dict_part a) (\<lambda>kvs. map_of kvs ''/Annots'')"
  by (auto simp: clean_annot_def Let_def dict_part_with map_of_pop update_keys split: option.splits)

lemma get_object_dict: "dict_part a = Some kvs \<Longrightarrow> get_object objs a = a"
  by (cases a) (simp_all add: get_object_def)

lemma clean_annots_nameless:
  assumes "clean_annots as objs = Inr (as', objs')"
  shows "all_below objs objs' \<and> list_all2 below as as' \<and> (\<forall>a \<in> set as'. nameless (get_object objs' a)) \<and>
    (\<forall>q < length objs. annots_value objs' q = annots_value objs q \<and> (dict_part (objs ! q) = None \<longrightarrow> objs' ! q = objs ! q))"
  using assms
proof (induction as arbitrary: objs as')
  case (Cons a as)
  show ?case
  proof (cases "\<exists>i. a = P_ref i")
    case True
    then obtain i where a: "a = P_ref i" by blast
    then obtain x as1 where i: "i < length objs" and x: "clean_annot (objs ! i) = Inr x"
      and rest: "clean_annots as (objs[i := x]) = Inr (as1, objs')" and as': "as' = P_ref i # as1"
      using Cons.prems by (auto simp: and_then_Inr split: if_splits)
    note c = clean_annot_nameless [OF x] and cd = clean_annot_dict [OF x]
    have b: "all_below objs (objs[i := x])" using c i by (intro all_below_update) auto
    note ih = Cons.IH [OF rest]
    have "below x (objs' ! i)" using all_below_nth [OF conjunct1 [OF ih], of i] i by simp
    then have "nameless (objs' ! i)" using c nameless_below by blast
    then have "nameless (get_object objs' a)"
      using i all_below_length [OF b] all_below_length [OF conjunct1 [OF ih]] by (simp add: a get_object_def)
    moreover have "annots_value objs' q = annots_value objs q \<and> (dict_part (objs ! q) = None \<longrightarrow> objs' ! q = objs ! q)"
      if "q < length objs" for q
      using ih cd that by (cases "q = i") (auto simp: annots_value_def)
    ultimately show ?thesis using ih all_below_trans [OF b] by (simp add: as' a below.same)
  next
    case False
    then obtain x as1 where x: "clean_annot a = Inr x" and rest: "clean_annots as objs = Inr (as1, objs')" and as': "as' = x # as1"
      using Cons.prems by (cases a) (auto simp: and_then_Inr)
    note c = clean_annot_nameless [OF x]
    obtain kvs where "dict_part x = Some kvs" using clean_annot_dict [OF x] c below_dict by blast
    then have "get_object objs' x = x" by (rule get_object_dict)
    then show ?thesis using Cons.IH [OF rest] c by (simp add: as')
  qed
qed simp

lemma annots_clean_below:
  assumes "annots_clean objs p" "all_below objs objs'" "p < length objs"
  shows "annots_clean objs' p"
  unfolding annots_clean_def
proof
  fix a' assume a': "a' \<in> set (annots_of objs' p)"
  obtain v' as' where v': "annots_value objs' p = Some v'" and as': "get_object objs' v' = P_array as'" "a' \<in> set as'"
  proof (cases "annots_value objs' p")
    case (Some v')
    with a' that show thesis by (cases "get_object objs' v'") (auto simp: annots_of_def)
  qed (use a' in \<open>simp add: annots_of_def\<close>)
  obtain ky where ky: "dict_part (objs' ! p) = Some ky" "map_of ky ''/Annots'' = Some v'"
    using v' by (auto simp: annots_value_def bind_eq_Some_conv)
  from below_dict_right [OF all_below_nth [OF assms(2,3)] ky(1)] obtain kx where kx: "dict_part (objs ! p) = Some kx"
    and keys: "\<And>k v. map_of ky k = Some v \<Longrightarrow> \<exists>u. map_of kx k = Some u \<and>
       (k \<in> {''/Filter'', ''/DecodeParms''} \<or> k = ''/T'' \<and> v = P_text ''Author'' \<or> below u v)" by blast
  from keys [OF ky(2)] obtain v where v: "map_of kx ''/Annots'' = Some v" "below v v'" by auto
  have "below (get_object objs v) (P_array as')" using get_object_below [OF assms(2) v(2)] as'(1) by simp
  from below_array_right [OF this] obtain as where as: "get_object objs v = P_array as" "list_all2 below as as'" by blast
  obtain a where a: "a \<in> set as" "below a a'"
    using as(2) as'(2) by (metis in_set_conv_nth list_all2_conv_all_nth)
  have "a \<in> set (annots_of objs p)" using kx v(1) as(1) a(1) by (simp add: annots_of_def annots_value_def)
  then have "nameless (get_object objs a)" using assms(1) by (simp add: annots_clean_def)
  then show "nameless (get_object objs' a')" by (rule nameless_below) (rule get_object_below [OF assms(2) a(2)])
qed
lemma clean_page_annots:
  assumes "clean_page p objs = Inr objs'" "p < length objs"
  shows "all_below objs objs' \<and> annots_clean objs' p"
proof (cases "annots_value objs p")
  case None
  then show ?thesis using assms(1) by (simp add: clean_page_def annots_clean_def annots_of_def)
next
  case (Some v)
  show ?thesis
  proof (cases "falsy v")
    case True
    then have "annots_of objs p = []" using Some by (cases v) (simp_all add: annots_of_def get_object_def)
    then show ?thesis using assms(1) Some True by (simp add: clean_page_def annots_clean_def)
  next
    case False
    obtain kvs where kvs: "dict_part (objs ! p) = Some kvs" using Some by (auto simp: annots_value_def bind_eq_Some_conv)
    consider as where "v = P_array as" | i as where "v = P_ref i" "get_object objs v = P_array as"
      using assms(1) Some False by (cases v; cases "get_object objs v") (auto simp: clean_page_def)
    then show ?thesis
    proof cases
      case 1
      then obtain as' objs1 where run: "clean_annots as objs = Inr (as', objs1)"
        and objs': "objs' = objs1[p := with_dict (AList.update ''/Annots'' (P_array as')) (objs1 ! p)]"
        using assms(1) Some False by (auto simp: clean_page_def and_then_Inr)
      note c = clean_annots_nameless [OF run]
      have p: "p < length objs1" using assms(2) all_below_length [OF conjunct1 [OF c]] by simp
      have v1: "annots_value objs1 p = Some (P_array as)" using c assms(2) Some 1 by simp
      have "below (objs1 ! p) (with_dict (AList.update ''/Annots'' (P_array as')) (objs1 ! p))"
        using v1 below.array [of as as'] c
        by (intro below_with_dict) (auto simp: update_keys annots_value_def below.same split: if_splits)
      then have b: "all_below objs1 objs'" unfolding objs' using p by (rule all_below_update [rotated])
      obtain k1 where "dict_part (objs1 ! p) = Some k1" using v1 by (auto simp: annots_value_def bind_eq_Some_conv)
      then have "annots_of objs' p = as'"
        using p by (simp add: objs' annots_of_def annots_value_def dict_part_with update_keys get_object_def)
      moreover have "nameless (get_object objs' a)" if "a \<in> set as'" for a
        using c that nameless_below [OF _ get_object_below [OF b below.same]] by blast
      ultimately show ?thesis using all_below_trans [OF conjunct1 [OF c] b] by (simp add: annots_clean_def)
    next
      case 2
      then obtain as' objs1 where run: "clean_annots as objs = Inr (as', objs1)" and objs': "objs' = objs1[i := P_array as']"
        using assms(1) Some False by (auto simp: clean_page_def and_then_Inr)
      note c = clean_annots_nameless [OF run]
      have len: "length objs1 = length objs" by (rule all_below_length [OF conjunct1 [OF c]])
      have i: "i < length objs" "objs ! i = P_array as" using 2 by (auto simp: get_object_def split: if_splits)
      then have i1: "objs1 ! i = P_array as" using c by simp
      then have "p \<noteq> i" using i kvs by auto
      have b: "all_below objs1 objs'" unfolding objs'
        using i i1 len c below.array [of as as'] by (intro all_below_update) auto
      have "annots_value objs' p = Some (P_ref i)" using c assms(2) Some 2 \<open>p \<noteq> i\<close> by (simp add: objs' annots_value_def)
      then have "annots_of objs' p = as'" using i len by (simp add: annots_of_def get_object_def objs')
      moreover have "nameless (get_object objs' a)" if "a \<in> set as'" for a
        using c that nameless_below [OF _ get_object_below [OF b below.same]] by blast
      ultimately show ?thesis using all_below_trans [OF conjunct1 [OF c] b] by (simp add: annots_clean_def)
    qed
  qed
qed

lemma clean_pages_annots:
  assumes "clean_pages ps objs = Inr objs'" "\<forall>p \<in> set ps. p < length objs"
  shows "all_below objs objs' \<and> (\<forall>p \<in> set ps. annots_clean objs' p)"
  using assms
proof (induction ps arbitrary: objs)
  case (Cons p ps)
  obtain objs1 where 1: "clean_page p objs = Inr objs1" and rest: "clean_pages ps objs1 = Inr objs'"
    using Cons.prems(1) by (auto simp: and_then_Inr)
  note c = clean_page_annots [OF 1]
  have p: "p < length objs" using Cons.prems(2) by simp
  then have len: "length objs1 = length objs" using c all_below_length by blast
  have ih: "all_below objs1 objs'" "\<forall>q \<in> set ps. annots_clean objs' q"
    using Cons.IH [OF rest] Cons.prems(2) len by auto
  then show ?case using c p len annots_clean_below [OF _ ih(1), of p] all_below_trans by auto
qed simp

text \<open>A stream whose filters end in a picture's holds what the picture's cleaner made of it.\<close>

definition clean_picture :: "pdf \<Rightarrow> bool" where
  "clean_picture x \<longleftrightarrow>
     (\<forall>kvs data v. x = P_stream kvs data \<longrightarrow> map_of kvs ''/Filter'' = Some v \<longrightarrow>
        (reads_as ''/DCTDecode'' (last_filter v) \<longrightarrow> (\<exists>raw. data = strip_jpeg_segments raw)) \<and>
        (reads_as ''/JPXDecode'' (last_filter v) \<longrightarrow> (\<exists>raw. strip_jp2 raw = Inr data)))"

lemma image_stripper_found:
  assumes "image_stripper (last_filter v) = Inr (Some (name, stripper))"
  shows "picture v \<and> (name = ''/DCTDecode'' \<and> stripper = Inr \<circ> strip_jpeg_segments \<or> name = ''/JPXDecode'' \<and> stripper = strip_jp2)"
  using assms by (auto simp: image_stripper_def picture_def split: if_splits)

lemma image_stripper_none: "image_stripper (last_filter v) = Inr None \<Longrightarrow> \<not> picture v"
  by (auto simp: image_stripper_def picture_def split: if_splits)

lemma picture_dict_keys:
  assumes "picture_dict name kvs = Inr ky"
  shows "map_of ky ''/Filter'' = Some (P_name name) \<and>
    (map_of ky ''/DecodeParms'' = None \<longleftrightarrow> map_of kvs ''/DecodeParms'' = None) \<and>
    (\<forall>k. k \<notin> {''/Filter'', ''/DecodeParms''} \<longrightarrow> map_of ky k = map_of kvs k)"
proof (cases "\<exists>ps. map_of kvs ''/DecodeParms'' = Some (P_array ps)")
  case True
  then show ?thesis using assms by (auto simp: picture_dict_def Let_def update_keys split: if_splits)
next
  case False
  then have "ky = AList.update ''/Filter'' (P_name name) kvs"
    using assms by (auto simp: picture_dict_def Let_def split: option.splits pdf.splits)
  then show ?thesis by (simp add: update_keys)
qed

lemma clean_stream_picture:
  assumes "clean_stream get_data x = Inr y"
  shows "below x y \<and> clean_picture y"
proof (cases "\<exists>kvs data v. x = P_stream kvs data \<and> map_of kvs ''/Filter'' = Some v \<and> picture v")
  case True
  then obtain kvs data v where x: "x = P_stream kvs data" "map_of kvs ''/Filter'' = Some v" "picture v" by blast
  obtain found where found: "image_stripper (last_filter v) = Inr found"
    using assms x by (auto simp: clean_stream_def and_then_Inr)
  then obtain name stripper where n: "image_stripper (last_filter v) = Inr (Some (name, stripper))"
    using x(3) image_stripper_none by (cases found) auto
  obtain raw cleaned ky where cl: "stripper raw = Inr cleaned" and y: "y = P_stream ky cleaned"
    and pd: "picture_dict name kvs = Inr ky"
    using assms x n by (auto simp: clean_stream_def and_then_Inr)
  note ky = picture_dict_keys [OF pd]
  note f = image_stripper_found [OF n]
  have "picture (P_name name)" using f by (auto simp: picture_def last_filter_def reads_as_def)
  then have c: "content y = content x" using x ky by (simp add: content_def y)
  have "below x y"
  proof (rule below.dict [of x kvs y ky])
    show "\<exists>u. map_of kvs k = Some u \<and>
       (k \<in> {''/Filter'', ''/DecodeParms''} \<or> k = ''/T'' \<and> w = P_text ''Author'' \<or> below u w)" if "map_of ky k = Some w" for k w
    proof (cases "k \<in> {''/Filter'', ''/DecodeParms''}")
      case True
      then consider "k = ''/Filter''" | "k = ''/DecodeParms''" by blast
      then have "map_of kvs k \<noteq> None"
      proof cases
        case 1
        then show ?thesis using x(2) by simp
      next
        case 2
        then show ?thesis using conjunct1 [OF conjunct2 [OF ky]] that by simp
      qed
      with True show ?thesis by blast
    next
      case False
      then have "map_of kvs k = Some w" using ky that by simp
      then show ?thesis using below.same by blast
    qed
    show "\<forall>k. map_of kvs k \<noteq> None \<longrightarrow> map_of ky k = None \<longrightarrow> k \<in> set REMOVED"
    proof (intro allI impI)
      fix k assume k: "map_of kvs k \<noteq> None" "map_of ky k = None"
      have "k \<noteq> ''/Filter''" using k(2) conjunct1 [OF ky] by force
      moreover have "k \<noteq> ''/DecodeParms''" using k conjunct1 [OF conjunct2 [OF ky]] by metis
      ultimately have "map_of ky k = map_of kvs k" using conjunct2 [OF conjunct2 [OF ky]] by blast
      with k show "k \<in> set REMOVED" by simp
    qed
  qed (use x c in \<open>simp_all add: y\<close>)
  moreover have "clean_picture y"
  proof -
    have lf: "reads_as s (last_filter (P_name name)) \<longleftrightarrow> name = s" for s
      by (simp add: last_filter_def reads_as_def)
    have made: "(name = ''/DCTDecode'' \<longrightarrow> (\<exists>raw. cleaned = strip_jpeg_segments raw)) \<and>
        (name = ''/JPXDecode'' \<longrightarrow> (\<exists>raw. strip_jp2 raw = Inr cleaned))"
      using conjunct2 [OF f]
    proof
      assume d: "name = ''/DCTDecode'' \<and> stripper = Inr \<circ> strip_jpeg_segments"
      then have "strip_jpeg_segments raw = cleaned" using cl by simp
      with d show ?thesis by auto
    next
      assume "name = ''/JPXDecode'' \<and> stripper = strip_jp2"
      with cl show ?thesis by auto
    qed
    show ?thesis
      unfolding clean_picture_def y pdf.inject using made conjunct1 [OF ky] by (metis lf option.inject)
  qed
  ultimately show ?thesis by blast
next
  case False
  have "y = x"
  proof (cases "\<exists>kvs data v. x = P_stream kvs data \<and> map_of kvs ''/Filter'' = Some v")
    case True
    then obtain kvs data v where x: "x = P_stream kvs data" "map_of kvs ''/Filter'' = Some v" by blast
    then obtain found where found: "image_stripper (last_filter v) = Inr found"
      using assms by (auto simp: clean_stream_def and_then_Inr)
    have "found = None"
    proof (cases found)
      case (Some ns)
      then show ?thesis using image_stripper_found [of v "fst ns" "snd ns"] found False x by auto
    qed
    then show ?thesis using assms x found by (simp add: clean_stream_def)
  next
    case False
    then show ?thesis using assms by (cases x) (auto simp: clean_stream_def split: option.splits)
  qed
  then show ?thesis using False by (auto simp: below.same clean_picture_def picture_def)
qed

lemma clean_streams_pictures:
  "clean_streams get_data objs = Inr objs' \<Longrightarrow> all_below objs objs' \<and> (\<forall>x \<in> set objs'. clean_picture x)"
  by (induction objs arbitrary: objs') (auto simp: and_then_Inr all_below_def dest: clean_stream_picture)
section \<open>What the cleaner promises\<close>

section \<open>Examples\<close>

definition plain_data :: "pdf \<Rightarrow> strip_error + bytes" where
  "plain_data x = (case x of P_stream _ data \<Rightarrow> Inr data | _ \<Rightarrow> Inl Parser_error)"

definition named_pdf :: "pdf list" where
  "named_pdf =
     [P_dict [(''/Metadata'', P_ref 2), (''/Perms'', P_null), (''/Pages'', P_ref 1)],
      P_dict [(''/Annots'', P_array [P_ref 3]), (''/Contents'', P_ref 4)],
      P_stream [(''/Type'', P_name ''/Metadata'')] [77],
      P_dict [(''/T'', P_text ''Max''), (''/M'', P_text ''D:2026'')],
      P_stream [] [66, 84]]"

lemma named_pdf_cleaned:
  "clean_pdf_objects plain_data 0 [1] named_pdf =
     Inr [P_dict [(''/Pages'', P_ref 1)],
       P_dict [(''/Annots'', P_array [P_ref 3]), (''/Contents'', P_ref 4)],
       P_stream [(''/Type'', P_name ''/Metadata'')] [77], P_dict [(''/T'', P_text ''Author'')], P_stream [] [66, 84]]"
  by code_simp


theorem pdf_budget_exact_witness:
  "\<exists>n. pdf_clone_cost \<lparr>pd_xref_count = 1, pd_sources = [Some (P_dict [(''/K'', P_array [P_null, P_null])])],
      pd_objects = [], pd_root = 0, pd_pages = []\<rparr> 3 = Inr n \<and> 3 < n"
proof -
  let ?doc = "\<lparr>pd_xref_count = 1, pd_sources = [Some (P_dict [(''/K'', P_array [P_null, P_null])])],
      pd_objects = [], pd_root = 0, pd_pages = []\<rparr>"
  have "\<forall>x \<in> set (pd_sources ?doc). x \<noteq> None" by simp
  from pdf_budget_exact [OF this, of 3] show ?thesis by (auto simp: Let_def)
qed

text \<open>
  Two ways past the cleaner. A file specification written directly where it is used is no object of its
  own, and an embedded file need not say \<open>/Type\<close>: the document passes with the file in it. A filter
  given by reference is not looked through: the picture stays as it was, metadata and all.
\<close>

lemma direct_file_passes:
  "clean_pdf_objects plain_data 0 []
     [P_dict [(''/Names'', P_dict [(''/EmbeddedFiles'', P_dict [(''/Names'',
        P_array [P_text ''cv'', P_dict [(''/EF'', P_dict [(''/F'', P_ref 1)])]])])])],
      P_stream [] [80, 75, 3, 4]] =
   Inr [P_dict [(''/Names'', P_dict [(''/EmbeddedFiles'', P_dict [(''/Names'',
        P_array [P_text ''cv'', P_dict [(''/EF'', P_dict [(''/F'', P_ref 1)])]])])])],
      P_stream [] [80, 75, 3, 4]]"
  by code_simp

lemma indirect_filter_passes:
  "clean_pdf_objects plain_data 0 []
     [P_dict [], P_stream [(''/Filter'', P_ref 2)] [0xFF, 0xD8, 0xFF, 0xE1, 0, 3, 71, 0xFF, 0xD9], P_name ''/DCTDecode''] =
   Inr [P_dict [], P_stream [(''/Filter'', P_ref 2)] [0xFF, 0xD8, 0xFF, 0xE1, 0, 3, 71, 0xFF, 0xD9], P_name ''/DCTDecode'']"
  by code_simp

end
