(* ===== verification/Audit_Pages.thy ===== *)
theory Audit_Pages
  imports Case_Handling Attachment_Store Json
begin

text \<open>
  The audit-log page and its CSV export (\<open>audit_log_page\<close>, \<open>audit_log_csv\<close> and their helpers in
  \<open>app/api/admin.py\<close>, \<open>audit_detail\<close> in \<open>app/templating.py\<close>): the filters a query string asks for, a
  page of entries, and the rows of the export, whose cells no spreadsheet takes for a formula. The
  translation of a key and the text of a JSON object are arguments; quoting cells is \<open>csv\<close>'s.
\<close>

section \<open>Query strings\<close>

text \<open>The fields \<open>request.query_params.get\<close> reads, one value for each.\<close>

type_synonym params = "(string \<times> string) list"

definition param :: "params \<Rightarrow> string \<Rightarrow> string \<Rightarrow> string" where
  "param qp k default_text = (case map_of qp k of None \<Rightarrow> default_text | Some v \<Rightarrow> v)"

text \<open>\<open>int(s)\<close>: white space around, a sign, digits in groups joined by underscores, 4300 at most.\<close>

fun digit_groups :: "string \<Rightarrow> string list" where
  "digit_groups [] = [[]]"
| "digit_groups (c # cs) =
     (if c = CHR ''_'' then [] # digit_groups cs else (c # hd (digit_groups cs)) # tl (digit_groups cs))"

definition decimal :: "char \<Rightarrow> bool" where
  "decimal c \<longleftrightarrow> (let n = of_char c :: nat in 48 \<le> n \<and> n \<le> 57)"

definition read_int :: "string \<Rightarrow> int option" where
  "read_int s =
     (let t = strip s;
          negative = (t \<noteq> [] \<and> hd t = CHR ''-'');
          signed_text = (t \<noteq> [] \<and> (hd t = CHR ''-'' \<or> hd t = CHR ''+''));
          groups = digit_groups (if signed_text then tl t else t);
          ds = concat groups
      in if list_all (\<lambda>g. g \<noteq> [] \<and> list_all decimal g) groups \<and> length ds \<le> 4300
         then (let n = foldl (\<lambda>a c. 10 * a + (of_char c - 48)) 0 ds in Some (if negative then - n else n))
         else None)"

definition page_param :: "params \<Rightarrow> int" where
  "page_param qp = (case read_int (param qp ''page'' ''1'') of None \<Rightarrow> 1 | Some n \<Rightarrow> max 1 n)"

section \<open>Filters\<close>

definition REPORT_VIEWED :: string where "REPORT_VIEWED = ''report.viewed''"
definition AUDIT_EXPORTED :: string where "AUDIT_EXPORTED = ''audit.exported''"

definition views_excluded :: "bool \<Rightarrow> string" where
  "views_excluded show_views = (if show_views then [] else REPORT_VIEWED)"

text \<open>A report named by its id or its case number; the nil UUID is no report's.\<close>

definition wanted_report :: "db \<Rightarrow> params \<Rightarrow> uuid option" where
  "wanted_report d qp =
     (let wanted = strip (param qp ''report_id'' []) in
      if wanted = [] then None
      else (case parse_uuid wanted of
              Some i \<Rightarrow> Some i
            | None \<Rightarrow> (case get_report_by_case_number d (upper wanted) of
                        Some r \<Rightarrow> Some (rep_id r) | None \<Rightarrow> Some 0)))"

definition audit_filters :: "settings \<Rightarrow> db \<Rightarrow> user \<Rightarrow> params \<Rightarrow> audit_query" where
  "audit_filters cfg d u qp =
     (let action = param qp ''action'' [];
          show_views = (param qp ''views'' [] = ''1'' \<or> action = REPORT_VIEWED)
      in \<lparr>aq_report = wanted_report d qp, aq_action = action, aq_admin = None, aq_exclude = views_excluded show_views,
          aq_scope_org = fst (org_scope cfg u), aq_org = snd (org_scope cfg u), aq_viewer = Some (usr_id u)\<rparr>)"

section \<open>The page\<close>

record audit_page =
  ap_entries :: "audit_entry list"
  ap_case_numbers :: "(uuid \<times> string) list"
  ap_total :: int
  ap_page :: int
  ap_total_pages :: int
  ap_export :: params

definition export_query :: "params \<Rightarrow> params" where
  "export_query qp =
     filter (\<lambda>p. snd p \<noteq> [])
       [(''action'', param qp ''action'' []), (''report_id'', param qp ''report_id'' []),
        (''views'', if param qp ''views'' [] = ''1'' then ''1'' else [])]"

definition case_numbers :: "db \<Rightarrow> audit_entry list \<Rightarrow> (uuid \<times> string) list" where
  "case_numbers d xs =
     map (\<lambda>r. (rep_id r, rep_case_number r))
       (filter (\<lambda>r. Some (rep_id r) \<in> set (map aud_report xs)) (db_reports d))"

definition audit_log_page :: "env \<Rightarrow> db \<Rightarrow> user \<Rightarrow> params \<Rightarrow> refusal + audit_page" where
  "audit_log_page e d u qp =
     on_ok (require_admin u) (\<lambda>u.
       let page = page_param qp;
           (entries, total) = get_audit_log d (audit_filters (env_cfg e) d u qp) page (Some 50)
       in Inr \<lparr>ap_entries = entries, ap_case_numbers = case_numbers d entries, ap_total = total, ap_page = page,
               ap_total_pages = max 1 ((total + 49) div 50), ap_export = export_query qp\<rparr>)"

section \<open>Details\<close>

definition REASON_UNREADABLE :: string where "REASON_UNREADABLE = ''audit.detail.reason_unreadable''"

definition ENCRYPTED_DETAIL_KEYS :: "string list" where "ENCRYPTED_DETAIL_KEYS = [''reason'', ''term'']"

definition detail_value :: "crypto \<Rightarrow> settings \<Rightarrow> bool \<Rightarrow> string \<Rightarrow> string \<Rightarrow> string" where
  "detail_value cr cfg decrypting key v =
     (if decrypting \<and> key \<in> set ENCRYPTED_DETAIL_KEYS \<and> starts_with ''gAAAAA'' v
      then (case decrypt_or_none cr cfg (Some v) of
              Some m \<Rightarrow> if m = [] then REASON_UNREADABLE else m | None \<Rightarrow> REASON_UNREADABLE)
      else v)"

definition audit_detail :: "crypto \<Rightarrow> settings \<Rightarrow> detail option \<Rightarrow> bool \<Rightarrow> detail" where
  "audit_detail cr cfg raw decrypting =
     (case raw of None \<Rightarrow> [] | Some kvs \<Rightarrow> map (\<lambda>(k, v). (k, detail_value cr cfg decrypting k v)) kvs)"

definition csv_detail_value :: "(string \<Rightarrow> string) \<Rightarrow> string \<Rightarrow> string \<Rightarrow> string" where
  "csv_detail_value t key v =
     (if v = REASON_UNREADABLE then t v
      else (let label_key = ''audit.detail.via.'' @ v
            in if key = ''via'' \<and> t label_key \<noteq> label_key then t label_key else v))"

definition csv_detail :: "crypto \<Rightarrow> settings \<Rightarrow> (detail \<Rightarrow> string) \<Rightarrow> (string \<Rightarrow> string) \<Rightarrow> detail option \<Rightarrow> string" where
  "csv_detail cr cfg dumps t raw =
     (case raw of
        None \<Rightarrow> []
      | Some _ \<Rightarrow> dumps (map (\<lambda>(k, v). (k, csv_detail_value t k v)) (audit_detail cr cfg raw True)))"

section \<open>The export\<close>

definition FORMULA_CHARS :: "char list" where
  "FORMULA_CHARS = [CHR ''='', CHR ''+'', CHR ''-'', CHR 0x40, CHR 0x09, CHR 0x0D]"

definition csv_cell :: "string \<Rightarrow> string" where
  "csv_cell v = (if v \<noteq> [] \<and> hd v \<in> set FORMULA_CHARS then CHR 0x27 # v else v)"

definition csv_row :: "env \<Rightarrow> (detail \<Rightarrow> string) \<Rightarrow> (string \<Rightarrow> string) \<Rightarrow> (moment \<Rightarrow> string) \<Rightarrow> audit_entry \<Rightarrow> string list" where
  "csv_row e dumps t stamp x =
     (let label_key = ''audit.action.'' @ aud_action x
      in map csv_cell
           [stamp (aud_at x), aud_username x, aud_action x, if t label_key = label_key then aud_action x else t label_key,
            case aud_report x of None \<Rightarrow> [] | Some i \<Rightarrow> uuid_text i,
            csv_detail (env_crypto e) (env_cfg e) dumps t (aud_detail x)])"

definition CSV_HEADER :: "string list" where
  "CSV_HEADER = [''timestamp'', ''admin'', ''action'', ''action_label'', ''report_id'', ''detail'']"

definition audit_log_csv ::
  "env \<Rightarrow> (detail \<Rightarrow> string) \<Rightarrow> (string \<Rightarrow> string) \<Rightarrow> (moment \<Rightarrow> string) \<Rightarrow> db \<Rightarrow> user \<Rightarrow> params \<Rightarrow>
   refusal + string list list \<times> db" where
  "audit_log_csv e dumps t stamp d u qp =
     on_ok (require_admin u) (\<lambda>u.
       let q = audit_filters (env_cfg e) d u qp;
           entries = fst (get_audit_log d q 1 None);
           named = filter (\<lambda>p. snd p \<noteq> [])
             [(''action'', aq_action q), (''report_id'', case aq_report q of None \<Rightarrow> [] | Some i \<Rightarrow> uuid_text i)]
       in Inr (CSV_HEADER # map (csv_row e dumps t stamp) entries,
               audit_log e 0 u AUDIT_EXPORTED None ((''rows'', string_of_int (int (length entries))) # named) None d))"

section \<open>The export is the listing\<close>

lemma hd_csv_cell: "csv_cell v = [] \<or> hd (csv_cell v) \<notin> set FORMULA_CHARS"
  by (auto simp: csv_cell_def FORMULA_CHARS_def)

lemma param_cons [simp]: "param ((k, v) # qp) k' t = (if k' = k then v else param qp k' t)"
  by (simp add: param_def)

lemma filters_of_page [simp]: "audit_filters cfg d u ((''page'', s) # qp) = audit_filters cfg d u qp"
  by (simp add: audit_filters_def wanted_report_def Let_def)

lemma param_export:
  "param (export_query qp) ''action'' [] = param qp ''action'' []"
  "param (export_query qp) ''report_id'' [] = param qp ''report_id'' []"
  "param (export_query qp) ''views'' [] = (if param qp ''views'' [] = ''1'' then ''1'' else [])"
  by (simp_all add: export_query_def param_def)

lemma filters_of_export [simp]: "audit_filters cfg d u (export_query qp) = audit_filters cfg d u qp"
  by (simp add: audit_filters_def wanted_report_def param_export Let_def)

lemma export_of_page [simp]: "export_query ((''page'', s) # qp) = export_query qp"
  by (simp add: export_query_def)

lemma audit_log_page_page:
  assumes "require_admin u = Inr u" "page_param [(''page'', s)] = n"
  shows "audit_log_page e d u ((''page'', s) # qp) =
    (let q = audit_filters (env_cfg e) d u qp; (entries, total) = get_audit_log d q n (Some 50)
     in Inr \<lparr>ap_entries = entries, ap_case_numbers = case_numbers d entries, ap_total = total, ap_page = n,
             ap_total_pages = max 1 ((total + 49) div 50), ap_export = export_query qp\<rparr>)"
  using assms by (simp add: audit_log_page_def page_param_def Let_def)

text \<open>
  C37. The export a page of the audit log offers holds the entries of all pages of that listing, newest
  first, and nothing else: no filter is lost on the way and no row left out. No cell of it begins with a
  character a spreadsheet reads as a formula. Taking it is on record, under the account that took it, with
  the number of rows.
\<close>

theorem export_matches_pages:
  assumes u: "require_admin u = Inr u"
    and pg: "audit_log_page e d u qp = Inr pg"
    and all: "\<forall>p < nat (ap_total_pages pg). page_param [(''page'', s p)] = int p + 1"
    and csv: "audit_log_csv e dumps t stamp d u (ap_export pg) = Inr (rows, d')"
  shows "tl rows = map (csv_row e dumps t stamp)
           (concat (map (\<lambda>p. case audit_log_page e d u ((''page'', s p) # qp) of Inr g \<Rightarrow> ap_entries g)
              [0..<nat (ap_total_pages pg)])) \<and>
    (\<forall>row \<in> set rows. \<forall>c \<in> set row. c = [] \<or> hd c \<notin> {CHR ''='', CHR ''+'', CHR ''-'', CHR 0x40, CHR 0x09, CHR 0x0D}) \<and>
    (\<exists>x. db_audit d' = db_audit d @ [x] \<and> aud_action x = AUDIT_EXPORTED \<and> aud_admin x = Some (usr_id u) \<and>
       (\<exists>more. aud_detail x = Some ((''rows'', string_of_int (int (length (tl rows)))) # more)))"
proof -
  let ?q = "audit_filters (env_cfg e) d u qp"
  let ?k = "nat (ap_total_pages pg)"
  let ?L = "newest_first (filter (audit_visible ?q) (db_audit d))"
  have pgeq: "ap_total_pages pg = max 1 ((int (length ?L) + 49) div 50)" "ap_export pg = export_query qp"
    using pg u by (auto simp: audit_log_page_def get_audit_log_def Let_def simp del: length_newest_first)
  have entries: "fst (get_audit_log d ?q 1 None) = ?L" by (simp add: get_audit_log_def Let_def)
  from csv u have rows: "rows = CSV_HEADER # map (csv_row e dumps t stamp) ?L"
    and d': "\<exists>named. d' = audit_log e 0 u AUDIT_EXPORTED None ((''rows'', string_of_int (int (length ?L))) # named) None d"
    by (auto simp: audit_log_csv_def Let_def pgeq entries simp del: length_newest_first)
  have "length ?L \<le> ?k * 50" using pgeq(1) by (simp del: length_newest_first)
  then have total: "snd (get_audit_log d ?q 1 (Some (int 50))) \<le> int (?k * 50)"
    unfolding get_audit_log_def Let_def by (simp only: snd_conv of_nat_le_iff)
  have "map (\<lambda>p. case audit_log_page e d u ((''page'', s p) # qp) of Inr g \<Rightarrow> ap_entries g) [0..<?k]
      = map (\<lambda>p. fst (get_audit_log d ?q (int p + 1) (Some (int 50)))) [0..<?k]"
    using all u by (intro map_cong) (auto simp: audit_log_page_page Let_def split: prod.splits)
  then have "concat (map (\<lambda>p. case audit_log_page e d u ((''page'', s p) # qp) of Inr g \<Rightarrow> ap_entries g) [0..<?k]) = ?L"
    using audit_pages [OF _ total, THEN conjunct1] by (simp only:)
  moreover have "\<forall>row \<in> set rows. \<forall>c \<in> set row. c = [] \<or> hd c \<notin> set FORMULA_CHARS"
  proof -
    have "\<forall>c \<in> set CSV_HEADER. c = [] \<or> hd c \<notin> set FORMULA_CHARS" by code_simp
    moreover have "\<forall>c \<in> set (csv_row e dumps t stamp x). c = [] \<or> hd c \<notin> set FORMULA_CHARS" for x
      using hd_csv_cell unfolding csv_row_def Let_def set_map by blast
    ultimately show ?thesis unfolding rows by auto
  qed
  ultimately show ?thesis
    using d' rows by (auto simp: FORMULA_CHARS_def audit_log_def simp del: length_newest_first)
qed

definition audited :: db where
  "audited = empty_db\<lparr>db_audit := [sample_entry 1 (Some 1), sample_entry 2 None]\<rparr>"

theorem export_matches_pages_witness:
  "\<exists>rows d'. audit_log_csv sample_env (\<lambda>_. []) (\<lambda>t. t) (\<lambda>_. ''2026'') audited (sample_user 1 Superadmin None) [] = Inr (rows, d') \<and>
     length (tl rows) = 2 \<and> length (db_audit d') = 3"
proof -
  let ?u = "sample_user 1 Superadmin None"
  have u: "require_admin ?u = Inr ?u" by code_simp
  let ?q = "audit_filters (env_cfg sample_env) audited ?u []"
  have L: "newest_first (filter (audit_visible ?q) (db_audit audited)) = [sample_entry 2 None, sample_entry 1 (Some 1)]"
    by code_simp
  have p1: "page_param [] = 1" "page_param [(''page'', ''1'')] = 1" by code_simp+
  have total: "get_audit_log audited ?q 1 (Some 50) = ([sample_entry 2 None, sample_entry 1 (Some 1)], 2)"
    by (simp only: get_audit_log_def Let_def L option.case page_of_def) simp
  obtain pg where pg: "audit_log_page sample_env audited ?u [] = Inr pg" "ap_total_pages pg = 1" "ap_export pg = []"
      "ap_entries pg = [sample_entry 2 None, sample_entry 1 (Some 1)]"
    by (simp add: audit_log_page_def u p1 total Let_def export_query_def param_def del: One_nat_def)
  obtain rows d' where csv: "audit_log_csv sample_env (\<lambda>_. []) (\<lambda>t. t) (\<lambda>_. ''2026'') audited ?u (ap_export pg) = Inr (rows, d')"
    using u by (auto simp: audit_log_csv_def Let_def)
  have all: "\<forall>p < nat (ap_total_pages pg). page_param [(''page'', ''1'')] = int p + 1" using pg p1 by simp
  have one: "audit_log_page sample_env audited ?u [(''page'', ''1'')] = audit_log_page sample_env audited ?u []"
    using u p1 by (simp add: audit_log_page_def audit_filters_def wanted_report_def export_query_def page_param_def param_def Let_def)
  have "length (tl rows) = length (ap_entries pg)"
    using export_matches_pages [OF u pg(1) all csv] one pg by simp
  moreover have "length (ap_entries pg) = 2" using pg(4) by simp
  moreover obtain x where "db_audit d' = db_audit audited @ [x]"
    using export_matches_pages [OF u pg(1) all csv] by blast
  ultimately show ?thesis using csv pg(3) by (simp add: audited_def)
qed

end
