(* ===== verification/Integrity.thy ===== *)
theory Integrity
  imports Kv_Store Json "HOL-Library.List_Lexorder" "HOL-Library.Char_ord"
begin

text \<open>
  The file integrity check (\<open>app/services/integrity.py\<close>, \<open>scripts/generate_integrity_manifest.py\<close>):
  walking the shipped trees, the manifest made of them at build time, the comparison at run time and
  its cache. A tree is what \<open>os.walk\<close> meets: files with their bytes (none when they cannot be
  read), directories, links to directories, which are not followed. SHA-256 is an argument.
\<close>

section \<open>Walking a tree\<close>

datatype tree =
    File "string option"
  | Folder "(string \<times> tree) list"
  | Folder_link

definition MANIFEST_NAME :: string where "MANIFEST_NAME = ''integrity-manifest.json''"

definition ends_with :: "string \<Rightarrow> string \<Rightarrow> bool" where
  "ends_with t s \<longleftrightarrow> length t \<le> length s \<and> drop (length s - length t) s = t"

definition skipped_file :: "string \<Rightarrow> bool" where
  "skipped_file name \<longleftrightarrow> ends_with ''.pyc'' name \<or> name = MANIFEST_NAME"

text \<open>The paths under a directory, relative to its root's parent, with the bytes that could be read.\<close>

fun walk :: "string \<Rightarrow> (string \<times> tree) list \<Rightarrow> (string \<times> string) list" where
  "walk base [] = []"
| "walk base ((name, File content) # rest) =
     (case content of
        Some c \<Rightarrow> if skipped_file name then [] else [(base @ ''/'' @ name, c)]
      | None \<Rightarrow> []) @ walk base rest"
| "walk base ((name, Folder entries) # rest) =
     (if name = ''__pycache__'' then [] else walk (base @ ''/'' @ name) entries) @ walk base rest"
| "walk base ((name, Folder_link) # rest) = walk base rest"

type_synonym file_index = "(string \<times> string \<times> int) list"

definition hash_file :: "(string \<Rightarrow> string) \<Rightarrow> string \<Rightarrow> string \<times> int" where
  "hash_file sha content = (sha content, int (length content))"

definition index_one :: "(string \<Rightarrow> string) \<Rightarrow> string \<times> tree \<Rightarrow> file_index" where
  "index_one sha root =
     (case snd root of
        Folder entries \<Rightarrow> map (\<lambda>(p, c). (p, hash_file sha c)) (walk (fst root) entries)
      | _ \<Rightarrow> [])"

definition build_file_index :: "(string \<Rightarrow> string) \<Rightarrow> (string \<times> tree) list \<Rightarrow> file_index" where
  "build_file_index sha roots = fold (\<lambda>root idx. fold (\<lambda>(k, v). AList.update k v) (index_one sha root) idx) roots []"

section \<open>The manifest\<close>

definition entry_json :: "string \<times> int \<Rightarrow> json" where
  "entry_json x = JObj [(''sha256'', JStr (fst x)), (''size'', JInt (snd x))]"

definition make_manifest :: "(string \<Rightarrow> string) \<Rightarrow> string \<Rightarrow> (string \<times> tree) list \<Rightarrow> json" where
  "make_manifest sha version roots =
     JObj [(''version'', JStr version), (''algorithm'', JStr ''sha256''),
           (''files'', JObj (map (\<lambda>(p, x). (p, entry_json x)) (build_file_index sha roots)))]"

text \<open>The manifest's file: no bytes when it cannot be read.\<close>

definition load_manifest :: "json_text \<Rightarrow> string option \<Rightarrow> (string \<times> json) list option" where
  "load_manifest js raw =
     (case raw of
        None \<Rightarrow> None
      | Some t \<Rightarrow>
          (case js_loads js t of
             Some (JObj kvs) \<Rightarrow> if truthy (dict_get kvs ''files'') then Some kvs else None
           | _ \<Rightarrow> None))"

section \<open>The comparison\<close>

record integrity_result =
  ir_available :: bool
  ir_ok :: bool
  ir_checked :: nat
  ir_missing :: "string list"
  ir_modified :: "string list"
  ir_extra :: "string list"
  ir_version :: json
  ir_manifest :: "string option"

definition unavailable :: integrity_result where
  "unavailable = \<lparr>ir_available = False, ir_ok = False, ir_checked = 0, ir_missing = [], ir_modified = [],
     ir_extra = [], ir_version = JNull, ir_manifest = None\<rparr>"

text \<open>
  Whether an entry of the manifest tells of another file than the one found: \<open>None\<close> where it is no
  object. A size is compared with a number as Python does, for which \<open>True\<close> is 1.
\<close>

definition size_is :: "int \<Rightarrow> json \<Rightarrow> bool" where
  "size_is n v = (case v of JInt k \<Rightarrow> k = n | JBool b \<Rightarrow> n = (if b then 1 else 0) | _ \<Rightarrow> False)"

definition differs :: "string \<times> int \<Rightarrow> json \<Rightarrow> bool option" where
  "differs x entry =
     (case entry of
        JObj kvs \<Rightarrow> Some (dict_get kvs ''sha256'' \<noteq> JStr (fst x) \<or> \<not> size_is (snd x) (dict_get kvs ''size''))
      | _ \<Rightarrow> None)"

fun compare_files :: "file_index \<Rightarrow> (string \<times> json) list \<Rightarrow> (string list \<times> string list) option" where
  "compare_files current [] = Some ([], [])"
| "compare_files current ((path, entry) # rest) =
     (case map_of current path of
        None \<Rightarrow> map_option (\<lambda>(missing, modified). (path # missing, modified)) (compare_files current rest)
      | Some x \<Rightarrow>
          (case differs x entry of
             None \<Rightarrow> None
           | Some d \<Rightarrow>
               map_option (\<lambda>(missing, modified). (missing, if d then path # modified else modified))
                 (compare_files current rest)))"

text \<open>\<open>None\<close> where the check raises: files that are no object, or an entry that is none.\<close>

definition verify_integrity ::
  "json_text \<Rightarrow> (string \<Rightarrow> string) \<Rightarrow> (string \<times> tree) list \<Rightarrow> string option \<Rightarrow> integrity_result option" where
  "verify_integrity js sha roots raw =
     (case load_manifest js raw of
        None \<Rightarrow> Some unavailable
      | Some kvs \<Rightarrow>
          (case dict_get kvs ''files'' of
             JObj files \<Rightarrow>
               (let current = build_file_index sha roots in
                case compare_files current files of
                  None \<Rightarrow> None
                | Some (missing, modified) \<Rightarrow>
                    (let extra = filter (\<lambda>p. p \<notin> fst ` set files) (map fst current)
                     in Some \<lparr>ir_available = True, ir_ok = (missing = [] \<and> modified = [] \<and> extra = []),
                              ir_checked = length current, ir_missing = sort missing, ir_modified = sort modified,
                              ir_extra = sort extra, ir_version = dict_get kvs ''version'',
                              ir_manifest = map_option sha raw\<rparr>))
           | _ \<Rightarrow> None))"

section \<open>The cached verdict\<close>

definition INTEGRITY_KEY :: string where "INTEGRITY_KEY = ''openwhistle:integrity:''"
definition INTEGRITY_TTL :: int where "INTEGRITY_TTL = 300"

definition result_json :: "integrity_result \<Rightarrow> (string \<times> json) list" where
  "result_json x =
     [(''available'', JBool (ir_available x)), (''ok'', JBool (ir_ok x)), (''checked'', JInt (int (ir_checked x))),
      (''missing'', JList (map JStr (ir_missing x))), (''modified'', JList (map JStr (ir_modified x))),
      (''extra'', JList (map JStr (ir_extra x))), (''version'', ir_version x),
      (''manifest_sha256'', case ir_manifest x of None \<Rightarrow> JNull | Some s \<Rightarrow> JStr s)]"

definition get_integrity_status ::
  "json_text \<Rightarrow> int \<Rightarrow> string \<Rightarrow> (unit \<Rightarrow> integrity_result option) \<Rightarrow> bool \<Rightarrow> redis \<Rightarrow> (string \<times> json) list option \<times> redis" where
  "get_integrity_status js now host verify recheck r =
     (let key = INTEGRITY_KEY @ host;
          r1 = (if recheck then kv_del r key else r);
          cached = (if recheck then None
                    else (case kv_get now r key of
                            Some (Txt raw) \<Rightarrow>
                              (if raw = [] then None
                               else (case js_loads js raw of Some (JObj kvs) \<Rightarrow> Some kvs | _ \<Rightarrow> None))
                          | _ \<Rightarrow> None))
      in case cached of
           Some kvs \<Rightarrow> (Some kvs, r1)
         | None \<Rightarrow>
             (case verify () of
                None \<Rightarrow> (None, r1)
              | Some x \<Rightarrow>
                  (Some (result_json x),
                   kv_set now r1 key (Txt (js_dumps js (JObj (result_json x)))) INTEGRITY_TTL)))"

section \<open>The verdict is about the files\<close>

definition index_map :: "(string \<Rightarrow> string) \<Rightarrow> (string \<times> tree) list \<Rightarrow> string \<Rightarrow> (string \<times> int) option" where
  "index_map sha roots = map_of (build_file_index sha roots)"

lemma distinct_fold_update: "distinct (map fst idx) \<Longrightarrow> distinct (map fst (fold (\<lambda>(k, v). AList.update k v) kvs idx))"
  by (induction kvs arbitrary: idx) (auto simp: distinct_update)

lemma distinct_index: "distinct (map fst (build_file_index sha roots))"
proof -
  have "distinct (map fst idx) \<Longrightarrow>
    distinct (map fst (fold (\<lambda>root idx. fold (\<lambda>(k, v). AList.update k v) (index_one sha root) idx) roots idx))" for idx
    by (induction roots arbitrary: idx) (auto intro: distinct_fold_update)
  then show ?thesis by (simp add: build_file_index_def)
qed

lemma map_of_fold_update: "map_of (fold (\<lambda>(k, v). AList.update k v) kvs idx) = map_of idx ++ map_of (rev kvs)"
  by (induction kvs arbitrary: idx) (auto simp: update_conv' map_add_def fun_eq_iff split: option.splits)

lemma differs_entry [simp]: "differs x (entry_json y) = Some (x \<noteq> y)"
  by (cases x; cases y) (auto simp: differs_def entry_json_def dict_get_def size_is_def)

lemma compare_made:
  "compare_files current (map (\<lambda>(p, x). (p, entry_json x)) files) =
     Some (filter (\<lambda>p. map_of current p = None) (map fst files),
           map fst (filter (\<lambda>(p, x). map_of current p \<noteq> None \<and> map_of current p \<noteq> Some x) files))"
  by (induction files) (auto split: option.splits)

text \<open>What is shipped: the bytes of every path that could be read; a later root has the last word.\<close>

definition shipped :: "(string \<times> tree) list \<Rightarrow> string \<Rightarrow> string option" where
  "shipped roots = map_of (concat (map (\<lambda>(base, t). case t of Folder entries \<Rightarrow> rev (walk base entries) | _ \<Rightarrow> []) (rev roots)))"

lemma map_of_map_snd: "map_of (map (\<lambda>(p, c). (p, f c)) xs) = map_option f \<circ> map_of xs"
  by (induction xs) (auto simp: fun_eq_iff)

lemma index_shipped: "index_map sha roots p = map_option (hash_file sha) (shipped roots p)"
proof -
  have step: "map_of (fold (\<lambda>root idx. fold (\<lambda>(k, v). AList.update k v) (index_one sha root) idx) roots idx) p
      = (case map_option (hash_file sha) (shipped roots p) of Some x \<Rightarrow> Some x | None \<Rightarrow> map_of idx p)" for idx
  proof (induction roots arbitrary: idx)
    case (Cons root roots)
    obtain base t where root: "root = (base, t)" by (cases root)
    have one: "map_of (rev (index_one sha root)) =
        map_option (hash_file sha) \<circ> map_of (case t of Folder entries \<Rightarrow> rev (walk base entries) | _ \<Rightarrow> [])"
      by (auto simp: index_one_def root rev_map map_of_map_snd split: tree.splits)
    show ?case
      unfolding fold.simps o_def Cons map_of_fold_update one
      by (auto simp: shipped_def root map_add_def split: option.splits)
  qed (simp add: shipped_def)
  show ?thesis using step [of "[]"] by (auto simp: index_map_def build_file_index_def split: option.splits)
qed

lemma same_maps: "dom f \<subseteq> dom g \<and> dom g \<subseteq> dom f \<and> (\<forall>p \<in> dom f \<inter> dom g. g p = f p) \<longleftrightarrow> g = f"
proof
  assume h: "dom f \<subseteq> dom g \<and> dom g \<subseteq> dom f \<and> (\<forall>p \<in> dom f \<inter> dom g. g p = f p)"
  show "g = f"
  proof
    fix p show "g p = f p" using h by (cases "p \<in> dom f") (auto simp: domIff)
  qed
qed simp


text \<open>Two files at build time; at run time one is changed, one gone and one is new.\<close>

definition built_trees :: "(string \<times> tree) list" where
  "built_trees = [(''app'', Folder [(''a.py'', File (Some ''1'')), (''x'', Folder [(''b.py'', File (Some ''2''))])])]"

definition found_trees :: "(string \<times> tree) list" where
  "found_trees = [(''app'', Folder [(''a.py'', File (Some ''9'')), (''c.py'', File (Some ''3'')), (''c.pyc'', File (Some ''4'')),
     (''__pycache__'', Folder [(''d.py'', File (Some ''5''))])])]"

definition one_text :: json_text where
  "one_text = \<lparr>js_dumps = (\<lambda>_. ''m''), js_loads = (\<lambda>_. Some (make_manifest id ''1'' built_trees))\<rparr>"


end
