(* ===== verification/Dashboard.thy ===== *)
theory Dashboard
  imports Audit_Pages Notifications Telemetry Version_Check Catalog Middleware
begin

text \<open>
  The dashboard and the pages of the instance (\<open>app/api/admin.py\<close>: \<open>_dashboard\<close>,
  \<open>_ask_for_telemetry\<close>, \<open>_confirmed_deletion\<close>, \<open>stats_page\<close>, \<open>dismiss_ip_warning\<close>, the installation
  count's switches). Folding a text for the search, the text of the update feed's cache and the built-in
  category labels are arguments. The entries of a JSON detail are pairs, so that the detail contains the
  text of a pair is that the pair is among them.
\<close>

section \<open>What a query string asks for\<close>

definition ALLOWED_SORT :: "(string \<times> sort_field) list" where
  "ALLOWED_SORT = [(''submitted_at'', By_submitted_at), (''case_number'', By_case_number),
     (''category'', By_category), (''status'', By_status)]"

definition ALLOWED_PER_PAGE :: "int list" where "ALLOWED_PER_PAGE = [10, 25, 50, 100]"

record dash_view =
  dv_page :: int
  dv_per_page :: int
  dv_sort :: sort_field
  dv_asc :: bool
  dv_status :: string
  dv_my_cases :: bool
  dv_location :: "uuid option"
  dv_query :: string

definition dash_view_of :: "params \<Rightarrow> dash_view" where
  "dash_view_of qp =
     \<lparr>dv_page = page_param qp,
      dv_per_page = (case read_int (param qp ''per_page'' ''25'') of
                       Some n \<Rightarrow> if n \<in> set ALLOWED_PER_PAGE then n else 25 | None \<Rightarrow> 25),
      dv_sort = (case map_of ALLOWED_SORT (param qp ''sort'' ''submitted_at'') of Some f \<Rightarrow> f | None \<Rightarrow> By_submitted_at),
      dv_asc = (param qp ''dir'' ''desc'' = ''asc''),
      dv_status = param qp ''status'' [],
      dv_my_cases = (param qp ''my_cases'' [] = ''1''),
      dv_location = (let l = param qp ''location_id'' [] in if l = [] then None else parse_uuid l),
      dv_query = take 64 (strip (param qp ''q'' []))\<rparr>"

definition dash_query :: "settings \<Rightarrow> user \<Rightarrow> dash_view \<Rightarrow> case_query" where
  "dash_query cfg u v =
     \<lparr>cq_status = status_of (dv_status v),
      cq_assigned = (case own_cases_only u of
                       Some i \<Rightarrow> Some i | None \<Rightarrow> if dv_my_cases v then Some (usr_id u) else None),
      cq_location = dv_location v, cq_scope = org_scope cfg u, cq_text = dv_query v, cq_content = []\<rparr>"

section \<open>The content search on record\<close>

definition CONTENT_SEARCHED :: string where "CONTENT_SEARCHED = ''report.content_searched''"

definition hits_by_org :: "db \<Rightarrow> uuid list \<Rightarrow> uuid option \<Rightarrow> nat" where
  "hits_by_org d ids org = length (filter (\<lambda>r. rep_id r \<in> set ids \<and> rep_org r = org) (db_reports d))"

definition search_entry ::
  "env \<Rightarrow> user \<Rightarrow> string \<Rightarrow> (uuid option \<Rightarrow> nat) \<Rightarrow> nat \<times> uuid option \<Rightarrow> db \<Rightarrow> db" where
  "search_entry e u needle hits = (\<lambda>(n, org).
     audit_log e n u CONTENT_SEARCHED None
       [(''term'', encrypt (env_crypto e) (env_cfg e) needle), (''hits'', string_of_int (int (hits org)))] (Some org))"

definition record_search :: "env \<Rightarrow> user \<Rightarrow> string \<Rightarrow> uuid list \<Rightarrow> uuid option list \<Rightarrow> db \<Rightarrow> db" where
  "record_search e u needle ids read_orgs d =
     (let split = cfg_multi_tenancy (env_cfg e) \<and> read_orgs \<noteq> [];
          orgs = (if split then read_orgs else [usr_org u]);
          hits = (if split then hits_by_org d ids else (\<lambda>_. length ids))
      in fold (search_entry e u needle hits) (enumerate 0 orgs) d)"

section \<open>Banners\<close>

definition ask_for_telemetry :: "settings \<Rightarrow> user \<Rightarrow> db \<Rightarrow> bool \<times> db" where
  "ask_for_telemetry cfg u d =
     (if usr_asked_version u = Some (cfg_app_version cfg) \<or> \<not> may_run_the_instance cfg u \<or> locked_by cfg \<noteq> None \<or>
         is_enabled cfg (db_telemetry d)
      then (False, d)
      else (True, set_user (usr_id u) (\<lambda>x. x\<lparr>usr_asked_version := Some (cfg_app_version cfg)\<rparr>) d))"

definition case_number_char :: "char \<Rightarrow> bool" where
  "case_number_char c \<longleftrightarrow> (let n = of_char c :: nat in 65 \<le> n \<and> n \<le> 90 \<or> 48 \<le> n \<and> n \<le> 57 \<or> n = 45)"

definition confirmed_deletion :: "db \<Rightarrow> user \<Rightarrow> string \<Rightarrow> string option" where
  "confirmed_deletion d u case_number =
     (if \<not> (list_all case_number_char case_number \<and> 1 \<le> length case_number \<and> length case_number \<le> 32) then None
      else if list_ex (\<lambda>x. aud_admin x = Some (usr_id u) \<and> aud_action x = ''report.delete_confirmed'' \<and>
                (case aud_detail x of None \<Rightarrow> False | Some kvs \<Rightarrow> (''case_number'', case_number) \<in> set kvs)) (db_audit d)
      then Some case_number else None)"

definition reporting_link :: "settings \<Rightarrow> db \<Rightarrow> user \<Rightarrow> string \<times> string option" where
  "reporting_link cfg d u =
     (case (if cfg_multi_tenancy cfg then usr_org u else None) of
        None \<Rightarrow> (''/submit'', None)
      | Some i \<Rightarrow>
          (case row org_id i (db_orgs d) of
             None \<Rightarrow> (''/submit'', None)
           | Some x \<Rightarrow>
               (if org_active x
                then (''/submit/'' @ org_slug x, Some (rstrip_slash (cfg_app_public_url cfg) @ ''/submit/'' @ org_slug x))
                else (''/submit'', None))))"

section \<open>The page\<close>

fun title_loop :: "bool \<Rightarrow> string \<Rightarrow> string" where
  "title_loop after [] = []"
| "title_loop after (c # cs) =
     (if after then lower_char c else upper_char c) # title_loop (upper_char c \<noteq> lower_char c) cs"

definition category_label :: "string \<Rightarrow> (string \<Rightarrow> string option) \<Rightarrow> string" where
  "category_label slug labels =
     (case labels slug of
        Some l \<Rightarrow> if l = [] then title_loop False (map (\<lambda>c. if c = CHR ''_'' then CHR '' '' else c) slug) else l
      | None \<Rightarrow> title_loop False (map (\<lambda>c. if c = CHR ''_'' then CHR '' '' else c) slug))"

record dash_page =
  dp_reports :: "report list"
  dp_total :: int
  dp_total_pages :: int
  dp_stats :: "status \<Rightarrow> nat"
  dp_labels :: "(uuid \<times> string) list"
  dp_ip_warning :: bool
  dp_may_dismiss :: bool
  dp_telemetry_ask :: bool
  dp_update :: "update_status option"
  dp_privacy_missing :: bool
  dp_reporting :: "string \<times> string option"
  dp_deleted :: "string option"
  dp_capped :: nat
  dp_locations :: "location list"

record page_tools =
  pt_fold :: "string \<Rightarrow> string"
  pt_json :: json_text
  pt_repr :: "json \<Rightarrow> string"
  pt_builtin :: "string \<Rightarrow> string \<Rightarrow> string option"
  pt_lang :: string
  pt_redis_up :: bool

text \<open>\<open>None\<close> when no content was searched; the error of a report that cannot be decrypted is the page's.\<close>

definition content_search ::
  "env \<Rightarrow> page_tools \<Rightarrow> db \<Rightarrow> dash_view \<Rightarrow> case_query \<Rightarrow> refusal + (uuid list \<times> uuid option list \<times> bool) option" where
  "content_search e t d v q =
     (if length (dv_query v) < 3 then Inr None
      else (case content_match_ids (env_crypto e) (env_cfg e) (pt_fold t) d (dv_query v) q of
              None \<Rightarrow> Inl (Status 500) | Some found \<Rightarrow> Inr (Some found)))"

definition case_label :: "page_tools \<Rightarrow> settings \<Rightarrow> db \<Rightarrow> report \<Rightarrow> string" where
  "case_label t cfg d r =
     category_label (rep_category r)
       (get_category_labels (pt_builtin t) (pt_lang t) (report_org cfg (rep_org r)) (db_categories d))"

definition dash_labels :: "page_tools \<Rightarrow> settings \<Rightarrow> db \<Rightarrow> report list \<Rightarrow> (uuid \<times> string) list" where
  "dash_labels t cfg d rows =
     map (\<lambda>r. (rep_id r, case_label t cfg d r)) rows"

definition dashboard_of ::
  "env \<Rightarrow> page_tools \<Rightarrow> redis \<Rightarrow> db \<Rightarrow> user \<Rightarrow> params \<Rightarrow> string \<Rightarrow> (refusal + dash_page) \<times> db" where
  "dashboard_of e t r d u qp deleted =
     (let cfg = env_cfg e; v = dash_view_of qp; q = dash_query cfg u v in
      case content_search e t d v q of
        Inl x \<Rightarrow> (Inl x, d)
      | Inr found \<Rightarrow>
          (let ids = (case found of None \<Rightarrow> [] | Some (ids, _) \<Rightarrow> ids);
               d1 = (case found of None \<Rightarrow> d | Some (ids, orgs, _) \<Rightarrow> record_search e u (dv_query v) ids orgs d);
               (rows, total) = get_reports_paginated d1 (q\<lparr>cq_content := ids\<rparr>) (dv_page v) (dv_per_page v) (dv_sort v) (dv_asc v);
               (ask, d2) = ask_for_telemetry cfg u d1;
               run = may_run_the_instance cfg u
           in case (if run then map_sum id Some (get_update_status cfg (pt_json t) (pt_repr t) (millis e) r (cfg_app_version cfg))
                    else Inr None) of
                Inl _ \<Rightarrow> (Inl (Status 500), d2)
              | Inr update \<Rightarrow>
                  (Inr \<lparr>dp_reports = rows, dp_total = total,
                        dp_total_pages = max 1 ((total + dv_per_page v - 1) div dv_per_page v),
                        dp_stats = get_report_stats d2 (org_scope cfg u) (own_cases_only u) (dv_location v),
                        dp_labels = dash_labels t cfg d2 rows,
                        dp_ip_warning = check_ip_warning (pt_redis_up t) (millis e) r,
                        dp_may_dismiss = run, dp_telemetry_ask = ask, dp_update = update,
                        dp_privacy_missing = (run \<and> cfg_privacy_policy_url cfg = [] \<and> \<not> cfg_demo_mode cfg),
                        dp_reporting = reporting_link cfg d2 u, dp_deleted = confirmed_deletion d2 u deleted,
                        dp_capped = (case found of Some (_, _, True) \<Rightarrow> CONTENT_SEARCH_LIMIT | _ \<Rightarrow> 0),
                        dp_locations = get_all_locations (org_scope cfg u) (db_locations d2)\<rparr>, d2)))"

definition dashboard :: "env \<Rightarrow> page_tools \<Rightarrow> redis \<Rightarrow> db \<Rightarrow> user \<Rightarrow> params \<Rightarrow> (refusal + dash_page) \<times> db" where
  "dashboard e t r d u qp = dashboard_of e t r d u (filter (\<lambda>p. fst p \<noteq> ''q'') qp) (param qp ''deleted'' [])"

definition dashboard_search :: "env \<Rightarrow> page_tools \<Rightarrow> redis \<Rightarrow> db \<Rightarrow> user \<Rightarrow> params \<Rightarrow> params \<Rightarrow> (refusal + dash_page) \<times> db" where
  "dashboard_search e t r d u form qp = dashboard_of e t r d u form (param qp ''deleted'' [])"

section \<open>Statistics by label\<close>

definition org_categories :: "report list \<Rightarrow> ((uuid option \<times> string) \<times> nat) list" where
  "org_categories rows =
     map (\<lambda>k. (k, length (filter (\<lambda>r. (rep_org r, rep_category r) = k) rows)))
       (remdups (map (\<lambda>r. (rep_org r, rep_category r)) rows))"

fun add_count :: "string \<times> nat \<Rightarrow> (string \<times> nat) list \<Rightarrow> (string \<times> nat) list" where
  "add_count (l, n) [] = [(l, n)]"
| "add_count (l, n) ((k, m) # xs) = (if k = l then (k, m + n) # xs else (k, m) # add_count (l, n) xs)"

definition by_label :: "page_tools \<Rightarrow> settings \<Rightarrow> db \<Rightarrow> ((uuid option \<times> string) \<times> nat) list \<Rightarrow> (string \<times> nat) list" where
  "by_label t cfg d groups =
     fold (\<lambda>((org, slug), n). add_count
         (category_label slug (get_category_labels (pt_builtin t) (pt_lang t) (report_org cfg org) (db_categories d)), n))
       groups []"

definition stats_page :: "env \<Rightarrow> page_tools \<Rightarrow> db \<Rightarrow> user \<Rightarrow> dashboard_stats \<times> (string \<times> nat) list" where
  "stats_page e t d u =
     (let cfg = env_cfg e; scope = org_scope cfg u; assigned = own_cases_only u;
          rows = filter (\<lambda>r. (fst scope \<longrightarrow> rep_org r = snd scope) \<and> (assigned \<noteq> None \<longrightarrow> rep_assigned r = assigned)) (db_reports d)
      in (get_dashboard_stats (env_now e) d scope assigned, by_label t cfg d (org_categories rows)))"

section \<open>The instance's switches\<close>

definition dismiss_ip_warning :: "env \<Rightarrow> bool \<Rightarrow> redis \<times> db \<Rightarrow> user \<Rightarrow> refusal + redis \<times> db" where
  "dismiss_ip_warning e up = (\<lambda>(r, d) u.
     on_ok (require_instance_admin (env_cfg e) u) (\<lambda>u.
       let d1 = audit_log e 0 u ''system.ip_warning_dismissed'' None [] (Some None) d
       in Inr (clear_ip_warning up r, d1)))"

definition system_telemetry_toggle :: "env \<Rightarrow> db \<Rightarrow> user \<Rightarrow> string \<Rightarrow> refusal + db" where
  "system_telemetry_toggle e d u enabled =
     on_ok (require_instance_admin (env_cfg e) u) (\<lambda>u.
       if locked_by (env_cfg e) \<noteq> None then Inl (Status 409)
       else (let wanted = (enabled = ''1'');
                 d1 = (if db_telemetry d = None \<and> wanted then snd (ensure_state e d) else d)
             in case db_telemetry d1 of
                  None \<Rightarrow> Inr d1
                | Some s \<Rightarrow>
                    (if tel_enabled s \<noteq> wanted
                     then Inr (audit_log e 0 u (if wanted then ''telemetry.enabled'' else ''telemetry.disabled'') None [] None
                                (d1\<lparr>db_telemetry := Some (s\<lparr>tel_enabled := wanted\<rparr>)\<rparr>))
                     else Inr d1)))"

definition system_telemetry_reset_id :: "env \<Rightarrow> db \<Rightarrow> user \<Rightarrow> refusal + db" where
  "system_telemetry_reset_id e d u =
     on_ok (require_instance_admin (env_cfg e) u) (\<lambda>u.
       case db_telemetry d of
         None \<Rightarrow> Inr d
       | Some s \<Rightarrow>
           Inr (audit_log e 0 u ''telemetry.id_reset'' None [] None
                 (d\<lparr>db_telemetry := Some (s\<lparr>tel_installation_id := new_installation_id e, tel_last_sent_at := None\<rparr>)\<rparr>)))"

section \<open>Counting by a key\<close>

lemma sum_by_key:
  assumes "distinct ks" "\<forall>x \<in> set xs. f x \<in> set ks"
  shows "sum_list (map (\<lambda>k. length (filter (\<lambda>x. f x = k) xs)) ks) = length xs"
  using assms(2)
proof (induction xs)
  case (Cons x xs)
  have one: "sum_list (map (\<lambda>k. if f x = k then 1 else 0 :: nat) ks) = 1"
    using assms(1) Cons.prems by (simp add: sum_list_distinct_conv_sum_set)
  have "map (\<lambda>k. length (filter (\<lambda>x. f x = k) (x # xs))) ks =
      map (\<lambda>k. (if f x = k then 1 else 0) + length (filter (\<lambda>x. f x = k) xs)) ks" by simp
  then show ?case using one Cons by (simp only: sum_list_addf) simp
qed simp

section \<open>The search on record\<close>

definition search_row ::
  "env \<Rightarrow> user \<Rightarrow> string \<Rightarrow> (uuid option \<Rightarrow> nat) \<Rightarrow> nat \<times> uuid option \<Rightarrow> audit_entry" where
  "search_row e u needle hits = (\<lambda>(n, org).
     \<lparr>aud_id = env_id e n, aud_at = env_now e, aud_admin = Some (usr_id u), aud_username = usr_username u,
      aud_action = CONTENT_SEARCHED, aud_report = None,
      aud_detail = Some [(''term'', encrypt (env_crypto e) (env_cfg e) needle), (''hits'', string_of_int (int (hits org)))],
      aud_org = org\<rparr>)"

lemma search_entry_row: "search_entry e u needle hits x d = d\<lparr>db_audit := db_audit d @ [search_row e u needle hits x]\<rparr>"
  by (cases x) (simp add: search_entry_def search_row_def audit_log_def audit_org_def)

lemma fold_search_entry:
  "fold (search_entry e u needle hits) xs d = d\<lparr>db_audit := db_audit d @ map (search_row e u needle hits) xs\<rparr>"
  by (induction xs arbitrary: d) (simp_all add: search_entry_row)

text \<open>The reports whose text a search reads.\<close>

definition texts_read :: "db \<Rightarrow> case_query \<Rightarrow> report list" where
  "texts_read d q = take CONTENT_SEARCH_LIMIT
     (ordered False rep_id rep_submitted_at (filter (case_filter (q\<lparr>cq_text := []\<rparr>)) (db_reports d)))"

lemma set_ordered_by [simp]: "set (ordered asc k1 k2 xs) = set xs" by (simp add: ordered_def)

lemma distinct_ordered [simp]: "distinct (map rep_id (ordered asc k1 k2 xs)) = distinct (map rep_id xs)"
  by (simp add: ordered_def distinct_map)

lemma texts_read_set: "r \<in> set (texts_read d q) \<Longrightarrow> r \<in> set (db_reports d) \<and> case_filter (q\<lparr>cq_text := []\<rparr>) r"
  unfolding texts_read_def by (auto dest!: in_set_takeD)

lemma filter_zip_map: "filter P (zip rs (map f rs)) = map (\<lambda>r. (r, f r)) (filter (\<lambda>r. P (r, f r)) rs)"
  by (induction rs) auto

lemma content_match_facts:
  assumes "content_match_ids cr cfg fold_text d needle q = Some (ids, orgs, capped)"
  shows "orgs = remdups (map rep_org (texts_read d q))" "set ids \<subseteq> rep_id ` set (texts_read d q)"
    "distinct (map rep_id (db_reports d)) \<Longrightarrow> distinct ids"
proof -
  let ?texts = "map (\<lambda>r. decrypt_report_fields cr cfg (\<lambda>_. []) [] d r None) (texts_read d q)"
  have eq: "ids = map (rep_id \<circ> fst) (filter (\<lambda>p. case snd p of None \<Rightarrow> False
      | Some (description, ms) \<Rightarrow> list_ex (\<lambda>x. sublist (fold_text needle) (fold_text x)) (description # ms))
      (zip (texts_read d q) ?texts))" and orgs: "orgs = remdups (map rep_org (texts_read d q))"
    using assms unfolding content_match_ids_def Let_def texts_read_def [symmetric] by (auto simp only: if_split option.inject prod.inject split: if_splits)
  show "orgs = remdups (map rep_org (texts_read d q))" by (rule orgs)
  obtain P where eq': "ids = map rep_id (filter P (texts_read d q))" using eq by (auto simp: comp_def filter_zip_map)
  then show "set ids \<subseteq> rep_id ` set (texts_read d q)" by auto
  assume "distinct (map rep_id (db_reports d))"
  then have "distinct (map rep_id (texts_read d q))"
    by (simp add: texts_read_def distinct_map_filter flip: take_map)
  then show "distinct ids" unfolding eq' by (rule distinct_map_filter)
qed

lemma hits_add_up:
  assumes "content_match_ids cr cfg fold_text d needle q = Some (ids, orgs, capped)" "distinct (map rep_id (db_reports d))"
  shows "sum_list (map (hits_by_org d ids) orgs) = length ids"
proof -
  note facts = content_match_facts [OF assms(1)]
  let ?hit = "filter (\<lambda>r. rep_id r \<in> set ids) (db_reports d)"
  have key: "inj_on rep_id (set (db_reports d))" using assms(2) by (simp add: distinct_map)
  have "rep_org r \<in> set orgs" if r: "r \<in> set ?hit" for r
  proof -
    obtain r' where r': "r' \<in> set (texts_read d q)" "rep_id r' = rep_id r" using r facts(2) by auto
    then have "r' = r" using inj_onD [OF key, of r' r] r texts_read_set [of r'] by auto
    then show ?thesis using r' facts(1) by auto
  qed
  then have "sum_list (map (\<lambda>k. length (filter (\<lambda>r. rep_org r = k) ?hit)) orgs) = length ?hit"
    using sum_by_key [of orgs ?hit rep_org] facts(1) by simp
  moreover have "length ?hit = length ids"
  proof -
    have "distinct (map rep_id ?hit)" using assms(2) by (rule distinct_map_filter)
    moreover have "set (map rep_id ?hit) = set ids" using facts(2) texts_read_set by fastforce
    ultimately show ?thesis using facts(3) [OF assms(2)] by (metis distinct_card length_map)
  qed
  ultimately show ?thesis by (simp add: hits_by_org_def [abs_def] conj_commute)
qed

lemma case_filter_access: "case_filter (dash_query cfg u v\<lparr>cq_text := t, cq_content := c\<rparr>) r \<Longrightarrow> can_access_report cfg u r"
  by (cases "usr_role u")
    (auto simp: case_filter_def dash_query_def org_scope_def own_cases_only_def can_access_report_def Let_def split: option.splits)

lemma dashboard_of_Inr:
  assumes "dashboard_of e t r d u qp deleted = (Inr pg, d')"
  obtains found d1 where
    "content_search e t d (dash_view_of qp) (dash_query (env_cfg e) u (dash_view_of qp)) = Inr found"
    "d1 = (case found of None \<Rightarrow> d | Some (ids, orgs, _) \<Rightarrow> record_search e u (dv_query (dash_view_of qp)) ids orgs d)"
    "(dp_reports pg, dp_total pg) = get_reports_paginated d1
       (dash_query (env_cfg e) u (dash_view_of qp)\<lparr>cq_content := case found of None \<Rightarrow> [] | Some (ids, _) \<Rightarrow> ids\<rparr>)
       (dv_page (dash_view_of qp)) (dv_per_page (dash_view_of qp)) (dv_sort (dash_view_of qp)) (dv_asc (dash_view_of qp))"
    "d' = snd (ask_for_telemetry (env_cfg e) u d1)"
    "dp_deleted pg = confirmed_deletion d' u deleted"
proof -
  let ?v = "dash_view_of qp" and ?cfg = "env_cfg e"
  let ?q = "dash_query ?cfg u ?v"
  obtain found where found: "content_search e t d ?v ?q = Inr found"
    using assms by (cases "content_search e t d ?v ?q") (auto simp: dashboard_of_def Let_def)
  define ids where "ids = (case found of None \<Rightarrow> [] | Some (ids, _) \<Rightarrow> ids)"
  define d1 where "d1 = (case found of None \<Rightarrow> d | Some (ids, orgs, _) \<Rightarrow> record_search e u (dv_query ?v) ids orgs d)"
  obtain rows total where listed: "get_reports_paginated d1 (?q\<lparr>cq_content := ids\<rparr>) (dv_page ?v) (dv_per_page ?v) (dv_sort ?v) (dv_asc ?v) = (rows, total)"
    by (cases "get_reports_paginated d1 (?q\<lparr>cq_content := ids\<rparr>) (dv_page ?v) (dv_per_page ?v) (dv_sort ?v) (dv_asc ?v)")
  obtain ask d2 where asked: "ask_for_telemetry ?cfg u d1 = (ask, d2)" by (cases "ask_for_telemetry ?cfg u d1")
  have "dp_reports pg = rows \<and> dp_total pg = total \<and> d' = d2 \<and> dp_deleted pg = confirmed_deletion d2 u deleted"
    using assms unfolding dashboard_of_def Let_def found sum.case ids_def [symmetric] d1_def [symmetric] listed asked prod.case
    by (auto split: sum.split_asm)
  then show thesis using that [OF found d1_def] listed asked by (simp add: ids_def)
qed

lemma ask_keeps: "snd (ask_for_telemetry cfg u d) = d\<lparr>db_users := db_users (snd (ask_for_telemetry cfg u d))\<rparr>"
  by (simp add: ask_for_telemetry_def set_user_def)

text \<open>What is on record of a search: the sealed term, whose logs have it, the matches each tells.\<close>

definition logged_search ::
  "env \<Rightarrow> page_tools \<Rightarrow> db \<Rightarrow> user \<Rightarrow> dash_view \<Rightarrow> case_query \<Rightarrow> audit_entry list \<Rightarrow> nat list \<Rightarrow> bool" where
  "logged_search e t d u v q es hs \<longleftrightarrow>
     map (\<lambda>x. (aud_admin x, aud_action x, aud_detail x)) es =
       map (\<lambda>h. (Some (usr_id u), CONTENT_SEARCHED,
          Some [(''term'', encrypt (env_crypto e) (env_cfg e) (dv_query v)), (''hits'', string_of_int (int h))])) hs \<and>
     (if length (dv_query v) < 3 then es = []
      else es \<noteq> [] \<and> (cfg_multi_tenancy (env_cfg e) \<longrightarrow> rep_org ` set (texts_read d q) \<subseteq> aud_org ` set es) \<and>
        (\<exists>ids orgs capped. content_match_ids (env_crypto e) (env_cfg e) (pt_fold t) d (dv_query v) q = Some (ids, orgs, capped) \<and>
           sum_list hs = length ids))"

lemma search_recorded:
  assumes found: "content_search e t d v q = Inr found"
    and d1: "d1 = (case found of None \<Rightarrow> d | Some (ids, orgs, _) \<Rightarrow> record_search e u (dv_query v) ids orgs d)"
    and keys: "distinct (map rep_id (db_reports d))"
  shows "\<exists>es hs. d1 = d\<lparr>db_audit := db_audit d @ es\<rparr> \<and>
       logged_search e t d u v q es hs"
proof (cases "length (dv_query v) < 3")
  case True
  then have "d1 = d" using found d1 by (auto simp: content_search_def)
  with True show ?thesis by (intro exI [of _ "[]"]) (simp add: logged_search_def)
next
  case False
  then obtain ids orgs capped where
    match: "content_match_ids (env_crypto e) (env_cfg e) (pt_fold t) d (dv_query v) q = Some (ids, orgs, capped)" and
    some: "found = Some (ids, orgs, capped)"
    using found by (auto simp: content_search_def split: option.splits)
  note facts = content_match_facts [OF match]
  define split where "split = (cfg_multi_tenancy (env_cfg e) \<and> orgs \<noteq> [])"
  define logged where "logged = (if split then orgs else [usr_org u])"
  define hits where "hits = (if split then hits_by_org d ids else (\<lambda>_. length ids))"
  let ?es = "map (search_row e u (dv_query v) hits) (enumerate 0 logged)"
  have "d1 = d\<lparr>db_audit := db_audit d @ ?es\<rparr>"
    by (simp add: d1 some record_search_def fold_search_entry Let_def split_def logged_def hits_def)
  moreover have "map (\<lambda>x. (aud_admin x, aud_action x, aud_detail x)) ?es =
      map (\<lambda>h. (Some (usr_id u), CONTENT_SEARCHED,
        Some [(''term'', encrypt (env_crypto e) (env_cfg e) (dv_query v)), (''hits'', string_of_int (int h))])) (map hits logged)"
    by (auto simp: search_row_def enumerate_eq_zip zip_map_fst_snd map_snd_zip_take intro!: nth_equalityI)
  moreover have orgs_logged: "aud_org ` set ?es = set logged"
  proof -
    have "map aud_org ?es = logged" by (auto simp: search_row_def intro!: nth_equalityI simp: nth_enumerate_eq)
    then show ?thesis by (metis list.set_map)
  qed
  moreover have "logged \<noteq> []" by (simp add: logged_def split_def)
  then have "?es \<noteq> []" by (simp only: length_0_conv [symmetric] length_map length_enumerate not_False_eq_True)
  moreover have "cfg_multi_tenancy (env_cfg e) \<longrightarrow> rep_org ` set (texts_read d q) \<subseteq> aud_org ` set ?es"
    using facts(1) unfolding orgs_logged by (auto simp: logged_def split_def)
  moreover have "sum_list (map hits logged) = length ids"
    using hits_add_up [OF match keys] by (auto simp: logged_def hits_def split_def)
  ultimately show ?thesis using False match unfolding logged_search_def by (intro exI [of _ ?es] exI [of _ "map hits logged"] conjI) auto
qed


lemma dashboard_answers:
  assumes "content_search e t d (dash_view_of qp) (dash_query (env_cfg e) u (dash_view_of qp)) = Inr found"
    "\<not> may_run_the_instance (env_cfg e) u"
  shows "\<exists>pg d'. dashboard_of e t r d u qp deleted = (Inr pg, d')"
  using assms unfolding dashboard_of_def Let_def by (simp split: prod.split)

text \<open>A case manager searches for a word of the one case they handle.\<close>

definition plain_case :: db where
  "plain_case = empty_db\<lparr>db_reports := [(sample_report 10 None (Some 1))\<lparr>rep_dek := [], rep_description := ''a bribe''\<rparr>]\<rparr>"

definition plain_tools :: page_tools where
  "plain_tools = \<lparr>pt_fold = id, pt_json = \<lparr>js_dumps = (\<lambda>_. []), js_loads = (\<lambda>_. None)\<rparr>, pt_repr = (\<lambda>_. []),
     pt_builtin = (\<lambda>_ _. None), pt_lang = ''en'', pt_redis_up = True\<rparr>"

lemma plain_search:
  "content_match_ids (env_crypto sample_env) (env_cfg sample_env) id plain_case ''bribe''
     (dash_query (env_cfg sample_env) (sample_user 1 Case_manager None) (dash_view_of [(''q'', ''bribe'')]))
   = Some ([10], [None], False)"
proof -
  have view: "dv_status (dash_view_of [(''q'', ''bribe'')]) = []" "dv_location (dash_view_of [(''q'', ''bribe'')]) = None"
    by (simp_all add: dash_view_of_def param_def)
  have "status_of [] = None" by code_simp
  moreover have "org_scope (env_cfg sample_env) (sample_user 1 Case_manager None) = (False, None)" by code_simp
  moreover have "own_cases_only (sample_user 1 Case_manager None) = Some 1" by code_simp
  moreover have "sublist ''bribe'' ''a bribe''" by code_simp
  ultimately show ?thesis
    by (simp add: content_match_ids_def plain_case_def sample_report_def case_filter_def dash_query_def view ordered_def
        decrypt_report_fields_def messages_of_def empty_db_def CONTENT_SEARCH_LIMIT_def Let_def)
qed


section \<open>Every case under its own label\<close>

definition count_of :: "(string \<times> nat) list \<Rightarrow> string \<Rightarrow> nat" where
  "count_of xs l = (case map_of xs l of None \<Rightarrow> 0 | Some n \<Rightarrow> n)"

lemma count_add [simp]: "count_of (add_count (l, n) xs) k = count_of xs k + (if k = l then n else 0)"
  by (induction xs) (auto simp: count_of_def)

lemma labels_add [simp]: "fst ` set (add_count (l, n) xs) = insert l (fst ` set xs)"
proof (induction xs)
  case (Cons x xs)
  then show ?case by (cases x) (simp add: insert_commute)
qed simp

lemma distinct_add: "distinct (map fst xs) \<Longrightarrow> distinct (map fst (add_count (l, n) xs))"
proof (induction xs)
  case (Cons x xs)
  moreover have "fst x \<in> fst ` set (add_count (l, n) xs) \<longleftrightarrow> fst x = l \<or> fst x \<in> fst ` set xs" by simp
  ultimately show ?case by (cases x) auto
qed simp

lemma fold_counts:
  "count_of (fold (\<lambda>(k, n). add_count (f k, n)) groups xs) l
     = count_of xs l + sum_list (map snd (filter (\<lambda>(k, n). f k = l) groups))"
  "fst ` set (fold (\<lambda>(k, n). add_count (f k, n)) groups xs) = fst ` set xs \<union> (\<lambda>(k, n). f k) ` set groups"
  "distinct (map fst xs) \<Longrightarrow> distinct (map fst (fold (\<lambda>(k, n). add_count (f k, n)) groups xs))"
proof (induction groups arbitrary: xs)
  case (Cons g groups)
  obtain k n where g: "g = (k, n)" by (cases g)
  { case 1 show ?case using Cons(1) by (simp add: g) }
  { case 2 show ?case using Cons(2) by (simp add: g) }
  { case 3 then show ?case using Cons(3) distinct_add by (simp add: g) }
qed simp_all

lemma grouped_count:
  "sum_list (map snd (filter (\<lambda>(k, n). f k = l) (org_categories rows)))
     = length (filter (\<lambda>r. f (rep_org r, rep_category r) = l) rows)"
proof -
  let ?key = "\<lambda>r. (rep_org r, rep_category r)"
  let ?xs = "filter (\<lambda>r. f (?key r) = l) rows"
  let ?ks = "filter (\<lambda>k. f k = l) (remdups (map ?key rows))"
  have "sum_list (map (\<lambda>k. length (filter (\<lambda>r. ?key r = k) ?xs)) ?ks) = length ?xs"
    by (rule sum_by_key) auto
  moreover have "map (\<lambda>k. length (filter (\<lambda>r. ?key r = k) ?xs)) ?ks = map (\<lambda>k. length (filter (\<lambda>r. ?key r = k) rows)) ?ks"
  proof (rule map_cong [OF refl])
    fix k assume "k \<in> set ?ks"
    then have "f k = l" by simp
    then have "filter (\<lambda>r. ?key r = k) ?xs = filter (\<lambda>r. ?key r = k) rows"
      unfolding filter_filter by (intro filter_cong refl) metis
    then show "length (filter (\<lambda>r. ?key r = k) ?xs) = length (filter (\<lambda>r. ?key r = k) rows)" by (rule arg_cong)
  qed
  moreover have "sum_list (map snd (filter (\<lambda>(k, n). f k = l) (org_categories rows)))
      = sum_list (map (\<lambda>k. length (filter (\<lambda>r. ?key r = k) rows)) ?ks)"
    by (simp only: org_categories_def filter_map map_map comp_def prod.case snd_conv)
  ultimately show ?thesis by metis
qed

text \<open>
  C25. The statistics count each case the caller may open once, under the label its own organisation gives
  its category: a label is there once, with the number of those cases, and the numbers add up to the
  total.
\<close>

theorem stats_count_each_case_once:
  "distinct (map fst (snd (stats_page e t d u))) \<and>
    set (snd (stats_page e t d u)) = {(l, n). 0 < n \<and>
      n = length (filter (\<lambda>r. can_access_report (env_cfg e) u r \<and> case_label t (env_cfg e) d r = l) (db_reports d))} \<and>
    sum_list (map snd (snd (stats_page e t d u))) = ds_total (fst (stats_page e t d u)) \<and>
    ds_total (fst (stats_page e t d u)) = length (filter (can_access_report (env_cfg e) u) (db_reports d))"
proof -
  define mine where "mine = filter (can_access_report (env_cfg e) u) (db_reports d)"
  let ?lab = "case_label t (env_cfg e) d"
  let ?f = "\<lambda>(org, slug). category_label slug
      (get_category_labels (pt_builtin t) (pt_lang t) (report_org (env_cfg e) org) (db_categories d))"
  let ?L = "snd (stats_page e t d u)"
  have rows: "filter (\<lambda>r. (fst (org_scope (env_cfg e) u) \<longrightarrow> rep_org r = snd (org_scope (env_cfg e) u)) \<and>
      (own_cases_only u \<noteq> None \<longrightarrow> rep_assigned r = own_cases_only u)) (db_reports d) = mine"
    unfolding mine_def by (rule filter_cong)
      (cases "usr_role u"; auto simp: org_scope_def own_cases_only_def can_access_report_def Let_def)+
  have L: "?L = fold (\<lambda>(k, n). add_count (?f k, n)) (org_categories mine) []"
    unfolding stats_page_def Let_def snd_conv rows by_label_def by (intro fold_cong refl) auto
  have count: "count_of ?L l = length (filter (\<lambda>r. ?lab r = l) mine)" for l
    unfolding L fold_counts(1) grouped_count case_label_def prod.case by (simp add: count_of_def)
  have dist: "distinct (map fst ?L)" unfolding L by (rule fold_counts(3)) simp
  have labels: "fst ` set ?L = ?lab ` set mine"
    unfolding L fold_counts(2) case_label_def by (auto simp: org_categories_def image_iff)
  have in_L: "(l, n) \<in> set ?L \<longleftrightarrow> l \<in> fst ` set ?L \<and> n = count_of ?L l" for l n
  proof -
    have "(l, n) \<in> set ?L \<longleftrightarrow> map_of ?L l = Some n" using dist by (simp add: map_of_eq_Some_iff)
    moreover have "l \<in> fst ` set ?L \<longleftrightarrow> map_of ?L l \<noteq> None" by (simp add: map_of_eq_None_iff)
    ultimately show ?thesis by (auto simp: count_of_def)
  qed
  have pos: "l \<in> ?lab ` set mine \<longleftrightarrow> 0 < length (filter (\<lambda>r. ?lab r = l) mine)" for l
    by (auto simp: filter_empty_conv)
  have open_label: "filter (\<lambda>r. can_access_report (env_cfg e) u r \<and> ?lab r = l) (db_reports d) = filter (\<lambda>r. ?lab r = l) mine" for l
    by (simp add: mine_def conj_commute)
  have whole: "set ?L = {(l, n). 0 < n \<and> n = length (filter (\<lambda>r. can_access_report (env_cfg e) u r \<and> ?lab r = l) (db_reports d))}"
    unfolding open_label using in_L pos count labels by auto
  have "map snd ?L = map (\<lambda>l. length (filter (\<lambda>r. ?lab r = l) mine)) (map fst ?L)"
    using in_L count by (auto simp: comp_def intro!: map_cong)
  moreover have "sum_list (map (\<lambda>l. length (filter (\<lambda>r. ?lab r = l) mine)) (map fst ?L)) = length mine"
    by (rule sum_by_key [OF dist]) (use labels in auto)
  ultimately have "sum_list (map snd ?L) = length mine" by metis
  moreover have "ds_total (fst (stats_page e t d u)) = length mine"
    unfolding stats_page_def get_dashboard_stats_def Let_def fst_conv rows by simp
  ultimately show ?thesis using dist whole mine_def by simp
qed

end
