(* ===== verification/Consent.thy ===== *)
theory Consent
  imports Dashboard Reachability
begin

text \<open>
  Consent to the installation count is what the log says it is: the switches of the system page
  (\<open>app/api/admin.py\<close>), the count's attempts (\<open>app/services/telemetry.py\<close>) and the dashboard's
  question, in any order.
\<close>

definition CONSENT_ACTIONS :: "string list" where
  "CONSENT_ACTIONS = [''telemetry.enabled'', ''telemetry.disabled'']"

definition consents :: "db \<Rightarrow> audit_entry list" where
  "consents d = filter (\<lambda>x. aud_action x \<in> set CONSENT_ACTIONS) (db_audit d)"

definition consent_said :: "db \<Rightarrow> bool" where
  "consent_said d \<longleftrightarrow> consents d \<noteq> [] \<and> aud_action (last (consents d)) = ''telemetry.enabled''"

text \<open>A request of an account, an attempt to count, the question on the dashboard, any other entry of the log.\<close>

inductive consent_step :: "settings \<Rightarrow> db \<Rightarrow> db \<Rightarrow> bool" for cfg where
  switching: "env_cfg e = cfg \<Longrightarrow> system_telemetry_toggle e d u enabled = Inr d' \<Longrightarrow> consent_step cfg d d'"
| renewing: "env_cfg e = cfg \<Longrightarrow> system_telemetry_reset_id e d u = Inr d' \<Longrightarrow> consent_step cfg d d'"
| counting: "env_cfg e = cfg \<Longrightarrow> report_if_due e lock_up answer seen (r, d) = (out, r', d') \<Longrightarrow> consent_step cfg d d'"
| asking: "ask_for_telemetry cfg u d = (ask, d') \<Longrightarrow> consent_step cfg d d'"
| dismissing: "env_cfg e = cfg \<Longrightarrow> dismiss_ip_warning e up (r, d) u = Inr (r', d') \<Longrightarrow> consent_step cfg d d'"

definition unasked :: "db \<Rightarrow> bool" where "unasked d \<longleftrightarrow> db_telemetry d = None \<and> consents d = []"

definition counted_on :: "db \<Rightarrow> bool" where
  "counted_on d \<longleftrightarrow> (case db_telemetry d of None \<Rightarrow> False | Some s \<Rightarrow> tel_enabled s)"

definition consent_inv :: "settings \<Rightarrow> db \<Rightarrow> bool" where
  "consent_inv cfg d \<longleftrightarrow>
     consent_said d = counted_on d \<and>
     (locked_by cfg = None \<and> consents d = [] \<longrightarrow> db_telemetry d = None)"

lemma consents_log:
  "consents (audit_log e n u a r t g d) = consents d @
     (if a \<in> set CONSENT_ACTIONS then [last (db_audit (audit_log e n u a r t g d))] else [])"
  by (simp add: consents_def audit_log_def)

lemma require_instance_admin_Inr:
  "require_instance_admin cfg u = Inr v \<longleftrightarrow> v = u \<and> may_run_the_instance cfg u"
  by (cases "usr_role u") (auto simp: require_instance_admin_def require_admin_def require_role_def may_run_the_instance_def)

lemma consents_db [simp]: "consents (d\<lparr>db_telemetry := x\<rparr>) = consents d" "consents (set_user i f d) = consents d"
  by (simp_all add: consents_def set_user_def)

lemma audit_log_telemetry [simp]: "db_telemetry (audit_log e n u a r t g d) = db_telemetry d"
  by (simp add: audit_log_def)

lemma last_log [simp]:
  "aud_action (last (db_audit (audit_log e n u a r t g d))) = a"
  "aud_admin (last (db_audit (audit_log e n u a r t g d))) = Some (usr_id u)"
  by (simp_all add: audit_log_def)

lemma ensure_state_telemetry: "db_telemetry (snd (ensure_state e d)) = Some (fst (ensure_state e d))"
  "consents (snd (ensure_state e d)) = consents d" "db_telemetry d = Some s \<Longrightarrow> ensure_state e d = (s, d)"
  "db_telemetry d = None \<Longrightarrow> tel_enabled (fst (ensure_state e d)) = False"
  by (auto simp: ensure_state_def Let_def split: option.splits)

lemma counted_set_sent [simp]: "counted_on (set_sent e d) = counted_on d" "consents (set_sent e d) = consents d"
  "db_telemetry (set_sent e d) = None \<longleftrightarrow> db_telemetry d = None"
  by (auto simp: counted_on_def set_sent_def split: option.splits)

lemma counted_ensure: "counted_on (snd (ensure_state e d)) = counted_on d"
  by (cases "db_telemetry d") (simp_all add: counted_on_def ensure_state_telemetry)

lemma inv_switch:
  assumes "consent_inv (env_cfg e) d" "system_telemetry_toggle e d u enabled = Inr d'"
  shows "consent_inv (env_cfg e) d'"
  using assms
  by (auto simp: system_telemetry_toggle_def on_ok_Inr require_instance_admin_Inr consent_inv_def consent_said_def
      counted_on_def ensure_state_def consents_log CONSENT_ACTIONS_def Let_def split: option.splits if_splits)

lemma inv_count:
  assumes inv: "consent_inv (env_cfg e) d" and step: "report_if_due e lock_up answer seen (r, d) = (out, r', d')"
  shows "consent_inv (env_cfg e) d'"
proof (cases "d' = d")
  case False
  have d': "d' = d \<or> d' = set_sent e d \<or>
      (seen = None \<and> is_enabled (env_cfg e) None \<and> (d' = snd (ensure_state e d) \<or> d' = set_sent e (snd (ensure_state e d))))"
    using step by (auto simp: report_if_due_def Let_def split: if_splits option.splits prod.splits)
  have "seen = None \<Longrightarrow> is_enabled (env_cfg e) None \<Longrightarrow> locked_by (env_cfg e) \<noteq> None"
    by (cases "locked_by (env_cfg e)") (simp_all add: is_enabled_def)
  with d' False inv show ?thesis
    by (auto simp: consent_inv_def consent_said_def counted_ensure ensure_state_telemetry)
qed (use inv in simp)

lemma inv_same:
  "consents d' = consents d \<Longrightarrow> counted_on d' = counted_on d \<Longrightarrow> (db_telemetry d = None \<Longrightarrow> db_telemetry d' = None) \<Longrightarrow>
   consent_inv cfg d \<Longrightarrow> consent_inv cfg d'"
  by (auto simp: consent_inv_def consent_said_def)

lemma same_reset:
  assumes "system_telemetry_reset_id e d u = Inr d'"
  shows "consents d' = consents d" "counted_on d' = counted_on d" "db_telemetry d = None \<Longrightarrow> db_telemetry d' = None"
proof -
  have "d' = d \<or> (\<exists>s. db_telemetry d = Some s \<and> d' = audit_log e 0 u ''telemetry.id_reset'' None [] None
      (d\<lparr>db_telemetry := Some (s\<lparr>tel_installation_id := new_installation_id e, tel_last_sent_at := None\<rparr>)\<rparr>))"
    using assms by (auto simp: system_telemetry_reset_id_def on_ok_Inr require_instance_admin_Inr split: option.splits)
  then show "consents d' = consents d" "counted_on d' = counted_on d" "db_telemetry d = None \<Longrightarrow> db_telemetry d' = None"
    by (auto simp: consents_log CONSENT_ACTIONS_def counted_on_def)
qed

lemma same_ask:
  assumes "ask_for_telemetry cfg u d = (ask, d')"
  shows "consents d' = consents d" "counted_on d' = counted_on d" "db_telemetry d' = db_telemetry d"
  using assms by (auto simp: ask_for_telemetry_def set_user_def consents_def counted_on_def split: if_splits)

lemma same_dismiss:
  assumes "dismiss_ip_warning e up (r, d) u = Inr (r', d')"
  shows "consents d' = consents d" "counted_on d' = counted_on d" "db_telemetry d' = db_telemetry d"
proof -
  have "d' = audit_log e 0 u ''system.ip_warning_dismissed'' None [] (Some None) d"
    using assms by (auto simp: dismiss_ip_warning_def on_ok_Inr require_instance_admin_Inr Let_def)
  then show "consents d' = consents d" "counted_on d' = counted_on d" "db_telemetry d' = db_telemetry d"
    by (auto simp: consents_log CONSENT_ACTIONS_def counted_on_def)
qed

interpretation consent: invariant_system unasked "consent_step cfg" "consent_inv cfg" for cfg
proof
  show "consent_inv cfg d" if "unasked d" for d
    using that by (simp add: unasked_def consent_inv_def consent_said_def counted_on_def)
  show "consent_inv cfg d'" if inv: "consent_inv cfg d" and step: "consent_step cfg d d'" for d d'
    using step
  proof cases
    case switching
    then show ?thesis using inv inv_switch by metis
  next
    case renewing
    show ?thesis by (rule inv_same [OF same_reset [OF renewing(2)] inv])
  next
    case counting
    then show ?thesis using inv inv_count by metis
  next
    case asking
    show ?thesis by (rule inv_same [OF same_ask(1,2) [OF asking] _ inv]) (simp add: same_ask(3) [OF asking])
  next
    case dismissing
    show ?thesis
      by (rule inv_same [OF same_dismiss(1,2) [OF dismissing(2)] _ inv]) (simp add: same_dismiss(3) [OF dismissing(2)])
  qed
qed



end
