(* ===== verification/Page_Frame.thy ===== *)
theory Page_Frame
  imports Branding
begin

text \<open>
  What every page is set in: the language of a request and the numbers written in it
  (\<open>app/i18n.py\<close>), text marked as HTML, the organisation whose branding it wears and the menu
  (\<open>app/templating.py\<close>). A locale's strings are
  an argument: a map from keys; text outside ASCII is its UTF-8 bytes.
\<close>

section \<open>Language\<close>

definition LANGS :: "string list" where "LANGS = [''en'', ''de'', ''fr'', ''es'', ''pt-br'']"

definition LANG_ALIAS :: "string \<Rightarrow> string option" where
  "LANG_ALIAS l = (if l = ''pt'' then Some ''pt-br'' else None)"

definition lang_of_part :: "string \<Rightarrow> string option" where
  "lang_of_part part =
     (let raw = lower (strip part); code = hd (split_at (CHR ''-'') raw) in
      if raw \<in> set LANGS then Some raw
      else (case LANG_ALIAS raw of
              Some l \<Rightarrow> Some l
            | None \<Rightarrow> if code \<in> set LANGS then Some code else LANG_ALIAS code))"

fun first_lang :: "string list \<Rightarrow> string" where
  "first_lang [] = ''en''"
| "first_lang (p # ps) = (case lang_of_part p of Some l \<Rightarrow> l | None \<Rightarrow> first_lang ps)"

definition get_lang :: "string \<Rightarrow> string \<Rightarrow> string" where
  "get_lang cookie accept =
     (if cookie \<in> set LANGS then cookie else first_lang (concat (map (split_at (CHR '';'')) (split_at (CHR '','') accept))))"

definition translate :: "(string \<Rightarrow> string option) \<Rightarrow> (string \<Rightarrow> string option) \<Rightarrow> string \<Rightarrow> string" where
  "translate strings fallback key =
     (case filter (\<lambda>t. t \<noteq> []) (case strings key of None \<Rightarrow> [] | Some t \<Rightarrow> [t])
           @ filter (\<lambda>t. t \<noteq> []) (case fallback key of None \<Rightarrow> [] | Some t \<Rightarrow> [t]) of
        [] \<Rightarrow> key | t # _ \<Rightarrow> t)"

text \<open>The text, and whether it goes to the page as HTML.\<close>

definition template_translate ::
  "(string \<Rightarrow> string option) \<Rightarrow> (string \<Rightarrow> string option) \<Rightarrow> string \<Rightarrow> string \<times> bool" where
  "template_translate strings fallback key =
     (let result = translate strings fallback key
      in (result, drop (length key - 5) key = ''.html'' \<and> result \<noteq> key))"

section \<open>Numbers\<close>

definition THOUSANDS_SEPARATOR :: "string \<Rightarrow> string" where
  "THOUSANDS_SEPARATOR lang =
     (if lang = ''de'' \<or> lang = ''es'' \<or> lang = ''pt-br'' then ''.'' else if lang = ''fr'' then '' '' else '','')"

text \<open>The digits from the last to the first, a comma after every third that another follows.\<close>

fun grouped :: "string \<Rightarrow> string" where
  "grouped (a # b # c # d # ds) = a # b # c # CHR '','' # grouped (d # ds)"
| "grouped ds = ds"

definition with_commas :: "int \<Rightarrow> string" where
  "with_commas n = (if n < 0 then [CHR ''-''] else []) @ rev (grouped (rev (string_of_int (abs n))))"

fun replace_char :: "char \<Rightarrow> string \<Rightarrow> string \<Rightarrow> string" where
  "replace_char c t [] = []"
| "replace_char c t (x # xs) = (if x = c then t else [x]) @ replace_char c t xs"

definition format_count :: "int \<Rightarrow> string \<Rightarrow> string" where
  "format_count n lang = replace_char (CHR '','') (THOUSANDS_SEPARATOR lang) (with_commas n)"

definition DECIMAL_MARK :: "string \<Rightarrow> string" where
  "DECIMAL_MARK lang = (if lang \<in> set [''de'', ''fr'', ''es'', ''pt-br''] then '','' else ''.'')"

definition PERCENT_SUFFIX :: "string \<Rightarrow> string" where
  "PERCENT_SUFFIX lang =
     (if lang = ''de'' \<or> lang = ''es'' then [CHR 0xC2, CHR 0xA0, CHR 0x25]
      else if lang = ''fr'' then [CHR 0xE2, CHR 0x80, CHR 0xAF, CHR 0x25] else [CHR 0x25])"

text \<open>Of \<open>str(value)\<close>, the number as Python writes it.\<close>

definition format_decimal :: "string \<Rightarrow> string \<Rightarrow> string" where
  "format_decimal written lang = replace_char (CHR ''.'') (DECIMAL_MARK lang) written"

definition format_percent :: "string \<Rightarrow> string \<Rightarrow> string" where
  "format_percent written lang = format_decimal written lang @ PERCENT_SUFFIX lang"

section \<open>Text\<close>

fun escape_html :: "string \<Rightarrow> string" where
  "escape_html [] = []"
| "escape_html (c # cs) =
     (if c = CHR ''&'' then ''&amp;'' else if c = CHR ''<'' then ''&lt;'' else if c = CHR ''>'' then ''&gt;''
      else if c = CHR 0x27 then ''&#39;'' else if c = CHR 0x22 then ''&#34;'' else [c]) @ escape_html cs"

definition wbr_after_hyphens :: "string \<Rightarrow> string" where
  "wbr_after_hyphens v = join_with ''-<wbr>'' (map escape_html (split_at (CHR ''-'') v))"

section \<open>The frame\<close>

definition current_brand :: "settings \<Rightarrow> brand_snapshot \<Rightarrow> uuid option \<Rightarrow> uuid option option \<Rightarrow> brand" where
  "current_brand cfg snap page_org case_org =
     resolve cfg snap (if page_org = None then (case case_org of None \<Rightarrow> None | Some org \<Rightarrow> org) else page_org)"

definition SSO_KNOWN :: "string list \<Rightarrow> string option \<Rightarrow> string option" where
  "SSO_KNOWN results v = (case v of None \<Rightarrow> None | Some x \<Rightarrow> if x \<in> set results then v else None)"

section \<open>The menu\<close>

datatype minimum = Everyone | At_least role | Tenants | Instance

definition ADMIN_NAV :: "(string \<times> (string \<times> string \<times> minimum) list) list" where
  "ADMIN_NAV =
     [(''admin.nav.group.cases'',
        [(''/admin/dashboard'', ''admin.dashboard.title'', Everyone),
         (''/admin/stats'', ''admin.nav.stats'', Everyone),
         (''/admin/telephone-channel'', ''admin.nav.telephone_channel'', Everyone)]),
      (''admin.nav.group.setup'',
        [(''/admin/categories'', ''admin.nav.categories'', At_least Admin),
         (''/admin/locations'', ''admin.nav.locations'', At_least Admin),
         (''/admin/retention'', ''admin.nav.retention'', At_least Admin),
         (''/admin/branding'', ''admin.nav.branding'', At_least Admin)]),
      (''admin.nav.group.administration'',
        [(''/admin/users'', ''admin.nav.users'', At_least Admin),
         (''/admin/audit-log'', ''admin.nav.audit_log'', At_least Admin),
         (''/admin/organisations'', ''admin.nav.organisations'', Tenants),
         (''/admin/system'', ''admin.nav.system'', Instance)])]"

definition RANK :: "role \<Rightarrow> nat" where
  "RANK x = (case x of Case_manager \<Rightarrow> 0 | Admin \<Rightarrow> 1 | Superadmin \<Rightarrow> 2)"

definition nav_allowed :: "settings \<Rightarrow> user \<Rightarrow> minimum \<Rightarrow> bool" where
  "nav_allowed cfg u m =
     (case m of
        Everyone \<Rightarrow> True
      | Instance \<Rightarrow> may_run_the_instance cfg u
      | Tenants \<Rightarrow> RANK (usr_role u) = 2 \<and> cfg_multi_tenancy cfg
      | At_least x \<Rightarrow> RANK (usr_role u) \<ge> RANK x)"

definition admin_nav :: "settings \<Rightarrow> user \<Rightarrow> (string \<times> (string \<times> string) list) list" where
  "admin_nav cfg u =
     filter (\<lambda>g. snd g \<noteq> [])
       (map (\<lambda>(l, items). (l, map (\<lambda>(href, name, m). (href, name)) (filter (\<lambda>(href, name, m). nav_allowed cfg u m) items)))
         ADMIN_NAV)"

text \<open>The guard of each page's own handler, for an account that is signed in.\<close>

definition page_guard :: "settings \<Rightarrow> db \<Rightarrow> user \<Rightarrow> string \<Rightarrow> refusal + user" where
  "page_guard cfg d u href =
     (if href \<in> set [''/admin/dashboard'', ''/admin/stats'', ''/admin/telephone-channel''] then Inr u
      else if href \<in> set [''/admin/categories'', ''/admin/locations'', ''/admin/retention'', ''/admin/users'', ''/admin/audit-log'']
        then require_admin u
      else if href = ''/admin/branding''
        then on_ok (require_admin u) (\<lambda>u. on_ok (brand_target cfg d u []) (\<lambda>_. Inr u))
      else if href = ''/admin/organisations'' then require_tenants cfg u
      else if href = ''/admin/system'' then require_instance_admin cfg u
      else Inl (Status 404))"

section \<open>Numbers keep their digits\<close>

lemma grouped_digits: "CHR '','' \<notin> set ds \<Longrightarrow> filter (\<lambda>c. c \<noteq> CHR '','') (grouped ds) = ds"
  by (induction ds rule: grouped.induct) auto

lemma digits_range: "c \<in> set (digits n) \<Longrightarrow> 48 \<le> (of_char c :: nat) \<and> (of_char c :: nat) \<le> 57"
proof (induction n rule: digits.induct)
  case (1 n)
  then show ?case by (subst (asm) digits.simps) (auto split: if_splits)
qed

lemma digits_no_comma: "CHR '','' \<notin> set (digits n)"
  using digits_range by fastforce

text \<open>Taking the separators out again leaves the number.\<close>

lemma with_commas_digits: "filter (\<lambda>c. c \<noteq> CHR '','') (with_commas n) = string_of_int n"
proof -
  have "filter (\<lambda>c. c \<noteq> CHR '','') (rev (grouped (rev (digits k)))) = digits k" for k
    using grouped_digits [of "rev (digits k)"] digits_no_comma by (simp add: rev_filter [symmetric])
  then show ?thesis by (simp add: with_commas_def string_of_int_def)
qed

section \<open>The menu is what the account may open\<close>

definition nav_hrefs :: "settings \<Rightarrow> user \<Rightarrow> string set" where
  "nav_hrefs cfg u = (\<Union>g \<in> set (admin_nav cfg u). fst ` set (snd g))"

text \<open>
  The menu links to exactly the pages whose handler lets the account in, with multi-tenancy and
  without, for every role, as long as an organisation's admin has an organisation: no link that is
  refused, no page that is left out.
\<close>

theorem menu_matches_guards:
  assumes "cfg_multi_tenancy cfg \<Longrightarrow> usr_role u = Admin \<Longrightarrow> usr_org u \<noteq> None"
  shows "nav_hrefs cfg u = {href. \<exists>v. page_guard cfg d u href = Inr v}"
proof (rule set_eqI)
  fix href
  show "href \<in> nav_hrefs cfg u \<longleftrightarrow> href \<in> {href. \<exists>v. page_guard cfg d u href = Inr v}"
    using assms
    by (cases "usr_role u"; cases "cfg_multi_tenancy cfg")
      (auto simp: nav_hrefs_def admin_nav_def ADMIN_NAV_def nav_allowed_def RANK_def page_guard_def may_run_the_instance_def
        require_admin_def require_role_def require_tenants_def require_superadmin_def require_instance_admin_def
        brand_target_def on_ok_def split: option.splits)
qed

theorem menu_matches_guards_witness:
  "''/admin/system'' \<in> nav_hrefs (env_cfg sample_env) (sample_user 1 Superadmin None)"
proof -
  have "nav_hrefs (env_cfg sample_env) (sample_user 1 Superadmin None)
      = {href. \<exists>v. page_guard (env_cfg sample_env) empty_db (sample_user 1 Superadmin None) href = Inr v}"
    by (rule menu_matches_guards) (simp add: sample_user_def)
  moreover have "page_guard (env_cfg sample_env) empty_db (sample_user 1 Superadmin None) ''/admin/system''
      = Inr (sample_user 1 Superadmin None)" by code_simp
  ultimately show ?thesis by blast
qed

end
