(* ===== verification/Site_Pages.thy ===== *)
theory Site_Pages
  imports Page_Frame First_Run
begin

text \<open>
  The pages around the wizard (\<open>set_language\<close>, \<open>health\<close>, \<open>index\<close> in \<open>app/api/reports.py\<close>) and the
  answers to what a handler raises (\<open>app/main.py\<close>). \<open>urlsplit\<close> is the standard library's, written
  out; what it says of a host with brackets or outside ASCII is an argument.
\<close>

section \<open>Splitting a URL\<close>

definition scheme_char :: "char \<Rightarrow> bool" where
  "scheme_char c \<longleftrightarrow> (let n = of_char c :: nat in
     97 \<le> n \<and> n \<le> 122 \<or> 65 \<le> n \<and> n \<le> 90 \<or> 48 \<le> n \<and> n \<le> 57 \<or> n = 43 \<or> n = 45 \<or> n = 46)"

definition letter :: "char \<Rightarrow> bool" where
  "letter c \<longleftrightarrow> (let n = of_char c :: nat in 97 \<le> n \<and> n \<le> 122 \<or> 65 \<le> n \<and> n \<le> 90)"

definition until :: "char set \<Rightarrow> string \<Rightarrow> string" where "until cs s = takeWhile (\<lambda>c. c \<notin> cs) s"
definition after :: "char set \<Rightarrow> string \<Rightarrow> string" where "after cs s = dropWhile (\<lambda>c. c \<notin> cs) s"

definition unsafe_removed :: "string \<Rightarrow> string" where
  "unsafe_removed s =
     filter (\<lambda>c. c \<notin> {CHR 0x09, CHR 0x0A, CHR 0x0D}) (dropWhile (\<lambda>c. (of_char c :: nat) \<le> 32) s)"

record split_url =
  su_scheme :: string
  su_netloc :: string
  su_path :: string
  su_query :: string

definition urlsplit :: "(string \<Rightarrow> bool) \<Rightarrow> string \<Rightarrow> split_url option" where
  "urlsplit host_ok s =
     (let url = unsafe_removed s;
          front = until {CHR '':''} url;
          has_scheme = (front \<noteq> url \<and> front \<noteq> [] \<and> letter (hd front) \<and> list_all scheme_char front);
          scheme = (if has_scheme then lower front else []);
          url1 = (if has_scheme then tl (after {CHR '':''} url) else url);
          has_host = (take 2 url1 = ''//'');
          netloc = (if has_host then until (set ''/?#'') (drop 2 url1) else []);
          url2 = (if has_host then after (set ''/?#'') (drop 2 url1) else url1);
          url3 = until {CHR ''#''} url2
      in if (CHR ''['' \<in> set netloc) \<noteq> (CHR '']'' \<in> set netloc) \<or> \<not> host_ok netloc then None
         else Some \<lparr>su_scheme = scheme, su_netloc = netloc, su_path = until {CHR ''?''} url3,
                    su_query = tl (after {CHR ''?''} url3)\<rparr>)"

section \<open>Setting the language\<close>

definition on_this_host :: "split_url \<Rightarrow> string \<Rightarrow> bool" where
  "on_this_host p next_url \<longleftrightarrow>
     su_scheme p = [] \<and> su_netloc p = [] \<and> starts_with ''/'' (su_path p) \<and> \<not> starts_with ''//'' (su_path p) \<and>
     CHR 0x5C \<notin> set next_url"

text \<open>Where the browser is sent and the language its cookie names; \<open>None\<close> where \<open>urlsplit\<close> raises.\<close>

definition set_language :: "(string \<Rightarrow> bool) \<Rightarrow> string \<Rightarrow> string \<Rightarrow> (string \<times> string) option" where
  "set_language host_ok lang next_url =
     (case urlsplit host_ok next_url of
        None \<Rightarrow> None
      | Some p \<Rightarrow>
          Some (if on_this_host p next_url
                then su_path p @ (if su_query p = [] then [] else CHR ''?'' # su_query p)
                else if starts_with ''/admin/'' (su_path p) then ''/admin/dashboard'' else ''/submit'',
                if lang \<in> set LANGS then lang else ''en''))"

section \<open>Health and the front page\<close>

definition health :: "bool \<Rightarrow> bool \<Rightarrow> (string \<times> string) list \<times> nat" where
  "health database_up redis_up =
     ([(''status'', if database_up \<and> redis_up then ''ok'' else ''degraded''),
       (''database'', if database_up then ''ok'' else ''error''), (''redis'', if redis_up then ''ok'' else ''error'')],
      if database_up \<and> redis_up then 200 else 503)"

definition index_page :: "db \<Rightarrow> string" where
  "index_page d = (if is_setup_complete d then ''/submit'' else ''/setup'')"

section \<open>Errors\<close>

datatype error_answer = Error_page nat string | Error_json nat | See_other string

definition HTML_ERROR_DETAIL_KEYS :: "nat list" where
  "HTML_ERROR_DETAIL_KEYS = [400, 401, 403, 404, 409, 422]"

definition error_key :: "nat \<Rightarrow> string" where
  "error_key status =
     (if status \<in> set HTML_ERROR_DETAIL_KEYS then ''error.detail.'' @ string_of_int (int status) else ''error.detail.generic'')"

text \<open>A refusal of a handler; \<open>None\<close> stands for a form that does not validate.\<close>

definition answer_error :: "string \<Rightarrow> refusal option \<Rightarrow> error_answer" where
  "answer_error accept raised =
     (case raised of
        None \<Rightarrow> Error_page 422 (error_key 422)
      | Some Change_password \<Rightarrow> See_other ''/admin/account''
      | Some (Status status) \<Rightarrow>
          (if sublist ''text/html'' accept then Error_page status (error_key status) else Error_json status))"

section \<open>The redirect stays here\<close>

lemma until_set: "c \<in> set (until cs s) \<Longrightarrow> c \<in> set s \<and> c \<notin> cs"
  by (auto simp: until_def dest: set_takeWhileD)

lemma after_set: "c \<in> set (after cs s) \<Longrightarrow> c \<in> set s"
  by (auto simp: after_def dest: set_dropWhileD)

lemma unsafe_set: "c \<in> set (unsafe_removed s) \<Longrightarrow> c \<in> set s"
  by (auto simp: unsafe_removed_def dest: set_dropWhileD)

lemma until_all [simp]: "set s \<inter> cs = {} \<Longrightarrow> until cs s = s" "set s \<inter> cs = {} \<Longrightarrow> after cs s = []"
  unfolding until_def after_def by (rule takeWhile_eq_all_conv [THEN iffD2]; auto) (auto simp: dropWhile_eq_Nil_conv)

lemma until_after: "until cs s @ after cs s = s"
  by (simp add: until_def after_def)

lemma set_until: "set (until cs s) \<subseteq> set s"
  using until_set by blast

lemma set_after: "set (after cs s) \<subseteq> set s"
  using after_set by blast

lemma set_tl: "set (tl s) \<subseteq> set s"
  by (cases s) auto

lemma path_from:
  assumes "urlsplit host_ok s = Some p"
  shows "set (su_path p) \<subseteq> set s"
proof -
  define url where "url = unsafe_removed s"
  define front where "front = until {CHR '':''} url"
  define has_scheme where "has_scheme = (front \<noteq> url \<and> front \<noteq> [] \<and> letter (hd front) \<and> list_all scheme_char front)"
  define url1 where "url1 = (if has_scheme then tl (after {CHR '':''} url) else url)"
  define url2 where "url2 = (if take 2 url1 = ''//'' then after (set ''/?#'') (drop 2 url1) else url1)"
  have "su_path p = until {CHR ''?''} (until {CHR ''#''} url2)"
    using assms unfolding urlsplit_def Let_def url_def [symmetric] front_def [symmetric] has_scheme_def [symmetric]
      url1_def [symmetric] url2_def [symmetric] by (auto split: if_splits)
  moreover have "set (until {CHR ''?''} (until {CHR ''#''} url2)) \<subseteq> set url2" by (meson set_until subset_trans)
  moreover have "set url2 \<subseteq> set url1"
    unfolding url2_def using set_after [of "set ''/?#''" "drop 2 url1"] set_drop_subset [of 2 url1] by (simp split: if_split) blast
  moreover have "set url1 \<subseteq> set url"
    unfolding url1_def using set_tl [of "after {CHR '':''} url"] set_after [of "{CHR '':''}" url] by (simp split: if_split) blast
  moreover have "set url \<subseteq> set s" using unsafe_set by (auto simp: url_def)
  ultimately show ?thesis by (metis subset_trans)
qed

text \<open>The address of a page: what a browser's address bar shows behind the host.\<close>

definition page_address :: "string \<Rightarrow> bool" where
  "page_address s \<longleftrightarrow> starts_with ''/'' s \<and> \<not> starts_with ''//'' s \<and> last s \<noteq> CHR ''?'' \<and>
     set s \<inter> {CHR 0x5C, CHR ''#'', CHR 0x09, CHR 0x0A, CHR 0x0D} = {}"

lemma urlsplit_address:
  assumes "page_address s" "host_ok []"
  shows "urlsplit host_ok s = Some \<lparr>su_scheme = [], su_netloc = [], su_path = until {CHR ''?''} s, su_query = tl (after {CHR ''?''} s)\<rparr>"
proof -
  obtain t where s: "s = CHR ''/'' # t" using assms(1) by (cases s) (auto simp: page_address_def starts_with_def)
  have "filter (\<lambda>c. c \<noteq> CHR 0x09 \<and> c \<noteq> CHR 0x0A \<and> c \<noteq> CHR 0x0D) t = t"
    using assms(1) by (intro filter_True) (auto simp: page_address_def s)
  then have url: "unsafe_removed s = s" by (simp add: unsafe_removed_def s)
  have host: "take 2 s \<noteq> ''//''" using assms(1) by (simp add: page_address_def starts_with_def numeral_2_eq_2)
  have front: "until {CHR '':''} s = CHR ''/'' # until {CHR '':''} t" by (simp add: s until_def)
  have slash: "letter (CHR ''/'') = False" by code_simp
  have hash: "until {CHR ''#''} s = s" using assms(1) by (intro until_all) (auto simp: page_address_def)
  show ?thesis
    unfolding urlsplit_def Let_def url front list.sel slash simp_thms if_False host eq_False [THEN iffD2, OF host] hash
    using assms(2) by simp
qed

text \<open>
  Setting the language never sends a browser to another host, whatever the form says: the answer's
  address begins with one slash and neither a second nor a backslash; the cookie names a language there
  is. From a page of this host it leads back to that page, query included.
\<close>

theorem language_redirect_stays_here:
  "(\<forall>loc l. set_language host_ok lang next_url = Some (loc, l) \<longrightarrow>
      take 1 loc = ''/'' \<and> take 2 loc \<noteq> ''//'' \<and> take 2 loc \<noteq> [CHR ''/'', CHR 0x5C] \<and> l \<in> set LANGS) \<and>
   (page_address next_url \<and> host_ok [] \<longrightarrow> map_option fst (set_language host_ok lang next_url) = Some next_url)"
proof (intro conjI allI impI)
  fix loc l assume "set_language host_ok lang next_url = Some (loc, l)"
  then obtain p where p: "urlsplit host_ok next_url = Some p"
    and loc: "loc = (if on_this_host p next_url then su_path p @ (if su_query p = [] then [] else CHR ''?'' # su_query p)
        else if starts_with ''/admin/'' (su_path p) then ''/admin/dashboard'' else ''/submit'')"
    and l: "l = (if lang \<in> set LANGS then lang else ''en'')"
    by (auto simp: set_language_def split: option.splits)
  show "l \<in> set LANGS" by (simp add: l LANGS_def)
  have "take 1 loc = ''/'' \<and> take 2 loc \<noteq> ''//'' \<and> take 2 loc \<noteq> [CHR ''/'', CHR 0x5C]"
  proof (cases "on_this_host p next_url")
    case True
    then obtain t where t: "su_path p = CHR ''/'' # t" by (cases "su_path p") (auto simp: on_this_host_def starts_with_def)
    have "CHR 0x5C \<notin> set t" using True path_from [OF p] t by (auto simp: on_this_host_def)
    moreover have "take 1 t \<noteq> ''/''" using True t by (auto simp: on_this_host_def starts_with_def)
    ultimately show ?thesis using loc True t by (cases t) auto
  next
    case False
    then show ?thesis by (simp add: loc)
  qed
  then show "take 1 loc = ''/''" "take 2 loc \<noteq> ''//''" "take 2 loc \<noteq> [CHR ''/'', CHR 0x5C]" by blast+
next
  assume h: "page_address next_url \<and> host_ok []"
  then obtain t where s: "next_url = CHR ''/'' # t" by (cases next_url) (auto simp: page_address_def starts_with_def)
  have path: "until {CHR ''?''} next_url = CHR ''/'' # until {CHR ''?''} t" by (simp add: s until_def)
  have "\<not> starts_with ''//'' (until {CHR ''?''} next_url)"
  proof
    assume "starts_with ''//'' (until {CHR ''?''} next_url)"
    then have "starts_with ''//'' next_url"
      using until_after [of "{CHR ''?''}" next_url] by (metis append_Nil2 starts_with_def take_append append_eq_conv_conj append.assoc append_take_drop_id)
    then show False using h by (simp add: page_address_def)
  qed
  moreover have "until {CHR ''?''} next_url @ (if tl (after {CHR ''?''} next_url) = [] then [] else CHR ''?'' # tl (after {CHR ''?''} next_url)) = next_url"
  proof (cases "after {CHR ''?''} next_url")
    case Nil
    then show ?thesis using until_after [of "{CHR ''?''}" next_url] by simp
  next
    case (Cons c cs)
    then have c: "c = CHR ''?''" by (simp add: after_def dropWhile_eq_Cons_conv)
    have whole: "next_url = until {CHR ''?''} next_url @ c # cs" using Cons until_after [of "{CHR ''?''}" next_url] by simp
    then have "cs \<noteq> []" using h c by (metis last_snoc page_address_def)
    then show ?thesis using whole Cons c by simp
  qed
  ultimately show "map_option fst (set_language host_ok lang next_url) = Some next_url"
    using h urlsplit_address [of next_url host_ok]
    by (auto simp: set_language_def on_this_host_def page_address_def path starts_with_def)
qed

theorem language_redirect_stays_here_witness:
  "set_language (\<lambda>_. True) ''de'' ''/status?x=1'' = Some (''/status?x=1'', ''de'') \<and>
   (\<exists>loc l. set_language (\<lambda>_. True) ''xx'' ''//evil.example'' = Some (loc, l) \<and> take 2 loc \<noteq> ''//'')"
proof
  have "page_address ''/status?x=1''" by code_simp
  then have "map_option fst (set_language (\<lambda>_. True) ''de'' ''/status?x=1'') = Some ''/status?x=1''"
    using language_redirect_stays_here [of "\<lambda>_. True" "''de''" "''/status?x=1''"] by blast
  moreover have "map_option snd (set_language (\<lambda>_. True) ''de'' ''/status?x=1'') = Some ''de''" by code_simp
  ultimately show "set_language (\<lambda>_. True) ''de'' ''/status?x=1'' = Some (''/status?x=1'', ''de'')" by auto
  have evil: "set_language (\<lambda>_. True) ''xx'' ''//evil.example'' \<noteq> None" by code_simp
  obtain loc l where e: "set_language (\<lambda>_. True) ''xx'' ''//evil.example'' = Some (loc, l)"
    by (cases "set_language (\<lambda>_. True) ''xx'' ''//evil.example''") (simp add: evil, metis surj_pair)
  with language_redirect_stays_here [of "\<lambda>_. True" "''xx''" "''//evil.example''"]
  show "\<exists>loc l. set_language (\<lambda>_. True) ''xx'' ''//evil.example'' = Some (loc, l) \<and> take 2 loc \<noteq> ''//''" by blast
qed

text \<open>A host with one bracket makes \<open>urlsplit\<close> raise, and the page answers with an error of the server.\<close>

lemma bracket_is_a_server_error: "set_language host_ok lang ''//['' = None"
  by (simp add: set_language_def urlsplit_def Let_def unsafe_removed_def until_def after_def)

end
