(* ===== verification/Start_Up.thy ===== *)
theory Start_Up
  imports Notifications Telemetry First_Run
begin

text \<open>
  What the program checks before it serves a request and which jobs it then runs (\<open>lifespan\<close> in
  \<open>app/main.py\<close>). Alembic's migrations and the demo's sample data are functions on the database, the
  key columns are passed as they are stored; logging is left out.
\<close>

section \<open>Jobs\<close>

datatype trigger = Every_minutes int | Aligned_minutes int | Daily_at nat | Hourly | At_once

definition RETENTION_HOUR_UTC :: nat where "RETENTION_HOUR_UTC = 3"

definition start_jobs :: "settings \<Rightarrow> (string \<times> trigger) list" where
  "start_jobs cfg =
     (if cfg_reminder_enabled cfg then [(''sla_reminders'', Every_minutes 30)] else []) @
     (if cfg_retention_enabled cfg then [(''retention_cleanup'', Daily_at RETENTION_HOUR_UTC)] else []) @
     (if batching_enabled cfg then [(''notification_digest'', Aligned_minutes (cfg_notification_batch_minutes cfg))] else []) @
     (if cfg_update_check cfg then [(''update_check'', Daily_at 4), (''update_check_startup'', At_once)] else []) @
     (if schedule cfg then [(''telemetry'', Hourly)] else [])"

definition scheduler_needed :: "settings \<Rightarrow> bool" where
  "scheduler_needed cfg \<longleftrightarrow> cfg_reminder_enabled cfg \<or> cfg_retention_enabled cfg \<or> cfg_update_check cfg \<or>
     batching_enabled cfg \<or> \<not> hard_off cfg"

section \<open>Starting\<close>

datatype start_refusal = Data_unreadable | Migration_failed | Default_org_missing

record installation =
  in_redis :: redis
  in_db :: db
  in_keys :: "string list"
  in_secrets :: "string list"

record started =
  st_jobs :: "(string \<times> trigger) list"
  st_rekey :: bool

record host =
  ho_migrate :: "installation \<Rightarrow> bool \<times> installation"
  ho_seed :: "installation \<Rightarrow> installation"
  ho_token :: string

definition default_org_lost :: "settings \<Rightarrow> db \<Rightarrow> bool" where
  "default_org_lost cfg d \<longleftrightarrow> cfg_multi_tenancy cfg \<and> is_setup_complete d \<and> active_default_org_id cfg d = None"

definition start_up :: "env \<Rightarrow> host \<Rightarrow> installation \<Rightarrow> (start_refusal + started) \<times> installation" where
  "start_up e h w =
     (let cfg = env_cfg e in
      if \<not> configured_keys_read_existing_data (env_crypto e) cfg (in_keys w) (in_secrets w) then (Inl Data_unreadable, w)
      else (let (migrated, w1) = ho_migrate h w in
            if \<not> migrated then (Inl Migration_failed, w1)
            else if default_org_lost cfg (in_db w1) then (Inl Default_org_missing, w1)
            else (let w2 = (if \<not> cfg_demo_mode cfg \<and> \<not> is_setup_complete (in_db w1)
                            then w1\<lparr>in_redis := snd (ensure_setup_token e (in_redis w1) (ho_token h))\<rparr> else w1);
                      w3 = (if cfg_demo_mode cfg then ho_seed h w2 else w2)
                  in (Inr \<lparr>st_jobs = (if scheduler_needed cfg then start_jobs cfg else []), st_rekey = cfg_storage_s3 cfg\<rparr>, w3))))"

text \<open>At the end the queue is delivered: Redis keeps nothing on disk.\<close>

definition shut_down :: "settings \<Rightarrow> channels \<Rightarrow> queue \<Rightarrow> outgoing list \<times> queue" where
  "shut_down cfg ch q = (if batching_enabled cfg then deliver_notification_digest cfg ch q else ([], q))"

section \<open>The key is checked before anything is written\<close>

text \<open>A column of tokens: what is stored there is sealed under one of the keys, or is no token.\<close>

definition sealed_under :: "crypto \<Rightarrow> string list \<Rightarrow> string list \<Rightarrow> bool" where
  "sealed_under cr keys column \<longleftrightarrow> (\<forall>t \<in> set column. \<exists>k \<in> set keys. \<exists>m. t = cr_seal cr k m)"

lemma find_all:
  assumes "find p xs = Some t"
  shows "t \<in> set (filter p xs)"
  using assms by (auto simp: find_Some_iff)

lemma multi_open_foreign:
  assumes "fernet_ok cr (old # ks)" "old \<notin> set ks"
  shows "multi_open cr ks (cr_seal cr old m) = None"
proof -
  have "multi_open cr js (cr_seal cr old m) = None" if "set js \<subseteq> set ks" for js
    using that
  proof (induction js)
    case (Cons j js)
    then have "j \<in> set ks" "j \<noteq> old" using assms(2) by auto
    then have "cr_open cr j (cr_seal cr old m) = None" using assms(1) unfolding fernet_ok_def by auto
    with Cons show ?case by simp
  qed simp
  then show ?thesis by blast
qed

lemma probe_reads:
  assumes "fernet_ok cr (make_mek_fernet cr cfg)" "fernet_ok cr (make_fernet cr cfg)"
    "sealed_under cr (make_mek_fernet cr cfg) (filter (\<lambda>t. t \<noteq> []) ks)"
    "sealed_under cr (make_fernet cr cfg) (filter (starts_with FERNET_PREFIX) ts)"
  shows "configured_keys_read_existing_data cr cfg ks ts"
proof -
  have "decrypt_dek cr cfg t \<noteq> None" if "find (\<lambda>t. t \<noteq> []) ks = Some t" for t
    using find_all [OF that] assms(3) multi_open_seal [OF assms(1)] by (fastforce simp: sealed_under_def decrypt_dek_def)
  moreover have "decrypt cr cfg t \<noteq> None" if "find (starts_with FERNET_PREFIX) ts = Some t" for t
    using find_all [OF that] assms(4) multi_open_seal [OF assms(2)] by (fastforce simp: sealed_under_def decrypt_def)
  ultimately show ?thesis by (auto simp: configured_keys_read_existing_data_def split: option.split)
qed


text \<open>An installation whose only wrapped key is under a key that was taken out of the settings.\<close>

definition orphaned :: "env \<Rightarrow> installation" where
  "orphaned e = \<lparr>in_redis = [], in_db = empty_db, in_keys = [cr_seal (env_crypto e) (cr_hkdf (env_crypto e) ''old'') ''D''], in_secrets = []\<rparr>"

definition plain_host :: host where
  "plain_host = \<lparr>ho_migrate = (\<lambda>w. (True, w)), ho_seed = id, ho_token = ''t''\<rparr>"

definition renamed_env :: env where
  "renamed_env = toy_env\<lparr>env_cfg := sample_settings\<lparr>cfg_encryption_key := ''new'', cfg_encryption_key_previous := []\<rparr>\<rparr>"

lemma renamed_keys:
  "env_crypto renamed_env = toy_crypto" "cr_hkdf toy_crypto ''old'' = ''mold''"
  "make_mek_fernet toy_crypto (env_cfg renamed_env) = [''mnew'']" "make_fernet toy_crypto (env_cfg renamed_env) = [''snew'']"
  by (simp_all add: renamed_env_def toy_env_def make_mek_fernet_def make_fernet_def encryption_keys_def toy_crypto_def)


end
