(* ===== verification/Command_Line.thy ===== *)
theory Command_Line
  imports User_Admin
begin

text \<open>
  The operator's script for a lost password or authenticator (\<open>scripts/reset_admin_password.py\<close>): what
  it asks, what it changes, its exit status. The terminal is the list of lines typed; what is printed is
  left out, the new authenticator's secret excepted.
\<close>

definition list_users :: "db \<Rightarrow> user list" where
  "list_users d = sort_key usr_created_at (db_users d)"

definition password_allowed :: "string \<Rightarrow> bool" where
  "password_allowed password \<longleftrightarrow> (case validate_password password of Inl _ \<Rightarrow> False | Inr _ \<Rightarrow> True)"

text \<open>\<open>None\<close> where the lines end before two of them agree.\<close>

fun prompt_password :: "string list \<Rightarrow> string option" where
  "prompt_password [] = None"
| "prompt_password (pw1 # rest) =
     (if \<not> password_allowed pw1 then prompt_password rest
      else (case rest of
              [] \<Rightarrow> None
            | pw2 # rest' \<Rightarrow> if pw1 \<noteq> pw2 then prompt_password rest' else Some pw1))"

definition end_sessions :: "env \<Rightarrow> uuid \<Rightarrow> redis \<Rightarrow> redis" where
  "end_sessions e i r = snd (revoke_user_sessions e r i None)"

definition reset_password :: "env \<Rightarrow> string \<Rightarrow> string \<Rightarrow> redis \<times> db \<Rightarrow> bool \<times> redis \<times> db" where
  "reset_password e username new_password = (\<lambda>(r, d).
     (case get_user_by_username d username of
        None \<Rightarrow> (False, r, d)
      | Some u \<Rightarrow>
          (let d1 = set_user (usr_id u)
                 (\<lambda>x. x\<lparr>usr_password_hash := Some (hash_password (env_crypto e) new_password), usr_must_change := True\<rparr>) d;
               d2 = log_system e 0 ''admin.password_reset''
                 [(''username'', usr_username u), (''via'', ''command line'')] (usr_org u) d1
           in (True, end_sessions e (usr_id u) r, d2))))"

definition reset_totp :: "env \<Rightarrow> string \<Rightarrow> redis \<times> db \<Rightarrow> string option \<times> redis \<times> db" where
  "reset_totp e username = (\<lambda>(r, d).
     (case get_user_by_username d username of
        None \<Rightarrow> (None, r, d)
      | Some u \<Rightarrow>
          (let secret = env_token e 0;
               d1 = set_user (usr_id u) (\<lambda>x. (require_new_authenticator secret x)\<lparr>usr_totp_enabled := True\<rparr>) d;
               d2 = log_system e 0 ''admin.totp_reset''
                 [(''username'', usr_username u), (''via'', ''command line'')] (usr_org u) d1
           in (Some secret, end_sessions e (usr_id u) r, d2))))"

datatype command = List_accounts | Reset_totp string | Set_password string "string option"

text \<open>The exit status and, of a new authenticator, the secret that is shown once.\<close>

definition run_command :: "env \<Rightarrow> string list \<Rightarrow> command \<Rightarrow> redis \<times> db \<Rightarrow> (nat \<times> string option) \<times> redis \<times> db" where
  "run_command e typed c w =
     (case c of
        List_accounts \<Rightarrow> ((0, None), w)
      | Reset_totp name \<Rightarrow>
          (let (secret, w') = reset_totp e name w in ((if secret = None then 1 else 0, secret), w'))
      | Set_password name given \<Rightarrow>
          (let password =
               (case given of
                  Some p \<Rightarrow> if p \<noteq> [] then (if password_allowed p then Some p else None) else prompt_password typed
                | None \<Rightarrow> prompt_password typed)
           in case password of
                None \<Rightarrow> ((1, None), w)
              | Some p \<Rightarrow> (let (done_it, w') = reset_password e name p w in ((if done_it then 0 else 1, None), w'))))"

section \<open>What a reset leaves behind\<close>

lemma allowed_valid: "password_allowed p \<Longrightarrow> validate_password p = Inr p"
  by (auto simp: password_allowed_def validate_password_def split: if_splits)

lemma prompted_allowed: "prompt_password lines = Some p \<Longrightarrow> password_allowed p"
  by (induction lines rule: prompt_password.induct) (auto split: if_splits list.splits)

lemma sessions_ended:
  assumes "p \<in> set SWEEP_PREFIXES" "millis e \<le> later"
  shows "kv_get later (end_sessions e i r) (p @ cr_hmac (env_crypto e) token) \<noteq> Some (Ref i)"
proof -
  obtain n r' where "revoke_user_sessions e r i None = (n, r')" by (cases "revoke_user_sessions e r i None")
  with sweep_ends_sessions [OF this assms] show ?thesis by (auto simp: end_sessions_def)
qed

definition account_reset :: "env \<Rightarrow> user \<Rightarrow> user \<Rightarrow> string \<Rightarrow> redis \<times> db \<Rightarrow> redis \<times> db \<Rightarrow> bool" where
  "account_reset e u u' action w w' \<longleftrightarrow>
     u \<in> set (db_users (snd w)) \<and>
     db_users (snd w') = map (\<lambda>x. if usr_id x = usr_id u then u' else x) (db_users (snd w)) \<and>
     (\<exists>x. db_audit (snd w') = db_audit (snd w) @ [x] \<and> aud_action x = action \<and> aud_org x = usr_org u \<and>
        aud_detail x = Some [(''username'', usr_username u), (''via'', ''command line'')]) \<and>
     (\<forall>p \<in> set SWEEP_PREFIXES. \<forall>later token. millis e \<le> later \<longrightarrow>
        kv_get later (fst w') (p @ cr_hmac (env_crypto e) token) \<noteq> Some (Ref (usr_id u)))"

lemma map_same_key:
  assumes "distinct (map usr_id xs)" "u \<in> set xs" "u' = f u"
  shows "update_row usr_id (usr_id u) f xs = map (\<lambda>x. if usr_id x = usr_id u then u' else x) xs"
  using assms unfolding update_row_def by (intro map_cong refl) (auto simp: distinct_map inj_on_def)



end
