(* ===== verification/Printed_Record.thy ===== *)
theory Printed_Record
  imports Dashboard
begin

text \<open>
  The printed case record (\<open>app/services/pdf.py\<close>): the lines of the PDF in their order. Fonts, colours,
  rules and page breaks are left out, as is the PDF format. A translation in the exporting admin's
  language is an argument, a function of the key and its values; text outside ASCII is its UTF-8 bytes.
\<close>

type_synonym translator = "string \<Rightarrow> (string \<times> string) list \<Rightarrow> string"

datatype printed =
    Centred string
  | Section string
  | Meta string string
  | Bold string
  | Body string
  | Line string

section \<open>Text\<close>

definition control_char :: "char \<Rightarrow> bool" where
  "control_char c \<longleftrightarrow>
     (let n = of_char c :: nat in n \<le> 8 \<or> n = 11 \<or> n = 12 \<or> 14 \<le> n \<and> n \<le> 31 \<or> n = 127)"

definition safe_text :: "string \<Rightarrow> string" where "safe_text s = filter (\<lambda>c. \<not> control_char c) s"

definition two_digits :: "int \<Rightarrow> string" where
  "two_digits n = (if n < 10 then CHR ''0'' # string_of_int n else string_of_int n)"

definition date_text :: "moment \<Rightarrow> string" where
  "date_text t = (case day_ymd (t div day_us) of (y, m, d) \<Rightarrow>
     string_of_int y @ ''-'' @ two_digits m @ ''-'' @ two_digits d)"

definition fmt_dt :: "moment \<Rightarrow> string" where
  "fmt_dt t =
     (let minute = t mod day_us div 60000000
      in date_text t @ '' '' @ two_digits (minute div 60) @ '':'' @ two_digits (minute mod 60) @ '' UTC'')"

definition format_day :: "moment \<Rightarrow> string" where "format_day t = date_text (day_floor t)"

definition meta_row :: "string \<Rightarrow> string \<Rightarrow> printed" where
  "meta_row label v = Meta (label @ '':'') (safe_text v)"

definition MIDDLE_DOT :: string where
  "MIDDLE_DOT = [CHR '' '', CHR '' '', CHR 0xC2, CHR 0xB7, CHR '' '', CHR '' '']"

definition given :: "string option \<Rightarrow> bool" where "given x \<longleftrightarrow> x \<noteq> None \<and> x \<noteq> Some []"

section \<open>The parts of the record\<close>

definition printed_category :: "string option \<Rightarrow> report \<Rightarrow> string" where
  "printed_category label r = (if given label then the label else category_label (rep_category r) (\<lambda>_. None))"

definition mode_name :: "submission_mode \<Rightarrow> string" where
  "mode_name m = (case m of Anonymous \<Rightarrow> ''anonymous'' | Confidential \<Rightarrow> ''confidential'')"

definition time_row :: "string \<Rightarrow> moment option \<Rightarrow> printed list" where
  "time_row label t = (case t of None \<Rightarrow> [] | Some x \<Rightarrow> [meta_row label (fmt_dt x)])"

definition secret_row :: "translator \<Rightarrow> crypto \<Rightarrow> settings \<Rightarrow> string \<Rightarrow> string option \<Rightarrow> printed list" where
  "secret_row t cr cfg label x =
     (if given x
      then [meta_row label (case decrypt_or_none cr cfg x of
                              None \<Rightarrow> t ''pdf.encrypted'' [] | Some v \<Rightarrow> if v = [] then t ''pdf.encrypted'' [] else v)]
      else [])"

definition identity_rows :: "translator \<Rightarrow> crypto \<Rightarrow> settings \<Rightarrow> bool \<Rightarrow> report \<Rightarrow> printed list" where
  "identity_rows t cr cfg include r =
     (if given (rep_conf_name r) \<or> given (rep_conf_contact r)
      then (if include
            then secret_row t cr cfg (t ''pdf.confidential_name'' []) (rep_conf_name r) @
                 secret_row t cr cfg (t ''pdf.confidential_contact'' []) (rep_conf_contact r)
            else [meta_row (t ''pdf.identity'' []) (t ''pdf.identity_withheld'' [])])
      else []) @
     (if given (rep_secure_email r)
      then [meta_row (t ''pdf.secure_email'' []) (t ''pdf.secure_email_withheld'' [])] else [])"

definition case_rows :: "translator \<Rightarrow> crypto \<Rightarrow> settings \<Rightarrow> db \<Rightarrow> bool \<Rightarrow> string option \<Rightarrow> report \<Rightarrow> printed list" where
  "case_rows t cr cfg d include label r =
     [Section (t ''pdf.case_info'' []),
      meta_row (t ''pdf.case_number'' []) (rep_case_number r),
      meta_row (t ''pdf.category'' []) (printed_category label r),
      meta_row (t ''pdf.status'' []) (t (''status.label.'' @ status_name (rep_status r)) []),
      meta_row (t ''pdf.mode'' []) (t (''submit.step.mode.'' @ mode_name (rep_mode r) @ ''.label'') [])] @
     (case rep_location r of
        None \<Rightarrow> []
      | Some i \<Rightarrow>
          (case row loc_id i (db_locations d) of
             None \<Rightarrow> []
           | Some l \<Rightarrow> [meta_row (t ''pdf.location'' []) (loc_name l @ '' ('' @ loc_code l @ '')'')])) @
     [meta_row (t ''pdf.submitted'' []) (format_day (rep_submitted_at r))] @
     time_row (t ''pdf.acknowledged'' []) (rep_acknowledged_at r) @
     time_row (t ''pdf.feedback_due'' []) (rep_feedback_due_at r) @
     time_row (t ''pdf.closed'' []) (rep_closed_at r) @
     (case rep_assigned r of
        None \<Rightarrow> []
      | Some i \<Rightarrow>
          (case user_of d i of None \<Rightarrow> [] | Some u \<Rightarrow> [meta_row (t ''pdf.assigned_to'' []) (usr_username u)])) @
     identity_rows t cr cfg include r"

text \<open>The statutory deadlines; \<open>None\<close> where a date leaves the calendar.\<close>

definition ack_label :: "translator \<Rightarrow> report \<Rightarrow> moment \<Rightarrow> string option" where
  "ack_label t r now =
     (let submitted = utc (rep_submitted_at r); acknowledged = map_option utc (rep_acknowledged_at r) in
      case ack_status submitted acknowledged (utc now) of
        None \<Rightarrow> None
      | Some ack \<Rightarrow>
          (if dl_state ack \<noteq> Is_done then Some (t ''pdf.ack.pending'' [(''days'', string_of_int (dl_days ack))])
           else map_option (\<lambda>on_time. t (if on_time then ''pdf.ack.compliant'' else ''pdf.ack.late'') [])
                  (ack_on_time submitted acknowledged)))"

definition feedback_rows :: "translator \<Rightarrow> report \<Rightarrow> moment \<Rightarrow> printed list" where
  "feedback_rows t r now =
     (case feedback_status (map_option utc (rep_feedback_due_at r)) (map_option utc (rep_feedback_sent_at r)) (utc now) of
        None \<Rightarrow> []
      | Some f \<Rightarrow>
          [meta_row (t ''pdf.feedback'' [])
             (if dl_state f = Is_done
              then t (case rep_feedback_sent_at r of
                        Some s \<Rightarrow> if s > instant (dl_due f) then ''pdf.feedback.late'' else ''pdf.feedback.done''
                      | None \<Rightarrow> ''pdf.feedback.done'') []
              else if dl_state f = Is_overdue then t ''pdf.feedback.overdue'' []
              else t ''pdf.feedback.days'' [(''days'', string_of_int (dl_days f))])])"

definition message_items :: "translator \<Rightarrow> nat \<times> message \<times> string \<Rightarrow> printed list" where
  "message_items t = (\<lambda>(i, m, content).
     [Bold (t (if msg_sender m = From_admin then ''pdf.sender.admin'' else ''pdf.sender.whistleblower'') [] @ MIDDLE_DOT @
            (if whistleblower_caused m i then format_day (msg_sent_at m) else fmt_dt (msg_sent_at m))),
      Body (safe_text content)])"

definition note_items :: "admin_note \<times> string \<Rightarrow> printed list" where
  "note_items = (\<lambda>(n, content).
     [Bold (safe_text (note_author_name n) @ MIDDLE_DOT @ fmt_dt (note_created_at n)), Body (safe_text content)])"

definition attachment_item :: "attachment \<times> string \<Rightarrow> printed" where
  "attachment_item = (\<lambda>(a, name).
     Line (''- '' @ safe_text name @ ''  ('' @ string_of_int (int (att_size a div 1024)) @ '' KB, '' @ att_type a @ '')''))"

text \<open>A part that is there only with something to list under its heading.\<close>

definition part :: "string \<Rightarrow> printed list \<Rightarrow> printed list" where
  "part heading items = (if items = [] then [] else Section heading # items)"

definition notes_of :: "db \<Rightarrow> uuid \<Rightarrow> admin_note list" where
  "notes_of d i = sort_key note_created_at (filter (\<lambda>n. note_report n = i) (db_notes d))"

definition generate_report_pdf ::
  "translator \<Rightarrow> crypto \<Rightarrow> settings \<Rightarrow> (string \<Rightarrow> string) \<Rightarrow> string list \<Rightarrow> moment \<Rightarrow> db \<Rightarrow> report \<Rightarrow> bool \<Rightarrow> string option \<Rightarrow> string
     \<Rightarrow> printed list option" where
  "generate_report_pdf t cr cfg receipt langs now d r include label lang =
     (case (decrypt_report_fields cr cfg receipt langs d r (Some lang), ack_label t r now,
            decrypt_note_contents cr cfg d r, decrypt_attachment_names cr cfg d r) of
        (Some (description, texts), Some ack, Some notes, Some names) \<Rightarrow>
          Some ([Centred (t ''pdf.title'' []), Centred (t ''pdf.generated'' [(''when'', fmt_dt now)])] @
                case_rows t cr cfg d include label r @
                [Section (t ''pdf.sla'' []), meta_row (t ''pdf.ack'' []) ack] @ feedback_rows t r now @
                [Section (t ''pdf.initial'' []), Body (safe_text description)] @
                part (t ''pdf.thread'' [])
                  (concat (map (message_items t) (enumerate 0 (zip (messages_of d (rep_id r)) texts)))) @
                part (t ''pdf.notes'' []) (concat (map note_items (zip (notes_of d (rep_id r)) notes))) @
                part (t ''pdf.attachments'' []) (map attachment_item (zip (attachments_of d (rep_id r)) names)) @
                [Centred (t ''pdf.footer'' [])])
      | _ \<Rightarrow> None)"

section \<open>The two exports\<close>

record reading =
  rd_t :: translator
  rd_receipt :: "string \<Rightarrow> string"
  rd_langs :: "string list"
  rd_builtin :: "string \<Rightarrow> string \<Rightarrow> string option"
  rd_lang :: string

definition print_case :: "env \<Rightarrow> reading \<Rightarrow> db \<Rightarrow> report \<Rightarrow> bool \<Rightarrow> refusal + printed list" where
  "print_case e g d r include =
     (let labels = get_category_labels (rd_builtin g) (rd_lang g) (report_org (env_cfg e) (rep_org r)) (db_categories d) in
      case generate_report_pdf (rd_t g) (env_crypto e) (env_cfg e) (rd_receipt g) (rd_langs g) (env_now e) d r include
             (Some (category_label (rep_category r) labels)) (rd_lang g) of
        None \<Rightarrow> Inl (Status 500) | Some doc \<Rightarrow> Inr doc)"

definition exported_pdf :: "env \<Rightarrow> reading \<Rightarrow> db \<Rightarrow> user \<Rightarrow> uuid \<Rightarrow> (refusal + printed list) \<times> db" where
  "exported_pdf e g d u i =
     (case get_authorized_report (env_cfg e) d i u of
        Inl x \<Rightarrow> (Inl x, d)
      | Inr r \<Rightarrow>
          (let d1 = audit_log e 1 u ''report.exported'' (Some (rep_id r)) [] None d in (print_case e g d1 r False, d1)))"

definition exported_identity :: "env \<Rightarrow> reading \<Rightarrow> db \<Rightarrow> user \<Rightarrow> uuid \<Rightarrow> string \<Rightarrow> (refusal + (response + printed list)) \<times> db" where
  "exported_identity e g d u i reason =
     (case reveal_gate e d u i reason of
        Inl x \<Rightarrow> (Inl x, d)
      | Inr (Inl (page, d1)) \<Rightarrow> (Inr (Inl page), d1)
      | Inr (Inr (r, valid, d1)) \<Rightarrow>
          (let d2 = audit_log e 2 u ''report.identity_revealed'' (Some (rep_id r))
                      [(''reason'', encrypt (env_crypto e) (env_cfg e) valid), (''via'', ''pdf'')] None d1
           in (map_sum id Inr (print_case e g d2 r True), d2)))"

section \<open>What the record does not depend on\<close>

definition with_identity :: "string option \<Rightarrow> string option \<Rightarrow> string option \<Rightarrow> report \<Rightarrow> report" where
  "with_identity name contact mail r = r\<lparr>rep_conf_name := name, rep_conf_contact := contact, rep_secure_email := mail\<rparr>"

definition says :: "message \<Rightarrow> sender \<times> string" where "says m = (msg_sender m, msg_content m)"

lemma decrypt_report_fields_says:
  assumes "map says (messages_of d' (rep_id r)) = map says (messages_of d (rep_id r))"
  shows "decrypt_report_fields cr cfg receipt langs d' r lang = decrypt_report_fields cr cfg receipt langs d r lang"
proof -
  have texts: "map (\<lambda>m. f (msg_content m)) (messages_of d' (rep_id r)) = map (\<lambda>m. f (msg_content m)) (messages_of d (rep_id r))"
    for f :: "string \<Rightarrow> string"
    using arg_cong [OF assms, of "map (\<lambda>p. f (snd p))"] by (simp add: says_def comp_def)
  have senders: "map (\<lambda>(m, t). f (msg_sender m) t) (zip (messages_of d' (rep_id r)) ts) =
    map (\<lambda>(m, t). f (msg_sender m) t) (zip (messages_of d (rep_id r)) ts)" for f :: "sender \<Rightarrow> string \<Rightarrow> string" and ts
  proof -
    have "map (\<lambda>(p, t). f (fst p) t) (zip (map says (messages_of d' (rep_id r))) ts) =
      map (\<lambda>(p, t). f (fst p) t) (zip (map says (messages_of d (rep_id r))) ts)" by (simp only: assms)
    then show ?thesis by (simp add: zip_map1 says_def comp_def case_prod_unfold)
  qed
  show ?thesis
    unfolding decrypt_report_fields_def Let_def texts texts [of "\<lambda>x. x", simplified]
      senders [of "\<lambda>s t. if s = From_admin \<and> t \<in> receipt ` set langs then receipt l else t" for l] by (rule refl)
qed

text \<open>A time moved within what the record prints of it.\<close>

definition prints_alike :: "nat \<Rightarrow> message \<Rightarrow> moment \<Rightarrow> bool" where
  "prints_alike k m t \<longleftrightarrow> (if whistleblower_caused m k then day_floor t = day_floor (msg_sent_at m) else t = msg_sent_at m)"

lemma message_items_alike:
  "prints_alike k m t \<Longrightarrow> message_items f (k, m\<lparr>msg_sent_at := t\<rparr>, c) = message_items f (k, m, c)"
  by (simp add: message_items_def prints_alike_def whistleblower_caused_def format_day_def split: if_splits)

lemma thread_alike:
  assumes "length moved = length ms" "\<forall>k < length ms. prints_alike (b + k) (ms ! k) (moved ! k)"
  shows "map (message_items f) (enumerate b (zip (map2 (\<lambda>m t. m\<lparr>msg_sent_at := t\<rparr>) ms moved) texts)) =
    map (message_items f) (enumerate b (zip ms texts))"
  using assms
proof (induction ms arbitrary: moved texts b)
  case (Cons m ms)
  from Cons.prems(1) obtain t ts where moved: "moved = t # ts" "length ts = length ms" by (cases moved) auto
  have "prints_alike b m t" using Cons.prems(2) moved by (auto dest!: spec [of _ 0])
  moreover have "\<forall>k < length ms. prints_alike (Suc b + k) (ms ! k) (ts ! k)"
    using Cons.prems(2) moved by (metis Suc_less_eq add_Suc add_Suc_right length_Cons nth_Cons_Suc)
  ultimately show ?case using Cons.IH [OF moved(2), of "Suc b"] moved
    by (cases texts) (simp_all add: message_items_alike)
qed simp

lemma thread_empty: "concat (map (message_items f) xs) = [] \<longleftrightarrow> xs = []"
  by (cases xs) (simp_all add: message_items_def split: prod.splits)

lemma identity_rows_withheld:
  assumes "given n \<or> given c \<longleftrightarrow> given (rep_conf_name r) \<or> given (rep_conf_contact r)" "given m \<longleftrightarrow> given (rep_secure_email r)"
  shows "identity_rows t cr cfg False (with_identity n c m r) = identity_rows t cr cfg False r"
  using assms by (simp add: identity_rows_def with_identity_def)

lemma with_identity_same [simp]:
  "rep_id (with_identity n c m r) = rep_id r" "rep_dek (with_identity n c m r) = rep_dek r"
  "rep_org (with_identity n c m r) = rep_org r" "rep_assigned (with_identity n c m r) = rep_assigned r"
  "rep_description (with_identity n c m r) = rep_description r" "rep_category (with_identity n c m r) = rep_category r"
  "rep_status (with_identity n c m r) = rep_status r" "rep_location (with_identity n c m r) = rep_location r"
  "rep_mode (with_identity n c m r) = rep_mode r" "rep_case_number (with_identity n c m r) = rep_case_number r"
  "rep_submitted_at (with_identity n c m r) = rep_submitted_at r"
  "rep_acknowledged_at (with_identity n c m r) = rep_acknowledged_at r"
  "rep_feedback_due_at (with_identity n c m r) = rep_feedback_due_at r"
  "rep_feedback_sent_at (with_identity n c m r) = rep_feedback_sent_at r"
  "rep_closed_at (with_identity n c m r) = rep_closed_at r"
  by (simp_all add: with_identity_def)

lemma with_identity_fields:
  "decrypt_report_fields cr cfg receipt langs d (with_identity n c m r) lang = decrypt_report_fields cr cfg receipt langs d r lang"
  "decrypt_note_contents cr cfg d (with_identity n c m r) = decrypt_note_contents cr cfg d r"
  "decrypt_attachment_names cr cfg d (with_identity n c m r) = decrypt_attachment_names cr cfg d r"
  "ack_label t (with_identity n c m r) now = ack_label t r now"
  "feedback_rows t (with_identity n c m r) now = feedback_rows t r now"
  "printed_category label (with_identity n c m r) = printed_category label r"
  unfolding decrypt_report_fields_def decrypt_note_contents_def decrypt_attachment_names_def ack_label_def
    feedback_rows_def printed_category_def with_identity_same by (rule refl)+

lemma same_tables_fields:
  assumes "db_notes d' = db_notes d" "db_attachments d' = db_attachments d"
  shows "decrypt_note_contents cr cfg d' r = decrypt_note_contents cr cfg d r"
    "decrypt_attachment_names cr cfg d' r = decrypt_attachment_names cr cfg d r"
    "notes_of d' i = notes_of d i" "attachments_of d' i = attachments_of d i"
  using assms by (simp_all add: decrypt_note_contents_def decrypt_attachment_names_def notes_of_def attachments_of_def)

lemma case_rows_withheld:
  assumes "given n \<or> given c \<longleftrightarrow> given (rep_conf_name r) \<or> given (rep_conf_contact r)" "given m \<longleftrightarrow> given (rep_secure_email r)"
    "db_users d' = db_users d" "db_locations d' = db_locations d"
  shows "case_rows t cr cfg d' False label (with_identity n c m r) = case_rows t cr cfg d False label r"
  unfolding case_rows_def identity_rows_withheld [OF assms(1,2)] assms(3,4) user_of_def with_identity_fields
    with_identity_same by (rule refl)

lemma generate_alike:
  assumes tables: "db_notes d' = db_notes d" "db_attachments d' = db_attachments d" "db_users d' = db_users d"
      "db_locations d' = db_locations d"
    and moved: "messages_of d' (rep_id r) = map2 (\<lambda>m t. m\<lparr>msg_sent_at := t\<rparr>) (messages_of d (rep_id r)) moved"
      "length moved = length (messages_of d (rep_id r))"
      "\<forall>k < length moved. prints_alike k (messages_of d (rep_id r) ! k) (moved ! k)"
    and withheld: "given n \<or> given c \<longleftrightarrow> given (rep_conf_name r) \<or> given (rep_conf_contact r)"
      "given m \<longleftrightarrow> given (rep_secure_email r)"
  shows "generate_report_pdf t cr cfg receipt langs now d' (with_identity n c m r) False label lang =
    generate_report_pdf t cr cfg receipt langs now d r False label lang"
proof -
  have says: "map says (messages_of d' (rep_id r)) = map says (messages_of d (rep_id r))"
    unfolding moved(1) by (rule nth_equalityI) (simp_all add: says_def moved(2))
  have thread: "map (message_items t) (enumerate 0 (zip (messages_of d' (rep_id r)) texts)) =
    map (message_items t) (enumerate 0 (zip (messages_of d (rep_id r)) texts))" for texts
    unfolding moved(1) by (rule thread_alike) (use moved(2,3) in simp_all)
  show ?thesis
    unfolding generate_report_pdf_def with_identity_fields same_tables_fields [OF tables(1,2)] with_identity_same
      decrypt_report_fields_says [OF says] thread case_rows_withheld [OF withheld tables(3,4)]
    by (rule refl)
qed

text \<open>
  C38. A case leaves the system as a file without the reporter: the export without identity prints the same
  whatever name, contact and mail address are stored, and at whatever hour of the day the reporter wrote;
  only that there is a name or contact, that there is an address, and the days are in it.
\<close>

theorem export_withholds_the_reporter:
  assumes found: "report_of d i = Some r"
    and withheld: "given n \<or> given c \<longleftrightarrow> given (rep_conf_name r) \<or> given (rep_conf_contact r)"
      "given m \<longleftrightarrow> given (rep_secure_email r)"
    and d': "d' = set_report i (with_identity n c m) (d\<lparr>db_messages := ms\<rparr>)"
    and moved: "messages_of d' i = map2 (\<lambda>m t. m\<lparr>msg_sent_at := t\<rparr>) (messages_of d i) moved"
      "length moved = length (messages_of d i)"
      "\<forall>k < length moved. prints_alike k (messages_of d i ! k) (moved ! k)"
  shows "fst (exported_pdf e g d' u i) = fst (exported_pdf e g d u i)"
proof -
  have i: "rep_id r = i" using found by (auto simp: report_of_def dest: row_Some)
  have found': "report_of d' i = Some (with_identity n c m r)"
    using found by (simp add: d' report_of_def set_report_def row_update)
  have access: "can_access_report (env_cfg e) u (with_identity n c m r) = can_access_report (env_cfg e) u r"
    by (simp add: can_access_report_def)
  show ?thesis
  proof (cases "can_access_report (env_cfg e) u r")
    case True
    let ?log = "audit_log e 1 u ''report.exported'' (Some i) [] None"
    have tables: "db_notes (?log d') = db_notes (?log d)" "db_attachments (?log d') = db_attachments (?log d)"
      "db_users (?log d') = db_users (?log d)" "db_locations (?log d') = db_locations (?log d)"
      "db_categories (?log d') = db_categories (?log d)" "messages_of (?log x) j = messages_of x j" for x j
      by (simp_all add: d' set_report_def audit_log_def messages_of_def)
    have "print_case e g (?log d') (with_identity n c m r) False = print_case e g (?log d) r False"
      unfolding print_case_def with_identity_same tables(5)
      by (subst generate_alike [where d = "?log d" and moved = moved])
        (use tables moved withheld i in simp_all)
    with True found found' i show ?thesis
      by (simp add: exported_pdf_def get_authorized_report_def access Let_def)
  next
    case False
    then show ?thesis using found found' by (simp add: exported_pdf_def get_authorized_report_def access)
  qed
qed

definition sample_reading :: reading where
  "sample_reading = \<lparr>rd_t = (\<lambda>k _. k), rd_receipt = (\<lambda>l. ''receipt '' @ l), rd_langs = [''en''],
     rd_builtin = (\<lambda>_ _. None), rd_lang = ''en''\<rparr>"

definition told_case :: "moment \<Rightarrow> string \<Rightarrow> db" where
  "told_case t name = empty_db\<lparr>db_reports := [with_identity (Some name) None None (sample_report 10 None (Some 1))],
     db_messages := [\<lparr>msg_id = 5, msg_report = 10, msg_sender = From_whistleblower, msg_content = ''hello'', msg_sent_at = t\<rparr>]\<rparr>"

theorem export_withholds_the_reporter_witness:
  "told_case 0 ''Jane'' \<noteq> told_case 3600000000 ''Joe'' \<and>
   fst (exported_pdf sample_env sample_reading (told_case 3600000000 ''Joe'') (sample_user 1 Case_manager None) 10) =
   fst (exported_pdf sample_env sample_reading (told_case 0 ''Jane'') (sample_user 1 Case_manager None) 10)"
proof
  have "db_messages (told_case 0 ''Jane'') \<noteq> db_messages (told_case 3600000000 ''Joe'')" by (simp add: told_case_def)
  then show "told_case 0 ''Jane'' \<noteq> told_case 3600000000 ''Joe''" by metis
  have d': "told_case 3600000000 ''Joe'' = set_report 10 (with_identity (Some ''Joe'') None None)
      (told_case 0 ''Jane''\<lparr>db_messages := db_messages (told_case 3600000000 ''Joe'')\<rparr>)"
    by (simp add: told_case_def set_report_def update_row_def with_identity_def sample_report_def)
  show "fst (exported_pdf sample_env sample_reading (told_case 3600000000 ''Joe'') (sample_user 1 Case_manager None) 10) =
    fst (exported_pdf sample_env sample_reading (told_case 0 ''Jane'') (sample_user 1 Case_manager None) 10)"
    by (rule export_withholds_the_reporter [where r = "with_identity (Some ''Jane'') None None (sample_report 10 None (Some 1))"
          and n = "Some ''Joe''" and c = None and m = None and moved = "[3600000000]", OF _ _ _ d'])
      (simp_all add: told_case_def report_of_def row_def given_def with_identity_def sample_report_def messages_of_def
        prints_alike_def whistleblower_caused_def day_floor_def day_us_def)
qed

section \<open>What is in it\<close>

fun body_of :: "printed \<Rightarrow> string list" where "body_of (Body s) = [s]" | "body_of _ = []"
fun line_of :: "printed \<Rightarrow> string list" where "line_of (Line s) = [s]" | "line_of _ = []"

definition bodies :: "printed list \<Rightarrow> string list" where "bodies doc = concat (map body_of doc)"
definition listed_lines :: "printed list \<Rightarrow> string list" where "listed_lines doc = concat (map line_of doc)"

lemma printed_simps [simp]:
  "bodies [] = []" "bodies (x # xs) = body_of x @ bodies xs" "bodies (xs @ ys) = bodies xs @ bodies ys"
  "listed_lines [] = []" "listed_lines (x # xs) = line_of x @ listed_lines xs"
  "listed_lines (xs @ ys) = listed_lines xs @ listed_lines ys"
  "body_of (meta_row l v) = []" "line_of (meta_row l v) = []"
  by (simp_all add: bodies_def listed_lines_def meta_row_def)

lemma printed_part [simp]: "bodies (part h xs) = bodies xs" "listed_lines (part h xs) = listed_lines xs"
  by (simp_all add: part_def)

lemma printed_rows:
  "bodies (case_rows t cr cfg d include label r) = []" "listed_lines (case_rows t cr cfg d include label r) = []"
  "bodies (feedback_rows t r now) = []" "listed_lines (feedback_rows t r now) = []"
  by (simp_all add: case_rows_def identity_rows_def secret_row_def time_row_def feedback_rows_def split: option.splits)

lemma printed_thread:
  assumes "length texts = length ms"
  shows "bodies (concat (map (message_items t) (enumerate b (zip ms texts)))) = map safe_text texts"
    "listed_lines (concat (map (message_items t) (enumerate b (zip ms texts)))) = []"
  using assms by (induction texts ms arbitrary: b rule: list_induct2) (simp_all add: message_items_def)

lemma printed_notes:
  assumes "length texts = length ns"
  shows "bodies (concat (map note_items (zip ns texts))) = map safe_text texts"
    "listed_lines (concat (map note_items (zip ns texts))) = []"
  using assms by (induction texts ns rule: list_induct2) (simp_all add: note_items_def)

lemma printed_names:
  assumes "length names = length atts"
  shows "bodies (map attachment_item (zip atts names)) = []"
    "length (listed_lines (map attachment_item (zip atts names))) = length atts"
  using assms by (induction names atts rule: list_induct2) (simp_all add: attachment_item_def)

lemma decrypted_lengths:
  "decrypt_report_fields cr cfg receipt langs d r lang = Some (x, texts) \<Longrightarrow> length texts = length (messages_of d (rep_id r))"
  "decrypt_note_contents cr cfg d r = Some notes \<Longrightarrow> length notes = length (notes_of d (rep_id r))"
  "decrypt_attachment_names cr cfg d r = Some names \<Longrightarrow> length names = length (attachments_of d (rep_id r))"
  by (auto simp: decrypt_report_fields_def decrypt_note_contents_def decrypt_attachment_names_def notes_of_def Let_def
      split: option.splits if_splits)

text \<open>
  A printed case is complete: the description, every message of the thread, every note, in their order
  and nothing else, and a line for every attachment; the identity is in it exactly as the kind of export says.
\<close>

theorem export_holds_the_case:
  assumes "print_case e g d r include = Inr doc"
  shows "\<exists>description texts remarks names before after.
    decrypt_report_fields (env_crypto e) (env_cfg e) (rd_receipt g) (rd_langs g) d r (Some (rd_lang g)) = Some (description, texts) \<and>
    decrypt_note_contents (env_crypto e) (env_cfg e) d r = Some remarks \<and>
    decrypt_attachment_names (env_crypto e) (env_cfg e) d r = Some names \<and>
    length texts = length (messages_of d (rep_id r)) \<and>
    bodies doc = map safe_text (description # texts @ remarks) \<and>
    listed_lines doc = concat (map (line_of \<circ> attachment_item) (zip (attachments_of d (rep_id r)) names)) \<and>
    length (listed_lines doc) = length (attachments_of d (rep_id r)) \<and>
    doc = before @ identity_rows (rd_t g) (env_crypto e) (env_cfg e) include r @ after"
proof -
  from assms obtain label description texts ack remarks names where
    parts: "decrypt_report_fields (env_crypto e) (env_cfg e) (rd_receipt g) (rd_langs g) d r (Some (rd_lang g)) = Some (description, texts)"
      "decrypt_note_contents (env_crypto e) (env_cfg e) d r = Some remarks"
      "decrypt_attachment_names (env_crypto e) (env_cfg e) d r = Some names"
    and doc: "doc = [Centred (rd_t g ''pdf.title'' []), Centred (rd_t g ''pdf.generated'' [(''when'', fmt_dt (env_now e))])] @
                case_rows (rd_t g) (env_crypto e) (env_cfg e) d include label r @
                [Section (rd_t g ''pdf.sla'' []), meta_row (rd_t g ''pdf.ack'' []) ack] @ feedback_rows (rd_t g) r (env_now e) @
                [Section (rd_t g ''pdf.initial'' []), Body (safe_text description)] @
                part (rd_t g ''pdf.thread'' [])
                  (concat (map (message_items (rd_t g)) (enumerate 0 (zip (messages_of d (rep_id r)) texts)))) @
                part (rd_t g ''pdf.notes'' []) (concat (map note_items (zip (notes_of d (rep_id r)) remarks))) @
                part (rd_t g ''pdf.attachments'' []) (map attachment_item (zip (attachments_of d (rep_id r)) names)) @
                [Centred (rd_t g ''pdf.footer'' [])]"
    unfolding print_case_def generate_report_pdf_def Let_def
    by (auto split: option.splits prod.splits)
  note lengths = decrypted_lengths(1) [OF parts(1)] decrypted_lengths(2) [OF parts(2)] decrypted_lengths(3) [OF parts(3)]
  have "bodies doc = map safe_text (description # texts @ remarks)"
    by (simp add: doc printed_rows printed_thread [OF lengths(1)] printed_notes [OF lengths(2)] printed_names [OF lengths(3)])
  moreover have listed: "listed_lines doc = listed_lines (map attachment_item (zip (attachments_of d (rep_id r)) names))"
    by (simp add: doc printed_rows printed_thread [OF lengths(1)] printed_notes [OF lengths(2)])
  moreover have "\<exists>b a. case_rows t cr cfg d include label r = b @ identity_rows t cr cfg include r @ a" for t cr cfg
    unfolding case_rows_def append_assoc [symmetric]
    by (rule exI, rule exI [of _ "[]"], subst append_Nil2, rule refl)
  then have "\<exists>b a. doc = b @ identity_rows (rd_t g) (env_crypto e) (env_cfg e) include r @ a"
    unfolding doc by (metis append_assoc)
  ultimately show ?thesis
    using parts lengths printed_names(2) [OF lengths(3)] by (auto simp: listed_lines_def)
qed

definition jane :: report where
  "jane = with_identity (Some ''Jane'') None None (sample_report 10 None (Some 1))"

theorem export_holds_the_case_witness:
  "\<exists>doc. print_case sample_env sample_reading (told_case 0 ''Jane'') jane True = Inr doc \<and> bodies doc = [''x'', ''hello'']"
proof -
  have plain: "decrypt_report_fields cr cfg f l (told_case 0 ''Jane'') jane (Some ''en'') = Some (''x'', [''hello''])"
      "decrypt_note_contents cr cfg (told_case 0 ''Jane'') jane = Some []"
      "decrypt_attachment_names cr cfg (told_case 0 ''Jane'') jane = Some []" for cr cfg f l
    by (simp_all add: decrypt_report_fields_def decrypt_note_contents_def decrypt_attachment_names_def told_case_def
        messages_of_def attachments_of_def jane_def with_identity_def sample_report_def empty_db_def)
  have lang: "rd_lang sample_reading = ''en''" by (simp add: sample_reading_def)
  have "ack_label (rd_t sample_reading) jane (env_now sample_env) \<noteq> None" by code_simp
  then have "\<exists>doc. print_case sample_env sample_reading (told_case 0 ''Jane'') jane True = Inr doc"
    unfolding print_case_def generate_report_pdf_def lang plain Let_def by (auto simp del: One_nat_def)
  then obtain doc where doc: "print_case sample_env sample_reading (told_case 0 ''Jane'') jane True = Inr doc" ..
  have "bodies doc = map safe_text [''x'', ''hello'']"
    using export_holds_the_case [OF doc] by (auto simp: plain lang)
  with doc show ?thesis by (auto simp: safe_text_def control_char_def Let_def)
qed

end
