(* ===== verification/Case_Page.thy ===== *)
theory Case_Page
  imports Printed_Record User_Admin Integrity Attachment_Store
begin

text \<open>
  What the staff's pages show: the page of a case (\<open>_render_report\<close>, \<open>report_detail\<close>, \<open>reveal_identity\<close>
  in \<open>app/api/admin.py\<close>) and those of retention, the system and the organisations. A page is the context
  its template is given. The language's receipt, when the scheduler fires next and the build's check of
  its own files are arguments.
\<close>

section \<open>The page of a case\<close>

record linked_case =
  lc_link :: uuid
  lc_case_number :: string
  lc_category :: string
  lc_status :: status
  lc_id :: uuid

record case_page =
  cp_report :: report
  cp_description :: string
  cp_messages :: "string list"
  cp_notes :: "string list"
  cp_names :: "string list"
  cp_now :: moment
  cp_transitions :: "status list"
  cp_admins :: "user list"
  cp_linked :: "linked_case list"
  cp_labels :: "string \<Rightarrow> string option"
  cp_audit :: "audit_entry list"
  cp_is_admin :: bool
  cp_has_identity :: bool
  cp_can_reveal :: bool
  cp_identity :: "(string option \<times> string option) option"
  cp_errors :: "(string \<times> string) list"
  cp_reason :: string
  cp_has_mail :: bool
  cp_status :: nat

definition offered_admins :: "settings \<Rightarrow> db \<Rightarrow> report \<Rightarrow> user list" where
  "offered_admins cfg d r =
     filter (\<lambda>a. \<not> cfg_multi_tenancy cfg \<or> rep_org r = None \<or> usr_org a = rep_org r) (get_all_users d)"

definition shown_links :: "settings \<Rightarrow> db \<Rightarrow> user \<Rightarrow> report \<Rightarrow> linked_case list" where
  "shown_links cfg d u r =
     concat (map (\<lambda>(i, l).
       case get_report_by_id d i of
         None \<Rightarrow> []
       | Some x \<Rightarrow>
           (if can_access_report cfg u x
            then [\<lparr>lc_link = l, lc_case_number = rep_case_number x, lc_category = rep_category x,
                   lc_status = rep_status x, lc_id = rep_id x\<rparr>]
            else [])) (get_linked_reports d r))"

definition case_log :: "db \<Rightarrow> report \<Rightarrow> audit_entry list" where
  "case_log d r =
     fst (get_audit_log d \<lparr>aq_report = Some (rep_id r), aq_action = [], aq_admin = None,
            aq_exclude = ''report.viewed'', aq_scope_org = False, aq_org = None, aq_viewer = None\<rparr> 1 (Some 20))"

definition render_report ::
  "env \<Rightarrow> reading \<Rightarrow> db \<Rightarrow> report \<Rightarrow> user \<Rightarrow> (string option \<times> string option) option \<Rightarrow> (string \<times> string) list \<Rightarrow> nat \<Rightarrow> string
     \<Rightarrow> refusal + case_page" where
  "render_report e g d r u identity errors status_code reason_draft =
     (let cr = env_crypto e; cfg = env_cfg e in
      case (decrypt_report_fields cr cfg (rd_receipt g) (rd_langs g) d r (Some (rd_lang g)),
            decrypt_note_contents cr cfg d r, decrypt_attachment_names cr cfg d r) of
        (Some (description, texts), Some notes, Some names) \<Rightarrow>
          Inr \<lparr>cp_report = r, cp_description = description, cp_messages = texts, cp_notes = notes, cp_names = names,
               cp_now = env_now e, cp_transitions = STATUS_TRANSITIONS (rep_status r),
               cp_admins = offered_admins cfg d r, cp_linked = shown_links cfg d u r,
               cp_labels = get_category_labels (rd_builtin g) (rd_lang g) (report_org cfg (rep_org r)) (db_categories d),
               cp_audit = case_log d r, cp_is_admin = (usr_role u \<in> {Admin, Superadmin}),
               cp_has_identity = (given (rep_conf_name r) \<or> given (rep_conf_contact r)),
               cp_can_reveal = can_reveal_identity cfg u r, cp_identity = identity, cp_errors = errors,
               cp_reason = reason_draft, cp_has_mail = given (rep_secure_email r), cp_status = status_code\<rparr>
      | _ \<Rightarrow> Inl (Status 500))"

text \<open>The handlers with the page they answer; the database is the one they commit before they render.\<close>

definition report_page :: "env \<Rightarrow> reading \<Rightarrow> db \<Rightarrow> user \<Rightarrow> uuid \<Rightarrow> (refusal + case_page) \<times> db" where
  "report_page e g d u i =
     (case get_authorized_report (env_cfg e) d i u of
        Inl x \<Rightarrow> (Inl x, d)
      | Inr r \<Rightarrow>
          (let d1 = audit_log e 1 u ''report.viewed'' (Some (rep_id r)) [] None d
           in (render_report e g d1 r u None [] 200 [], d1)))"

definition identity_page :: "env \<Rightarrow> reading \<Rightarrow> db \<Rightarrow> user \<Rightarrow> uuid \<Rightarrow> string \<Rightarrow> (refusal + case_page) \<times> db" where
  "identity_page e g d u i reason =
     (case reveal_gate e d u i reason of
        Inl x \<Rightarrow> (Inl x, d)
      | Inr (Inl (_, d1)) \<Rightarrow>
          (case get_authorized_report (env_cfg e) d i u of
             Inl x \<Rightarrow> (Inl x, d1)
           | Inr r \<Rightarrow> (render_report e g d1 r u None [(''reason'', ''admin.report.identity.reason_error'')] 422 reason, d1))
      | Inr (Inr (r, valid, d1)) \<Rightarrow>
          (let d2 = audit_log e 2 u ''report.identity_revealed'' (Some (rep_id r))
                      [(''reason'', encrypt (env_crypto e) (env_cfg e) valid)] None d1
           in (render_report e g d2 r u
                 (Some (decrypt_or_none (env_crypto e) (env_cfg e) (rep_conf_name r),
                        decrypt_or_none (env_crypto e) (env_cfg e) (rep_conf_contact r))) [] 200 [], d2)))"

section \<open>The pages of the instance\<close>

record retention_view =
  rv_enabled :: bool
  rv_days :: int
  rv_next :: moment
  rv_none_due :: bool

definition retention_page :: "env \<Rightarrow> (moment \<Rightarrow> moment) \<Rightarrow> user \<Rightarrow> refusal + retention_view" where
  "retention_page e next_run u =
     on_ok (require_admin u) (\<lambda>_.
       case cutoff (utc (env_now e)) (cfg_retention_days (env_cfg e)) of
         None \<Rightarrow> Inl (Status 500)
       | Some c \<Rightarrow>
           Inr \<lparr>rv_enabled = cfg_retention_enabled (env_cfg e), rv_days = cfg_retention_days (env_cfg e),
                rv_next = next_run (env_now e), rv_none_due = (instant c < ymd_day 2026 1 1 * day_us)\<rparr>)"

record count_view =
  cv_enabled :: bool
  cv_locked_by :: "string option"
  cv_installation :: "string option"
  cv_url :: "string option"
  cv_last_sent :: "moment option"
  cv_env :: "bool option"
  cv_endpoint :: string
  cv_version :: string

definition count_view_of :: "settings \<Rightarrow> telemetry_state option \<Rightarrow> count_view" where
  "count_view_of cfg state =
     \<lparr>cv_enabled = is_enabled cfg state, cv_locked_by = locked_by cfg,
      cv_installation = map_option tel_installation_id state,
      cv_url = map_option (\<lambda>s. report_url cfg (tel_installation_id s)) state,
      cv_last_sent = Option.bind state tel_last_sent_at, cv_env = cfg_telemetry cfg,
      cv_endpoint = TELEMETRY_ENDPOINT, cv_version = cfg_app_version cfg\<rparr>"

record system_view =
  sy_update :: update_status
  sy_integrity :: "(string \<times> json) list"
  sy_count :: count_view

definition system_page ::
  "env \<Rightarrow> page_tools \<Rightarrow> string \<Rightarrow> (unit \<Rightarrow> integrity_result option) \<Rightarrow> redis \<Rightarrow> db \<Rightarrow> user \<Rightarrow> params \<Rightarrow> (refusal + system_view) \<times> redis" where
  "system_page e t host verify r d u qp =
     (case require_instance_admin (env_cfg e) u of
        Inl x \<Rightarrow> (Inl x, r)
      | Inr _ \<Rightarrow>
          (case get_update_status (env_cfg e) (pt_json t) (pt_repr t) (millis e) r (cfg_app_version (env_cfg e)) of
             Inl _ \<Rightarrow> (Inl (Status 500), r)
           | Inr update \<Rightarrow>
               (case get_integrity_status (pt_json t) (millis e) host verify (param qp ''recheck'' [] = ''1'') r of
                  (None, r1) \<Rightarrow> (Inl (Status 500), r1)
                | (Some integrity, r1) \<Rightarrow>
                    (Inr \<lparr>sy_update = update, sy_integrity = integrity,
                          sy_count = count_view_of (env_cfg e) (db_telemetry d)\<rparr>, r1))))"

record organisations_view =
  ov_orgs :: "organisation list"
  ov_default :: string
  ov_public_url :: "string option"

definition organisations_page :: "settings \<Rightarrow> db \<Rightarrow> user \<Rightarrow> refusal + organisations_view" where
  "organisations_page cfg d u =
     on_ok (require_tenants cfg u) (\<lambda>_.
       Inr \<lparr>ov_orgs = sort_key org_created_at (db_orgs d), ov_default = cfg_default_org_slug cfg,
            ov_public_url = (if cfg_multi_tenancy cfg then Some (rstrip_slash (cfg_app_public_url cfg)) else None)\<rparr>)"

section \<open>What a page offers\<close>

lemma render_report_Inr:
  assumes "render_report e g d r u identity errors status reason = Inr pg"
  shows "cp_report pg = r" "cp_transitions pg = STATUS_TRANSITIONS (rep_status r)"
    "cp_admins pg = offered_admins (env_cfg e) d r" "cp_linked pg = shown_links (env_cfg e) d u r"
    "cp_audit pg = case_log d r" "cp_is_admin pg = (usr_role u \<in> {Admin, Superadmin})"
    "cp_can_reveal pg = can_reveal_identity (env_cfg e) u r" "cp_identity pg = identity"
  using assms by (auto simp: render_report_def Let_def split: option.splits prod.splits)

lemma shown_link_ids:
  "j \<in> lc_id ` set (shown_links cfg d u r) \<longleftrightarrow>
   j \<in> fst ` set (get_linked_reports d r) \<and> (\<exists>x. report_of d j = Some x \<and> can_access_report cfg u x)"
proof -
  have "rep_id x = i" if "get_report_by_id d i = Some x" for i x
    using that row_Some [of rep_id i "db_reports d" x] by (simp add: get_report_by_id_def report_of_def)
  then show ?thesis
    by (force simp: shown_links_def get_report_by_id_def split: option.splits if_splits)
qed

lemma case_log_entries:
  assumes "x \<in> set (case_log d r)"
  shows "x \<in> set (db_audit d) \<and> aud_report x = Some (rep_id r) \<and> aud_action x \<noteq> ''report.viewed''"
proof -
  have "x \<in> set (newest_first (filter (audit_visible \<lparr>aq_report = Some (rep_id r), aq_action = [], aq_admin = None,
            aq_exclude = ''report.viewed'', aq_scope_org = False, aq_org = None, aq_viewer = None\<rparr>) (db_audit d)))"
    using assms by (auto simp: case_log_def get_audit_log_def page_of_def Let_def dest!: in_set_takeD in_set_dropD)
  then show ?thesis by (simp add: newest_first_def audit_visible_def)
qed

lemma status_of_name [simp]: "status_of (status_name s) = Some s"
  by (cases s) (simp_all add: status_of_def status_name_def)

lemma update_status_accepts:
  assumes "get_authorized_report (env_cfg e) d i u = Inr r"
  shows "(\<exists>out. update_status e d u i (status_name s) = Inr out) \<longleftrightarrow> s \<in> set (STATUS_TRANSITIONS (rep_status r))"
  using assms by (simp add: update_status_def is_valid_transition_def)

lemma uuid_text_not_Nil: "uuid_text i \<noteq> []"
  by (simp add: uuid_text_def)

lemma assign_accepts:
  assumes "get_authorized_report (env_cfg e) d i u = Inr r" "user_of d (usr_id a) = Some a" "usr_id a < 16 ^ 32"
  shows "(\<exists>out. assign_route e d u i (uuid_text (usr_id a)) = Inr out) \<longleftrightarrow>
    usr_role u \<in> {Admin, Superadmin} \<and> usr_active a \<and>
    (\<not> cfg_multi_tenancy (env_cfg e) \<or> rep_org r = None \<or> usr_org a = rep_org r)"
  using assms by (auto simp: assign_route_def on_ok_Inr require_admin_Inr uuid_text_not_Nil parse_uuid_text)

lemma user_of_row:
  assumes "distinct (map usr_id (db_users d))" "a \<in> set (db_users d)"
  shows "user_of d (usr_id a) = Some a"
proof -
  obtain b where "row usr_id (usr_id a) (db_users d) = Some b" using assms(2) by (fastforce simp: row_None dest: not_None_eq [THEN iffD2])
  moreover from row_Some [OF this] have "b = a" using assms by (auto simp: distinct_map dest: inj_onD)
  ultimately show ?thesis by (simp add: user_of_def)
qed

lemma logged_access [simp]:
  "report_of (audit_log e n x act rep det t d) j = report_of d j"
  "get_authorized_report cfg (audit_log e n x act rep det t d) j u = get_authorized_report cfg d j u"
  "get_linked_reports (audit_log e n x act rep det t d) r = get_linked_reports d r"
  "user_of (audit_log e n x act rep det t d) k = user_of d k"
  "get_all_users (audit_log e n x act rep det t d) = get_all_users d"
  "db_users (audit_log e n x act rep det t d) = db_users d"
  by (simp_all add: audit_log_def report_of_def get_authorized_report_def get_linked_reports_def user_of_def get_all_users_def)

lemma opens: "(\<exists>out. report_detail e d u j = Inr out) \<longleftrightarrow> (\<exists>x. report_of d j = Some x \<and> can_access_report (env_cfg e) u x)"
  by (auto simp: report_detail_def on_ok_Inr get_authorized_report_def split: option.splits if_splits)

lemma reveal_accepts:
  assumes "get_authorized_report (env_cfg e) d i u = Inr r" "validated_reason reason \<noteq> None"
  shows "(\<exists>x valid d2. reveal_gate e d u i reason = Inr (Inr (x, valid, d2))) \<longleftrightarrow> can_reveal_identity (env_cfg e) u r"
  using assms by (auto simp: reveal_gate_def)


definition two_accounts :: db where
  "two_accounts = empty_db\<lparr>db_reports := [sample_report 10 None None, sample_report 11 None None],
     db_users := [sample_user 1 Admin None, sample_user 2 Case_manager None],
     db_links := [\<lparr>lnk_id = 3, lnk_a = 10, lnk_b = 11, lnk_by = None, lnk_by_name = [], lnk_at = 0\<rparr>]\<rparr>"


end
