(* ===== verification/Regex.thy ===== *)
theory Regex
  imports Prelude
begin

text \<open>
  Python's \<open>re\<close> on bytes, as far as the attachment cleaners use it: characters by class, sequences,
  alternatives in order, greedy and lazy repetition, groups, a reference to a group, lookahead either way,
  a literal just before, and word boundaries. A match is a list of the ways a pattern matches, the way \<open>re\<close>
  takes first.
\<close>

datatype rx =
    Cls "byte \<Rightarrow> bool"
  | Eps
  | Seq rx rx
  | Alt rx rx
  | Star bool rx
  | Grp nat rx
  | Ref nat
  | Ahead rx
  | Not_ahead rx
  | Behind bytes
  | Edge

text \<open>What was read before, in reverse; what is left; what the groups hold.\<close>

type_synonym rx_state = "bytes \<times> bytes \<times> (nat \<times> bytes) list"

abbreviation left :: "rx_state \<Rightarrow> bytes" where "left s \<equiv> fst (snd s)"

primrec repeated :: "bool \<Rightarrow> (rx_state \<Rightarrow> rx_state list) \<Rightarrow> nat \<Rightarrow> rx_state \<Rightarrow> rx_state list" where
  "repeated greedy step 0 s = [s]"
| "repeated greedy step (Suc n) s =
     (let more = concat (map (repeated greedy step n) (filter (\<lambda>s'. length (left s') < length (left s)) (step s)))
      in if greedy then more @ [s] else s # more)"

definition word_byte :: "byte \<Rightarrow> bool" where
  "word_byte b \<longleftrightarrow> (let n = unat b in 48 \<le> n \<and> n \<le> 57 \<or> 65 \<le> n \<and> n \<le> 90 \<or> 97 \<le> n \<and> n \<le> 122 \<or> n = 95)"

definition space_byte :: "byte \<Rightarrow> bool" where
  "space_byte b \<longleftrightarrow> (let n = unat b in n = 32 \<or> 9 \<le> n \<and> n \<le> 13)"

definition digit_byte :: "byte \<Rightarrow> bool" where
  "digit_byte b \<longleftrightarrow> (let n = unat b in 48 \<le> n \<and> n \<le> 57)"

definition edge_here :: "bytes \<Rightarrow> bytes \<Rightarrow> bool" where
  "edge_here before rest \<longleftrightarrow> (before \<noteq> [] \<and> word_byte (hd before)) \<noteq> (rest \<noteq> [] \<and> word_byte (hd rest))"

primrec ways :: "rx \<Rightarrow> rx_state \<Rightarrow> rx_state list" where
  "ways (Cls p) = (\<lambda>(before, rest, gs). case rest of [] \<Rightarrow> [] | c # cs \<Rightarrow> if p c then [(c # before, cs, gs)] else [])"
| "ways Eps = (\<lambda>s. [s])"
| "ways (Seq a b) = (\<lambda>s. concat (map (ways b) (ways a s)))"
| "ways (Alt a b) = (\<lambda>s. ways a s @ ways b s)"
| "ways (Star greedy a) = (\<lambda>s. repeated greedy (ways a) (length (left s)) s)"
| "ways (Grp i a) = (\<lambda>(before, rest, gs).
     map (\<lambda>(before', rest', gs'). (before', rest', (i, rev (take (length before' - length before) before')) # gs'))
       (ways a (before, rest, gs)))"
| "ways (Ref i) = (\<lambda>(before, rest, gs).
     case map_of gs i of
       None \<Rightarrow> []
     | Some t \<Rightarrow> if take (length t) rest = t then [(rev t @ before, drop (length t) rest, gs)] else [])"
| "ways (Ahead a) = (\<lambda>s. if ways a s = [] then [] else [s])"
| "ways (Not_ahead a) = (\<lambda>s. if ways a s = [] then [s] else [])"
| "ways (Behind t) = (\<lambda>(before, rest, gs). if take (length t) before = rev t then [(before, rest, gs)] else [])"
| "ways Edge = (\<lambda>(before, rest, gs). if edge_here before rest then [(before, rest, gs)] else [])"

section \<open>Writing patterns\<close>

definition one_of :: "string \<Rightarrow> rx" where "one_of s = Cls (\<lambda>b. b \<in> set (bytes_of s))"
definition none_of :: "string \<Rightarrow> rx" where "none_of s = Cls (\<lambda>b. b \<notin> set (bytes_of s))"
definition any_byte :: rx where "any_byte = Cls (\<lambda>_. True)"

fun lit :: "bytes \<Rightarrow> rx" where
  "lit [] = Eps"
| "lit (b # bs) = Seq (Cls (\<lambda>c. c = b)) (lit bs)"

text \<open>A literal of which the case does not matter.\<close>

definition lower_byte :: "byte \<Rightarrow> byte" where
  "lower_byte b = (if 65 \<le> unat b \<and> unat b \<le> 90 then b + 32 else b)"

fun ilit :: "bytes \<Rightarrow> rx" where
  "ilit [] = Eps"
| "ilit (b # bs) = Seq (Cls (\<lambda>c. lower_byte c = lower_byte b)) (ilit bs)"

definition txt_rx :: "string \<Rightarrow> rx" where "txt_rx s = lit (bytes_of s)"
definition itxt :: "string \<Rightarrow> rx" where "itxt s = ilit (bytes_of s)"
definition many :: "rx \<Rightarrow> rx" where "many a = Star True a"
definition some_of :: "rx \<Rightarrow> rx" where "some_of a = Seq a (Star True a)"
definition maybe :: "rx \<Rightarrow> rx" where "maybe a = Alt a Eps"
definition lazily :: "rx \<Rightarrow> rx" where "lazily a = Star False a"
definition word :: rx where "word = Cls word_byte"
definition space :: rx where "space = Cls space_byte"

fun seqs :: "rx list \<Rightarrow> rx" where
  "seqs [] = Eps"
| "seqs [a] = a"
| "seqs (a # as) = Seq a (seqs as)"

fun alts :: "rx list \<Rightarrow> rx" where
  "alts [] = Cls (\<lambda>_. False)"
| "alts [a] = a"
| "alts (a # as) = Alt a (alts as)"

section \<open>Searching\<close>

definition group :: "(nat \<times> bytes) list \<Rightarrow> nat \<Rightarrow> bytes" where
  "group gs i = (case map_of gs i of None \<Rightarrow> [] | Some t \<Rightarrow> t)"

text \<open>\<open>re.sub\<close>: from left to right; none of the patterns matches the empty text.\<close>

fun sub_loop :: "rx \<Rightarrow> (bytes \<Rightarrow> (nat \<times> bytes) list \<Rightarrow> bytes) \<Rightarrow> bytes \<Rightarrow> bytes \<Rightarrow> bytes" where
  "sub_loop r new before [] = []"
| "sub_loop r new before (c # cs) =
     (case ways r (before, c # cs, []) of
        (before', rest', gs) # _ \<Rightarrow>
          (if length rest' \<le> length cs
           then new (rev (take (length before' - length before) before')) gs @ sub_loop r new before' rest'
           else c # sub_loop r new (c # before) cs)
      | [] \<Rightarrow> c # sub_loop r new (c # before) cs)"

definition re_sub :: "rx \<Rightarrow> (bytes \<Rightarrow> (nat \<times> bytes) list \<Rightarrow> bytes) \<Rightarrow> bytes \<Rightarrow> bytes" where
  "re_sub r new body = sub_loop r new [] body"

definition re_remove :: "rx \<Rightarrow> bytes \<Rightarrow> bytes" where
  "re_remove r body = re_sub r (\<lambda>_ _. []) body"

fun find_loop :: "rx \<Rightarrow> bytes \<Rightarrow> bytes \<Rightarrow> (nat \<times> bytes) list list" where
  "find_loop r before [] = []"
| "find_loop r before (c # cs) =
     (case ways r (before, c # cs, []) of
        (before', rest', gs) # _ \<Rightarrow>
          (if length rest' \<le> length cs then gs # find_loop r before' rest' else find_loop r (c # before) cs)
      | [] \<Rightarrow> find_loop r (c # before) cs)"

text \<open>\<open>re.findall\<close> with one group, \<open>re.search\<close> and \<open>re.fullmatch\<close> as tests.\<close>

definition re_findall :: "rx \<Rightarrow> bytes \<Rightarrow> bytes list" where
  "re_findall r body = map (\<lambda>gs. group gs 1) (find_loop r [] body)"

definition re_found :: "rx \<Rightarrow> bytes \<Rightarrow> bool" where "re_found r body \<longleftrightarrow> find_loop r [] body \<noteq> []"

definition re_match :: "rx \<Rightarrow> bytes \<Rightarrow> bool" where "re_match r body \<longleftrightarrow> ways r ([], body, []) \<noteq> []"

definition re_fullmatch :: "rx \<Rightarrow> bytes \<Rightarrow> bool" where
  "re_fullmatch r body \<longleftrightarrow> list_ex (\<lambda>s. left s = []) (ways r ([], body, []))"

section \<open>What a match consumes\<close>

definition moved_on :: "rx_state \<Rightarrow> rx_state \<Rightarrow> bool" where
  "moved_on s s' \<longleftrightarrow> (\<exists>u. left s = u @ left s' \<and> fst s' = rev u @ fst s)"

lemma moved_on_refl [simp]: "moved_on s s" by (simp add: moved_on_def)

lemma moved_on_trans: "moved_on a b \<Longrightarrow> moved_on b c \<Longrightarrow> moved_on a c"
  by (fastforce simp: moved_on_def)

lemma repeated_moves:
  assumes "\<And>s s'. s' \<in> set (step s) \<Longrightarrow> moved_on s s'"
  shows "s' \<in> set (repeated g step n s) \<Longrightarrow> moved_on s s'"
proof (induction n arbitrary: s)
  case (Suc n)
  then consider "s' = s" | t where "t \<in> set (step s)" "s' \<in> set (repeated g step n t)"
    by (auto simp: Let_def split: if_splits)
  then show ?case
  proof cases
    case 2
    then show ?thesis by (rule moved_on_trans [OF assms Suc.IH])
  qed simp
qed simp

lemma ways_move: "s' \<in> set (ways r s) \<Longrightarrow> moved_on s s'"
proof (induction r arbitrary: s s')
  case (Cls p)
  then show ?case by (auto simp: moved_on_def split: prod.splits list.splits if_splits)
next
  case (Seq a b)
  then obtain t where "t \<in> set (ways a s)" "s' \<in> set (ways b t)" by auto
  then show ?case using Seq.IH moved_on_trans by blast
next
  case (Alt a b)
  from Alt.prems have "s' \<in> set (ways a s) \<or> s' \<in> set (ways b s)" by simp
  then show ?case using Alt.IH by blast
next
  case (Star g a)
  show ?case by (rule repeated_moves [OF Star.IH]) (use Star.prems in simp_all)
next
  case (Grp i a)
  then obtain t where "t \<in> set (ways a s)" "fst s' = fst t" "left s' = left t" by (auto split: prod.splits)
  then show ?case using Grp.IH [of t s] by (simp add: moved_on_def)
next
  case (Ref i)
  then have "\<exists>t. take (length t) (left s) = t \<and> fst s' = rev t @ fst s \<and> left s' = drop (length t) (left s)"
    by (auto split: prod.splits option.splits if_splits)
  then obtain t where "take (length t) (left s) = t" "fst s' = rev t @ fst s" "left s' = drop (length t) (left s)" by blast
  then show ?case unfolding moved_on_def by (intro exI [of _ t]) (metis append_take_drop_id)
qed (auto split: prod.splits if_splits)

text \<open>A run of characters of a class: every prefix of it is a way, the longest one first.\<close>

lemma ways_many_Cls:
  "(b', rest', gs') \<in> set (ways (many (Cls p)) (b, xs, gs)) \<longleftrightarrow>
   gs' = gs \<and> (\<exists>u. xs = u @ rest' \<and> b' = rev u @ b \<and> list_all p u)"
proof -
  have "(b', rest', gs') \<in> set (repeated True (ways (Cls p)) n (b, xs, gs)) \<longleftrightarrow>
     gs' = gs \<and> (\<exists>u. xs = u @ rest' \<and> b' = rev u @ b \<and> list_all p u \<and> length u \<le> n)" for n
  proof (induction n arbitrary: b xs)
    case (Suc n)
    show ?case
    proof (cases xs)
      case (Cons c cs)
      have split: "(\<exists>u. c # cs = u @ rest' \<and> b' = rev u @ b \<and> list_all p u \<and> length u \<le> Suc n) \<longleftrightarrow>
        (rest' = c # cs \<and> b' = b) \<or> (p c \<and> (\<exists>u. cs = u @ rest' \<and> b' = rev u @ c # b \<and> list_all p u \<and> length u \<le> n))"
        (is "?L \<longleftrightarrow> ?R")
      proof
        assume ?L
        then obtain u where "c # cs = u @ rest'" "b' = rev u @ b" "list_all p u" "length u \<le> Suc n" by blast
        then show ?R by (cases u) auto
      next
        assume ?R
        then show ?L
        proof
          assume "rest' = c # cs \<and> b' = b"
          then show ?L by (intro exI [of _ "[]"]) simp
        next
          assume "p c \<and> (\<exists>u. cs = u @ rest' \<and> b' = rev u @ c # b \<and> list_all p u \<and> length u \<le> n)"
          then obtain u where "p c" "cs = u @ rest'" "b' = rev u @ c # b" "list_all p u" "length u \<le> n" by blast
          then show ?L by (intro exI [of _ "c # u"]) simp
        qed
      qed
      show ?thesis using Suc.IH by (auto simp: Cons split Let_def)
    qed (auto simp: Let_def)
  qed auto
  from this [of "length xs"] show ?thesis by (auto simp: many_def)
qed

end
