(* ===== verification/Office_Parts.thy ===== *)
theory Office_Parts
  imports Regex Image_Strip
begin

text \<open>
  The parts of an Office file (\<open>_neutral_attrs\<close>, \<open>_scrub_profile_paths\<close>, \<open>_anonymise_ooxml_part\<close> of
  \<open>app/services/attachment.py\<close>): the replacements in each kind of part, as the regular expressions of the
  source. A part's name is its bytes; the order in which Python walks a set of authors is an argument.
\<close>

section \<open>Texts of the source\<close>

abbreviation quote :: char where "quote \<equiv> CHR 0x22"
abbreviation backslash :: char where "backslash \<equiv> CHR 0x5C"

definition attr_value_rx :: rx where
  "attr_value_rx =
     alts [seqs [one_of [quote], many (none_of [quote]), one_of [quote]],
           seqs [one_of [CHR 0x27], many (none_of [CHR 0x27]), one_of [CHR 0x27]]]"

definition attr_head_rx :: "bytes \<Rightarrow> rx" where
  "attr_head_rx name = seqs [space, maybe (Seq (some_of word) (one_of '':'')), lit name]"

definition attr_rx :: "bytes \<Rightarrow> rx" where
  "attr_rx name = seqs [Grp 1 (attr_head_rx name), one_of ''='', attr_value_rx]"

definition neutral_attr :: "bytes \<Rightarrow> bytes \<Rightarrow> bytes \<Rightarrow> bytes" where
  "neutral_attr name v xml =
     re_sub (attr_rx name) (\<lambda>_ gs. group gs 1 @ bytes_of [CHR ''='', quote] @ v @ bytes_of [quote]) xml"

definition neutral_attrs :: "bytes \<Rightarrow> (bytes \<times> bytes) list \<Rightarrow> bytes" where
  "neutral_attrs xml values = fold (\<lambda>(name, v). neutral_attr name v) values xml"

definition NEUTRAL_TIME :: bytes where "NEUTRAL_TIME = bytes_of ''1980-01-01T00:00:00Z''"

definition named :: "(string \<times> string) list \<Rightarrow> (bytes \<times> bytes) list" where
  "named kvs = map (\<lambda>(k, v). (bytes_of k, bytes_of v)) kvs"

definition WORD_AUTHOR :: "(bytes \<times> bytes) list" where
  "WORD_AUTHOR = named [(''author'', ''Author''), (''initials'', ''A''), (''userId'', ''''), (''providerId'', ''None'')]"

definition XL_PERSON :: "(bytes \<times> bytes) list" where
  "XL_PERSON = named [(''displayName'', ''Author''), (''userId'', ''''), (''providerId'', ''None'')]"

definition WORD_TIMES :: "(bytes \<times> bytes) list" where
  "WORD_TIMES = [(bytes_of ''date'', NEUTRAL_TIME), (bytes_of ''dateUtc'', NEUTRAL_TIME)]"

section \<open>Paths into a profile\<close>

definition SLASHES :: string where "SLASHES = [backslash, CHR ''/'']"
definition PATH_END :: string where "PATH_END = [backslash, CHR ''/'', quote, CHR ''<'', CHR ''>'']"

definition ADDRESS_END :: string where "ADDRESS_END = [CHR ''/'', quote, CHR ''<'', CHR ''>'']"

definition homes :: rx where
  "homes = seqs [itxt ''/'', alts [itxt ''users'', itxt ''home''], itxt ''/'']"

definition PROFILE_PATH :: rx where
  "PROFILE_PATH =
     Seq (Grp 1 (alts
       [seqs [Cls (\<lambda>b. let n = unat (lower_byte b) in 97 \<le> n \<and> n \<le> 122), itxt '':'', some_of (one_of SLASHES),
              alts [itxt ''users'', itxt ''documents and settings''], some_of (one_of SLASHES)],
        seqs [itxt [backslash, backslash], some_of (none_of PATH_END), some_of (one_of SLASHES), many (none_of PATH_END),
              alts [itxt ''home'', itxt ''user'', itxt ''profile''], many (none_of PATH_END), some_of (one_of SLASHES)],
        seqs [itxt ''http'', maybe (itxt ''s''), itxt ''://'', some_of (none_of ADDRESS_END),
              itxt ''-my.sharepoint.com/personal/''],
        seqs [itxt ''http'', maybe (itxt ''s''), itxt ''://d.docs.live.net/''],
        seqs [itxt ''file://'', maybe (itxt ''localhost''), homes],
        seqs [Behind (bytes_of [CHR ''='', quote]), homes]]))
     (some_of (none_of PATH_END))"

definition scrub_profile_paths :: "bytes \<Rightarrow> bytes" where
  "scrub_profile_paths body =
     (if \<not> re_found PROFILE_PATH body then body
      else re_sub (seqs [txt_rx [CHR ''='', quote], many (none_of [quote]), one_of [quote]])
             (\<lambda>m _. re_sub PROFILE_PATH (\<lambda>_ gs. group gs 1 @ bytes_of ''User'') m) body)"

section \<open>One part\<close>

definition prefixed :: "nat \<Rightarrow> rx" where
  "prefixed i = Grp i (Alt (Seq (some_of word) (one_of '':'')) Eps)"

definition maybe_prefix :: rx where "maybe_prefix = maybe (Seq (some_of word) (one_of '':''))"

definition element_rx :: "rx \<Rightarrow> rx" where
  "element_rx name =
     seqs [one_of ''<'', prefixed 1, Grp 2 name, Edge, lazily any_byte, txt_rx ''</'', Ref 1, Ref 2, one_of ''>'']"

definition empty_element_rx :: "string \<Rightarrow> rx" where
  "empty_element_rx name = seqs [one_of ''<'', maybe_prefix, txt_rx name, Edge, many (none_of ''>''), txt_rx ''/>'']"

definition rsid_rx :: rx where
  "rsid_rx = seqs [space, maybe_prefix, txt_rx ''rsid'', many word, txt_rx [CHR ''='', quote], many (none_of [quote]), one_of [quote]]"

definition SP_PROPERTIES :: bytes where
  "SP_PROPERTIES = bytes_of ''http://schemas.microsoft.com/office/2006/metadata/properties''"

fun infix_of :: "bytes \<Rightarrow> bytes \<Rightarrow> bool" where
  "infix_of p xs = (take (length p) xs = p \<or> (case xs of [] \<Rightarrow> False | _ # ys \<Rightarrow> infix_of p ys))"

definition digit :: rx where "digit = Cls digit_byte"

definition CUSTOM_ITEM :: rx where "CUSTOM_ITEM = seqs [txt_rx ''customXml/item'', some_of digit, txt_rx ''.xml'']"
definition COMMENTS_PART :: rx where "COMMENTS_PART = seqs [txt_rx ''xl/comments'', many digit, txt_rx ''.xml'']"

definition author_rx :: rx where
  "author_rx = seqs [txt_rx ''<author>'', Not_ahead (txt_rx ''tc=''), Grp 1 (some_of (none_of ''<'')), txt_rx ''</author>'']"

definition any_author_rx :: rx where
  "any_author_rx = seqs [txt_rx ''<author>'', Not_ahead (txt_rx ''tc=''), many (none_of ''<''), txt_rx ''</author>'']"

definition label_rx :: "bytes \<Rightarrow> rx" where
  "label_rx author =
     seqs [Grp 1 (seqs [txt_rx ''<comment'', Edge, many (none_of ''>''), one_of ''>'', many space, txt_rx ''<text>'', many space,
             txt_rx ''<r>'', maybe (seqs [many space, txt_rx ''<rPr>'', lazily any_byte, txt_rx ''</rPr>'']), many space,
             txt_rx ''<t'', maybe (Seq space (many (none_of ''>''))), one_of ''>'']), lit author, one_of '':'']"

definition neutral_comments :: "(bytes list \<Rightarrow> bytes list) \<Rightarrow> bytes \<Rightarrow> bytes" where
  "neutral_comments walk body =
     (let authors = walk (remdups (re_findall author_rx body));
          body1 = fold (\<lambda>a. re_sub (label_rx a) (\<lambda>_ gs. group gs 1 @ bytes_of ''Author:'')) authors body
      in re_sub any_author_rx (\<lambda>_ _. bytes_of ''<author>Author</author>'') body1)"

definition starts :: "string \<Rightarrow> string \<Rightarrow> bool" where "starts name p \<longleftrightarrow> take (length p) name = p"
definition ends :: "string \<Rightarrow> string \<Rightarrow> bool" where "ends name s \<longleftrightarrow> starts (rev name) (rev s)"

definition dropped_relationship_rx :: "string \<Rightarrow> rx" where
  "dropped_relationship_rx what =
     seqs [txt_rx ''<Relationship'', Edge, many (none_of ''>''), txt_rx what, many (none_of ''>''), txt_rx ''/>'']"

definition dropped_override_rx :: rx where
  "dropped_override_rx =
     seqs [txt_rx ''<Override'', Edge, many (none_of ''>''), alts [txt_rx ''docProps/thumbnail'', txt_rx ''printerSettings''],
           many (none_of ''>''), txt_rx ''/>'']"

definition anonymise_ooxml_part :: "(bytes list \<Rightarrow> bytes list) \<Rightarrow> string \<Rightarrow> bytes \<Rightarrow> bytes" where
  "anonymise_ooxml_part walk name raw =
     (let body = (if ends name ''.xml'' \<or> ends name ''.rels'' \<or> ends name ''.svg'' then scrub_profile_paths raw else raw) in
      if ends name ''.svg''
        then re_remove (seqs [one_of ''<'', prefixed 1, txt_rx ''metadata'', Edge, lazily any_byte, txt_rx ''</'', Ref 1,
                              txt_rx ''metadata>'']) body
      else if starts name ''word/'' \<and> ends name ''.xml''
        then neutral_attrs
               (re_remove (empty_element_rx ''connectString'')
                 (re_remove (element_rx (alts [txt_rx ''rsids'', txt_rx ''docVars'']))
                   (re_remove rsid_rx body)))
               (WORD_AUTHOR @ WORD_TIMES)
      else if name = ''xl/workbook.xml''
        then neutral_attrs (re_remove (empty_element_rx ''absPath'') body) (named [(''userName'', ''Author'')])
      else if re_fullmatch CUSTOM_ITEM (bytes_of name) \<and> infix_of SP_PROPERTIES body
        then bytes_of (''<p:properties xmlns:p='' @ [quote]) @ SP_PROPERTIES @ bytes_of (quote # ''/>'')
      else if re_fullmatch COMMENTS_PART (bytes_of name) then neutral_comments walk body
      else if starts name ''xl/persons/'' then neutral_attrs body XL_PERSON
      else if starts name ''xl/threadedComments/'' then neutral_attrs body [(bytes_of ''dT'', NEUTRAL_TIME)]
      else if starts name ''xl/pivotCache/pivotCacheDefinition''
        then neutral_attrs body (named [(''refreshedBy'', ''Author''), (''refreshedDate'', ''0'')] @
               [(bytes_of ''refreshedDateIso'', NEUTRAL_TIME)])
      else if name = ''xl/connections.xml'' then neutral_attrs body (named [(''connection'', '''')])
      else if starts name ''xl/revisions/''
        then neutral_attrs body (named [(''userName'', ''Author'')] @ [(bytes_of ''dateTime'', NEUTRAL_TIME)] @
               (if ends name ''userNames.xml'' then named [(''name'', ''Author'')] else []))
      else
        (let body1 = (if ends name ''.rels'' then re_remove (dropped_relationship_rx ''printerSettings'') body else body) in
         if name = ''_rels/.rels'' then re_remove (dropped_relationship_rx ''docProps/thumbnail'') body1
         else if name = ''[Content_Types].xml'' then re_remove dropped_override_rx body1
         else body1))"

section \<open>Ways of the attribute pattern\<close>

lemma ways_Cls: "(b', rest', gs') \<in> set (ways (Cls p) (b, xs, gs)) \<longleftrightarrow> gs' = gs \<and> (\<exists>c. xs = c # rest' \<and> p c \<and> b' = c # b)"
  by (auto split: list.splits)

lemma ways_Seq: "s' \<in> set (ways (Seq r q) s) \<longleftrightarrow> (\<exists>t \<in> set (ways r s). s' \<in> set (ways q t))"
  by auto

lemma ways_maybe: "s' \<in> set (ways (maybe r) s) \<longleftrightarrow> s' \<in> set (ways r s) \<or> s' = s"
  by (auto simp: maybe_def)

lemma ways_lit: "(b', rest', gs') \<in> set (ways (lit t) (b, xs, gs)) \<longleftrightarrow> gs' = gs \<and> xs = t @ rest' \<and> b' = rev t @ b"
proof (induction t arbitrary: b xs)
  case (Cons c t)
  then show ?case by (auto simp: ways_Seq split: list.splits)
qed auto

lemma ways_some_Cls:
  "(b', rest', gs') \<in> set (ways (some_of (Cls p)) (b, xs, gs)) \<longleftrightarrow>
   gs' = gs \<and> (\<exists>u. u \<noteq> [] \<and> xs = u @ rest' \<and> b' = rev u @ b \<and> list_all p u)"
proof -
  have "(b', rest', gs') \<in> set (ways (some_of (Cls p)) (b, xs, gs)) \<longleftrightarrow>
    (\<exists>c cs. xs = c # cs \<and> p c \<and> (b', rest', gs') \<in> set (ways (many (Cls p)) (c # b, cs, gs)))"
    by (cases xs) (auto simp: some_of_def many_def)
  also have "\<dots> \<longleftrightarrow> gs' = gs \<and> (\<exists>u. u \<noteq> [] \<and> xs = u @ rest' \<and> b' = rev u @ b \<and> list_all p u)"
    unfolding ways_many_Cls by (auto simp: neq_Nil_conv)
  finally show ?thesis .
qed

definition name_prefix :: "bytes \<Rightarrow> bool" where
  "name_prefix p \<longleftrightarrow> p = [] \<or> (\<exists>q. q \<noteq> [] \<and> list_all word_byte q \<and> p = q @ bytes_of '':'')"

lemma one_char [simp]: "bytes_of [c] = [word_of_nat (of_char c)]" by (simp add: bytes_of_def)

lemma ways_attr_head:
  "(b', rest', gs') \<in> set (ways (attr_head_rx name) (b, xs, gs)) \<longleftrightarrow>
   gs' = gs \<and> (\<exists>c p. xs = c # p @ name @ rest' \<and> space_byte c \<and> name_prefix p \<and> b' = rev (c # p @ name) @ b)"
proof -
  have prefix: "(b', rest', gs') \<in> set (ways (maybe (Seq (some_of word) (one_of '':''))) (b, xs, gs)) \<longleftrightarrow>
    gs' = gs \<and> (\<exists>p. name_prefix p \<and> xs = p @ rest' \<and> b' = rev p @ b)" for b' rest' gs' b xs gs
    unfolding ways_maybe ways_Seq word_def one_of_def
    by (auto simp: Bex_def ways_some_Cls ways_Cls name_prefix_def simp del: ways.simps)
  show ?thesis
    unfolding attr_head_rx_def seqs.simps space_def ways_Seq
    by (auto simp: Bex_def ways_Cls ways_lit prefix simp del: ways.simps)
qed

definition QUOTE :: byte where "QUOTE = 0x22"
definition EQUALS :: byte where "EQUALS = 0x3D"

definition attr_start :: "bytes \<Rightarrow> bytes \<Rightarrow> bool" where
  "attr_start name xs \<longleftrightarrow> (\<exists>c p w. xs = c # p @ name @ EQUALS # w \<and> space_byte c \<and> name_prefix p)"

lemma bytes_simps: "bytes_of ''='' = [EQUALS]" "bytes_of [quote] = [QUOTE]" "bytes_of [CHR ''='', quote] = [EQUALS, QUOTE]"
  by (simp_all add: bytes_of_def QUOTE_def EQUALS_def)

lemma ways_attr_none: "\<not> attr_start name xs \<Longrightarrow> ways (attr_rx name) (b, xs, gs) = []"
proof (rule ccontr)
  assume no: "\<not> attr_start name xs" and "ways (attr_rx name) (b, xs, gs) \<noteq> []"
  then obtain s' where "s' \<in> set (ways (attr_rx name) (b, xs, gs))" by (meson list.set_sel(1))
  then obtain t t' where t: "t \<in> set (ways (Grp 1 (attr_head_rx name)) (b, xs, gs))" "t' \<in> set (ways (one_of ''='') t)"
    unfolding attr_rx_def seqs.simps ways_Seq by blast
  obtain b1 xs1 gs1 where head: "(b1, xs1, gs1) \<in> set (ways (attr_head_rx name) (b, xs, gs))" and "left t = xs1"
    using t(1) by (auto split: prod.splits)
  moreover have "\<exists>w. left t = EQUALS # w"
    using t(2) by (cases t) (auto simp: one_of_def EQUALS_def split: list.splits if_splits)
  ultimately show False using no head unfolding ways_attr_head attr_start_def by metis
qed

definition plain_name :: "bytes \<Rightarrow> bool" where "plain_name n \<longleftrightarrow> n \<noteq> [] \<and> list_all word_byte n"

lemma byte_kinds:
  "\<not> word_byte EQUALS" "\<not> word_byte QUOTE" "\<not> space_byte EQUALS" "\<not> space_byte QUOTE" "\<not> space_byte 0x3A" "\<not> word_byte 0x3A"
  "EQUALS \<noteq> QUOTE" "QUOTE \<noteq> EQUALS" "(0x3A :: byte) \<noteq> EQUALS" "(0x3A :: byte) \<noteq> QUOTE" "bytes_of '':'' = [0x3A]"
  by (simp_all add: word_byte_def space_byte_def EQUALS_def QUOTE_def bytes_of_def)

lemma word_not_space: "word_byte c \<Longrightarrow> \<not> space_byte c"
  by (auto simp: word_byte_def space_byte_def Let_def)

lemma head_bytes:
  assumes "name_prefix p" "plain_name n" "x \<in> set (p @ n)"
  shows "x \<noteq> EQUALS \<and> x \<noteq> QUOTE \<and> \<not> space_byte x"
  using assms byte_kinds word_not_space by (auto simp: name_prefix_def plain_name_def list_all_iff)

lemma takeWhile_mark: "x \<notin> set w \<Longrightarrow> takeWhile (\<lambda>y. y \<noteq> x) (w @ x # r) = w"
  by (induction w) auto

lemma name_prefix_unique:
  assumes "name_prefix p" "name_prefix p'" "plain_name n" "plain_name n'" "p @ n = p' @ n'"
  shows "p = p' \<and> n = n'"
proof -
  have colon: "0x3A \<notin> set m" if "list_all word_byte m" for m :: bytes using that byte_kinds by (auto simp: list_all_iff)
  have parts: "p = (if 0x3A \<in> set (p @ n) then takeWhile (\<lambda>x. x \<noteq> 0x3A) (p @ n) @ [0x3A] else [])"
    if "name_prefix p" "plain_name n" for p n
    using that colon unfolding name_prefix_def plain_name_def byte_kinds
    by (auto simp: takeWhile_mark)
  have "p = p'" using parts [OF assms(1,3)] parts [OF assms(2,4)] by (simp only: assms(5))
  then show ?thesis using assms(5) by simp
qed

lemma attr_start_unique:
  assumes "c # p @ n @ EQUALS # w = c' # p' @ n' @ EQUALS # w'"
    "name_prefix p" "name_prefix p'" "plain_name n" "plain_name n'"
  shows "p' = p \<and> n' = n \<and> w' = w"
proof -
  have "takeWhile (\<lambda>x. x \<noteq> EQUALS) ((p @ n) @ EQUALS # w) = p @ n" if "name_prefix p" "plain_name n" for p n w
    using head_bytes [OF that] by (intro takeWhile_mark) blast
  from this [OF assms(2,4), of w] this [OF assms(3,5), of w'] assms(1) have "p @ n = p' @ n'" by simp
  with name_prefix_unique [OF assms(2,3,4,5)] assms(1) show ?thesis by auto
qed

text \<open>A quoted value ends at the first quote.\<close>

lemma ways_attr_value:
  assumes "QUOTE \<notin> set v" "s' \<in> set (ways attr_value_rx (b, QUOTE # v @ QUOTE # rest, gs))"
  shows "s' = (rev (QUOTE # v @ [QUOTE]) @ b, rest, gs)"
proof -
  obtain b' xs' gs' where s': "s' = (b', xs', gs')" by (cases s')
  have alt: "ways (seqs [one_of [CHR 0x27], many (none_of [CHR 0x27]), one_of [CHR 0x27]]) (b, QUOTE # xs, gs) = []" for xs
    by (simp add: one_of_def bytes_of_def QUOTE_def)
  from assms(2) have "s' \<in> set (ways (seqs [one_of [quote], many (none_of [quote]), one_of [quote]]) (b, QUOTE # v @ QUOTE # rest, gs))"
    unfolding attr_value_rx_def alts.simps ways.simps(4) alt append_Nil2 .
  then obtain u where u: "v @ QUOTE # rest = u @ QUOTE # xs'" "QUOTE \<notin> set u" "b' = QUOTE # rev u @ QUOTE # b" "gs' = gs"
    unfolding seqs.simps ways_Seq s'
    by (auto simp: Bex_def one_of_def none_of_def bytes_simps ways_Cls ways_many_Cls list_all_iff simp del: ways.simps)
  from takeWhile_mark [OF assms(1), of rest] takeWhile_mark [OF u(2), of xs'] u(1) have "u = v" by simp
  with u s' show ?thesis by simp
qed

lemma ways_attr:
  assumes "space_byte c" "name_prefix p" "plain_name n" "QUOTE \<notin> set v"
    and s': "s' \<in> set (ways (attr_rx n) (b, c # p @ n @ EQUALS # QUOTE # v @ QUOTE # rest, []))"
  shows "s' = (rev (c # p @ n @ EQUALS # QUOTE # v @ [QUOTE]) @ b, rest, [(1, c # p @ n)])"
proof -
  let ?xs = "c # p @ n @ EQUALS # QUOTE # v @ QUOTE # rest"
  obtain t t' where t: "t \<in> set (ways (Grp 1 (attr_head_rx n)) (b, ?xs, []))"
    and t': "t' \<in> set (ways (one_of ''='') t)" and v: "s' \<in> set (ways attr_value_rx t')"
    using s' unfolding attr_rx_def seqs.simps ways_Seq by blast
  obtain b1 xs1 gs1 where head: "(b1, xs1, gs1) \<in> set (ways (attr_head_rx n) (b, ?xs, []))"
    and t_eq: "t = (b1, xs1, (1, rev (take (length b1 - length b) b1)) # gs1)"
    using t by (auto split: prod.splits)
  obtain w where w: "xs1 = EQUALS # w" and t'_eq: "t' = (EQUALS # b1, w, (1, rev (take (length b1 - length b) b1)) # gs1)"
    using t' t_eq by (auto simp: one_of_def EQUALS_def split: list.splits if_splits)
  obtain c' p' where at: "?xs = c' # p' @ n @ EQUALS # w" "name_prefix p'" "b1 = rev (c' # p' @ n) @ b" "gs1 = []"
    using head w unfolding ways_attr_head by blast
  have "p' = p \<and> w = QUOTE # v @ QUOTE # rest" "c' = c"
    using attr_start_unique [OF at(1) assms(2) at(2) assms(3,3)] at(1) by auto
  then have b1: "b1 = rev (c # p @ n) @ b" and w_eq: "w = QUOTE # v @ QUOTE # rest" using at by auto
  have "s' = (rev (QUOTE # v @ [QUOTE]) @ EQUALS # b1, rest, (1, rev (take (length b1 - length b) b1)) # gs1)"
    using ways_attr_value [OF assms(4)] v unfolding t'_eq w_eq by blast
  then show ?thesis using at(4) by (simp add: b1)
qed

lemma ways_attr_found:
  assumes "space_byte c" "name_prefix p" "QUOTE \<notin> set v"
  shows "ways (attr_rx n) (b, c # p @ n @ EQUALS # QUOTE # v @ QUOTE # rest, []) \<noteq> []"
proof -
  let ?b1 = "rev (c # p @ n) @ b"
  let ?t = "(?b1, EQUALS # QUOTE # v @ QUOTE # rest, [(1, rev (take (length ?b1 - length b) ?b1))])"
  have "(?b1, EQUALS # QUOTE # v @ QUOTE # rest, []) \<in> set (ways (attr_head_rx n) (b, c # p @ n @ EQUALS # QUOTE # v @ QUOTE # rest, []))"
    unfolding ways_attr_head using assms by auto
  then have t: "?t \<in> set (ways (Grp 1 (attr_head_rx n)) (b, c # p @ n @ EQUALS # QUOTE # v @ QUOTE # rest, []))" by force
  have eq: "(EQUALS # ?b1, QUOTE # v @ QUOTE # rest, gs) \<in> set (ways (one_of ''='') (?b1, EQUALS # QUOTE # v @ QUOTE # rest, gs))" for gs
    by (simp add: one_of_def EQUALS_def)
  have "(rev (QUOTE # v @ [QUOTE]) @ d, rest, gs) \<in> set (ways attr_value_rx (d, QUOTE # v @ QUOTE # rest, gs))" for d gs
  proof -
    have "(rev (QUOTE # v @ [QUOTE]) @ d, rest, gs) \<in>
      set (ways (seqs [one_of [quote], many (none_of [quote]), one_of [quote]]) (d, QUOTE # v @ QUOTE # rest, gs))"
      unfolding seqs.simps ways_Seq using assms(3)
      by (auto simp: Bex_def one_of_def none_of_def QUOTE_def ways_Cls ways_many_Cls list_all_iff simp del: ways.simps)
    then show ?thesis unfolding attr_value_rx_def alts.simps by simp
  qed
  from this [of "EQUALS # ?b1"] t eq
  have "\<exists>s'. s' \<in> set (ways (attr_rx n) (b, c # p @ n @ EQUALS # QUOTE # v @ QUOTE # rest, []))"
    unfolding attr_rx_def seqs.simps ways_Seq by blast
  then show ?thesis by (auto simp del: ways.simps)
qed

section \<open>Texts with attributes\<close>

record attr =
  at_before :: bytes
  at_space :: byte
  at_prefix :: bytes
  at_name :: bytes
  at_value :: bytes

definition attr_text :: "attr \<Rightarrow> bytes" where
  "attr_text a = at_space a # at_prefix a @ at_name a @ EQUALS # QUOTE # at_value a @ [QUOTE]"

fun woven :: "attr list \<Rightarrow> bytes \<Rightarrow> bytes" where
  "woven [] rest = rest"
| "woven (a # as) rest = at_before a @ attr_text a @ woven as rest"

definition attr_ok :: "attr \<Rightarrow> bool" where
  "attr_ok a \<longleftrightarrow> space_byte (at_space a) \<and> name_prefix (at_prefix a) \<and> plain_name (at_name a) \<and> QUOTE \<notin> set (at_value a)"

text \<open>No attribute of that name begins in the text.\<close>

definition attr_free :: "bytes \<Rightarrow> bytes \<Rightarrow> bool" where
  "attr_free name xs \<longleftrightarrow> (\<forall>n \<le> length xs. \<not> attr_start name (drop n xs))"

lemma attr_start_name_bytes:
  assumes "c # p @ n @ EQUALS # w = v @ ys" "v \<noteq> []" "name_prefix p" "plain_name n"
    and ys: "ys = [] \<or> hd ys = QUOTE \<or> space_byte (hd ys)"
  shows "\<exists>w'. v = c # p @ n @ EQUALS # w'"
proof (cases "length v \<le> length (p @ n) + 1")
  case True
  have "length v < length (c # p @ n @ EQUALS # w)" using True by simp
  then have "ys \<noteq> []" using assms(1) by (metis append_Nil2 nat_neq_iff)
  have "hd ys = (c # (p @ n) @ EQUALS # w) ! length v"
    using assms(1) \<open>ys \<noteq> []\<close> by (metis append_assoc hd_conv_nth nth_append_length_plus add.right_neutral)
  also have "\<dots> \<in> set ((p @ n) @ [EQUALS])"
  proof (cases v)
    case (Cons x xs)
    have "((p @ n) @ EQUALS # w) ! length xs = ((p @ n) @ [EQUALS]) ! length xs"
      using True Cons by (auto simp: nth_append nth_Cons split: nat.splits)
    moreover have "length xs < length ((p @ n) @ [EQUALS])" using True Cons by simp
    ultimately show ?thesis using Cons by (metis nth_Cons_Suc length_Cons nth_mem)
  qed (use assms(2) in simp)
  finally have "hd ys = EQUALS \<or> hd ys \<in> set (p @ n)" by auto
  then show ?thesis using ys \<open>ys \<noteq> []\<close> head_bytes [OF assms(3,4)] byte_kinds by metis
next
  case False
  then have "take (length (c # p @ n @ [EQUALS])) v = take (length (c # p @ n @ [EQUALS])) (v @ ys)" by simp
  also have "\<dots> = c # p @ n @ [EQUALS]" using assms(1) by (metis append.assoc append_Cons append_Nil append_eq_conv_conj)
  finally have "v = (c # p @ n @ [EQUALS]) @ drop (length (c # p @ n @ [EQUALS])) v" by (metis append_take_drop_id)
  then show ?thesis by auto
qed

lemma attr_start_front:
  assumes "attr_start n (v @ ys)" "v \<noteq> []" "plain_name n" "ys = [] \<or> hd ys = QUOTE \<or> space_byte (hd ys)"
  shows "attr_start n v"
  using assms attr_start_name_bytes unfolding attr_start_def by metis

lemma attr_free_append:
  assumes "attr_free n xs" "attr_free n ys" "plain_name n" "ys = [] \<or> hd ys = QUOTE \<or> space_byte (hd ys)"
  shows "attr_free n (xs @ ys)"
  unfolding attr_free_def
proof (intro allI impI)
  fix k
  assume "k \<le> length (xs @ ys)"
  show "\<not> attr_start n (drop k (xs @ ys))"
  proof (cases "k < length xs")
    case True
    then have "drop k xs \<noteq> []" by simp
    with assms True attr_start_front [of n "drop k xs" ys] show ?thesis by (auto simp: attr_free_def)
  next
    case False
    then show ?thesis using assms(2) \<open>k \<le> length (xs @ ys)\<close> by (simp add: attr_free_def)
  qed
qed

lemma attr_free_Nil [simp]: "attr_free n []" by (simp add: attr_free_def attr_start_def)

lemma attr_free_tl: "attr_free n (x # xs) \<Longrightarrow> attr_free n xs"
  unfolding attr_free_def by (metis Suc_le_mono drop_Suc_Cons length_Cons)

lemma attr_free_quote: "attr_free n (QUOTE # xs) \<longleftrightarrow> attr_free n xs"
proof
  assume free: "attr_free n xs"
  show "attr_free n (QUOTE # xs)" unfolding attr_free_def
  proof (intro allI impI)
    fix k
    assume "k \<le> length (QUOTE # xs)"
    then show "\<not> attr_start n (drop k (QUOTE # xs))"
      using free byte_kinds by (cases k) (auto simp: attr_free_def attr_start_def)
  qed
qed (rule attr_free_tl)

section \<open>The replacement of one attribute\<close>

lemma sub_loop_copy:
  assumes "\<forall>k < length t. ways r (rev (take k t) @ b, drop k t @ xs, []) = []"
  shows "sub_loop r new b (t @ xs) = t @ sub_loop r new (rev t @ b) xs"
  using assms
proof (induction t arbitrary: b)
  case (Cons c t)
  have "ways r (b, c # t @ xs, []) = []" using Cons.prems by (auto dest!: spec [of _ 0])
  moreover have "\<forall>k < length t. ways r (rev (take k t) @ c # b, drop k t @ xs, []) = []"
  proof (intro allI impI)
    fix k
    assume "k < length t"
    then show "ways r (rev (take k t) @ c # b, drop k t @ xs, []) = []"
      using Cons.prems by (auto dest!: spec [of _ "Suc k"])
  qed
  ultimately show ?case using Cons.IH [of "c # b"] by simp
qed simp

lemma sub_loop_free:
  assumes "attr_free n t" "plain_name n" "xs = [] \<or> hd xs = QUOTE \<or> space_byte (hd xs)"
  shows "sub_loop (attr_rx n) new b (t @ xs) = t @ sub_loop (attr_rx n) new (rev t @ b) xs"
proof (rule sub_loop_copy, intro allI impI)
  fix k
  assume k: "k < length t"
  then have "\<not> attr_start n (drop k t @ xs)"
    using assms attr_start_front [of n "drop k t" xs] by (auto simp: attr_free_def)
  then show "ways (attr_rx n) (rev (take k t) @ b, drop k t @ xs, []) = []" by (rule ways_attr_none)
qed

definition with_value :: "bytes \<Rightarrow> bytes \<Rightarrow> attr \<Rightarrow> attr" where
  "with_value n v a = (if at_name a = n then a\<lparr>at_value := v\<rparr> else a)"

lemma sub_loop_attr:
  assumes "attr_ok a"
  shows "sub_loop (attr_rx (at_name a)) (\<lambda>_ gs. group gs 1 @ bytes_of [CHR ''='', quote] @ v @ bytes_of [quote]) b (attr_text a @ xs) =
    attr_text (with_value (at_name a) v a) @
    sub_loop (attr_rx (at_name a)) (\<lambda>_ gs. group gs 1 @ bytes_of [CHR ''='', quote] @ v @ bytes_of [quote])
      (rev (attr_text a) @ b) xs"
proof -
  let ?w = "ways (attr_rx (at_name a)) (b, attr_text a @ xs, [])"
  let ?s = "(rev (attr_text a) @ b, xs, [(1, at_space a # at_prefix a @ at_name a)])"
  have shape: "attr_text a @ xs = at_space a # at_prefix a @ at_name a @ EQUALS # QUOTE # at_value a @ QUOTE # xs"
    by (simp add: attr_text_def)
  have "?w \<noteq> []" "\<And>s. s \<in> set ?w \<Longrightarrow> s = ?s"
    unfolding shape using assms ways_attr_found ways_attr by (simp_all add: attr_ok_def attr_text_def)
  then obtain ws where w: "?w = ?s # ws" by (metis list.set_intros(1) neq_Nil_conv)
  from w show ?thesis
    unfolding shape by (simp add: group_def with_value_def attr_text_def bytes_simps(3) QUOTE_def)
qed

definition lead :: "attr list \<Rightarrow> bytes \<Rightarrow> bytes" where
  "lead as rest = (case as of [] \<Rightarrow> rest | a # _ \<Rightarrow> at_before a)"

lemma attr_free_other:
  assumes "attr_ok a" "plain_name n" "at_name a \<noteq> n" "attr_free n (at_value a)" "attr_free n xs"
  shows "attr_free n (attr_text a @ xs)"
proof -
  let ?h = "at_space a # at_prefix a @ at_name a @ [EQUALS]"
  have ok: "name_prefix (at_prefix a)" "plain_name (at_name a)" using assms(1) by (simp_all add: attr_ok_def)
  have "attr_free n ?h" unfolding attr_free_def
  proof (intro allI impI notI)
    fix k
    assume k: "k \<le> length ?h" and start: "attr_start n (drop k ?h)"
    show False
    proof (cases k)
      case 0
      with start obtain c p w where "?h = c # p @ n @ EQUALS # w" "name_prefix p" unfolding attr_start_def by auto
      from attr_start_unique [OF this(1) ok(1) this(2) ok(2) assms(2)] assms(3) show False by simp
    next
      case (Suc j)
      from start have drop: "drop k ?h \<noteq> []" "space_byte (hd (drop k ?h))" by (auto simp: attr_start_def)
      have "hd (drop k ?h) \<in> set ((at_prefix a @ at_name a) @ [EQUALS])"
        using drop(1) Suc hd_in_set [OF drop(1)] set_drop_subset [of j "at_prefix a @ at_name a @ [EQUALS]"] by auto
      then show False using drop(2) head_bytes [OF ok] byte_kinds by auto
    qed
  qed
  moreover have "attr_free n (at_value a @ QUOTE # xs)"
    using attr_free_append [OF assms(4), of "QUOTE # xs"] assms(2,5) by (simp add: attr_free_quote)
  then have "attr_free n (QUOTE # at_value a @ QUOTE # xs)" by (simp add: attr_free_quote)
  ultimately have "attr_free n (?h @ QUOTE # at_value a @ QUOTE # xs)" using assms(2) by (intro attr_free_append) simp_all
  then show ?thesis by (simp add: attr_text_def)
qed

lemma at_before_with [simp]: "at_before (with_value n v a) = at_before a" "at_name (with_value n v a) = at_name a"
  by (simp_all add: with_value_def)

lemma sub_loop_woven:
  assumes "\<forall>a \<in> set as. attr_ok a \<and> attr_free n (at_before a) \<and> attr_free n (at_value a)" "attr_free n rest" "plain_name n"
    and "attr_free n (x @ lead as rest)"
  shows "sub_loop (attr_rx n) (\<lambda>_ gs. group gs 1 @ bytes_of [CHR ''='', quote] @ v @ bytes_of [quote]) b (x @ woven as rest) =
    x @ woven (map (with_value n v) as) rest"
  using assms(1,4)
proof (induction as arbitrary: x b)
  case Nil
  then show ?case using sub_loop_free [of n "x @ rest" "[]"] assms(3) by (simp add: lead_def)
next
  case (Cons a as)
  let ?new = "\<lambda>_ gs. group gs 1 @ bytes_of [CHR ''='', quote] @ v @ bytes_of [quote]"
  have ok: "attr_ok a" "attr_free n (x @ at_before a)" "attr_free n (at_value a)" "attr_free n (lead as rest)"
    using Cons.prems assms(2) by (auto simp: lead_def split: list.splits)
  have space: "hd (attr_text a @ w) = at_space a" "attr_text a @ w \<noteq> []" for w by (simp_all add: attr_text_def)
  show ?case
  proof (cases "at_name a = n")
    case True
    have "sub_loop (attr_rx n) ?new b ((x @ at_before a) @ attr_text a @ woven as rest) =
      (x @ at_before a) @ sub_loop (attr_rx n) ?new (rev (x @ at_before a) @ b) (attr_text a @ woven as rest)"
      using ok(1) space by (intro sub_loop_free [OF ok(2) assms(3)]) (simp add: attr_ok_def)
    also have "sub_loop (attr_rx n) ?new (rev (x @ at_before a) @ b) (attr_text a @ woven as rest) =
      attr_text (with_value n v a) @ sub_loop (attr_rx n) ?new (rev (attr_text a) @ rev (x @ at_before a) @ b) (woven as rest)"
      using sub_loop_attr [OF ok(1)] True by simp
    also have "sub_loop (attr_rx n) ?new (rev (attr_text a) @ rev (x @ at_before a) @ b) (woven as rest) =
      woven (map (with_value n v) as) rest"
      using Cons.IH [of "[]"] Cons.prems(1) ok(4) by simp
    finally show ?thesis by simp
  next
    case False
    have "attr_free n ((x @ at_before a) @ attr_text a @ lead as rest)"
      using ok attr_free_other [OF ok(1) assms(3) False ok(3,4)] space
      by (intro attr_free_append [OF ok(2) _ assms(3)]) (simp_all add: attr_ok_def)
    then show ?thesis
      using Cons.IH [of "x @ at_before a @ attr_text a"] Cons.prems(1) by (simp add: with_value_def [of n v a] False)
  qed
qed

section \<open>Who wrote it is withheld\<close>

definition attrs_ok :: "bytes list \<Rightarrow> attr list \<Rightarrow> bytes \<Rightarrow> bool" where
  "attrs_ok names as rest \<longleftrightarrow>
     (\<forall>a \<in> set as. attr_ok a \<and> (\<forall>n \<in> set names. attr_free n (at_before a) \<and> attr_free n (at_value a))) \<and>
     (\<forall>n \<in> set names. attr_free n rest)"

definition value_ok :: "bytes list \<Rightarrow> bytes \<Rightarrow> bool" where
  "value_ok names v \<longleftrightarrow> QUOTE \<notin> set v \<and> (\<forall>n \<in> set names. attr_free n v)"

definition neutral_value :: "(bytes \<times> bytes) list \<Rightarrow> attr \<Rightarrow> attr" where
  "neutral_value kvs a = (case map_of kvs (at_name a) of None \<Rightarrow> a | Some v \<Rightarrow> a\<lparr>at_value := v\<rparr>)"

lemma neutral_attr_woven:
  assumes "attrs_ok names as rest" "n \<in> set names" "plain_name n"
  shows "neutral_attr n v (woven as rest) = woven (map (with_value n v) as) rest"
proof -
  have "attr_free n ([] @ lead as rest)" using assms by (auto simp: attrs_ok_def lead_def split: list.splits)
  from sub_loop_woven [OF _ _ assms(3) this, of v "[]"] assms show ?thesis
    by (simp add: attrs_ok_def neutral_attr_def re_sub_def)
qed

lemma attrs_ok_with:
  assumes "attrs_ok names as rest" "value_ok names v"
  shows "attrs_ok names (map (with_value n v) as) rest"
  using assms by (auto simp: attrs_ok_def value_ok_def attr_ok_def with_value_def)

lemma neutral_attrs_woven:
  assumes "attrs_ok names as rest" "\<forall>(n, v) \<in> set kvs. n \<in> set names \<and> plain_name n \<and> value_ok names v" "distinct (map fst kvs)"
  shows "neutral_attrs (woven as rest) kvs = woven (map (neutral_value kvs) as) rest"
  using assms
proof (induction kvs arbitrary: as)
  case Nil
  then show ?case by (simp add: neutral_attrs_def neutral_value_def)
next
  case (Cons kv kvs)
  obtain n v where kv: "kv = (n, v)" by (cases kv)
  have n: "n \<in> set names" "plain_name n" "value_ok names v" using Cons.prems(2) kv by auto
  have "neutral_attrs (woven as rest) (kv # kvs) = neutral_attrs (woven (map (with_value n v) as) rest) kvs"
    using neutral_attr_woven [OF Cons.prems(1) n(1,2)] kv by (simp add: neutral_attrs_def)
  also have "\<dots> = woven (map (neutral_value kvs) (map (with_value n v) as)) rest"
    using Cons.prems(2,3) by (intro Cons.IH attrs_ok_with [OF Cons.prems(1) n(3)]) simp_all
  also have "map (neutral_value kvs) (map (with_value n v) as) = map (neutral_value (kv # kvs)) as"
  proof -
    have "map_of kvs n = None" using Cons.prems(3) kv by (simp add: map_of_eq_None_iff)
    then show ?thesis by (auto simp: kv neutral_value_def with_value_def split: option.splits)
  qed
  finally show ?case .
qed

lemma attr_free_no_space: "\<forall>x \<in> set xs. \<not> space_byte x \<Longrightarrow> attr_free n xs"
  unfolding attr_free_def attr_start_def by (metis in_set_dropD list.set_intros(1))

lemma fullmatch_starts:
  assumes "re_fullmatch (Seq (txt_rx p) r) (bytes_of name)"
  shows "take (length p) (bytes_of name) = bytes_of p"
proof -
  from assms obtain s where "s \<in> set (ways (Seq (txt_rx p) r) ([], bytes_of name, []))"
    by (auto simp: re_fullmatch_def list_ex_iff)
  then obtain b rest gs where "(b, rest, gs) \<in> set (ways (lit (bytes_of p)) ([], bytes_of name, []))"
    unfolding ways_Seq txt_rx_def by (metis prod_cases3)
  then have "bytes_of name = bytes_of p @ rest" by (simp add: ways_lit)
  then show ?thesis by (metis append_eq_conv_conj length_map bytes_of_def)
qed

lemma starts_not_fullmatch:
  assumes "starts name q" "n \<le> length p" "n \<le> length q" "bytes_of (take n q) \<noteq> bytes_of (take n p)"
  shows "\<not> re_fullmatch (Seq (txt_rx p) r) (bytes_of name)"
proof
  assume "re_fullmatch (Seq (txt_rx p) r) (bytes_of name)"
  then have "take n (take (length p) (bytes_of name)) = take n (bytes_of p)" by (simp add: fullmatch_starts)
  moreover have "take n (take (length q) name) = take n q" using assms(1) by (simp add: starts_def)
  ultimately show False using assms(2-4) by (simp add: bytes_of_def take_map min_def)
qed

definition ATTR_PARTS :: "(string \<times> (bytes \<times> bytes) list) list" where
  "ATTR_PARTS =
     [(''xl/persons/'', XL_PERSON), (''xl/threadedComments/'', [(bytes_of ''dT'', NEUTRAL_TIME)])]"

lemma starts_clash: "starts name p \<Longrightarrow> take n p \<noteq> take n q \<Longrightarrow> n \<le> length p \<Longrightarrow> n \<le> length q \<Longrightarrow> \<not> starts name q"
  unfolding starts_def by (metis min.absorb1 take_take)

lemma starts_self: "starts p p" by (simp add: starts_def)

lemma no_profile_path: "\<not> re_found PROFILE_PATH body \<Longrightarrow> scrub_profile_paths body = body"
  by (simp add: scrub_profile_paths_def)

lemma attr_part_rule:
  assumes part: "(p, kvs) \<in> set ATTR_PARTS" and name: "starts name p" "ends name ''.xml''"
    and plain: "\<not> re_found PROFILE_PATH body"
  shows "anonymise_ooxml_part walk name body = neutral_attrs body kvs"
proof -
  have p: "take 1 p = ''x''" "take 4 p \<in> {''xl/p'', ''xl/t''}" "10 \<le> length p" using part by (auto simp: ATTR_PARTS_def)
  have no: "\<not> ends name ''.svg''" "\<not> starts name ''word/''" "name \<noteq> ''xl/workbook.xml''"
    using starts_clash [of "rev name" "rev ''.xml''" 1 "rev ''.svg''"] starts_clash [OF name(1), of 1 "''word/''"]
      starts_clash [OF name(1), of 4 "''xl/workbook.xml''"] starts_self [of "''xl/workbook.xml''"] name(2) p
    by (auto simp: ends_def)
  have custom: "\<not> re_fullmatch CUSTOM_ITEM (bytes_of name)" "\<not> re_fullmatch COMMENTS_PART (bytes_of name)"
    unfolding CUSTOM_ITEM_def COMMENTS_PART_def seqs.simps
    by (rule starts_not_fullmatch [OF name(1), of 4]; use p in \<open>auto simp: bytes_of_def\<close>)+
  from part consider "p = ''xl/persons/''" "kvs = XL_PERSON"
    | "p = ''xl/threadedComments/''" "kvs = [(bytes_of ''dT'', NEUTRAL_TIME)]"
    by (auto simp: ATTR_PARTS_def)
  then show ?thesis
  proof cases
    case 1
    then show ?thesis using no custom name plain by (simp add: anonymise_ooxml_part_def no_profile_path Let_def)
  next
    case 2
    then have "\<not> starts name ''xl/persons/''" using starts_clash [OF name(1), of 4 "''xl/persons/''"] by simp
    with 2 show ?thesis using no custom name plain by (simp add: anonymise_ooxml_part_def no_profile_path Let_def)
  qed
qed

lemma attr_part_values:
  assumes "(p, kvs) \<in> set ATTR_PARTS"
  shows "distinct (map fst kvs)" "(n, v) \<in> set kvs \<Longrightarrow> plain_name n \<and> value_ok names v"
proof -
  show "distinct (map fst kvs)" using assms by (auto simp: ATTR_PARTS_def XL_PERSON_def named_def bytes_of_def)
  assume "(n, v) \<in> set kvs"
  with assms have "n \<in> {bytes_of ''displayName'', bytes_of ''userId'', bytes_of ''providerId'', bytes_of ''dT''}"
    "v \<in> {bytes_of ''Author'', [], bytes_of ''None'', NEUTRAL_TIME}"
    by (auto simp: ATTR_PARTS_def XL_PERSON_def named_def bytes_of_def)
  moreover have "plain_name (bytes_of ''displayName'')" "plain_name (bytes_of ''userId'')" "plain_name (bytes_of ''providerId'')"
    "plain_name (bytes_of ''dT'')"
    by (simp_all add: plain_name_def bytes_of_def word_byte_def)
  moreover have "value_ok names (bytes_of ''Author'')" "value_ok names []" "value_ok names (bytes_of ''None'')"
    "value_ok names NEUTRAL_TIME"
    by (auto simp: value_ok_def bytes_of_def NEUTRAL_TIME_def QUOTE_def space_byte_def intro!: attr_free_no_space)
  ultimately show "plain_name n \<and> value_ok names v" by auto
qed


definition named_person :: attr where
  "named_person = \<lparr>at_before = bytes_of ''<person'', at_space = 0x20, at_prefix = [], at_name = bytes_of ''displayName'',
     at_value = bytes_of ''Jo''\<rparr>"


section \<open>What it leaves in and what it takes too much\<close>

text \<open>Part names do not depend on case in the standard, in the source they do.\<close>

lemma differently_cased_part_kept:
  "anonymise_ooxml_part walk ''Word/comments.xml'' body = scrub_profile_paths body"
proof -
  have "\<not> re_fullmatch CUSTOM_ITEM (bytes_of ''Word/comments.xml'')" "\<not> re_fullmatch COMMENTS_PART (bytes_of ''Word/comments.xml'')"
    unfolding CUSTOM_ITEM_def COMMENTS_PART_def seqs.simps
    by (rule starts_not_fullmatch [OF starts_self, of 1]; simp add: bytes_of_def)+
  then show ?thesis by (simp add: anonymise_ooxml_part_def starts_def ends_def Let_def)
qed

text \<open>The text of a document that reads like an attribute is rewritten as if it were one.\<close>

lemma text_like_an_attribute_rewritten:
  "neutral_attrs (bytes_of (''<w:t>of date='' @ [quote] @ ''May'' @ [quote] @ ''</w:t>'')) WORD_TIMES =
   bytes_of (''<w:t>of date='' @ [quote] @ ''1980-01-01T00:00:00Z'' @ [quote] @ ''</w:t>'')"
  by code_simp

end
