(* ===== verification/Office_Package.thy ===== *)
theory Office_Package
  imports Office_Parts Pdf_Clean Upload
begin

text \<open>
  The Office cleaner (\<open>_strip_ooxml\<close> and its helpers in \<open>app/services/attachment.py\<close>): which parts of a
  package are left out, emptied, cleaned or refused, and the entries of the package written. Reading and
  writing a ZIP archive are \<open>zipfile\<close>'s and arguments (\<open>zip_library\<close>); an entry that cannot be read is
  a \<open>Parser_error\<close>, which \<open>strip_metadata\<close> turns into a refusal. Part names fold case as ASCII letters.
\<close>

section \<open>Archives\<close>

record zip_entry =
  ze_name :: string
  ze_size :: nat
  ze_body :: "strip_error + bytes"

record new_entry =
  ne_name :: string
  ne_date :: "nat list"
  ne_body :: bytes

record zip_library =
  zl_open :: "bytes \<Rightarrow> strip_error + zip_entry list"
  zl_write :: "new_entry list \<Rightarrow> strip_error + bytes"
  zl_utf8 :: "bytes \<Rightarrow> string option"
  zl_walk :: "bytes list \<Rightarrow> bytes list"

text \<open>By name, an archive gives its last entry of that name; none is a \<open>KeyError\<close>.\<close>

definition entry_named :: "zip_entry list \<Rightarrow> string \<Rightarrow> zip_entry option" where
  "entry_named pkg name = find (\<lambda>x. ze_name x = name) (rev pkg)"

section \<open>What the package says of its parts\<close>

definition OOXML_EMPTY_PARTS :: "(string \<times> bytes) list" where
  "OOXML_EMPTY_PARTS =
     (let decl = ''<?xml version='' @ [quote] @ ''1.0'' @ [quote] @ '' encoding='' @ [quote] @ ''UTF-8'' @ [quote] @
                 '' standalone='' @ [quote] @ ''yes'' @ [quote] @ ''?>'' @ [CHR 0x0A];
          q = [quote] in
      [(''docprops/core.xml'', bytes_of (decl @
          ''<cp:coreProperties xmlns:cp='' @ q @ ''http://schemas.openxmlformats.org/package/2006/metadata/core-properties'' @ q @
          '' xmlns:dc='' @ q @ ''http://purl.org/dc/elements/1.1/'' @ q @
          '' xmlns:dcterms='' @ q @ ''http://purl.org/dc/terms/'' @ q @
          '' xmlns:xsi='' @ q @ ''http://www.w3.org/2001/XMLSchema-instance'' @ q @ ''/>'')),
       (''docprops/app.xml'', bytes_of (decl @
          ''<Properties xmlns='' @ q @ ''http://schemas.openxmlformats.org/officeDocument/2006/extended-properties'' @ q @ ''/>'')),
       (''docprops/custom.xml'', bytes_of (decl @
          ''<Properties xmlns='' @ q @ ''http://schemas.openxmlformats.org/officeDocument/2006/custom-properties'' @ q @ ''/>''))])"

definition printer_id_rx :: rx where
  "printer_id_rx =
     seqs [txt_rx ''<Relationship'', Edge, Ahead (Seq (many (none_of ''>'')) (txt_rx ''printerSettings'')), many (none_of ''>''),
           space, txt_rx (''Id='' @ [quote]), Grp 1 (some_of (none_of [quote])), one_of [quote]]"

definition core_target_rx :: rx where
  "core_target_rx =
     seqs [txt_rx ''<Relationship'', Edge,
           Ahead (Seq (many (none_of ''>'')) (txt_rx (''metadata/core-properties'' @ [quote]))), many (none_of ''>''),
           space, txt_rx (''Target='' @ [quote]), Grp 1 (some_of (none_of [quote])), one_of [quote]]"

fun replace_first :: "string \<Rightarrow> string \<Rightarrow> string" where
  "replace_first p xs =
     (if starts xs p then drop (length p) xs else case xs of [] \<Rightarrow> [] | c # cs \<Rightarrow> c # replace_first p cs)"

definition remove_suffix :: "string \<Rightarrow> string \<Rightarrow> string" where
  "remove_suffix s xs = (if ends xs s then take (length xs - length s) xs else xs)"

fun printer_settings_ids :: "zip_entry list \<Rightarrow> string list \<Rightarrow> strip_error + (string \<Rightarrow> bytes list)" where
  "printer_settings_ids pkg [] = Inr (\<lambda>_. [])"
| "printer_settings_ids pkg (name # names) =
     and_then (if ends name ''.rels''
               then (case entry_named pkg name of
                       None \<Rightarrow> Inl Parser_error
                     | Some x \<Rightarrow> map_sum id (re_findall printer_id_rx) (ze_body x))
               else Inr []) (\<lambda>found.
     and_then (printer_settings_ids pkg names) (\<lambda>ids.
       let part = remove_suffix ''.rels'' (replace_first ''_rels/'' name) in
       Inr (\<lambda>p. if p = part \<and> found \<noteq> [] \<and> ids p = [] then found else ids p)))"

text \<open>The target as a part name: leading slashes off, case folded.\<close>

definition core_property_parts :: "zip_library \<Rightarrow> zip_entry list \<Rightarrow> strip_error + string list" where
  "core_property_parts zl pkg =
     (case entry_named pkg ''_rels/.rels'' of
        None \<Rightarrow> Inr []
      | Some x \<Rightarrow>
          and_then (ze_body x) (\<lambda>rels.
            let targets = map (zl_utf8 zl) (re_findall core_target_rx rels) in
            if None \<in> set targets then Inl Parser_error
            else Inr (map (\<lambda>t. lower (dropWhile (\<lambda>c. c = CHR ''/'') (the t))) targets)))"

section \<open>One entry\<close>

definition OOXML_MEDIA_DIR :: rx where
  "OOXML_MEDIA_DIR = seqs [alts [itxt ''word'', itxt ''xl'', itxt ''ppt''], itxt ''/media/'']"

definition OOXML_MEDIA :: rx where
  "OOXML_MEDIA =
     seqs [OOXML_MEDIA_DIR, some_of (none_of ''/''), itxt ''.'',
           alts [seqs [itxt ''jp'', maybe (itxt ''e''), itxt ''g''], itxt ''png'', itxt ''gif'', itxt ''webp'',
                 seqs [itxt ''tif'', maybe (itxt ''f'')]]]"

definition MAGICS :: "bytes list" where
  "MAGICS = [[0xFF, 0xD8, 0xFF], [0x89, 0x50, 0x4E, 0x47, 0x0D, 0x0A, 0x1A, 0x0A], bytes_of ''GIF8'',
     [0x49, 0x49, 0x2A, 0x00], [0x4D, 0x4D, 0x00, 0x2A]]"

definition is_cleanable_image :: "bytes \<Rightarrow> bool" where
  "is_cleanable_image body \<longleftrightarrow>
     list_ex (\<lambda>m. take (length m) body = m) MAGICS \<or>
     (take 4 body = bytes_of ''RIFF'' \<and> pyslice body 8 12 = bytes_of ''WEBP'')"

definition skipped_part :: "string \<Rightarrow> bool" where
  "skipped_part name \<longleftrightarrow> starts name ''docProps/thumbnail.'' \<or> infix_of (bytes_of ''/printerSettings/'') (bytes_of name)"

definition emptied_part :: "string list \<Rightarrow> string \<Rightarrow> bytes option" where
  "emptied_part core name =
     (let part = lower name in map_of OOXML_EMPTY_PARTS (if part \<in> set core then ''docprops/core.xml'' else part))"

definition drop_reference :: "bytes \<Rightarrow> bytes \<Rightarrow> bytes" where
  "drop_reference rid body =
     re_remove (seqs [space, some_of word, txt_rx ('':id='' @ [quote]), lit rid, one_of [quote]])
       (re_remove (seqs [one_of ''<'', some_of word, txt_rx '':printerSettings'', Edge, many (none_of ''>''), space,
                         txt_rx (''r:id='' @ [quote]), lit rid, one_of [quote], many (none_of ''>''), txt_rx ''/>'']) body)"

definition is_media :: "string \<Rightarrow> bytes \<Rightarrow> bool" where
  "is_media name body \<longleftrightarrow>
     re_fullmatch OOXML_MEDIA (bytes_of name) \<or> (re_match OOXML_MEDIA_DIR (bytes_of name) \<and> is_cleanable_image body)"

definition is_embedded :: "string \<Rightarrow> bool" where
  "is_embedded name \<longleftrightarrow> infix_of (bytes_of ''/embeddings/'') (bytes_of name)"

text \<open>\<open>nested\<close> cleans a package inside this one; in a nested package there is none.\<close>

definition clean_entry ::
  "pillow \<Rightarrow> zip_library \<Rightarrow> (bytes \<Rightarrow> strip_error + bytes) option \<Rightarrow> (string \<Rightarrow> bytes list) \<Rightarrow> string list \<Rightarrow> zip_entry
     \<Rightarrow> strip_error + new_entry" where
  "clean_entry pil zl nested ids core x =
     (let name = ze_name x in
      and_then (case emptied_part core name of Some b \<Rightarrow> Inr b | None \<Rightarrow> ze_body x) (\<lambda>read_body.
      let body = fold drop_reference (ids name) read_body in
      and_then (if is_embedded name
                then (case nested of
                        None \<Rightarrow> Inl (Metadata_error ''Office file carries an embedded object'')
                      | Some strip_inner \<Rightarrow>
                          (if lower (suffix (path_name name)) \<notin> set [''.docx'', ''.xlsx'']
                           then Inl (Metadata_error ''Office file carries an embedded object'') else strip_inner body))
                else Inr body) (\<lambda>body1.
      and_then (if is_media name body1 then strip_image pil body1 else Inr body1) (\<lambda>body2.
        Inr \<lparr>ne_name = name, ne_date = [1980, 1, 1, 0, 0, 0], ne_body = anonymise_ooxml_part (zl_walk zl) name body2\<rparr>))))"

fun clean_entries ::
  "pillow \<Rightarrow> zip_library \<Rightarrow> (bytes \<Rightarrow> strip_error + bytes) option \<Rightarrow> (string \<Rightarrow> bytes list) \<Rightarrow> string list \<Rightarrow> zip_entry list
     \<Rightarrow> strip_error + new_entry list" where
  "clean_entries pil zl nested ids core [] = Inr []"
| "clean_entries pil zl nested ids core (x # xs) =
     (if skipped_part (ze_name x) then clean_entries pil zl nested ids core xs
      else and_then (clean_entry pil zl nested ids core x) (\<lambda>y.
           and_then (clean_entries pil zl nested ids core xs) (\<lambda>ys. Inr (y # ys))))"

section \<open>The package\<close>

definition strip_package :: "pillow \<Rightarrow> zip_library \<Rightarrow> (bytes \<Rightarrow> strip_error + bytes) option \<Rightarrow> bytes \<Rightarrow> strip_error + bytes" where
  "strip_package pil zl nested data =
     and_then (zl_open zl data) (\<lambda>pkg.
     if sum_list (map ze_size pkg) > 20 * MAX_SIZE_BYTES then Inl (Metadata_error ''archive expands too far'')
     else and_then (printer_settings_ids pkg (map ze_name pkg)) (\<lambda>ids.
          and_then (core_property_parts zl pkg) (\<lambda>core.
          and_then (clean_entries pil zl nested ids core pkg) (\<lambda>ys. zl_write zl ys))))"

definition strip_ooxml_file :: "pillow \<Rightarrow> zip_library \<Rightarrow> bytes \<Rightarrow> strip_error + bytes" where
  "strip_ooxml_file pil zl data = strip_package pil zl (Some (strip_package pil zl None)) data"

section \<open>What is withheld does not matter\<close>

definition alike_but_withheld :: "string list \<Rightarrow> zip_entry \<Rightarrow> zip_entry \<Rightarrow> bool" where
  "alike_but_withheld core x y \<longleftrightarrow>
     ze_name y = ze_name x \<and>
     (ze_body y = ze_body x \<or>
      (\<not> ends (ze_name x) ''.rels'' \<and> (skipped_part (ze_name x) \<or> emptied_part core (ze_name x) \<noteq> None)))"

lemma entry_named_alike:
  assumes "list_all2 (alike_but_withheld core) pkg pkg'"
  shows "rel_option (alike_but_withheld core) (entry_named pkg n) (entry_named pkg' n)"
proof -
  have "list_all2 R xs ys \<Longrightarrow> (\<And>x y. R x y \<Longrightarrow> ze_name y = ze_name x) \<Longrightarrow>
    rel_option R (find (\<lambda>x. ze_name x = n) xs) (find (\<lambda>x. ze_name x = n) ys)" for R xs ys
    by (induction rule: list_all2_induct) auto
  from this [of "alike_but_withheld core" "rev pkg" "rev pkg'"] assms show ?thesis
    by (simp add: entry_named_def list_all2_rev1 alike_but_withheld_def)
qed

lemma rels_entry_alike:
  assumes "list_all2 (alike_but_withheld core) pkg pkg'" "ends n ''.rels''"
  shows "map_option ze_body (entry_named pkg' n) = map_option ze_body (entry_named pkg n)"
proof -
  have name: "ze_name x = n" if "entry_named pkg n = Some x" for x
    using that by (auto simp: entry_named_def find_Some_iff)
  from entry_named_alike [OF assms(1), of n] name assms(2) show ?thesis
    by (auto simp: option_rel_Some1 alike_but_withheld_def elim!: option.rel_cases)
qed

lemma printer_settings_ids_alike:
  assumes "list_all2 (alike_but_withheld core) pkg pkg'"
  shows "printer_settings_ids pkg' names = printer_settings_ids pkg names"
proof (induction names)
  case (Cons name names)
  have "(case entry_named pkg' name of None \<Rightarrow> Inl Parser_error | Some x \<Rightarrow> map_sum id (re_findall printer_id_rx) (ze_body x)) =
    (case entry_named pkg name of None \<Rightarrow> Inl Parser_error | Some x \<Rightarrow> map_sum id (re_findall printer_id_rx) (ze_body x))"
    if "ends name ''.rels''"
    using rels_entry_alike [OF assms that] by (auto split: option.splits)
  then show ?case by (simp only: printer_settings_ids.simps Cons.IH cong: if_cong)
qed simp

lemma core_property_parts_alike:
  assumes "list_all2 (alike_but_withheld core) pkg pkg'"
  shows "core_property_parts zl pkg' = core_property_parts zl pkg"
  using rels_entry_alike [OF assms, of "''_rels/.rels''"]
  by (auto simp: core_property_parts_def ends_def starts_def split: option.splits)

lemma clean_entries_alike:
  assumes "list_all2 (alike_but_withheld core) pkg pkg'"
  shows "clean_entries pil zl nested ids core pkg' = clean_entries pil zl nested ids core pkg"
  using assms
proof (induction rule: list_all2_induct)
  case (Cons x xs y ys)
  have "clean_entry pil zl nested ids core y = clean_entry pil zl nested ids core x" if "\<not> skipped_part (ze_name x)"
    using Cons.hyps(1) that by (auto simp: clean_entry_def alike_but_withheld_def Let_def split: option.splits)
  then show ?case using Cons.IH Cons.hyps(1) by (simp add: alike_but_withheld_def)
qed simp


section \<open>What is written\<close>

lemma clean_entries_Inr:
  assumes "clean_entries pil zl nested ids core xs = Inr ys"
  shows "map ne_name ys = filter (\<lambda>n. \<not> skipped_part n) (map ze_name xs) \<and>
    (\<forall>y \<in> set ys. \<exists>x \<in> set xs. clean_entry pil zl nested ids core x = Inr y)"
  using assms
proof (induction xs arbitrary: ys)
  case (Cons x xs)
  have name: "ne_name y = ze_name x" if "clean_entry pil zl nested ids core x = Inr y" for y
    using that by (auto simp: clean_entry_def Let_def and_then_Inr)
  show ?case
  proof (cases "skipped_part (ze_name x)")
    case True
    with Cons show ?thesis by auto
  next
    case False
    with Cons.prems obtain y zs where "clean_entry pil zl nested ids core x = Inr y"
      "clean_entries pil zl nested ids core xs = Inr zs" "ys = y # zs" by (auto simp: and_then_Inr)
    with Cons.IH name False show ?thesis by auto
  qed
qed simp

lemma strip_package_Inr:
  assumes "strip_package pil zl nested data = Inr out"
  shows "\<exists>pkg ids core ys. zl_open zl data = Inr pkg \<and> sum_list (map ze_size pkg) \<le> 20 * MAX_SIZE_BYTES \<and>
    zl_write zl ys = Inr out \<and> clean_entries pil zl nested ids core pkg = Inr ys"
proof -
  from assms obtain pkg ids core ys where "zl_open zl data = Inr pkg" "\<not> sum_list (map ze_size pkg) > 20 * MAX_SIZE_BYTES"
    "clean_entries pil zl nested ids core pkg = Inr ys" "zl_write zl ys = Inr out"
    by (auto simp: strip_package_def and_then_Inr split: if_splits)
  then show ?thesis unfolding not_less by blast
qed

lemma clean_entry_Inr:
  assumes "clean_entry pil zl nested ids core x = Inr y"
  shows "ne_name y = ze_name x \<and> ne_date y = [1980, 1, 1, 0, 0, 0] \<and>
    (\<exists>part. ne_body y = anonymise_ooxml_part (zl_walk zl) (ne_name y) part \<and>
       (re_fullmatch OOXML_MEDIA (bytes_of (ne_name y)) \<longrightarrow> (\<exists>b. strip_image pil b = Inr part)) \<and>
       (is_embedded (ne_name y) \<longrightarrow>
          (\<exists>strip_inner raw inner. nested = Some strip_inner \<and> strip_inner raw = Inr inner \<and>
             lower (suffix (path_name (ne_name y))) \<in> {''.docx'', ''.xlsx''} \<and>
             (part = inner \<or> strip_image pil inner = Inr part))))"
proof -
  from assms obtain body body1 body2 where y: "y = \<lparr>ne_name = ze_name x, ne_date = [1980, 1, 1, 0, 0, 0],
      ne_body = anonymise_ooxml_part (zl_walk zl) (ze_name x) body2\<rparr>"
    and body1: "(if is_embedded (ze_name x)
        then (case nested of
                None \<Rightarrow> Inl (Metadata_error ''Office file carries an embedded object'')
              | Some strip_inner \<Rightarrow>
                  (if lower (suffix (path_name (ze_name x))) \<notin> set [''.docx'', ''.xlsx'']
                   then Inl (Metadata_error ''Office file carries an embedded object'') else strip_inner body))
        else Inr body) = Inr body1"
    and body2: "(if is_media (ze_name x) body1 then strip_image pil body1 else Inr body1) = Inr body2"
    by (auto simp: clean_entry_def Let_def and_then_Inr)
  have media: "re_fullmatch OOXML_MEDIA (bytes_of (ze_name x)) \<longrightarrow> (\<exists>b. strip_image pil b = Inr body2)"
    using body2 by (auto simp: is_media_def split: if_splits)
  have embedded: "is_embedded (ze_name x) \<longrightarrow>
      (\<exists>strip_inner raw inner. nested = Some strip_inner \<and> strip_inner raw = Inr inner \<and>
         lower (suffix (path_name (ze_name x))) \<in> {''.docx'', ''.xlsx''} \<and> (body2 = inner \<or> strip_image pil inner = Inr body2))"
  proof
    assume "is_embedded (ze_name x)"
    with body1 obtain strip_inner where "nested = Some strip_inner" "strip_inner body = Inr body1"
      "lower (suffix (path_name (ze_name x))) \<in> {''.docx'', ''.xlsx''}" by (auto split: option.splits if_splits)
    moreover have "body2 = body1 \<or> strip_image pil body1 = Inr body2" using body2 by (auto split: if_splits)
    ultimately show "\<exists>strip_inner raw inner. nested = Some strip_inner \<and> strip_inner raw = Inr inner \<and>
         lower (suffix (path_name (ze_name x))) \<in> {''.docx'', ''.xlsx''} \<and> (body2 = inner \<or> strip_image pil inner = Inr body2)"
      by blast
  qed
  show ?thesis unfolding y new_entry.select_convs using media embedded by blast
qed

text \<open>
  An Office file that is accepted is written anew: exactly the parts of the package in their order,
  without thumbnail and printer settings, each under the same neutral date and through the replacements of its
  kind; every picture went through the image cleaner; an embedded object is a Word or Excel file that was
  cleaned the same way and embeds nothing itself.
\<close>

theorem office_package_cleaned:
  assumes "strip_ooxml_file pil zl data = Inr out"
  shows "\<exists>pkg ys. zl_open zl data = Inr pkg \<and> zl_write zl ys = Inr out \<and> sum_list (map ze_size pkg) \<le> 20 * MAX_SIZE_BYTES \<and>
    map ne_name ys = filter (\<lambda>n. \<not> skipped_part n) (map ze_name pkg) \<and>
    (\<forall>y \<in> set ys. ne_date y = [1980, 1, 1, 0, 0, 0] \<and>
      (\<exists>part. ne_body y = anonymise_ooxml_part (zl_walk zl) (ne_name y) part \<and>
         (re_fullmatch OOXML_MEDIA (bytes_of (ne_name y)) \<longrightarrow> (\<exists>b. strip_image pil b = Inr part)) \<and>
         (is_embedded (ne_name y) \<longrightarrow>
            (\<exists>inner zs. zl_write zl zs = Inr inner \<and> (\<forall>z \<in> set zs. \<not> is_embedded (ne_name z) \<and> \<not> skipped_part (ne_name z)) \<and>
               lower (suffix (path_name (ne_name y))) \<in> {''.docx'', ''.xlsx''} \<and>
               (part = inner \<or> strip_image pil inner = Inr part)))))"
proof -
  from strip_package_Inr [OF assms [unfolded strip_ooxml_file_def]] obtain pkg ids core ys where
    pkg: "zl_open zl data = Inr pkg" "sum_list (map ze_size pkg) \<le> 20 * MAX_SIZE_BYTES" "zl_write zl ys = Inr out"
    and ys: "clean_entries pil zl (Some (strip_package pil zl None)) ids core pkg = Inr ys" by blast
  have inner: "\<exists>zs. zl_write zl zs = Inr inner \<and> (\<forall>z \<in> set zs. \<not> is_embedded (ne_name z) \<and> \<not> skipped_part (ne_name z))"
    if inner: "strip_package pil zl None raw = Inr inner" for raw inner
  proof -
    from strip_package_Inr [OF inner] obtain pkg' ids' core' zs where
      "zl_write zl zs = Inr inner" "clean_entries pil zl None ids' core' pkg' = Inr zs" by blast
    moreover from clean_entries_Inr [OF this(2)]
    have "\<not> is_embedded (ne_name z) \<and> \<not> skipped_part (ne_name z)" if "z \<in> set zs" for z
    proof -
      from clean_entries_Inr [OF calculation(2)] that obtain x where "clean_entry pil zl None ids' core' x = Inr z" by blast
      from clean_entry_Inr [OF this] have "\<not> is_embedded (ne_name z)" by blast
      moreover have "ne_name z \<in> set (filter (\<lambda>n. \<not> skipped_part n) (map ze_name pkg'))"
        using clean_entries_Inr [OF \<open>clean_entries pil zl None ids' core' pkg' = Inr zs\<close>] that by (metis image_eqI list.set_map)
      ultimately show ?thesis by simp
    qed
    ultimately show ?thesis by blast
  qed
  have "ne_date y = [1980, 1, 1, 0, 0, 0] \<and>
      (\<exists>part. ne_body y = anonymise_ooxml_part (zl_walk zl) (ne_name y) part \<and>
         (re_fullmatch OOXML_MEDIA (bytes_of (ne_name y)) \<longrightarrow> (\<exists>b. strip_image pil b = Inr part)) \<and>
         (is_embedded (ne_name y) \<longrightarrow>
            (\<exists>inner zs. zl_write zl zs = Inr inner \<and> (\<forall>z \<in> set zs. \<not> is_embedded (ne_name z) \<and> \<not> skipped_part (ne_name z)) \<and>
               lower (suffix (path_name (ne_name y))) \<in> {''.docx'', ''.xlsx''} \<and>
               (part = inner \<or> strip_image pil inner = Inr part))))" if "y \<in> set ys" for y
  proof -
    from clean_entries_Inr [OF ys] that obtain x where "clean_entry pil zl (Some (strip_package pil zl None)) ids core x = Inr y"
      by blast
    from clean_entry_Inr [OF this] obtain part where part: "ne_date y = [1980, 1, 1, 0, 0, 0]"
        "ne_body y = anonymise_ooxml_part (zl_walk zl) (ne_name y) part"
        "re_fullmatch OOXML_MEDIA (bytes_of (ne_name y)) \<longrightarrow> (\<exists>b. strip_image pil b = Inr part)"
      and embedded: "is_embedded (ne_name y) \<Longrightarrow>
          \<exists>strip_inner raw inner. Some (strip_package pil zl None) = Some strip_inner \<and> strip_inner raw = Inr inner \<and>
             lower (suffix (path_name (ne_name y))) \<in> {''.docx'', ''.xlsx''} \<and> (part = inner \<or> strip_image pil inner = Inr part)"
      by blast
    have "\<exists>inner zs. zl_write zl zs = Inr inner \<and> (\<forall>z \<in> set zs. \<not> is_embedded (ne_name z) \<and> \<not> skipped_part (ne_name z)) \<and>
        lower (suffix (path_name (ne_name y))) \<in> {''.docx'', ''.xlsx''} \<and> (part = inner \<or> strip_image pil inner = Inr part)"
      if "is_embedded (ne_name y)"
    proof -
      from embedded [OF that] obtain raw i where i: "strip_package pil zl None raw = Inr i"
        "lower (suffix (path_name (ne_name y))) \<in> {''.docx'', ''.xlsx''}" "part = i \<or> strip_image pil i = Inr part"
        unfolding option.inject by blast
      from inner [OF i(1)] i(2,3) show ?thesis by blast
    qed
    with part show ?thesis by blast
  qed
  with pkg clean_entries_Inr [OF ys] show ?thesis by blast
qed

section \<open>Examples, and what gets through\<close>

definition no_pictures :: pillow where
  "no_pictures = \<lparr>pil_open = (\<lambda>_. Inl Unidentified), pil_exif = (\<lambda>_. Inr 1), pil_gif = Inr, pil_tiff = Inr\<rparr>"

text \<open>An archive of two or three parts; the core properties say what the file's bytes say.\<close>

definition plain_part :: zip_entry where
  "plain_part = \<lparr>ze_name = ''a.bin'', ze_size = 2, ze_body = Inr [1, 2]\<rparr>"

definition thumbnail_part :: zip_entry where
  "thumbnail_part = \<lparr>ze_name = ''docProps/thumbnail.jpeg'', ze_size = 9, ze_body = Inl Parser_error\<rparr>"

definition core_part :: "bytes \<Rightarrow> zip_entry" where
  "core_part data = \<lparr>ze_name = ''docProps/core.xml'', ze_size = 9, ze_body = Inr data\<rparr>"

definition sample_zip :: "bool \<Rightarrow> zip_library" where
  "sample_zip core =
     \<lparr>zl_open = (\<lambda>data. Inr ((if core then [core_part data] else []) @ [thumbnail_part, plain_part])),
      zl_write = (\<lambda>ys. Inr (concat (map ne_body ys))), zl_utf8 = (\<lambda>_. None), zl_walk = id\<rparr>"


theorem office_package_cleaned_witness:
  "\<exists>ys. zl_write (sample_zip False) ys = Inr [1, 2] \<and> map ne_name ys = [''a.bin''] \<and> (\<forall>y \<in> set ys. ne_date y = [1980, 1, 1, 0, 0, 0])"
proof -
  have opened: "zl_open (sample_zip False) [] = Inr [thumbnail_part, plain_part]" by (simp add: sample_zip_def)
  have ids: "printer_settings_ids pkg (map ze_name [thumbnail_part, plain_part]) = Inr (\<lambda>_. [])" for pkg
    by (simp add: thumbnail_part_def plain_part_def ends_def starts_def)
  have core: "core_property_parts (sample_zip False) [thumbnail_part, plain_part] = Inr []"
    by (simp add: core_property_parts_def entry_named_def thumbnail_part_def plain_part_def)
  have entries: "clean_entries no_pictures (sample_zip False) nested (\<lambda>_. []) [] [thumbnail_part, plain_part] =
      Inr [\<lparr>ne_name = ''a.bin'', ne_date = [1980, 1, 1, 0, 0, 0], ne_body = [1, 2]\<rparr>]" for nested
    by code_simp
  have "strip_ooxml_file no_pictures (sample_zip False) [] = Inr [1, 2]"
    unfolding strip_ooxml_file_def strip_package_def opened and_then_simps ids core entries
    by (simp add: thumbnail_part_def plain_part_def MAX_SIZE_BYTES_def sample_zip_def)
  from office_package_cleaned [OF this] obtain pkg ys where
    "zl_open (sample_zip False) [] = Inr pkg" "zl_write (sample_zip False) ys = Inr [1, 2]"
    "map ne_name ys = filter (\<lambda>n. \<not> skipped_part n) (map ze_name pkg)" "\<forall>y \<in> set ys. ne_date y = [1980, 1, 1, 0, 0, 0]" by blast
  moreover have "skipped_part ''docProps/thumbnail.jpeg''" "\<not> skipped_part ''a.bin''" by code_simp+
  ultimately show ?thesis by (auto simp: sample_zip_def thumbnail_part_def plain_part_def)
qed

text \<open>Part names do not depend on case in the standard: a thumbnail and an object under such names stay.\<close>

lemma differently_cased_parts_pass:
  "\<not> skipped_part ''docprops/thumbnail.jpeg'' \<and> \<not> is_embedded ''word/Embeddings/oleObject1.bin''"
  by code_simp

end
