(* ===== verification/Demo_Seed.thy ===== *)
theory Demo_Seed
  imports Start_Up
begin

text \<open>
  The demo's sample data (\<open>app/services/demo_seed.py\<close>): when an installation is left alone, the accounts,
  places and cases that are added where they are missing, in one transaction. \<open>Inl\<close> is an exception, after
  which nothing is committed. A request's draws are its identifiers: 0 to 2 for the accounts, 3 and 4 for the
  places, 5 for the link, eight for each case from 10 on, and the data keys are its tokens.
\<close>

section \<open>What is seeded\<close>

definition DEMO_ADMIN_USERNAME :: string where "DEMO_ADMIN_USERNAME = ''demo''"
definition DEMO_PASSWORD :: string where "DEMO_PASSWORD = ''demo''"
definition DEMO_TOTP_SECRET :: string where "DEMO_TOTP_SECRET = ''JBSWY3DPEHPK3PXP''"
definition DEMO_CM_USERNAME :: string where "DEMO_CM_USERNAME = ''case_manager''"
definition DEMO_ADMIN2_USERNAME :: string where "DEMO_ADMIN2_USERNAME = ''demo2''"

record demo_report =
  dm_case_number :: string
  dm_pin :: string
  dm_category :: string
  dm_description :: string
  dm_status :: status
  dm_ack_days :: "int option"
  dm_closed :: bool

definition DEMO_REPORTS :: "demo_report list" where
  "DEMO_REPORTS =
     [\<lparr>dm_case_number = ''OW-DEMO-00001'', dm_pin = ''demo-pin-received-00001'', dm_category = ''financial_fraud'',
       dm_description = ''I have noticed irregularities in the quarterly expense reports. '' @
         ''Several managers appear to be submitting duplicate reimbursement claims '' @ ''for the same business trips.'',
       dm_status = Received, dm_ack_days = None, dm_closed = False\<rparr>,
      \<lparr>dm_case_number = ''OW-DEMO-00002'', dm_pin = ''demo-pin-inreview-00002'', dm_category = ''workplace_safety'',
       dm_description = ''The fire exits on the third floor of the main building have been blocked '' @
         ''by storage equipment for over two months. Multiple complaints to facility '' @ ''management have been ignored.'',
       dm_status = In_review, dm_ack_days = Some (- 5), dm_closed = False\<rparr>,
      \<lparr>dm_case_number = ''OW-DEMO-00003'', dm_pin = ''demo-pin-pending-00003'', dm_category = ''corruption'',
       dm_description = ''A senior procurement officer appears to be awarding contracts exclusively '' @
         ''to a company owned by a family member, bypassing the standard bidding process.'',
       dm_status = Pending_feedback, dm_ack_days = Some (- 14), dm_closed = False\<rparr>,
      \<lparr>dm_case_number = ''OW-DEMO-00004'', dm_pin = ''demo-pin-closed-00004'', dm_category = ''data_protection'',
       dm_description = ''Customer data including email addresses and purchase histories is being exported '' @
         ''to an external marketing service without explicit consent. This was discovered '' @
         ''while reviewing server access logs last week.'',
       dm_status = Closed, dm_ack_days = Some (- 60), dm_closed = True\<rparr>]"

definition RECEIPT_TEXT :: string where
  "RECEIPT_TEXT = ''Your report has been received. You will receive an acknowledgement '' @
     ''within 7 days as required by '' @ [CHR 0xC2, CHR 0xA7] @ ''17 HinSchG.''"

definition ACK_TEXT :: string where
  "ACK_TEXT = ''We have acknowledged your report and have begun our internal review. '' @
     ''We will provide a full update within 3 months.''"

definition THANKS_TEXT :: string where
  "THANKS_TEXT = ''Thank you. I have additional documentation I can provide if needed.''"

definition PROGRESS_TEXT :: string where
  "PROGRESS_TEXT = ''Our investigation is progressing. We will reach out with further '' @
     ''questions if needed. An interim update will follow shortly.''"

definition CLOSING_TEXT :: string where
  "CLOSING_TEXT = ''This case has been fully investigated. The issues raised were confirmed '' @
     ''and appropriate corrective measures have been implemented. Thank you for '' @
     ''your report '' @ [CHR 0xE2, CHR 0x80, CHR 0x94] @ '' your identity remains fully protected.''"

definition REVIEW_NOTE :: string where
  "REVIEW_NOTE = ''Initial review completed. Case assigned to compliance team. '' @
     ''Supporting documents requested from HR.''"

section \<open>Accounts and places\<close>

datatype seed_error = Several_rows | Out_of_range | Key_error

text \<open>\<open>scalar_one_or_none\<close>: an exception where a query finds several rows.\<close>

definition one_or_none :: "'r list \<Rightarrow> seed_error + 'r option" where
  "one_or_none rows = (case rows of [] \<Rightarrow> Inr None | [x] \<Rightarrow> Inr (Some x) | _ \<Rightarrow> Inl Several_rows)"

definition is_foreign_database :: "db \<Rightarrow> bool" where
  "is_foreign_database d \<longleftrightarrow>
     (case db_setup d of None \<Rightarrow> False | Some s \<Rightarrow> set_completed s) \<and>
     map_option usr_totp_secret (find (\<lambda>u. usr_username u = DEMO_ADMIN_USERNAME) (db_users d)) \<noteq> Some DEMO_TOTP_SECRET"

definition demo_user :: "env \<Rightarrow> nat \<Rightarrow> string \<Rightarrow> role \<Rightarrow> user" where
  "demo_user e n username role =
     \<lparr>usr_id = env_id e n, usr_username = username, usr_password_hash = Some (hash_password (env_crypto e) DEMO_PASSWORD),
      usr_totp_secret = DEMO_TOTP_SECRET, usr_totp_enabled = True, usr_role = role, usr_active = True,
      usr_must_change = False, usr_oidc_sub = None, usr_oidc_issuer = None, usr_ldap = None, usr_org = None,
      usr_created_by = None, usr_created_at = env_now e, usr_last_login_at = None, usr_asked_version = None\<rparr>"

definition ensure_user :: "env \<Rightarrow> nat \<Rightarrow> string \<Rightarrow> role \<Rightarrow> db \<Rightarrow> seed_error + (user \<times> db)" where
  "ensure_user e n username role d =
     on_ok (one_or_none (filter (\<lambda>u. usr_username u = username) (db_users d))) (\<lambda>found.
       case found of
         Some u \<Rightarrow> Inr (u, d)
       | None \<Rightarrow> (let u = demo_user e n username role in Inr (u, d\<lparr>db_users := db_users d @ [u]\<rparr>)))"

definition ensure_second :: "env \<Rightarrow> db \<Rightarrow> user \<times> db" where
  "ensure_second e d =
     (case find (\<lambda>u. usr_username u = DEMO_ADMIN2_USERNAME) (db_users d) of
        Some u \<Rightarrow> (u, d)
      | None \<Rightarrow> (let u = demo_user e 2 DEMO_ADMIN2_USERNAME Admin in (u, d\<lparr>db_users := db_users d @ [u]\<rparr>)))"

definition give_org :: "uuid option \<Rightarrow> uuid list \<Rightarrow> db \<Rightarrow> db" where
  "give_org org accounts d =
     d\<lparr>db_users := map (\<lambda>u. if usr_id u \<in> set accounts \<and> usr_org u = None then u\<lparr>usr_org := org\<rparr> else u) (db_users d)\<rparr>"

definition ensure_location ::
  "env \<Rightarrow> nat \<Rightarrow> string \<Rightarrow> string \<Rightarrow> string \<Rightarrow> int \<Rightarrow> uuid option \<Rightarrow> db \<Rightarrow> seed_error + (location \<times> db)" where
  "ensure_location e n name code about order org d =
     on_ok (one_or_none (filter (\<lambda>l. loc_code l = code) (db_locations d))) (\<lambda>found.
       case found of
         Some l \<Rightarrow> Inr (l, d)
       | None \<Rightarrow>
           (let l = \<lparr>loc_id = env_id e n, loc_name = name, loc_code = code, loc_description = Some about, loc_active = True,
                     loc_sort = order, loc_created_at = env_now e, loc_org = org\<rparr>
            in Inr (l, d\<lparr>db_locations := db_locations d @ [l]\<rparr>)))"

definition complete_setup :: "env \<Rightarrow> db \<Rightarrow> db" where
  "complete_setup e d =
     (case db_setup d of
        Some s \<Rightarrow> (if set_completed s then d
                   else d\<lparr>db_setup := Some \<lparr>set_completed = True, set_completed_at = Some (env_now e)\<rparr>\<rparr>)
      | None \<Rightarrow> d\<lparr>db_setup := Some \<lparr>set_completed = True, set_completed_at = Some (env_now e)\<rparr>\<rparr>)"

section \<open>Cases\<close>

definition shifted :: "moment \<Rightarrow> int \<Rightarrow> seed_error + moment" where
  "shifted t us = (if in_range (t + us) then Inr (t + us) else Inl Out_of_range)"

record demo_times =
  dt_acknowledged :: "moment option"
  dt_closed :: "moment option"
  dt_submitted :: moment
  dt_reply :: "moment option"
  dt_feedback_due :: moment

definition demo_times_of :: "moment \<Rightarrow> demo_report \<Rightarrow> seed_error + demo_times" where
  "demo_times_of now m =
     on_ok (case dm_ack_days m of None \<Rightarrow> Inr None | Some n \<Rightarrow> map_sum id Some (shifted now (n * day_us))) (\<lambda>ack.
     on_ok (if dm_closed m then map_sum id Some (shifted now (- 3 * day_us)) else Inr None) (\<lambda>closed.
     on_ok (case ack of None \<Rightarrow> Inr now | Some a \<Rightarrow> shifted a (- 2 * day_us)) (\<lambda>sent.
     on_ok (case ack of None \<Rightarrow> Inr None | Some a \<Rightarrow> map_sum id (Some \<circ> day_floor) (shifted a day_us)) (\<lambda>reply.
       case due_at (day_floor sent) ack of
         None \<Rightarrow> Inl Out_of_range
       | Some due \<Rightarrow> Inr \<lparr>dt_acknowledged = ack, dt_closed = closed, dt_submitted = day_floor sent, dt_reply = reply,
                          dt_feedback_due = due\<rparr>))))"

definition three_hours :: int where "three_hours = 3 * 3600 * 1000000"

text \<open>A time that is missing is the column's default, the time of the insertion.\<close>

definition demo_message :: "env \<Rightarrow> nat \<Rightarrow> uuid \<Rightarrow> sender \<Rightarrow> string \<Rightarrow> moment option \<Rightarrow> message" where
  "demo_message e n i who content at =
     \<lparr>msg_id = env_id e n, msg_report = i, msg_sender = who, msg_content = content,
      msg_sent_at = (case at of None \<Rightarrow> env_now e | Some t \<Rightarrow> t)\<rparr>"

definition demo_messages :: "env \<Rightarrow> nat \<Rightarrow> uuid \<Rightarrow> demo_report \<Rightarrow> demo_times \<Rightarrow> message list" where
  "demo_messages e base i m ts =
     [demo_message e (base + 1) i From_admin RECEIPT_TEXT (Some (dt_submitted ts))] @
     (if dm_status m \<in> {In_review, Pending_feedback, Closed}
      then [demo_message e (base + 2) i From_admin ACK_TEXT (dt_acknowledged ts)] else []) @
     (if dm_status m \<in> {Pending_feedback, Closed}
      then [demo_message e (base + 3) i From_whistleblower THANKS_TEXT (dt_reply ts),
            demo_message e (base + 4) i From_admin PROGRESS_TEXT (map_option (\<lambda>t. t + three_hours) (dt_reply ts))] else []) @
     (if dm_status m = Closed then [demo_message e (base + 5) i From_admin CLOSING_TEXT (dt_closed ts)] else [])"

definition demo_case :: "env \<Rightarrow> nat \<Rightarrow> uuid option \<Rightarrow> location \<times> location \<Rightarrow> nat \<Rightarrow> demo_report \<Rightarrow> demo_times \<Rightarrow> string \<Rightarrow> report" where
  "demo_case e base org locs idx m ts fernet =
     (let cr = env_crypto e; cfg = env_cfg e; mode = (if idx = 1 then Confidential else Anonymous) in
      \<lparr>rep_id = env_id e base, rep_case_number = dm_case_number m, rep_pin_hash = hash_pin cr (dm_pin m), rep_org = org,
       rep_category = dm_category m, rep_description = encrypt_field cr fernet (dm_description m),
       rep_dek = encrypt_dek cr cfg (env_token e base), rep_status = dm_status m, rep_mode = mode,
       rep_location = Some (loc_id (if idx mod 2 = 0 then fst locs else snd locs)),
       rep_conf_name = (if mode = Confidential then Some (encrypt cr cfg ''Jane Demo'') else None),
       rep_conf_contact = (if mode = Confidential then Some (encrypt cr cfg ''jane.demo@example.com'') else None),
       rep_secure_email = None, rep_assigned = None, rep_submitted_at = dt_submitted ts,
       rep_acknowledged_at = dt_acknowledged ts, rep_feedback_due_at = Some (dt_feedback_due ts),
       rep_feedback_sent_at = (if dm_status m \<in> {Pending_feedback, Closed}
                               then map_option (\<lambda>t. t + three_hours) (dt_reply ts) else None),
       rep_closed_at = dt_closed ts\<rparr>)"

definition demo_note :: "env \<Rightarrow> nat \<Rightarrow> uuid \<Rightarrow> user \<Rightarrow> admin_note" where
  "demo_note e n i admin =
     \<lparr>note_id = env_id e n, note_report = i, note_author = Some (usr_id admin), note_author_name = usr_username admin,
      note_content = REVIEW_NOTE, note_created_at = env_now e\<rparr>"

definition demo_entry :: "env \<Rightarrow> nat \<Rightarrow> uuid \<Rightarrow> user \<Rightarrow> bool \<Rightarrow> audit_entry" where
  "demo_entry e n i admin acknowledged =
     \<lparr>aud_id = env_id e n, aud_at = env_now e, aud_admin = Some (usr_id admin), aud_username = usr_username admin,
      aud_action = (if acknowledged then ''report.acknowledged'' else ''report.viewed''), aud_report = Some i,
      aud_detail = Some [(''source'', ''demo_seed'')], aud_org = None\<rparr>"

definition seed_report ::
  "env \<Rightarrow> uuid option \<Rightarrow> location \<times> location \<Rightarrow> user \<Rightarrow> nat \<times> demo_report \<Rightarrow> report list \<times> db \<Rightarrow> seed_error + (report list \<times> db)" where
  "seed_report e org locs admin = (\<lambda>(idx, m) (seeded, d).
     on_ok (one_or_none (filter (\<lambda>r. rep_case_number r = dm_case_number m) (db_reports d))) (\<lambda>found.
     if found \<noteq> None then Inr (seeded, d)
     else on_ok (demo_times_of (env_now e) m) (\<lambda>ts.
       let base = 10 + 8 * idx in
       case make_report_fernet (env_crypto e) (env_cfg e) (encrypt_dek (env_crypto e) (env_cfg e) (env_token e base)) of
         None \<Rightarrow> Inl Key_error
       | Some fernet \<Rightarrow>
           (let r = demo_case e base org locs idx m ts fernet; i = rep_id r in
            Inr (seeded @ [r],
              d\<lparr>db_reports := db_reports d @ [r], db_messages := db_messages d @ demo_messages e base i m ts,
                db_notes := db_notes d @ (if dm_status m \<in> {In_review, Pending_feedback, Closed}
                                          then [demo_note e (base + 6) i admin] else []),
                db_audit := db_audit d @ [demo_entry e (base + 7) i admin (dt_acknowledged ts \<noteq> None)]\<rparr>)))))"

fun seed_reports ::
  "env \<Rightarrow> uuid option \<Rightarrow> location \<times> location \<Rightarrow> user \<Rightarrow> (nat \<times> demo_report) list \<Rightarrow> report list \<times> db \<Rightarrow> seed_error + (report list \<times> db)" where
  "seed_reports e org locs admin [] s = Inr s"
| "seed_reports e org locs admin (m # ms) s =
     on_ok (seed_report e org locs admin m s) (\<lambda>s'. seed_reports e org locs admin ms s')"

definition link_first_two :: "env \<Rightarrow> user \<Rightarrow> report list \<Rightarrow> db \<Rightarrow> seed_error + db" where
  "link_first_two e admin seeded d =
     (case seeded of
        x # y # _ \<Rightarrow>
          (let (a, b) = (if rep_id x < rep_id y then (rep_id x, rep_id y) else (rep_id y, rep_id x)) in
           on_ok (one_or_none (filter (\<lambda>l. lnk_a l = a \<and> lnk_b l = b) (db_links d))) (\<lambda>found.
             Inr (if found \<noteq> None then d
                  else d\<lparr>db_links := db_links d @
                    [\<lparr>lnk_id = env_id e 5, lnk_a = a, lnk_b = b, lnk_by = Some (usr_id admin),
                      lnk_by_name = usr_username admin, lnk_at = env_now e\<rparr>]\<rparr>)))
      | _ \<Rightarrow> Inr d)"

section \<open>The seeder\<close>

definition seed_org :: "settings \<Rightarrow> db \<Rightarrow> uuid option" where
  "seed_org cfg d = map_option org_id (find (\<lambda>x. org_slug x = cfg_default_org_slug cfg) (db_orgs d))"

definition seed :: "env \<Rightarrow> db \<Rightarrow> seed_error + db" where
  "seed e d =
     (if is_foreign_database d then Inr d
      else (let org = seed_org (env_cfg e) d in
        on_ok (ensure_user e 0 DEMO_ADMIN_USERNAME Admin d) (\<lambda>(admin, d1).
        on_ok (ensure_user e 1 DEMO_CM_USERNAME Case_manager d1) (\<lambda>(case_mgr, d2).
        let (second, d3) = ensure_second e d2;
            d4 = give_org org [usr_id admin, usr_id case_mgr, usr_id second] d3 in
        on_ok (ensure_location e 3 ''Headquarters'' ''HQ'' ''Main office location'' 0 org d4) (\<lambda>(hq, d5).
        on_ok (ensure_location e 4 ''Remote / Home Office'' ''REMOTE'' ''Remote workers and home office'' 10 org d5) (\<lambda>(remote, d6).
        on_ok (seed_reports e org (hq, remote) admin (enumerate 0 DEMO_REPORTS) ([], complete_setup e d6)) (\<lambda>(seeded, d7).
          link_first_two e admin seeded d7)))))))"

section \<open>Seeding once\<close>

lemma one_or_none_Inr:
  "one_or_none rows = Inr x \<longleftrightarrow> (case x of None \<Rightarrow> rows = [] | Some y \<Rightarrow> rows = [y])"
  by (auto simp: one_or_none_def split: list.splits option.splits)

definition only :: "('r \<Rightarrow> bool) \<Rightarrow> 'r list \<Rightarrow> bool" where
  "only p rows \<longleftrightarrow> (\<exists>x. filter p rows = [x])"

lemma only_append: "only p rows \<Longrightarrow> filter p extra = [] \<Longrightarrow> only p (rows @ extra)"
  by (auto simp: only_def)

lemma only_map: "only p rows \<Longrightarrow> (\<And>x. p (f x) = p x) \<Longrightarrow> only p (map f rows)"
  by (auto simp: only_def filter_map comp_def)

text \<open>What an operation may do to the tables: append rows, and give an account without an organisation one.\<close>

definition named_rows :: "db \<Rightarrow> (uuid \<times> string) list" where
  "named_rows d = map (\<lambda>u. (usr_id u, usr_username u)) (db_users d)"

lemma ensure_user_Inr:
  assumes "ensure_user e n name r d = Inr (u, d')"
  shows "\<exists>new. d' = d\<lparr>db_users := db_users d @ new\<rparr> \<and> (\<forall>x \<in> set new. usr_username x = name) \<and>
    filter (\<lambda>u. usr_username u = name) (db_users d') = [u]"
proof -
  from assms obtain found where f: "one_or_none (filter (\<lambda>u. usr_username u = name) (db_users d)) = Inr found"
    and u: "(case found of Some u \<Rightarrow> Inr (u, d) | None \<Rightarrow>
        Inr (demo_user e n name r, d\<lparr>db_users := db_users d @ [demo_user e n name r]\<rparr>)) = (Inr (u, d') :: seed_error + (user \<times> db))"
    unfolding ensure_user_def on_ok_Inr Let_def by blast
  show ?thesis
  proof (cases found)
    case None
    with f u show ?thesis
      by (intro exI [of _ "[demo_user e n name r]"]) (auto simp: one_or_none_Inr demo_user_def)
  next
    case (Some x)
    with f u show ?thesis by (intro exI [of _ "[]"]) (auto simp: one_or_none_Inr)
  qed
qed

lemma ensure_second_eq:
  assumes "ensure_second e d = (u, d')"
  shows "\<exists>new. d' = d\<lparr>db_users := db_users d @ new\<rparr> \<and> (\<forall>x \<in> set new. usr_username x = DEMO_ADMIN2_USERNAME) \<and>
    find (\<lambda>u. usr_username u = DEMO_ADMIN2_USERNAME) (db_users d') = Some u"
proof (cases "find (\<lambda>u. usr_username u = DEMO_ADMIN2_USERNAME) (db_users d)")
  case None
  have app: "find p (xs @ ys) = (case find p xs of None \<Rightarrow> find p ys | Some x \<Rightarrow> Some x)" for p and xs ys :: "user list"
    by (induction xs) auto
  from None assms show ?thesis
    by (intro exI [of _ "[demo_user e 2 DEMO_ADMIN2_USERNAME Admin]"])
      (auto simp: ensure_second_def Let_def app demo_user_def)
next
  case (Some x)
  with assms show ?thesis by (intro exI [of _ "[]"]) (auto simp: ensure_second_def)
qed

lemma ensure_location_Inr:
  assumes "ensure_location e n name code about k org d = Inr (l, d')"
  shows "\<exists>new. d' = d\<lparr>db_locations := db_locations d @ new\<rparr> \<and> (\<forall>x \<in> set new. loc_code x = code) \<and>
    only (\<lambda>l. loc_code l = code) (db_locations d')"
proof -
  let ?new = "\<lparr>loc_id = env_id e n, loc_name = name, loc_code = code, loc_description = Some about, loc_active = True,
                     loc_sort = k, loc_created_at = env_now e, loc_org = org\<rparr>"
  from assms obtain found where f: "one_or_none (filter (\<lambda>l. loc_code l = code) (db_locations d)) = Inr found"
    and l: "(case found of Some l \<Rightarrow> Inr (l, d) | None \<Rightarrow> Inr (?new, d\<lparr>db_locations := db_locations d @ [?new]\<rparr>)) =
      (Inr (l, d') :: seed_error + (location \<times> db))"
    unfolding ensure_location_def on_ok_Inr Let_def by blast
  show ?thesis
  proof (cases found)
    case None
    with f l show ?thesis by (intro exI [of _ "[?new]"]) (auto simp: one_or_none_Inr only_def)
  next
    case (Some x)
    with f l show ?thesis by (intro exI [of _ "[]"]) (auto simp: one_or_none_Inr only_def)
  qed
qed

text \<open>Rows of the case tables that were added.\<close>

definition more_cases :: "db \<Rightarrow> db \<Rightarrow> bool" where
  "more_cases d d' \<longleftrightarrow>
     (\<exists>rs ms ns as ls. d' = d\<lparr>db_reports := db_reports d @ rs, db_messages := db_messages d @ ms, db_notes := db_notes d @ ns,
        db_audit := db_audit d @ as, db_links := db_links d @ ls\<rparr>)"

lemma more_cases_refl [simp]: "more_cases d d"
  unfolding more_cases_def by (intro exI [of _ "[]"]) simp

lemma more_cases_trans: "more_cases a b \<Longrightarrow> more_cases b c \<Longrightarrow> more_cases a c"
  unfolding more_cases_def by (elim exE, simp) (metis append_assoc)

lemma demo_case_number [simp]: "rep_case_number (demo_case e base org locs idx m ts fernet) = dm_case_number m"
  by (simp add: demo_case_def Let_def)

lemma seed_report_cases:
  assumes "seed_report e org locs admin (idx, m) (seeded, d) = Inr (seeded', d')"
  obtains x where "filter (\<lambda>r. rep_case_number r = dm_case_number m) (db_reports d) = [x]" "seeded' = seeded" "d' = d"
  | ts fernet where "filter (\<lambda>r. rep_case_number r = dm_case_number m) (db_reports d) = []"
      "demo_times_of (env_now e) m = Inr ts"
      "let base = 10 + 8 * idx; r = demo_case e base org locs idx m ts fernet; i = rep_id r
       in seeded' = seeded @ [r] \<and>
          d' = d\<lparr>db_reports := db_reports d @ [r], db_messages := db_messages d @ demo_messages e base i m ts,
                db_notes := db_notes d @ (if dm_status m \<in> {In_review, Pending_feedback, Closed}
                                          then [demo_note e (base + 6) i admin] else []),
                db_audit := db_audit d @ [demo_entry e (base + 7) i admin (dt_acknowledged ts \<noteq> None)]\<rparr>"
proof -
  from assms obtain found where f: "one_or_none (filter (\<lambda>r. rep_case_number r = dm_case_number m) (db_reports d)) = Inr found"
    unfolding seed_report_def prod.case on_ok_Inr by blast
  show thesis
  proof (cases found)
    case None
    then have no: "filter (\<lambda>r. rep_case_number r = dm_case_number m) (db_reports d) = []" using f by (simp add: one_or_none_Inr)
    show thesis
    proof (cases "demo_times_of (env_now e) m")
      case (Inr ts)
      let ?base = "10 + 8 * idx"
      show thesis
      proof (cases "make_report_fernet (env_crypto e) (env_cfg e) (encrypt_dek (env_crypto e) (env_cfg e) (env_token e ?base))")
        case (Some fernet)
        show thesis
          by (rule that(2) [OF no Inr, of fernet]) (use assms in \<open>simp add: seed_report_def f None Inr Some Let_def\<close>)
      qed (use assms in \<open>simp add: seed_report_def f None Inr Let_def\<close>)
    qed (use assms in \<open>simp add: seed_report_def f None\<close>)
  next
    case (Some x)
    show thesis by (rule that(1) [of x]) (use assms f Some in \<open>simp_all add: seed_report_def one_or_none_Inr\<close>)
  qed
qed

lemma seed_report_Inr:
  assumes "seed_report e org locs admin (idx, m) (seeded, d) = Inr (seeded', d')"
  shows "more_cases d d' \<and> (\<exists>new. db_reports d' = db_reports d @ new \<and> (\<forall>x \<in> set new. rep_case_number x = dm_case_number m)) \<and>
    only (\<lambda>r. rep_case_number r = dm_case_number m) (db_reports d')"
  using assms
proof (cases rule: seed_report_cases)
  case (1 x)
  then show ?thesis by (simp add: only_def)
next
  case (2 ts fernet)
  then obtain r ms ns as where d': "d' = d\<lparr>db_reports := db_reports d @ [r], db_messages := db_messages d @ ms, db_notes := db_notes d @ ns,
              db_audit := db_audit d @ as\<rparr>" and "rep_case_number r = dm_case_number m"
    unfolding Let_def using demo_case_number by blast
  moreover have "more_cases d d'" unfolding d' more_cases_def
    by (rule exI [of _ "[r]"], rule exI [of _ ms], rule exI [of _ ns], rule exI [of _ as], rule exI [of _ "[]"]) simp
  ultimately show ?thesis using 2(1) by (simp add: only_def)
qed

lemma seed_reports_Inr:
  assumes "seed_reports e org locs admin ms s = Inr s'" "distinct (map (dm_case_number \<circ> snd) ms)"
  shows "more_cases (snd s) (snd s') \<and>
    (\<exists>new. db_reports (snd s') = db_reports (snd s) @ new \<and> (\<forall>x \<in> set new. rep_case_number x \<in> (dm_case_number \<circ> snd) ` set ms)) \<and>
    (\<forall>m \<in> set ms. only (\<lambda>r. rep_case_number r = dm_case_number (snd m)) (db_reports (snd s')))"
  using assms
proof (induction ms arbitrary: s)
  case (Cons m ms)
  obtain idx x where m: "m = (idx, x)" by (cases m)
  obtain seeded d where s: "s = (seeded, d)" by (cases s)
  from Cons.prems(1) obtain seeded1 d1 where one: "seed_report e org locs admin (idx, x) (seeded, d) = Inr (seeded1, d1)"
    and rest: "seed_reports e org locs admin ms (seeded1, d1) = Inr s'" by (auto simp: on_ok_Inr m s)
  from seed_report_Inr [OF one] obtain new1 where new1: "more_cases d d1" "db_reports d1 = db_reports d @ new1"
    "\<forall>y \<in> set new1. rep_case_number y = dm_case_number x" "only (\<lambda>r. rep_case_number r = dm_case_number x) (db_reports d1)" by blast
  from Cons.IH [OF rest] Cons.prems(2) obtain new2 where new2: "more_cases d1 (snd s')" "db_reports (snd s') = db_reports d1 @ new2"
    "\<forall>y \<in> set new2. rep_case_number y \<in> (dm_case_number \<circ> snd) ` set ms"
    "\<forall>m \<in> set ms. only (\<lambda>r. rep_case_number r = dm_case_number (snd m)) (db_reports (snd s'))" by auto
  have "filter (\<lambda>r. rep_case_number r = dm_case_number x) new2 = []"
    using new2(3) Cons.prems(2) by (force simp: filter_empty_conv m)
  from only_append [OF new1(4) this] have "only (\<lambda>r. rep_case_number r = dm_case_number x) (db_reports (snd s'))"
    by (simp add: new2(2))
  then show ?case using new1 new2 more_cases_trans [OF new1(1) new2(1)] by (auto simp: m s)
qed auto

lemma seed_reports_again:
  assumes "\<forall>m \<in> set ms. only (\<lambda>r. rep_case_number r = dm_case_number (snd m)) (db_reports d)"
  shows "seed_reports e org locs admin ms ([], d) = Inr ([], d)"
  using assms
proof (induction ms)
  case (Cons m ms)
  obtain idx x where m: "m = (idx, x)" by (cases m)
  from Cons.prems obtain r where "filter (\<lambda>r. rep_case_number r = dm_case_number x) (db_reports d) = [r]"
    by (auto simp: only_def m)
  then have "seed_report e org locs admin m ([], d) = Inr ([], d)" by (simp add: seed_report_def m one_or_none_def)
  with Cons show ?case by simp
qed simp

lemma more_links: "more_cases d (d\<lparr>db_links := db_links d @ ls\<rparr>)"
  unfolding more_cases_def by (rule exI [of _ "[]"], rule exI [of _ "[]"], rule exI [of _ "[]"], rule exI [of _ "[]"], rule exI [of _ ls]) simp

lemma link_more_cases:
  assumes "link_first_two e admin seeded d = Inr d'"
  shows "more_cases d d' \<and> db_reports d' = db_reports d"
proof -
  from assms consider "d' = d" | l where "d' = d\<lparr>db_links := db_links d @ [l]\<rparr>"
    by (fastforce simp: link_first_two_def on_ok_Inr Let_def split: list.splits if_splits)
  then show ?thesis by cases (simp_all add: more_links)
qed

lemma demo_numbers_distinct: "distinct (map (dm_case_number \<circ> snd) (enumerate 0 DEMO_REPORTS))"
  by (simp add: DEMO_REPORTS_def)

lemma ensure_user_again: "filter (\<lambda>u. usr_username u = name) (db_users d) = [u] \<Longrightarrow> ensure_user e n name r d = Inr (u, d)"
  by (simp add: ensure_user_def one_or_none_def)

lemma ensure_location_again: "only (\<lambda>l. loc_code l = code) (db_locations d) \<Longrightarrow> \<exists>l. ensure_location e n name code about k org d = Inr (l, d)"
  by (auto simp: only_def ensure_location_def one_or_none_def)

definition with_org :: "uuid option \<Rightarrow> uuid list \<Rightarrow> user \<Rightarrow> user" where
  "with_org org accounts u = (if usr_id u \<in> set accounts \<and> usr_org u = None then u\<lparr>usr_org := org\<rparr> else u)"

lemma with_org_same [simp]: "usr_id (with_org org accounts u) = usr_id u" "usr_username (with_org org accounts u) = usr_username u"
  by (simp_all add: with_org_def)

lemma with_org_again: "with_org org accounts (with_org org accounts u) = with_org org accounts u"
  by (simp add: with_org_def)

lemma give_org_eq: "give_org org accounts d = d\<lparr>db_users := map (with_org org accounts) (db_users d)\<rparr>"
proof -
  have "with_org org accounts = (\<lambda>u. if usr_id u \<in> set accounts \<and> usr_org u = None then u\<lparr>usr_org := org\<rparr> else u)"
    by (rule ext) (simp add: with_org_def)
  then show ?thesis by (simp add: give_org_def)
qed

lemma give_org_again:
  assumes "db_users d = map (with_org org accounts) us"
  shows "give_org org accounts d = d"
proof -
  have "map (with_org org accounts) (db_users d) = db_users d" by (simp add: assms with_org_again)
  then show ?thesis by (simp add: give_org_eq)
qed

lemma find_map_names: "find (\<lambda>u. usr_username u = n) (map (with_org org accounts) us) =
    map_option (with_org org accounts) (find (\<lambda>u. usr_username u = n) us)"
  by (induction us) simp_all

lemma filter_map_names: "filter (\<lambda>u. usr_username u = n) (map (with_org org accounts) us) =
    map (with_org org accounts) (filter (\<lambda>u. usr_username u = n) us)"
  by (induction us) simp_all

lemma filter_other_names: "\<forall>x \<in> set us. usr_username x = m \<Longrightarrow> m \<noteq> n \<Longrightarrow> filter (\<lambda>u. usr_username u = n) us = []"
  by (auto simp: filter_empty_conv)

lemma complete_setup_done: "db_setup (complete_setup e d) = Some s \<Longrightarrow> set_completed s"
  by (auto simp: complete_setup_def split: option.splits if_splits)

lemma complete_setup_some: "\<exists>s. db_setup (complete_setup e d) = Some s \<and> set_completed s"
  by (auto simp: complete_setup_def split: option.splits)

lemma complete_setup_tables [simp]:
  "db_users (complete_setup e d) = db_users d" "db_locations (complete_setup e d) = db_locations d"
  "db_reports (complete_setup e d) = db_reports d" "db_orgs (complete_setup e d) = db_orgs d"
  "db_messages (complete_setup e d) = db_messages d" "db_notes (complete_setup e d) = db_notes d"
  "db_audit (complete_setup e d) = db_audit d" "db_links (complete_setup e d) = db_links d"
  by (simp_all add: complete_setup_def split: option.splits)

lemma more_cases_tables:
  assumes "more_cases d d'"
  shows "db_users d' = db_users d" "db_locations d' = db_locations d" "db_orgs d' = db_orgs d" "db_setup d' = db_setup d"
    "\<exists>rs. db_reports d' = db_reports d @ rs" "\<exists>ms. db_messages d' = db_messages d @ ms" "\<exists>ns. db_notes d' = db_notes d @ ns"
    "\<exists>as. db_audit d' = db_audit d @ as" "\<exists>ls. db_links d' = db_links d @ ls"
  using assms by (auto simp: more_cases_def)

lemma DEMO_names: "DEMO_CM_USERNAME \<noteq> DEMO_ADMIN_USERNAME" "DEMO_ADMIN2_USERNAME \<noteq> DEMO_ADMIN_USERNAME"
    "DEMO_ADMIN2_USERNAME \<noteq> DEMO_CM_USERNAME"
  by (simp_all add: DEMO_CM_USERNAME_def DEMO_ADMIN_USERNAME_def DEMO_ADMIN2_USERNAME_def)

lemma seed_steps:
  assumes "seed e d = Inr d'" "\<not> is_foreign_database d"
  obtains us new accounts ls s where
    "db_users d' = map (with_org (seed_org (env_cfg e) d) accounts) (db_users d @ new)"
    "filter (\<lambda>u. usr_username u = DEMO_ADMIN_USERNAME) (db_users d @ new) = [us ! 0]"
    "filter (\<lambda>u. usr_username u = DEMO_CM_USERNAME) (db_users d @ new) = [us ! 1]"
    "find (\<lambda>u. usr_username u = DEMO_ADMIN2_USERNAME) (db_users d @ new) = Some (us ! 2)"
    "accounts = map usr_id [us ! 0, us ! 1, us ! 2]"
    "db_orgs d' = db_orgs d" "db_setup d' = Some s" "set_completed s"
    "db_locations d' = db_locations d @ ls" "only (\<lambda>l. loc_code l = ''HQ'') (db_locations d')"
    "only (\<lambda>l. loc_code l = ''REMOTE'') (db_locations d')"
    "\<forall>m \<in> set (enumerate 0 DEMO_REPORTS). only (\<lambda>r. rep_case_number r = dm_case_number (snd m)) (db_reports d')"
    "\<exists>rs. db_reports d' = db_reports d @ rs" "\<exists>ms. db_messages d' = db_messages d @ ms" "\<exists>ns. db_notes d' = db_notes d @ ns"
    "\<exists>as. db_audit d' = db_audit d @ as" "\<exists>ks. db_links d' = db_links d @ ks"
proof -
  let ?org = "seed_org (env_cfg e) d"
  from assms obtain admin a cm b where
    a: "ensure_user e 0 DEMO_ADMIN_USERNAME Admin d = Inr (admin, a)"
    and b: "ensure_user e 1 DEMO_CM_USERNAME Case_manager a = Inr (cm, b)"
    by (auto simp: seed_def Let_def on_ok_Inr simp del: One_nat_def)
  obtain second c where c: "ensure_second e b = (second, c)" by fastforce
  define g where "g = give_org ?org [usr_id admin, usr_id cm, usr_id second] c"
  from assms obtain hq h remote i seeded k where
    h: "ensure_location e 3 ''Headquarters'' ''HQ'' ''Main office location'' 0 ?org g = Inr (hq, h)"
    and i: "ensure_location e 4 ''Remote / Home Office'' ''REMOTE'' ''Remote workers and home office'' 10 ?org h = Inr (remote, i)"
    and k: "seed_reports e ?org (hq, remote) admin (enumerate 0 DEMO_REPORTS) ([], complete_setup e i) = Inr (seeded, k)"
    and d': "link_first_two e admin seeded k = Inr d'"
    by (auto simp: seed_def Let_def on_ok_Inr a b c g_def simp del: One_nat_def)
  from ensure_user_Inr [OF a] obtain n1 where n1: "a = d\<lparr>db_users := db_users d @ n1\<rparr>"
    "\<forall>x \<in> set n1. usr_username x = DEMO_ADMIN_USERNAME" "filter (\<lambda>u. usr_username u = DEMO_ADMIN_USERNAME) (db_users a) = [admin]" by blast
  from ensure_user_Inr [OF b] obtain n2 where n2: "b = a\<lparr>db_users := db_users a @ n2\<rparr>"
    "\<forall>x \<in> set n2. usr_username x = DEMO_CM_USERNAME" "filter (\<lambda>u. usr_username u = DEMO_CM_USERNAME) (db_users b) = [cm]" by blast
  from ensure_second_eq [OF c] obtain n3 where n3: "c = b\<lparr>db_users := db_users b @ n3\<rparr>"
    "\<forall>x \<in> set n3. usr_username x = DEMO_ADMIN2_USERNAME" "find (\<lambda>u. usr_username u = DEMO_ADMIN2_USERNAME) (db_users c) = Some second" by blast
  from ensure_location_Inr [OF h] obtain l1 where l1: "h = g\<lparr>db_locations := db_locations g @ l1\<rparr>"
    "\<forall>x \<in> set l1. loc_code x = ''HQ''" "only (\<lambda>l. loc_code l = ''HQ'') (db_locations h)" by blast
  from ensure_location_Inr [OF i] obtain l2 where l2: "i = h\<lparr>db_locations := db_locations h @ l2\<rparr>"
    "\<forall>x \<in> set l2. loc_code x = ''REMOTE''" "only (\<lambda>l. loc_code l = ''REMOTE'') (db_locations i)" by blast
  from seed_reports_Inr [OF k demo_numbers_distinct] have reports: "more_cases (complete_setup e i) k"
    "\<forall>m \<in> set (enumerate 0 DEMO_REPORTS). only (\<lambda>r. rep_case_number r = dm_case_number (snd m)) (db_reports k)" by simp_all
  note link = link_more_cases [OF d']
  have cases: "more_cases (complete_setup e i) d'" using more_cases_trans [OF reports(1)] link by blast
  have users: "db_users c = db_users d @ n1 @ n2 @ n3" "db_users a = db_users d @ n1" "db_users b = db_users d @ n1 @ n2"
    using n1 n2 n3 by simp_all
  have g: "db_users g = map (with_org ?org [usr_id admin, usr_id cm, usr_id second]) (db_users c)" "db_orgs g = db_orgs d"
    "db_locations g = db_locations d" "db_reports g = db_reports d" "db_messages g = db_messages d" "db_notes g = db_notes d"
    "db_audit g = db_audit d" "db_links g = db_links d"
    using n1(1) n2(1) n3(1) by (simp_all add: g_def give_org_eq)
  obtain s where s: "db_setup (complete_setup e i) = Some s" "set_completed s" using complete_setup_some by blast
  have "only (\<lambda>l. loc_code l = ''HQ'') (db_locations i)"
    using only_append [OF l1(3), of l2] l2(1,2) by (auto simp: filter_empty_conv)
  then have locs: "only (\<lambda>l. loc_code l = ''HQ'') (db_locations d')" "only (\<lambda>l. loc_code l = ''REMOTE'') (db_locations d')"
    using l2(3) by (simp_all add: more_cases_tables(2) [OF cases])
  show thesis
  proof (rule that [of "[usr_id admin, usr_id cm, usr_id second]" "n1 @ n2 @ n3" "[admin, cm, second]" s "l1 @ l2"])
    show "db_users d' = map (with_org ?org [usr_id admin, usr_id cm, usr_id second]) (db_users d @ n1 @ n2 @ n3)"
      using l1(1) l2(1) by (simp add: more_cases_tables(1) [OF cases] g users)
    show "filter (\<lambda>u. usr_username u = DEMO_ADMIN_USERNAME) (db_users d @ n1 @ n2 @ n3) = [[admin, cm, second] ! 0]"
      using n1(3) filter_other_names [OF n2(2) DEMO_names(1)] filter_other_names [OF n3(2) DEMO_names(2)] by (simp add: users)
    show "filter (\<lambda>u. usr_username u = DEMO_CM_USERNAME) (db_users d @ n1 @ n2 @ n3) = [[admin, cm, second] ! 1]"
      using n2(3) filter_other_names [OF n3(2) DEMO_names(3)] by (simp add: users)
    show "find (\<lambda>u. usr_username u = DEMO_ADMIN2_USERNAME) (db_users d @ n1 @ n2 @ n3) = Some ([admin, cm, second] ! 2)"
      using n3(3) by (simp add: users)
    show "db_orgs d' = db_orgs d" "db_setup d' = Some s" "set_completed s" "db_locations d' = db_locations d @ l1 @ l2"
      using l1(1) l2(1) s by (simp_all add: more_cases_tables(2-4) [OF cases] g)
    show "\<forall>m \<in> set (enumerate 0 DEMO_REPORTS). only (\<lambda>r. rep_case_number r = dm_case_number (snd m)) (db_reports d')"
      using reports(2) link by simp
    have same: "db_reports (complete_setup e i) = db_reports d" "db_messages (complete_setup e i) = db_messages d"
      "db_notes (complete_setup e i) = db_notes d" "db_audit (complete_setup e i) = db_audit d" "db_links (complete_setup e i) = db_links d"
      using l1(1) l2(1) by (simp_all add: g)
    show "\<exists>rs. db_reports d' = db_reports d @ rs" "\<exists>ms. db_messages d' = db_messages d @ ms" "\<exists>ns. db_notes d' = db_notes d @ ns"
      "\<exists>as. db_audit d' = db_audit d @ as" "\<exists>ks. db_links d' = db_links d @ ks"
      using more_cases_tables(5-9) [OF cases] unfolding same by blast+
  qed (use locs in simp_all)
qed

text \<open>
  Demo data never touches what is there: a real installation started in demo mode stays as it is, and in a
  demo database every case, message, note, link, place and log entry stays, an account changes in nothing but
  a missing organisation; and a second start, at any time and with other random draws, adds nothing at all.
\<close>

theorem demo_seed_adds_once:
  assumes run: "seed e d = Inr d'" and slug: "cfg_default_org_slug (env_cfg f) = cfg_default_org_slug (env_cfg e)"
  shows "seed f d' = Inr d' \<and> (is_foreign_database d \<longrightarrow> d' = d) \<and> db_orgs d' = db_orgs d \<and>
    take (length (db_reports d)) (db_reports d') = db_reports d \<and> take (length (db_messages d)) (db_messages d') = db_messages d \<and>
    take (length (db_notes d)) (db_notes d') = db_notes d \<and> take (length (db_links d)) (db_links d') = db_links d \<and>
    take (length (db_locations d)) (db_locations d') = db_locations d \<and> take (length (db_audit d)) (db_audit d') = db_audit d \<and>
    (\<forall>k < length (db_users d). db_users d' ! k = db_users d ! k \<or>
       (usr_org (db_users d ! k) = None \<and> db_users d' ! k = (db_users d ! k)\<lparr>usr_org := seed_org (env_cfg e) d\<rparr>))"
proof (cases "is_foreign_database d")
  case True
  then have "d' = d" using run by (simp add: seed_def)
  with True show ?thesis by (simp add: seed_def)
next
  case False
  obtain us new accounts ls s where users: "db_users d' = map (with_org (seed_org (env_cfg e) d) accounts) (db_users d @ new)"
    and found: "filter (\<lambda>u. usr_username u = DEMO_ADMIN_USERNAME) (db_users d @ new) = [us ! 0]"
      "filter (\<lambda>u. usr_username u = DEMO_CM_USERNAME) (db_users d @ new) = [us ! 1]"
      "find (\<lambda>u. usr_username u = DEMO_ADMIN2_USERNAME) (db_users d @ new) = Some (us ! 2)"
    and accounts: "accounts = map usr_id [us ! 0, us ! 1, us ! 2]"
    and rest: "db_orgs d' = db_orgs d" "db_setup d' = Some s" "set_completed s"
      "db_locations d' = db_locations d @ ls" "only (\<lambda>l. loc_code l = ''HQ'') (db_locations d')"
      "only (\<lambda>l. loc_code l = ''REMOTE'') (db_locations d')"
      "\<forall>m \<in> set (enumerate 0 DEMO_REPORTS). only (\<lambda>r. rep_case_number r = dm_case_number (snd m)) (db_reports d')"
    and kept: "\<exists>rs. db_reports d' = db_reports d @ rs" "\<exists>ms. db_messages d' = db_messages d @ ms" "\<exists>ns. db_notes d' = db_notes d @ ns"
      "\<exists>as. db_audit d' = db_audit d @ as" "\<exists>ks. db_links d' = db_links d @ ks"
    by (rule seed_steps [OF run False])
  let ?org = "seed_org (env_cfg e) d"
  let ?w = "with_org ?org accounts"
  have again: "seed f d' = Inr d'"
  proof (cases "is_foreign_database d'")
    case False
    have org: "seed_org (env_cfg f) d' = ?org" using slug rest(1) by (simp add: seed_org_def)
    have a: "ensure_user f 0 DEMO_ADMIN_USERNAME Admin d' = Inr (?w (us ! 0), d')"
      by (rule ensure_user_again) (simp only: users filter_map_names found list.map)
    have b: "ensure_user f 1 DEMO_CM_USERNAME Case_manager d' = Inr (?w (us ! 1), d')"
      by (rule ensure_user_again) (simp only: users filter_map_names found list.map)
    have "find (\<lambda>u. usr_username u = DEMO_ADMIN2_USERNAME) (db_users d') = Some (?w (us ! 2))"
      by (simp only: users find_map_names found option.map)
    then have c: "ensure_second f d' = (?w (us ! 2), d')" by (simp add: ensure_second_def)
    have orgs: "give_org ?org [usr_id (us ! 0), usr_id (us ! 1), usr_id (us ! 2)] d' = d'"
      using give_org_again [OF users] accounts by simp
    obtain hq remote where h: "ensure_location f 3 ''Headquarters'' ''HQ'' ''Main office location'' 0 ?org d' = Inr (hq, d')"
      and i: "ensure_location f 4 ''Remote / Home Office'' ''REMOTE'' ''Remote workers and home office'' 10 ?org d' = Inr (remote, d')"
      using ensure_location_again [OF rest(5)] ensure_location_again [OF rest(6)] by blast
    have done': "complete_setup f d' = d'" using rest(2,3) by (simp add: complete_setup_def)
    from False show ?thesis
      by (simp add: seed_def Let_def org a b c orgs h i done' seed_reports_again [OF rest(7)] link_first_two_def del: One_nat_def)
  qed (simp add: seed_def)
  have user: "db_users d' ! k = db_users d ! k \<or>
      (usr_org (db_users d ! k) = None \<and> db_users d' ! k = (db_users d ! k)\<lparr>usr_org := ?org\<rparr>)" if "k < length (db_users d)" for k
    using that by (simp add: users nth_append with_org_def)
  have front: "take (length xs) ys = xs" if "\<exists>zs. ys = xs @ zs" for xs ys :: "'z list" using that by auto
  show ?thesis
    using again user False rest(1,4) front [OF kept(1)] front [OF kept(2)] front [OF kept(3)] front [OF kept(4)] front [OF kept(5)]
    by simp
qed

text \<open>A demo database whose cases outlived its accounts.\<close>

definition half_seeded :: db where
  "half_seeded = empty_db\<lparr>db_reports := map (\<lambda>(k, m). (sample_report k None None)\<lparr>rep_case_number := dm_case_number m\<rparr>)
     (enumerate 0 DEMO_REPORTS)\<rparr>"

theorem demo_seed_adds_once_witness:
  "\<exists>d'. seed sample_env half_seeded = Inr d' \<and> map usr_username (db_users d') = [''demo'', ''case_manager'', ''demo2''] \<and>
     length (db_reports half_seeded) = 4 \<and> seed (sample_env\<lparr>env_now := 9\<rparr>) d' = Inr d'"
proof -
  have "(case seed sample_env half_seeded of Inr d' \<Rightarrow> map usr_username (db_users d') = [''demo'', ''case_manager'', ''demo2''] | Inl _ \<Rightarrow> False)"
    by code_simp
  then obtain d' where d': "seed sample_env half_seeded = Inr d'" "map usr_username (db_users d') = [''demo'', ''case_manager'', ''demo2'']"
    by (auto split: sum.splits)
  have "cfg_default_org_slug (env_cfg (sample_env\<lparr>env_now := 9\<rparr>)) = cfg_default_org_slug (env_cfg sample_env)" by simp
  from demo_seed_adds_once [OF d'(1) this] d' show ?thesis by (auto simp: half_seeded_def DEMO_REPORTS_def)
qed

section \<open>A place's code is unique within one organisation only\<close>

text \<open>A visitor of another organisation who adds a place with the code HQ keeps the demo from starting again.\<close>

lemma second_headquarters_stop_the_start:
  assumes "\<not> is_foreign_database d" "ensure_user e 0 DEMO_ADMIN_USERNAME Admin d = Inr (admin, d)"
    "ensure_user e 1 DEMO_CM_USERNAME Case_manager d = Inr (cm, d)"
    "filter (\<lambda>l. loc_code l = ''HQ'') (db_locations d) = x # y # zs"
  shows "seed e d = Inl Several_rows"
proof -
  obtain second c where c: "ensure_second e d = (second, c)" by fastforce
  have "db_locations c = db_locations d" using ensure_second_eq [OF c] by auto
  then have "ensure_location e 3 ''Headquarters'' ''HQ'' ''Main office location'' 0 org (give_org org acc c) = Inl Several_rows" for org acc
    using assms(4) by (simp add: ensure_location_def give_org_eq one_or_none_def)
  with assms(1-3) c show ?thesis by (simp add: seed_def Let_def del: One_nat_def)
qed

end
