(* ===== verification/Spec2Isabelle.thy ===== *)
theory Spec2Isabelle
  imports Case_Guarantees Upload Rate_Limit Config Catalog User_Admin Draft_Protocol Reporter_Pages Two_Factors Own_Account
    Version_Check Retention First_Run Maker_Walk Key_Rotation Branding Branding_Cache
    Pdf_Clean Audit_Pages Integrity Dashboard Consent Page_Frame Site_Pages Start_Up Command_Line
    Printed_Record Case_Page Office_Package Demo_Seed
begin

text \<open>
  OpenWhistle, a whistleblowing portal (\<open>app/\<close>): a verification library.

  \<^bold>\<open>The program.\<close> Reporters file a case through a wizard without an account and come back with a case
  number and a PIN; staff of an organisation handle it under statutory deadlines; several replicas of the
  process share one PostgreSQL database, one Redis and, where configured, an object store. What has to
  hold is that reporters stay unknown, that cases are neither lost nor seen by the wrong account, that one
  person alone cannot destroy a case, and that every act is on record.

  \<^bold>\<open>The model.\<close> The database is the record \<open>db\<close> (\<open>Domain\<close>): a list of row records for each table, in
  insertion order, with the ON DELETE rules written out. Redis is \<open>redis\<close> (\<open>Kv_Store\<close>): values with an
  expiry time, the clock an argument of every command. A request is given an \<open>env\<close>: the clock, the
  settings, its random identifiers and tokens, and the cryptographic functions (\<open>crypto\<close>). A handler is a
  function from the account, the form and these states to a refusal (\<open>Inl\<close>, after which nothing is
  committed) or the response with the new state (\<open>Inr\<close>). Where the source awaits between a check and a
  write, the function takes the state it checked (\<open>seen\<close>) and the state it writes, or the command is a step
  of an inductive relation, so that other requests can come between. Times are microseconds in the
  database, milliseconds in Redis and seconds in tokens, as in the source. Text is a list of characters
  below 256.

  \<^bold>\<open>Shared theories.\<close>
  \<^item> \<open>Prelude\<close>: bytes and slices, integers in bytes, Python's string functions.
  \<^item> \<open>Reachability\<close>: the locale \<open>invariant_system\<close>; each step relation below is an interpretation of it.
  \<^item> \<open>Segments\<close>: the locale \<open>segment_format\<close> for container formats, interpreted for PNG, WebP and JPEG.
  \<^item> \<open>Json\<close>: JSON values. \<open>Kv_Store\<close>: Redis with the locale \<open>expiring_store\<close>. \<open>Calendar\<close>: days and months.

  \<^bold>\<open>Who may do what.\<close>
  \<^item> \<open>Config\<close> (\<open>app/config.py\<close>): the settings and their validators.
  \<^item> \<open>Sessions\<close>, \<open>Access\<close> (\<open>services/auth.py\<close>, \<open>mfa.py\<close>, \<open>setup_token.py\<close>, \<open>api/deps.py\<close>): tokens, sessions,
    one-time codes and the gate of every admin route. \<open>admin_gate\<close> says what acting as an account takes;
    the locale \<open>tenant_listing\<close> says what a listing owes the organisations and is interpreted for
    cases, users, categories and locations.
  \<^item> \<open>Single_Sign_On\<close>, \<open>Sign_In\<close>, \<open>Two_Factors\<close>, \<open>Own_Account\<close> (\<open>services/oidc.py\<close>, \<open>ldap_auth.py\<close>,
    \<open>api/auth.py\<close>): each handler of the sign-in; then all of them as a step relation beside the list
    of what was proved, against which every session and waiting token is counted.
  \<^item> \<open>Rate_Limit\<close> (\<open>services/rate_limit.py\<close>): counters without addresses, and their attempts interleaved
    at single Redis commands.
  \<^item> \<open>User_Admin\<close>, \<open>First_Run\<close>, \<open>Command_Line\<close> (\<open>services/users.py\<close>, \<open>api/admin.py\<close>, \<open>api/wizard.py\<close>,
    \<open>scripts/reset_admin_password.py\<close>): accounts, the first one, and the operator's reset.
  \<^item> \<open>Middleware\<close> (\<open>app/middleware.py\<close>, \<open>csrf.py\<close>): addresses dropped, headers, CSRF, the upload budget.

  \<^bold>\<open>Cases.\<close>
  \<^item> \<open>Deadlines\<close> (\<open>services/deadlines.py\<close>), on \<open>Calendar\<close>.
  \<^item> \<open>Report_Service\<close>, \<open>Case_Service\<close> (\<open>services/report.py\<close>, \<open>pin.py\<close>): filing, reading, the thread, the status
    machine, the two steps of a deletion. \<open>Case_Handling\<close> (\<open>api/admin.py\<close>): the routes on them.
  \<^item> \<open>Case_Lifecycle\<close>, \<open>Four_Eyes\<close>, \<open>Maker_Walk\<close>, \<open>Case_Guarantees\<close>: all requests on cases as one step
    relation; the integrity of the tables, authorisation and audit of every act, deletion by two
    unrelated accounts, history, the reveal of an identity.
  \<^item> \<open>Case_Page\<close>, \<open>Printed_Record\<close> (\<open>api/admin.py\<close>, \<open>services/pdf.py\<close>): the context of a case's page, which offers what
    the routes accept, and the lines of its PDF, which withhold the reporter.
  \<^item> \<open>Dashboard\<close>, \<open>Consent\<close>, \<open>Audit_Trail\<close>, \<open>Audit_Pages\<close> (\<open>api/admin.py\<close>, \<open>services/audit.py\<close>): lists, the
    content search, statistics, the log, its pages and its export, the switches of the instance.
  \<^item> \<open>Reminders\<close>, \<open>Notifications\<close>, \<open>Retention\<close> (\<open>services/reminders.py\<close>, \<open>notifications.py\<close>, \<open>retention.py\<close>): the
    jobs, each under its Redis lock and, for the queue, by several replicas.

  \<^bold>\<open>Reporters.\<close>
  \<^item> \<open>Catalog\<close> (\<open>services/categories.py\<close>, \<open>locations.py\<close>): what an organisation offers.
  \<^item> \<open>Wizard\<close>, \<open>Submission\<close>, \<open>Reporter_Pages\<close> (\<open>api/reports.py\<close>): the draft and its steps, the final submit
    with every way database and object store can fail, the status page.
  \<^item> \<open>Draft_Claim\<close>, \<open>Draft_Protocol\<close>: the three Lua scripts, a refinement of them to a machine that holds a
    draft, its claim and its result, and the timed interleavings of submits, recoveries and saves.

  \<^bold>\<open>Data at rest.\<close>
  \<^item> \<open>Encryption\<close>, \<open>Key_Rotation\<close> (\<open>services/crypto.py\<close>, \<open>encryption.py\<close>, \<open>scripts/rotate_encryption_key.py\<close>).
  \<^item> \<open>Upload\<close>, \<open>Media_Strip\<close>, \<open>Jpeg_Strip\<close>, \<open>Image_Strip\<close>, \<open>Pdf_Clean\<close>, \<open>Attachment_Store\<close>
    (\<open>services/attachment.py\<close>, \<open>virus_scan.py\<close>, \<open>storage.py\<close>): checks, the scan, the metadata cleaners byte
    for byte, and the two stores.
  \<^item> \<open>Regex\<close>, \<open>Office_Parts\<close>, \<open>Office_Package\<close> (\<open>services/attachment.py\<close>): Python's \<open>re\<close> on bytes, the replacements in
    each kind of Office part, and the package written anew.

  \<^bold>\<open>The instance.\<close>
  \<^item> \<open>Telemetry\<close>, \<open>Version_Check\<close>, \<open>Integrity\<close> (\<open>services/telemetry.py\<close>, \<open>version_check.py\<close>, \<open>integrity.py\<close>).
  \<^item> \<open>Branding\<close>, \<open>Branding_Cache\<close>, \<open>Page_Frame\<close>, \<open>Site_Pages\<close> (\<open>services/branding.py\<close>, \<open>brand_image.py\<close>,
    \<open>api/branding.py\<close>, \<open>i18n.py\<close>, \<open>templating.py\<close>): brands, their shared cache, what every page is set in.
  \<^item> \<open>Start_Up\<close> (\<open>app/main.py\<close>): the checks before the first request, and the jobs.
  \<^item> \<open>Demo_Seed\<close> (\<open>services/demo_seed.py\<close>): the rows a start in demo mode adds, and that a second start adds none.

  \<^bold>\<open>Loops and bounds.\<close> Loops over bytes and over the objects of a PDF are functions whose measure is
  what is left to read or to visit, with their termination proofs; the accounts behind an account are
  found by a measure on those not yet seen (\<open>makers\<close>). The loop the source runs for that is also there
  with a number of rounds (\<open>makers_loop\<close>), and \<open>maker_walk_ends\<close> shows that two rounds more than there are
  accounts always return. Draws that the source repeats a fixed number of times repeat that often.
  Every other definition is structurally recursive, so a handler always returns.

  \<^bold>\<open>Hypotheses.\<close> Code that is not of the program is an argument: Fernet, HKDF, bcrypt, TOTP and JWT
  (\<open>crypto\<close>), Pillow (\<open>pillow\<close>, \<open>drawer\<close>), pypdf (\<open>pdf_library\<close>), zipfile (\<open>zip_library\<close>), SMTP, webhooks, the identity provider,
  the directory, the scan daemon, the object store, SHA-256 and the text form of JSON. A theorem names what
  it needs of them (\<open>fernet_ok\<close>, \<open>tokens_tell\<close>, \<open>codec\<close>'s round trip) and its witness gives an instance.

  \<^bold>\<open>Not modelled.\<close> What a template draws from the context of its page; fonts and layout of the PDF export;
  the floating-point contrast of a brand's colours; migrations and
  the repository's development scripts, which are data or schema statements; the TLS certificate, logging,
  the clients of Redis, SQL, SMTP, LDAP and S3, and FastAPI's wiring, which only call libraries.
\<close>

end
